(* ===== verification/Prelude.thy ===== *)
theory Prelude
  imports Main "HOL-Library.AList" "HOL-Library.List_Lexorder" "HOL-Library.Char_ord"
begin

text \<open>
  Shared vocabulary of the development: Python exceptions as values, the result type of a
  fallible operation, string helpers with the meaning of the Python methods the code calls,
  insertion-ordered dictionaries as association lists, and SQL tables as lists of rows.

  Strings are lists of bytes (the UTF-8 text).  Slices and lengths therefore count bytes, which is
  what Python counts for ASCII text.  Whitespace and case folding are those of ASCII.
\<close>

named_theorems table_simps \<open>rewriting rules for tables of rows\<close>
named_theorems dict_simps \<open>rewriting rules for dictionaries\<close>

type_synonym time = int \<comment> \<open>microseconds since the epoch, UTC\<close>

subsection \<open>Exceptions and results\<close>

text \<open>
  One constructor per exception class the modelled code raises or catches.  A class carries the
  message where the code stores or compares it; \<open>StoreError\<close> stands for whatever the store adapter
  (an HTTP service) raises, \<open>OperationalError\<close> for a locked or unreadable SQLite database.
\<close>

datatype exc =
    ValueError string
  | PermissionError string
  | RuntimeError string
  | KeyError string
  | TypeError string
  | AttributeError
  | JSONDecodeError
  | GovernanceConfigError string
  | ApprovalTransportError string
  | PrincipalValidationError string
  | AuditChainError string
  | OperationalError string
  | IntegrityError string
  | TagLockTimeout
  | OverflowError
  | InvalidOperation
  | ApprovalAuthError string
  | ApprovalStateError string
  | ApprovalNotFinalized
  | QuotaExceeded
  | TenantIsolationError
  | RtbfFinalizeInFlight int
  | PanellaDedupSkipped "string option"
  | PanellaUnknownWriteOutcome
  | StoreError string
  | RouterConfigError string
  | TransportError string
  | AllProvidersFailed string

type_synonym 'a res = "exc + 'a"

definition rbind :: "'a res \<Rightarrow> ('a \<Rightarrow> 'b res) \<Rightarrow> 'b res" where
  "rbind r f = (case r of Inl e \<Rightarrow> Inl e | Inr x \<Rightarrow> f x)"

lemma rbind_simps [simp]:
  "rbind (Inl e) f = Inl e"
  "rbind (Inr x) f = f x"
  by (simp_all add: rbind_def)

lemma rbind_Inr_iff: "rbind r f = Inr y \<longleftrightarrow> (\<exists>x. r = Inr x \<and> f x = Inr y)"
  by (cases r) auto

lemma rbind_cong [fundef_cong]:
  assumes "r = r'" and "\<And>x. r' = Inr x \<Longrightarrow> f x = f' x"
  shows "rbind r f = rbind r' f'"
  using assms by (cases r') auto

text \<open>Running a fallible operation over a list stops at the first exception.\<close>

fun map_res :: "('a \<Rightarrow> 'b res) \<Rightarrow> 'a list \<Rightarrow> 'b list res" where
  "map_res f [] = Inr []"
| "map_res f (x # xs) = rbind (f x) (\<lambda>y. rbind (map_res f xs) (\<lambda>ys. Inr (y # ys)))"

lemma map_res_member: "map_res f xs = Inr ys \<Longrightarrow> x \<in> set xs \<Longrightarrow> \<exists>y \<in> set ys. f x = Inr y"
  by (induction xs arbitrary: ys) (auto simp: rbind_Inr_iff)

definition is_ok :: "'a res \<Rightarrow> bool" where
  "is_ok r = (case r of Inl _ \<Rightarrow> False | Inr _ \<Rightarrow> True)"

lemma is_ok_simps [simp]: "\<not> is_ok (Inl e)" "is_ok (Inr x)"
  by (simp_all add: is_ok_def)

subsection \<open>Strings\<close>

definition py_space :: "char \<Rightarrow> bool" where
  "py_space c = (let n = of_char c :: nat in (9 \<le> n \<and> n \<le> 13) \<or> (28 \<le> n \<and> n \<le> 32))"

definition py_strip :: "string \<Rightarrow> string" where
  "py_strip s = rev (dropWhile py_space (rev (dropWhile py_space s)))"

definition py_lower_char :: "char \<Rightarrow> char" where
  "py_lower_char c = (let n = of_char c :: nat in if 65 \<le> n \<and> n \<le> 90 then char_of (n + 32) else c)"

definition py_lower :: "string \<Rightarrow> string" where
  "py_lower s = map py_lower_char s"

definition startswith :: "string \<Rightarrow> string \<Rightarrow> bool" where
  "startswith p s \<longleftrightarrow> take (length p) s = p"

text \<open>\<open>s.split(c, 1)\<close>: the text before the first \<open>c\<close>, and the text after it if there is one.\<close>

definition before_first :: "char \<Rightarrow> string \<Rightarrow> string" where
  "before_first c s = takeWhile (\<lambda>x. x \<noteq> c) s"

definition after_first :: "char \<Rightarrow> string \<Rightarrow> string option" where
  "after_first c s = (case dropWhile (\<lambda>x. x \<noteq> c) s of [] \<Rightarrow> None | _ # r \<Rightarrow> Some r)"

text \<open>\<open>s.split(c)\<close>, \<open>s.strip(chars)\<close> and \<open>xs[:k]\<close>, where a negative \<open>k\<close> counts from the end.\<close>

fun split_at :: "char \<Rightarrow> string \<Rightarrow> string list" where
  "split_at c [] = [[]]"
| "split_at c (x # s) =
     (if x = c then [] # split_at c s else (case split_at c s of [] \<Rightarrow> [[x]] | w # ws \<Rightarrow> (x # w) # ws))"

text \<open>\<open>s.replace(v, w)\<close> for a text \<open>v\<close> that is not empty.\<close>

fun replace_all :: "string \<Rightarrow> string \<Rightarrow> string \<Rightarrow> string" where
  "replace_all v w [] = []"
| "replace_all v w (c # s) =
     (if v \<noteq> [] \<and> startswith v (c # s) then w @ replace_all v w (drop (length v) (c # s)) else c # replace_all v w s)"

lemma dropWhile_shorter [termination_simp]: "length (dropWhile P s) < Suc (length s)"
  by (simp add: le_imp_less_Suc length_dropWhile_le)

definition strip_chars :: "(char \<Rightarrow> bool) \<Rightarrow> string \<Rightarrow> string" where
  "strip_chars P s = rev (dropWhile P (rev (dropWhile P s)))"

definition py_take :: "int \<Rightarrow> 'a list \<Rightarrow> 'a list" where
  "py_take k xs = take (nat (if k < 0 then int (length xs) + k else k)) xs"

text \<open>Decimal text of a number, as \<open>str\<close> and f-strings print it.\<close>

definition digit_char :: "nat \<Rightarrow> char" where
  "digit_char d = char_of (48 + d)"

fun nat_str :: "nat \<Rightarrow> string" where
  "nat_str n = (if n < 10 then [digit_char n] else nat_str (n div 10) @ [digit_char (n mod 10)])"

declare nat_str.simps [simp del]

definition int_str :: "int \<Rightarrow> string" where
  "int_str i = (if i < 0 then CHR ''-'' # nat_str (nat (- i)) else nat_str (nat i))"

definition is_digit :: "char \<Rightarrow> bool" where
  "is_digit c = (let n = of_char c :: nat in 48 \<le> n \<and> n \<le> 57)"

definition digit_val :: "char \<Rightarrow> nat" where
  "digit_val c = of_char c - 48"

definition digits_val :: "string \<Rightarrow> nat" where
  "digits_val s = foldl (\<lambda>n c. 10 * n + digit_val c) 0 s"

lemma of_digit_char: "d < 10 \<Longrightarrow> of_char (digit_char d) = (48 + d :: nat)"
  by (simp add: digit_char_def)

lemma is_digit_digit_char [simp]: "d < 10 \<Longrightarrow> is_digit (digit_char d)"
  by (simp add: is_digit_def of_digit_char Let_def)

lemma digit_val_digit_char [simp]: "d < 10 \<Longrightarrow> digit_val (digit_char d) = d"
  by (simp add: digit_val_def of_digit_char)

lemma nat_str_digits: "list_all is_digit (nat_str n)"
proof (induction n rule: nat_str.induct)
  case (1 n)
  then show ?case by (subst nat_str.simps) auto
qed

lemma nat_str_nonempty [simp]: "nat_str n \<noteq> []"
  by (subst nat_str.simps) simp

lemma digits_val_snoc: "digits_val (s @ [c]) = 10 * digits_val s + digit_val c"
  by (simp add: digits_val_def)

lemma digits_val_nat_str [simp]: "digits_val (nat_str n) = n"
proof (induction n rule: nat_str.induct)
  case (1 n)
  show ?case
  proof (cases "n < 10")
    case True
    then show ?thesis by (subst nat_str.simps) (simp add: digits_val_def)
  next
    case False
    with 1 show ?thesis by (subst nat_str.simps) (simp add: digits_val_snoc)
  qed
qed

lemma nat_str_inj [simp]: "nat_str m = nat_str n \<longleftrightarrow> m = n"
  by (metis digits_val_nat_str)

lemma minus_not_digit: "\<not> is_digit (CHR ''-'')"
  by (simp add: is_digit_def)

lemma nat_str_hd: "is_digit (hd (nat_str n))"
  using nat_str_digits [of n] by (cases "nat_str n") auto

lemma int_str_inj [simp]: "int_str i = int_str j \<longleftrightarrow> i = j"
proof -
  have "CHR ''-'' # s \<noteq> nat_str n" for s n
    using nat_str_hd [of n] minus_not_digit by (cases "nat_str n") auto
  then show ?thesis
    unfolding int_str_def by (auto split: if_splits) (metis)+
qed

lemma split_at_nonempty [simp]: "split_at c s \<noteq> []"
  by (induction s) (auto split: list.split)

lemma split_at_plain: "c \<notin> set s \<Longrightarrow> split_at c s = [s]"
  by (induction s) auto

lemma split_at_append: "c \<notin> set w \<Longrightarrow> split_at c (w @ c # s) = w # split_at c s"
  by (induction w) auto

lemma split_at_clean: "w \<in> set (split_at c s) \<Longrightarrow> set w \<subseteq> set s - {c}"
proof (induction s arbitrary: w)
  case (Cons x s)
  obtain a ws where a: "split_at c s = a # ws" by (cases "split_at c s") auto
  show ?case using Cons.prems Cons.IH [of a] Cons.IH [of w] by (auto simp: a split: if_split_asm)
qed simp

lemma startswith_append [simp]: "startswith p (p @ s)"
  by (simp add: startswith_def)

lemma startswithD: "startswith p s \<Longrightarrow> s = p @ drop (length p) s"
  by (metis append_take_drop_id startswith_def)

lemma startswith_Cons [simp]:
  "startswith (a # p) (b # s) \<longleftrightarrow> a = b \<and> startswith p s"
  "startswith (a # p) [] \<longleftrightarrow> False"
  "startswith [] s"
  by (auto simp: startswith_def)

subsection \<open>Time stamps\<close>

text \<open>
  \<open>datetime.isoformat()\<close> of a UTC time (the fraction is left out when it is zero) and the
  \<open>strftime\<close> form with a trailing \<open>Z\<close>.  The calendar date is computed from the day number with the
  era of 400 years.  ISO texts of UTC times order as the times do, so the model compares times.
\<close>

definition pad :: "nat \<Rightarrow> nat \<Rightarrow> string" where
  "pad w n = replicate (w - length (nat_str n)) (CHR ''0'') @ nat_str n"

definition civil_date :: "int \<Rightarrow> string" where
  "civil_date days =
     (let z = days + 719468; era = z div 146097; doe = z mod 146097;
          yoe = (doe - doe div 1460 + doe div 36524 - doe div 146096) div 365;
          doy = doe - (365 * yoe + yoe div 4 - yoe div 100);
          mp = (5 * doy + 2) div 153;
          d = doy - (153 * mp + 2) div 5 + 1;
          m = (if mp < 10 then mp + 3 else mp - 9);
          y = yoe + era * 400 + (if m \<le> 2 then 1 else 0)
      in pad 4 (nat y) @ ''-'' @ pad 2 (nat m) @ ''-'' @ pad 2 (nat d))"

definition clock_text :: "int \<Rightarrow> string" where
  "clock_text secs = pad 2 (nat (secs div 3600)) @ '':'' @ pad 2 (nat (secs div 60 mod 60)) @ '':'' @
     pad 2 (nat (secs mod 60))"

definition isoformat :: "time \<Rightarrow> string" where
  "isoformat t =
     (let us = t mod 1000000; s = t div 1000000 in
      civil_date (s div 86400) @ ''T'' @ clock_text (s mod 86400) @
      (if us = 0 then [] else ''.'' @ pad 6 (nat us)) @ ''+00:00'')"

definition utcnow_iso :: "time \<Rightarrow> string" where
  "utcnow_iso t = (let s = t div 1000000 in civil_date (s div 86400) @ ''T'' @ clock_text (s mod 86400) @ ''Z'')"

lemma isoformat_nonempty [simp]: "isoformat t \<noteq> []"
  by (simp add: isoformat_def Let_def)

definition seconds :: "int \<Rightarrow> time" where
  "seconds n = n * 1000000"

subsection \<open>Dictionaries\<close>

text \<open>
  A dict is an association list in insertion order: \<open>AList.update\<close> keeps the position of a key
  that is there and appends one that is not, as Python's item assignment does.
\<close>

abbreviation dget :: "('k \<times> 'v) list \<Rightarrow> 'k \<Rightarrow> 'v option" where
  "dget d k \<equiv> map_of d k"

abbreviation dset :: "'k \<Rightarrow> 'v \<Rightarrow> ('k \<times> 'v) list \<Rightarrow> ('k \<times> 'v) list" where
  "dset \<equiv> AList.update"

text \<open>\<open>dict(pairs)\<close> and \<open>{**d, **e}\<close>: later items win, an existing key keeps its place.\<close>

definition dict_update :: "('k \<times> 'v) list \<Rightarrow> ('k \<times> 'v) list \<Rightarrow> ('k \<times> 'v) list" where
  "dict_update d ps = foldl (\<lambda>e (k, v). dset k v e) d ps"

lemma dict_update_simps [simp]:
  "dict_update d [] = d"
  "dict_update d ((k, v) # ps) = dict_update (dset k v d) ps"
  by (simp_all add: dict_update_def)

lemma dget_dset [dict_simps]: "dget (dset k v d) k' = (if k' = k then Some v else dget d k')"
  by (simp add: update_conv')

lemma dget_dict_update: "distinct (map fst ps) \<Longrightarrow>
    dget (dict_update d ps) k = (case dget ps k of None \<Rightarrow> dget d k | Some v \<Rightarrow> Some v)"
proof (induction ps arbitrary: d)
  case Nil
  then show ?case by simp
next
  case (Cons p ps)
  obtain k' v where p: "p = (k', v)" by (cases p)
  have "k' \<notin> dom (map_of ps)"
    using Cons.prems by (simp add: p dom_map_of_conv_image_fst)
  then have "k = k' \<Longrightarrow> dget ps k = None" by auto
  with Cons show ?case by (auto simp: p dict_simps split: option.splits)
qed

lemma distinct_keys_dset: "distinct (map fst d) \<Longrightarrow> distinct (map fst (dset k v d))"
  by (rule distinct_update)

lemma distinct_keys_dict_update: "distinct (map fst d) \<Longrightarrow> distinct (map fst (dict_update d ps))"
  by (induction ps arbitrary: d) (auto simp: distinct_update)

lemma dset_fresh: "k \<notin> set (map fst d) \<Longrightarrow> dset k v d = d @ [(k, v)]"
  by (induction d) auto

lemma dict_update_fresh: "distinct (map fst (d @ ps)) \<Longrightarrow> dict_update d ps = d @ ps"
proof (induction ps arbitrary: d)
  case Nil
  then show ?case by simp
next
  case (Cons p ps)
  obtain k v where p: "p = (k, v)" by (cases p)
  have "dset k v d = d @ [(k, v)]"
    using Cons.prems by (intro dset_fresh) (auto simp: p)
  with Cons show ?case by (simp add: p)
qed

subsection \<open>Tables\<close>

text \<open>
  A table is a list of rows; \<open>update_where p f t\<close> is an UPDATE with the condition \<open>p\<close> and
  \<open>count_where\<close> its \<open>rowcount\<close>; \<open>next_id\<close> is what AUTOINCREMENT assigns on a table whose rows
  were never deleted and an over-approximation kept in the state otherwise.
\<close>

definition update_where :: "('r \<Rightarrow> bool) \<Rightarrow> ('r \<Rightarrow> 'r) \<Rightarrow> 'r list \<Rightarrow> 'r list" where
  "update_where p f t = map (\<lambda>r. if p r then f r else r) t"

definition count_where :: "('r \<Rightarrow> bool) \<Rightarrow> 'r list \<Rightarrow> nat" where
  "count_where p t = length (filter p t)"

definition find_row :: "('r \<Rightarrow> int) \<Rightarrow> int \<Rightarrow> 'r list \<Rightarrow> 'r option" where
  "find_row key i t = find (\<lambda>r. key r = i) t"

lemma update_where_simps [simp]:
  "update_where p f [] = []"
  "update_where p f (r # t) = (if p r then f r else r) # update_where p f t"
  by (simp_all add: update_where_def)

lemma length_update_where [simp]: "length (update_where p f t) = length t"
  by (simp add: update_where_def)

lemma set_update_where: "set (update_where p f t) = (\<lambda>r. if p r then f r else r) ` set t"
  by (simp add: update_where_def)

lemma map_update_where:
  "(\<And>r. g (f r) = g r) \<Longrightarrow> map g (update_where p f t) = map g t"
  by (simp add: update_where_def)

lemma find_row_simps [simp]:
  "find_row key i [] = None"
  "find_row key i (r # t) = (if key r = i then Some r else find_row key i t)"
  by (simp_all add: find_row_def)

lemma find_row_SomeD: "find_row key i t = Some r \<Longrightarrow> r \<in> set t \<and> key r = i"
  by (auto simp: find_row_def find_Some_iff)

lemma find_row_None: "find_row key i t = None \<longleftrightarrow> i \<notin> key ` set t"
  by (induction t) auto

lemma find_row_distinct:
  "distinct (map key t) \<Longrightarrow> r \<in> set t \<Longrightarrow> find_row key (key r) t = Some r"
  by (induction t) (auto simp: image_iff)

lemma find_row_append:
  "find_row key i (t @ u) = (case find_row key i t of None \<Rightarrow> find_row key i u | Some r \<Rightarrow> Some r)"
  by (induction t) auto

lemma find_row_update_where [table_simps]:
  "(\<And>r. key (f r) = key r) \<Longrightarrow>
   find_row key i (update_where p f t) =
     map_option (\<lambda>r. if p r then f r else r) (find_row key i t)"
  by (induction t) auto

end
