(* ===== verification/Json.thy ===== *)
theory Json
  imports Prelude
begin

text \<open>
  The \<open>json\<close> module of the standard library as far as the code uses it: values, \<open>dumps\<close> with
  \<open>ensure_ascii=False\<close> and \<open>sort_keys=True\<close> (the separators are parameters: the audit log uses the
  compact pair, the queue the default pair), and \<open>loads\<close>.  A float is carried as its literal, and
  so are \<open>NaN\<close>, \<open>Infinity\<close> and \<open>-Infinity\<close>, which \<open>loads\<close> accepts.  The lemmas show that reading what
  was written gives the value back with its keys sorted, and that the canonical text determines
  the value.
\<close>

datatype json =
    JNull
  | JBool bool
  | JInt int
  | JFloat string
  | JStr string
  | JList "json list"
  | JObj "(string \<times> json) list"

type_synonym dict = "(string \<times> json) list"

subsection \<open>Python's view of a value\<close>

definition is_jstr :: "json \<Rightarrow> bool" where
  "is_jstr v = (case v of JStr _ \<Rightarrow> True | _ \<Rightarrow> False)"

definition is_jobj :: "json \<Rightarrow> bool" where
  "is_jobj v = (case v of JObj _ \<Rightarrow> True | _ \<Rightarrow> False)"

definition is_jlist :: "json \<Rightarrow> bool" where
  "is_jlist v = (case v of JList _ \<Rightarrow> True | _ \<Rightarrow> False)"

definition object_items :: "json \<Rightarrow> dict option" where
  "object_items v = (case v of JObj d \<Rightarrow> Some d | _ \<Rightarrow> None)"

text \<open>Truth value of an object; a float literal is zero when no digit before the exponent is non-zero.\<close>

definition zero_literal :: "string \<Rightarrow> bool" where
  "zero_literal s =
     list_all (\<lambda>c. c \<in> set ''-0.'') (takeWhile (\<lambda>c. c \<noteq> CHR ''e'' \<and> c \<noteq> CHR ''E'') s)"

fun truthy :: "json \<Rightarrow> bool" where
  "truthy JNull = False"
| "truthy (JBool b) = b"
| "truthy (JInt i) = (i \<noteq> 0)"
| "truthy (JFloat s) = (\<not> zero_literal s)"
| "truthy (JStr s) = (s \<noteq> [])"
| "truthy (JList xs) = (xs \<noteq> [])"
| "truthy (JObj d) = (d \<noteq> [])"

definition opt_truthy :: "json option \<Rightarrow> bool" where
  "opt_truthy v = (case v of None \<Rightarrow> False | Some x \<Rightarrow> truthy x)"

text \<open>\<open>str(x)\<close>; \<open>repr\<close> of a string uses single quotes unless it holds one and no double quote.\<close>

definition repr_str :: "string \<Rightarrow> string" where
  "repr_str s =
     (let q = (if CHR 0x27 \<in> set s \<and> CHR 0x22 \<notin> set s then CHR 0x22 else CHR 0x27)
      in q # concat (map (\<lambda>c.
             if c = CHR 0x5C \<or> c = q then [CHR 0x5C, c]
             else if c = CHR 0x0A then [CHR 0x5C, CHR ''n'']
             else if c = CHR 0x0D then [CHR 0x5C, CHR ''r'']
             else if c = CHR 0x09 then [CHR 0x5C, CHR ''t'']
             else [c]) s) @ [q])"

fun join :: "string \<Rightarrow> string list \<Rightarrow> string" where
  "join sep [] = []"
| "join sep [x] = x"
| "join sep (x # y # xs) = x @ sep @ join sep (y # xs)"

fun py_repr :: "json \<Rightarrow> string" where
  "py_repr JNull = ''None''"
| "py_repr (JBool b) = (if b then ''True'' else ''False'')"
| "py_repr (JInt i) = int_str i"
| "py_repr (JFloat s) = s"
| "py_repr (JStr s) = repr_str s"
| "py_repr (JList xs) = ''['' @ join '', '' (map py_repr xs) @ '']''"
| "py_repr (JObj d) = ''{'' @ join '', '' (map (\<lambda>(k, v). repr_str k @ '': '' @ py_repr v) d) @ ''}''"

definition py_str :: "json \<Rightarrow> string" where
  "py_str v = (case v of JStr s \<Rightarrow> s | _ \<Rightarrow> py_repr v)"

text \<open>A word between double quotes, in the constant texts of prompts.\<close>

definition quoted :: "string \<Rightarrow> string" where
  "quoted s = [CHR 0x22] @ s @ [CHR 0x22]"

text \<open>\<open>str(d.get(k) or default)\<close>\<close>

definition str_or :: "json option \<Rightarrow> string \<Rightarrow> string" where
  "str_or v dflt = (case v of None \<Rightarrow> dflt | Some x \<Rightarrow> if truthy x then py_str x else dflt)"

lemma str_or_simps [simp]:
  "str_or None d = d"
  "str_or (Some (JStr s)) d = (if s = [] then d else s)"
  by (auto simp: str_or_def py_str_def)

definition opt_json :: "string option \<Rightarrow> json" where
  "opt_json x = (case x of None \<Rightarrow> JNull | Some s \<Rightarrow> JStr s)"

lemma opt_json_inj [simp]: "opt_json x = opt_json y \<longleftrightarrow> x = y"
  by (auto simp: opt_json_def split: option.splits)

subsection \<open>Writing\<close>

definition hex_char :: "nat \<Rightarrow> char" where
  "hex_char n = (if n < 10 then char_of (48 + n) else char_of (87 + n))"

definition esc_char :: "char \<Rightarrow> string" where
  "esc_char c =
     (if c = CHR 0x22 then [CHR 0x5C, CHR 0x22]
      else if c = CHR 0x5C then [CHR 0x5C, CHR 0x5C]
      else if c = CHR 0x0A then [CHR 0x5C, CHR ''n'']
      else if c = CHR 0x0D then [CHR 0x5C, CHR ''r'']
      else if c = CHR 0x09 then [CHR 0x5C, CHR ''t'']
      else if c = CHR 0x08 then [CHR 0x5C, CHR ''b'']
      else if c = CHR 0x0C then [CHR 0x5C, CHR ''f'']
      else if (of_char c :: nat) < 32 then
        [CHR 0x5C, CHR ''u'', CHR ''0'', CHR ''0'', hex_char (of_char c div 16), hex_char (of_char c mod 16)]
      else [c])"

definition jquote :: "string \<Rightarrow> string" where
  "jquote s = CHR 0x22 # concat (map esc_char s) @ [CHR 0x22]"

text \<open>\<open>sort_keys=True\<close>: the items of every object by key.\<close>

fun canon :: "json \<Rightarrow> json" where
  "canon (JList xs) = JList (map canon xs)"
| "canon (JObj d) = JObj (sort_key fst (map (\<lambda>(k, v). (k, canon v)) d))"
| "canon v = v"

fun jprint :: "string \<Rightarrow> string \<Rightarrow> json \<Rightarrow> string" where
  "jprint isep ksep JNull = ''null''"
| "jprint isep ksep (JBool b) = (if b then ''true'' else ''false'')"
| "jprint isep ksep (JInt i) = int_str i"
| "jprint isep ksep (JFloat s) = s"
| "jprint isep ksep (JStr s) = jquote s"
| "jprint isep ksep (JList xs) = ''['' @ join isep (map (jprint isep ksep) xs) @ '']''"
| "jprint isep ksep (JObj d) =
     ''{'' @ join isep (map (\<lambda>(k, v). jquote k @ ksep @ jprint isep ksep v) d) @ ''}''"

definition dumps :: "json \<Rightarrow> string" where
  "dumps v = jprint '', '' '': '' (canon v)"

definition dumps_compact :: "json \<Rightarrow> string" where
  "dumps_compact v = jprint '','' '':'' (canon v)"

subsection \<open>Reading\<close>

definition json_ws :: "char \<Rightarrow> bool" where
  "json_ws c \<longleftrightarrow> c = CHR 0x20 \<or> c = CHR 0x09 \<or> c = CHR 0x0A \<or> c = CHR 0x0D"

definition skip_ws :: "string \<Rightarrow> string" where
  "skip_ws s = dropWhile json_ws s"

definition hex_val :: "char \<Rightarrow> nat option" where
  "hex_val c = (let n = of_char c :: nat in
     if 48 \<le> n \<and> n \<le> 57 then Some (n - 48)
     else if 97 \<le> n \<and> n \<le> 102 then Some (n - 87)
     else if 65 \<le> n \<and> n \<le> 70 then Some (n - 55) else None)"

definition hex4 :: "char \<Rightarrow> char \<Rightarrow> char \<Rightarrow> char \<Rightarrow> nat option" where
  "hex4 a b c d = (case (hex_val a, hex_val b, hex_val c, hex_val d) of
     (Some w, Some x, Some y, Some z) \<Rightarrow> Some (((w * 16 + x) * 16 + y) * 16 + z) | _ \<Rightarrow> None)"

text \<open>UTF-8 bytes of a code point.\<close>

definition utf8 :: "nat \<Rightarrow> string" where
  "utf8 n =
     (if n < 128 then [char_of n]
      else if n < 2048 then [char_of (192 + n div 64), char_of (128 + n mod 64)]
      else if n < 65536 then
        [char_of (224 + n div 4096), char_of (128 + n div 64 mod 64), char_of (128 + n mod 64)]
      else [char_of (240 + n div 262144), char_of (128 + n div 4096 mod 64),
            char_of (128 + n div 64 mod 64), char_of (128 + n mod 64)])"

definition unesc :: "char \<Rightarrow> char option" where
  "unesc e =
     (if e = CHR 0x22 \<or> e = CHR 0x5C \<or> e = CHR ''/'' then Some e
      else if e = CHR ''n'' then Some (CHR 0x0A)
      else if e = CHR ''r'' then Some (CHR 0x0D)
      else if e = CHR ''t'' then Some (CHR 0x09)
      else if e = CHR ''b'' then Some (CHR 0x08)
      else if e = CHR ''f'' then Some (CHR 0x0C)
      else None)"

text \<open>
  The body of a string after its opening quote.  A high surrogate escape followed by a low one is
  one code point.
\<close>

fun read_chars :: "string \<Rightarrow> (string \<times> string) option" where
  "read_chars [] = None"
| "read_chars (c # s) =
     (if c = CHR 0x22 then Some ([], s)
      else if c = CHR 0x5C then
        (case s of [] \<Rightarrow> None
         | e # s1 \<Rightarrow>
           (if e = CHR ''u'' then
              (case s1 of
                 a # b # c' # d # s2 \<Rightarrow>
                   (case hex4 a b c' d of None \<Rightarrow> None
                    | Some n \<Rightarrow>
                      (case s2 of
                         x # y # a2 # b2 # c2 # d2 # s3 \<Rightarrow>
                           (if 55296 \<le> n \<and> n < 56320 \<and> x = CHR 0x5C \<and> y = CHR ''u'' then
                              (case hex4 a2 b2 c2 d2 of
                                 Some m \<Rightarrow>
                                   (if 56320 \<le> m \<and> m < 57344 then
                                      map_option (\<lambda>(t, r). (utf8 (65536 + (n - 55296) * 1024 + (m - 56320)) @ t, r))
                                        (read_chars s3)
                                    else map_option (\<lambda>(t, r). (utf8 n @ t, r)) (read_chars s2))
                               | None \<Rightarrow> None)
                            else map_option (\<lambda>(t, r). (utf8 n @ t, r)) (read_chars s2))
                       | _ \<Rightarrow> map_option (\<lambda>(t, r). (utf8 n @ t, r)) (read_chars s2)))
               | _ \<Rightarrow> None)
            else
              (case unesc e of None \<Rightarrow> None
               | Some u \<Rightarrow> map_option (\<lambda>(t, r). (u # t, r)) (read_chars s1))))
      else if (of_char c :: nat) < 32 then None
      else map_option (\<lambda>(t, r). (c # t, r)) (read_chars s))"

declare read_chars.simps [simp del]

text \<open>The number pattern: sign, integer part, optional fraction and exponent; the rest is left.\<close>

definition read_int_part :: "string \<Rightarrow> (string \<times> string) option" where
  "read_int_part s = (case s of [] \<Rightarrow> None
     | c # r \<Rightarrow> if c = CHR ''0'' then Some ([c], r)
               else if is_digit c then Some (takeWhile is_digit s, dropWhile is_digit s) else None)"

definition read_frac :: "string \<Rightarrow> string \<times> string" where
  "read_frac s = (case s of c # r \<Rightarrow>
       (if c = CHR ''.'' \<and> takeWhile is_digit r \<noteq> []
        then (c # takeWhile is_digit r, dropWhile is_digit r) else ([], s))
     | [] \<Rightarrow> ([], s))"

definition read_exp :: "string \<Rightarrow> string \<times> string" where
  "read_exp s = (case s of c # r \<Rightarrow>
       (if c = CHR ''e'' \<or> c = CHR ''E'' then
          (let (sg, r') = (case r of d # q \<Rightarrow> (if d = CHR ''-'' \<or> d = CHR ''+'' then ([d], q) else ([], r))
                           | [] \<Rightarrow> ([], r))
           in if takeWhile is_digit r' \<noteq> [] then (c # sg @ takeWhile is_digit r', dropWhile is_digit r')
              else ([], s))
        else ([], s))
     | [] \<Rightarrow> ([], s))"

definition read_unsigned :: "string \<Rightarrow> string \<Rightarrow> (json \<times> string) option" where
  "read_unsigned sg s =
     (case read_int_part s of None \<Rightarrow> None
      | Some (ip, s2) \<Rightarrow>
        (let (fp, s3) = read_frac s2; (ep, s4) = read_exp s3
         in if fp = [] \<and> ep = []
            then Some (JInt ((if sg = [] then 1 else - 1) * int (digits_val ip)), s4)
            else Some (JFloat (sg @ ip @ fp @ ep), s4)))"

definition read_number :: "string \<Rightarrow> (json \<times> string) option" where
  "read_number s =
     (case s of [] \<Rightarrow> None
      | c # r \<Rightarrow> if c = CHR ''-'' then read_unsigned [c] r else read_unsigned [] s)"

definition read_word :: "string \<Rightarrow> (json \<times> string) option" where
  "read_word s =
     (if startswith ''null'' s then Some (JNull, drop 4 s)
      else if startswith ''true'' s then Some (JBool True, drop 4 s)
      else if startswith ''false'' s then Some (JBool False, drop 5 s)
      else if startswith ''NaN'' s then Some (JFloat ''NaN'', drop 3 s)
      else if startswith ''Infinity'' s then Some (JFloat ''Infinity'', drop 8 s)
      else if startswith ''-Infinity'' s then Some (JFloat ''-Infinity'', drop 9 s)
      else read_number s)"

text \<open>
  The recursive reader; \<open>fuel\<close> bounds the nesting of calls and twice the length of the text plus
  two is always enough (\<open>loads_fuel\<close>).  \<open>read_elems\<close> and \<open>read_items\<close> read from the first element
  of a non-empty array or object.
\<close>

fun read_value :: "nat \<Rightarrow> string \<Rightarrow> (json \<times> string) option"
  and read_elems :: "nat \<Rightarrow> string \<Rightarrow> (json list \<times> string) option"
  and read_items :: "nat \<Rightarrow> string \<Rightarrow> (dict \<times> string) option" where
  "read_value 0 s = None"
| "read_value (Suc n) s =
     (case s of [] \<Rightarrow> None
      | c # r \<Rightarrow>
        (if c = CHR 0x22 then map_option (\<lambda>(t, r'). (JStr t, r')) (read_chars r)
         else if c = CHR ''['' then
           (case skip_ws r of [] \<Rightarrow> None
            | d # q \<Rightarrow> if d = CHR '']'' then Some (JList [], q)
                      else map_option (\<lambda>(xs, r'). (JList xs, r')) (read_elems n (d # q)))
         else if c = CHR ''{'' then
           (case skip_ws r of [] \<Rightarrow> None
            | d # q \<Rightarrow> if d = CHR ''}'' then Some (JObj [], q)
                      else map_option (\<lambda>(kvs, r'). (JObj (dict_update [] kvs), r')) (read_items n (d # q)))
         else read_word s))"
| "read_elems 0 s = None"
| "read_elems (Suc n) s =
     (case read_value n s of None \<Rightarrow> None
      | Some (v, r) \<Rightarrow>
        (case skip_ws r of [] \<Rightarrow> None
         | c # q \<Rightarrow> if c = CHR '']'' then Some ([v], q)
                   else if c = CHR '','' then map_option (\<lambda>(vs, r'). (v # vs, r')) (read_elems n (skip_ws q))
                   else None))"
| "read_items 0 s = None"
| "read_items (Suc n) s =
     (case s of [] \<Rightarrow> None
      | c # r \<Rightarrow>
        (if c = CHR 0x22 then
           (case read_chars r of None \<Rightarrow> None
            | Some (k, r1) \<Rightarrow>
              (case skip_ws r1 of [] \<Rightarrow> None
               | d # r2 \<Rightarrow>
                 (if d = CHR '':'' then
                    (case read_value n (skip_ws r2) of None \<Rightarrow> None
                     | Some (v, r3) \<Rightarrow>
                       (case skip_ws r3 of [] \<Rightarrow> None
                        | e # q \<Rightarrow>
                          if e = CHR ''}'' then Some ([(k, v)], q)
                          else if e = CHR '','' then
                            map_option (\<lambda>(kvs, r'). ((k, v) # kvs, r')) (read_items n (skip_ws q))
                          else None))
                  else None)))
         else None))"

declare read_value.simps [simp del] read_elems.simps [simp del] read_items.simps [simp del]

definition loads :: "string \<Rightarrow> json option" where
  "loads s = (case read_value (2 * length s + 2) (skip_ws s) of None \<Rightarrow> None
     | Some (v, r) \<Rightarrow> if skip_ws r = [] then Some v else None)"

subsection \<open>Numbers and strings read back\<close>

definition number_stop :: "string \<Rightarrow> bool" where
  "number_stop r \<longleftrightarrow> (case r of [] \<Rightarrow> True | c # _ \<Rightarrow> \<not> is_digit c \<and> c \<notin> set ''.eE+-'')"

lemma takeWhile_stop: "number_stop r \<Longrightarrow> takeWhile is_digit (s @ r) = takeWhile is_digit s"
  by (induction s) (auto simp: number_stop_def split: list.splits)

lemma dropWhile_stop: "number_stop r \<Longrightarrow> dropWhile is_digit (s @ r) = dropWhile is_digit s @ r"
  by (induction s) (auto simp: number_stop_def split: list.splits)

lemma number_stop_Nil [simp]: "number_stop []"
  by (simp add: number_stop_def)

lemma read_int_part_append:
  "number_stop r \<Longrightarrow>
   read_int_part (s @ r) = map_option (\<lambda>(a, b). (a, b @ r)) (read_int_part s)"
proof (cases s)
  case Nil
  assume "number_stop r"
  moreover have "is_digit (CHR ''0'')" by (simp add: is_digit_def)
  ultimately show ?thesis
    by (auto simp: Nil read_int_part_def number_stop_def split: list.splits)
next
  case (Cons c q)
  assume "number_stop r"
  then show ?thesis
    by (simp add: Cons read_int_part_def takeWhile_stop dropWhile_stop)
qed

lemma read_frac_append:
  "number_stop r \<Longrightarrow> read_frac (s @ r) = (fst (read_frac s), snd (read_frac s) @ r)"
  by (cases s)
    (auto simp: read_frac_def takeWhile_stop dropWhile_stop number_stop_def split: list.splits)

lemma read_exp_append:
  assumes "number_stop r"
  shows "read_exp (s @ r) = (fst (read_exp s), snd (read_exp s) @ r)"
proof (cases s)
  case Nil
  with assms show ?thesis by (auto simp: read_exp_def number_stop_def split: list.splits)
next
  case (Cons c q)
  show ?thesis
  proof (cases q)
    case Nil
    with assms takeWhile_stop [OF assms, of "[]"] show ?thesis
      by (cases r) (auto simp: Cons read_exp_def number_stop_def)
  next
    case (Cons d q')
    then show ?thesis
      using takeWhile_stop [OF assms, of "d # q'"] dropWhile_stop [OF assms, of "d # q'"]
      by (simp add: \<open>s = c # q\<close> read_exp_def takeWhile_stop [OF assms] dropWhile_stop [OF assms])
  qed
qed

lemma read_unsigned_append:
  "number_stop r \<Longrightarrow>
   read_unsigned sg (s @ r) = map_option (\<lambda>(v, b). (v, b @ r)) (read_unsigned sg s)"
  by (cases "read_int_part s")
    (auto simp: read_unsigned_def read_int_part_append read_frac_append read_exp_append
      split: prod.splits)

lemma read_number_append:
  assumes "number_stop r" and "s \<noteq> []"
  shows "read_number (s @ r) = map_option (\<lambda>(v, b). (v, b @ r)) (read_number s)"
proof -
  obtain c q where s: "s = c # q" using assms(2) by (cases s) auto
  show ?thesis
    using read_unsigned_append [OF assms(1), of "[]" "c # q"] read_unsigned_append [OF assms(1), of "[c]" q]
    by (cases "c = CHR ''-''") (simp_all add: s read_number_def)
qed

lemma takeWhile_digits_all: "list_all is_digit s \<Longrightarrow> takeWhile is_digit s = s"
  by (induction s) auto

lemma dropWhile_digits_all: "list_all is_digit s \<Longrightarrow> dropWhile is_digit s = []"
  by (induction s) auto

lemma nat_str_zero: "nat_str 0 = ''0''"
  by code_simp

lemma hd_nat_str_zero: "hd (nat_str n) = CHR ''0'' \<Longrightarrow> n = 0"
proof (induction n rule: nat_str.induct)
  case (1 n)
  show ?case
  proof (cases "n < 10")
    case True
    from 1 True have "digit_char n = CHR ''0''" by (subst (asm) nat_str.simps) simp
    then have "digit_val (digit_char n) = digit_val (CHR ''0'')" by simp
    with True of_digit_char [of n] show ?thesis by (simp add: digit_val_def)
  next
    case False
    with 1 have "n div 10 = 0" by (subst (asm) (2) nat_str.simps) auto
    with False show ?thesis by simp
  qed
qed

lemma read_int_part_nat_str: "read_int_part (nat_str n) = Some (nat_str n, [])"
proof (cases "n = 0")
  case True
  then show ?thesis by (simp add: nat_str_zero read_int_part_def)
next
  case False
  obtain c q where cq: "nat_str n = c # q" using nat_str_nonempty [of n] by (cases "nat_str n") auto
  then have "c \<noteq> CHR ''0''" using hd_nat_str_zero [of n] False by auto
  moreover have "list_all is_digit (c # q)" using nat_str_digits [of n] cq by simp
  ultimately show ?thesis
    using takeWhile_digits_all [of "c # q"] dropWhile_digits_all [of "c # q"]
    by (simp add: read_int_part_def cq)
qed

lemma read_unsigned_nat_str:
  "read_unsigned sg (nat_str n) = Some (JInt ((if sg = [] then 1 else - 1) * int n), [])"
  by (simp add: read_unsigned_def read_int_part_nat_str read_frac_def read_exp_def)

lemma read_number_int_str: "read_number (int_str i) = Some (JInt i, [])"
proof (cases "i < 0")
  case True
  then show ?thesis
    by (simp add: int_str_def read_number_def read_unsigned_nat_str)
next
  case False
  obtain c q where cq: "nat_str (nat i) = c # q"
    using nat_str_nonempty [of "nat i"] by (cases "nat_str (nat i)") auto
  then have "c \<noteq> CHR ''-''" using nat_str_hd [of "nat i"] minus_not_digit by auto
  then have "read_number (nat_str (nat i)) = read_unsigned [] (nat_str (nat i))"
    by (simp add: cq read_number_def)
  with False show ?thesis by (simp add: int_str_def read_unsigned_nat_str)
qed

lemma read_number_Some_head:
  assumes "read_number s = Some x"
  shows "\<exists>c q. s = c # q \<and> (is_digit c \<or> c = CHR ''-'' \<and> (\<exists>d q'. q = d # q' \<and> is_digit d))"
proof -
  have h: "\<exists>c q. t = c # q \<and> is_digit c" if "read_unsigned sg t = Some x" for sg t
  proof -
    have "is_digit (CHR ''0'')" by (simp add: is_digit_def)
    with that show ?thesis
      by (cases t) (auto simp: read_unsigned_def read_int_part_def split: if_splits)
  qed
  show ?thesis
    using assms h [of "[]" s] h [of "''-''" "tl s"]
    by (cases s) (auto simp: read_number_def split: if_splits)
qed

definition float_lit :: "string \<Rightarrow> bool" where
  "float_lit s \<longleftrightarrow> read_word s = Some (JFloat s, [])"

lemma not_word_number:
  assumes "is_digit c \<or> c = CHR ''-'' \<and> (\<exists>d q'. q = d # q' \<and> is_digit d)"
  shows "read_word (c # q) = read_number (c # q)"
proof -
  have "\<not> is_digit x" if "x \<in> set ''ntfNI''" for x
    using that by (auto simp: is_digit_def)
  with assms have "c \<notin> set ''ntfNI''" by auto
  then have ne: "CHR ''n'' \<noteq> c" "CHR ''t'' \<noteq> c" "CHR ''f'' \<noteq> c" "CHR ''N'' \<noteq> c" "CHR ''I'' \<noteq> c"
    by auto
  have "\<not> startswith ''Infinity'' q" if "c = CHR ''-''"
  proof -
    have "\<not> is_digit (CHR ''-'')" "\<not> is_digit (CHR ''I'')" by (auto simp: is_digit_def)
    with assms that show ?thesis by auto
  qed
  then show ?thesis by (cases "c = CHR ''-''") (simp_all add: read_word_def ne)
qed

lemma read_word_float:
  assumes "float_lit s" and "number_stop r"
  shows "read_word (s @ r) = Some (JFloat s, r)"
proof (cases "s = ''NaN'' \<or> s = ''Infinity'' \<or> s = ''-Infinity''")
  case True
  then show ?thesis by (auto simp: read_word_def)
next
  case False
  have words: "drop (length w) s = [] \<Longrightarrow> startswith w s \<Longrightarrow> s = w" for w
    using startswithD [of w s] by simp
  from assms(1) False have num: "read_number s = Some (JFloat s, [])"
    unfolding float_lit_def read_word_def by (simp split: if_splits)
  then obtain c q where s: "s = c # q"
    and h: "is_digit c \<or> c = CHR ''-'' \<and> (\<exists>d q'. q = d # q' \<and> is_digit d)"
    using read_number_Some_head [OF num] by auto
  from h have h': "is_digit c \<or> c = CHR ''-'' \<and> (\<exists>d q'. q @ r = d # q' \<and> is_digit d)" by auto
  have "read_word (s @ r) = read_number (s @ r)"
    using not_word_number [OF h'] by (simp add: s)
  also have "\<dots> = Some (JFloat s, r)"
    using num read_number_append [OF assms(2), of "c # q"] by (simp add: s)
  finally show ?thesis .
qed

lemma read_word_int:
  assumes "number_stop r"
  shows "read_word (int_str i @ r) = Some (JInt i, r)"
proof -
  have num: "read_number (int_str i) = Some (JInt i, [])" by (rule read_number_int_str)
  then obtain c q where s: "int_str i = c # q"
    and h: "is_digit c \<or> c = CHR ''-'' \<and> (\<exists>d q'. q = d # q' \<and> is_digit d)"
    using read_number_Some_head [OF num] by auto
  from h have h': "is_digit c \<or> c = CHR ''-'' \<and> (\<exists>d q'. q @ r = d # q' \<and> is_digit d)" by auto
  have "read_word (int_str i @ r) = read_number (int_str i @ r)"
    using not_word_number [OF h'] by (simp add: s)
  also have "\<dots> = Some (JInt i, r)"
    using num read_number_append [OF assms, of "c # q"] by (simp add: s)
  finally show ?thesis .
qed

lemma hex_val_hex_char: "k < 16 \<Longrightarrow> hex_val (hex_char k) = Some k"
  by (auto simp: hex_val_def hex_char_def Let_def)

lemma hex_val_0: "hex_val (CHR ''0'') = Some 0"
  by (simp add: hex_val_def)

lemma hex4_control:
  "n < 32 \<Longrightarrow> hex4 (CHR ''0'') (CHR ''0'') (hex_char (n div 16)) (hex_char (n mod 16)) = Some n"
  by (simp add: hex4_def hex_val_0 hex_val_hex_char)

lemma esc_char_cases:
  obtains (esc) e where "esc_char c = [CHR 0x5C, e]" "unesc e = Some c" "e \<noteq> CHR ''u''"
  | (ctl) "(of_char c :: nat) < 32"
      "esc_char c = [CHR 0x5C, CHR ''u'', CHR ''0'', CHR ''0'',
         hex_char (of_char c div 16), hex_char (of_char c mod 16)]"
  | (plain) "esc_char c = [c]" "c \<noteq> CHR 0x22" "c \<noteq> CHR 0x5C" "\<not> (of_char c :: nat) < 32"
proof (cases "c \<in> {CHR 0x22, CHR 0x5C, CHR 0x0A, CHR 0x0D, CHR 0x09, CHR 0x08, CHR 0x0C}")
  case True
  have "\<exists>e. esc_char c = [CHR 0x5C, e] \<and> unesc e = Some c \<and> e \<noteq> CHR ''u''"
    using True by (auto simp: esc_char_def unesc_def)
  then show ?thesis using esc by blast
next
  case False
  then have e: "esc_char c = (if (of_char c :: nat) < 32 then
        [CHR 0x5C, CHR ''u'', CHR ''0'', CHR ''0'', hex_char (of_char c div 16), hex_char (of_char c mod 16)]
      else [c])"
    by (simp add: esc_char_def)
  show ?thesis
  proof (cases "(of_char c :: nat) < 32")
    case True
    with e show ?thesis by (intro ctl) simp_all
  next
    case small: False
    with e False show ?thesis by (intro plain) simp_all
  qed
qed

lemma read_chars_quoted:
  "read_chars (concat (map esc_char s) @ CHR 0x22 # r) = Some (s, r)"
proof (induction s)
  case Nil
  then show ?case by (simp add: read_chars.simps)
next
  case (Cons c s)
  let ?t = "concat (map esc_char s) @ CHR 0x22 # r"
  show ?case
  proof (cases c rule: esc_char_cases)
    case (esc e)
    have "read_chars (CHR 0x5C # e # ?t) = map_option (\<lambda>(t, r). (c # t, r)) (read_chars ?t)"
      using esc by (subst read_chars.simps) simp
    with esc Cons show ?thesis by simp
  next
    case ctl
    let ?n = "of_char c :: nat"
    have u: "utf8 ?n = [c]" using ctl(1) by (simp add: utf8_def)
    have "read_chars (esc_char c @ ?t) = map_option (\<lambda>(t, r). (utf8 ?n @ t, r)) (read_chars ?t)"
      unfolding ctl(2) append_Cons append_Nil
      by (subst read_chars.simps)
        (use ctl(1) in \<open>auto simp: hex4_control [OF ctl(1)] split: list.splits\<close>)
    with Cons u show ?thesis by simp
  next
    case plain
    have "read_chars (c # ?t) = map_option (\<lambda>(t, r). (c # t, r)) (read_chars ?t)"
      using plain by (subst read_chars.simps) simp
    with plain Cons show ?thesis by simp
  qed
qed

subsection \<open>Values read back\<close>

text \<open>Well-formed: every object has each key once (as a dict has) and floats are literals.\<close>

fun jwf :: "json \<Rightarrow> bool" where
  "jwf (JFloat s) = float_lit s"
| "jwf (JList xs) = list_all jwf xs"
| "jwf (JObj d) = (distinct (map fst d) \<and> list_all (\<lambda>(k, v). jwf v) d)"
| "jwf _ = True"

text \<open>The separators \<open>dumps\<close> is called with: a comma or a colon, then optional spaces.\<close>

definition seps :: "string \<Rightarrow> string \<Rightarrow> bool" where
  "seps isep ksep \<longleftrightarrow>
     (\<exists>w. isep = CHR '','' # w \<and> list_all json_ws w) \<and> (\<exists>w. ksep = CHR '':'' # w \<and> list_all json_ws w)"

lemma seps_default: "seps '', '' '': ''" and seps_compact: "seps '','' '':''"
  by (simp_all add: seps_def json_ws_def)

lemma skip_ws_append: "list_all json_ws w \<Longrightarrow> skip_ws (w @ s) = skip_ws s"
  by (induction w) (auto simp: skip_ws_def)

lemma skip_ws_nonws: "\<not> json_ws c \<Longrightarrow> skip_ws (c # s) = c # s"
  by (simp add: skip_ws_def)

lemma skip_ws_stop: "s = [] \<or> \<not> json_ws (hd s) \<Longrightarrow> skip_ws s = s"
  by (cases s) (auto simp: skip_ws_def)

text \<open>The first character of a printed value, by kind.\<close>

lemma read_word_head:
  assumes "read_word s = Some x"
  shows "\<exists>c q. s = c # q \<and> (is_digit c \<or> c \<in> set ''-ntfNI'')"
proof (cases s)
  case Nil
  with assms show ?thesis by (simp add: read_word_def read_number_def)
next
  case (Cons c q)
  show ?thesis
  proof (cases "c \<in> set ''-ntfNI''")
    case True
    with Cons show ?thesis by blast
  next
    case False
    then have ne: "CHR ''n'' \<noteq> c" "CHR ''t'' \<noteq> c" "CHR ''f'' \<noteq> c" "CHR ''N'' \<noteq> c" "CHR ''I'' \<noteq> c" "CHR ''-'' \<noteq> c"
      by auto
    then have "read_word s = read_number s" by (simp add: read_word_def Cons)
    with assms have num: "read_number s = Some x" by simp
    from read_number_Some_head [OF num] ne Cons show ?thesis by auto
  qed
qed

definition word_head :: "char \<Rightarrow> bool" where
  "word_head c \<longleftrightarrow> is_digit c \<or> c \<in> set ''-ntfNI''"

lemma word_head_props:
  "word_head c \<Longrightarrow> \<not> json_ws c \<and> c \<noteq> CHR 0x22 \<and> c \<noteq> CHR ''['' \<and> c \<noteq> CHR ''{'' \<and> c \<noteq> CHR '']'' \<and> c \<noteq> CHR ''}''"
  by (auto simp: word_head_def json_ws_def is_digit_def)

lemma read_value_word:
  assumes "read_word (s @ r) = Some (v, r)" and "read_word s = Some x" and "0 < n"
  shows "read_value n (s @ r) = Some (v, r)"
proof -
  obtain m where n: "n = Suc m" using assms(3) by (cases n) auto
  obtain c q where s: "s = c # q" and "word_head c"
    using read_word_head [OF assms(2)] by (auto simp: word_head_def)
  with word_head_props [of c] assms(1) show ?thesis
    by (simp add: n read_value.simps)
qed

definition scalar_text :: "json \<Rightarrow> bool" where
  "scalar_text v \<longleftrightarrow> (case v of JNull \<Rightarrow> True | JBool _ \<Rightarrow> True | JInt _ \<Rightarrow> True | JFloat _ \<Rightarrow> True | _ \<Rightarrow> False)"

lemma read_word_scalar:
  assumes "scalar_text v" and "jwf v" and "number_stop r"
  shows "read_word (jprint i k v @ r) = Some (v, r)"
  using assms read_word_int [OF assms(3)] read_word_float [OF _ assms(3)]
  by (cases v) (simp_all add: scalar_text_def read_word_def)

lemma jprint_scalar_value:
  assumes "scalar_text v" and "jwf v" and "number_stop r" and "0 < n"
  shows "read_value n (jprint i k v @ r) = Some (v, r)"
  using read_word_scalar [OF assms(1,2,3)] read_word_scalar [OF assms(1,2), of "[]" i k]
  by (intro read_value_word [OF _ _ assms(4)]) auto

lemma jprint_head:
  assumes "jwf v"
  obtains c q where "jprint i k v = c # q" "\<not> json_ws c" "c \<noteq> CHR '']''" "c \<noteq> CHR ''}''"
proof (cases "scalar_text v")
  case True
  obtain c q where "jprint i k v = c # q" "word_head c"
    using read_word_head [of "jprint i k v"] read_word_scalar [OF True assms, of "[]" i k]
    by (auto simp: word_head_def)
  with word_head_props show ?thesis using that by blast
next
  case False
  then show ?thesis
    using that by (cases v) (auto simp: scalar_text_def jquote_def json_ws_def)
qed

lemma jprint_nonempty: "jwf v \<Longrightarrow> jprint i k v \<noteq> []"
  by (metis jprint_head list.distinct(1))

lemma skip_ws_jprint: "jwf v \<Longrightarrow> skip_ws (jprint i k v @ r) = jprint i k v @ r"
  by (metis append_Cons jprint_head skip_ws_nonws)

lemma join_Cons2: "xs \<noteq> [] \<Longrightarrow> join s (x # xs) = x @ s @ join s xs"
  by (cases xs) auto

lemma number_stop_chars [simp]:
  "number_stop (CHR '']'' # r)" "number_stop (CHR ''}'' # r)" "number_stop (CHR '','' # r)"
  by (auto simp: number_stop_def is_digit_def)

text \<open>Elements and items, given that each value reads back.\<close>

definition reads_back :: "string \<Rightarrow> string \<Rightarrow> json \<Rightarrow> bool" where
  "reads_back i k v \<longleftrightarrow> (\<forall>n r. 2 * length (jprint i k v) + 1 \<le> n \<longrightarrow> number_stop r \<longrightarrow>
     read_value n (jprint i k v @ r) = Some (v, r))"

lemma reads_backD:
  "reads_back i k v \<Longrightarrow> 2 * length (jprint i k v) + 1 \<le> n \<Longrightarrow> number_stop r \<Longrightarrow>
   read_value n (jprint i k v @ r) = Some (v, r)"
  by (simp add: reads_back_def)

lemma read_elems_back:
  assumes "seps i k" and "xs \<noteq> []"
    and "\<forall>x\<in>set xs. jwf x \<and> reads_back i k x"
    and "2 * length (join i (map (jprint i k) xs)) + 2 \<le> n"
  shows "read_elems n (join i (map (jprint i k) xs) @ CHR '']'' # r) = Some (xs, r)"
  using assms(2-)
proof (induction xs arbitrary: n)
  case Nil
  then show ?case by simp
next
  case (Cons x xs)
  obtain m where n: "n = Suc m" using Cons.prems(3) by (cases n) auto
  obtain w where w: "i = CHR '','' # w" "list_all json_ws w" using assms(1) by (auto simp: seps_def)
  have x: "jwf x" "reads_back i k x" using Cons.prems(2) by auto
  show ?case
  proof (cases xs)
    case Nil
    have "read_value m (jprint i k x @ CHR '']'' # r) = Some (x, CHR '']'' # r)"
      using Cons.prems(3) by (intro reads_backD [OF x(2)]) (simp_all add: Nil n)
    then show ?thesis by (simp add: Nil n read_elems.simps skip_ws_def json_ws_def)
  next
    case (Cons y ys)
    let ?J = "join i (map (jprint i k) xs)"
    have J: "join i (map (jprint i k) (x # xs)) = jprint i k x @ i @ ?J"
      by (simp add: Cons)
    have len: "2 * (length (jprint i k x) + Suc (length w) + length ?J) + 2 \<le> Suc m"
      using Cons.prems(3) w(1) unfolding J n by simp
    have hd: "skip_ws (?J @ CHR '']'' # r) = ?J @ CHR '']'' # r"
    proof -
      have y: "jwf y" using Cons.prems(2) Cons by auto
      then obtain c q where "jprint i k y = c # q" "\<not> json_ws c" by (rule jprint_head)
      then show ?thesis
        by (cases ys) (auto simp: Cons skip_ws_nonws)
    qed
    have ne: "jprint i k x \<noteq> []" using jprint_nonempty x by blast
    have v: "read_value m (jprint i k x @ i @ ?J @ CHR '']'' # r) = Some (x, i @ ?J @ CHR '']'' # r)"
      using len w(1) by (intro reads_backD [OF x(2)]) simp_all
    have e: "read_elems m (?J @ CHR '']'' # r) = Some (xs, r)"
    proof (rule Cons.IH)
      show "2 * length ?J + 2 \<le> m"
        using len by simp
    qed (use Cons.prems Cons in auto)
    have "read_elems n (jprint i k x @ i @ ?J @ CHR '']'' # r) = Some (x # xs, r)"
      using v e hd w(1) by (simp add: n read_elems.simps skip_ws_append [OF w(2)] skip_ws_nonws json_ws_def)
    then show ?thesis by (simp only: J append_assoc)
  qed
qed

definition item_text :: "string \<Rightarrow> string \<Rightarrow> string \<times> json \<Rightarrow> string" where
  "item_text i k p = (case p of (key, v) \<Rightarrow> jquote key @ k @ jprint i k v)"

lemma item_text_head: "item_text i k p = CHR 0x22 # tl (item_text i k p)"
  by (cases p) (simp add: item_text_def jquote_def)

lemma read_items_back:
  assumes "seps i k" and "d \<noteq> []"
    and "\<forall>p\<in>set d. jwf (snd p) \<and> reads_back i k (snd p)"
    and "2 * length (join i (map (item_text i k) d)) + 2 \<le> n"
  shows "read_items n (join i (map (item_text i k) d) @ CHR ''}'' # r) = Some (d, r)"
  using assms(2-)
proof (induction d arbitrary: n)
  case Nil
  then show ?case by simp
next
  case (Cons p d)
  obtain key v where p: "p = (key, v)" by (cases p)
  obtain m where n: "n = Suc m" using Cons.prems(3) by (cases n) auto
  obtain w where w: "i = CHR '','' # w" "list_all json_ws w" using assms(1) by (auto simp: seps_def)
  obtain w' where w': "k = CHR '':'' # w'" "list_all json_ws w'" using assms(1) by (auto simp: seps_def)
  have v: "jwf v" "reads_back i k v" using Cons.prems(2) p by auto
  have key: "read_chars (tl (jquote key) @ t) = Some (key, t)" for t
    using read_chars_quoted [of key t] by (simp add: jquote_def)
  have q: "jquote key = CHR 0x22 # tl (jquote key)" by (simp add: jquote_def)
  have step: "read_items n (item_text i k p @ t) =
      (case skip_ws t of [] \<Rightarrow> None
       | e # u \<Rightarrow> if e = CHR ''}'' then Some ([(key, v)], u)
                 else if e = CHR '','' then
                   map_option (\<lambda>(kvs, r'). ((key, v) # kvs, r')) (read_items m (skip_ws u))
                 else None)"
    if "number_stop t" "2 * length (item_text i k p) + 2 \<le> n" for t
  proof -
    have rv: "read_value m (jprint i k v @ t) = Some (v, t)"
      using that by (intro reads_backD [OF v(2)]) (simp_all add: n p item_text_def)
    have tx: "item_text i k p @ t = CHR 0x22 # (tl (jquote key) @ CHR '':'' # w' @ jprint i k v @ t)"
      using q w'(1) by (simp add: p item_text_def)
    show ?thesis
      using rv by (simp add: n tx read_items.simps key skip_ws_nonws json_ws_def
          skip_ws_append [OF w'(2)] skip_ws_jprint [OF v(1)] del: append.simps)
  qed
  show ?case
  proof (cases d)
    case Nil
    with step [of "CHR ''}'' # r"] Cons.prems(3) show ?thesis
      by (simp add: p skip_ws_nonws json_ws_def)
  next
    case (Cons p' d')
    let ?J = "join i (map (item_text i k) d)"
    have J: "join i (map (item_text i k) (p # d)) = item_text i k p @ i @ ?J"
      by (simp add: Cons)
    have len: "2 * (length (item_text i k p) + Suc (length w) + length ?J) + 2 \<le> Suc m"
      using Cons.prems(3) w(1) unfolding J n by simp
    have hd: "skip_ws (?J @ CHR ''}'' # r) = ?J @ CHR ''}'' # r"
    proof -
      obtain t where "item_text i k p' = CHR 0x22 # t" using item_text_head by blast
      then show ?thesis by (cases d') (simp_all add: Cons skip_ws_nonws json_ws_def)
    qed
    have e: "read_items m (?J @ CHR ''}'' # r) = Some (d, r)"
    proof (rule Cons.IH)
      show "2 * length ?J + 2 \<le> m"
        using len by simp
    qed (use Cons.prems Cons in auto)
    have "number_stop (i @ ?J @ CHR ''}'' # r)" using w(1) by simp
    from step [OF this] len n
    have "read_items n (item_text i k p @ i @ ?J @ CHR ''}'' # r) = Some (p # d, r)"
      using e hd w(1) by (simp add: p skip_ws_append [OF w(2)] skip_ws_nonws json_ws_def)
    then show ?thesis by (simp only: J append_assoc)
  qed
qed

lemma map_item_text: "map (\<lambda>(key, v). jquote key @ k @ jprint i k v) d = map (item_text i k) d"
  by (simp add: item_text_def)

lemma reads_back_scalar: "scalar_text v \<Longrightarrow> jwf v \<Longrightarrow> reads_back i k v"
  unfolding reads_back_def by (intro allI impI jprint_scalar_value) auto

lemma jprint_reads_back:
  assumes "seps i k"
  shows "jwf v \<Longrightarrow> reads_back i k v"
proof (induction v)
  case (JStr s)
  show ?case
    unfolding reads_back_def
    by (auto simp: jquote_def read_value.simps read_chars_quoted gr0_conv_Suc dest!: Suc_le_D)
next
  case (JList xs)
  have body: "read_value (Suc m) (jprint i k (JList xs) @ r) = Some (JList xs, r)"
    if "2 * length (join i (map (jprint i k) xs)) + 2 \<le> m" for m r
  proof (cases xs)
    case Nil
    then show ?thesis by (simp add: read_value.simps skip_ws_nonws json_ws_def)
  next
    case (Cons x ys)
    then have x: "jwf x" using JList.prems by simp
    obtain c q where cq: "jprint i k x = c # q" "\<not> json_ws c" "c \<noteq> CHR '']''"
      using jprint_head [OF x] by metis
    let ?J = "join i (map (jprint i k) xs)"
    have J: "\<exists>t. ?J @ CHR '']'' # r = c # t"
      using cq by (cases ys) (simp_all add: Cons)
    have "read_elems m (?J @ CHR '']'' # r) = Some (xs, r)"
      using JList that Cons by (intro read_elems_back [OF assms]) (auto simp: list_all_iff)
    with J cq show ?thesis by (auto simp: read_value.simps skip_ws_nonws)
  qed
  show ?case
    unfolding reads_back_def
  proof (intro allI impI)
    fix n r
    assume n: "2 * length (jprint i k (JList xs)) + 1 \<le> n" and "number_stop r"
    then obtain m where m: "n = Suc m" by (cases n) auto
    then show "read_value n (jprint i k (JList xs) @ r) = Some (JList xs, r)"
      using n unfolding m by (intro body) simp
  qed
next
  case (JObj d)
  have body: "read_value (Suc m) (jprint i k (JObj d) @ r) = Some (JObj d, r)"
    if "2 * length (join i (map (item_text i k) d)) + 2 \<le> m" for m r
  proof (cases d)
    case Nil
    then show ?thesis by (simp add: read_value.simps skip_ws_nonws json_ws_def)
  next
    case (Cons p d')
    let ?J = "join i (map (item_text i k) d)"
    obtain t where "item_text i k p = CHR 0x22 # t" using item_text_head by blast
    then have J: "\<exists>t. ?J @ CHR ''}'' # r = CHR 0x22 # t"
      by (cases d') (simp_all add: Cons)
    have "\<forall>q\<in>set d. jwf (snd q) \<and> reads_back i k (snd q)"
      using JObj by (force simp: list_all_iff)
    then have e: "read_items m (?J @ CHR ''}'' # r) = Some (d, r)"
      using that Cons by (intro read_items_back [OF assms]) auto
    have "dict_update [] d = d"
      using JObj.prems dict_update_fresh [of "[]" d] by simp
    with J e show ?thesis
      by (auto simp: read_value.simps map_item_text skip_ws_nonws json_ws_def)
  qed
  show ?case
    unfolding reads_back_def
  proof (intro allI impI)
    fix n r
    assume n: "2 * length (jprint i k (JObj d)) + 1 \<le> n" and "number_stop r"
    then obtain m where m: "n = Suc m" by (cases n) auto
    then show "read_value n (jprint i k (JObj d) @ r) = Some (JObj d, r)"
      using n unfolding m by (intro body) (simp add: map_item_text)
  qed
qed (auto simp: scalar_text_def intro!: reads_back_scalar)

lemma loads_jprint:
  assumes "seps i k" and "jwf v"
  shows "loads (jprint i k v) = Some v"
proof -
  have "read_value (2 * length (jprint i k v) + 2) (jprint i k v @ []) = Some (v, [])"
    using jprint_reads_back [OF assms] by (intro reads_backD) auto
  moreover have "skip_ws (jprint i k v @ []) = jprint i k v @ []" by (rule skip_ws_jprint [OF assms(2)])
  ultimately show ?thesis by (simp add: loads_def skip_ws_def)
qed

subsection \<open>Canonical form\<close>

lemma jwf_canon: "jwf v \<Longrightarrow> jwf (canon v)"
proof (induction v)
  case (JObj d)
  have "distinct (map fst (sort_key fst (map (\<lambda>(k, v). (k, canon v)) d)))"
    using JObj.prems by (auto simp: distinct_map inj_on_def case_prod_beta)
  with JObj show ?case by (auto simp: list_all_iff)
qed (auto simp: list_all_iff)

theorem loads_dumps:
  assumes "jwf v"
  shows "loads (dumps v) = Some (canon v)" and "loads (dumps_compact v) = Some (canon v)"
  using loads_jprint [OF seps_default jwf_canon [OF assms]]
    loads_jprint [OF seps_compact jwf_canon [OF assms]]
  by (simp_all add: dumps_def dumps_compact_def)

lemma dumps_compact_inj:
  "jwf v \<Longrightarrow> jwf w \<Longrightarrow> dumps_compact v = dumps_compact w \<Longrightarrow> canon v = canon w"
  using loads_dumps(2) [of v] loads_dumps(2) [of w] by simp

text \<open>A sorted object is its own canonical form when its values are scalars.\<close>

lemma canon_scalars:
  assumes "sorted (map fst d)" and "list_all (\<lambda>(k, v). \<not> is_jlist v \<and> \<not> is_jobj v) d"
  shows "canon (JObj d) = JObj d"
proof -
  have c: "canon v = v" if "\<not> is_jlist v" "\<not> is_jobj v" for v
    using that by (cases v) (simp_all add: is_jlist_def is_jobj_def)
  have "map (\<lambda>(k, v). (k, canon v)) d = d"
    using assms(2) by (intro map_idI) (auto simp: list_all_iff intro: c)
  then show ?thesis using assms(1) by (simp add: sort_key_id_if_sorted)
qed

subsection \<open>The fuel is enough\<close>

text \<open>Every reader consumes input, so the default fuel of \<open>loads\<close> is never the reason for failing.\<close>

lemma length_skip_ws: "length (skip_ws s) \<le> length s"
  by (simp add: skip_ws_def length_dropWhile_le)

lemma read_chars_consumes: "read_chars s = Some (t, r) \<Longrightarrow> length r < length s"
proof (induction s arbitrary: t r rule: length_induct)
  case (1 s)
  have IH: "read_chars u = Some (t', r') \<Longrightarrow> length u < length s \<Longrightarrow> length r' < length u" for u t' r'
    using 1(1) by blast
  show ?case
  proof (cases s)
    case Nil
    with 1(2) show ?thesis by (simp add: read_chars.simps)
  next
    case (Cons c q)
    with 1(2) have "read_chars (c # q) = Some (t, r)" by simp
    from this [unfolded read_chars.simps(2)] show ?thesis
      by (auto simp: Cons split: if_splits option.splits list.splits dest!: IH)
  qed
qed

lemma read_unsigned_consumes: "read_unsigned sg s = Some (v, r) \<Longrightarrow> length r < length s"
proof -
  have dw: "length (dropWhile is_digit q) \<le> length q" for q
    by (rule length_dropWhile_le)
  have f: "length (snd (read_frac q)) \<le> length q" for q
    using dw by (cases q) (auto simp: read_frac_def le_SucI)
  have e: "length (snd (read_exp q)) \<le> length q" for q
    using dw by (cases q) (auto simp: read_exp_def le_SucI split: list.splits)
  have i: "read_int_part q = Some (a, b) \<Longrightarrow> length b < length q" for q a b
    using dw by (cases q) (auto simp: read_int_part_def le_imp_less_Suc split: if_splits)
  show "read_unsigned sg s = Some (v, r) \<Longrightarrow> length r < length s"
    using i [of s] f e
    by (auto simp: read_unsigned_def split: option.splits prod.splits if_splits)
      (metis le_less_trans less_le_trans snd_conv order_trans)+
qed

lemma read_word_consumes: "read_word s = Some (v, r) \<Longrightarrow> length r < length s"
proof -
  have num: "read_number s = Some (v, r) \<Longrightarrow> length r < length s"
    by (cases s) (auto simp: read_number_def split: if_splits dest: read_unsigned_consumes)
  assume a: "read_word s = Some (v, r)"
  then have "s \<noteq> []" by (cases s) (simp_all add: read_word_def read_number_def)
  from a consider "read_number s = Some (v, r)" | "drop 3 s = r" | "drop 4 s = r" | "drop 5 s = r"
    | "drop 8 s = r" | "drop 9 s = r"
    unfolding read_word_def by (simp split: if_splits)
  then show ?thesis
  proof cases
    case 1
    then show ?thesis by (rule num)
  qed (use \<open>s \<noteq> []\<close> in \<open>auto simp del: drop_eq_Nil\<close>)
qed

lemma readers_consume:
  "read_value n s = Some (v, r) \<Longrightarrow> length r < length s"
  "read_elems n s = Some (vs, r) \<Longrightarrow> length r < length s"
  "read_items n s = Some (d, r) \<Longrightarrow> length r < length s"
proof (induction n arbitrary: s v r vs d)
  case 0
  { case 1 then show ?case by (simp add: read_value.simps) }
  { case 2 then show ?case by (simp add: read_elems.simps) }
  { case 3 then show ?case by (simp add: read_items.simps) }
next
  case (Suc n)
  have ws: "length u < length (skip_ws q) \<Longrightarrow> length u < length q" for u q
    using length_skip_ws [of q] by simp
  have ws': "skip_ws q = c # u \<Longrightarrow> length u < length q" for c u q
    using length_skip_ws [of q] by simp
  {
    case 1
    then show ?case
      by (auto simp: read_value.simps split: list.splits if_splits
          dest!: read_chars_consumes read_word_consumes Suc.IH ws' intro: less_SucI)
  }
  {
    case 2
    then show ?case
      by (auto simp: read_elems.simps split: list.splits if_splits option.splits
          dest!: Suc.IH ws ws')
  }
  {
    case 3
    then show ?case
      by (auto simp: read_items.simps split: list.splits if_splits option.splits
          dest!: read_chars_consumes Suc.IH ws ws')
  }
qed

lemma fuel_step:
  "2 * length s + 1 \<le> n \<Longrightarrow> read_value (Suc n) s = read_value n s"
  "2 * length s + 2 \<le> n \<Longrightarrow> read_elems (Suc n) s = read_elems n s"
  "2 * length s + 2 \<le> n \<Longrightarrow> read_items (Suc n) s = read_items n s"
proof (induction n arbitrary: s)
  case 0
  { case 1 then show ?case by simp }
  { case 2 then show ?case by simp }
  { case 3 then show ?case by simp }
next
  case (Suc n)
  {
    case 1
    show ?case
    proof (cases s)
      case Nil
      then show ?thesis by (simp add: read_value.simps)
    next
      case (Cons c r)
      have el: "read_elems (Suc n) (d # q) = read_elems n (d # q)"
        and it: "read_items (Suc n) (d # q) = read_items n (d # q)" if "skip_ws r = d # q" for d q
        using 1 Cons length_skip_ws [of r] that by (auto intro!: Suc.IH)
      show ?thesis
        unfolding Cons
        by (subst (1 2) read_value.simps(2)) (simp add: el it split: list.splits)
    qed
  }
  {
    case 2
    have v: "read_value (Suc n) s = read_value n s" using 2 by (intro Suc.IH) simp
    have e: "read_elems (Suc n) (skip_ws q) = read_elems n (skip_ws q)"
      if "read_value n s = Some (x, r)" "skip_ws r = c # q" for x r c q
      using 2 readers_consume(1) [OF that(1)] length_skip_ws [of r] length_skip_ws [of q] that(2)
      by (intro Suc.IH) simp
    show ?case
      by (subst (1 2) read_elems.simps(2)) (auto simp: v e split: option.splits list.splits)
  }
  {
    case 3
    have v: "read_value (Suc n) (skip_ws r2) = read_value n (skip_ws r2)"
      if "s = c # r" "read_chars r = Some (k, r1)" "skip_ws r1 = d # r2" for c r k r1 d r2
      using 3 that read_chars_consumes [OF that(2)] length_skip_ws [of r1] length_skip_ws [of r2]
      by (intro Suc.IH) simp
    have e: "read_items (Suc n) (skip_ws q) = read_items n (skip_ws q)"
      if "s = c # r" "read_chars r = Some (k, r1)" "skip_ws r1 = d # r2"
        "read_value n (skip_ws r2) = Some (w, r3)" "skip_ws r3 = g # q" for c r k r1 d r2 w r3 g q
      using 3 that read_chars_consumes [OF that(2)] readers_consume(1) [OF that(4)]
        length_skip_ws [of r1] length_skip_ws [of r2] length_skip_ws [of r3] length_skip_ws [of q]
      by (intro Suc.IH) simp
    show ?case
      by (subst (1 2) read_items.simps(2)) (auto simp: v e split: option.splits list.splits)
  }
qed

lemma loads_fuel:
  assumes "2 * length s + 2 \<le> n"
  shows "read_value n (skip_ws s) = read_value (2 * length s + 2) (skip_ws s)"
  using assms
proof (induction n rule: dec_induct)
  case base
  show ?case ..
next
  case (step n)
  then show ?case using length_skip_ws [of s] by (subst fuel_step(1)) auto
qed

end
