(* ===== verification/Governance.thy ===== *)
theory Governance
  imports Json
begin

text \<open>
  \<open>panella/governance.py\<close>: the deployment's configuration.  The base file and the optional overlay are
  merged key by key, the identity, approval and paths sections are parsed with their defaults, and a
  malformed value is a \<open>GovernanceConfigError\<close> at load.  Reading and parsing a YAML file is a
  parameter \<open>read\<close> (\<open>None\<close> when the file cannot be read or parsed); \<open>exists\<close> and \<open>expanduser\<close> are
  those of the file system.  Messages leave out the interpolated values.
\<close>

record root_principal_config =
  rp_id :: string
  rp_subject_id :: string
  rp_roles :: "string list"

record identity_config =
  root_principal :: root_principal_config
  default_tenant_id :: string
  default_subject_id :: string
  tenant_id_prefix :: string
  content_owner_label :: string
  owner_slug :: string
  owner_wing :: string

record approval_config =
  authorized_approvers :: "string list"
  transport_kind :: string
  transport_config :: dict

record paths_config =
  store_path :: string
  embeddings_env :: string
  config_dir :: "string option"

record governance =
  schema_version :: int
  raw :: dict

definition KNOWN_TRANSPORT_KINDS :: "string list" where
  "KNOWN_TRANSPORT_KINDS = [''telegram'', ''local_cli'']"

definition GENERIC_TRANSPORT_CONFIG :: dict where
  "GENERIC_TRANSPORT_CONFIG =
     [(''token_file'', JStr ''~/.panella/approval.token''), (''token_mode'', JStr ''0600'')]"

definition gerr :: "string \<Rightarrow> 'a res" where
  "gerr m = Inl (GovernanceConfigError m)"

lemma gerr_neq [simp]: "gerr m \<noteq> Inr x" "Inr x \<noteq> gerr m"
  by (simp_all add: gerr_def)

subsection \<open>Sections\<close>

definition gov_section :: "dict \<Rightarrow> string \<Rightarrow> dict res" where
  "gov_section m key =
     (case dget m key of
        None \<Rightarrow> Inr []
      | Some JNull \<Rightarrow> Inr []
      | Some (JObj d) \<Rightarrow> Inr d
      | Some _ \<Rightarrow> gerr (''governance '' @ key @ '' must be a mapping''))"

definition req_str :: "dict \<Rightarrow> string \<Rightarrow> string \<Rightarrow> string \<Rightarrow> string res" where
  "req_str block key dflt section =
     (case (case dget block key of None \<Rightarrow> JStr dflt | Some v \<Rightarrow> v) of
        JStr s \<Rightarrow>
          if py_strip s = [] then gerr (''governance '' @ section @ ''.'' @ key @ '' must be a non-empty string'')
          else Inr (py_strip s)
      | _ \<Rightarrow> gerr (''governance '' @ section @ ''.'' @ key @ '' must be a non-empty string''))"

text \<open>\<open>isinstance(xs, list) and all(isinstance(x, str) and x.strip() for x in xs)\<close>, stripped.\<close>

definition stripped :: "json \<Rightarrow> string" where
  "stripped v = (case v of JStr s \<Rightarrow> py_strip s | _ \<Rightarrow> [])"

definition str_items :: "json \<Rightarrow> string list option" where
  "str_items v = (case v of
       JList xs \<Rightarrow> if list_all (\<lambda>x. stripped x \<noteq> []) xs then Some (map stripped xs) else None
     | _ \<Rightarrow> None)"

definition mapping_or_empty :: "json option \<Rightarrow> string \<Rightarrow> dict res" where
  "mapping_or_empty v m = (case v of
        None \<Rightarrow> Inr [] | Some JNull \<Rightarrow> Inr [] | Some (JObj d) \<Rightarrow> Inr d | Some _ \<Rightarrow> gerr m)"

definition parse_root_principal :: "dict \<Rightarrow> root_principal_config res" where
  "parse_root_principal rp =
     (case str_items (case dget rp ''roles'' of None \<Rightarrow> JList [JStr ''root_operator''] | Some v \<Rightarrow> v) of
        None \<Rightarrow> gerr ''governance identity.root_principal.roles must be non-empty strings''
      | Some roles \<Rightarrow>
          rbind (req_str rp ''id'' ''human:owner'' ''identity.root_principal'') (\<lambda>i.
          rbind (req_str rp ''subject_id'' ''u_owner'' ''identity.root_principal'') (\<lambda>sid.
          Inr \<lparr>rp_id = i, rp_subject_id = sid, rp_roles = roles\<rparr>)))"

definition parse_identity :: "dict \<Rightarrow> identity_config res" where
  "parse_identity block =
     rbind (mapping_or_empty (dget block ''root_principal'')
              ''governance identity.root_principal must be a mapping'') (\<lambda>rp.
     rbind (parse_root_principal rp) (\<lambda>root.
     rbind (req_str block ''default_tenant_id'' ''t_owner_personal'' ''identity'') (\<lambda>ten.
     rbind (req_str block ''default_subject_id'' ''u_owner'' ''identity'') (\<lambda>sub.
     rbind (req_str block ''tenant_id_prefix'' ''t_'' ''identity'') (\<lambda>pre.
     rbind (req_str block ''content_owner_label'' ''Owner'' ''identity'') (\<lambda>lab.
     rbind (req_str block ''owner_slug'' ''owner'' ''identity'') (\<lambda>slug.
     rbind (req_str block ''owner_wing'' ''owner'' ''identity'') (\<lambda>wing.
       Inr \<lparr>root_principal = root, default_tenant_id = ten, default_subject_id = sub,
            tenant_id_prefix = pre, content_owner_label = lab, owner_slug = slug,
            owner_wing = wing\<rparr>))))))))"

definition parse_transport :: "dict \<Rightarrow> (string \<times> dict) res" where
  "parse_transport tr =
     (case (case dget tr ''kind'' of None \<Rightarrow> JStr ''local_cli'' | Some v \<Rightarrow> v) of
        JStr s \<Rightarrow>
          (let kind = py_strip s in
           if kind = [] then gerr ''governance approval.transport.kind must be a non-empty string''
           else if kind \<notin> set KNOWN_TRANSPORT_KINDS
             then gerr ''governance approval.transport.kind is not a known transport''
           else
             (case (case dget tr ''config'' of
                      None \<Rightarrow> JObj (if kind = ''local_cli'' then GENERIC_TRANSPORT_CONFIG else [])
                    | Some v \<Rightarrow> v) of
                JNull \<Rightarrow> Inr (kind, [])
              | JObj c \<Rightarrow> Inr (kind, c)
              | _ \<Rightarrow> gerr ''governance approval.transport.config must be a mapping''))
      | _ \<Rightarrow> gerr ''governance approval.transport.kind must be a non-empty string'')"

definition parse_approval :: "dict \<Rightarrow> approval_config res" where
  "parse_approval block =
     (case str_items (case dget block ''authorized_approvers'' of
                        None \<Rightarrow> JList [] | Some JNull \<Rightarrow> JList [] | Some v \<Rightarrow> v) of
        None \<Rightarrow> gerr ''governance approval.authorized_approvers must be a list of non-empty strings''
      | Some approvers \<Rightarrow>
          rbind (mapping_or_empty (dget block ''transport'') ''governance approval.transport must be a mapping'')
            (\<lambda>tr. rbind (parse_transport tr) (\<lambda>(kind, cfg).
               Inr \<lparr>authorized_approvers = approvers, transport_kind = kind, transport_config = cfg\<rparr>)))"

definition parse_paths :: "dict \<Rightarrow> paths_config res" where
  "parse_paths block =
     rbind (case dget block ''config_dir'' of
              None \<Rightarrow> Inr None
            | Some JNull \<Rightarrow> Inr None
            | Some (JStr s) \<Rightarrow> Inr (if py_strip s = [] then None else Some (py_strip s))
            | Some _ \<Rightarrow> gerr ''governance paths.config_dir must be a string or null'') (\<lambda>cd.
     rbind (req_str block ''store_path'' ''~/.panella/sqlite_vec.db'' ''paths'') (\<lambda>sp.
     rbind (req_str block ''embeddings_env'' ''~/.panella/openai.env'' ''paths'') (\<lambda>ee.
       Inr \<lparr>store_path = sp, embeddings_env = ee, config_dir = cd\<rparr>)))"

text \<open>The typed accessors of a loaded configuration; each parses its section again.\<close>

definition model_router :: "governance \<Rightarrow> dict" where
  "model_router g = (case dget (raw g) ''model_router'' of Some (JObj d) \<Rightarrow> d | _ \<Rightarrow> [])"

definition identity :: "governance \<Rightarrow> identity_config res" where
  "identity g = rbind (gov_section (raw g) ''identity'') parse_identity"

definition approval :: "governance \<Rightarrow> approval_config res" where
  "approval g = rbind (gov_section (raw g) ''approval'') parse_approval"

definition paths :: "governance \<Rightarrow> paths_config res" where
  "paths g = rbind (gov_section (raw g) ''paths'') parse_paths"

subsection \<open>Merging and loading\<close>

fun deep_merge :: "dict \<Rightarrow> dict \<Rightarrow> dict" where
  "deep_merge base [] = base"
| "deep_merge base ((k, v) # overlay) =
     deep_merge
       (dset k (case v of
                  JObj o' \<Rightarrow> (case dget base k of Some (JObj b) \<Rightarrow> JObj (deep_merge b o') | _ \<Rightarrow> v)
                | _ \<Rightarrow> v) base)
       overlay"

definition load_yaml_mapping :: "(string \<Rightarrow> json option) \<Rightarrow> string \<Rightarrow> dict res" where
  "load_yaml_mapping read path =
     (case read path of None \<Rightarrow> gerr ''cannot read governance config''
      | Some data \<Rightarrow>
        (case (if truthy data then data else JObj []) of
           JObj d \<Rightarrow> Inr d | _ \<Rightarrow> gerr ''governance config must be a mapping''))"

definition OVERLAY_ENV :: string where
  "OVERLAY_ENV = ''PANELLA_GOVERNANCE_OVERLAY''"

definition resolve_overlay_path ::
  "(string \<Rightarrow> string) \<Rightarrow> string option \<Rightarrow> (string \<Rightarrow> string option) \<Rightarrow> string option" where
  "resolve_overlay_path expanduser overlay_path env =
     (case (case overlay_path of None \<Rightarrow> env OVERLAY_ENV | Some p \<Rightarrow> Some p) of
        None \<Rightarrow> None | Some p \<Rightarrow> if p = [] then None else Some (expanduser p))"

definition check_governance :: "dict \<Rightarrow> governance res" where
  "check_governance merged =
     (case (case dget merged ''schema_version'' of None \<Rightarrow> JInt 1 | Some v \<Rightarrow> v) of
        JInt sv \<Rightarrow>
          rbind (case dget merged ''model_router'' of
             Some v \<Rightarrow> if v \<noteq> JNull \<and> \<not> is_jobj v then gerr ''model_router must be a mapping'' else Inr ()
           | None \<Rightarrow> Inr ()) (\<lambda>_.
             let g = \<lparr>schema_version = sv, raw = merged\<rparr> in
             rbind (identity g) (\<lambda>_. rbind (approval g) (\<lambda>_. rbind (paths g) (\<lambda>_. Inr g))))
      | _ \<Rightarrow> gerr ''schema_version must be an integer'')"

definition load_governance ::
  "(string \<Rightarrow> json option) \<Rightarrow> (string \<Rightarrow> bool) \<Rightarrow> string \<Rightarrow> string option \<Rightarrow> governance res" where
  "load_governance read exists base_path overlay =
     rbind (load_yaml_mapping read base_path) (\<lambda>base.
     rbind (case overlay of
              None \<Rightarrow> Inr base
            | Some p \<Rightarrow>
                if \<not> exists p then gerr ''PANELLA_GOVERNANCE_OVERLAY points at a missing overlay''
                else rbind (load_yaml_mapping read p) (\<lambda>ov. Inr (deep_merge base ov)))
       check_governance)"

text \<open>The process-wide cache: the loader runs once; a failed load is not cached.\<close>

definition current_governance ::
  "governance res \<Rightarrow> governance option \<Rightarrow> governance res \<times> governance option" where
  "current_governance load cur =
     (case cur of Some g \<Rightarrow> (Inr g, cur)
      | None \<Rightarrow> (case load of Inl e \<Rightarrow> (Inl e, None) | Inr g \<Rightarrow> (Inr g, Some g)))"

definition resolved_config_dir ::
  "(string \<Rightarrow> string) \<Rightarrow> (string \<Rightarrow> string option) \<Rightarrow> paths_config \<Rightarrow> string option" where
  "resolved_config_dir expanduser env p =
     (case env ''PANELLA_CONFIG_DIR'' of
        Some r \<Rightarrow> if r \<noteq> [] \<and> py_strip r \<noteq> [] then Some (expanduser (py_strip r))
                  else map_option expanduser (config_dir p)
      | None \<Rightarrow> map_option expanduser (config_dir p))"

subsection \<open>The merged configuration\<close>

definition merge_value :: "json option \<Rightarrow> json \<Rightarrow> json" where
  "merge_value old v = (case v of
       JObj o' \<Rightarrow> (case old of Some (JObj b) \<Rightarrow> JObj (deep_merge b o') | _ \<Rightarrow> v)
     | _ \<Rightarrow> v)"

lemma merge_value_simps [simp]:
  "\<not> is_jobj v \<Longrightarrow> merge_value old v = v"
  "merge_value (Some (JObj b)) (JObj d) = JObj (deep_merge b d)"
  "merge_value None (JObj d) = JObj d"
  by (auto simp: merge_value_def is_jobj_def split: json.splits)

lemma is_jobj_simps [simp]: "is_jobj (JObj d)" "\<not> is_jobj JNull" "\<not> is_jobj (JStr s)"
    "\<not> is_jobj (JList xs)" "\<not> is_jobj (JInt i)" "\<not> is_jobj (JBool b)"
  by (simp_all add: is_jobj_def)

lemma is_jobjE: "is_jobj v \<Longrightarrow> (\<And>d. v = JObj d \<Longrightarrow> P) \<Longrightarrow> P"
  by (cases v) (simp_all add: is_jobj_def)

lemma deep_merge_Cons: "deep_merge b ((k, v) # ov) = deep_merge (dset k (merge_value (dget b k) v) b) ov"
  by (simp add: merge_value_def)

lemma dget_deep_merge [dict_simps]:
  "distinct (map fst ov) \<Longrightarrow>
   dget (deep_merge b ov) k =
     (case dget ov k of None \<Rightarrow> dget b k | Some v \<Rightarrow> Some (merge_value (dget b k) v))"
proof (induction ov arbitrary: b)
  case Nil
  then show ?case by simp
next
  case (Cons p ov)
  obtain k' v where p: "p = (k', v)" by (cases p)
  have "k' \<notin> dom (map_of ov)"
    using Cons.prems by (simp add: p dom_map_of_conv_image_fst)
  then have "k = k' \<Longrightarrow> dget ov k = None" by auto
  with Cons show ?case
    by (auto simp: p deep_merge_Cons dget_dset simp del: deep_merge.simps split: option.splits)
qed

lemma deep_merge_empty: "deep_merge b [] = b"
  by simp

text \<open>Values at a path of keys.\<close>

fun jpath :: "string list \<Rightarrow> json \<Rightarrow> json option" where
  "jpath [] v = Some v"
| "jpath (k # ks) (JObj d) = (case dget d k of None \<Rightarrow> None | Some v \<Rightarrow> jpath ks v)"
| "jpath (k # ks) _ = None"

lemma jpath_not_obj: "\<not> is_jobj v \<Longrightarrow> p \<noteq> [] \<Longrightarrow> jpath p v = None"
  by (cases v; cases p) (simp_all add: is_jobj_def)

lemma jwf_dget: "jwf (JObj d) \<Longrightarrow> dget d k = Some v \<Longrightarrow> jwf v"
  by (auto dest!: map_of_SomeD simp: list_all_iff)

lemma overlay_leaf:
  assumes "jwf (JObj ov)" and "jpath p (JObj ov) = Some v" and "\<not> is_jobj v"
  shows "jpath p (JObj (deep_merge b ov)) = Some v"
  using assms
proof (induction p arbitrary: b ov)
  case Nil
  then show ?case by auto
next
  case (Cons k p)
  then obtain u where u: "dget ov k = Some u" "jpath p u = Some v"
    by (auto split: option.splits)
  have m: "dget (deep_merge b ov) k = Some (merge_value (dget b k) u)"
    using Cons.prems(1) u(1) by (simp add: dget_deep_merge)
  show ?case
  proof (cases "is_jobj u")
    case False
    then show ?thesis using m u by simp
  next
    case True
    then obtain d where d: "u = JObj d" by (rule is_jobjE)
    show ?thesis
    proof (cases "\<exists>b'. dget b k = Some (JObj b')")
      case True
      then obtain b' where b': "dget b k = Some (JObj b')" by blast
      have "jwf (JObj d)" using jwf_dget [OF Cons.prems(1) u(1)] by (simp only: d)
      with Cons.IH [of d b'] u(2) Cons.prems(3) show ?thesis
        by (simp add: m b' d)
    next
      case False
      then have "merge_value (dget b k) u = u"
        by (auto simp: merge_value_def d split: option.splits json.splits)
      with m u show ?thesis by simp
    qed
  qed
qed

text \<open>The overlay leaves a path alone when it holds nothing there and no leaf above it.\<close>

definition untouched :: "string list \<Rightarrow> dict \<Rightarrow> bool" where
  "untouched p ov \<longleftrightarrow> jpath p (JObj ov) = None \<and>
     (\<forall>n < length p. \<forall>v. jpath (take n p) (JObj ov) = Some v \<longrightarrow> is_jobj v)"

lemma untouched_Cons:
  assumes "untouched (k # p) ov" and "dget ov k = Some u" and "p \<noteq> []"
  obtains d where "u = JObj d" "untouched p d"
proof -
  have above: "is_jobj v" if "n < Suc (length p)" "jpath (take n (k # p)) (JObj ov) = Some v" for n v
    using assms(1) that by (auto simp: untouched_def)
  have "is_jobj u" using above [of 1 u] assms(2,3) by simp
  then obtain d where d: "u = JObj d" by (rule is_jobjE)
  have "untouched p d"
    unfolding untouched_def
  proof (intro conjI allI impI)
    show "jpath p (JObj d) = None" using assms(1,2) d by (simp add: untouched_def)
    show "is_jobj v" if "n < length p" "jpath (take n p) (JObj d) = Some v" for n v
      using above [of "Suc n" v] that assms(2) d by simp
  qed
  with d show ?thesis by (rule that)
qed

lemma overlay_untouched:
  assumes "jwf (JObj ov)" and "untouched p ov"
  shows "jpath p (JObj (deep_merge b ov)) = jpath p (JObj b)"
  using assms
proof (induction p arbitrary: b ov)
  case Nil
  then show ?case by (simp add: untouched_def)
next
  case (Cons k p)
  have "distinct (map fst ov)" using Cons.prems(1) by simp
  note m = dget_deep_merge [OF this, of b k]
  show ?case
  proof (cases "dget ov k")
    case None
    with m show ?thesis by simp
  next
    case (Some u)
    have "p \<noteq> []" using Cons.prems(2) Some by (auto simp: untouched_def)
    with Cons.prems(2) Some obtain d where d: "u = JObj d" "untouched p d"
      by (rule untouched_Cons)
    have wd: "jwf (JObj d)" using jwf_dget [OF Cons.prems(1) Some] by (simp only: d)
    have none: "jpath p (JObj d) = None" using d(2) by (simp add: untouched_def)
    show ?thesis
    proof (cases "dget b k")
      case None
      with m Some d none show ?thesis by simp
    next
      case b: (Some w)
      show ?thesis
      proof (cases "is_jobj w")
        case True
        then obtain b' where "w = JObj b'" by (rule is_jobjE)
        with m Some b d Cons.IH [OF wd d(2), of b'] show ?thesis by simp
      next
        case False
        then have "merge_value (Some w) u = u" by (cases w) (simp_all add: merge_value_def d is_jobj_def)
        with m Some b d none jpath_not_obj [OF False \<open>p \<noteq> []\<close>] show ?thesis by simp
      qed
    qed
  qed
qed

subsection \<open>What a loaded configuration guarantees\<close>

lemma str_items_strip: "str_items v = Some xs \<Longrightarrow> list_all (\<lambda>x. x \<noteq> []) xs"
  by (cases v) (auto simp: str_items_def list_all_iff split: if_splits, metis)

lemma parse_transport_kind:
  "parse_transport tr = Inr (k, c) \<Longrightarrow> k \<in> set KNOWN_TRANSPORT_KINDS"
  by (auto simp: parse_transport_def Let_def split: option.splits json.splits if_splits)

lemma parse_approval_ok:
  assumes "parse_approval d = Inr a"
  shows "transport_kind a \<in> set KNOWN_TRANSPORT_KINDS \<and> list_all (\<lambda>x. x \<noteq> []) (authorized_approvers a)"
proof -
  from assms obtain v xs tr k c where
    "str_items v = Some xs" "parse_transport tr = Inr (k, c)"
    "a = \<lparr>authorized_approvers = xs, transport_kind = k, transport_config = c\<rparr>"
    unfolding parse_approval_def
    by (auto simp: rbind_Inr_iff split: option.splits)
  then show ?thesis
    using str_items_strip parse_transport_kind by simp
qed

lemma check_governance_ok:
  assumes "check_governance m = Inr g"
  shows "raw g = m" and "\<exists>i a p. identity g = Inr i \<and> approval g = Inr a \<and> paths g = Inr p"
  using assms
  by (auto simp: check_governance_def rbind_Inr_iff Let_def split: json.splits option.splits if_splits)

text \<open>Once the loader returned a configuration, no accessor of it raises: identity, approval and
  paths parse, the transport is one of the known kinds and no authorized approver is empty.  A set
  overlay pointer whose file is missing never loads.\<close>

theorem load_governance_sound:
  assumes "load_governance read exists base_path overlay = Inr g"
  shows "(\<exists>i a p. identity g = Inr i \<and> approval g = Inr a \<and> paths g = Inr p \<and>
            transport_kind a \<in> set KNOWN_TRANSPORT_KINDS \<and>
            list_all (\<lambda>x. x \<noteq> []) (authorized_approvers a)) \<and>
         (\<forall>p. overlay = Some p \<longrightarrow> exists p)"
proof -
  from assms obtain m where m: "check_governance m = Inr g" and ex: "\<forall>p. overlay = Some p \<longrightarrow> exists p"
    unfolding load_governance_def by (auto simp: rbind_Inr_iff split: option.splits if_splits)
  from check_governance_ok(2) [OF m] obtain i a p where
    acc: "identity g = Inr i" "approval g = Inr a" "paths g = Inr p" by blast
  then obtain d where "parse_approval d = Inr a"
    by (auto simp: approval_def rbind_Inr_iff)
  with acc ex parse_approval_ok show ?thesis by blast
qed

theorem load_governance_sound_witness:
  "\<exists>g. load_governance (\<lambda>f. if f = ''base'' then Some (JObj [(''approval'', JObj [(''authorized_approvers'', JList [JStr ''a'']),
        (''transport'', JObj [(''kind'', JStr ''telegram'')])])]) else Some (JObj []))
      (\<lambda>f. True) ''base'' (Some ''over'') = Inr g \<and> (\<exists>a. approval g = Inr a \<and> transport_kind a \<in> set KNOWN_TRANSPORT_KINDS)"
proof -
  let ?load = "load_governance (\<lambda>f. if f = ''base'' then Some (JObj [(''approval'', JObj [(''authorized_approvers'', JList [JStr ''a'']),
        (''transport'', JObj [(''kind'', JStr ''telegram'')])])]) else Some (JObj []))
      (\<lambda>f. True) ''base'' (Some ''over'')"
  have "is_ok ?load" by code_simp
  then obtain g where g: "?load = Inr g" by (cases ?load) auto
  with load_governance_sound [OF g] show ?thesis by blast
qed

text \<open>The overlay decides.  After the merge every leaf of the overlay is found at its path with
  the overlay's value, and a path the overlay does not reach keeps the base's value.\<close>

theorem overlay_decides:
  assumes "jwf (JObj ov)"
  shows "(jpath p (JObj ov) = Some v \<and> \<not> is_jobj v \<longrightarrow> jpath p (JObj (deep_merge b ov)) = Some v) \<and>
    (untouched q ov \<longrightarrow> jpath q (JObj (deep_merge b ov)) = jpath q (JObj b))"
  using assms overlay_leaf overlay_untouched by blast

theorem overlay_decides_witness:
  "jpath [''a'', ''b''] (JObj (deep_merge [(''a'', JObj [(''b'', JInt 1), (''c'', JInt 2)])]
      [(''a'', JObj [(''b'', JInt 7)])])) = Some (JInt 7)"
proof -
  have w: "jwf (JObj [(''a'', JObj [(''b'', JInt 7)])])" by simp
  show ?thesis
    using overlay_decides [OF w, of "[''a'', ''b'']" "JInt 7" "[(''a'', JObj [(''b'', JInt 1), (''c'', JInt 2)])]"]
    by simp
qed

end
