(* ===== verification/Principals.thy ===== *)
theory Principals
  imports Governance
begin

text \<open>
  \<open>panella/principal.py\<close>: who acts and in which tenant.  \<open>mk_principal\<close> and \<open>mk_tenant_scope\<close> are the
  constructors with their \<open>__post_init__\<close> checks; the identity defaults come from a parsed
  \<open>identity_config\<close>, which the code reads through \<open>current_governance()\<close>.
\<close>

record break_glass_token =
  bg_reason :: string
  issued_at :: time
  expires_at :: time
  audit_chain_prev_hash :: string

record principal =
  pr_id :: string
  tenant_id :: string
  subject_id :: string
  actor_kind :: string
  scopes :: "string set"
  roles :: "string set"
  root_flag :: bool
  bg_token :: "break_glass_token option"

subsection \<open>Identifiers\<close>

definition ident_char :: "char \<Rightarrow> bool" where
  "ident_char c = (let n = of_char c :: nat in (97 \<le> n \<and> n \<le> 122) \<or> (48 \<le> n \<and> n \<le> 57) \<or> n = 95)"

text \<open>A full match of \<open>^(?:t*[a-z0-9_]+|\*)$\<close>: \<open>t*\<close> adds nothing to the class that follows.\<close>

definition tenant_re :: "string \<Rightarrow> bool" where
  "tenant_re s \<longleftrightarrow> (s \<noteq> [] \<and> list_all ident_char s) \<or> s = ''*''"

definition validate_identity_id :: "string \<Rightarrow> string \<Rightarrow> bool \<Rightarrow> bool \<Rightarrow> unit res" where
  "validate_identity_id v fld allow_wildcard root =
     (if v = ''*'' then
        (if allow_wildcard \<and> root then Inr ()
         else Inl (PrincipalValidationError (fld @ ''='' @ repr_str ''*'' @ '' is only valid for root principals'')))
      else if \<not> tenant_re v then Inl (PrincipalValidationError (''invalid '' @ fld @ '': '' @ repr_str v))
      else Inr ())"

subsection \<open>Break-glass tokens and scopes\<close>

definition is_active :: "break_glass_token \<Rightarrow> time \<Rightarrow> bool" where
  "is_active t now \<longleftrightarrow> expires_at t > now"

fun validate_tenants :: "string list \<Rightarrow> unit res" where
  "validate_tenants [] = Inr ()"
| "validate_tenants (t # ts) =
     rbind (validate_identity_id t ''tenant_id'' True (t = ''*'')) (\<lambda>_. validate_tenants ts)"

definition mk_tenant_scope :: "string list \<Rightarrow> string list res" where
  "mk_tenant_scope ts =
     (if ts = [] then Inl (PrincipalValidationError ''tenant scope must include at least one tenant'')
      else rbind (validate_tenants ts) (\<lambda>_. Inr ts))"

definition concrete_ids :: "string list \<Rightarrow> string list option" where
  "concrete_ids ts = (if ''*'' \<in> set ts then None else Some ts)"

definition scope_of_principal :: "principal \<Rightarrow> string list res" where
  "scope_of_principal p = (if tenant_id p = ''*'' then mk_tenant_scope [''*''] else mk_tenant_scope [tenant_id p])"

subsection \<open>Principals\<close>

definition mk_principal :: "principal \<Rightarrow> principal res" where
  "mk_principal p =
     rbind (validate_identity_id (tenant_id p) ''tenant_id'' True (root_flag p)) (\<lambda>_.
     rbind (validate_identity_id (subject_id p) ''subject_id'' False False) (\<lambda>_.
       if actor_kind p \<notin> set [''agent'', ''human'', ''system''] then
         Inl (PrincipalValidationError (''invalid actor_kind: '' @ actor_kind p))
       else if tenant_id p = ''*'' \<and> \<not> root_flag p then
         Inl (PrincipalValidationError (''tenant_id='' @ repr_str ''*'' @ '' is only valid for root principals''))
       else if bg_token p \<noteq> None \<and> \<not> root_flag p then
         Inl (PrincipalValidationError ''break-glass token requires root_flag=True'')
       else Inr p))"

definition actor_id :: "principal \<Rightarrow> string" where
  "actor_id p = before_first (CHR ''@'') (pr_id p)"

definition has_scope :: "principal \<Rightarrow> string \<Rightarrow> bool" where
  "has_scope p s \<longleftrightarrow> ''*'' \<in> scopes p \<or> s \<in> scopes p"

definition require_scope :: "principal \<Rightarrow> string \<Rightarrow> unit res" where
  "require_scope p s =
     (if has_scope p s then Inr ()
      else Inl (PermissionError (''principal '' @ pr_id p @ '' lacks required scope: '' @ s)))"

definition require_active_break_glass :: "principal \<Rightarrow> time \<Rightarrow> unit res" where
  "require_active_break_glass p now =
     (case bg_token p of None \<Rightarrow> Inr ()
      | Some t \<Rightarrow> if is_active t now then Inr () else Inl (PermissionError ''break-glass token expired''))"

definition is_root_with_break_glass :: "principal \<Rightarrow> time \<Rightarrow> bool" where
  "is_root_with_break_glass p now \<longleftrightarrow>
     root_flag p \<and> tenant_id p = ''*'' \<and>
     (case bg_token p of None \<Rightarrow> False | Some t \<Rightarrow> is_active t now)"

text \<open>The default principal of an agent profile with the given name and tenant scope.\<close>

definition principal_default_for_profile :: "identity_config \<Rightarrow> string \<Rightarrow> string list \<Rightarrow> principal res" where
  "principal_default_for_profile i name tscope =
     (let ten = (if tscope = [] then default_tenant_id i else hd tscope) in
      if ten = ''*'' then Inl (PrincipalValidationError (''agent default principal cannot use tenant_id='' @ repr_str ''*''))
      else mk_principal \<lparr>pr_id = ''agent:'' @ name @ ''@'' @ ten, tenant_id = ten,
             subject_id = default_subject_id i, actor_kind = ''agent'',
             scopes = {''memory.read'', ''memory.write''}, roles = {''agent_default''},
             root_flag = False, bg_token = None\<rparr>)"

definition mk_root_principal :: "identity_config \<Rightarrow> principal res" where
  "mk_root_principal i =
     mk_principal \<lparr>pr_id = rp_id (root_principal i), tenant_id = ''*'',
       subject_id = rp_subject_id (root_principal i), actor_kind = ''human'', scopes = {''*''},
       roles = set (rp_roles (root_principal i)), root_flag = True, bg_token = None\<rparr>"

subsection \<open>Well-formed principals\<close>

text \<open>What the constructor guarantees of every principal object that exists.\<close>

definition principal_ok :: "principal \<Rightarrow> bool" where
  "principal_ok p \<longleftrightarrow>
     tenant_re (tenant_id p) \<and> (tenant_id p = ''*'' \<longrightarrow> root_flag p) \<and>
     tenant_re (subject_id p) \<and> subject_id p \<noteq> ''*'' \<and>
     actor_kind p \<in> {''agent'', ''human'', ''system''} \<and>
     (bg_token p \<noteq> None \<longrightarrow> root_flag p)"

lemma validate_identity_id_ok:
  "validate_identity_id v f w r = Inr u \<longleftrightarrow> tenant_re v \<and> (v = ''*'' \<longrightarrow> w \<and> r)"
  by (auto simp: validate_identity_id_def tenant_re_def)

lemma mk_principal_iff: "mk_principal p = Inr q \<longleftrightarrow> q = p \<and> principal_ok p"
  by (auto simp: mk_principal_def principal_ok_def rbind_Inr_iff validate_identity_id_ok)

lemma default_principal_not_root:
  "principal_default_for_profile i n ts = Inr p \<Longrightarrow>
   principal_ok p \<and> \<not> root_flag p \<and> tenant_id p \<noteq> ''*'' \<and> \<not> is_root_with_break_glass p now"
  by (auto simp: principal_default_for_profile_def mk_principal_iff Let_def is_root_with_break_glass_def
      split: if_splits)

lemma validate_tenants_ok:
  "validate_tenants ts = Inr u \<longleftrightarrow> (\<forall>t\<in>set ts. tenant_re t)"
  by (induction ts) (auto simp: rbind_Inr_iff validate_identity_id_ok)

lemma scope_of_principal_ok: "principal_ok p \<Longrightarrow> scope_of_principal p = Inr [tenant_id p]"
  using validate_tenants_ok [of "[tenant_id p]" "()"]
  by (auto simp: scope_of_principal_def mk_tenant_scope_def principal_ok_def rbind_Inr_iff)

text \<open>A small deployment, used by the examples.\<close>

definition sample_identity :: identity_config where
  "sample_identity = \<lparr>root_principal = \<lparr>rp_id = ''human:owner@local'', rp_subject_id = ''owner'', rp_roles = [''root_operator'']\<rparr>,
     default_tenant_id = ''t_owner'', default_subject_id = ''owner'', tenant_id_prefix = ''t_'',
     content_owner_label = ''Owner'', owner_slug = ''owner'', owner_wing = ''owner''\<rparr>"

end
