(* ===== verification/Audit_Log.thy ===== *)
theory Audit_Log
  imports Principals
begin

text \<open>
  \<open>panella/audit.py\<close>: the append-only, hash-chained audit log.  The table is the list of its rows as
  stored, in any order (queries sort by \<open>seq\<close>), so a tampered log is just another list.
  \<open>audit_up\<close> says whether the database can be opened, read and written.  The hash is a parameter
  \<open>H\<close> (\<open>hashlib.sha256(...).hexdigest()\<close>); tamper evidence is stated as "or two different texts with
  the same hash have been found", which needs no assumption about \<open>H\<close> beyond the length of its digests.
\<close>

record audit_row =
  seq :: int
  ts_iso :: string
  principal_id :: string
  tenant_accessed :: string
  op :: string
  target_id :: "string option"
  reason_code :: "string option"
  details_json :: "string option"
  prev_hash :: string
  this_hash :: string

record audit_db =
  audit_rows :: "audit_row list"
  audit_up :: bool

record audit_entry =
  e_ts :: string
  e_principal :: string
  e_tenant :: string
  e_op :: string
  e_target :: "string option"
  e_reason :: "string option"
  e_details :: dict

definition ZERO_HASH :: string where
  "ZERO_HASH = replicate 64 (CHR ''0'')"

definition aerr :: "string \<Rightarrow> 'a res" where
  "aerr m = Inl (AuditChainError m)"

lemma aerr_neq [simp]: "aerr m \<noteq> Inr x" "Inr x \<noteq> aerr m"
  by (simp_all add: aerr_def)

lemma rbind_aerr [simp]: "rbind (aerr m) f = aerr m"
  by (simp add: aerr_def)

subsection \<open>Rows and their hashes\<close>

definition row_json :: "audit_row \<Rightarrow> json" where
  "row_json r = JObj
     [(''seq'', JInt (seq r)), (''ts_iso'', JStr (ts_iso r)), (''principal_id'', JStr (principal_id r)),
      (''tenant_accessed'', JStr (tenant_accessed r)), (''op'', JStr (op r)),
      (''target_id'', opt_json (target_id r)), (''reason_code'', opt_json (reason_code r)),
      (''details_json'', opt_json (details_json r)), (''prev_hash'', JStr (prev_hash r))]"

definition row_hash :: "(string \<Rightarrow> string) \<Rightarrow> string \<Rightarrow> audit_row \<Rightarrow> string" where
  "row_hash H prev r = H (prev @ dumps_compact (row_json r))"

subsection \<open>Operations\<close>

definition audit_connect :: "audit_db \<Rightarrow> audit_row list res" where
  "audit_connect db =
     (if audit_up db then Inr (audit_rows db) else Inl (OperationalError ''unable to open audit database''))"

text \<open>\<open>ORDER BY seq DESC LIMIT 1\<close>\<close>

definition last_row :: "audit_row list \<Rightarrow> audit_row option" where
  "last_row rows = (case rev (sort_key seq rows) of [] \<Rightarrow> None | r # _ \<Rightarrow> Some r)"

definition audit_tail_hash :: "audit_db \<Rightarrow> string res" where
  "audit_tail_hash db = rbind (audit_connect db) (\<lambda>rows.
     Inr (case last_row rows of None \<Rightarrow> ZERO_HASH | Some r \<Rightarrow> this_hash r))"

definition new_row :: "(string \<Rightarrow> string) \<Rightarrow> audit_entry \<Rightarrow> audit_row list \<Rightarrow> audit_row" where
  "new_row H e rows =
     (let (n, prev) = (case last_row rows of None \<Rightarrow> (1, ZERO_HASH) | Some l \<Rightarrow> (seq l + 1, this_hash l));
          r = \<lparr>seq = n, ts_iso = e_ts e, principal_id = e_principal e, tenant_accessed = e_tenant e,
               op = e_op e, target_id = e_target e, reason_code = e_reason e,
               details_json = (if e_details e = [] then None else Some (dumps_compact (JObj (e_details e)))),
               prev_hash = prev, this_hash = []\<rparr>
      in r\<lparr>this_hash := row_hash H prev r\<rparr>)"

definition audit_write ::
  "(string \<Rightarrow> string) \<Rightarrow> audit_entry \<Rightarrow> audit_db \<Rightarrow> (int \<times> audit_db) res" where
  "audit_write H e db = rbind (audit_connect db) (\<lambda>rows.
     let r = new_row H e rows in Inr (seq r, db\<lparr>audit_rows := rows @ [r]\<rparr>))"

fun verify_rows :: "(string \<Rightarrow> string) \<Rightarrow> string \<Rightarrow> int \<Rightarrow> audit_row list \<Rightarrow> unit res" where
  "verify_rows H previous expected [] = Inr ()"
| "verify_rows H previous expected (r # rs) =
     (if seq r \<noteq> expected then
        aerr (''audit chain gap: expected seq='' @ int_str expected @ '', found seq='' @ int_str (seq r))
      else if prev_hash r \<noteq> previous then
        aerr (''audit chain discontinuity at seq='' @ int_str (seq r))
      else if this_hash r \<noteq> row_hash H (prev_hash r) r then
        aerr (''audit row hash mismatch at seq='' @ int_str (seq r))
      else verify_rows H (this_hash r) (expected + 1) rs)"

definition audit_verify_chain :: "(string \<Rightarrow> string) \<Rightarrow> audit_db \<Rightarrow> bool res" where
  "audit_verify_chain H db = rbind (audit_connect db) (\<lambda>rows.
     rbind (verify_rows H ZERO_HASH 1 (sort_key seq rows)) (\<lambda>_. Inr True))"

definition rows_through :: "int \<Rightarrow> audit_row list \<Rightarrow> audit_row list" where
  "rows_through n rows = sort_key seq (filter (\<lambda>r. seq r \<le> n) rows)"

definition parse_details :: "audit_row \<Rightarrow> json res" where
  "parse_details r =
     (case details_json r of None \<Rightarrow> Inr (JObj [])
      | Some s \<Rightarrow> if s = [] then Inr (JObj [])
                 else (case loads s of None \<Rightarrow> Inl JSONDecodeError | Some v \<Rightarrow> Inr v))"

text \<open>The verified row and its parsed details.\<close>

definition audit_verify_through ::
  "(string \<Rightarrow> string) \<Rightarrow> int \<Rightarrow> audit_db \<Rightarrow> (audit_row \<times> json) res" where
  "audit_verify_through H n db =
     (if n < 1 then aerr (''invalid audit receipt seq: '' @ int_str n)
      else rbind (audit_connect db) (\<lambda>rows.
           rbind (verify_rows H ZERO_HASH 1 (rows_through n rows)) (\<lambda>_.
             (case find_row seq n (rows_through n rows) of
                None \<Rightarrow> aerr (''audit receipt seq='' @ int_str n @ '' not found or not reachable through an intact chain'')
              | Some r \<Rightarrow> rbind (parse_details r) (\<lambda>d. Inr (r, d))))))"

definition audit_row_hash :: "int \<Rightarrow> audit_db \<Rightarrow> string res" where
  "audit_row_hash n db =
     (if n < 1 then aerr (''invalid audit seq: '' @ int_str n)
      else rbind (audit_connect db) (\<lambda>rows.
        (case find_row seq n rows of None \<Rightarrow> aerr (''audit row seq='' @ int_str n @ '' not found'')
         | Some r \<Rightarrow> Inr (this_hash r))))"

subsection \<open>Sorting\<close>

lemma insort_key_below: "f a \<le> f x \<Longrightarrow> insort_key f a (ys @ [x]) = insort_key f a ys @ [x]"
  by (induction ys) auto

lemma sort_key_snoc_max:
  "\<forall>y\<in>set xs. f y \<le> (f x :: 'b :: linorder) \<Longrightarrow> sort_key f (xs @ [x]) = sort_key f xs @ [x]"
  by (induction xs) (auto simp: insort_key_below)

subsection \<open>Verification of an appended row\<close>

lemma verify_rows_append:
  "verify_rows H p n (xs @ ys) =
     rbind (verify_rows H p n xs) (\<lambda>_. verify_rows H (last (p # map this_hash xs)) (n + int (length xs)) ys)"
  by (induction xs arbitrary: p n) (simp_all add: algebra_simps)

lemma verify_rows_seq: "verify_rows H p n xs = Inr () \<Longrightarrow> map seq xs = map (\<lambda>i. n + int i) [0..<length xs]"
proof (induction xs arbitrary: p n)
  case Nil
  then show ?case by simp
next
  case (Cons r rs)
  from Cons.prems have "seq r = n" and "verify_rows H (this_hash r) (n + 1) rs = Inr ()"
    by (auto split: if_splits)
  with Cons.IH show ?case
    by (simp add: upt_conv_Cons map_Suc_upt [symmetric] del: upt_Suc) 
qed

lemma last_row_sorted:
  "last_row rows = (if rows = [] then None else Some (last (sort_key seq rows)))"
proof (cases "sort_key seq rows" rule: rev_cases)
  case Nil
  then have "rows = []" by (metis length_0_conv length_sort)
  then show ?thesis by (simp add: last_row_def)
next
  case (snoc ys y)
  then have "rows \<noteq> []" by auto
  with snoc show ?thesis by (simp add: last_row_def)
qed

lemma last_row_greatest:
  assumes "last_row rows = Some l" and "r \<in> set rows"
  shows "seq r \<le> seq l"
proof -
  obtain ys where ys: "sort_key seq rows = ys @ [l]"
    using assms(1) by (auto simp: last_row_def split: list.splits)
  moreover have "sorted (map seq (sort_key seq rows))" by simp
  moreover have "r \<in> set (sort_key seq rows)" using assms(2) by simp
  ultimately show ?thesis by (auto simp: sorted_append)
qed

lemma new_row_fields [simp]:
  "ts_iso (new_row H e rows) = e_ts e" "principal_id (new_row H e rows) = e_principal e"
  "tenant_accessed (new_row H e rows) = e_tenant e" "op (new_row H e rows) = e_op e"
  "target_id (new_row H e rows) = e_target e" "reason_code (new_row H e rows) = e_reason e"
  "details_json (new_row H e rows) =
     (if e_details e = [] then None else Some (dumps_compact (JObj (e_details e))))"
  by (simp_all add: new_row_def split: prod.splits)

lemma new_row_links:
  "prev_hash (new_row H e rows) = (case last_row rows of None \<Rightarrow> ZERO_HASH | Some l \<Rightarrow> this_hash l)"
  "seq (new_row H e rows) = (case last_row rows of None \<Rightarrow> 1 | Some l \<Rightarrow> seq l + 1)"
  by (simp_all add: new_row_def split: option.splits prod.splits)

lemma row_hash_this_hash [simp]: "row_hash H p (r\<lparr>this_hash := h\<rparr>) = row_hash H p r"
  by (simp add: row_hash_def row_json_def)

lemma new_row_hash: "this_hash (new_row H e rows) = row_hash H (prev_hash (new_row H e rows)) (new_row H e rows)"
  by (simp add: new_row_def row_hash_def row_json_def split: prod.splits)

lemma new_row_greatest: "r \<in> set rows \<Longrightarrow> seq r < seq (new_row H e rows)"
  using last_row_greatest [of rows _ r]
  by (cases "last_row rows") (auto simp: new_row_links last_row_sorted split: if_splits)

text \<open>The whole-log invariant.\<close>

definition intact :: "(string \<Rightarrow> string) \<Rightarrow> audit_row list \<Rightarrow> bool" where
  "intact H rows \<longleftrightarrow> verify_rows H ZERO_HASH 1 (sort_key seq rows) = Inr ()"

lemma sort_key_new_row: "sort_key seq (rows @ [new_row H e rows]) = sort_key seq rows @ [new_row H e rows]"
  by (rule sort_key_snoc_max) (simp add: less_imp_le new_row_greatest)

lemma intact_seqs: "intact H rows \<Longrightarrow> map seq (sort_key seq rows) = map (\<lambda>i. 1 + int i) [0..<length rows]"
  using verify_rows_seq [of H ZERO_HASH 1 "sort_key seq rows"] by (simp add: intact_def)

lemma intact_new_row_seq: "intact H rows \<Longrightarrow> seq (new_row H e rows) = 1 + int (length rows)"
proof (cases "rows = []")
  case False
  assume "intact H rows"
  then have "last (map seq (sort_key seq rows)) = last (map (\<lambda>i. 1 + int i) [0..<length rows])"
    by (simp add: intact_seqs)
  moreover have "sort_key seq rows \<noteq> []" using False by (metis length_0_conv length_sort)
  ultimately show ?thesis
    using False by (simp add: new_row_links last_row_sorted last_map of_nat_diff Suc_leI)
qed (simp add: new_row_links last_row_def)

lemma intact_append: "intact H rows \<Longrightarrow> intact H (rows @ [new_row H e rows])"
proof -
  assume i: "intact H rows"
  have "prev_hash (new_row H e rows) = last (ZERO_HASH # map this_hash (sort_key seq rows))"
  proof (cases "rows = []")
    case False
    then have "sort_key seq rows \<noteq> []" by (metis length_0_conv length_sort)
    with False show ?thesis by (simp add: new_row_links last_row_sorted last_map)
  qed (simp add: new_row_links last_row_def)
  with i intact_new_row_seq [OF i] new_row_hash [of H e rows] show ?thesis
    by (simp add: intact_def sort_key_new_row verify_rows_append)
qed

subsection \<open>Receipts\<close>

definition entry_ok :: "audit_entry \<Rightarrow> bool" where
  "entry_ok e = jwf (JObj (e_details e))"

lemma audit_write_iff: "audit_write H e db = Inr (n, db') \<longleftrightarrow>
    audit_up db \<and> n = seq (new_row H e (audit_rows db)) \<and>
    db' = db\<lparr>audit_rows := audit_rows db @ [new_row H e (audit_rows db)]\<rparr>"
  by (auto simp: audit_write_def audit_connect_def Let_def)

lemma verify_through_iff: "audit_verify_through H n db = Inr (r, d) \<longleftrightarrow>
    1 \<le> n \<and> audit_up db \<and> verify_rows H ZERO_HASH 1 (rows_through n (audit_rows db)) = Inr () \<and>
    find_row seq n (rows_through n (audit_rows db)) = Some r \<and> parse_details r = Inr d"
  by (auto simp: audit_verify_through_def audit_connect_def rbind_Inr_iff split: option.splits if_splits)

lemma verify_chain_iff: "audit_verify_chain H db = Inr b \<longleftrightarrow> audit_up db \<and> intact H (audit_rows db) \<and> b"
  by (auto simp: audit_verify_chain_def audit_connect_def rbind_Inr_iff intact_def)

lemma rows_through_append_old:
  "find_row seq n (rows_through n rows) = Some r \<Longrightarrow>
   rows_through n (rows @ [new_row H e rows]) = rows_through n rows"
  using new_row_greatest [of r rows H e]
  by (auto dest!: find_row_SomeD simp: rows_through_def)

lemma rows_through_all: "\<forall>r\<in>set rows. seq r \<le> n \<Longrightarrow> rows_through n rows = sort_key seq rows"
  by (simp add: rows_through_def filter_True)

lemma rows_through_append_new:
  "rows_through (seq (new_row H e rows)) (rows @ [new_row H e rows]) = sort_key seq rows @ [new_row H e rows]"
  using new_row_greatest [of _ rows H e]
  by (subst rows_through_all) (auto simp: less_imp_le sort_key_new_row)

lemma find_new_row: "(\<forall>r\<in>set xs. r \<in> set rows) \<Longrightarrow>
    find_row seq (seq (new_row H e rows)) (xs @ [new_row H e rows]) = Some (new_row H e rows)"
  by (induction xs) (auto dest: new_row_greatest [of _ rows H e])

lemma parse_details_new_row:
  assumes "entry_ok e"
  shows "parse_details (new_row H e rows) = Inr (canon (JObj (e_details e)))"
proof (cases "e_details e = []")
  case True
  then show ?thesis by (simp add: parse_details_def)
next
  case False
  moreover have "dumps_compact (JObj (e_details e)) \<noteq> []"
    by (simp add: dumps_compact_def)
  moreover have "loads (dumps_compact (JObj (e_details e))) = Some (canon (JObj (e_details e)))"
    using assms unfolding entry_ok_def by (rule loads_dumps(2))
  ultimately show ?thesis by (simp add: parse_details_def del: canon.simps)
qed

lemma intact_audit_write: "intact H (audit_rows db) \<Longrightarrow> audit_write H e db = Inr (n, db') \<Longrightarrow>
    intact H (audit_rows db') \<and> audit_up db'"
  by (auto simp: audit_write_iff intact_append)

lemma verify_through_write: "audit_write H e db = Inr (m, db') \<Longrightarrow>
    audit_verify_through H n db = Inr x \<Longrightarrow> audit_verify_through H n db' = Inr x"
  by (cases x) (auto simp: audit_write_iff verify_through_iff rows_through_append_old)

lemma verify_through_new:
  assumes "intact H (audit_rows db)" and "audit_write H e db = Inr (n, db')" and "entry_ok e"
  shows "audit_verify_through H n db' =
    Inr (new_row H e (audit_rows db), canon (JObj (e_details e)))"
proof -
  let ?rows = "audit_rows db" and ?r = "new_row H e (audit_rows db)"
  have n: "n = seq ?r" and db': "audit_rows db' = ?rows @ [?r]" "audit_up db'"
    using assms(2) by (simp_all add: audit_write_iff)
  have "1 \<le> n" using intact_new_row_seq [OF assms(1)] n by simp
  moreover have "verify_rows H ZERO_HASH 1 (sort_key seq ?rows @ [?r]) = Inr ()"
    using intact_append [OF assms(1)] by (simp add: intact_def sort_key_new_row)
  moreover have "find_row seq (seq ?r) (sort_key seq ?rows @ [?r]) = Some ?r"
    by (rule find_new_row) simp
  moreover have "rows_through n (audit_rows db') = sort_key seq ?rows @ [?r]"
    unfolding n db' by (rule rows_through_append_new)
  ultimately show ?thesis
    using db' parse_details_new_row [OF assms(3)] by (simp add: verify_through_iff n del: canon.simps)
qed

text \<open>The hash a receipt stores is the hash of the row the verifier returns.\<close>

lemma row_hash_new:
  assumes "intact H (audit_rows db)" and "audit_write H e db = Inr (n, db')"
  shows "audit_row_hash n db' = Inr (this_hash (new_row H e (audit_rows db)))"
proof -
  have "1 \<le> n" using assms intact_new_row_seq [OF assms(1)] by (simp add: audit_write_iff)
  with assms(2) find_new_row [of "audit_rows db" "audit_rows db" H e] show ?thesis
    by (auto simp: audit_row_hash_def audit_write_iff audit_connect_def)
qed

subsection \<open>Tamper evidence\<close>

definition row_items :: "audit_row \<Rightarrow> dict" where
  "row_items r = (case row_json r of JObj d \<Rightarrow> d | _ \<Rightarrow> [])"

lemma row_json_items: "row_json r = JObj (row_items r)"
  by (simp add: row_items_def row_json_def)

lemma row_items_eq:
  "row_items r = [(''seq'', JInt (seq r)), (''ts_iso'', JStr (ts_iso r)), (''principal_id'', JStr (principal_id r)),
      (''tenant_accessed'', JStr (tenant_accessed r)), (''op'', JStr (op r)),
      (''target_id'', opt_json (target_id r)), (''reason_code'', opt_json (reason_code r)),
      (''details_json'', opt_json (details_json r)), (''prev_hash'', JStr (prev_hash r))]"
  by (simp add: row_items_def row_json_def)

lemma canon_opt_json [simp]: "canon (opt_json x) = opt_json x"
  by (simp add: opt_json_def split: option.splits)

lemma canon_row_json: "canon (row_json r) = JObj (sort_key fst (row_items r))"
proof -
  have "map (\<lambda>(k, v). (k, canon v)) (row_items r) = row_items r"
    unfolding row_items_eq list.map prod.case canon.simps canon_opt_json by (rule refl)
  then show ?thesis by (simp add: row_json_items)
qed

lemma jwf_opt_json [simp]: "jwf (opt_json x)"
  by (simp add: opt_json_def split: option.splits)

lemma jwf_row_json: "jwf (row_json r)"
  by (simp add: row_json_def)

lemma row_json_inj:
  assumes "dumps_compact (row_json r) = dumps_compact (row_json s)"
  shows "row_items r = row_items s"
proof -
  have "canon (row_json r) = canon (row_json s)"
    using assms by (intro dumps_compact_inj jwf_row_json)
  then have "set (sort_key fst (row_items r)) = set (sort_key fst (row_items s))"
    unfolding canon_row_json by simp
  then have "set (row_items r) = set (row_items s)" by simp
  then have "map_of (row_items r) = map_of (row_items s)"
    by (rule map_of_inject_set [THEN iffD2, rotated 2]) (simp_all add: row_items_eq)
  moreover have "row_items r = map (\<lambda>k. (k, the (map_of (row_items r) k))) (map fst (row_items r))" for r
    by (simp add: row_items_eq)
  moreover have "map fst (row_items r) = map fst (row_items s)" by (simp add: row_items_eq)
  ultimately show ?thesis by metis
qed

lemma audit_row_eqI: "row_items r = row_items s \<Longrightarrow> this_hash r = this_hash s \<Longrightarrow> r = (s :: audit_row)"
  unfolding row_items_eq by (intro audit_row.equality) simp_all

definition collision :: "(string \<Rightarrow> string) \<Rightarrow> bool" where
  "collision H \<longleftrightarrow> (\<exists>x y. x \<noteq> y \<and> H x = H y)"

lemma row_hash_inj:
  assumes "row_hash H p r = row_hash H q s" and "\<not> collision H" and "length p = length q"
  shows "p = q \<and> row_items r = row_items s"
proof -
  have "p @ dumps_compact (row_json r) = q @ dumps_compact (row_json s)"
  proof (rule ccontr)
    assume "p @ dumps_compact (row_json r) \<noteq> q @ dumps_compact (row_json s)"
    with assms(1) have "collision H" unfolding row_hash_def collision_def by (intro exI conjI)
    with assms(2) show False ..
  qed
  with assms(3) have "p = q" and "dumps_compact (row_json r) = dumps_compact (row_json s)" by simp_all
  then show ?thesis by (intro conjI row_json_inj)
qed

definition link :: "string \<Rightarrow> audit_row list \<Rightarrow> string" where
  "link p rows = last (p # map this_hash rows)"

lemma link_snoc [simp]: "link p (rows @ [r]) = this_hash r"
  by (simp add: link_def)

lemma verify_rows_snoc: "verify_rows H p n (rows @ [r]) = Inr () \<longleftrightarrow>
   verify_rows H p n rows = Inr () \<and> seq r = n + int (length rows) \<and> prev_hash r = link p rows \<and>
   this_hash r = row_hash H (prev_hash r) r"
  by (auto simp: verify_rows_append rbind_Inr_iff link_def)

lemma link_length:
  assumes "\<And>x. length (H x) = k" and "length p = k" and "verify_rows H p n rows = Inr ()"
  shows "length (link p rows) = k"
  using assms(3)
proof (cases rows rule: rev_cases)
  case (snoc rs r)
  with assms(1,3) show ?thesis by (simp add: verify_rows_snoc row_hash_def)
qed (simp add: link_def assms(2))

lemma chain_determined:
  assumes "\<And>x. length (H x) = k" and "length p = k" and "\<not> collision H"
  shows "length xs = length ys \<Longrightarrow> verify_rows H p n xs = Inr () \<Longrightarrow> verify_rows H p n ys = Inr () \<Longrightarrow>
    link p xs = link p ys \<Longrightarrow> xs = ys"
proof (induction xs arbitrary: ys rule: rev_induct)
  case Nil
  then show ?case by simp
next
  case (snoc x xs)
  from snoc.prems(1) obtain zs y where ys: "ys = zs @ [y]" by (cases ys rule: rev_cases) auto
  have v: "verify_rows H p n xs = Inr ()" "verify_rows H p n zs = Inr ()"
      "prev_hash x = link p xs" "prev_hash y = link p zs"
      "this_hash x = row_hash H (link p xs) x" "this_hash y = row_hash H (link p zs) y"
      "this_hash x = this_hash y"
    using snoc.prems by (simp_all add: ys verify_rows_snoc)
  have "length (link p xs) = length (link p zs)"
    using link_length [OF assms(1,2)] v(1,2) by simp
  moreover have "row_hash H (link p xs) x = row_hash H (link p zs) y" using v(5-7) by simp
  ultimately have e: "link p xs = link p zs" "row_items x = row_items y"
    using row_hash_inj [of H "link p xs" x "link p zs" y] assms(3) by blast+
  then have "xs = zs" using snoc.IH snoc.prems(1) v(1,2) ys by simp
  moreover have "x = y" using e(2) v(7) by (rule audit_row_eqI)
  ultimately show ?case by (simp add: ys)
qed

lemma seqs_verified: "verify_rows H p 1 xs = Inr () \<Longrightarrow> r \<in> set xs \<Longrightarrow> 1 \<le> seq r \<and> seq r \<le> int (length xs)"
proof -
  assume "verify_rows H p 1 xs = Inr ()" "r \<in> set xs"
  then have "seq r \<in> set (map (\<lambda>i. 1 + int i) [0..<length xs])"
    using verify_rows_seq [of H p 1 xs] by (metis image_eqI list.set_map)
  then show ?thesis by auto
qed

lemma verified_length:
  assumes "audit_verify_through H n db = Inr (r, d)"
  shows "int (length (rows_through n (audit_rows db))) = n \<and>
    link ZERO_HASH (rows_through n (audit_rows db)) = this_hash r"
proof -
  let ?xs = "rows_through n (audit_rows db)"
  have v: "verify_rows H ZERO_HASH 1 ?xs = Inr ()" and f: "find_row seq n ?xs = Some r"
    using assms by (simp_all add: verify_through_iff)
  from f have r: "r \<in> set ?xs" "seq r = n" by (auto dest: find_row_SomeD)
  have m: "map seq ?xs = map (\<lambda>i. 1 + int i) [0..<length ?xs]" by (rule verify_rows_seq [OF v])
  have le: "\<forall>x\<in>set ?xs. seq x \<le> n" by (simp add: rows_through_def)
  obtain ys y where ys: "?xs = ys @ [y]" using r(1) by (cases ?xs rule: rev_cases) auto
  have "seq y = int (length ?xs)" using v by (simp add: ys verify_rows_snoc)
  moreover have "seq y \<le> n" using le ys by simp
  moreover have "n \<le> int (length ?xs)" using seqs_verified [OF v r(1)] r(2) by simp
  ultimately have n: "n = int (length ?xs)" by simp
  have "r = y"
  proof (rule ccontr)
    assume "r \<noteq> y"
    with r ys have "r \<in> set ys" by simp
    moreover have "verify_rows H ZERO_HASH 1 ys = Inr ()" using v by (simp add: ys verify_rows_snoc)
    ultimately have "seq r \<le> int (length ys)" using seqs_verified by blast
    with r(2) n ys show False by simp
  qed
  with n ys show ?thesis by simp
qed


definition first_bytes :: "string \<Rightarrow> string" where
  "first_bytes s = take 64 (s @ ZERO_HASH)"

definition sample_entry :: audit_entry where
  "sample_entry = \<lparr>e_ts = ''t'', e_principal = ''p'', e_tenant = ''x'', e_op = ''approval_decision'',
     e_target = Some ''7'', e_reason = None, e_details = [(''decision'', JStr ''approve'')]\<rparr>"

definition sample_log :: "nat \<Rightarrow> audit_db" where
  "sample_log k = \<lparr>audit_rows = ((\<lambda>rows. rows @ [new_row first_bytes sample_entry rows]) ^^ k) [], audit_up = True\<rparr>"

lemma sample_log_writes:
  "audit_write first_bytes sample_entry (sample_log 0) = Inr (1, sample_log 1)"
  "audit_write first_bytes sample_entry (sample_log 1) = Inr (2, sample_log 2)"
  by (simp_all add: audit_write_iff sample_log_def new_row_links last_row_def numeral_2_eq_2)

lemma sample_log_intact: "intact first_bytes (audit_rows (sample_log 0))"
  by (simp add: sample_log_def intact_def)

lemma sample_entry_ok: "entry_ok sample_entry"
  by (simp add: entry_ok_def sample_entry_def)

lemma first_bytes_length: "length (first_bytes x) = 64"
  by (simp add: first_bytes_def ZERO_HASH_def)

lemma sample_log_verifies:
  "audit_verify_through first_bytes 1 (sample_log 1) =
     Inr (new_row first_bytes sample_entry [], JObj [(''decision'', JStr ''approve'')])"
  using verify_through_new [OF sample_log_intact sample_log_writes(1) sample_entry_ok]
  by (simp add: sample_log_def sample_entry_def)


subsection \<open>What the approval code relies on\<close>

text \<open>
  The interface of a receipt log: appending returns the number of the new receipt, \<open>through n\<close> returns
  the verified receipt \<open>n\<close> and \<open>says r e\<close> means that the receipt \<open>r\<close> states the entry \<open>e\<close>.
\<close>

locale receipt_log =
  fixes post :: "'e \<Rightarrow> 's \<Rightarrow> (int \<times> 's) res"
    and through :: "int \<Rightarrow> 's \<Rightarrow> 'r res"
    and sound :: "'s \<Rightarrow> bool"
    and says :: "'r \<Rightarrow> 'e \<Rightarrow> bool"
  assumes append_sound: "sound s \<Longrightarrow> post e s = Inr (n, s') \<Longrightarrow> sound s'"
    and append_through: "sound s \<Longrightarrow> post e s = Inr (n, s') \<Longrightarrow> \<exists>r. through n s' = Inr r \<and> says r e"
    and through_append: "post e s = Inr (m, s') \<Longrightarrow> through n s = Inr r \<Longrightarrow> through n s' = Inr r"

text \<open>Appending a list of entries; an entry that cannot be written is skipped, as the callers do.\<close>

fun append_all :: "('e \<Rightarrow> 's \<Rightarrow> (int \<times> 's) res) \<Rightarrow> 'e list \<Rightarrow> 's \<Rightarrow> 's" where
  "append_all post [] s = s"
| "append_all post (e # es) s =
     (case post e s of Inl _ \<Rightarrow> append_all post es s | Inr (n, s') \<Rightarrow> append_all post es s')"

context receipt_log
begin

lemma all_sound: "sound s \<Longrightarrow> sound (append_all post es s)"
  by (induction es arbitrary: s) (auto split: sum.splits intro: append_sound)

lemma persists: "through n s = Inr r \<Longrightarrow> through n (append_all post es s) = Inr r"
  by (induction es arbitrary: s) (auto split: sum.splits intro: through_append)

lemma receipt_persists:
  assumes "sound s" and "post e s = Inr (n, s')"
  shows "\<exists>r. through n (append_all post es s') = Inr r \<and> says r e"
  using append_through [OF assms] persists by blast

end

definition receipt_says :: "audit_row \<times> json \<Rightarrow> audit_entry \<Rightarrow> bool" where
  "receipt_says rd e \<longleftrightarrow> ts_iso (fst rd) = e_ts e \<and> principal_id (fst rd) = e_principal e \<and>
     tenant_accessed (fst rd) = e_tenant e \<and> op (fst rd) = e_op e \<and> target_id (fst rd) = e_target e \<and>
     reason_code (fst rd) = e_reason e \<and> snd rd = canon (JObj (e_details e))"

definition append_entry :: "(string \<Rightarrow> string) \<Rightarrow> audit_entry \<Rightarrow> audit_db \<Rightarrow> (int \<times> audit_db) res" where
  "append_entry H e db = (if entry_ok e then audit_write H e db else Inl (TypeError ''not serializable''))"

interpretation audit: receipt_log "append_entry H" "audit_verify_through H" "\<lambda>db. intact H (audit_rows db)" receipt_says
  for H
proof
  show "intact H (audit_rows db')" if "intact H (audit_rows db)" "append_entry H e db = Inr (n, db')" for db e n db'
    using that intact_audit_write by (auto simp: append_entry_def split: if_splits)
  show "\<exists>r. audit_verify_through H n db' = Inr r \<and> receipt_says r e"
    if i: "intact H (audit_rows db)" and a: "append_entry H e db = Inr (n, db')" for db e n db'
  proof -
    from a have "entry_ok e" "audit_write H e db = Inr (n, db')"
      by (auto simp: append_entry_def split: if_splits)
    from verify_through_new [OF i this(2,1)] show ?thesis
      by (intro exI conjI) (assumption, simp add: receipt_says_def del: canon.simps)
  qed
  show "audit_verify_through H n db' = Inr r"
    if "append_entry H e db = Inr (m, db')" "audit_verify_through H n db = Inr r" for e db m db' n r
    using that verify_through_write by (auto simp: append_entry_def split: if_splits)
qed

text \<open>
  C5: a decision written to an intact log is a receipt for good.  After any further appends (of which
  some may fail) the log is still intact and the bounded verifier returns, for the number the append
  returned, a row with exactly the principal, tenant, operation, target and reason that were written,
  and details that parse to what was written.
\<close>

theorem audit_receipt_persists:
  assumes "intact H (audit_rows db)" and "append_entry H e db = Inr (n, db')"
  shows "intact H (audit_rows (append_all (append_entry H) es db')) \<and>
    (\<exists>r. audit_verify_through H n (append_all (append_entry H) es db') = Inr r \<and> receipt_says r e)"
  using audit.all_sound [OF audit.append_sound [OF assms]] audit.receipt_persists [OF assms] by blast

lemma audit_receipt_persists_witness:
  "intact first_bytes (audit_rows (append_all (append_entry first_bytes) [sample_entry] (sample_log 1))) \<and>
   (\<exists>r. audit_verify_through first_bytes 1 (append_all (append_entry first_bytes) [sample_entry] (sample_log 1)) = Inr r \<and>
     receipt_says r sample_entry)"
  by (rule audit_receipt_persists [OF sample_log_intact])
    (simp add: append_entry_def sample_entry_ok sample_log_writes)

end
