(* ===== verification/Approval_Queue.thy ===== *)
theory Approval_Queue
  imports Audit_Log
begin

text \<open>
  \<open>panella/client_raw.py\<close>, \<open>memory_outbox_schema.sql\<close> and \<open>memory_history.py\<close>: the outbox database
  with the approval queue, the memory events and the append-only history.  A transaction is a function
  \<open>outbox_db \<Rightarrow> ('a \<times> outbox_db) res\<close>: an exception rolls back, so it carries no new state.
  \<open>outbox_up\<close> says whether the database can be opened and locked.  What the code reads from
  \<open>current_governance()\<close>, the hash function and the redaction \<open>sanitize\<close> of \<open>panella/sanitize.py\<close> are the
  fields of an \<open>env\<close>.  Columns that hold times
  the code compares are \<open>time\<close> values (their ISO texts order as the times do); columns that it only
  stores are texts.
\<close>

record env =
  sha256_hex :: "string \<Rightarrow> string"
  sanitize :: "string \<Rightarrow> string"
  ident :: identity_config
  appr :: approval_config

record approval_row =
  aq_id :: int
  candidate_json :: string
  status :: string
  tg_message_id :: "int option"
  tg_message_ids :: "string option"
  tg_last_sent_at :: "string option"
  memory_event_id :: "int option"
  decided_by :: "string option"
  aq_created_at :: string
  responded_at :: "time option"
  aq_expires_at :: "time option"
  last_error :: "string option"
  approved_via :: "string option"
  approved_by :: "string option"
  approved_tg_message_id :: "int option"
  finalizer_state :: "string option"
  finalizer_worker_id :: "string option"
  finalizer_claimed_at :: "time option"
  finalizer_attempt_count :: nat
  durable_memory_id :: "string option"
  finalizer_last_error :: "string option"
  audit_receipt_seq :: "int option"
  audit_receipt_hash :: "string option"
  candidate_sha256 :: "string option"
  proposed_by_col :: "string option"

record memory_event =
  me_id :: int
  event_type :: string
  payload_json :: string
  me_created_at :: string
  me_status :: string
  attempt_count :: nat
  next_attempt_at :: "string option"
  completed_memory_id :: "string option"
  processed_at :: "string option"
  shadow :: bool
  me_tenant_id :: string
  me_principal_id :: string

record history_row =
  mh_ts :: string
  mh_op :: string
  mh_drawer_id :: string
  mh_tenant_id :: string
  mh_principal_id :: "string option"
  mh_wing :: "string option"
  mh_room :: "string option"
  mh_author :: json
  mh_source_bridge :: json
  mh_session :: json
  mh_reason :: "string option"
  mh_superseded_by :: "string option"
  mh_details_json :: "string option"

record outbox_db =
  approvals :: "approval_row list"
  next_approval :: int
  events :: "memory_event list"
  next_event :: int
  history :: "history_row list"
  outbox_up :: bool

definition outbox_connect :: "outbox_db \<Rightarrow> unit res" where
  "outbox_connect db = (if outbox_up db then Inr () else Inl (OperationalError ''database is locked''))"

definition FINALIZER_STALE_TTL_SECONDS :: int where
  "FINALIZER_STALE_TTL_SECONDS = 300"

definition find_approval :: "int \<Rightarrow> outbox_db \<Rightarrow> approval_row option" where
  "find_approval i db = find_row aq_id i (approvals db)"

definition set_approval :: "int \<Rightarrow> (approval_row \<Rightarrow> approval_row) \<Rightarrow> outbox_db \<Rightarrow> outbox_db" where
  "set_approval i f db = db\<lparr>approvals := update_where (\<lambda>r. aq_id r = i) f (approvals db)\<rparr>"

subsection \<open>Helpers\<close>

definition transport_kind_of :: "env \<Rightarrow> string" where
  "transport_kind_of v = transport_kind (appr v)"

definition resolve_cron_memory_wing :: "json option \<Rightarrow> string \<Rightarrow> string" where
  "resolve_cron_memory_wing configured cron_name =
     (if opt_truthy configured then py_str (the configured)
      else if startswith ''fred-'' cron_name \<or> startswith ''cn-12x30-'' cron_name \<or> startswith ''eth-'' cron_name
        then ''quant''
      else if startswith ''iris-'' cron_name then ''iris'' else ''default'')"

definition candidate_fingerprint :: "env \<Rightarrow> string \<Rightarrow> string" where
  "candidate_fingerprint v s = sha256_hex v s"

definition content_hash :: "env \<Rightarrow> string \<Rightarrow> string" where
  "content_hash v s = sha256_hex v s"

fun proposed_by_profile :: "json option \<Rightarrow> string option" where
  "proposed_by_profile (Some (JStr s)) = (if py_strip s \<noteq> [] then Some (py_strip s) else None)"
| "proposed_by_profile _ = None"

definition is_hex_char :: "char \<Rightarrow> bool" where
  "is_hex_char c \<longleftrightarrow> is_digit c \<or> (let n = of_char c :: nat in 97 \<le> n \<and> n \<le> 102)"

definition require_receipt ::
  "int option \<Rightarrow> string option \<Rightarrow> string option \<Rightarrow> (int \<times> string \<times> string) res" where
  "require_receipt n h sha =
     (let ok = (\<lambda>x. case x of None \<Rightarrow> False | Some t \<Rightarrow> length t = 64 \<and> list_all is_hex_char t) in
      case n of None \<Rightarrow> Inl (ValueError ''invalid audit receipt seq'')
      | Some m \<Rightarrow>
          if m < 1 then Inl (ValueError ''invalid audit receipt seq'')
          else if \<not> ok h then Inl (ValueError ''invalid audit receipt hash'')
          else if \<not> ok sha then Inl (ValueError ''invalid audit receipt candidate_sha256'')
          else Inr (m, the h, the sha))"

definition deterministic_memory_id :: "env \<Rightarrow> string \<Rightarrow> string \<Rightarrow> string \<Rightarrow> string" where
  "deterministic_memory_id v w r c = ''drawer_'' @ w @ ''_'' @ r @ ''_'' @ take 16 (content_hash v c)"

text \<open>The writer mode is read once; \<open>yaml\<close> is the parsed file (\<open>None\<close>: absent; an exception: unreadable).\<close>

definition load_writer_mode :: "string option \<Rightarrow> json option res \<Rightarrow> string" where
  "load_writer_mode cached yaml =
     (case cached of Some m \<Rightarrow> m
      | None \<Rightarrow>
          (case yaml of Inr (Some v) \<Rightarrow>
             (case (if truthy v then v else JObj []) of
                JObj d \<Rightarrow>
                  (let m = py_lower (py_strip (py_str (case dget d ''writer_mode'' of None \<Rightarrow> JStr ''direct'' | Some x \<Rightarrow> x)))
                   in if m \<in> set [''direct'', ''outbox'', ''dual''] then m else ''direct'')
              | _ \<Rightarrow> ''direct'')
           | _ \<Rightarrow> ''direct''))"

subsection \<open>The durable payload\<close>

definition cand_str :: "dict \<Rightarrow> string \<Rightarrow> string \<Rightarrow> string" where
  "cand_str c key dflt = str_or (dget c key) dflt"

definition cand_meta_of :: "dict \<Rightarrow> dict" where
  "cand_meta_of c = (case dget c ''metadata'' of Some (JObj m) \<Rightarrow> m | _ \<Rightarrow> [])"

definition cand_tags_of :: "dict \<Rightarrow> json list" where
  "cand_tags_of c = (case dget c ''tags'' of Some (JList ts) \<Rightarrow> ts | _ \<Rightarrow> [])"

definition get_or_null :: "dict \<Rightarrow> string \<Rightarrow> json" where
  "get_or_null d k = (case dget d k of None \<Rightarrow> JNull | Some v \<Rightarrow> v)"

definition approval_memory_content :: "env \<Rightarrow> dict \<Rightarrow> string \<Rightarrow> string" where
  "approval_memory_content v c room =
     content_owner_label (ident v) @ '' '' @
     (if room = ''preferences'' then ''preference'' else ''feedback'') @ '': '' @
     py_strip (cand_str c ''text'' [])"

definition payload_room :: "dict \<Rightarrow> string" where
  "payload_room c = (let room = cand_str c ''suggested_room'' ''feedback''
                     in if room \<notin> set [''feedback'', ''preferences''] then ''feedback'' else room)"

definition payload_wing :: "env \<Rightarrow> dict \<Rightarrow> string" where
  "payload_wing v c = (let ow = owner_wing (ident v); wing = cand_str c ''suggested_wing'' ow
                       in if wing \<noteq> ow then ow else wing)"

definition build_approval_memory_payload :: "env \<Rightarrow> dict \<Rightarrow> int \<Rightarrow> string \<Rightarrow> dict" where
  "build_approval_memory_payload v c approval_id created_at =
     (let i = ident v; cand_meta = cand_meta_of c; text = py_strip (cand_str c ''text'' []);
          wing = payload_wing v c; room = payload_room c;
          content = approval_memory_content v c room;
          mem_id = deterministic_memory_id v wing room content;
          tags = cand_tags_of c; ref = ''approval_queue:'' @ int_str approval_id;
          label = transport_kind_of v @ ''-approval-bot'';
          metadata =
           [(''schema_version'', JStr ''v2''), (''tenant_id'', JStr (default_tenant_id i)),
            (''subject_id'', JStr (default_subject_id i)), (''actor_id'', JStr (rp_id (root_principal i))),
            (''principal_id'', JStr (rp_id (root_principal i))), (''migration_batch_id'', JNull),
            (''memory_type'', JStr (owner_slug i @ (if room = ''feedback'' then ''_feedback'' else ''_preference''))),
            (''source_system'', JStr (owner_slug i @ ''-manual'')), (''source_id'', JStr ref),
            (''wing'', JStr wing), (''room'', JStr room), (''created_at'', JStr created_at),
            (''event_time'', JStr created_at), (''privacy_scope'', JStr ''agent-wide''), (''readable_by'', JList []),
            (''provenance'', JObj
               [(''approval_queue_id'', JInt approval_id),
                (''capture_source'', case dget c ''source'' of None \<Rightarrow> JStr ''unknown'' | Some x \<Rightarrow> x),
                (''explicit_trigger'', JBool (JStr ''explicit-trigger'' \<in> set tags))]),
            (''links'', JList []), (''memory_id'', JStr mem_id),
            (''source_file'', JStr (ref @ '':'' @ content_hash v text)), (''chunk_index'', JInt 0),
            (''added_by'', JStr label), (''filed_at'', JStr created_at),
            (''content_sha256'', JStr (content_hash v content)), (''tags'', JList tags),
            (''author_agent_id'', get_or_null cand_meta ''author_agent_id''),
            (''source_bridge'', get_or_null cand_meta ''source_bridge''),
            (''session_id'', get_or_null cand_meta ''session_id''),
            (''infer'', case dget cand_meta ''infer'' of Some (JBool b) \<Rightarrow> JBool b | _ \<Rightarrow> JBool False),
            (''valid_from'', JStr created_at), (''valid_to'', JNull), (''ingested_at'', JStr created_at)]
      in [(''wing'', JStr wing), (''room'', JStr room), (''content'', JStr content), (''metadata'', JObj metadata),
          (''aaak'', JObj [(''summary'', JStr (take 240 text)), (''tags'', JList tags), (''approval_queue_id'', JInt approval_id)]),
          (''source'', JStr label), (''expected_id'', JStr mem_id), (''shadow'', JBool False)])"

text \<open>The candidate must parse, and only an object has \<open>get\<close>.\<close>

definition load_candidate :: "string \<Rightarrow> dict res" where
  "load_candidate s = (case loads s of None \<Rightarrow> Inl JSONDecodeError | Some (JObj d) \<Rightarrow> Inr d | Some _ \<Rightarrow> Inl AttributeError)"

subsection \<open>Approving\<close>

record stamp =
  st_decided_by :: string
  st_via :: "string option"
  st_by :: "string option"
  st_msg :: "int option"
  st_seq :: "int option"
  st_hash :: "string option"
  st_sha :: "string option"

definition stamp_row :: "stamp \<Rightarrow> time \<Rightarrow> int \<Rightarrow> approval_row \<Rightarrow> approval_row" where
  "stamp_row st now ev r =
     r\<lparr>status := ''approved'', responded_at := Some now, decided_by := Some (st_decided_by st),
       memory_event_id := Some ev, last_error := None, approved_via := st_via st, approved_by := st_by st,
       approved_tg_message_id := st_msg st, audit_receipt_seq := st_seq st, audit_receipt_hash := st_hash st,
       candidate_sha256 := st_sha st\<rparr>"

definition restamp_row :: "stamp \<Rightarrow> approval_row \<Rightarrow> approval_row" where
  "restamp_row st r =
     (let r1 = (if st_via st \<noteq> None \<and> approved_via r = None then
                  r\<lparr>approved_via := st_via st, approved_by := st_by st,
                    approved_tg_message_id := (if st_msg st \<noteq> None then st_msg st else approved_tg_message_id r)\<rparr>
                else r)
      in if st_seq st \<noteq> None \<and> audit_receipt_seq r = None then
           r1\<lparr>audit_receipt_seq := st_seq st, audit_receipt_hash := st_hash st, candidate_sha256 := st_sha st\<rparr>
         else r1)"

definition approvable_statuses :: "string list" where
  "approvable_statuses = [''pending'', ''pending_approval'', ''deferred'']"

text \<open>The pending memory event an approval emits.\<close>

definition approval_event :: "env \<Rightarrow> dict \<Rightarrow> int \<Rightarrow> time \<Rightarrow> int \<Rightarrow> memory_event" where
  "approval_event v c approval_id now ev =
     (let payload = build_approval_memory_payload v c approval_id (isoformat now);
          md = (case dget payload ''metadata'' of Some (JObj m) \<Rightarrow> m | _ \<Rightarrow> [])
      in \<lparr>me_id = ev, event_type = owner_slug (ident v) @ ''_feedback'',
          payload_json = dumps (JObj payload), me_created_at = isoformat now, me_status = ''pending'',
          attempt_count = 0, next_attempt_at = Some (isoformat now), completed_memory_id = None,
          processed_at = None, shadow = False,
          me_tenant_id = str_or (dget md ''tenant_id'') (default_tenant_id (ident v)),
          me_principal_id = str_or (dget md ''principal_id'') []\<rparr>)"

definition approve_in_conn ::
  "env \<Rightarrow> int \<Rightarrow> stamp \<Rightarrow> time \<Rightarrow> outbox_db \<Rightarrow> (int \<times> outbox_db) res" where
  "approve_in_conn v approval_id st now db =
     (case find_approval approval_id db of
        None \<Rightarrow> Inl (ValueError ''approval_queue row not found'')
      | Some row \<Rightarrow>
          if st_sha st \<noteq> None \<and> Some (candidate_fingerprint v (candidate_json row)) \<noteq> st_sha st then
            Inl (ValueError ''candidate bytes changed since the audit receipt was appended; refusing stamp'')
          else if status row = ''approved'' \<and> memory_event_id row \<notin> {None, Some 0} then
            Inr (the (memory_event_id row), set_approval approval_id (restamp_row st) db)
          else if status row \<notin> set approvable_statuses then
            Inl (ValueError ''approval_queue row is not approvable'')
          else
            rbind (load_candidate (candidate_json row)) (\<lambda>c.
              let ev = next_event db in
              Inr (ev, set_approval approval_id (stamp_row st now ev)
                         (db\<lparr>events := events db @ [approval_event v c approval_id now ev],
                             next_event := ev + 1\<rparr>))))"

definition raw_stamp :: "string \<Rightarrow> stamp" where
  "raw_stamp by' = \<lparr>st_decided_by = by', st_via = None, st_by = None, st_msg = None, st_seq = None,
                    st_hash = None, st_sha = None\<rparr>"

text \<open>\<open>x or d\<close> on an optional text: the empty text counts as absent.\<close>

definition given_or :: "string option \<Rightarrow> string \<Rightarrow> string" where
  "given_or x d = (case x of Some s \<Rightarrow> if s = [] then d else s | None \<Rightarrow> d)"

definition approve_queued_candidate ::
  "env \<Rightarrow> int \<Rightarrow> string option \<Rightarrow> time \<Rightarrow> outbox_db \<Rightarrow> (int \<times> outbox_db) res" where
  "approve_queued_candidate v approval_id by' now db =
     rbind (outbox_connect db) (\<lambda>_.
       approve_in_conn v approval_id (raw_stamp (given_or by' (transport_kind_of v))) now db)"

subsection \<open>Approving from Telegram\<close>

text \<open>\<open>int(x)\<close> of a decoded JSON value; a float literal is truncated toward zero.\<close>

definition literal_int :: "string \<Rightarrow> int option" where
  "literal_int s =
     (let neg = (s \<noteq> [] \<and> hd s = CHR ''-''); t = (if neg then tl s else s);
          ip = takeWhile is_digit t; r1 = dropWhile is_digit t;
          fp = (case r1 of c # r \<Rightarrow> if c = CHR ''.'' then takeWhile is_digit r else [] | [] \<Rightarrow> []);
          r2 = (case r1 of c # r \<Rightarrow> if c = CHR ''.'' then dropWhile is_digit r else r1 | [] \<Rightarrow> []);
          ds = int (digits_val (ip @ fp));
          ex = (case r2 of [] \<Rightarrow> 0 | _ # [] \<Rightarrow> 0
                | _ # c # r \<Rightarrow> if c = CHR ''-'' then - int (digits_val r) else if c = CHR ''+'' then int (digits_val r)
                              else int (digits_val (c # r)));
          sc = ex - int (length fp);
          n = (if 0 \<le> sc then ds * 10 ^ nat sc else ds div 10 ^ nat (- sc))
      in if ip = [] then None else Some (if neg then - n else n))"

definition text_int :: "string \<Rightarrow> int option" where
  "text_int s =
     (let t = py_strip s; neg = (t \<noteq> [] \<and> hd t = CHR ''-''); pos = (t \<noteq> [] \<and> hd t = CHR ''+'');
          d = (if neg \<or> pos then tl t else t)
      in if d \<noteq> [] \<and> list_all is_digit d then Some ((if neg then -1 else 1) * int (digits_val d)) else None)"

fun py_int :: "json \<Rightarrow> int option" where
  "py_int (JInt i) = Some i"
| "py_int (JBool b) = Some (if b then 1 else 0)"
| "py_int (JFloat s) = literal_int s"
| "py_int (JStr s) = text_int s"
| "py_int _ = None"

definition py_items :: "json \<Rightarrow> json list option" where
  "py_items v = (case v of JList xs \<Rightarrow> Some xs | JObj d \<Rightarrow> Some (map (JStr \<circ> fst) d)
     | JStr s \<Rightarrow> Some (map (\<lambda>c. JStr [c]) s) | _ \<Rightarrow> None)"

definition parse_ids :: "string \<Rightarrow> int list" where
  "parse_ids s =
     (case loads s of None \<Rightarrow> []
      | Some v \<Rightarrow>
          (case py_items v of None \<Rightarrow> []
           | Some xs \<Rightarrow> (let ys = map py_int (filter (\<lambda>x. x \<noteq> JNull) xs)
                         in if None \<in> set ys then [] else map the ys)))"

definition sent_message_ids :: "string option \<Rightarrow> int option \<Rightarrow> int list" where
  "sent_message_ids ids latest =
     (let out = (case ids of None \<Rightarrow> [] | Some s \<Rightarrow> if s = [] then [] else parse_ids s)
      in if out = [] then (case latest of None \<Rightarrow> [] | Some m \<Rightarrow> [m]) else out)"

definition approve_authorized_telegram_candidate ::
  "env \<Rightarrow> int \<Rightarrow> string option \<Rightarrow> int option \<Rightarrow> int option \<Rightarrow> string option \<Rightarrow> string option \<Rightarrow> time \<Rightarrow>
   outbox_db \<Rightarrow> (int \<times> outbox_db) res" where
  "approve_authorized_telegram_candidate v approval_id presser_id msg n h sha now db =
     (let presser = given_or presser_id [] in
      if presser = [] then Inl (ValueError ''presser_id is required for an authorized approval'')
      else
        rbind (if n \<noteq> None \<or> h \<noteq> None \<or> sha \<noteq> None
               then rbind (require_receipt n h sha) (\<lambda>(m, h', sha'). Inr (Some m, Some h', Some sha'))
               else Inr (None, None, None)) (\<lambda>(n', h', sha').
        rbind (outbox_connect db) (\<lambda>_.
          (case find_approval approval_id db of
             None \<Rightarrow> Inl (ValueError ''approval_queue row not found'')
           | Some bound \<Rightarrow>
               (let sent = sent_message_ids (tg_message_ids bound) (tg_message_id bound) in
                if sent = [] \<or> (case msg of None \<Rightarrow> True | Some m \<Rightarrow> m \<notin> set sent)
                then Inl (ValueError ''approval requires a bound bot message'')
                else approve_in_conn v approval_id
                       \<lparr>st_decided_by = ''telegram:'' @ presser, st_via = Some ''telegram'',
                        st_by = Some (''telegram:'' @ presser), st_msg = msg, st_seq = n', st_hash = h',
                        st_sha = sha'\<rparr> now db)))))"

subsection \<open>Approving from the approval service\<close>

datatype approve_mode = Stamped | Redrive

definition mcp_approvable_statuses :: "string list" where
  "mcp_approvable_statuses = [''pending'', ''pending_approval'']"

definition finalizer_unclaimed :: "string option \<Rightarrow> bool" where
  "finalizer_unclaimed s \<longleftrightarrow> s \<in> set [None, Some ''none'', Some ''failed'']"

definition service_stamp :: "string \<Rightarrow> string \<Rightarrow> int \<Rightarrow> string \<Rightarrow> string \<Rightarrow> stamp" where
  "service_stamp via by' n h sha = \<lparr>st_decided_by = by', st_via = Some via, st_by = Some by', st_msg = None,
     st_seq = Some n, st_hash = Some h, st_sha = Some sha\<rparr>"

definition mcp_approve_or_redrive ::
  "env \<Rightarrow> int \<Rightarrow> string \<Rightarrow> string \<Rightarrow> int \<Rightarrow> string \<Rightarrow> string \<Rightarrow> time \<Rightarrow> outbox_db \<Rightarrow>
   (approve_mode \<times> outbox_db) res" where
  "mcp_approve_or_redrive v approval_id via by' n h sha now db =
     (if via = [] \<or> by' = [] then Inl (ValueError ''mcp_approve_or_redrive requires non-empty approved_via/approved_by'')
      else
        rbind (require_receipt (Some n) (Some h) (Some sha)) (\<lambda>(n', h', sha').
        rbind (outbox_connect db) (\<lambda>_.
          (case find_approval approval_id db of
             None \<Rightarrow> Inl (ValueError ''approval_queue row not found'')
           | Some row \<Rightarrow>
               if status row = ''approved'' \<and> approved_via row = Some via \<and> approved_by row = Some by' \<and>
                  finalizer_unclaimed (finalizer_state row) then Inr (Redrive, db)
               else if status row \<notin> set mcp_approvable_statuses then
                 Inl (ValueError ''approval is not an awaiting or retriable candidate'')
               else if \<not> finalizer_unclaimed (finalizer_state row) then
                 Inl (ValueError ''approval is claimed by the finalizer/RTBF'')
               else
                 rbind (approve_in_conn v approval_id (service_stamp via by' n' h' sha') now db)
                   (\<lambda>(ev, db'). Inr (Stamped, db'))))))"

definition get_approval_candidate ::
  "int \<Rightarrow> outbox_db \<Rightarrow> (string \<times> string option) option res" where
  "get_approval_candidate approval_id db = rbind (outbox_connect db) (\<lambda>_.
     Inr (map_option (\<lambda>r. (candidate_json r, proposed_by_col r)) (find_approval approval_id db)))"

subsection \<open>Enqueueing, listing and deciding\<close>

text \<open>The INSERT of \<open>MemoryClient._enqueue_approval\<close>: the only writer of the proposer column.\<close>

definition queued_row :: "string \<Rightarrow> dict \<Rightarrow> int \<Rightarrow> time \<Rightarrow> approval_row" where
  "queued_row profile_name candidate i now =
     \<lparr>aq_id = i, candidate_json = dumps (JObj candidate), status = ''pending_approval'',
      tg_message_id = None, tg_message_ids = None, tg_last_sent_at = None, memory_event_id = None,
      decided_by = None, aq_created_at = isoformat now, responded_at = None, aq_expires_at = None,
      last_error = None, approved_via = None, approved_by = None, approved_tg_message_id = None,
      finalizer_state = None, finalizer_worker_id = None, finalizer_claimed_at = None,
      finalizer_attempt_count = 0, durable_memory_id = None, finalizer_last_error = None,
      audit_receipt_seq = None, audit_receipt_hash = None, candidate_sha256 = None,
      proposed_by_col = Some profile_name\<rparr>"

definition enqueue_approval ::
  "string \<Rightarrow> string \<Rightarrow> string \<Rightarrow> string \<Rightarrow> string \<Rightarrow> dict \<Rightarrow> string \<Rightarrow> time \<Rightarrow> outbox_db \<Rightarrow> (int \<times> outbox_db) res" where
  "enqueue_approval profile_name w room content mtype metadata drawer now db =
     rbind (outbox_connect db) (\<lambda>_.
       let candidate = [(''text'', JStr content), (''suggested_wing'', JStr w), (''suggested_room'', JStr room),
                        (''memory_type'', JStr mtype), (''metadata'', JObj metadata), (''memory_id'', JStr drawer),
                        (''agent_profile'', JStr profile_name)];
           i = next_approval db
       in Inr (i, db\<lparr>approvals := approvals db @ [queued_row profile_name candidate i now], next_approval := i + 1\<rparr>))"

record pending_item =
  pi_approval_id :: int
  pi_wing :: json
  pi_room :: json
  pi_memory_type :: json
  pi_created_at :: string
  pi_content_preview :: string
  pi_proposed_by :: "string option"

definition pending_item_of :: "approval_row \<Rightarrow> pending_item" where
  "pending_item_of r =
     (let c = (case loads (candidate_json r) of Some (JObj d) \<Rightarrow> d | _ \<Rightarrow> []) in
      \<lparr>pi_approval_id = aq_id r, pi_wing = get_or_null c ''suggested_wing'',
       pi_room = get_or_null c ''suggested_room'', pi_memory_type = get_or_null c ''memory_type'',
       pi_created_at = aq_created_at r, pi_content_preview = take 200 (cand_str c ''text'' []),
       pi_proposed_by = proposed_by_profile (map_option JStr (proposed_by_col r))\<rparr>)"

definition pending_rows :: "outbox_db \<Rightarrow> approval_row list" where
  "pending_rows db = filter (\<lambda>r. status r \<in> set mcp_approvable_statuses) (approvals db)"

definition list_pending_approvals :: "int \<Rightarrow> outbox_db \<Rightarrow> pending_item list res" where
  "list_pending_approvals limit db = rbind (outbox_connect db) (\<lambda>_.
     Inr (map pending_item_of (take (nat (max 1 (min limit 100))) (sort_key aq_id (pending_rows db)))))"

definition count_pending_approvals :: "outbox_db \<Rightarrow> nat res" where
  "count_pending_approvals db = rbind (outbox_connect db) (\<lambda>_. Inr (length (pending_rows db)))"

text \<open>The guard of the reject, reset and defer updates.\<close>

definition undecided :: "approval_row \<Rightarrow> bool" where
  "undecided r \<longleftrightarrow> status r \<in> set approvable_statuses \<and> finalizer_unclaimed (finalizer_state r)"

definition update_approval_status ::
  "env \<Rightarrow> int \<Rightarrow> string \<Rightarrow> string option \<Rightarrow> time \<Rightarrow> outbox_db \<Rightarrow> (nat \<times> outbox_db) res" where
  "update_approval_status v approval_id new by' now db =
     (if new \<notin> set [''rejected'', ''pending''] then Inl (ValueError ''unsupported approval status update'')
      else rbind (outbox_connect db) (\<lambda>_.
        let hit = (\<lambda>r. aq_id r = approval_id \<and> undecided r) in
        Inr (count_where hit (approvals db),
             db\<lparr>approvals := update_where hit
                  (\<lambda>r. r\<lparr>status := new, responded_at := (if new = ''rejected'' then Some now else responded_at r),
                         decided_by := Some (given_or by' (transport_kind_of v)), last_error := None\<rparr>)
                  (approvals db)\<rparr>)))"

definition defer_queued_candidate ::
  "env \<Rightarrow> int \<Rightarrow> int \<Rightarrow> string option \<Rightarrow> time \<Rightarrow> outbox_db \<Rightarrow> (unit \<times> outbox_db) res" where
  "defer_queued_candidate v approval_id defer_hours by' now db =
     rbind (outbox_connect db) (\<lambda>_.
       Inr ((), db\<lparr>approvals := update_where (\<lambda>r. aq_id r = approval_id \<and> undecided r)
                  (\<lambda>r. r\<lparr>status := ''deferred'', responded_at := Some now,
                         aq_expires_at := Some (now + seconds (3600 * defer_hours)),
                         decided_by := Some (given_or by' (transport_kind_of v)), last_error := None\<rparr>)
                  (approvals db)\<rparr>))"

definition resurface_deferred_approvals :: "time \<Rightarrow> outbox_db \<Rightarrow> (nat \<times> outbox_db) res" where
  "resurface_deferred_approvals now db =
     rbind (outbox_connect db) (\<lambda>_.
       let due = (\<lambda>r. status r = ''deferred'' \<and> (case aq_expires_at r of None \<Rightarrow> False | Some t \<Rightarrow> t \<le> now)) in
       Inr (count_where due (approvals db),
            db\<lparr>approvals := update_where due
                 (\<lambda>r. r\<lparr>status := ''pending'', aq_expires_at := None, tg_message_id := None,
                        tg_last_sent_at := None\<rparr>) (approvals db)\<rparr>))"

subsection \<open>History\<close>

text \<open>\<open>append_history\<close> never fails: an unusable database loses the row and nothing else.\<close>

definition append_history :: "history_row \<Rightarrow> outbox_db \<Rightarrow> outbox_db" where
  "append_history h db = (if outbox_up db then db\<lparr>history := history db @ [h]\<rparr> else db)"

definition history_entry ::
  "time \<Rightarrow> string \<Rightarrow> string \<Rightarrow> string \<Rightarrow> string option \<Rightarrow> history_row" where
  "history_entry now op' drawer ten pid =
     \<lparr>mh_ts = utcnow_iso now, mh_op = op', mh_drawer_id = drawer, mh_tenant_id = ten, mh_principal_id = pid,
      mh_wing = None, mh_room = None, mh_author = JNull, mh_source_bridge = JNull, mh_session = JNull,
      mh_reason = None, mh_superseded_by = None, mh_details_json = None\<rparr>"

definition forgotten_event :: "history_row \<Rightarrow> string \<times> string" where
  "forgotten_event h =
     (mh_drawer_id h,
      (case mh_details_json h of None \<Rightarrow> []
       | Some t \<Rightarrow> (case loads t of Some (JObj d) \<Rightarrow> str_or (dget d ''deleted_at'') [] | _ \<Rightarrow> [])))"

definition forgotten_events :: "outbox_db \<Rightarrow> (string \<times> string) set" where
  "forgotten_events db =
     (if outbox_up db then set (map forgotten_event (filter (\<lambda>h. mh_op h = ''forgotten'') (history db))) else {})"

subsection \<open>Backfilling receipts\<close>

definition eligible_null :: "approval_row \<Rightarrow> bool" where
  "eligible_null r \<longleftrightarrow> status r = ''approved'' \<and> memory_event_id r \<noteq> None \<and> approved_via r \<noteq> None \<and>
     approved_by r \<noteq> None \<and>
     finalizer_state r \<in> set [None, Some ''none'', Some ''failed'', Some ''finalizing''] \<and>
     audit_receipt_seq r = None"

datatype marker_inspection = MarkerFound | MarkerAbsent | LookupUnavailable | LookupFailed

text \<open>The store's marker lookup; \<open>None\<close> when there is no adapter or it has no such method.\<close>

type_synonym marker_finder = "(string \<Rightarrow> string \<Rightarrow> string option res) option"

definition approval_ref :: "int \<Rightarrow> string" where
  "approval_ref i = ''approval_ref:'' @ int_str i"

definition inspect_finalizing_marker :: "marker_finder \<Rightarrow> int \<Rightarrow> string \<Rightarrow> marker_inspection" where
  "inspect_finalizing_marker finder approval_id ten =
     (case finder of None \<Rightarrow> LookupUnavailable
      | Some f \<Rightarrow>
          (case f (approval_ref approval_id) ten of Inl _ \<Rightarrow> LookupFailed
           | Inr None \<Rightarrow> MarkerAbsent | Inr (Some t) \<Rightarrow> if t = [] then MarkerAbsent else MarkerFound))"

fun inspection_text :: "marker_inspection \<Rightarrow> string" where
  "inspection_text MarkerFound = ''marker_found''"
| "inspection_text MarkerAbsent = ''marker_absent''"
| "inspection_text LookupUnavailable = ''lookup_unavailable''"
| "inspection_text LookupFailed = ''lookup_failed''"

definition backfill_details :: "env \<Rightarrow> approval_row \<Rightarrow> marker_inspection option \<Rightarrow> dict" where
  "backfill_details v r insp =
     [(''phase'', JStr ''backfill''), (''decision'', JStr ''approve''), (''approved_by'', opt_json (approved_by r)),
      (''approved_via'', opt_json (approved_via r)), (''approval_id'', JInt (aq_id r)),
      (''candidate_sha256'', JStr (candidate_fingerprint v (candidate_json r)))] @
     (case proposed_by_profile (map_option JStr (proposed_by_col r)) of None \<Rightarrow> []
      | Some p \<Rightarrow> [(''proposed_by_profile'', JStr p)]) @
     (case insp of None \<Rightarrow> [] | Some m \<Rightarrow> [(''finalizing_inspection'', JStr (inspection_text m))])"

text \<open>
  The audit append is committed on its own: when a later step raises, the outbox rolls back and the
  audit row stays.
\<close>

definition backfill_one ::
  "env \<Rightarrow> string \<Rightarrow> string \<Rightarrow> marker_finder \<Rightarrow> time \<Rightarrow> int \<Rightarrow> outbox_db \<Rightarrow> audit_db \<Rightarrow>
   bool res \<times> outbox_db \<times> audit_db" where
  "backfill_one v pid ten finder now approval_id db au =
     (case outbox_connect db of Inl e \<Rightarrow> (Inl e, db, au)
      | Inr _ \<Rightarrow>
          (case find_approval approval_id db of
             None \<Rightarrow> (Inr False, db, au)
           | Some r \<Rightarrow>
               if \<not> eligible_null r then (Inr False, db, au)
               else
                 (let insp = (if finalizer_state r = Some ''finalizing''
                              then Some (inspect_finalizing_marker finder approval_id ten) else None) in
                  if insp \<in> set [Some LookupUnavailable, Some LookupFailed] then (Inr False, db, au)
                  else
                    (case audit_write (sha256_hex v)
                            \<lparr>e_ts = isoformat now, e_principal = pid, e_tenant = ten,
                             e_op = ''approval_decision_backfill'', e_target = Some (int_str approval_id),
                             e_reason = None, e_details = backfill_details v r insp\<rparr> au of
                       Inl e \<Rightarrow> (Inl e, db, au)
                     | Inr (n, au') \<Rightarrow>
                         (case audit_row_hash n au' of
                            Inl e \<Rightarrow> (Inl e, db, au')
                          | Inr h \<Rightarrow>
                              (Inr True,
                               set_approval approval_id
                                 (\<lambda>q. if audit_receipt_seq q = None
                                      then q\<lparr>audit_receipt_seq := Some n, audit_receipt_hash := Some h,
                                             candidate_sha256 := Some (candidate_fingerprint v (candidate_json r))\<rparr>
                                      else q) db,
                               au'))))))"

record audit_receipt_migration =
  mig_eligible :: nat
  mig_backfilled :: nat
  mig_remaining :: nat

fun backfill_all ::
  "env \<Rightarrow> string \<Rightarrow> string \<Rightarrow> marker_finder \<Rightarrow> time \<Rightarrow> int list \<Rightarrow> outbox_db \<Rightarrow> audit_db \<Rightarrow>
   nat res \<times> outbox_db \<times> audit_db" where
  "backfill_all v pid ten finder now [] db au = (Inr 0, db, au)"
| "backfill_all v pid ten finder now (i # is) db au =
     (case backfill_one v pid ten finder now i db au of
        (Inl e, w) \<Rightarrow> (Inl e, w)
      | (Inr b, db', au') \<Rightarrow>
          (case backfill_all v pid ten finder now is db' au' of
             (Inl e, w) \<Rightarrow> (Inl e, w)
           | (Inr k, w) \<Rightarrow> (Inr ((if b then 1 else 0) + k), w)))"

definition migrate_audit_receipts ::
  "env \<Rightarrow> string \<Rightarrow> string \<Rightarrow> marker_finder \<Rightarrow> time \<Rightarrow> outbox_db \<Rightarrow> audit_db \<Rightarrow>
   audit_receipt_migration res \<times> outbox_db \<times> audit_db" where
  "migrate_audit_receipts v pid ten finder now db au =
     (case outbox_connect db of Inl e \<Rightarrow> (Inl e, db, au)
      | Inr _ \<Rightarrow>
          (let ids = sort_key id (map aq_id (filter eligible_null (approvals db))) in
           (case backfill_all v pid ten finder now ids db au of
              (Inl e, w) \<Rightarrow> (Inl e, w)
            | (Inr k, db', au') \<Rightarrow>
                (Inr \<lparr>mig_eligible = length ids, mig_backfilled = k,
                      mig_remaining = count_where eligible_null (approvals db')\<rparr>, db', au'))))"

subsection \<open>The row invariant and what may happen to a row\<close>

definition statuses :: "string list" where
  "statuses = [''pending'', ''pending_approval'', ''deferred'', ''rejected'', ''approved'']"

definition finalizer_states :: "string option list" where
  "finalizer_states = [None, Some ''none'', Some ''failed'', Some ''finalizing'', Some ''finalized'', Some ''rtbf_deleting'']"

text \<open>
  The receipt is complete or absent, it is the fingerprint of the stored candidate, and only an
  approved row carries provenance or a receipt; a finalized row has a durable id.
\<close>

definition row_ok :: "env \<Rightarrow> approval_row \<Rightarrow> bool" where
  "row_ok v r \<longleftrightarrow>
     status r \<in> set statuses \<and> finalizer_state r \<in> set finalizer_states \<and>
     (status r = ''approved'' \<longrightarrow> memory_event_id r \<noteq> None) \<and>
     (status r \<noteq> ''approved'' \<longrightarrow> approved_via r = None \<and> approved_by r = None \<and> audit_receipt_seq r = None) \<and>
     (audit_receipt_seq r = None \<longleftrightarrow> audit_receipt_hash r = None) \<and>
     (audit_receipt_seq r = None \<longleftrightarrow> candidate_sha256 r = None) \<and>
     (candidate_sha256 r \<noteq> None \<longrightarrow> candidate_sha256 r = Some (candidate_fingerprint v (candidate_json r))) \<and>
     (finalizer_state r \<in> {Some ''finalizing'', Some ''finalized''} \<longrightarrow> status r = ''approved'') \<and>
     (finalizer_state r = Some ''finalized'' \<longrightarrow> durable_memory_id r \<notin> {None, Some []})"

text \<open>
  What any operation may do to a row that stays: the candidate and the proposer never change, an
  approval is final, provenance and receipt are bound once.
\<close>

definition row_step :: "approval_row \<Rightarrow> approval_row \<Rightarrow> bool" where
  "row_step r r' \<longleftrightarrow>
     aq_id r' = aq_id r \<and> candidate_json r' = candidate_json r \<and> proposed_by_col r' = proposed_by_col r \<and>
     (status r = ''approved'' \<longrightarrow> status r' = ''approved'' \<and> memory_event_id r' = memory_event_id r) \<and>
     (status r = ''rejected'' \<longrightarrow> status r' = ''rejected'') \<and>
     (approved_via r \<noteq> None \<longrightarrow> approved_via r' = approved_via r \<and> approved_by r' = approved_by r) \<and>
     (audit_receipt_seq r \<noteq> None \<longrightarrow> audit_receipt_seq r' = audit_receipt_seq r \<and>
        audit_receipt_hash r' = audit_receipt_hash r \<and> candidate_sha256 r' = candidate_sha256 r)"

definition outbox_ok :: "env \<Rightarrow> outbox_db \<Rightarrow> bool" where
  "outbox_ok v db \<longleftrightarrow> distinct (map aq_id (approvals db)) \<and>
     (\<forall>r\<in>set (approvals db). row_ok v r \<and> aq_id r < next_approval db) \<and>
     distinct (map me_id (events db)) \<and> (\<forall>e\<in>set (events db). me_id e < next_event db) \<and> 1 \<le> next_event db"

definition evolves :: "outbox_db \<Rightarrow> outbox_db \<Rightarrow> bool" where
  "evolves db db' \<longleftrightarrow> next_approval db \<le> next_approval db' \<and>
     (\<forall>r'\<in>set (approvals db'). next_approval db \<le> aq_id r' \<or> (\<exists>r\<in>set (approvals db). row_step r r'))"

lemma row_step_refl [simp]: "row_step r r"
  by (simp add: row_step_def)

lemma row_step_trans: "row_step a b \<Longrightarrow> row_step b c \<Longrightarrow> row_step a c"
  unfolding row_step_def by (intro conjI impI) simp_all

lemma evolves_refl [simp]: "evolves db db"
  unfolding evolves_def using row_step_refl by blast

lemma evolves_trans:
  assumes "evolves a b" and "evolves b c"
  shows "evolves a c"
  unfolding evolves_def
proof (intro conjI ballI)
  show "next_approval a \<le> next_approval c" using assms by (simp add: evolves_def)
  fix r' assume "r' \<in> set (approvals c)"
  then consider "next_approval b \<le> aq_id r'" | r where "r \<in> set (approvals b)" "row_step r r'"
    using assms(2) unfolding evolves_def by blast
  then show "next_approval a \<le> aq_id r' \<or> (\<exists>r\<in>set (approvals a). row_step r r')"
  proof cases
    case 1
    then show ?thesis using assms(1) by (simp add: evolves_def)
  next
    case 2
    then consider "next_approval a \<le> aq_id r" | q where "q \<in> set (approvals a)" "row_step q r"
      using assms(1) unfolding evolves_def by blast
    then show ?thesis
    proof cases
      case 1
      moreover have "aq_id r' = aq_id r" using 2(2) by (simp add: row_step_def)
      ultimately show ?thesis by simp
    next
      case q: 2
      then show ?thesis using row_step_trans [OF q(2) 2(2)] by blast
    qed
  qed
qed

subsection \<open>Guarded updates\<close>

text \<open>
  The contract of an UPDATE: under its guard it keeps the row invariant and is a step of the row.  Every
  UPDATE of the queue and of the finalizer is an instance, and an instance keeps the whole table.
\<close>

locale row_update =
  fixes v :: env and guard :: "approval_row \<Rightarrow> bool" and f :: "approval_row \<Rightarrow> approval_row"
  assumes keeps: "row_ok v r \<Longrightarrow> guard r \<Longrightarrow> row_ok v (f r)"
    and steps: "row_ok v r \<Longrightarrow> guard r \<Longrightarrow> row_step r (f r)"
begin

lemma one: "row_ok v r \<Longrightarrow> row_ok v (if guard r then f r else r) \<and> row_step r (if guard r then f r else r)"
  using keeps steps by simp

lemma ids: "\<forall>r\<in>set t. row_ok v r \<Longrightarrow> map aq_id (update_where guard f t) = map aq_id t"
  using steps by (induction t) (auto simp: row_step_def)

lemma update_ok:
  assumes "outbox_ok v db"
  shows "outbox_ok v (db\<lparr>approvals := update_where guard f (approvals db)\<rparr>)"
    and "evolves db (db\<lparr>approvals := update_where guard f (approvals db)\<rparr>)"
proof -
  have ok: "\<forall>r\<in>set (approvals db). row_ok v r \<and> aq_id r < next_approval db"
    using assms by (simp add: outbox_ok_def)
  have r: "row_ok v r' \<and> aq_id r' < next_approval db \<and> (\<exists>r\<in>set (approvals db). row_step r r')"
    if m: "r' \<in> set (update_where guard f (approvals db))" for r'
  proof -
    obtain r where r: "r \<in> set (approvals db)" "r' = (if guard r then f r else r)"
      using m by (auto simp: set_update_where)
    then have o: "row_ok v r' \<and> row_step r r'" using one [of r] ok r by simp
    then have "aq_id r' = aq_id r" by (simp add: row_step_def)
    with o r(1) ok show ?thesis by auto
  qed
  show "outbox_ok v (db\<lparr>approvals := update_where guard f (approvals db)\<rparr>)"
    using assms r ids [of "approvals db"] ok by (simp add: outbox_ok_def)
  show "evolves db (db\<lparr>approvals := update_where guard f (approvals db)\<rparr>)"
    using r by (auto simp: evolves_def)
qed

end

lemma set_approval_guarded:
  assumes "outbox_ok v db" and "find_approval i db = Some row" and "P row"
  shows "set_approval i f db = db\<lparr>approvals := update_where (\<lambda>r. aq_id r = i \<and> P r) f (approvals db)\<rparr>"
proof -
  have d: "distinct (map aq_id (approvals db))" using assms(1) by (simp add: outbox_ok_def)
  have "r = row" if "r \<in> set (approvals db)" "aq_id r = i" for r
    using find_row_distinct [OF d that(1)] assms(2) that(2) by (simp add: find_approval_def)
  then have "map (\<lambda>r. if aq_id r = i then f r else r) (approvals db) =
      map (\<lambda>r. if aq_id r = i \<and> P r then f r else r) (approvals db)"
    using assms(3) by (intro map_cong) auto
  then show ?thesis by (simp add: set_approval_def update_where_def)
qed

lemma find_approval_ok: "outbox_ok v db \<Longrightarrow> find_approval i db = Some r \<Longrightarrow> row_ok v r \<and> aq_id r = i \<and> r \<in> set (approvals db)"
  by (auto simp: outbox_ok_def find_approval_def dest: find_row_SomeD)

subsubsection \<open>The updates of the queue\<close>

definition stamp_ok :: "env \<Rightarrow> stamp \<Rightarrow> approval_row \<Rightarrow> bool" where
  "stamp_ok v st r \<longleftrightarrow> (st_seq st = None \<longleftrightarrow> st_hash st = None) \<and> (st_seq st = None \<longleftrightarrow> st_sha st = None) \<and>
     (st_sha st \<noteq> None \<longrightarrow> st_sha st = Some (candidate_fingerprint v (candidate_json r)))"

lemma row_ok_unapproved: "row_ok v r \<Longrightarrow> status r \<noteq> ''approved'' \<Longrightarrow>
    approved_via r = None \<and> approved_by r = None \<and> audit_receipt_seq r = None \<and>
    finalizer_state r \<notin> {Some ''finalizing'', Some ''finalized''}"
  by (simp add: row_ok_def)

lemma approvable_not_final: "s \<in> set approvable_statuses \<Longrightarrow> s \<noteq> ''approved'' \<and> s \<noteq> ''rejected''"
  by (auto simp: approvable_statuses_def)

interpretation stamp_upd: row_update v "\<lambda>r. aq_id r = i \<and> status r \<in> set approvable_statuses \<and> stamp_ok v st r" "stamp_row st now ev"
  for v i st now ev
proof
  fix r
  assume ok: "row_ok v r" and g: "aq_id r = i \<and> status r \<in> set approvable_statuses \<and> stamp_ok v st r"
  note n = approvable_not_final [of "status r"] row_ok_unapproved [OF ok]
  have a: "status r \<noteq> ''approved''" "status r \<noteq> ''rejected''" and s: "stamp_ok v st r" using n(1) g by blast+
  show "row_step r (stamp_row st now ev r)" using n(2) a by (simp add: row_step_def stamp_row_def)
  have f: "finalizer_state r \<in> set finalizer_states" using ok by (simp add: row_ok_def)
  show "row_ok v (stamp_row st now ev r)"
    using n(2) [OF a(1)] s f unfolding row_ok_def stamp_ok_def by (auto simp: stamp_row_def statuses_def)
qed

lemma restamp_fields:
  "aq_id (restamp_row st r) = aq_id r" "status (restamp_row st r) = status r"
  "candidate_json (restamp_row st r) = candidate_json r" "proposed_by_col (restamp_row st r) = proposed_by_col r"
  "memory_event_id (restamp_row st r) = memory_event_id r" "finalizer_state (restamp_row st r) = finalizer_state r"
  "durable_memory_id (restamp_row st r) = durable_memory_id r"
  "approved_via (restamp_row st r) = (if st_via st \<noteq> None \<and> approved_via r = None then st_via st else approved_via r)"
  "approved_by (restamp_row st r) = (if st_via st \<noteq> None \<and> approved_via r = None then st_by st else approved_by r)"
  "audit_receipt_seq (restamp_row st r) =
     (if st_seq st \<noteq> None \<and> audit_receipt_seq r = None then st_seq st else audit_receipt_seq r)"
  "audit_receipt_hash (restamp_row st r) =
     (if st_seq st \<noteq> None \<and> audit_receipt_seq r = None then st_hash st else audit_receipt_hash r)"
  "candidate_sha256 (restamp_row st r) =
     (if st_seq st \<noteq> None \<and> audit_receipt_seq r = None then st_sha st else candidate_sha256 r)"
  by (simp_all add: restamp_row_def Let_def)

interpretation restamp_upd: row_update v "\<lambda>r. aq_id r = i \<and> status r = ''approved'' \<and> stamp_ok v st r" "restamp_row st"
  for v i st
proof
  fix r
  assume ok: "row_ok v r" and g: "aq_id r = i \<and> status r = ''approved'' \<and> stamp_ok v st r"
  note f = restamp_fields [of st r]
  show "row_step r (restamp_row st r)" using g by (simp add: row_step_def f)
  have a: "status r = ''approved''" and s: "stamp_ok v st r" using g by blast+
  show "row_ok v (restamp_row st r)"
  proof (cases "st_seq st \<noteq> None \<and> audit_receipt_seq r = None")
    case True
    with s have "st_hash st \<noteq> None" "st_sha st = Some (candidate_fingerprint v (candidate_json r))"
      by (auto simp: stamp_ok_def)
    with True ok a show ?thesis unfolding row_ok_def f by auto
  next
    case False
    then have n: "(st_seq st \<noteq> None \<and> audit_receipt_seq r = None) = False" by simp
    have a': "(status r \<noteq> ''approved'') = False" using a by simp
    show ?thesis using ok unfolding row_ok_def f n a' if_False
      by (simp only: simp_thms, elim conjE, intro conjI) (assumption | simp)+
  qed
qed

interpretation status_upd: row_update v "\<lambda>r. aq_id r = i \<and> undecided r"
    "\<lambda>r. r\<lparr>status := (if b then ''rejected'' else ''pending''), responded_at := g r, decided_by := d, last_error := None\<rparr>"
  for v i b g d
proof
  fix r
  assume ok: "row_ok v r" and u: "aq_id r = i \<and> undecided r"
  then have n: "status r \<noteq> ''approved''" "status r \<noteq> ''rejected''"
    using approvable_not_final by (auto simp: undecided_def)
  show "row_step r (r\<lparr>status := (if b then ''rejected'' else ''pending''), responded_at := g r, decided_by := d, last_error := None\<rparr>)"
    using n by (simp add: row_step_def)
  show "row_ok v (r\<lparr>status := (if b then ''rejected'' else ''pending''), responded_at := g r, decided_by := d, last_error := None\<rparr>)"
    using ok n row_ok_unapproved [OF ok n(1)] unfolding row_ok_def by (simp add: statuses_def)
qed

interpretation defer_upd: row_update v "\<lambda>r. aq_id r = i \<and> undecided r"
    "\<lambda>r. r\<lparr>status := ''deferred'', responded_at := t, aq_expires_at := u, decided_by := d, last_error := None\<rparr>"
  for v i t u d
proof
  fix r
  assume ok: "row_ok v r" and g: "aq_id r = i \<and> undecided r"
  then have n: "status r \<noteq> ''approved''" "status r \<noteq> ''rejected''"
    using approvable_not_final by (auto simp: undecided_def)
  show "row_step r (r\<lparr>status := ''deferred'', responded_at := t, aq_expires_at := u, decided_by := d, last_error := None\<rparr>)"
    using n by (simp add: row_step_def)
  show "row_ok v (r\<lparr>status := ''deferred'', responded_at := t, aq_expires_at := u, decided_by := d, last_error := None\<rparr>)"
    using ok n row_ok_unapproved [OF ok n(1)] unfolding row_ok_def by (simp add: statuses_def)
qed

interpretation resurface_upd: row_update v
    "\<lambda>r. status r = ''deferred'' \<and> (case aq_expires_at r of None \<Rightarrow> False | Some t \<Rightarrow> t \<le> now)"
    "\<lambda>r. r\<lparr>status := ''pending'', aq_expires_at := None, tg_message_id := None, tg_last_sent_at := None\<rparr>"
  for v now
proof
  fix r
  assume ok: "row_ok v r"
    and g: "status r = ''deferred'' \<and> (case aq_expires_at r of None \<Rightarrow> False | Some t \<Rightarrow> t \<le> now)"
  let ?r = "r\<lparr>status := ''pending'', aq_expires_at := None, tg_message_id := None, tg_last_sent_at := None\<rparr>"
  show "row_step r ?r" using g by (simp add: row_step_def)
  show "row_ok v ?r"
    using ok g row_ok_unapproved [OF ok] unfolding row_ok_def
    by (cases "audit_receipt_hash r"; cases "candidate_sha256 r") (simp_all add: statuses_def)
qed

interpretation backfill_upd: row_update v
    "\<lambda>r. aq_id r = i \<and> status r = ''approved'' \<and> c = candidate_fingerprint v (candidate_json r)"
    "\<lambda>q. if audit_receipt_seq q = None
         then q\<lparr>audit_receipt_seq := Some n, audit_receipt_hash := Some h, candidate_sha256 := Some c\<rparr> else q"
  for v i n h c
  by unfold_locales (auto simp: row_step_def row_ok_def)

subsection \<open>Every operation of the queue keeps the invariant\<close>

lemma outbox_ok_events:
  "outbox_ok v db \<Longrightarrow> me_id e = next_event db \<Longrightarrow>
   outbox_ok v (db\<lparr>events := events db @ [e], next_event := next_event db + 1\<rparr>)"
  by (auto simp: outbox_ok_def)

lemma find_approval_events [simp]: "find_approval i (db\<lparr>events := es, next_event := n\<rparr>) = find_approval i db"
  by (simp add: find_approval_def)

lemma approve_in_conn_cases:
  assumes "approve_in_conn v i st now db = Inr (ev, db')"
  obtains (again) r where "find_approval i db = Some r" "status r = ''approved''" "memory_event_id r = Some ev" "ev \<noteq> 0"
      "st_sha st = None \<or> Some (candidate_fingerprint v (candidate_json r)) = st_sha st"
      "db' = set_approval i (restamp_row st) db"
    | (fresh) r c where "find_approval i db = Some r" "status r \<in> set approvable_statuses"
      "st_sha st = None \<or> Some (candidate_fingerprint v (candidate_json r)) = st_sha st"
      "load_candidate (candidate_json r) = Inr c" "ev = next_event db"
      "db' = set_approval i (stamp_row st now ev)
               (db\<lparr>events := events db @ [approval_event v c i now ev], next_event := ev + 1\<rparr>)"
proof -
  from assms obtain r where r: "find_approval i db = Some r"
    by (auto simp: approve_in_conn_def split: option.splits)
  have sha: "st_sha st = None \<or> Some (candidate_fingerprint v (candidate_json r)) = st_sha st"
    using assms r by (auto simp: approve_in_conn_def split: if_splits)
  show ?thesis
  proof (cases "status r = ''approved'' \<and> memory_event_id r \<notin> {None, Some 0}")
    case True
    show ?thesis
      by (rule again [OF r]) (use True assms r sha in \<open>auto simp: approve_in_conn_def split: if_splits\<close>)
  next
    case False
    then have "status r \<in> set approvable_statuses \<and> (\<exists>c. load_candidate (candidate_json r) = Inr c \<and>
        ev = next_event db \<and> db' = set_approval i (stamp_row st now ev)
               (db\<lparr>events := events db @ [approval_event v c i now ev], next_event := ev + 1\<rparr>))"
      using assms r by (auto simp: approve_in_conn_def rbind_Inr_iff Let_def split: if_splits)
    then show ?thesis using fresh r sha by blast
  qed
qed

lemma approve_in_conn_ok:
  assumes ok: "outbox_ok v db" and a: "approve_in_conn v i st now db = Inr (ev, db')"
    and st: "\<And>r. find_approval i db = Some r \<Longrightarrow>
      st_sha st = None \<or> Some (candidate_fingerprint v (candidate_json r)) = st_sha st \<Longrightarrow> stamp_ok v st r"
  shows "outbox_ok v db' \<and> evolves db db'"
  using a
proof (cases rule: approve_in_conn_cases)
  case (again r)
  have "set_approval i (restamp_row st) db =
      db\<lparr>approvals := update_where (\<lambda>r. aq_id r = i \<and> status r = ''approved'' \<and> stamp_ok v st r) (restamp_row st) (approvals db)\<rparr>"
    using again(2) st [OF again(1,5)] by (intro set_approval_guarded [OF ok again(1)]) blast
  then show ?thesis using restamp_upd.update_ok [OF ok] again(6) by simp
next
  case (fresh r c)
  let ?db1 = "db\<lparr>events := events db @ [approval_event v c i now ev], next_event := ev + 1\<rparr>"
  have ok1: "outbox_ok v ?db1"
    using outbox_ok_events [OF ok, of "approval_event v c i now ev"] fresh(5) by (simp add: approval_event_def Let_def)
  have "set_approval i (stamp_row st now ev) ?db1 =
      ?db1\<lparr>approvals := update_where (\<lambda>r. aq_id r = i \<and> status r \<in> set approvable_statuses \<and> stamp_ok v st r)
             (stamp_row st now ev) (approvals ?db1)\<rparr>"
    using fresh(2) st [OF fresh(1,3)] fresh(1) by (intro set_approval_guarded [OF ok1]) simp_all
  with fresh(6) stamp_upd.update_ok [OF ok1] have "outbox_ok v db'" "evolves ?db1 db'" by simp_all
  then show ?thesis by (simp add: evolves_def)
qed

lemma require_receipt_ok: "require_receipt n h sha = Inr (m, h', sha') \<Longrightarrow>
    n = Some m \<and> h = Some h' \<and> sha = Some sha' \<and> 1 \<le> m \<and> length h' = 64 \<and> length sha' = 64"
  by (auto simp: require_receipt_def Let_def split: option.splits if_splits)

definition keeps_queue :: "env \<Rightarrow> outbox_db \<Rightarrow> outbox_db \<Rightarrow> bool" where
  "keeps_queue v db db' \<longleftrightarrow> (outbox_ok v db \<longrightarrow> outbox_ok v db' \<and> evolves db db')"

lemma keeps_queue_refl [simp, intro]: "keeps_queue v db db"
  by (simp add: keeps_queue_def)

lemma keeps_queue_trans: "keeps_queue v a b \<Longrightarrow> keeps_queue v b c \<Longrightarrow> keeps_queue v a c"
  using evolves_trans [of a b c] by (simp add: keeps_queue_def)

context row_update
begin

lemma keeps_update: "keeps_queue v db (db\<lparr>approvals := update_where guard f (approvals db)\<rparr>)"
  using update_ok by (simp add: keeps_queue_def)

end

lemma approve_in_conn_keeps:
  assumes "approve_in_conn v i st now db = Inr (ev, db')"
    and "(st_seq st = None \<longleftrightarrow> st_hash st = None) \<and> (st_seq st = None \<longleftrightarrow> st_sha st = None)"
  shows "keeps_queue v db db'"
  unfolding keeps_queue_def
proof
  assume ok: "outbox_ok v db"
  show "outbox_ok v db' \<and> evolves db db'"
    by (rule approve_in_conn_ok [OF ok assms(1)]) (use assms(2) in \<open>auto simp: stamp_ok_def\<close>)
qed

lemma evolves_append:
  assumes "approvals db' = approvals db @ new" and "next_approval db \<le> next_approval db'"
    and "\<forall>r\<in>set new. next_approval db \<le> aq_id r"
  shows "evolves db db'"
  unfolding evolves_def
proof (intro conjI ballI)
  fix r assume "r \<in> set (approvals db')"
  then consider "r \<in> set (approvals db)" | "r \<in> set new" using assms(1) by auto
  then show "next_approval db \<le> aq_id r \<or> (\<exists>q\<in>set (approvals db). row_step q r)"
    using assms(3) row_step_refl by cases blast+
qed (rule assms(2))

lemma evolves_same: "approvals db' = approvals db \<Longrightarrow> next_approval db \<le> next_approval db' \<Longrightarrow> evolves db db'"
  by (rule evolves_append [where new = "[]"]) simp_all

lemma queued_row_ok: "row_ok v (queued_row p c i now)" "aq_id (queued_row p c i now) = i"
  by (simp_all add: row_ok_def queued_row_def statuses_def finalizer_states_def)

lemma enqueue_keeps:
  assumes "enqueue_approval n w room c m md d now db = Inr (i, db')"
  shows "keeps_queue v db db'"
proof -
  obtain cand where d: "db' = db\<lparr>approvals := approvals db @ [queued_row n cand (next_approval db) now],
      next_approval := next_approval db + 1\<rparr>"
    using assms by (auto simp: enqueue_approval_def rbind_Inr_iff Let_def)
  note r = queued_row_ok(2,1)
  have "evolves db db'" by (rule evolves_append [where new = "[queued_row n cand (next_approval db) now]"]) (simp_all add: d r)
  then show ?thesis using d r by (auto simp: keeps_queue_def outbox_ok_def)
qed

lemma approve_raw_keeps: "approve_queued_candidate v i by' now db = Inr (ev, db') \<Longrightarrow> keeps_queue v db db'"
  by (auto simp: approve_queued_candidate_def rbind_Inr_iff raw_stamp_def intro: approve_in_conn_keeps)

lemma telegram_cases:
  assumes "approve_authorized_telegram_candidate v i p msg n h sha now db = Inr (ev, db')"
  obtains row m n' h' sha' where "find_approval i db = Some row" "msg = Some m"
    "m \<in> set (sent_message_ids (tg_message_ids row) (tg_message_id row))" "p \<notin> {None, Some []}"
    "(n' = None \<and> h' = None \<and> sha' = None \<and> n = None \<and> h = None \<and> sha = None) \<or>
     (n' = n \<and> h' = h \<and> sha' = sha \<and> n \<noteq> None \<and> h \<noteq> None \<and> sha \<noteq> None)"
    "approve_in_conn v i \<lparr>st_decided_by = ''telegram:'' @ the p, st_via = Some ''telegram'',
       st_by = Some (''telegram:'' @ the p), st_msg = msg, st_seq = n', st_hash = h', st_sha = sha'\<rparr> now db = Inr (ev, db')"
proof -
  have p: "given_or p [] \<noteq> []" using assms by (auto simp: approve_authorized_telegram_candidate_def Let_def)
  then have p': "p \<notin> {None, Some []}" "given_or p [] = the p" by (auto simp: given_or_def split: option.splits)
  obtain n' h' sha' where q: "(if n \<noteq> None \<or> h \<noteq> None \<or> sha \<noteq> None
               then rbind (require_receipt n h sha) (\<lambda>(m, h', sha'). Inr (Some m, Some h', Some sha'))
               else Inr (None, None, None)) = Inr (n', h', sha')"
    and b: "(case find_approval i db of None \<Rightarrow> Inl (ValueError ''approval_queue row not found'')
           | Some bound \<Rightarrow>
               (let sent = sent_message_ids (tg_message_ids bound) (tg_message_id bound) in
                if sent = [] \<or> (case msg of None \<Rightarrow> True | Some m \<Rightarrow> m \<notin> set sent)
                then Inl (ValueError ''approval requires a bound bot message'')
                else approve_in_conn v i
                       \<lparr>st_decided_by = ''telegram:'' @ the p, st_via = Some ''telegram'',
                        st_by = Some (''telegram:'' @ the p), st_msg = msg, st_seq = n', st_hash = h',
                        st_sha = sha'\<rparr> now db)) = Inr (ev, db')"
    using assms p unfolding approve_authorized_telegram_candidate_def Let_def p'(2)
    by (simp add: rbind_Inr_iff) blast
  from b obtain row where f: "find_approval i db = Some row" by (cases "find_approval i db") auto
  from b f obtain m where m: "msg = Some m" by (cases msg) (auto simp: Let_def)
  have nn: "(n' = None \<and> h' = None \<and> sha' = None \<and> n = None \<and> h = None \<and> sha = None) \<or>
     (n' = n \<and> h' = h \<and> sha' = sha \<and> n \<noteq> None \<and> h \<noteq> None \<and> sha \<noteq> None)"
    using q by (auto simp: rbind_Inr_iff dest!: require_receipt_ok split: if_splits)
  show ?thesis
    by (rule that [OF f m _ p'(1) nn]) (use b f m in \<open>simp_all add: Let_def split: if_splits\<close>)
qed

lemma approve_telegram_keeps:
  assumes "approve_authorized_telegram_candidate v i p msg n h sha now db = Inr (ev, db')"
  shows "keeps_queue v db db'"
  using assms
proof (cases rule: telegram_cases)
  case (1 row m n' h' sha')
  show ?thesis by (rule approve_in_conn_keeps [OF 1(6)]) (use 1(5) in auto)
qed

lemma mcp_cases:
  assumes "mcp_approve_or_redrive v i via by' n h sha now db = Inr (m, db')"
  obtains (redrive) row where "m = Redrive" "db' = db" "find_approval i db = Some row" "status row = ''approved''"
      "approved_via row = Some via" "approved_by row = Some by'" "finalizer_unclaimed (finalizer_state row)"
    | (stamped) row ev where "m = Stamped" "find_approval i db = Some row"
      "status row \<in> set mcp_approvable_statuses" "finalizer_unclaimed (finalizer_state row)"
      "approve_in_conn v i (service_stamp via by' n h sha) now db = Inr (ev, db')" "1 \<le> n"
proof -
  obtain n' h' sha' where rr: "require_receipt (Some n) (Some h) (Some sha) = Inr (n', h', sha')"
    using assms by (auto simp: mcp_approve_or_redrive_def rbind_Inr_iff split: if_splits)
  from require_receipt_ok [OF rr] have e: "n' = n" "h' = h" "sha' = sha" "1 \<le> n" by auto
  obtain row where f: "find_approval i db = Some row"
    using assms by (cases "find_approval i db") (auto simp: mcp_approve_or_redrive_def rbind_Inr_iff split: if_splits)
  show ?thesis
  proof (cases "status row = ''approved'' \<and> approved_via row = Some via \<and> approved_by row = Some by' \<and>
                  finalizer_unclaimed (finalizer_state row)")
    case True
    then show ?thesis using redrive [of row] assms f rr e
      by (simp add: mcp_approve_or_redrive_def rbind_Inr_iff split: if_splits)
  next
    case False
    then show ?thesis using stamped [of row] assms f rr e
      by (auto simp: mcp_approve_or_redrive_def rbind_Inr_iff split: if_splits)
  qed
qed

lemma approve_service_keeps:
  assumes "mcp_approve_or_redrive v i via by' n h sha now db = Inr (m, db')"
  shows "keeps_queue v db db'"
  using assms by (cases rule: mcp_cases) (auto simp: service_stamp_def intro: approve_in_conn_keeps)

lemma update_status_keeps:
  assumes "update_approval_status v i new by' now db = Inr (n, db')"
  shows "keeps_queue v db db'"
proof -
  let ?b = "new = ''rejected''"
  have "db' = db\<lparr>approvals := update_where (\<lambda>r. aq_id r = i \<and> undecided r)
      (\<lambda>r. r\<lparr>status := (if ?b then ''rejected'' else ''pending''), responded_at := (if ?b then Some now else responded_at r),
             decided_by := Some (given_or by' (transport_kind_of v)), last_error := None\<rparr>) (approvals db)\<rparr>"
    using assms by (auto simp: update_approval_status_def rbind_Inr_iff Let_def split: if_splits)
  then show ?thesis
    using status_upd.keeps_update [where b = ?b and g = "\<lambda>r. if ?b then Some now else responded_at r"] by simp
qed

lemma defer_keeps: "defer_queued_candidate v i hrs by' now db = Inr (u, db') \<Longrightarrow> keeps_queue v db db'"
  by (auto simp: defer_queued_candidate_def rbind_Inr_iff intro: defer_upd.keeps_update)

lemma resurface_keeps: "resurface_deferred_approvals now db = Inr (n, db') \<Longrightarrow> keeps_queue v db db'"
  by (auto simp: resurface_deferred_approvals_def rbind_Inr_iff Let_def intro: resurface_upd.keeps_update)

lemma append_history_keeps: "keeps_queue v db (append_history h db)"
  by (auto simp: append_history_def keeps_queue_def outbox_ok_def intro!: evolves_same)

subsection \<open>All of the queue\<close>

datatype queue_cmd =
    Enqueue string string string string string dict string time
  | ApproveRaw int "string option" time
  | ApproveTelegram int "string option" "int option" "int option" "string option" "string option" time
  | ApproveService int string string int string string time
  | SetStatus int string "string option" time
  | Defer int int "string option" time
  | Resurface time
  | LogHistory history_row

text \<open>An exception rolls the transaction back.\<close>

definition committed :: "('a \<times> outbox_db) res \<Rightarrow> outbox_db \<Rightarrow> outbox_db" where
  "committed r db = (case r of Inl _ \<Rightarrow> db | Inr (_, db') \<Rightarrow> db')"

fun run_cmd :: "env \<Rightarrow> queue_cmd \<Rightarrow> outbox_db \<Rightarrow> outbox_db" where
  "run_cmd v (Enqueue p w r c m md d now) db = committed (enqueue_approval p w r c m md d now db) db"
| "run_cmd v (ApproveRaw i by' now) db = committed (approve_queued_candidate v i by' now db) db"
| "run_cmd v (ApproveTelegram i p msg n h sha now) db =
     committed (approve_authorized_telegram_candidate v i p msg n h sha now db) db"
| "run_cmd v (ApproveService i via by' n h sha now) db =
     committed (mcp_approve_or_redrive v i via by' n h sha now db) db"
| "run_cmd v (SetStatus i new by' now) db = committed (update_approval_status v i new by' now db) db"
| "run_cmd v (Defer i hrs by' now) db = committed (defer_queued_candidate v i hrs by' now db) db"
| "run_cmd v (Resurface now) db = committed (resurface_deferred_approvals now db) db"
| "run_cmd v (LogHistory h) db = append_history h db"

lemma committed_keeps: "(\<And>x db'. r = Inr (x, db') \<Longrightarrow> keeps_queue v db db') \<Longrightarrow> keeps_queue v db (committed r db)"
  by (auto simp: committed_def split: sum.splits)

lemmas queue_keeps = enqueue_keeps approve_raw_keeps approve_telegram_keeps approve_service_keeps
  update_status_keeps defer_keeps resurface_keeps append_history_keeps

lemma run_cmd_keeps: "keeps_queue v db (run_cmd v c db)"
  by (cases c) (simp_all add: append_history_keeps,
    (rule committed_keeps, erule enqueue_keeps approve_raw_keeps approve_telegram_keeps approve_service_keeps
      update_status_keeps defer_keeps resurface_keeps)+)

lemma run_cmds_keep: "keeps_queue v db (fold (run_cmd v) cs db)"
proof (induction cs arbitrary: db)
  case (Cons c cs)
  show ?case using keeps_queue_trans [OF run_cmd_keeps Cons.IH] by simp
qed simp

lemma evolves_row:
  assumes "outbox_ok v db" and "evolves db db'"
    and "find_approval i db = Some r" and "find_approval i db' = Some r'"
  shows "row_step r r'"
proof -
  have i: "aq_id r = i" "r \<in> set (approvals db)" "aq_id r' = i" "r' \<in> set (approvals db')"
    using assms(3,4) by (auto simp: find_approval_def dest: find_row_SomeD)
  moreover have "aq_id r < next_approval db" using assms(1) i(2) by (simp add: outbox_ok_def)
  ultimately obtain q where q: "q \<in> set (approvals db)" "row_step q r'"
    using assms(2) by (fastforce simp: evolves_def)
  then have "aq_id q = i" using i(3) by (simp add: row_step_def)
  then have "find_approval i db = Some q"
    using find_row_distinct [of aq_id "approvals db" q] assms(1) q(1) by (simp add: outbox_ok_def find_approval_def)
  with assms(3) q(2) show ?thesis by simp
qed

lemma row_ok_receipt:
  assumes "row_ok v r" and "candidate_sha256 r \<noteq> None"
  shows "candidate_sha256 r = Some (candidate_fingerprint v (candidate_json r)) \<and> audit_receipt_seq r \<noteq> None \<and>
    audit_receipt_hash r \<noteq> None \<and> status r = ''approved''"
  using assms unfolding row_ok_def by (cases "status r = ''approved''") auto


definition hex64 :: "string \<Rightarrow> string" where
  "hex64 s = replicate 64 (CHR ''a'')"

definition sample_env :: env where
  "sample_env = \<lparr>sha256_hex = hex64, sanitize = (\<lambda>s. s), ident = sample_identity,
     appr = \<lparr>authorized_approvers = [''local_cli:owner''], transport_kind = ''local_cli'', transport_config = []\<rparr>\<rparr>"

definition sample_outbox :: outbox_db where
  "sample_outbox = \<lparr>approvals = [queued_row ''agent'' [] 1 0], next_approval = 2, events = [], next_event = 1,
     history = [], outbox_up = True\<rparr>"

lemma sample_outbox_ok: "outbox_ok v sample_outbox"
  by (simp add: outbox_ok_def sample_outbox_def queued_row_ok)


lemma find_set_approval:
  "(\<And>r. aq_id (f r) = aq_id r) \<Longrightarrow>
   find_approval j (set_approval i f db) = map_option (\<lambda>r. if j = i then f r else r) (find_approval j db)"
  by (cases "find_row aq_id j (approvals db)")
    (auto simp: find_approval_def set_approval_def find_row_update_where dest: find_row_SomeD)

lemma stamp_row_id [simp]: "aq_id (stamp_row st now ev r) = aq_id r"
  by (simp add: stamp_row_def)

lemma approve_service_cases:
  assumes "mcp_approve_or_redrive v i via by' n h sha now db = Inr (m, db')"
  shows "case m of
      Redrive \<Rightarrow> db' = db \<and> (\<exists>r. find_approval i db = Some r \<and> status r = ''approved'' \<and>
        approved_via r = Some via \<and> approved_by r = Some by' \<and>
        finalizer_state r \<in> {None, Some ''none'', Some ''failed''})
    | Stamped \<Rightarrow> (\<exists>r c. find_approval i db = Some r \<and> status r \<in> {''pending'', ''pending_approval''} \<and>
        finalizer_state r \<in> {None, Some ''none'', Some ''failed''} \<and>
        candidate_fingerprint v (candidate_json r) = sha \<and> load_candidate (candidate_json r) = Inr c \<and>
        find_approval i db' = Some (stamp_row (service_stamp via by' n h sha) now (next_event db) r) \<and>
        (\<forall>j. j \<noteq> i \<longrightarrow> find_approval j db' = find_approval j db) \<and>
        events db' = events db @ [approval_event v c i now (next_event db)])"
  using assms
proof (cases rule: mcp_cases)
  case (redrive row)
  then show ?thesis by (simp add: finalizer_unclaimed_def)
next
  case (stamped row ev)
  from stamped(5) have "\<exists>c. candidate_fingerprint v (candidate_json row) = sha \<and> load_candidate (candidate_json row) = Inr c \<and>
    ev = next_event db \<and> db' = set_approval i (stamp_row (service_stamp via by' n h sha) now ev)
               (db\<lparr>events := events db @ [approval_event v c i now ev], next_event := ev + 1\<rparr>)"
  proof (cases rule: approve_in_conn_cases)
    case (again r)
    then show ?thesis using stamped(2,3) by (simp add: mcp_approvable_statuses_def)
  next
    case (fresh r c)
    then show ?thesis using stamped(2) by (auto simp: service_stamp_def)
  qed
  then obtain c where c: "candidate_fingerprint v (candidate_json row) = sha" "load_candidate (candidate_json row) = Inr c"
    "db' = set_approval i (stamp_row (service_stamp via by' n h sha) now (next_event db))
               (db\<lparr>events := events db @ [approval_event v c i now (next_event db)], next_event := next_event db + 1\<rparr>)"
    by blast
  have "events db' = events db @ [approval_event v c i now (next_event db)]"
    by (simp add: c(3) set_approval_def)
  moreover have "find_approval j db' = map_option
      (\<lambda>r. if j = i then stamp_row (service_stamp via by' n h sha) now (next_event db) r else r) (find_approval j db)" for j
    unfolding c(3) by (subst find_set_approval) simp_all
  ultimately show ?thesis using stamped(1-4) c(1,2)
    by (auto simp: mcp_approvable_statuses_def finalizer_unclaimed_def option.map_ident)
qed

text \<open>
  What the approval service's transaction does.  A stamp happens only to an awaiting, unclaimed row
  whose stored candidate text still has the receipt's fingerprint and parses to an object; then exactly
  that row becomes approved with exactly the given provenance and receipt, one pending event with the
  payload built from the candidate is appended, and no other row changes.  A redrive happens only to an
  unclaimed row that the same transport and approver approved before, and changes nothing.
\<close>

theorem approve_service_decides:
  assumes "mcp_approve_or_redrive v i via by' n h sha now db = Inr (m, db')"
  shows "case m of
      Redrive \<Rightarrow> db' = db \<and> (\<exists>r. find_approval i db = Some r \<and> status r = ''approved'' \<and>
        approved_via r = Some via \<and> approved_by r = Some by' \<and>
        finalizer_state r \<in> {None, Some ''none'', Some ''failed''})
    | Stamped \<Rightarrow> (\<exists>r c. find_approval i db = Some r \<and> status r \<in> {''pending'', ''pending_approval''} \<and>
        finalizer_state r \<in> {None, Some ''none'', Some ''failed''} \<and>
        candidate_fingerprint v (candidate_json r) = sha \<and> load_candidate (candidate_json r) = Inr c \<and>
        find_approval i db' = Some (stamp_row (service_stamp via by' n h sha) now (next_event db) r) \<and>
        (\<forall>j. j \<noteq> i \<longrightarrow> find_approval j db' = find_approval j db) \<and>
        events db' = events db @ [approval_event v c i now (next_event db)])"
  by (rule approve_service_cases [OF assms])

lemma sample_approve: "is_ok (mcp_approve_or_redrive sample_env 1 ''local_cli'' ''local_cli:owner'' 1 (hex64 []) (hex64 []) 5 sample_outbox)"
proof -
  have l: "load_candidate (dumps (JObj [])) = Inr []" by code_simp
  have r: "require_receipt (Some 1) (Some (hex64 [])) (Some (hex64 [])) = Inr (1, hex64 [], hex64 [])" by code_simp
  have h: "hex64 (dumps (JObj [])) = hex64 []" by (simp only: hex64_def)
  show ?thesis
    by (simp add: mcp_approve_or_redrive_def r outbox_connect_def sample_outbox_def find_approval_def queued_row_def
        mcp_approvable_statuses_def finalizer_unclaimed_def approve_in_conn_def service_stamp_def
        candidate_fingerprint_def sample_env_def h approvable_statuses_def l Let_def)
qed

lemma approve_service_decides_witness:
  "\<exists>db'. find_approval 1 db' = Some (stamp_row (service_stamp ''local_cli'' ''local_cli:owner'' 1 (hex64 []) (hex64 [])) 5 1
       (queued_row ''agent'' [] 1 0)) \<and>
     mcp_approve_or_redrive sample_env 1 ''local_cli'' ''local_cli:owner'' 1 (hex64 []) (hex64 []) 5 sample_outbox = Inr (Stamped, db')"
proof -
  obtain m db' where m: "mcp_approve_or_redrive sample_env 1 ''local_cli'' ''local_cli:owner'' 1 (hex64 []) (hex64 []) 5
      sample_outbox = Inr (m, db')"
    using sample_approve by (auto simp: is_ok_def split: sum.splits)
  have f: "find_approval 1 sample_outbox = Some (queued_row ''agent'' [] 1 0)" "next_event sample_outbox = 1"
    by (simp_all add: find_approval_def sample_outbox_def queued_row_def)
  have st: "status (queued_row ''agent'' [] 1 0) = ''pending_approval''" by (simp add: queued_row_def)
  from approve_service_decides [OF m] f st have "m = Stamped"
    by (cases m) (auto split: approve_mode.splits)
  with approve_service_decides [OF m] f m show ?thesis by auto
qed

text \<open>
  A raw approval never arms the finalizer.  Whatever provenance or receipt columns were planted on a
  row that awaits a decision, approving it without a transport leaves it with none of them.
\<close>

theorem raw_approve_disarms:
  assumes "approve_queued_candidate v i by' now db = Inr (ev, db')"
    and "find_approval i db = Some r" and "status r \<noteq> ''approved''"
  shows "\<exists>r'. find_approval i db' = Some r' \<and> status r' = ''approved'' \<and> approved_via r' = None \<and>
    approved_by r' = None \<and> approved_tg_message_id r' = None \<and> audit_receipt_seq r' = None \<and>
    audit_receipt_hash r' = None \<and> candidate_sha256 r' = None \<and> candidate_json r' = candidate_json r"
proof -
  let ?st = "raw_stamp (given_or by' (transport_kind_of v))"
  have a: "approve_in_conn v i ?st now db = Inr (ev, db')"
    using assms(1) by (auto simp: approve_queued_candidate_def rbind_Inr_iff)
  show ?thesis
  proof (cases rule: approve_in_conn_cases [OF a])
    case (1 q)
    then show ?thesis using assms(2,3) by simp
  next
    case (2 q c)
    have "find_approval i db' = Some (stamp_row ?st now ev r)"
      unfolding 2(6) by (subst find_set_approval) (simp_all add: assms(2))
    then show ?thesis by (simp add: stamp_row_def raw_stamp_def)
  qed
qed

definition planted_outbox :: outbox_db where
  "planted_outbox = sample_outbox\<lparr>approvals := [(queued_row ''agent'' [] 1 0)
     \<lparr>approved_via := Some ''local_cli'', approved_by := Some ''local_cli:owner'', audit_receipt_seq := Some 1\<rparr>]\<rparr>"

lemma raw_approve_disarms_witness:
  "\<exists>ev db' r'. approve_queued_candidate sample_env 1 None 5 planted_outbox = Inr (ev, db') \<and>
     find_approval 1 db' = Some r' \<and> approved_via r' = None \<and> audit_receipt_seq r' = None"
proof -
  have l: "load_candidate (dumps (JObj [])) = Inr []" by code_simp
  have "is_ok (approve_queued_candidate sample_env 1 None 5 planted_outbox)"
    by (simp add: approve_queued_candidate_def outbox_connect_def planted_outbox_def sample_outbox_def
        find_approval_def queued_row_def approve_in_conn_def raw_stamp_def approvable_statuses_def l Let_def)
  then obtain ev db' where a: "approve_queued_candidate sample_env 1 None 5 planted_outbox = Inr (ev, db')"
    by (auto simp: is_ok_def split: sum.splits)
  have "\<exists>r. find_approval 1 planted_outbox = Some r \<and> status r \<noteq> ''approved''"
    by (simp add: planted_outbox_def sample_outbox_def find_approval_def queued_row_def)
  then show ?thesis using a raw_approve_disarms [OF a] by blast
qed

text \<open>
  The Telegram approval needs a presser and a message the bot really sent for this row; what it
  stamps names that presser, and a receipt is stamped only complete and only for the stored bytes.
\<close>

theorem telegram_approval_bound:
  assumes "approve_authorized_telegram_candidate v i presser msg n h sha now db = Inr (ev, db')"
    and "find_approval i db = Some r" and "status r \<noteq> ''approved''"
  shows "\<exists>p m r'. presser = Some p \<and> p \<noteq> [] \<and> msg = Some m \<and>
    m \<in> set (sent_message_ids (tg_message_ids r) (tg_message_id r)) \<and>
    find_approval i db' = Some r' \<and> status r' = ''approved'' \<and> approved_via r' = Some ''telegram'' \<and>
    approved_by r' = Some (''telegram:'' @ p) \<and> approved_tg_message_id r' = Some m \<and>
    audit_receipt_seq r' = n \<and> audit_receipt_hash r' = h \<and> candidate_sha256 r' = sha \<and>
    (n = None \<and> h = None \<and> sha = None \<or>
     n \<noteq> None \<and> h \<noteq> None \<and> sha = Some (candidate_fingerprint v (candidate_json r)))"
  using assms(1)
proof (cases rule: telegram_cases)
  case (1 row m n' h' sha')
  have rr: "row = r" using 1(1) assms(2) by simp
  show ?thesis
  proof (cases rule: approve_in_conn_cases [OF 1(6)])
    case (1 q)
    then show ?thesis using assms(2,3) by simp
  next
    case (2 q c)
    let ?st = "\<lparr>st_decided_by = ''telegram:'' @ the presser, st_via = Some ''telegram'',
       st_by = Some (''telegram:'' @ the presser), st_msg = msg, st_seq = n', st_hash = h', st_sha = sha'\<rparr>"
    have "find_approval i db' = Some (stamp_row ?st now ev r)"
      unfolding 2(6) by (subst find_set_approval) (simp_all add: assms(2))
    moreover have "presser = Some (the presser)" "the presser \<noteq> []"
      using \<open>presser \<notin> {None, Some []}\<close> by (cases presser; auto)+
    moreover have "q = r" using 2(1) assms(2) by simp
    ultimately show ?thesis
      using 2(3) \<open>msg = Some m\<close> \<open>m \<in> set _\<close> \<open>(n' = None \<and> _) \<or> _\<close> rr
      by (intro exI [of _ "the presser"] exI [of _ m] exI [of _ "stamp_row ?st now ev r"]) (auto simp: stamp_row_def)
  qed
qed

definition sent_outbox :: outbox_db where
  "sent_outbox = sample_outbox\<lparr>approvals := [(queued_row ''agent'' [] 1 0)\<lparr>tg_message_id := Some 77\<rparr>]\<rparr>"

lemma telegram_approval_bound_witness:
  "\<exists>ev db' r'. approve_authorized_telegram_candidate sample_env 1 (Some ''42'') (Some 77) None None None 5 sent_outbox = Inr (ev, db') \<and>
     find_approval 1 db' = Some r' \<and> approved_by r' = Some ''telegram:42'' \<and> approved_tg_message_id r' = Some 77 \<and>
     audit_receipt_seq r' = None"
proof -
  have l: "load_candidate (dumps (JObj [])) = Inr []" by code_simp
  have "is_ok (approve_authorized_telegram_candidate sample_env 1 (Some ''42'') (Some 77) None None None 5 sent_outbox)"
    by (simp add: approve_authorized_telegram_candidate_def given_or_def outbox_connect_def sent_outbox_def
        sample_outbox_def find_approval_def queued_row_def sent_message_ids_def approve_in_conn_def
        approvable_statuses_def l Let_def)
  then obtain ev db' where a:
    "approve_authorized_telegram_candidate sample_env 1 (Some ''42'') (Some 77) None None None 5 sent_outbox = Inr (ev, db')"
    by (auto simp: is_ok_def split: sum.splits)
  have "\<exists>r. find_approval 1 sent_outbox = Some r \<and> status r \<noteq> ''approved''"
    by (simp add: sent_outbox_def sample_outbox_def find_approval_def queued_row_def)
  then show ?thesis using a telegram_approval_bound [OF a] by fastforce
qed

text \<open>
  The pending list and the badge agree.  The list shows the awaiting rows in the order of their
  ids, at most the clamped limit of them, with previews of at most 200 characters and a proposer that
  is the server-stamped column; the count is the length of the unclamped list; neither changes
  anything or shows a row that has been decided.
\<close>

theorem pending_list_agrees:
  assumes "list_pending_approvals limit db = Inr items" and "count_pending_approvals db = Inr n"
  shows "length items = min n (nat (max 1 (min limit 100))) \<and>
    sorted (map pi_approval_id items) \<and>
    (\<forall>it\<in>set items. length (pi_content_preview it) \<le> 200 \<and>
       (\<exists>r\<in>set (approvals db). status r \<in> {''pending'', ''pending_approval''} \<and> pi_approval_id it = aq_id r \<and>
          pi_proposed_by it = proposed_by_profile (map_option JStr (proposed_by_col r))))"
proof -
  let ?s = "sort_key aq_id (pending_rows db)"
  have items: "items = map pending_item_of (take (nat (max 1 (min limit 100))) ?s)" and n: "n = length (pending_rows db)"
    using assms by (auto simp: list_pending_approvals_def count_pending_approvals_def rbind_Inr_iff)
  have "map pi_approval_id items = take (nat (max 1 (min limit 100))) (map aq_id ?s)"
    by (simp add: items take_map comp_def pending_item_of_def Let_def)
  then have "sorted (map pi_approval_id items)" by (simp add: sorted_wrt_take)
  moreover have "length (pi_content_preview it) \<le> 200 \<and>
       (\<exists>r\<in>set (approvals db). status r \<in> {''pending'', ''pending_approval''} \<and> pi_approval_id it = aq_id r \<and>
          pi_proposed_by it = proposed_by_profile (map_option JStr (proposed_by_col r)))" if m: "it \<in> set items" for it
  proof -
    obtain r where r: "r \<in> set (pending_rows db)" "it = pending_item_of r"
      using m items by (auto dest: in_set_takeD)
    then show ?thesis
      by (auto simp: pending_rows_def pending_item_of_def Let_def mcp_approvable_statuses_def)
  qed
  ultimately show ?thesis using n by (simp add: items min.commute)
qed

lemma pending_list_agrees_witness:
  "\<exists>items. list_pending_approvals 20 sample_outbox = Inr items \<and> length items = min 1 20"
proof -
  have l: "\<exists>items. list_pending_approvals 20 sample_outbox = Inr items"
    by (simp add: list_pending_approvals_def outbox_connect_def sample_outbox_def)
  have c: "count_pending_approvals sample_outbox = Inr 1"
    by (simp add: count_pending_approvals_def outbox_connect_def sample_outbox_def pending_rows_def
        queued_row_def mcp_approvable_statuses_def)
  from l obtain items where i: "list_pending_approvals 20 sample_outbox = Inr items" ..
  then show ?thesis using pending_list_agrees [OF i c] by auto
qed

end
