(* ===== verification/Profiles.thy ===== *)
theory Profiles
  imports Approval_Queue
begin

text \<open>
  \<open>panella/profile.py\<close>: agent profiles, from the parsed YAML mapping to the checked record, and the
  glob matching (\<open>fnmatch.fnmatchcase\<close>) of allow lists.  Quotas are integers here; a profile whose
  quota is another number is rejected by the model.  Numbers of \<open>wing_boost\<close> stay JSON values.
\<close>

record agent_profile =
  prof_name :: string
  default_wing :: string
  default_room :: string
  daily_max_drawers :: int
  burst_max_per_minute :: int
  memory_type_allowlist :: "string list"
  default_ttl_days :: "int option"
  ephemeral_rooms :: "string list"
  approval_required_for :: "string list"
  read_allowlist :: "string list"
  deny :: "string list"
  max_query_k :: int
  retrieval_mode :: string
  wing_boost :: dict
  observability_level :: string
  daily_embed_calls_max :: int
  tenant_scope :: "string list"
  write_wing_allowlist :: "string list"
  write_room_allowlist :: "string list"
  enforce_write_allowlist :: bool
  quota_counts_dedup :: bool
  finalizer_only :: bool

subsection \<open>Glob patterns\<close>

fun in_class :: "string \<Rightarrow> char \<Rightarrow> bool" where
  "in_class (a # b # c # r) x =
     (if b = CHR ''-'' then (of_char a \<le> (of_char x :: nat) \<and> of_char x \<le> (of_char c :: nat)) \<or> in_class r x
      else a = x \<or> in_class (b # c # r) x)"
| "in_class (a # r) x = (a = x \<or> in_class r x)"
| "in_class [] x = False"

text \<open>The bracket expression after \<open>[\<close>: negation, its characters and what follows \<open>]\<close>.\<close>

definition parse_class :: "string \<Rightarrow> (bool \<times> string \<times> string) option" where
  "parse_class p =
     (let neg = (p \<noteq> [] \<and> hd p = CHR ''!''); p1 = (if neg then tl p else p);
          lead = (p1 \<noteq> [] \<and> hd p1 = CHR '']''); p2 = (if lead then tl p1 else p1);
          body = takeWhile (\<lambda>c. c \<noteq> CHR '']'') p2; rest = dropWhile (\<lambda>c. c \<noteq> CHR '']'') p2
      in if rest = [] then None else Some (neg, (if lead then '']'' else []) @ body, tl rest))"

lemma parse_class_shorter:
  assumes "parse_class p = Some (neg, body, rest)"
  shows "length rest < length p"
proof -
  define p1 where "p1 = (if p \<noteq> [] \<and> hd p = CHR ''!'' then tl p else p)"
  define p2 where "p2 = (if p1 \<noteq> [] \<and> hd p1 = CHR '']'' then tl p1 else p1)"
  let ?d = "dropWhile (\<lambda>c. c \<noteq> CHR '']'') p2"
  have "?d \<noteq> [] \<and> rest = tl ?d"
    using assms unfolding parse_class_def Let_def p1_def [symmetric] p2_def [symmetric] by (simp split: if_split_asm)
  then have "length rest < length ?d" by (cases ?d) simp_all
  also have "\<dots> \<le> length p2" by (rule length_dropWhile_le)
  also have "\<dots> \<le> length p" by (simp add: p1_def p2_def)
  finally show ?thesis .
qed

function glob :: "string \<Rightarrow> string \<Rightarrow> bool" where
  "glob [] s = (s = [])"
| "glob (p # ps) s =
     (if p = CHR ''*'' then glob ps s \<or> (case s of [] \<Rightarrow> False | _ # s' \<Rightarrow> glob (p # ps) s')
      else if p = CHR ''?'' then (case s of [] \<Rightarrow> False | _ # s' \<Rightarrow> glob ps s')
      else if p = CHR ''['' then
        (case parse_class ps of
           None \<Rightarrow> (case s of [] \<Rightarrow> False | c # s' \<Rightarrow> c = p \<and> glob ps s')
         | Some (neg, body, rest) \<Rightarrow> (case s of [] \<Rightarrow> False | c # s' \<Rightarrow> in_class body c \<noteq> neg \<and> glob rest s'))
      else (case s of [] \<Rightarrow> False | c # s' \<Rightarrow> c = p \<and> glob ps s'))"
  by pat_completeness auto
termination
  by (relation "measure (\<lambda>(p, s). length p + length s)") (auto dest: parse_class_shorter)

definition matches_any :: "string \<Rightarrow> string list \<Rightarrow> bool" where
  "matches_any path patterns \<longleftrightarrow> list_ex (\<lambda>p. glob p path) patterns"

definition allowlist_wings :: "string list \<Rightarrow> string list" where
  "allowlist_wings patterns =
     foldl (\<lambda>ws p. let w = before_first (CHR ''/'') p
                   in if w \<noteq> [] \<and> CHR ''*'' \<notin> set w \<and> w \<notin> set ws then ws @ [w] else ws) [] patterns"

subsection \<open>From the YAML mapping\<close>

definition prof_mapping :: "dict \<Rightarrow> string \<Rightarrow> dict res" where
  "prof_mapping raw' key = (case dget raw' key of Some (JObj d) \<Rightarrow> Inr d | _ \<Rightarrow> Inl (ValueError (key @ '' must be a mapping'')))"

text \<open>\<open>Cls(**d)\<close>: all required fields and no others.\<close>

definition kwargs_ok :: "string list \<Rightarrow> string list \<Rightarrow> dict \<Rightarrow> bool" where
  "kwargs_ok req opt d \<longleftrightarrow> set req \<subseteq> set (map fst d) \<and> set (map fst d) \<subseteq> set (req @ opt)"

definition text_items :: "dict \<Rightarrow> string \<Rightarrow> json list \<Rightarrow> string list res" where
  "text_items raw' key dflt =
     (case (case dget raw' key of None \<Rightarrow> Some dflt | Some v \<Rightarrow> py_items v) of
        None \<Rightarrow> Inl (TypeError key) | Some xs \<Rightarrow> Inr (map py_str xs))"

definition int_field :: "dict \<Rightarrow> string \<Rightarrow> int res" where
  "int_field d key = (case dget d key of Some (JInt i) \<Rightarrow> Inr i | Some (JBool b) \<Rightarrow> Inr (if b then 1 else 0)
     | _ \<Rightarrow> Inl (TypeError key))"

definition required :: "dict \<Rightarrow> string \<Rightarrow> json res" where
  "required d key = (case dget d key of None \<Rightarrow> Inl (KeyError key) | Some v \<Rightarrow> Inr v)"

definition get_bool :: "dict \<Rightarrow> string \<Rightarrow> bool \<Rightarrow> bool" where
  "get_bool d key dflt = (case dget d key of None \<Rightarrow> dflt | Some v \<Rightarrow> truthy v)"

definition floatable :: "json \<Rightarrow> bool" where
  "floatable v = (case v of JInt _ \<Rightarrow> True | JBool _ \<Rightarrow> True | JFloat _ \<Rightarrow> True | JStr s \<Rightarrow> float_lit s \<or> text_int s \<noteq> None | _ \<Rightarrow> False)"

definition profile_from_dict :: "identity_config \<Rightarrow> dict \<Rightarrow> agent_profile res" where
  "profile_from_dict i raw' =
     rbind (required raw' ''name'') (\<lambda>nm.
     rbind (prof_mapping raw' ''write_default'') (\<lambda>wd.
     if \<not> kwargs_ok [''wing'', ''room''] [] wd then Inl (TypeError ''write_default'') else
     rbind (prof_mapping raw' ''write_quota'') (\<lambda>wq.
     if \<not> kwargs_ok [''daily_max_drawers'', ''burst_max_per_minute''] [] wq then Inl (TypeError ''write_quota'') else
     rbind (int_field wq ''daily_max_drawers'') (\<lambda>dm.
     rbind (int_field wq ''burst_max_per_minute'') (\<lambda>bm.
     rbind (text_items raw' ''memory_type_allowlist'' []) (\<lambda>mts.
     rbind (prof_mapping raw' ''retention_policy'') (\<lambda>rp.
     if \<not> kwargs_ok [] [''default_ttl_days'', ''ephemeral_rooms''] rp then Inl (TypeError ''retention_policy'') else
     rbind (case dget rp ''default_ttl_days'' of None \<Rightarrow> Inr None | Some JNull \<Rightarrow> Inr None
            | Some v \<Rightarrow> rbind (int_field rp ''default_ttl_days'') (\<lambda>k. Inr (Some k))) (\<lambda>ttl.
     rbind (text_items rp ''ephemeral_rooms'' []) (\<lambda>eph.
     rbind (text_items raw' ''approval_required_for'' []) (\<lambda>arf.
     rbind (text_items raw' ''read_allowlist'' []) (\<lambda>ral.
     rbind (text_items raw' ''deny'' []) (\<lambda>dn.
     rbind (required raw' ''max_query_k'') (\<lambda>mq.
     case py_int mq of None \<Rightarrow> Inl (ValueError ''max_query_k'') | Some k \<Rightarrow>
     rbind (required raw' ''retrieval_mode'') (\<lambda>rm.
     rbind (prof_mapping raw' ''wing_boost'') (\<lambda>wb.
     if \<not> list_all (\<lambda>(_, x). floatable x) wb then Inl (ValueError ''wing_boost'') else
     rbind (prof_mapping raw' ''cost_budget'') (\<lambda>cb.
     if \<not> kwargs_ok [''daily_embed_calls_max''] [] cb then Inl (TypeError ''cost_budget'') else
     rbind (int_field cb ''daily_embed_calls_max'') (\<lambda>dec.
     rbind (text_items raw' ''tenant_scope'' [JStr (default_tenant_id i)]) (\<lambda>tsc.
     rbind (text_items raw' ''write_wing_allowlist'' []) (\<lambda>wwa.
     rbind (text_items raw' ''write_room_allowlist'' []) (\<lambda>wra.
     Inr \<lparr>prof_name = py_str nm, default_wing = py_str (get_or_null wd ''wing''),
          default_room = py_str (get_or_null wd ''room''), daily_max_drawers = dm, burst_max_per_minute = bm,
          memory_type_allowlist = mts, default_ttl_days = ttl, ephemeral_rooms = eph,
          approval_required_for = arf, read_allowlist = ral, deny = dn, max_query_k = k,
          retrieval_mode = py_lower (py_strip (py_str rm)), wing_boost = wb,
          observability_level = py_lower (py_strip (py_str
            (case dget raw' ''observability_level'' of None \<Rightarrow> JStr ''standard'' | Some x \<Rightarrow> x))),
          daily_embed_calls_max = dec, tenant_scope = tsc, write_wing_allowlist = wwa, write_room_allowlist = wra,
          enforce_write_allowlist = get_bool raw' ''enforce_write_allowlist'' False,
          quota_counts_dedup = get_bool raw' ''quota_counts_dedup'' True,
          finalizer_only = get_bool raw' ''finalizer_only'' False\<rparr>))))))))))))))))))))"

subsection \<open>Checking\<close>

type_synonym wing_rooms = "(string \<times> string list) list"

definition load_known_wing_rooms :: "dict \<Rightarrow> wing_rooms res" where
  "load_known_wing_rooms raw' =
     (case (case dget raw' ''wings'' of None \<Rightarrow> JObj [] | Some v \<Rightarrow> if truthy v then v else JObj []) of
        JObj ws \<Rightarrow> Inr (dict_update [] (map (\<lambda>(w, def). (w,
          (case def of JObj d \<Rightarrow> (case dget d ''rooms'' of Some (JList rs) \<Rightarrow> map py_str rs | _ \<Rightarrow> []) | _ \<Rightarrow> []))) ws))
      | _ \<Rightarrow> Inl (ValueError ''wings config must contain a mapping''))"

definition check :: "bool \<Rightarrow> string \<Rightarrow> unit res" where
  "check b m = (if b then Inr () else Inl (ValueError m))"

fun check_all :: "('a \<Rightarrow> unit res) \<Rightarrow> 'a list \<Rightarrow> unit res" where
  "check_all f [] = Inr ()"
| "check_all f (x # xs) = rbind (f x) (\<lambda>_. check_all f xs)"

definition check_room_entry :: "wing_rooms \<Rightarrow> string \<Rightarrow> unit res" where
  "check_room_entry wr entry =
     (let w = before_first (CHR ''/'') entry; r = (case after_first (CHR ''/'') entry of None \<Rightarrow> [] | Some x \<Rightarrow> x) in
      rbind (check (length (filter (\<lambda>c. c = CHR ''/'') entry) = 1) ''write_room_allowlist entry must be wing/room'') (\<lambda>_.
      rbind (check (w \<noteq> [] \<and> r \<noteq> []) ''write_room_allowlist entry must be wing/room'') (\<lambda>_.
        case dget wr w of None \<Rightarrow> Inl (ValueError ''write_room_allowlist references unknown wing'')
        | Some rooms \<Rightarrow> check (r \<in> set rooms) ''write_room_allowlist references unknown room'')))"

definition profile_validate :: "identity_config \<Rightarrow> wing_rooms \<Rightarrow> agent_profile \<Rightarrow> unit res" where
  "profile_validate i wr p =
     rbind (check_all (\<lambda>(b, m). check b m)
       [(default_wing p \<in> set (map fst wr), ''invalid write_default.wing''),
        (0 < daily_max_drawers p, ''write_quota.daily_max_drawers must be positive''),
        (0 < burst_max_per_minute p, ''write_quota.burst_max_per_minute must be positive''),
        (0 < max_query_k p, ''max_query_k must be positive''),
        (retrieval_mode p \<in> set [''legacy'', ''hybrid''], ''invalid retrieval_mode''),
        (observability_level p \<in> set [''minimal'', ''standard'', ''verbose''], ''invalid observability_level''),
        (''default'' \<in> set (map fst (wing_boost p)), ''wing_boost.default is required''),
        (0 < daily_embed_calls_max p, ''cost_budget.daily_embed_calls_max must be positive''),
        (tenant_scope p \<noteq> [], ''tenant_scope must include at least one tenant'')]) (\<lambda>_.
     rbind (check_all (\<lambda>t. check (t = default_tenant_id i \<or> startswith (tenant_id_prefix i) t)
              ''invalid tenant_scope tenant_id'') (tenant_scope p)) (\<lambda>_.
     rbind (check_all (\<lambda>w. check (w \<in> set (map fst wr)) ''write_wing_allowlist references unknown wing'')
              (write_wing_allowlist p)) (\<lambda>_.
     check_all (check_room_entry wr) (write_room_allowlist p))))"

definition allows_tenant :: "agent_profile \<Rightarrow> string \<Rightarrow> bool" where
  "allows_tenant p t \<longleftrightarrow> ''*'' \<in> set (tenant_scope p) \<or> t \<in> set (tenant_scope p)"

text \<open>\<open>_load_profile_cached\<close> on a miss: parse, build, check.  \<open>yaml\<close> is the parsed profile file.\<close>

definition load_profile :: "identity_config \<Rightarrow> wing_rooms res \<Rightarrow> json \<Rightarrow> agent_profile res" where
  "load_profile i wr yaml =
     (case (if truthy yaml then yaml else JObj []) of
        JObj d \<Rightarrow> rbind (profile_from_dict i d) (\<lambda>p. rbind wr (\<lambda>w. rbind (profile_validate i w p) (\<lambda>_. Inr p)))
      | _ \<Rightarrow> Inl (ValueError ''agent profile must be a mapping''))"

subsection \<open>Patterns as they are used\<close>

definition plain :: "string \<Rightarrow> bool" where
  "plain p \<longleftrightarrow> list_all (\<lambda>c. c \<noteq> CHR ''*'' \<and> c \<noteq> CHR ''?'' \<and> c \<noteq> CHR ''['') p"

lemma glob_plain_append: "plain p \<Longrightarrow> glob (p @ q) s \<longleftrightarrow> (\<exists>t. s = p @ t \<and> glob q t)"
proof (induction p arbitrary: s)
  case (Cons c p)
  then show ?case by (cases s) (auto simp: plain_def)
qed simp

lemma glob_star: "glob ''*'' s"
  by (induction s) simp_all

lemma glob_plain: "plain p \<Longrightarrow> glob p s \<longleftrightarrow> s = p"
  using glob_plain_append [of p "[]" s] by simp

text \<open>
  The two shapes of pattern that the allow lists use mean what they say: a pattern without
  wildcards admits only itself, and \<open>prefix*\<close> admits exactly the paths with that prefix.
\<close>

theorem glob_exact_and_prefix:
  assumes "plain p"
  shows "(glob p s \<longleftrightarrow> s = p) \<and> (glob (p @ ''*'') s \<longleftrightarrow> startswith p s)"
proof -
  have "(\<exists>t. s = p @ t) \<longleftrightarrow> startswith p s" using startswithD [of p s] startswith_append by blast
  then show ?thesis
    using glob_plain [OF assms] glob_plain_append [OF assms, of "''*''" s] glob_star by auto
qed

lemma glob_exact_and_prefix_witness:
  "glob ''quant/*'' ''quant/fx'' \<and> \<not> glob ''quant/*'' ''iris/fx'' \<and> glob ''quant/fx'' ''quant/fx''"
proof -
  have "plain ''quant/''" "plain ''quant/fx''" by (simp_all add: plain_def)
  then show ?thesis
    using glob_exact_and_prefix [of "''quant/''"] glob_exact_and_prefix [of "''quant/fx''"] by simp
qed

subsection \<open>A checked profile\<close>

lemma check_ok [simp]: "check b m = Inr u \<longleftrightarrow> b"
  by (simp add: check_def)

lemma check_all_ok: "check_all f xs = Inr u \<longleftrightarrow> (\<forall>x\<in>set xs. f x = Inr ())"
  by (induction xs) (auto simp: rbind_Inr_iff)

text \<open>What \<open>validate\<close> guarantees of every profile that the code runs with.\<close>

definition profile_ok :: "identity_config \<Rightarrow> wing_rooms \<Rightarrow> agent_profile \<Rightarrow> bool" where
  "profile_ok i wr p \<longleftrightarrow>
     default_wing p \<in> set (map fst wr) \<and> 0 < daily_max_drawers p \<and> 0 < burst_max_per_minute p \<and> 0 < max_query_k p \<and>
     (\<exists>x. dget (wing_boost p) ''default'' = Some x) \<and> tenant_scope p \<noteq> [] \<and>
     (\<forall>t\<in>set (tenant_scope p). t = default_tenant_id i \<or> startswith (tenant_id_prefix i) t) \<and>
     set (write_wing_allowlist p) \<subseteq> set (map fst wr) \<and>
     (\<forall>e\<in>set (write_room_allowlist p). \<exists>w r rooms. e = w @ ''/'' @ r \<and> w \<noteq> [] \<and> r \<noteq> [] \<and> CHR ''/'' \<notin> set (w @ r) \<and>
        dget wr w = Some rooms \<and> r \<in> set rooms)"

lemma split_first_slash:
  assumes "after_first c e = Some r"
  shows "e = before_first c e @ c # r \<and> c \<notin> set (before_first c e)"
proof -
  have "dropWhile (\<lambda>x. x \<noteq> c) e = c # r"
    using assms by (auto simp: after_first_def dropWhile_eq_Cons_conv split: list.splits)
  then have "e = takeWhile (\<lambda>x. x \<noteq> c) e @ c # r" by (metis takeWhile_dropWhile_id)
  then show ?thesis by (auto simp: before_first_def dest: set_takeWhileD)
qed

lemma check_room_entry_ok:
  assumes "check_room_entry wr e = Inr u"
  shows "\<exists>w r rooms. e = w @ ''/'' @ r \<and> w \<noteq> [] \<and> r \<noteq> [] \<and> CHR ''/'' \<notin> set (w @ r) \<and> dget wr w = Some rooms \<and> r \<in> set rooms"
proof -
  let ?w = "before_first (CHR ''/'') e"
  obtain r rooms where a: "after_first (CHR ''/'') e = Some r" "r \<noteq> []" "?w \<noteq> []"
      "length (filter (\<lambda>c. c = CHR ''/'') e) = 1" "dget wr ?w = Some rooms" "r \<in> set rooms"
    using assms by (auto simp: check_room_entry_def Let_def rbind_Inr_iff split: option.splits)
  note e = split_first_slash [OF a(1)]
  have "length (filter (\<lambda>c. c = CHR ''/'') (?w @ CHR ''/'' # r)) = 1" using a(4) e by simp
  then have "CHR ''/'' \<notin> set r" by (auto simp: filter_empty_conv)
  with e a show ?thesis by (intro exI [of _ ?w] exI [of _ r] exI [of _ rooms]) auto
qed

text \<open>
  A profile that loads has positive quotas and limits, a boost for unknown wings, a tenant scope of
  tenants of this deployment only, and write allow lists that name wings and rooms that exist.
\<close>

theorem loaded_profile_ok:
  assumes "load_profile i wr yaml = Inr p"
  shows "\<exists>w. wr = Inr w \<and> profile_ok i w p"
proof -
  obtain w where w: "wr = Inr w" "profile_validate i w p = Inr ()"
    using assms by (auto simp: load_profile_def rbind_Inr_iff split: json.splits)
  have "\<exists>x. dget (wing_boost p) k = Some x" if "k \<in> set (map fst (wing_boost p))" for k
    using that by (auto simp: image_iff weak_map_of_SomeI)
  moreover have "check_room_entry w e = Inr ()" if "e \<in> set (write_room_allowlist p)" for e
    using w(2) that by (simp add: profile_validate_def rbind_Inr_iff check_all_ok)
  ultimately have "profile_ok i w p"
    using w(2) check_room_entry_ok
    unfolding profile_ok_def profile_validate_def rbind_Inr_iff check_all_ok by auto
  with w show ?thesis by blast
qed

definition sample_profile_yaml :: json where
  "sample_profile_yaml = JObj
     [(''name'', JStr ''agent''), (''write_default'', JObj [(''wing'', JStr ''w''), (''room'', JStr ''r'')]),
      (''write_quota'', JObj [(''daily_max_drawers'', JInt 9), (''burst_max_per_minute'', JInt 3)]),
      (''retention_policy'', JObj []), (''max_query_k'', JInt 5), (''retrieval_mode'', JStr ''Hybrid''),
      (''wing_boost'', JObj [(''default'', JInt 1)]), (''cost_budget'', JObj [(''daily_embed_calls_max'', JInt 5)]),
      (''write_wing_allowlist'', JList [JStr ''w'']), (''write_room_allowlist'', JList [JStr ''w/r''])]"

lemma sample_profile_loads: "is_ok (load_profile sample_identity (Inr [(''w'', [''r''])]) sample_profile_yaml)"
  by code_simp

lemma loaded_profile_ok_witness:
  "\<exists>p. load_profile sample_identity (Inr [(''w'', [''r''])]) sample_profile_yaml = Inr p \<and>
     profile_ok sample_identity [(''w'', [''r''])] p"
proof -
  obtain p where p: "load_profile sample_identity (Inr [(''w'', [''r''])]) sample_profile_yaml = Inr p"
    using sample_profile_loads by (auto simp: is_ok_def split: sum.splits)
  from loaded_profile_ok [OF p] p show ?thesis by auto
qed

end
