(* ===== verification/Http_Tokens.thy ===== *)
theory Http_Tokens
  imports Profiles Principals Json
begin

text \<open>
  \<open>panella/http/tokens.py\<close>: the table of bearer tokens and the principal a token stands for.  A row holds
  the digest of a token, never the token; its times are kept as times.  The token text is drawn by the caller
  (\<open>secrets\<close>), \<open>load\<close> is \<open>AgentProfile.load\<close>, \<open>alias\<close> the compatibility flag of the bare root alias.
\<close>

subsection \<open>The table\<close>

record token_row =
  tk_sha :: string
  tk_principal :: string
  tk_scope_json :: string
  tk_created_at :: time
  tk_rotated_at :: "time option"
  tk_revoked_at :: "time option"
  tk_expires_at :: "time option"
  tk_last_used_at :: "time option"
  tk_label :: string

record token_record =
  tr_sha :: string
  tr_principal :: string
  tr_scope :: "string list"
  tr_created_at :: time
  tr_rotated_at :: "time option"
  tr_revoked_at :: "time option"
  tr_expires_at :: "time option"
  tr_last_used_at :: "time option"
  tr_label :: string

definition token_expired :: "token_record \<Rightarrow> time \<Rightarrow> bool" where
  "token_expired r now \<longleftrightarrow> (case tr_expires_at r of None \<Rightarrow> False | Some t \<Rightarrow> t \<le> now)"

definition TOKEN_PREFIX :: string where "TOKEN_PREFIX = ''m2_''"

definition generate_token :: "string \<Rightarrow> string" where
  "generate_token urlsafe = TOKEN_PREFIX @ urlsafe"

text \<open>The scope column: a JSON list of tenants.\<close>

definition scope_text :: "string list \<Rightarrow> string" where
  "scope_text ts = dumps (JList (map JStr ts))"

definition scope_items :: "string \<Rightarrow> string list res" where
  "scope_items s = (case loads s of None \<Rightarrow> Inl JSONDecodeError | Some (JList xs) \<Rightarrow> Inr (map py_str xs)
     | Some (JStr t) \<Rightarrow> Inr (map (\<lambda>c. [c]) t) | Some (JObj d) \<Rightarrow> Inr (map fst d)
     | Some _ \<Rightarrow> Inl (TypeError ''object is not iterable''))"

definition record_from_row :: "token_row \<Rightarrow> token_record res" where
  "record_from_row r = rbind (scope_items (tk_scope_json r)) (\<lambda>scope.
     Inr \<lparr>tr_sha = tk_sha r, tr_principal = tk_principal r, tr_scope = scope, tr_created_at = tk_created_at r,
          tr_rotated_at = tk_rotated_at r, tr_revoked_at = tk_revoked_at r, tr_expires_at = tk_expires_at r,
          tr_last_used_at = tk_last_used_at r, tr_label = tk_label r\<rparr>)"

subsection \<open>Principals of tokens\<close>

definition bare_root_alias :: "principal \<Rightarrow> string" where
  "bare_root_alias root = (case after_first (CHR '':'') (pr_id root) of None \<Rightarrow> pr_id root | Some s \<Rightarrow> s)"

definition normalize_principal_id :: "identity_config \<Rightarrow> bool \<Rightarrow> string \<Rightarrow> string res" where
  "normalize_principal_id i alias value = rbind (mk_root_principal i) (\<lambda>root.
     Inr (if py_strip value = bare_root_alias root \<and> alias then pr_id root else py_strip value))"

definition after_last :: "char \<Rightarrow> string \<Rightarrow> string" where
  "after_last c s = rev (takeWhile (\<lambda>x. x \<noteq> c) (rev s))"

definition default_tenant_scope_for_principal ::
  "identity_config \<Rightarrow> bool \<Rightarrow> (string \<Rightarrow> agent_profile res) \<Rightarrow> string \<Rightarrow> string list res" where
  "default_tenant_scope_for_principal i alias load value =
     rbind (normalize_principal_id i alias value) (\<lambda>who. rbind (mk_root_principal i) (\<lambda>root.
       Inr (if who = pr_id root then [default_tenant_id i]
            else if startswith ''agent:'' who \<and> CHR ''@'' \<in> set who then [after_last (CHR ''@'') who]
            else (case load who of Inl _ \<Rightarrow> [default_tenant_id i] | Inr p \<Rightarrow> tenant_scope p))))"

definition principal_from_agent_id :: "identity_config \<Rightarrow> string \<Rightarrow> string \<Rightarrow> principal res" where
  "principal_from_agent_id i who tenant = mk_principal
     \<lparr>pr_id = who, tenant_id = tenant, subject_id = default_subject_id i, actor_kind = ''agent'',
      scopes = {''memory.read'', ''memory.write''}, roles = {''agent_default''}, root_flag = False, bg_token = None\<rparr>"

definition principal_from_record ::
  "identity_config \<Rightarrow> bool \<Rightarrow> (string \<Rightarrow> agent_profile res) \<Rightarrow> token_record \<Rightarrow> principal res" where
  "principal_from_record i alias load r =
     rbind (normalize_principal_id i alias (tr_principal r)) (\<lambda>who. rbind (mk_root_principal i) (\<lambda>root.
       let tenant = (if tr_scope r = [] then default_tenant_id i else hd (tr_scope r)) in
       if who = pr_id root then
         mk_principal \<lparr>pr_id = pr_id root, tenant_id = (if tenant \<noteq> ''*'' then tenant else default_tenant_id i),
           subject_id = subject_id root, actor_kind = ''human'', scopes = {''*''}, roles = roles root, root_flag = True,
           bg_token = None\<rparr>
       else if startswith ''agent:'' who then principal_from_agent_id i who tenant
       else rbind (load who) (\<lambda>p. principal_default_for_profile i (prof_name p) (tenant_scope p))))"

subsection \<open>Operations\<close>

definition insert_token :: "token_row \<Rightarrow> token_row list \<Rightarrow> token_row list res" where
  "insert_token r db =
     (if tk_sha r \<in> tk_sha ` set db \<or> tk_label r \<in> tk_label ` set db
      then Inl (IntegrityError ''UNIQUE constraint failed'') else Inr (db @ [r]))"

definition mint ::
  "(string \<Rightarrow> string) \<Rightarrow> identity_config \<Rightarrow> bool \<Rightarrow> (string \<Rightarrow> agent_profile res) \<Rightarrow> string \<Rightarrow> string \<Rightarrow> string list \<Rightarrow>
   int option \<Rightarrow> string \<Rightarrow> time \<Rightarrow> token_row list \<Rightarrow> (string \<times> token_row list) res" where
  "mint H i alias load who label tscope ttl token now db =
     rbind (if tscope \<noteq> [] then Inr tscope else default_tenant_scope_for_principal i alias load who) (\<lambda>scope.
     rbind (normalize_principal_id i alias who) (\<lambda>pid.
     rbind (insert_token \<lparr>tk_sha = H token, tk_principal = pid, tk_scope_json = scope_text scope, tk_created_at = now,
         tk_rotated_at = None, tk_revoked_at = None, tk_expires_at = map_option (\<lambda>s. now + seconds s) ttl,
         tk_last_used_at = None, tk_label = label\<rparr> db) (\<lambda>db'.
       Inr (token, db'))))"

definition find_token :: "string \<Rightarrow> token_row list \<Rightarrow> token_row option" where
  "find_token digest db = List.find (\<lambda>r. tk_sha r = digest) db"

definition touch_token :: "string \<Rightarrow> time \<Rightarrow> token_row list \<Rightarrow> token_row list" where
  "touch_token digest now db = update_where (\<lambda>r. tk_sha r = digest) (\<lambda>r. r\<lparr>tk_last_used_at := Some now\<rparr>) db"

definition resolve_token ::
  "(string \<Rightarrow> string) \<Rightarrow> string \<Rightarrow> time \<Rightarrow> token_row list \<Rightarrow> token_record option res \<times> token_row list" where
  "resolve_token H raw_token now db =
     (case find_token (H raw_token) db of None \<Rightarrow> (Inr None, db)
      | Some r \<Rightarrow> (rbind (record_from_row r) (\<lambda>t. Inr (Some t)), touch_token (H raw_token) now db))"

definition list_tokens :: "token_row list \<Rightarrow> token_record list res" where
  "list_tokens db = map_res record_from_row (rev (sort_key tk_created_at (rev db)))"

definition revoke_row :: "time \<Rightarrow> token_row \<Rightarrow> token_row" where
  "revoke_row now r = r\<lparr>tk_revoked_at := (case tk_revoked_at r of None \<Rightarrow> Some now | Some t \<Rightarrow> if t > now then Some now else Some t)\<rparr>"

definition revoke :: "string \<Rightarrow> time \<Rightarrow> token_row list \<Rightarrow> bool \<times> token_row list" where
  "revoke label now db =
     (count_where (\<lambda>r. tk_label r = label) db > 0, update_where (\<lambda>r. tk_label r = label) (revoke_row now) db)"

text \<open>\<open>strftime('%Y%m%d%H%M%S')\<close>\<close>

definition compact_stamp :: "time \<Rightarrow> string" where
  "compact_stamp t = (let s = t div 1000000 in
     filter (\<lambda>c. c \<noteq> CHR ''-'') (civil_date (s div 86400)) @ filter (\<lambda>c. c \<noteq> CHR '':'') (clock_text (s mod 86400)))"

definition rotatable :: "string \<Rightarrow> token_row \<Rightarrow> bool" where
  "rotatable label r \<longleftrightarrow> tk_label r = label \<and> tk_revoked_at r = None"

definition rotate_token ::
  "(string \<Rightarrow> string) \<Rightarrow> identity_config \<Rightarrow> bool \<Rightarrow> (string \<Rightarrow> agent_profile res) \<Rightarrow> string \<Rightarrow> int \<Rightarrow> string \<Rightarrow> time \<Rightarrow> time \<Rightarrow>
   token_row list \<Rightarrow> string res \<times> token_row list" where
  "rotate_token H i alias load label grace token now later db =
     (case List.find (rotatable label) db of
        None \<Rightarrow> (Inl (KeyError label), db)
      | Some r \<Rightarrow>
          (let db1 = update_where (\<lambda>x. tk_label x = label)
                 (\<lambda>x. x\<lparr>tk_rotated_at := Some now, tk_revoked_at := Some (now + seconds grace)\<rparr>) db
           in case rbind (scope_items (tk_scope_json r)) (\<lambda>scope.
                  mint H i alias load (tk_principal r) (label @ ''-'' @ compact_stamp now) scope None token later db1) of
                Inl e \<Rightarrow> (Inl e, db1) | Inr (t, db2) \<Rightarrow> (Inr t, db2)))"

subsection \<open>Sequences of operations\<close>

datatype token_cmd =
    MintToken string string "string list" "int option" string time
  | ResolveToken string time
  | RevokeToken string time
  | RotateToken string int string time time

fun run_token ::
  "(string \<Rightarrow> string) \<Rightarrow> identity_config \<Rightarrow> bool \<Rightarrow> (string \<Rightarrow> agent_profile res) \<Rightarrow> token_cmd \<Rightarrow> token_row list \<Rightarrow> token_row list" where
  "run_token H i alias load (MintToken who label tscope ttl token now) db =
     (case mint H i alias load who label tscope ttl token now db of Inl _ \<Rightarrow> db | Inr (_, db') \<Rightarrow> db')"
| "run_token H i alias load (ResolveToken token now) db = snd (resolve_token H token now db)"
| "run_token H i alias load (RevokeToken label now) db = snd (revoke label now db)"
| "run_token H i alias load (RotateToken label grace token now later) db = snd (rotate_token H i alias load label grace token now later db)"

definition tokens_ok :: "token_row list \<Rightarrow> bool" where
  "tokens_ok db \<longleftrightarrow> distinct (map tk_sha db) \<and> distinct (map tk_label db) \<and> (\<forall>r \<in> set db. is_ok (scope_items (tk_scope_json r)))"

lemma scope_items_text [simp]: "scope_items (scope_text ts) = Inr ts"
proof -
  have "jwf (JList (map JStr ts))" by (simp add: list_all_iff)
  moreover have "canon (JList (map JStr ts)) = JList (map JStr ts)" by simp
  ultimately have "loads (scope_text ts) = Some (JList (map JStr ts))" unfolding scope_text_def using loads_dumps(1) by metis
  then show ?thesis by (simp add: scope_items_def py_str_def comp_def)
qed

lemma find_update_where:
  "(\<And>r. P (f r) = P r) \<Longrightarrow> List.find P (update_where q f db) = map_option (\<lambda>r. if q r then f r else r) (List.find P db)"
  by (induction db) auto

lemma find_append: "List.find P (xs @ ys) = (case List.find P xs of None \<Rightarrow> List.find P ys | r \<Rightarrow> r)"
  by (induction xs) auto

lemma find_token_SomeD: "find_token d db = Some r \<Longrightarrow> r \<in> set db \<and> tk_sha r = d"
  by (auto simp: find_token_def find_Some_iff)

lemma find_token_in: "r \<in> set db \<Longrightarrow> tokens_ok db \<Longrightarrow> find_token (tk_sha r) db = Some r"
  by (induction db) (auto simp: find_token_def tokens_ok_def image_iff)

lemma update_keeps_ok:
  "tokens_ok db \<Longrightarrow> (\<And>r. tk_sha (f r) = tk_sha r \<and> tk_label (f r) = tk_label r \<and> tk_scope_json (f r) = tk_scope_json r) \<Longrightarrow>
   tokens_ok (update_where q f db)"
  by (auto simp: tokens_ok_def map_update_where set_update_where)

lemma mint_appends:
  assumes "mint H i alias load who label tscope ttl token now db = Inr (t, db')"
  shows "\<exists>r scope. db' = db @ [r] \<and> t = token \<and> tk_sha r = H token \<and> tk_label r = label \<and> tk_revoked_at r = None \<and>
    tk_expires_at r = map_option (\<lambda>s. now + seconds s) ttl \<and> tk_scope_json r = scope_text scope \<and>
    tk_sha r \<notin> tk_sha ` set db \<and> tk_label r \<notin> tk_label ` set db"
  using assms by (auto simp: mint_def insert_token_def rbind_Inr_iff split: if_split_asm)

lemma mint_keeps_ok:
  assumes "tokens_ok db" and "mint H i alias load who label tscope ttl token now db = Inr (t, db')"
  shows "tokens_ok db'"
  using mint_appends [OF assms(2)] assms(1) by (auto simp: tokens_ok_def)

lemma rotate_cases:
  assumes "rotate_token H i alias load label grace token now later db = (res, db')"
  obtains "db' = db" "List.find (rotatable label) db = None"
  | r db1 where "List.find (rotatable label) db = Some r"
      "db1 = update_where (\<lambda>x. tk_label x = label) (\<lambda>x. x\<lparr>tk_rotated_at := Some now, tk_revoked_at := Some (now + seconds grace)\<rparr>) db"
      "db' = db1 \<or> (\<exists>scope t. mint H i alias load (tk_principal r) (label @ ''-'' @ compact_stamp now) scope None token later db1 = Inr (t, db'))"
proof (cases "List.find (rotatable label) db")
  case None
  with assms show ?thesis by (intro that(1)) (simp_all add: rotate_token_def)
next
  case (Some r)
  let ?db1 = "update_where (\<lambda>x. tk_label x = label) (\<lambda>x. x\<lparr>tk_rotated_at := Some now, tk_revoked_at := Some (now + seconds grace)\<rparr>) db"
  let ?m = "rbind (scope_items (tk_scope_json r)) (\<lambda>scope.
      mint H i alias load (tk_principal r) (label @ ''-'' @ compact_stamp now) scope None token later ?db1)"
  have "(case ?m of Inl e \<Rightarrow> (Inl e, ?db1) | Inr (t, db2) \<Rightarrow> (Inr t, db2)) = (res, db')"
    using assms Some by (simp add: rotate_token_def Let_def)
  then have "db' = ?db1 \<or> (\<exists>t. ?m = Inr (t, db'))" by (auto split: sum.split_asm)
  then show ?thesis by (intro that(2) [OF Some refl]) (auto simp: rbind_Inr_iff)
qed

lemma run_token_ok: "tokens_ok db \<Longrightarrow> tokens_ok (run_token H i alias load c db)"
proof (induction c)
  case (MintToken who label tscope ttl token now)
  then show ?case by (auto split: sum.split intro: mint_keeps_ok)
next
  case (ResolveToken token now)
  then show ?case by (auto simp: resolve_token_def touch_token_def split: option.split intro: update_keeps_ok)
next
  case (RevokeToken label now)
  then show ?case by (auto simp: revoke_def revoke_row_def intro: update_keeps_ok)
next
  case (RotateToken label grace token now later)
  obtain res db' where d: "rotate_token H i alias load label grace token now later db = (res, db')"
    by (cases "rotate_token H i alias load label grace token now later db")
  then have "tokens_ok db'"
  proof (cases rule: rotate_cases)
    case 1
    with RotateToken show ?thesis by simp
  next
    case (2 r db1)
    have "tokens_ok db1" unfolding 2(2) by (rule update_keeps_ok [OF RotateToken]) simp
    with 2(3) mint_keeps_ok show ?thesis by blast
  qed
  with d show ?case by simp
qed

subsection \<open>Revocation sticks\<close>

definition revoked_by :: "time \<Rightarrow> string \<Rightarrow> token_row list \<Rightarrow> bool" where
  "revoked_by T digest db \<longleftrightarrow>
     (case find_token digest db of None \<Rightarrow> False
      | Some r \<Rightarrow> (case tk_revoked_at r of None \<Rightarrow> False | Some t \<Rightarrow> t \<le> T))"

lemma revoked_by_update:
  assumes "revoked_by T d db" and "\<And>r. tk_sha (f r) = tk_sha r"
    and "\<And>r t. find_token d db = Some r \<Longrightarrow> q r \<Longrightarrow> tk_revoked_at r = Some t \<Longrightarrow> t \<le> T \<Longrightarrow> \<exists>t' \<le> T. tk_revoked_at (f r) = Some t'"
  shows "revoked_by T d (update_where q f db)"
proof -
  obtain r t where r: "find_token d db = Some r" "tk_revoked_at r = Some t" "t \<le> T"
    using assms(1) by (auto simp: revoked_by_def split: option.split_asm)
  have "find_token d (update_where q f db) = Some (if q r then f r else r)"
    using r(1) unfolding find_token_def by (subst find_update_where) (simp_all add: assms(2))
  moreover have "\<exists>t' \<le> T. tk_revoked_at (if q r then f r else r) = Some t'" using assms(3) r by auto
  ultimately show ?thesis by (auto simp: revoked_by_def)
qed

lemma revoked_by_append: "revoked_by T d db \<Longrightarrow> revoked_by T d (db @ [r])"
  by (auto simp: revoked_by_def find_token_def find_append split: option.split_asm)

lemma run_token_revoked:
  assumes "tokens_ok db" and "revoked_by T d db"
  shows "revoked_by T d (run_token H i alias load c db)"
proof (cases c)
  case (MintToken who label tscope ttl token now)
  then show ?thesis using mint_appends assms(2) revoked_by_append by (fastforce split: sum.split)
next
  case (ResolveToken token now)
  have "revoked_by T d (touch_token (H token) now db)"
    unfolding touch_token_def by (rule revoked_by_update [OF assms(2)]) auto
  then show ?thesis using assms(2) by (simp add: ResolveToken resolve_token_def split: option.split)
next
  case (RevokeToken label now)
  have "revoked_by T d (update_where (\<lambda>r. tk_label r = label) (revoke_row now) db)"
    by (rule revoked_by_update [OF assms(2)]) (auto simp: revoke_row_def)
  then show ?thesis by (simp add: RevokeToken revoke_def)
next
  case (RotateToken label grace token now later)
  obtain res db' where d': "rotate_token H i alias load label grace token now later db = (res, db')"
    by (cases "rotate_token H i alias load label grace token now later db")
  then have "revoked_by T d db'"
  proof (cases rule: rotate_cases)
    case 1
    with assms show ?thesis by simp
  next
    case (2 r db1)
    have r: "r \<in> set db" "tk_label r = label" "tk_revoked_at r = None" using 2(1) by (auto simp: find_Some_iff rotatable_def)
    have "revoked_by T d db1" unfolding 2(2)
    proof (rule revoked_by_update [OF assms(2)])
      fix x t
      assume x: "find_token d db = Some x" "tk_label x = label" "tk_revoked_at x = Some t"
      have "x = r" using assms(1) x(2) r(2) find_token_SomeD [OF x(1)] r(1)
        by (auto simp: tokens_ok_def distinct_map inj_on_def)
      with x(3) r(3) show "\<exists>t'\<le>T. tk_revoked_at (x\<lparr>tk_rotated_at := Some now, tk_revoked_at := Some (now + seconds grace)\<rparr>) = Some t'" by simp
    qed simp
    with 2(3) mint_appends revoked_by_append show ?thesis by blast
  qed
  with d' show ?thesis by (simp add: RotateToken)
qed

lemma revoke_marks:
  assumes "tokens_ok db" and "r \<in> set db" and "tk_label r = label"
  shows "fst (revoke label now db)" and "revoked_by now (tk_sha r) (snd (revoke label now db))"
proof -
  show "fst (revoke label now db)" using assms(2,3) by (auto simp: revoke_def count_where_def filter_empty_conv)
  have "find_token (tk_sha r) (update_where (\<lambda>r. tk_label r = label) (revoke_row now) db) = Some (revoke_row now r)"
    using find_token_in [OF assms(2,1)] assms(3) unfolding find_token_def
    by (subst find_update_where) (simp_all add: revoke_row_def)
  then show "revoked_by now (tk_sha r) (snd (revoke label now db))"
    by (auto simp: revoked_by_def revoke_def revoke_row_def split: option.split)
qed

lemma run_tokens_revoked:
  assumes "tokens_ok db" and "revoked_by T d db"
  shows "tokens_ok (fold (run_token H i alias load) cs db) \<and> revoked_by T d (fold (run_token H i alias load) cs db)"
  using assms
proof (induction cs arbitrary: db)
  case (Cons c cs)
  have "tokens_ok (run_token H i alias load c db)" by (rule run_token_ok [OF Cons.prems(1)])
  moreover have "revoked_by T d (run_token H i alias load c db)" by (rule run_token_revoked [OF Cons.prems])
  ultimately show ?case using Cons.IH by simp
qed simp

text \<open>A rotated token loses the expiry its predecessor had.\<close>

lemma rotation_never_expires:
  assumes "rotate_token H i alias load label grace token now later db = (Inr t, db')"
  shows "\<exists>r \<in> set db'. tk_sha r = H t \<and> tk_expires_at r = None \<and> tk_revoked_at r = None"
proof -
  obtain scope db1 who label' where "mint H i alias load who label' scope None token later db1 = Inr (t, db')"
    using assms by (auto simp: rotate_token_def Let_def rbind_Inr_iff split: option.split_asm sum.split_asm)
  from mint_appends [OF this] show ?thesis by auto
qed

end
