(* ===== verification/Http_Auth.thy ===== *)
theory Http_Auth
  imports Http_Tokens
begin

text \<open>
  \<open>panella/http/auth.py\<close> and the gates of \<open>panella/http/app.py\<close>: the rate limiter, the resolution of a bearer
  header, the authentication middleware with its elevated tokens, the serving gate before it, and the gate of
  the \<open>/mcp\<close> mount.  An HTTP error of the program is \<open>Api\<close> with its code and status, any other exception
  \<open>Raised\<close>.  The answer of the MCP library's Host check is an argument, \<open>None\<close> when it passes.
\<close>

subsection \<open>Errors\<close>

datatype http_exc = Api string int | Raised exc

type_synonym 'a web = "http_exc + 'a"

definition hbind :: "'a web \<Rightarrow> ('a \<Rightarrow> 'b web) \<Rightarrow> 'b web" where
  "hbind r f = (case r of Inl e \<Rightarrow> Inl e | Inr x \<Rightarrow> f x)"

lemma hbind_simps [simp]: "hbind (Inl e) f = Inl e" "hbind (Inr x) f = f x"
  by (simp_all add: hbind_def)

lemma hbind_Inr: "hbind r f = Inr y \<longleftrightarrow> (\<exists>x. r = Inr x \<and> f x = Inr y)"
  by (cases r) auto

definition raised :: "'a res \<Rightarrow> 'a web" where
  "raised r = (case r of Inl e \<Rightarrow> Inl (Raised e) | Inr x \<Rightarrow> Inr x)"

lemma raised_simps [simp]: "raised (Inl e) = Inl (Raised e)" "raised (Inr x) = Inr x"
  by (simp_all add: raised_def)

lemma raised_Inr [simp]: "raised r = Inr x \<longleftrightarrow> r = Inr x"
  by (cases r) auto

subsection \<open>The rate limiter\<close>

record rate_limiter =
  requests_per_minute :: int
  buckets :: "(string \<times> time list) list"

definition bucket :: "rate_limiter \<Rightarrow> string \<Rightarrow> time list" where
  "bucket rl key = (case dget (buckets rl) key of None \<Rightarrow> [] | Some b \<Rightarrow> b)"

definition allow :: "string \<Rightarrow> time \<Rightarrow> rate_limiter \<Rightarrow> bool \<times> rate_limiter" where
  "allow key now rl =
     (let b = dropWhile (\<lambda>t. now - t \<ge> seconds 60) (bucket rl key) in
      if int (length b) \<ge> requests_per_minute rl then (False, rl\<lparr>buckets := dset key b (buckets rl)\<rparr>)
      else (True, rl\<lparr>buckets := dset key (b @ [now]) (buckets rl)\<rparr>))"

subsection \<open>Bearer headers\<close>

text \<open>\<open>len(text.split())\<close>\<close>

fun word_count :: "bool \<Rightarrow> string \<Rightarrow> nat" where
  "word_count inside [] = 0"
| "word_count inside (c # s) = (if py_space c then word_count False s else (if inside then 0 else 1) + word_count True s)"

definition bearer_of :: "string \<Rightarrow> string web" where
  "bearer_of header =
     (if header = [] then Inl (Api ''missing_token'' 401)
      else if \<not> startswith ''Bearer '' header \<or> word_count False header \<noteq> 2 then Inl (Api ''malformed_token'' 401)
      else (let raw_token = py_strip (drop 7 header) in
        if raw_token = [] then Inl (Api ''malformed_token'' 401) else Inr raw_token))"

definition judge_record :: "token_record \<Rightarrow> time \<Rightarrow> time \<Rightarrow> token_record web" where
  "judge_record r now later =
     (if (case tr_revoked_at r of None \<Rightarrow> False | Some t \<Rightarrow> t \<le> now) then Inl (Api ''revoked_token'' 403)
      else if token_expired r later then Inl (Api ''expired_token'' 403)
      else Inr r)"

definition resolve_bearer ::
  "(string \<Rightarrow> string) \<Rightarrow> string \<Rightarrow> (nat \<Rightarrow> time) \<Rightarrow> token_row list \<Rightarrow> token_record web \<times> token_row list" where
  "resolve_bearer H header clk db =
     (case bearer_of header of
        Inl e \<Rightarrow> (Inl e, db)
      | Inr raw_token \<Rightarrow>
          (case resolve_token H raw_token (clk 0) db of
             (Inl e, db') \<Rightarrow> (Inl (Raised e), db')
           | (Inr None, db') \<Rightarrow> (Inl (Api ''malformed_token'' 401), db')
           | (Inr (Some r), db') \<Rightarrow> (judge_record r (clk 1) (clk 2), db')))"

subsection \<open>The middleware\<close>

record http_state =
  hs_tokens :: "token_row list"
  hs_limiter :: rate_limiter
  hs_elevated :: "(string \<times> principal) list"
  hs_serving :: bool
  hs_reason :: string
  hs_mcp_limiter :: rate_limiter

record auth_config =
  au_free_paths :: "string list"
  au_free_prefixes :: "string list"
  au_hash :: "string \<Rightarrow> string"
  au_identity :: identity_config
  au_alias :: bool
  au_load :: "string \<Rightarrow> agent_profile res"

definition request_principal :: "auth_config \<Rightarrow> (string \<times> principal) list \<Rightarrow> token_record \<Rightarrow> time \<Rightarrow> principal web" where
  "request_principal cfg elevated r now =
     (case dget elevated (tr_sha r) of
        Some cached \<Rightarrow> if \<not> is_root_with_break_glass cached now then Inl (Api ''expired_token'' 403) else Inr cached
      | None \<Rightarrow> raised (principal_from_record (au_identity cfg) (au_alias cfg) (au_load cfg) r))"

definition authenticate ::
  "auth_config \<Rightarrow> string \<Rightarrow> (nat \<Rightarrow> time) \<Rightarrow> http_state \<Rightarrow> (token_record \<times> principal) web \<times> http_state" where
  "authenticate cfg header clk st =
     (case resolve_bearer (au_hash cfg) header clk (hs_tokens st) of
        (Inl e, db) \<Rightarrow> (Inl e, st\<lparr>hs_tokens := db\<rparr>)
      | (Inr r, db) \<Rightarrow> (hbind (request_principal cfg (hs_elevated st) r (clk 3)) (\<lambda>p. Inr (r, p)), st\<lparr>hs_tokens := db\<rparr>))"

text \<open>What the request reaches its route with: nothing on a free path.\<close>

definition auth_free :: "auth_config \<Rightarrow> string \<Rightarrow> bool" where
  "auth_free cfg path \<longleftrightarrow> path \<in> set (au_free_paths cfg) \<or> list_ex (\<lambda>q. startswith q path) (au_free_prefixes cfg)"

definition auth_dispatch ::
  "auth_config \<Rightarrow> string \<Rightarrow> string \<Rightarrow> (nat \<Rightarrow> time) \<Rightarrow> http_state \<Rightarrow> principal option web \<times> http_state" where
  "auth_dispatch cfg path header clk st =
     (if auth_free cfg path then (Inr None, st)
      else
        (case authenticate cfg header clk st of
           (Inl e, st1) \<Rightarrow> (Inl e, st1)
         | (Inr (r, p), st1) \<Rightarrow>
             (case allow (tr_sha r) (clk 4) (hs_limiter st1) of
                (ok, rl) \<Rightarrow> (if \<not> ok then Inl (Api ''rate_limited'' 429) else Inr (Some p), st1\<lparr>hs_limiter := rl\<rparr>))))"

subsection \<open>The serving gate\<close>

definition GATED_PREFIXES :: "string list" where
  "GATED_PREFIXES = [''/v1/memory/'', ''/v1/approvals/'', ''/console'']"

definition GATED_EXACT :: "string list" where
  "GATED_EXACT = [''/v1/principal/break-glass'']"

definition gated :: "string \<Rightarrow> bool" where
  "gated path \<longleftrightarrow> list_ex (\<lambda>q. startswith q path) GATED_PREFIXES \<or> path \<in> set GATED_EXACT"

definition http_enter ::
  "auth_config \<Rightarrow> string \<Rightarrow> string \<Rightarrow> (nat \<Rightarrow> time) \<Rightarrow> http_state \<Rightarrow> principal option web \<times> http_state" where
  "http_enter cfg path header clk st =
     (if gated path \<and> \<not> hs_serving st then (Inl (Api ''memory_not_serving'' 503), st)
      else auth_dispatch cfg path header clk st)"

text \<open>\<open>principal\<close>, the dependency of every protected route\<close>

definition principal_dep :: "principal option \<Rightarrow> principal web" where
  "principal_dep p = (case p of None \<Rightarrow> Inl (Api ''missing_principal'' 401) | Some who \<Rightarrow> Inr who)"

subsection \<open>The MCP mount\<close>

definition is_mcp_path :: "string \<Rightarrow> bool" where
  "is_mcp_path path \<longleftrightarrow> path = ''/mcp'' \<or> startswith ''/mcp/'' path"

definition authenticate_mcp_owner ::
  "auth_config \<Rightarrow> string \<Rightarrow> (nat \<Rightarrow> time) \<Rightarrow> http_state \<Rightarrow> token_record web \<times> http_state" where
  "authenticate_mcp_owner cfg header clk st =
     (case resolve_bearer (au_hash cfg) header clk (hs_tokens st) of
        (Inl e, db) \<Rightarrow> (Inl e, st\<lparr>hs_tokens := db\<rparr>)
      | (Inr r, db) \<Rightarrow>
          (hbind (raised (normalize_principal_id (au_identity cfg) (au_alias cfg) (tr_principal r))) (\<lambda>who.
           hbind (raised (mk_root_principal (au_identity cfg))) (\<lambda>root.
             if who \<noteq> pr_id root then Inl (Api ''forbidden'' 403) else Inr r)), st\<lparr>hs_tokens := db\<rparr>))"

definition mcp_enter ::
  "auth_config \<Rightarrow> http_exc option \<Rightarrow> string \<Rightarrow> (nat \<Rightarrow> time) \<Rightarrow> http_state \<Rightarrow> token_record web \<times> http_state" where
  "mcp_enter cfg rejected header clk st =
     (if rejected \<noteq> None then (Inl (the rejected), st)
      else if \<not> hs_serving st then (Inl (Api ''memory_not_serving'' 503), st)
      else
        (case authenticate_mcp_owner cfg header clk st of
           (Inl e, st1) \<Rightarrow> (Inl e, st1)
         | (Inr r, st1) \<Rightarrow>
             (case allow (tr_sha r) (clk 4) (hs_mcp_limiter st1) of
                (ok, rl) \<Rightarrow> (if \<not> ok then Inl (Api ''rate_limited'' 429) else Inr r, st1\<lparr>hs_mcp_limiter := rl\<rparr>))))"

subsection \<open>The limiter is a sliding window\<close>

type_synonym request_log = "(string \<times> time) list"

definition stamps_of :: "string \<Rightarrow> request_log \<Rightarrow> time list" where
  "stamps_of key log = map snd (filter (\<lambda>(k, x). k = key) log)"

text \<open>The reference: the requests of a key that were let through in the last minute.\<close>

definition recent :: "string \<Rightarrow> time \<Rightarrow> request_log \<Rightarrow> time list" where
  "recent key now log = filter (\<lambda>t. now - t < seconds 60) (stamps_of key log)"

definition limiter_step :: "string \<times> time \<Rightarrow> rate_limiter \<times> request_log \<Rightarrow> rate_limiter \<times> request_log" where
  "limiter_step r s = (case allow (fst r) (snd r) (fst s) of (ok, rl) \<Rightarrow> (rl, if ok then snd s @ [r] else snd s))"

definition limiter_run :: "(string \<times> time) list \<Rightarrow> rate_limiter \<times> request_log \<Rightarrow> rate_limiter \<times> request_log" where
  "limiter_run reqs s = fold limiter_step reqs s"

text \<open>The buckets hold the log less what is too old at time \<open>T\<close>.\<close>

definition tracks :: "int \<Rightarrow> time \<Rightarrow> rate_limiter \<times> request_log \<Rightarrow> bool" where
  "tracks rpm T s \<longleftrightarrow> requests_per_minute (fst s) = rpm \<and> sorted (map snd (snd s)) \<and> (\<forall>r \<in> set (snd s). snd r \<le> T) \<and>
     (\<forall>key. int (length (bucket (fst s) key)) \<le> max 0 rpm) \<and>
     (\<forall>key. \<exists>old. stamps_of key (snd s) = old @ bucket (fst s) key \<and> (\<forall>x \<in> set old. T - x \<ge> seconds 60))"

lemma sorted_stamps: "sorted (map snd log) \<Longrightarrow> sorted (stamps_of key log)"
  by (induction log) (auto simp: stamps_of_def)

lemma dropWhile_sorted_filter:
  "sorted b \<Longrightarrow> dropWhile (\<lambda>t. now - t \<ge> c) b = filter (\<lambda>t. now - t < c) (b :: int list)"
proof (induction b)
  case (Cons a b)
  have "filter (\<lambda>t. now - t < c) b = b" if "now - a < c" using Cons.prems that by (intro filter_True) fastforce
  with Cons show ?case by (cases "now - a < c") auto
qed simp

lemma tracks_recent:
  assumes "tracks rpm T s" and "T \<le> now"
  shows "dropWhile (\<lambda>t. now - t \<ge> seconds 60) (bucket (fst s) key) = recent key now (snd s)"
proof -
  obtain old where o': "stamps_of key (snd s) = old @ bucket (fst s) key" "\<forall>x \<in> set old. T - x \<ge> seconds 60"
    using assms(1) unfolding tracks_def by blast
  have "sorted (stamps_of key (snd s))" using assms(1) sorted_stamps by (simp add: tracks_def)
  then have "sorted (bucket (fst s) key)" using o'(1) by (simp add: sorted_append)
  moreover have "filter (\<lambda>t. now - t < seconds 60) old = []" using o'(2) assms(2) by (auto simp: filter_empty_conv)
  ultimately show ?thesis by (simp add: recent_def o'(1) dropWhile_sorted_filter)
qed

lemma allow_decides:
  assumes "tracks rpm T s" and "T \<le> now"
  shows "fst (allow key now (fst s)) \<longleftrightarrow> int (length (recent key now (snd s))) < rpm"
  using tracks_recent [OF assms, of key] assms(1) by (auto simp: allow_def Let_def tracks_def)

lemma bucket_allow:
  "bucket (snd (allow key now rl)) k =
     (if k = key then
        (let b = dropWhile (\<lambda>t. now - t \<ge> seconds 60) (bucket rl key) in if fst (allow key now rl) then b @ [now] else b)
      else bucket rl k)"
  "requests_per_minute (snd (allow key now rl)) = requests_per_minute rl"
  by (auto simp: allow_def Let_def bucket_def dict_simps)

lemma tracks_step:
  assumes "tracks rpm T s" and "T \<le> now"
  shows "tracks rpm now (limiter_step (key, now) s)"
proof -
  obtain rl log where s: "s = (rl, log)" by (cases s)
  let ?ok = "fst (allow key now rl)" and ?rl = "snd (allow key now rl)"
  let ?log = "if ?ok then log @ [(key, now)] else log"
  have step: "limiter_step (key, now) s = (?rl, ?log)" by (simp add: limiter_step_def s case_prod_beta)
  have t: "requests_per_minute rl = rpm" "sorted (map snd log)" "\<And>r. r \<in> set log \<Longrightarrow> snd r \<le> T"
    using assms(1) unfolding tracks_def s fst_conv snd_conv by blast+
  have "int (length (bucket ?rl k)) \<le> max 0 rpm" for k
  proof -
    have "int (length (bucket rl k)) \<le> max 0 rpm" using assms(1) by (simp add: tracks_def s)
    moreover have "length (dropWhile (\<lambda>t. now - t \<ge> seconds 60) (bucket rl key)) \<le> length (bucket rl key)"
      by (rule length_dropWhile_le)
    ultimately show ?thesis using t(1) by (auto simp: bucket_allow Let_def) (simp add: allow_def Let_def split: if_split_asm)
  qed
  moreover have "\<exists>old. stamps_of k ?log = old @ bucket ?rl k \<and> (\<forall>x \<in> set old. now - x \<ge> seconds 60)" for k
  proof -
    obtain old where o': "stamps_of k log = old @ bucket rl k" "\<forall>x \<in> set old. T - x \<ge> seconds 60"
      using assms(1) unfolding tracks_def s fst_conv snd_conv by blast
    show ?thesis
    proof (cases "k = key")
      case False
      with o' assms(2) show ?thesis by (intro exI [of _ old]) (auto simp: bucket_allow stamps_of_def)
    next
      case True
      let ?P = "\<lambda>t. now - t \<ge> seconds 60"
      have split: "stamps_of key log = (old @ takeWhile ?P (bucket rl key)) @ dropWhile ?P (bucket rl key)" using o'(1) True by simp
      have "stamps_of key ?log = (old @ takeWhile ?P (bucket rl key)) @ bucket ?rl key"
        using split by (simp add: bucket_allow Let_def stamps_of_def)
      moreover have "\<forall>x \<in> set (old @ takeWhile ?P (bucket rl key)). now - x \<ge> seconds 60"
        using o'(2) assms(2) by (auto dest: set_takeWhileD)
      ultimately show ?thesis using True by blast
    qed
  qed
  moreover have "sorted (map snd ?log)"
  proof -
    have "\<forall>x \<in> set (map snd log). x \<le> now" using order_trans [OF t(3) assms(2)] by simp
    with t(2) show ?thesis by (simp add: sorted_append)
  qed
  moreover have "\<forall>r \<in> set ?log. snd r \<le> now"
  proof
    fix r assume "r \<in> set ?log"
    then have "r \<in> set log \<or> r = (key, now)" by (auto split: if_split_asm)
    then show "snd r \<le> now" using t(3) [of r] assms(2) by auto
  qed
  ultimately show ?thesis unfolding step tracks_def using t(1) bucket_allow(2) by simp
qed

lemma tracks_run:
  "tracks rpm T s \<Longrightarrow> sorted (T # map snd reqs) \<Longrightarrow> tracks rpm (last (T # map snd reqs)) (limiter_run reqs s)"
proof (induction reqs arbitrary: T s)
  case (Cons r reqs)
  have "tracks rpm (snd r) (limiter_step r s)" using tracks_step [OF Cons.prems(1), of "snd r" "fst r"] Cons.prems(2) by simp
  moreover have "sorted (snd r # map snd reqs)" using Cons.prems(2) by simp
  ultimately show ?case using Cons.IH [of "snd r" "limiter_step r s"] by (simp add: limiter_run_def)
qed (simp add: limiter_run_def)

lemma tracks_start: "tracks rpm T (\<lparr>requests_per_minute = rpm, buckets = []\<rparr>, [])"
  by (simp add: tracks_def bucket_def stamps_of_def)

text \<open>
  C22: the rate limiter is exactly a sliding window of one minute per token.  After any requests at times that do not
  go back, the next one is let through if and only if fewer than the configured number were let through for its key
  in the minute before it; so no minute ever lets more than that number through.
\<close>

theorem limiter_is_sliding_window:
  assumes "limiter_run reqs (\<lparr>requests_per_minute = rpm, buckets = []\<rparr>, []) = (rl, log)" and "sorted (map snd reqs @ [now])"
  shows "(fst (allow key now rl) \<longleftrightarrow> int (length (recent key now log)) < rpm) \<and>
    (0 \<le> rpm \<longrightarrow> int (length (recent key now (snd (limiter_step (key, now) (rl, log))))) \<le> rpm)"
proof -
  define T where "T = (if reqs = [] then now else snd (hd reqs))"
  have s: "sorted (T # map snd reqs)" "last (T # map snd reqs) \<le> now"
     apply (use assms(2) in \<open>cases reqs; simp add: T_def sorted_append\<close>)
    by (use assms(2) in \<open>cases reqs rule: rev_cases; simp add: T_def sorted_append\<close>)
  have t: "tracks rpm (last (T # map snd reqs)) (rl, log)"
    using tracks_run [OF tracks_start s(1), of rpm] assms(1) by simp
  note d = allow_decides [OF t s(2), of key, unfolded fst_conv snd_conv]
  have "length (recent key now log) \<le> length (bucket rl key)"
    unfolding tracks_recent [OF t s(2), unfolded fst_conv snd_conv, symmetric] by (rule length_dropWhile_le)
  then have "int (length (recent key now log)) \<le> max 0 rpm"
    using t spec [of _ key] unfolding tracks_def fst_conv by (metis order_trans of_nat_mono)
  moreover have "recent key now (snd (limiter_step (key, now) (rl, log))) = recent key now log @ (if fst (allow key now rl) then [now] else [])"
    by (simp add: limiter_step_def recent_def stamps_of_def case_prod_beta seconds_def)
  ultimately show ?thesis using d by auto
qed

theorem limiter_is_sliding_window_witness:
  "\<not> fst (allow ''k'' (seconds 61) (fst (limiter_run [(''k'', seconds 2)] (\<lparr>requests_per_minute = 1, buckets = []\<rparr>, [])))) \<and>
   fst (allow ''k'' (seconds 62) (fst (limiter_run [(''k'', seconds 2)] (\<lparr>requests_per_minute = 1, buckets = []\<rparr>, []))))"
proof -
  let ?s = "limiter_run [(''k'', seconds 2)] (\<lparr>requests_per_minute = 1, buckets = []\<rparr>, [])"
  have log: "snd ?s = [(''k'', seconds 2)]" by code_simp
  have r: "recent ''k'' (seconds 61) [(''k'', seconds 2)] = [seconds 2]" "recent ''k'' (seconds 62) [(''k'', seconds 2)] = []"
    by (simp_all add: recent_def stamps_of_def seconds_def)
  have pair: "?s = (fst ?s, [(''k'', seconds 2)])" using log by (metis prod.collapse)
  have "sorted (map snd [(''k'', seconds 2)] @ [seconds 61])" "sorted (map snd [(''k'', seconds 2)] @ [seconds 62])"
    by (simp_all add: seconds_def)
  from limiter_is_sliding_window [OF pair this(1), of "''k''"] limiter_is_sliding_window [OF pair this(2), of "''k''"] r
  show ?thesis by auto
qed

subsection \<open>Who reaches a route\<close>

lemma token_principal_plain:
  assumes "principal_from_record i alias load r = Inr p"
  shows "principal_ok p \<and> bg_token p = None \<and> \<not> is_root_with_break_glass p now"
proof -
  obtain who root where w: "normalize_principal_id i alias (tr_principal r) = Inr who" "mk_root_principal i = Inr root"
    using assms by (auto simp: principal_from_record_def rbind_Inr_iff)
  let ?tenant = "if tr_scope r = [] then default_tenant_id i else hd (tr_scope r)"
  consider q where "mk_principal q = Inr p" "bg_token q = None"
    | q where "load who = Inr q" "principal_default_for_profile i (prof_name q) (tenant_scope q) = Inr p"
  proof (cases "who = pr_id root")
    case True
    with assms w that(1) show ?thesis by (simp add: principal_from_record_def Let_def)
  next
    case False
    with assms w that show ?thesis
      by (cases "startswith ''agent:'' who") (simp_all add: principal_from_record_def principal_from_agent_id_def Let_def rbind_Inr_iff, blast)
  qed
  then show ?thesis
  proof cases
    case 1
    then show ?thesis by (auto simp: mk_principal_iff is_root_with_break_glass_def)
  next
    case 2
    then have "bg_token p = None" by (auto simp: principal_default_for_profile_def mk_principal_iff Let_def split: if_split_asm)
    with default_principal_not_root [OF 2(2)] show ?thesis by blast
  qed
qed

definition live_token :: "auth_config \<Rightarrow> string \<Rightarrow> time \<Rightarrow> time \<Rightarrow> token_row list \<Rightarrow> token_row \<Rightarrow> bool" where
  "live_token cfg raw_token now later db row \<longleftrightarrow> find_token (au_hash cfg raw_token) db = Some row \<and>
     (case tk_revoked_at row of None \<Rightarrow> True | Some t \<Rightarrow> now < t) \<and> (case tk_expires_at row of None \<Rightarrow> True | Some t \<Rightarrow> later < t)"

lemma resolve_bearer_cases:
  assumes "resolve_bearer H header clk db = (Inr r, db')"
  obtains raw_token row where "bearer_of header = Inr raw_token" "find_token (H raw_token) db = Some row"
    "record_from_row row = Inr r" "judge_record r (clk 1) (clk 2) = Inr r"
proof (cases "bearer_of header")
  case (Inl e)
  with assms show ?thesis by (simp add: resolve_bearer_def)
next
  case b: (Inr raw_token)
  show ?thesis
  proof (cases "find_token (H raw_token) db")
    case None
    with assms b show ?thesis by (simp add: resolve_bearer_def resolve_token_def)
  next
    case f: (Some row)
    show ?thesis
    proof (cases "record_from_row row")
      case (Inl e)
      with assms b f show ?thesis by (simp add: resolve_bearer_def resolve_token_def)
    next
      case (Inr r0)
      with assms b f have "judge_record r0 (clk 1) (clk 2) = Inr r" by (simp add: resolve_bearer_def resolve_token_def)
      moreover from this have "r0 = r" by (simp add: judge_record_def split: if_split_asm)
      ultimately show ?thesis using that b f Inr by simp
    qed
  qed
qed

lemma resolve_bearer_live:
  assumes "resolve_bearer (au_hash cfg) header clk db = (Inr r, db')"
  shows "\<exists>raw_token row. bearer_of header = Inr raw_token \<and> live_token cfg raw_token (clk 1) (clk 2) db row \<and>
    record_from_row row = Inr r \<and> tr_sha r = au_hash cfg raw_token"
  using assms
proof (cases rule: resolve_bearer_cases)
  case (1 raw_token row)
  have same: "tr_revoked_at r = tk_revoked_at row" "tr_expires_at r = tk_expires_at row" "tr_sha r = tk_sha row"
    using 1(3) by (auto simp: record_from_row_def rbind_Inr_iff)
  have "case tr_revoked_at r of None \<Rightarrow> True | Some t \<Rightarrow> clk 1 < t" "case tr_expires_at r of None \<Rightarrow> True | Some t \<Rightarrow> clk 2 < t"
    using 1(4) by (auto simp: judge_record_def token_expired_def split: if_split_asm option.split_asm option.split)
  with 1(1-3) same find_token_SomeD [OF 1(2)] show ?thesis
    by (intro exI [of _ raw_token] exI [of _ row]) (simp add: live_token_def del: One_nat_def)
qed

lemma entered_as:
  assumes "http_enter cfg path header clk st = (Inr (Some p), st')"
  shows "(gated path \<longrightarrow> hs_serving st) \<and>
    (\<exists>raw_token row r. bearer_of header = Inr raw_token \<and> live_token cfg raw_token (clk 1) (clk 2) (hs_tokens st) row \<and>
       record_from_row row = Inr r \<and>
       (case dget (hs_elevated st) (au_hash cfg raw_token) of
          Some cached \<Rightarrow> p = cached \<and> is_root_with_break_glass p (clk 3)
        | None \<Rightarrow> principal_from_record (au_identity cfg) (au_alias cfg) (au_load cfg) r = Inr p \<and>
            (\<forall>now. \<not> is_root_with_break_glass p now)))"
proof -
  have g: "gated path \<longrightarrow> hs_serving st" "auth_dispatch cfg path header clk st = (Inr (Some p), st')"
    using assms by (auto simp: http_enter_def split: if_split_asm)
  obtain r st1 where a: "authenticate cfg header clk st = (Inr (r, p), st1)"
    using g(2) by (auto simp: auth_dispatch_def split: if_split_asm prod.split_asm sum.split_asm)
  obtain db where b: "resolve_bearer (au_hash cfg) header clk (hs_tokens st) = (Inr r, db)"
    and q: "request_principal cfg (hs_elevated st) r (clk 3) = Inr p"
    using a by (auto simp: authenticate_def hbind_Inr split: prod.split_asm sum.split_asm)
  obtain raw_token row where row: "bearer_of header = Inr raw_token" "live_token cfg raw_token (clk 1) (clk 2) (hs_tokens st) row"
    "record_from_row row = Inr r" "tr_sha r = au_hash cfg raw_token" using resolve_bearer_live [OF b] by blast
  have "case dget (hs_elevated st) (au_hash cfg raw_token) of
      Some cached \<Rightarrow> p = cached \<and> is_root_with_break_glass p (clk 3)
    | None \<Rightarrow> principal_from_record (au_identity cfg) (au_alias cfg) (au_load cfg) r = Inr p \<and> (\<forall>now. \<not> is_root_with_break_glass p now)"
    using q row(4) token_principal_plain by (auto simp: request_principal_def split: option.split_asm option.split if_split_asm)
  with g(1) row show ?thesis by blast
qed

text \<open>
  C23: a request reaches a protected route only with a bearer token whose digest is in the table, not revoked and not
  expired at that moment, and on a gated path only when the box serves.  It acts as an elevated principal only when
  break-glass cached one for that very token and the elevation is still active; otherwise as the principal of the
  token's own row, which is never elevated, even for the root.
\<close>

theorem http_authenticated:
  assumes "http_enter cfg path header clk st = (Inr (Some p), st')"
  shows "(gated path \<longrightarrow> hs_serving st) \<and>
    (\<exists>raw_token row r. bearer_of header = Inr raw_token \<and> live_token cfg raw_token (clk 1) (clk 2) (hs_tokens st) row \<and>
       record_from_row row = Inr r \<and>
       (case dget (hs_elevated st) (au_hash cfg raw_token) of
          Some cached \<Rightarrow> p = cached \<and> is_root_with_break_glass p (clk 3)
        | None \<Rightarrow> principal_from_record (au_identity cfg) (au_alias cfg) (au_load cfg) r = Inr p \<and>
            (\<forall>now. \<not> is_root_with_break_glass p now)))"
  by (rule entered_as [OF assms])

text \<open>
  C24: revoking is immediate and final.  Once the operator revoked a label at time \<open>T\<close>, every request with that token
  judged at or after \<open>T\<close> is refused as revoked, also when the token was in the grace window of a rotation, and
  whatever minting, resolving, revoking and rotating happened in between.
\<close>

theorem revocation_sticks:
  assumes "tokens_ok db" and "row \<in> set db" and "bearer_of header = Inr raw_token" and "tk_sha row = H raw_token"
    and "T \<le> clk 1"
  shows "fst (revoke (tk_label row) T db) \<and>
    fst (resolve_bearer H header clk (fold (run_token H i alias load) cs (snd (revoke (tk_label row) T db)))) =
      Inl (Api ''revoked_token'' 403)"
proof -
  let ?db = "fold (run_token H i alias load) cs (snd (revoke (tk_label row) T db))"
  have "tokens_ok (snd (revoke (tk_label row) T db))"
    using run_token_ok [OF assms(1), of H i "alias" load "RevokeToken (tk_label row) T"] by simp
  from run_tokens_revoked [OF this revoke_marks(2) [OF assms(1,2) refl]]
  have ok: "tokens_ok ?db" "revoked_by T (H raw_token) ?db" by (simp_all add: assms(4))
  obtain r t where r: "find_token (H raw_token) ?db = Some r" "tk_revoked_at r = Some t" "t \<le> T"
    using ok(2) by (auto simp: revoked_by_def split: option.split_asm)
  obtain scope where "scope_items (tk_scope_json r) = Inr scope"
    using find_token_SomeD [OF r(1)] ok(1) by (cases "scope_items (tk_scope_json r)") (auto simp: tokens_ok_def)
  then obtain rec where rec: "record_from_row r = Inr rec" "tr_revoked_at rec = Some t" using r(2) by (auto simp: record_from_row_def)
  have "judge_record rec (clk 1) (clk 2) = Inl (Api ''revoked_token'' 403)" using rec(2) r(3) assms(5) by (simp add: judge_record_def)
  then show ?thesis using revoke_marks(1) [OF assms(1,2) refl] r(1) rec(1) assms(3)
    by (simp add: resolve_bearer_def resolve_token_def)
qed

subsection \<open>Examples\<close>

definition sample_hash :: "string \<Rightarrow> string" where
  "sample_hash s = ''#'' @ s"

definition sample_token :: token_row where
  "sample_token = \<lparr>tk_sha = ''#tok'', tk_principal = ''owner@local'', tk_scope_json = scope_text [''t_owner''], tk_created_at = 0,
     tk_rotated_at = None, tk_revoked_at = Some 90, tk_expires_at = None, tk_last_used_at = None, tk_label = ''cli''\<rparr>"

definition sample_auth :: auth_config where
  "sample_auth = \<lparr>au_free_paths = [''/v1/health''], au_free_prefixes = [], au_hash = sample_hash, au_identity = sample_identity,
     au_alias = True, au_load = (\<lambda>n. Inl (RuntimeError n))\<rparr>"

definition sample_http :: http_state where
  "sample_http = \<lparr>hs_tokens = [sample_token], hs_limiter = \<lparr>requests_per_minute = 2, buckets = []\<rparr>, hs_elevated = [],
     hs_serving = True, hs_reason = [], hs_mcp_limiter = \<lparr>requests_per_minute = 2, buckets = []\<rparr>\<rparr>"

lemma sample_bearer: "bearer_of ''Bearer tok'' = Inr ''tok''"
  by code_simp

lemma sample_tokens_ok: "tokens_ok [sample_token]"
  by code_simp

lemma sample_entered:
  "\<exists>p st'. http_enter sample_auth ''/v1/memory/search'' ''Bearer tok'' int sample_http = (Inr (Some p), st') \<and> pr_id p = ''human:owner@local''"
proof -
  have "case fst (http_enter sample_auth ''/v1/memory/search'' ''Bearer tok'' int sample_http) of
      Inr (Some p) \<Rightarrow> pr_id p = ''human:owner@local'' | _ \<Rightarrow> False"
    by code_simp
  then show ?thesis
    by (cases "http_enter sample_auth ''/v1/memory/search'' ''Bearer tok'' int sample_http") (auto split: sum.split_asm option.split_asm)
qed

theorem http_authenticated_witness:
  "\<exists>p st' row. http_enter sample_auth ''/v1/memory/search'' ''Bearer tok'' int sample_http = (Inr (Some p), st') \<and>
     live_token sample_auth ''tok'' 1 2 [sample_token] row \<and> \<not> is_root_with_break_glass p 5"
proof -
  obtain p st' where e: "http_enter sample_auth ''/v1/memory/search'' ''Bearer tok'' int sample_http = (Inr (Some p), st')"
    using sample_entered by blast
  from http_authenticated [OF e] show ?thesis using e by (auto simp: sample_bearer sample_http_def)
qed

theorem revocation_sticks_witness:
  "fst (resolve_bearer sample_hash ''Bearer tok'' int
     (fold (run_token sample_hash sample_identity True (\<lambda>n. Inl (RuntimeError n))) [RotateToken ''cli'' 300 ''new'' 1 1]
        (snd (revoke ''cli'' 1 [sample_token])))) = Inl (Api ''revoked_token'' 403)"
  using revocation_sticks [OF sample_tokens_ok _ sample_bearer, of sample_token sample_hash 1 int sample_identity True
    "\<lambda>n. Inl (RuntimeError n)" "[RotateToken ''cli'' 300 ''new'' 1 1]"]
  by (simp add: sample_token_def sample_hash_def)

end
