(* ===== verification/Finalizer.thy ===== *)
theory Finalizer
  imports Profiles
begin

text \<open>
  \<open>panella/approval_finalizer.py\<close>: the durable write of an approved candidate.  The code takes a claim
  in one transaction, writes to the store with no transaction held, and records the result in another
  transaction; each of these is a function here, so that other operations can run between them, and
  \<open>finalize_approved_candidate\<close> is their uninterrupted composition.  The store is a record of the calls
  the code makes of its adapter, over a store state \<open>'s\<close>.  The clock readings are \<open>clk k\<close>.
\<close>

record 's store_ops =
  add_memory :: "string \<Rightarrow> string \<Rightarrow> string \<Rightarrow> dict \<Rightarrow> string option \<Rightarrow> 's \<Rightarrow> string res \<times> 's"
  find_marker :: "string \<Rightarrow> string \<Rightarrow> 's \<Rightarrow> string option res"
  store_delete :: "(string \<Rightarrow> string \<Rightarrow> 's \<Rightarrow> bool res \<times> 's) option"

record 's world =
  w_outbox :: outbox_db
  w_audit :: audit_db
  w_store :: 's

definition FINALIZER_PROFILE :: string where
  "FINALIZER_PROFILE = ''panella-finalizer''"

definition stale_cutoff :: "time \<Rightarrow> time" where
  "stale_cutoff now = now - seconds FINALIZER_STALE_TTL_SECONDS"

definition expected_approved_via :: "env \<Rightarrow> string" where
  "expected_approved_via v = transport_kind (appr v)"

subsection \<open>The durable payload\<close>

definition RESERVED_TAG_PREFIXES :: "string list" where
  "RESERVED_TAG_PREFIXES = [''wing:'', ''room:'', ''agent:'', ''mtype:'', ''tenant:'', ''status:'', ''approval_ref:'']"

definition MAX_CARRIED_TAGS :: nat where
  "MAX_CARRIED_TAGS = 15"

definition reserved_tag :: "string \<Rightarrow> bool" where
  "reserved_tag t \<longleftrightarrow> list_ex (\<lambda>p. startswith p t) RESERVED_TAG_PREFIXES"

fun strip_reserved_list :: "json list \<Rightarrow> string list" where
  "strip_reserved_list [] = []"
| "strip_reserved_list (JStr t # ts) =
     (let c = py_strip t in
      if c = [] \<or> c = ''permanent'' then strip_reserved_list ts
      else if reserved_tag c then strip_reserved_list ts
      else c # strip_reserved_list ts)"
| "strip_reserved_list (_ # ts) = strip_reserved_list ts"

definition strip_reserved_tags :: "json option \<Rightarrow> string list" where
  "strip_reserved_tags v = (case v of Some (JList ts) \<Rightarrow> strip_reserved_list ts | _ \<Rightarrow> [])"

definition CANONICAL_METADATA_KEYS :: "string list" where
  "CANONICAL_METADATA_KEYS =
     [''schema_version'', ''tenant_id'', ''subject_id'', ''actor_id'', ''principal_id'', ''migration_batch_id'',
      ''memory_type'', ''source_system'', ''source_id'', ''wing'', ''room'', ''created_at'', ''event_time'',
      ''privacy_scope'', ''readable_by'', ''links'', ''memory_id'', ''source_file'', ''chunk_index'',
      ''added_by'', ''filed_at'', ''content_sha256'', ''valid_from'', ''valid_to'', ''ingested_at'']"

record built =
  b_wing :: string
  b_room :: string
  b_content :: string
  b_metadata :: dict
  b_tenant :: string

definition carried_tags :: "dict \<Rightarrow> json option" where
  "carried_tags c =
     (case dget (cand_meta_of c) ''tags'' of Some (JList ts) \<Rightarrow> Some (JList ts) | _ \<Rightarrow> dget c ''tags'')"

definition reconstruct_durable_payload ::
  "env \<Rightarrow> string \<Rightarrow> string \<Rightarrow> int \<Rightarrow> string option \<Rightarrow> string option \<Rightarrow> time \<Rightarrow> built res" where
  "reconstruct_durable_payload v cand marker approval_id via proposer now =
     rbind (load_candidate cand) (\<lambda>c.
       let payload = build_approval_memory_payload v c approval_id (isoformat now);
           canonical = (case dget payload ''metadata'' of Some (JObj m) \<Rightarrow> m | _ \<Rightarrow> []);
           base = filter (\<lambda>(k, x). k \<in> set CANONICAL_METADATA_KEYS) canonical;
           tags = marker # take MAX_CARRIED_TAGS (strip_reserved_tags (carried_tags c));
           prov = [(''approval_queue_id'', JInt approval_id),
                   (''capture'', JStr (''approved-via-'' @ given_or via (expected_approved_via v)))] @
                  (case proposer of None \<Rightarrow> [] | Some p \<Rightarrow> [(''proposed_by_profile'', JStr p)]);
           metadata = dict_update base
             [(''tags'', JList (map JStr tags)), (''agent'', JStr FINALIZER_PROFILE),
              (''agent_profile'', JStr FINALIZER_PROFILE), (''author_agent_id'', opt_json proposer),
              (''source_bridge'', JNull), (''session_id'', JNull), (''infer'', JBool True),
              (''provenance'', JObj prov)]
       in Inr \<lparr>b_wing = py_str (get_or_null payload ''wing''), b_room = py_str (get_or_null payload ''room''),
               b_content = py_str (get_or_null payload ''content''), b_metadata = metadata,
               b_tenant = str_or (dget metadata ''tenant_id'') (default_tenant_id (ident v))\<rparr>)"

definition finalize_write ::
  "env \<Rightarrow> 's store_ops \<Rightarrow> agent_profile \<Rightarrow> built \<Rightarrow> string \<Rightarrow> 's \<Rightarrow> string res \<times> 's" where
  "finalize_write v ops profile b conv s =
     (if \<not> finalizer_only profile then (Inl (PermissionError ''finalize requires a finalizer_only profile''), s)
      else if enforce_write_allowlist profile \<and> b_wing b \<notin> set (write_wing_allowlist profile) then
        (Inl (PermissionError ''write_wing_allowlist denies''), s)
      else if enforce_write_allowlist profile \<and> (b_wing b @ ''/'' @ b_room b) \<notin> set (write_room_allowlist profile) then
        (Inl (PermissionError ''write_room_allowlist denies''), s)
      else if str_or (dget (b_metadata b) ''memory_type'') [] \<notin> set (memory_type_allowlist profile) then
        (Inl (ValueError ''memory_type not allowed''), s)
      else add_memory ops (b_wing b) (b_room b) (sanitize v (b_content b)) (b_metadata b) (Some conv) s)"

subsection \<open>The receipt gate\<close>

text \<open>\<open>str(exc)\<close>, where the code stores it\<close>

fun exc_text :: "exc \<Rightarrow> string" where
  "exc_text (ValueError m) = m"
| "exc_text (PermissionError m) = m"
| "exc_text (RuntimeError m) = m"
| "exc_text (TypeError m) = m"
| "exc_text (KeyError m) = repr_str m"
| "exc_text (AuditChainError m) = m"
| "exc_text (OperationalError m) = m"
| "exc_text (StoreError m) = m"
| "exc_text _ = []"

text \<open>A refusal with its reason, or the verified receipt row and its details.\<close>

datatype gate = Refused string | Accepted audit_row dict

definition receipt_gate_refusal :: "env \<Rightarrow> approval_row \<Rightarrow> audit_db \<Rightarrow> gate res" where
  "receipt_gate_refusal v row au =
     (case (audit_receipt_seq row, audit_receipt_hash row, candidate_sha256 row) of
        (Some n, Some h, Some sha) \<Rightarrow>
          if h = [] \<or> sha = [] then Inr (Refused ''missing audit receipt (unreceipted approval)'')
          else
            (case audit_verify_through (sha256_hex v) n au of
               Inl (AuditChainError m) \<Rightarrow> Inr (Refused (''receipt unverifiable: '' @ m))
             | Inl e \<Rightarrow> Inr (Refused (''receipt lookup failed: '' @ exc_text e))
             | Inr (r, dj) \<Rightarrow>
                 if this_hash r \<noteq> h then Inr (Refused ''receipt hash mismatch'')
                 else if op r \<notin> set [''approval_decision'', ''approval_decision_backfill''] then
                   Inr (Refused (''receipt op mismatch: '' @ repr_str (op r)))
                 else if (case target_id r of None \<Rightarrow> ''None'' | Some t \<Rightarrow> t) \<noteq> int_str (aq_id row) then
                   Inr (Refused ''receipt target mismatch'')
                 else
                   (case (if truthy dj then dj else JObj []) of
                      JObj d \<Rightarrow>
                        if get_or_null d ''decision'' \<noteq> JStr ''approve'' then Inr (Refused ''receipt decision mismatch'')
                        else if get_or_null d ''approved_by'' \<noteq> opt_json (approved_by row) \<or>
                                get_or_null d ''approved_via'' \<noteq> opt_json (approved_via row) then
                          Inr (Refused ''receipt provenance mismatch'')
                        else if tenant_accessed r \<noteq> default_tenant_id (ident v) then
                          Inr (Refused ''receipt tenant mismatch'')
                        else if get_or_null d ''candidate_sha256'' \<noteq> JStr sha then
                          Inr (Refused ''receipt fingerprint mismatch'')
                        else if candidate_fingerprint v (candidate_json row) \<noteq> sha then
                          Inr (Refused ''candidate bytes altered since approval'')
                        else Inr (Accepted r d)
                    | _ \<Rightarrow> Inl AttributeError))
      | _ \<Rightarrow> Inr (Refused ''missing audit receipt (unreceipted approval)''))"

subsection \<open>The claim\<close>

datatype claim = Skipped | Recorded "string option" | Claimed approval_row dict

definition mark_refused :: "int \<Rightarrow> string \<Rightarrow> outbox_db \<Rightarrow> outbox_db" where
  "mark_refused i msg db =
     db\<lparr>approvals := update_where (\<lambda>r. aq_id r = i \<and> finalizer_state r \<noteq> Some ''finalized'')
       (\<lambda>r. r\<lparr>finalizer_state := Some ''failed'', finalizer_last_error := Some msg\<rparr>) (approvals db)\<rparr>"

definition claimable :: "time \<Rightarrow> approval_row \<Rightarrow> bool" where
  "claimable now r \<longleftrightarrow> status r = ''approved'' \<and>
     (finalizer_state r \<in> set [None, Some ''none'', Some ''failed''] \<or>
      finalizer_state r = Some ''finalizing'' \<and>
        (case finalizer_claimed_at r of None \<Rightarrow> False | Some t \<Rightarrow> t < stale_cutoff now))"

definition live_claim :: "time \<Rightarrow> approval_row \<Rightarrow> bool" where
  "live_claim now r \<longleftrightarrow> finalizer_state r = Some ''finalizing'' \<and>
     (case finalizer_claimed_at r of None \<Rightarrow> False | Some t \<Rightarrow> stale_cutoff now \<le> t)"

definition claim_row :: "string \<Rightarrow> time \<Rightarrow> approval_row \<Rightarrow> approval_row" where
  "claim_row wid now r = r\<lparr>finalizer_state := Some ''finalizing'', finalizer_worker_id := Some wid,
     finalizer_claimed_at := Some now, finalizer_attempt_count := finalizer_attempt_count r + 1\<rparr>"

definition claim_candidate ::
  "env \<Rightarrow> string list \<Rightarrow> string \<Rightarrow> string \<Rightarrow> time \<Rightarrow> int \<Rightarrow> outbox_db \<Rightarrow> audit_db \<Rightarrow> claim res \<times> outbox_db" where
  "claim_candidate v approvers via wid now i db au =
     (case outbox_connect db of Inl e \<Rightarrow> (Inl e, db) | Inr _ \<Rightarrow>
      (case find_approval i db of
         None \<Rightarrow> (Inr Skipped, db)
       | Some row \<Rightarrow>
           if status row \<noteq> ''approved'' \<or> memory_event_id row = None then (Inr Skipped, db)
           else if approved_via row \<noteq> Some via \<or> approved_by row \<notin> set (map Some approvers) then
             (Inr Skipped, mark_refused i ''unauthorized or unprovenanced approval'' db)
           else if finalizer_state row = Some ''finalized'' then (Inr (Recorded (durable_memory_id row)), db)
           else if live_claim now row then (Inr Skipped, db)
           else
             (case receipt_gate_refusal v row au of
                Inl e \<Rightarrow> (Inl e, db)
              | Inr (Refused reason) \<Rightarrow>
                  (Inr Skipped, mark_refused i (take 500 (''audit receipt gate: '' @ reason)) db)
              | Inr (Accepted r d) \<Rightarrow>
                  if claimable now row
                  then (Inr (Claimed row d), set_approval i (claim_row wid now) db)
                  else (Inr Skipped, db))))"

definition still_owns_claim :: "int \<Rightarrow> string \<Rightarrow> outbox_db \<Rightarrow> bool res" where
  "still_owns_claim i wid db = rbind (outbox_connect db) (\<lambda>_.
     Inr (case find_approval i db of None \<Rightarrow> False
          | Some r \<Rightarrow> finalizer_state r = Some ''finalizing'' \<and> finalizer_worker_id r = Some wid))"

subsection \<open>Writing\<close>

definition some_text :: "string option \<Rightarrow> string option" where
  "some_text x = (case x of Some [] \<Rightarrow> None | _ \<Rightarrow> x)"

text \<open>
  The write and the recovery of the id: a semantic duplicate discloses the hash of the first writer, an
  exact duplicate does not and the unique marker finds it.
\<close>

definition write_or_recover ::
  "env \<Rightarrow> 's store_ops \<Rightarrow> agent_profile \<Rightarrow> built \<Rightarrow> int \<Rightarrow> 's \<Rightarrow> string option res \<times> 's" where
  "write_or_recover v ops profile b i s =
     (let (r, s') = finalize_write v ops profile b (''approval:'' @ int_str i) s;
          look = find_marker ops (approval_ref i) (b_tenant b) s';
          first = (case r of
              Inr h \<Rightarrow> Inr (Some h)
            | Inl (PanellaDedupSkipped eh) \<Rightarrow> (if some_text eh \<noteq> None then Inr eh else look)
            | Inl e \<Rightarrow> Inl e)
      in (rbind first (\<lambda>h. if some_text h \<noteq> None then Inr h else look), s'))"

definition fail_claim :: "int \<Rightarrow> string \<Rightarrow> string \<Rightarrow> outbox_db \<Rightarrow> unit res \<times> outbox_db" where
  "fail_claim i wid msg db =
     (case outbox_connect db of Inl e \<Rightarrow> (Inl e, db)
      | Inr _ \<Rightarrow> (Inr (), db\<lparr>approvals := update_where
          (\<lambda>r. aq_id r = i \<and> finalizer_worker_id r = Some wid \<and> finalizer_state r \<noteq> Some ''finalized'')
          (\<lambda>r. r\<lparr>finalizer_state := Some ''failed'', finalizer_last_error := Some (take 500 msg)\<rparr>) (approvals db)\<rparr>))"

subsection \<open>Recording\<close>

definition record_row :: "string \<Rightarrow> string \<Rightarrow> approval_row \<Rightarrow> approval_row" where
  "record_row wid h r = r\<lparr>finalizer_state := Some ''finalized'', durable_memory_id := Some h,
     finalizer_worker_id := Some wid, finalizer_last_error := None\<rparr>"

definition complete_event :: "int option \<Rightarrow> string \<Rightarrow> time \<Rightarrow> outbox_db \<Rightarrow> outbox_db" where
  "complete_event ev h now db =
     (case ev of None \<Rightarrow> db
      | Some e \<Rightarrow> db\<lparr>events := update_where (\<lambda>m. me_id m = e)
          (\<lambda>m. m\<lparr>me_status := ''completed'', completed_memory_id := Some h, processed_at := Some (isoformat now)\<rparr>)
          (events db)\<rparr>)"

definition record_final ::
  "int \<Rightarrow> string \<Rightarrow> string \<Rightarrow> int option \<Rightarrow> time \<Rightarrow> outbox_db \<Rightarrow> (string option \<times> bool) res \<times> outbox_db" where
  "record_final i wid h ev now db =
     (case outbox_connect db of Inl e \<Rightarrow> (Inl e, db) | Inr _ \<Rightarrow>
      (case find_approval i db of
         None \<Rightarrow> (Inr (None, False), db)
       | Some r \<Rightarrow>
           if finalizer_worker_id r = Some wid \<and> finalizer_state r \<noteq> Some ''finalized'' then
             (Inr (Some h, True), complete_event ev h now (set_approval i (record_row wid h) db))
           else if finalizer_state r = Some ''rtbf_deleting'' then (Inr (None, False), db)
           else if finalizer_state r = Some ''finalized'' \<and> some_text (durable_memory_id r) \<noteq> None then
             (Inr (durable_memory_id r, False), db)
           else
             (Inr (Some h, True),
              complete_event (memory_event_id r) h now (set_approval i (record_row wid h) db))))"

definition orphan_history :: "env \<Rightarrow> principal \<Rightarrow> string \<Rightarrow> string \<Rightarrow> time \<Rightarrow> history_row" where
  "orphan_history v p h reason now =
     (history_entry now ''orphan_cleanup_pending'' h
        (if tenant_id p = [] then default_tenant_id (ident v) else tenant_id p) (Some (pr_id p)))
     \<lparr>mh_reason := Some (take 500 reason)\<rparr>"

definition cleanup_orphaned_durable ::
  "env \<Rightarrow> 's store_ops \<Rightarrow> principal \<Rightarrow> string \<Rightarrow> time \<Rightarrow> 's world \<Rightarrow> bool \<times> 's world" where
  "cleanup_orphaned_durable v ops p h now w =
     (case store_delete ops of
        None \<Rightarrow> (False, w\<lparr>w_outbox := append_history
          (orphan_history v p h ''adapter does not support hard_delete'' now) (w_outbox w)\<rparr>)
      | Some del \<Rightarrow>
          (case del h ''approval purged during finalize (RTBF); removing orphan'' (w_store w) of
             (Inr _, s') \<Rightarrow> (True, w\<lparr>w_store := s'\<rparr>)
           | (Inl e, s') \<Rightarrow> (False, w\<lparr>w_store := s', w_outbox := append_history
               (orphan_history v p h (''cleanup delete failed: '' @ exc_text e) now) (w_outbox w)\<rparr>)))"

definition outcome_entry :: "principal \<Rightarrow> built \<Rightarrow> string \<Rightarrow> approval_row \<Rightarrow> time \<Rightarrow> audit_entry" where
  "outcome_entry p b d row now =
     \<lparr>e_ts = isoformat now, e_principal = pr_id p, e_tenant = b_tenant b, e_op = ''approval_finalized'',
      e_target = Some d, e_reason = None,
      e_details = [(''approval_id'', JInt (aq_id row)), (''durable_id'', JStr d),
        (''approved_by'', opt_json (approved_by row)), (''approved_via'', opt_json (approved_via row)),
        (''receipt_seq'', JInt (case audit_receipt_seq row of None \<Rightarrow> 0 | Some n \<Rightarrow> n))]\<rparr>"

subsection \<open>One finalization\<close>

definition failing ::
  "int \<Rightarrow> string \<Rightarrow> string \<Rightarrow> 's world \<Rightarrow> string option res \<times> 's world" where
  "failing i wid msg w =
     (case fail_claim i wid msg (w_outbox w) of
        (Inl e, db) \<Rightarrow> (Inl e, w\<lparr>w_outbox := db\<rparr>) | (Inr _, db) \<Rightarrow> (Inr None, w\<lparr>w_outbox := db\<rparr>))"

definition record_outcome ::
  "env \<Rightarrow> principal \<Rightarrow> built \<Rightarrow> string \<Rightarrow> approval_row \<Rightarrow> time \<Rightarrow> 's world \<Rightarrow> 's world" where
  "record_outcome v p b d row now w =
     (let h = (history_entry now ''finalized_active'' d (tenant_id p) (Some (pr_id p)))
              \<lparr>mh_wing := Some (b_wing b), mh_room := Some (b_room b)\<rparr>;
          w1 = w\<lparr>w_outbox := append_history h (w_outbox w)\<rparr>
      in case audit_write (sha256_hex v) (outcome_entry p b d row now) (w_audit w1) of
           Inl _ \<Rightarrow> w1 | Inr (_, au) \<Rightarrow> w1\<lparr>w_audit := au\<rparr>)"

text \<open>Phase 3, once the write has a durable id \<open>h\<close>.\<close>

definition record_phase ::
  "env \<Rightarrow> 's store_ops \<Rightarrow> principal \<Rightarrow> built \<Rightarrow> string \<Rightarrow> string \<Rightarrow> approval_row \<Rightarrow> time \<Rightarrow> 's world \<Rightarrow>
   string option res \<times> 's world" where
  "record_phase v ops p b wid h row now w =
     (case record_final (aq_id row) wid h (memory_event_id row) now (w_outbox w) of
        (Inl e, db) \<Rightarrow> (Inl e, w\<lparr>w_outbox := db\<rparr>)
      | (Inr (did, here), db) \<Rightarrow>
          (let w1 = w\<lparr>w_outbox := db\<rparr> in
           if \<not> here \<and> did = None then (Inr None, snd (cleanup_orphaned_durable v ops p h now w1))
           else if here \<and> some_text did \<noteq> None then (Inr did, record_outcome v p b (the did) row now w1)
           else (Inr did, w1)))"

text \<open>Phase 2 and 3, after the claim; \<open>prof\<close> is the loaded finalizer profile.\<close>

definition finish_claimed ::
  "env \<Rightarrow> 's store_ops res \<Rightarrow> agent_profile res \<Rightarrow> string \<Rightarrow> string \<Rightarrow> (nat \<Rightarrow> time) \<Rightarrow> approval_row \<Rightarrow> dict \<Rightarrow> 's world \<Rightarrow>
   string option res \<times> 's world" where
  "finish_claimed v factory prof via wid clk row d w =
     (let i = aq_id row; bad = (\<lambda>e. failing i wid (''durable write failed: '' @ exc_text e)) in
      case prof of Inl e \<Rightarrow> (Inl e, w) | Inr profile \<Rightarrow>
      (case principal_default_for_profile (ident v) (prof_name profile) (tenant_scope profile) of
         Inl e \<Rightarrow> (Inl e, w) | Inr p \<Rightarrow>
      (case reconstruct_durable_payload v (candidate_json row) (approval_ref i) i (Some via)
              (proposed_by_profile (dget d ''proposed_by_profile'')) (clk 1) of
         Inl e \<Rightarrow> bad e w | Inr b \<Rightarrow>
      (case factory of Inl e \<Rightarrow> bad e w | Inr ops \<Rightarrow>
      (case still_owns_claim i wid (w_outbox w) of
         Inl e \<Rightarrow> bad e w
       | Inr False \<Rightarrow> (Inr None, w)
       | Inr True \<Rightarrow>
           (case write_or_recover v ops profile b i (w_store w) of
              (Inl e, s') \<Rightarrow> bad e (w\<lparr>w_store := s'\<rparr>)
            | (Inr h, s') \<Rightarrow>
                (case some_text h of
                   None \<Rightarrow> failing i wid ''durable id unrecoverable (exact-dup, no marker match)'' (w\<lparr>w_store := s'\<rparr>)
                 | Some t \<Rightarrow> record_phase v ops p b wid t row (clk 2) (w\<lparr>w_store := s'\<rparr>))))))))"

definition finalize_approved_candidate ::
  "env \<Rightarrow> string list \<Rightarrow> 's store_ops res \<Rightarrow> agent_profile res \<Rightarrow> string option \<Rightarrow> string \<Rightarrow> (nat \<Rightarrow> time) \<Rightarrow> int \<Rightarrow>
   's world \<Rightarrow> string option res \<times> 's world" where
  "finalize_approved_candidate v approvers factory prof expected wid clk i w =
     (let via = given_or expected (expected_approved_via v) in
      if approvers = [] \<or> via = [] then (Inr None, w)
      else
        (case claim_candidate v approvers via wid (clk 0) i (w_outbox w) (w_audit w) of
           (Inl e, db) \<Rightarrow> (Inl e, w\<lparr>w_outbox := db\<rparr>)
         | (Inr Skipped, db) \<Rightarrow> (Inr None, w\<lparr>w_outbox := db\<rparr>)
         | (Inr (Recorded d), db) \<Rightarrow> (Inr d, w\<lparr>w_outbox := db\<rparr>)
         | (Inr (Claimed row d), db) \<Rightarrow> finish_claimed v factory prof via wid clk row d (w\<lparr>w_outbox := db\<rparr>)))"

subsection \<open>The sweep\<close>

definition redrivable :: "string list \<Rightarrow> string \<Rightarrow> time \<Rightarrow> approval_row \<Rightarrow> bool" where
  "redrivable approvers via now r \<longleftrightarrow> claimable now r \<and> memory_event_id r \<noteq> None \<and>
     approved_via r = Some via \<and> approved_by r \<in> set (map Some approvers)"

text \<open>The clock advances from one candidate to the next: \<open>clk k n\<close> is the \<open>n\<close>-th reading in the \<open>k\<close>-th.\<close>

fun redrive_all ::
  "env \<Rightarrow> string list \<Rightarrow> 's store_ops res \<Rightarrow> agent_profile res \<Rightarrow> string \<Rightarrow> string \<Rightarrow> (nat \<Rightarrow> nat \<Rightarrow> time) \<Rightarrow> int list \<Rightarrow>
   's world \<Rightarrow> nat \<times> 's world" where
  "redrive_all v approvers factory prof via wid clk [] w = (0, w)"
| "redrive_all v approvers factory prof via wid clk (i # is) w =
     (let (r, w1) = finalize_approved_candidate v approvers factory prof (Some via) wid (clk (length is)) i w;
          (n, w2) = redrive_all v approvers factory prof via wid clk is w1
      in ((case r of Inr (Some d) \<Rightarrow> if d = [] then n else n + 1 | _ \<Rightarrow> n), w2))"

definition redrive_pending_finalizations ::
  "env \<Rightarrow> string list \<Rightarrow> 's store_ops res \<Rightarrow> agent_profile res \<Rightarrow> string option \<Rightarrow> string \<Rightarrow> time \<Rightarrow> (nat \<Rightarrow> nat \<Rightarrow> time) \<Rightarrow>
   's world \<Rightarrow> nat res \<times> 's world" where
  "redrive_pending_finalizations v approvers factory prof expected wid now clk w =
     (let via = given_or expected (expected_approved_via v) in
      if approvers = [] \<or> via = [] then (Inr 0, w)
      else
        (case outbox_connect (w_outbox w) of Inl e \<Rightarrow> (Inl e, w)
         | Inr _ \<Rightarrow>
             (let ids = sort_key id (map aq_id (filter (redrivable approvers via now) (approvals (w_outbox w))));
                  (n, w') = redrive_all v approvers factory prof via wid clk ids w
              in (Inr n, w'))))"

subsection \<open>What the gate accepts\<close>

text \<open>A receipt that attests the approval of exactly this row.\<close>

definition attests :: "env \<Rightarrow> approval_row \<Rightarrow> audit_db \<Rightarrow> audit_row \<Rightarrow> dict \<Rightarrow> bool" where
  "attests v row au r d \<longleftrightarrow>
     (\<exists>n. audit_receipt_seq row = Some n \<and>
        (\<exists>dj. audit_verify_through (sha256_hex v) n au = Inr (r, dj) \<and> (if truthy dj then dj else JObj []) = JObj d)) \<and>
     audit_receipt_hash row = Some (this_hash r) \<and>
     op r \<in> {''approval_decision'', ''approval_decision_backfill''} \<and>
     (target_id r = Some (int_str (aq_id row))) \<and>
     get_or_null d ''decision'' = JStr ''approve'' \<and>
     get_or_null d ''approved_by'' = opt_json (approved_by row) \<and>
     get_or_null d ''approved_via'' = opt_json (approved_via row) \<and>
     tenant_accessed r = default_tenant_id (ident v) \<and>
     get_or_null d ''candidate_sha256'' = JStr (candidate_fingerprint v (candidate_json row)) \<and>
     candidate_sha256 row = Some (candidate_fingerprint v (candidate_json row))"

lemma int_str_not_None: "int_str i \<noteq> ''None''"
proof -
  have "nat_str n \<noteq> ''None''" for n
    using nat_str_hd [of n] by (auto simp: is_digit_def)
  then show ?thesis by (auto simp: int_str_def)
qed

lemma gate_accepts:
  assumes "receipt_gate_refusal v row au = Inr (Accepted r d)"
  shows "attests v row au r d"
proof -
  obtain n h sha where c: "audit_receipt_seq row = Some n" "audit_receipt_hash row = Some h" "candidate_sha256 row = Some sha"
    using assms by (auto simp: receipt_gate_refusal_def split: option.splits)
  obtain r' dj where t: "audit_verify_through (sha256_hex v) n au = Inr (r', dj)"
    using assms c by (auto simp: receipt_gate_refusal_def split: sum.splits exc.splits if_splits)
  obtain d' where dj: "(if truthy dj then dj else JObj []) = JObj d'"
    using assms c t by (auto simp: receipt_gate_refusal_def split: json.splits if_splits)
  show ?thesis
    using assms c t dj int_str_not_None [of "aq_id row"]
    by (auto simp: receipt_gate_refusal_def attests_def split: if_splits option.splits)
qed

lemma attests_gate:
  assumes "attests v row au r d" and "this_hash r \<noteq> []" and "candidate_fingerprint v (candidate_json row) \<noteq> []"
  shows "receipt_gate_refusal v row au = Inr (Accepted r d)"
proof -
  obtain n dj where t: "audit_receipt_seq row = Some n" "audit_verify_through (sha256_hex v) n au = Inr (r, dj)"
      "(if truthy dj then dj else JObj []) = JObj d"
    using assms(1) by (auto simp: attests_def)
  show ?thesis
    using assms t unfolding receipt_gate_refusal_def attests_def by auto
qed

lemma claim_cases:
  assumes "claim_candidate v approvers via wid now i db au = (Inr (Claimed row d), db')"
  shows "find_approval i db = Some row \<and> status row = ''approved'' \<and> memory_event_id row \<noteq> None \<and>
    approved_via row = Some via \<and> approved_by row \<in> set (map Some approvers) \<and>
    (\<exists>r. attests v row au r d) \<and> claimable now row \<and> db' = set_approval i (claim_row wid now) db"
  using assms gate_accepts [of v row au]
  unfolding claim_candidate_def
  by (auto split: sum.splits option.splits if_splits gate.splits)

subsection \<open>The payload\<close>

lemma strip_reserved_list_clean:
  "t \<in> set (strip_reserved_list ts) \<Longrightarrow> \<not> reserved_tag t \<and> t \<noteq> [] \<and> t \<noteq> ''permanent'' \<and> (\<exists>u. t = py_strip u)"
  by (induction ts rule: strip_reserved_list.induct) (auto simp: Let_def split: if_splits)

lemma strip_reserved_tags_clean:
  "t \<in> set (strip_reserved_tags v) \<Longrightarrow> \<not> reserved_tag t \<and> t \<noteq> [] \<and> t \<noteq> ''permanent''"
  using strip_reserved_list_clean by (auto simp: strip_reserved_tags_def split: option.splits json.splits)

lemma approval_ref_reserved: "reserved_tag (approval_ref i)"
  by (simp add: reserved_tag_def RESERVED_TAG_PREFIXES_def approval_ref_def)

definition pinned_keys :: "string list" where
  "pinned_keys = [''tags'', ''agent'', ''agent_profile'', ''author_agent_id'', ''source_bridge'', ''session_id'', ''infer'', ''provenance'']"

definition pinned :: "env \<Rightarrow> dict \<Rightarrow> string \<Rightarrow> int \<Rightarrow> string option \<Rightarrow> string option \<Rightarrow> dict" where
  "pinned v c marker i via proposer =
     [(''tags'', JList (map JStr (marker # take MAX_CARRIED_TAGS (strip_reserved_tags (carried_tags c))))),
      (''agent'', JStr FINALIZER_PROFILE), (''agent_profile'', JStr FINALIZER_PROFILE),
      (''author_agent_id'', opt_json proposer), (''source_bridge'', JNull), (''session_id'', JNull),
      (''infer'', JBool True),
      (''provenance'', JObj ([(''approval_queue_id'', JInt i),
          (''capture'', JStr (''approved-via-'' @ given_or via (expected_approved_via v)))] @
         (case proposer of None \<Rightarrow> [] | Some p \<Rightarrow> [(''proposed_by_profile'', JStr p)])))]"

definition base_metadata :: "env \<Rightarrow> dict \<Rightarrow> int \<Rightarrow> time \<Rightarrow> dict" where
  "base_metadata v c i now = filter (\<lambda>(k, x). k \<in> set CANONICAL_METADATA_KEYS)
     (case dget (build_approval_memory_payload v c i (isoformat now)) ''metadata'' of Some (JObj m) \<Rightarrow> m | _ \<Rightarrow> [])"

lemma reconstruct_eq:
  "reconstruct_durable_payload v cand marker i via proposer now = Inr b \<longleftrightarrow>
   (\<exists>c. load_candidate cand = Inr c \<and>
      b = \<lparr>b_wing = py_str (get_or_null (build_approval_memory_payload v c i (isoformat now)) ''wing''),
           b_room = py_str (get_or_null (build_approval_memory_payload v c i (isoformat now)) ''room''),
           b_content = py_str (get_or_null (build_approval_memory_payload v c i (isoformat now)) ''content''),
           b_metadata = dict_update (base_metadata v c i now) (pinned v c marker i via proposer),
           b_tenant = str_or (dget (dict_update (base_metadata v c i now) (pinned v c marker i via proposer)) ''tenant_id'')
             (default_tenant_id (ident v))\<rparr>)"
  by (auto simp: reconstruct_durable_payload_def rbind_Inr_iff Let_def base_metadata_def pinned_def)

lemma payload_parts:
  "get_or_null (build_approval_memory_payload v c i t) ''wing'' = JStr (payload_wing v c)"
  "get_or_null (build_approval_memory_payload v c i t) ''room'' = JStr (payload_room c)"
  "get_or_null (build_approval_memory_payload v c i t) ''content'' = JStr (approval_memory_content v c (payload_room c))"
  by (simp_all add: build_approval_memory_payload_def get_or_null_def Let_def)

lemma payload_wing_owner: "payload_wing v c = owner_wing (ident v)"
  by (simp add: payload_wing_def Let_def)

lemma payload_room_cases: "payload_room c = ''feedback'' \<or> payload_room c = ''preferences''"
  by (auto simp: payload_room_def Let_def)

lemma pinned_fst: "map fst (pinned v c m i via p) = pinned_keys"
  by (simp add: pinned_def pinned_keys_def)

lemma pinned_distinct: "distinct (map fst (pinned v c m i via p))"
  by (simp add: pinned_def)

lemma dget_built:
  "dget (dict_update base (pinned v c m i via p)) k =
     (case dget (pinned v c m i via p) k of None \<Rightarrow> dget base k | Some x \<Rightarrow> Some x)"
  by (rule dget_dict_update [OF pinned_distinct])

lemma base_tenant: "dget (base_metadata v c i now) ''tenant_id'' = Some (JStr (default_tenant_id (ident v)))"
  by (simp add: base_metadata_def build_approval_memory_payload_def Let_def CANONICAL_METADATA_KEYS_def)

lemma base_memory_type: "dget (base_metadata v c i now) ''memory_type'' =
    Some (JStr (owner_slug (ident v) @ (if payload_room c = ''feedback'' then ''_feedback'' else ''_preference'')))"
  by (simp add: base_metadata_def build_approval_memory_payload_def Let_def CANONICAL_METADATA_KEYS_def)

lemma base_keys: "k \<in> dom (dget (base_metadata v c i now)) \<Longrightarrow> k \<in> set CANONICAL_METADATA_KEYS"
  by (auto simp: base_metadata_def dest!: map_of_SomeD)

lemma payload_control:
  assumes "reconstruct_durable_payload v cand marker i via proposer now = Inr b"
  shows "b_wing b = owner_wing (ident v) \<and> b_room b \<in> {''feedback'', ''preferences''} \<and>
    b_tenant b = default_tenant_id (ident v) \<and>
    (\<exists>carried. dget (b_metadata b) ''tags'' = Some (JList (map JStr (marker # carried))) \<and> length carried \<le> 15 \<and>
       (\<forall>t\<in>set carried. \<not> reserved_tag t \<and> t \<noteq> ''permanent'')) \<and>
    dget (b_metadata b) ''agent'' = Some (JStr FINALIZER_PROFILE) \<and>
    dget (b_metadata b) ''author_agent_id'' = Some (opt_json proposer) \<and>
    dget (b_metadata b) ''source_bridge'' = Some JNull \<and> dget (b_metadata b) ''session_id'' = Some JNull \<and>
    (\<forall>k. dget (b_metadata b) k \<noteq> None \<longrightarrow> k \<in> set (CANONICAL_METADATA_KEYS @ pinned_keys))"
proof -
  obtain c where c: "load_candidate cand = Inr c"
    and b: "b_wing b = owner_wing (ident v)" "b_room b = payload_room c"
      "b_metadata b = dict_update (base_metadata v c i now) (pinned v c marker i via proposer)"
      "b_tenant b = str_or (dget (b_metadata b) ''tenant_id'') (default_tenant_id (ident v))"
    using assms unfolding reconstruct_eq by (auto simp: payload_parts payload_wing_owner py_str_def)
  note g = dget_built [of "base_metadata v c i now" v c marker i via proposer, folded b(3)]
  have "b_tenant b = default_tenant_id (ident v)"
    unfolding b(4) g by (simp add: pinned_def base_tenant)
  moreover have "k \<in> set (CANONICAL_METADATA_KEYS @ pinned_keys)" if "dget (b_metadata b) k \<noteq> None" for k
  proof (cases "dget (pinned v c marker i via proposer) k")
    case None
    with that have "k \<in> dom (dget (base_metadata v c i now))" by (simp add: g domIff)
    then show ?thesis using base_keys by simp
  next
    case (Some x)
    then have "k \<in> set (map fst (pinned v c marker i via proposer))" by (force dest: map_of_SomeD)
    then show ?thesis unfolding pinned_fst set_append by (rule UnI2)
  qed
  moreover have "\<exists>carried. dget (b_metadata b) ''tags'' = Some (JList (map JStr (marker # carried))) \<and> length carried \<le> 15 \<and>
       (\<forall>t\<in>set carried. \<not> reserved_tag t \<and> t \<noteq> ''permanent'')"
  proof (intro exI conjI ballI)
    show "dget (b_metadata b) ''tags'' = Some (JList (map JStr (marker # take MAX_CARRIED_TAGS (strip_reserved_tags (carried_tags c)))))"
      unfolding g by (simp add: pinned_def)
    show "length (take MAX_CARRIED_TAGS (strip_reserved_tags (carried_tags c))) \<le> 15"
      by (simp add: MAX_CARRIED_TAGS_def)
    fix t assume "t \<in> set (take MAX_CARRIED_TAGS (strip_reserved_tags (carried_tags c)))"
    then have "t \<in> set (strip_reserved_tags (carried_tags c))" by (rule in_set_takeD)
    then show "\<not> reserved_tag t" "t \<noteq> ''permanent''" using strip_reserved_tags_clean by blast+
  qed
  moreover have "dget (b_metadata b) ''agent'' = Some (JStr FINALIZER_PROFILE)"
    "dget (b_metadata b) ''author_agent_id'' = Some (opt_json proposer)"
    "dget (b_metadata b) ''source_bridge'' = Some JNull" "dget (b_metadata b) ''session_id'' = Some JNull"
    unfolding g by (simp_all add: pinned_def)
  moreover have "b_room b \<in> {''feedback'', ''preferences''}" using b(2) payload_room_cases [of c] by simp
  ultimately show ?thesis using b(1) by blast
qed



subsection \<open>The finalizer's updates keep the queue\<close>

lemma row_ok_finalizer:
  assumes "row_ok v r" and "s \<in> set finalizer_states" and "s \<in> {Some ''finalizing'', Some ''finalized''} \<Longrightarrow> status r = ''approved''"
    and "s = Some ''finalized'' \<Longrightarrow> d \<notin> {None, Some []}"
  shows "row_ok v (r\<lparr>finalizer_state := s, finalizer_worker_id := w, finalizer_claimed_at := c,
    finalizer_attempt_count := n, durable_memory_id := d, finalizer_last_error := e\<rparr>)"
  using assms unfolding row_ok_def by (elim conjE, intro conjI impI) simp_all

lemma finalizer_known: "Some ''failed'' \<in> set finalizer_states" "Some ''finalizing'' \<in> set finalizer_states"
  "Some ''finalized'' \<in> set finalizer_states" "Some ''rtbf_deleting'' \<in> set finalizer_states"
  by (simp_all add: finalizer_states_def)

interpretation failed_upd: row_update v "\<lambda>r. aq_id r = i \<and> P r \<and> finalizer_state r \<noteq> Some ''finalized''"
    "\<lambda>r. r\<lparr>finalizer_state := Some ''failed'', finalizer_last_error := Some msg\<rparr>"
  for v i P msg
proof
  fix r assume "row_ok v r"
  note k = row_ok_finalizer [OF this finalizer_known(1), where w = "finalizer_worker_id r" and c = "finalizer_claimed_at r"
      and n = "finalizer_attempt_count r" and d = "durable_memory_id r" and e = "Some msg"]
  have e: "r\<lparr>finalizer_state := Some ''failed'', finalizer_last_error := Some msg\<rparr> =
      r\<lparr>finalizer_state := Some ''failed'', finalizer_worker_id := finalizer_worker_id r, finalizer_claimed_at := finalizer_claimed_at r,
        finalizer_attempt_count := finalizer_attempt_count r, durable_memory_id := durable_memory_id r, finalizer_last_error := Some msg\<rparr>"
    by simp
  show "row_ok v (r\<lparr>finalizer_state := Some ''failed'', finalizer_last_error := Some msg\<rparr>)"
    unfolding e by (rule k) simp_all
  show "row_step r (r\<lparr>finalizer_state := Some ''failed'', finalizer_last_error := Some msg\<rparr>)"
    by (simp add: row_step_def)
qed

interpretation claim_upd: row_update v "\<lambda>r. aq_id r = i \<and> status r = ''approved''" "claim_row wid now"
  for v i wid now
proof
  fix r assume r: "row_ok v r" and g: "aq_id r = i \<and> status r = ''approved''"
  have e: "claim_row wid now r =
      r\<lparr>finalizer_state := Some ''finalizing'', finalizer_worker_id := Some wid, finalizer_claimed_at := Some now,
        finalizer_attempt_count := finalizer_attempt_count r + 1, durable_memory_id := durable_memory_id r,
        finalizer_last_error := finalizer_last_error r\<rparr>"
    by (simp add: claim_row_def)
  show "row_ok v (claim_row wid now r)"
    unfolding e by (rule row_ok_finalizer [OF r finalizer_known(2)]) (simp_all add: g)
  show "row_step r (claim_row wid now r)"
    by (simp add: row_step_def claim_row_def)
qed

interpretation record_upd: row_update v "\<lambda>r. aq_id r = i \<and> status r = ''approved'' \<and> h \<noteq> []" "record_row wid h"
  for v i wid h
proof
  fix r assume r: "row_ok v r" and g: "aq_id r = i \<and> status r = ''approved'' \<and> h \<noteq> []"
  have e: "record_row wid h r =
      r\<lparr>finalizer_state := Some ''finalized'', finalizer_worker_id := Some wid, finalizer_claimed_at := finalizer_claimed_at r,
        finalizer_attempt_count := finalizer_attempt_count r, durable_memory_id := Some h, finalizer_last_error := None\<rparr>"
    by (simp add: record_row_def)
  show "row_ok v (record_row wid h r)"
    unfolding e by (rule row_ok_finalizer [OF r finalizer_known(3)]) (simp_all add: g)
  show "row_step r (record_row wid h r)"
    by (simp add: row_step_def record_row_def)
qed

lemma mark_refused_keeps: "keeps_queue v db (mark_refused i msg db)"
  using failed_upd.keeps_update [of v db i "\<lambda>_. True" msg] by (simp add: mark_refused_def)

lemma fail_claim_keeps: "keeps_queue v db (snd (fail_claim i wid msg db))"
  using failed_upd.keeps_update [of v db i "\<lambda>r. finalizer_worker_id r = Some wid" "take 500 msg"]
  by (auto simp: fail_claim_def split: sum.splits)

lemma claim_keeps: "keeps_queue v db (snd (claim_candidate v ap via wid now i db au))"
proof (cases "claim_candidate v ap via wid now i db au")
  case (Pair r db')
  show ?thesis
  proof (cases "\<exists>row d. r = Inr (Claimed row d)")
    case True
    then obtain row d where r: "r = Inr (Claimed row d)" by blast
    from claim_cases [OF Pair [unfolded r]]
    have f: "find_approval i db = Some row" "status row = ''approved''" "db' = set_approval i (claim_row wid now) db"
      by blast+
    show ?thesis
      unfolding keeps_queue_def Pair snd_conv
    proof
      assume ok: "outbox_ok v db"
      have "db' = db\<lparr>approvals := update_where (\<lambda>r. aq_id r = i \<and> status r = ''approved'') (claim_row wid now) (approvals db)\<rparr>"
        unfolding f(3) by (rule set_approval_guarded [OF ok f(1)]) (rule f(2))
      then show "outbox_ok v db' \<and> evolves db db'" using claim_upd.update_ok [OF ok] by simp
    qed
  next
    case False
    then have "db' = db \<or> (\<exists>msg. db' = mark_refused i msg db)"
      using Pair unfolding claim_candidate_def
      by (auto split: sum.splits option.splits if_splits gate.splits)
    then show ?thesis using Pair mark_refused_keeps by auto
  qed
qed

lemma complete_event_keeps:
  assumes "outbox_ok v db"
  shows "outbox_ok v (complete_event ev h now db) \<and> evolves db (complete_event ev h now db)"
proof (cases ev)
  case (Some e)
  let ?f = "\<lambda>m. m\<lparr>me_status := ''completed'', completed_memory_id := Some h, processed_at := Some (isoformat now)\<rparr>"
  have "map me_id (update_where (\<lambda>m. me_id m = e) ?f (events db)) = map me_id (events db)"
    by (rule map_update_where) simp
  moreover have "\<forall>m\<in>set (update_where (\<lambda>m. me_id m = e) ?f (events db)). me_id m < next_event db"
    using assms by (auto simp: outbox_ok_def set_update_where)
  ultimately show ?thesis
    using assms Some by (simp add: outbox_ok_def complete_event_def evolves_same)
qed (use assms in \<open>simp add: complete_event_def\<close>)

lemma record_final_keeps:
  assumes ok: "outbox_ok v db" and ap: "\<And>r. find_approval i db = Some r \<Longrightarrow> status r = ''approved''" and h: "h \<noteq> []"
  shows "outbox_ok v (snd (record_final i wid h ev now db)) \<and> evolves db (snd (record_final i wid h ev now db))"
proof -
  have "snd (record_final i wid h ev now db) = db \<or>
      (\<exists>r e. find_approval i db = Some r \<and> snd (record_final i wid h ev now db) = complete_event e h now (set_approval i (record_row wid h) db))"
    by (auto simp: record_final_def split: sum.splits option.splits)
  then show ?thesis
  proof (elim disjE exE conjE)
    fix r e
    assume f: "find_approval i db = Some r"
      and e: "snd (record_final i wid h ev now db) = complete_event e h now (set_approval i (record_row wid h) db)"
    have "set_approval i (record_row wid h) db =
        db\<lparr>approvals := update_where (\<lambda>r. aq_id r = i \<and> status r = ''approved'' \<and> h \<noteq> []) (record_row wid h) (approvals db)\<rparr>"
      using ap [OF f] h by (intro set_approval_guarded [OF ok f]) simp
    then have "outbox_ok v (set_approval i (record_row wid h) db)" "evolves db (set_approval i (record_row wid h) db)"
      using record_upd.update_ok [OF ok] by simp_all
    then show ?thesis using complete_event_keeps evolves_trans e by metis
  qed (use ok in simp)
qed

subsection \<open>Uninterrupted finalization\<close>

lemma claim_row_simps [simp]:
  "aq_id (claim_row wid now r) = aq_id r" "status (claim_row wid now r) = status r"
  "finalizer_state (claim_row wid now r) = Some ''finalizing''" "finalizer_worker_id (claim_row wid now r) = Some wid"
  "memory_event_id (claim_row wid now r) = memory_event_id r" "finalizer_claimed_at (claim_row wid now r) = Some now"
  "candidate_json (claim_row wid now r) = candidate_json r"
  by (simp_all add: claim_row_def)

lemma record_row_simps [simp]:
  "aq_id (record_row wid h r) = aq_id r" "finalizer_state (record_row wid h r) = Some ''finalized''"
  "durable_memory_id (record_row wid h r) = Some h" "candidate_json (record_row wid h r) = candidate_json r"
  "status (record_row wid h r) = status r" "memory_event_id (record_row wid h r) = memory_event_id r"
  by (simp_all add: record_row_def)

lemma outbox_up_simps [simp]:
  "outbox_up (set_approval i f db) = outbox_up db" "outbox_up (complete_event ev h now db) = outbox_up db"
  "outbox_up (append_history m db) = outbox_up db"
  "approvals (complete_event ev h now db) = approvals db" "approvals (append_history m db) = approvals db"
  by (simp_all add: set_approval_def complete_event_def append_history_def split: option.splits)

lemma find_approval_same [simp]:
  "find_approval i (complete_event ev h now db) = find_approval i db"
  "find_approval i (append_history m db) = find_approval i db"
  by (simp_all add: find_approval_def)

lemma after_claim:
  assumes "claim_candidate v ap via wid now i db au = (Inr (Claimed row d), db')"
  shows "find_approval i db' = Some (claim_row wid now row) \<and> outbox_up db' \<and> aq_id row = i"
proof -
  have c: "find_approval i db = Some row" "db' = set_approval i (claim_row wid now) db"
    using claim_cases [OF assms] by blast+
  have "find_approval i db' = Some (claim_row wid now row)"
    unfolding c(2) by (subst find_set_approval) (simp_all add: c(1))
  moreover have "outbox_up db"
    using assms by (auto simp: claim_candidate_def outbox_connect_def split: if_splits)
  ultimately show ?thesis using c by (auto simp: find_approval_def dest: find_row_SomeD)
qed

lemma record_own:
  assumes "find_approval i db = Some r" and "finalizer_worker_id r = Some wid" and "finalizer_state r \<noteq> Some ''finalized''"
    and "outbox_up db"
  shows "record_final i wid h ev now db = (Inr (Some h, True), complete_event ev h now (set_approval i (record_row wid h) db))"
  using assms by (simp add: record_final_def outbox_connect_def)

lemma record_phase_own:
  assumes "find_approval (aq_id row) (w_outbox w) = Some r" and "finalizer_worker_id r = Some wid"
    and "finalizer_state r \<noteq> Some ''finalized''" and "outbox_up (w_outbox w)" and "h \<noteq> []"
  shows "record_phase v ops p b wid h row now w =
    (Inr (Some h), record_outcome v p b h row now
       (w\<lparr>w_outbox := complete_event (memory_event_id row) h now (set_approval (aq_id row) (record_row wid h) (w_outbox w))\<rparr>))"
  using assms by (simp add: record_phase_def record_own [OF assms(1-4)] some_text_def split: list.splits option.splits)

lemma record_outcome_world:
  "w_store (record_outcome v p b h row now w) = w_store w"
  "find_approval i (w_outbox (record_outcome v p b h row now w)) = find_approval i (w_outbox w)"
  "events (w_outbox (record_outcome v p b h row now w)) = events (w_outbox w)"
  by (auto simp: record_outcome_def Let_def append_history_def find_approval_def split: sum.splits)

lemma failing_store: "w_store (snd (failing i wid m w)) = w_store w" "fst (failing i wid m w) \<noteq> Inr (Some x)"
  by (auto simp: failing_def split: sum.splits prod.splits)

lemma failing_same: "failing i wid m w = (res, w') \<Longrightarrow> w_store w' = w_store w"
  using failing_store(1) [of i wid m w] by simp

lemma still_owns_own:
  assumes "find_approval i db = Some r" and "finalizer_worker_id r = Some wid" and "finalizer_state r = Some ''finalizing''"
    and "outbox_up db"
  shows "still_owns_claim i wid db = Inr True"
  using assms by (simp add: still_owns_claim_def outbox_connect_def)

lemma write_store:
  "snd (write_or_recover v ops prof b i s) = s \<or>
   finalizer_only prof \<and> snd (write_or_recover v ops prof b i s) =
     snd (add_memory ops (b_wing b) (b_room b) (sanitize v (b_content b)) (b_metadata b) (Some (''approval:'' @ int_str i)) s)"
  by (auto simp: write_or_recover_def finalize_write_def Let_def split: prod.splits)

text \<open>What \<open>finish_claimed\<close> does to the store when nothing runs in between.\<close>

lemma finish_claimed_store:
  assumes f: "find_approval (aq_id row) (w_outbox w) = Some r" "finalizer_worker_id r = Some wid"
      "finalizer_state r = Some ''finalizing''" "outbox_up (w_outbox w)"
    and fin: "finish_claimed v factory prof via wid clk row d w = (res, w')"
    and ch: "w_store w' \<noteq> w_store w"
  shows "\<exists>ops profile b. factory = Inr ops \<and> prof = Inr profile \<and> finalizer_only profile \<and>
    reconstruct_durable_payload v (candidate_json row) (approval_ref (aq_id row)) (aq_id row) (Some via)
      (proposed_by_profile (dget d ''proposed_by_profile'')) (clk 1) = Inr b \<and>
    w_store w' = snd (add_memory ops (b_wing b) (b_room b) (sanitize v (b_content b)) (b_metadata b)
      (Some (''approval:'' @ int_str (aq_id row))) (w_store w))"
proof -
  note so = still_owns_own [OF f]
  obtain profile where prof: "prof = Inr profile"
    using fin ch by (cases prof) (auto simp: finish_claimed_def)
  obtain p where p: "principal_default_for_profile (ident v) (prof_name profile) (tenant_scope profile) = Inr p"
    using fin ch by (cases "principal_default_for_profile (ident v) (prof_name profile) (tenant_scope profile)")
      (auto simp: finish_claimed_def prof)
  obtain b where b: "reconstruct_durable_payload v (candidate_json row) (approval_ref (aq_id row)) (aq_id row) (Some via)
      (proposed_by_profile (dget d ''proposed_by_profile'')) (clk 1) = Inr b"
    using fin ch by (cases "reconstruct_durable_payload v (candidate_json row) (approval_ref (aq_id row)) (aq_id row) (Some via)
      (proposed_by_profile (dget d ''proposed_by_profile'')) (clk 1)")
      (auto simp: finish_claimed_def prof p Let_def dest: failing_same)
  obtain ops where ops: "factory = Inr ops"
    using fin ch by (cases factory) (auto simp: finish_claimed_def prof p b Let_def simp del: One_nat_def dest: failing_same)
  obtain h s' where wr: "write_or_recover v ops profile b (aq_id row) (w_store w) = (h, s')"
    by (cases "write_or_recover v ops profile b (aq_id row) (w_store w)")
  have "w_store w' = s'"
  proof (cases h)
    case (Inl e)
    then have "failing (aq_id row) wid (''durable write failed: '' @ exc_text e) (w\<lparr>w_store := s'\<rparr>) = (res, w')"
      using fin by (simp add: finish_claimed_def prof p b ops so wr Let_def del: One_nat_def)
    then show ?thesis by (auto dest: failing_same)
  next
    case (Inr hx)
    show ?thesis
    proof (cases "some_text hx")
      case None
      then have "failing (aq_id row) wid ''durable id unrecoverable (exact-dup, no marker match)'' (w\<lparr>w_store := s'\<rparr>) = (res, w')"
        using fin Inr by (simp add: finish_claimed_def prof p b ops so wr Let_def del: One_nat_def)
      then show ?thesis by (auto dest: failing_same)
    next
      case (Some t)
      then have t: "t \<noteq> []" by (auto simp: some_text_def split: option.splits list.splits)
      have "(res, w') = record_phase v ops p b wid t row (clk 2) (w\<lparr>w_store := s'\<rparr>)"
        using fin Inr Some by (simp add: finish_claimed_def prof p b ops so wr Let_def del: One_nat_def)
      also have "\<dots> = (Inr (Some t), record_outcome v p b t row (clk 2)
         ((w\<lparr>w_store := s'\<rparr>)\<lparr>w_outbox := complete_event (memory_event_id row) t (clk 2)
            (set_approval (aq_id row) (record_row wid t) (w_outbox (w\<lparr>w_store := s'\<rparr>)))\<rparr>))"
        by (rule record_phase_own [where r = r]) (use f t in simp_all)
      finally show ?thesis by (simp add: record_outcome_world)
    qed
  qed
  then show ?thesis using write_store [of v ops profile b "aq_id row" "w_store w"] wr ch prof b ops by auto
qed

text \<open>
  C2: without interleaving, the finalizer changes the store only for an approved row whose provenance is
  the configured transport and an authorized approver and whose receipt the audit log verifies, and then
  by exactly one \<open>add_memory\<close> of the payload rebuilt from the attested candidate bytes, attributed to
  whoever the receipt names, under the row's own conversation.
\<close>

theorem finalize_gated:
  assumes "finalize_approved_candidate v approvers factory prof expected wid clk i w = (res, w')"
    and "w_store w' \<noteq> w_store w"
  shows "\<exists>row r d ops profile b. find_approval i (w_outbox w) = Some row \<and> status row = ''approved'' \<and>
    approved_via row = Some (given_or expected (expected_approved_via v)) \<and>
    approved_by row \<in> Some ` set approvers \<and> attests v row (w_audit w) r d \<and>
    factory = Inr ops \<and> prof = Inr profile \<and> finalizer_only profile \<and>
    reconstruct_durable_payload v (candidate_json row) (approval_ref i) i
      (Some (given_or expected (expected_approved_via v))) (proposed_by_profile (dget d ''proposed_by_profile'')) (clk 1) = Inr b \<and>
    w_store w' = snd (add_memory ops (b_wing b) (b_room b) (sanitize v (b_content b)) (b_metadata b)
      (Some (''approval:'' @ int_str i)) (w_store w))"
proof -
  let ?via = "given_or expected (expected_approved_via v)"
  obtain row d db where cl: "claim_candidate v approvers ?via wid (clk 0) i (w_outbox w) (w_audit w) = (Inr (Claimed row d), db)"
    and fin: "finish_claimed v factory prof ?via wid clk row d (w\<lparr>w_outbox := db\<rparr>) = (res, w')"
    using assms by (auto simp: finalize_approved_candidate_def Let_def split: if_splits prod.splits sum.splits claim.splits)
  note a = after_claim [OF cl] claim_cases [OF cl]
  have "\<exists>ops profile b. factory = Inr ops \<and> prof = Inr profile \<and> finalizer_only profile \<and>
    reconstruct_durable_payload v (candidate_json row) (approval_ref (aq_id row)) (aq_id row) (Some ?via)
      (proposed_by_profile (dget d ''proposed_by_profile'')) (clk 1) = Inr b \<and>
    w_store w' = snd (add_memory ops (b_wing b) (b_room b) (sanitize v (b_content b)) (b_metadata b)
      (Some (''approval:'' @ int_str (aq_id row))) (w_store (w\<lparr>w_outbox := db\<rparr>)))"
    by (rule finish_claimed_store [OF _ _ _ _ fin, where r = "claim_row wid (clk 0) row"])
      (use a assms(2) in simp_all)
  with a show ?thesis by fastforce
qed

lemma claimable_facts: "claimable now r \<Longrightarrow> status r = ''approved'' \<and> finalizer_state r \<noteq> Some ''finalized'' \<and> \<not> live_claim now r"
  by (auto simp: claimable_def live_claim_def split: option.splits)

lemma claim_succeeds:
  assumes "find_approval i db = Some row" and "memory_event_id row \<noteq> None" and "approved_via row = Some via"
    and "approved_by row \<in> Some ` set approvers" and "claimable now row" and "outbox_up db"
    and "attests v row au r d" and "this_hash r \<noteq> []" and "candidate_fingerprint v (candidate_json row) \<noteq> []"
  shows "claim_candidate v approvers via wid now i db au = (Inr (Claimed row d), set_approval i (claim_row wid now) db)"
  using assms claimable_facts [OF assms(5)] attests_gate [OF assms(7-9)]
  by (auto simp: claim_candidate_def outbox_connect_def)

text \<open>The write boundary of the finalizer profile admits the payload.\<close>

definition admits :: "env \<Rightarrow> agent_profile \<Rightarrow> built \<Rightarrow> bool" where
  "admits v prof b \<longleftrightarrow> finalizer_only prof \<and>
     (enforce_write_allowlist prof \<longrightarrow> b_wing b \<in> set (write_wing_allowlist prof) \<and>
        b_wing b @ ''/'' @ b_room b \<in> set (write_room_allowlist prof)) \<and>
     str_or (dget (b_metadata b) ''memory_type'') [] \<in> set (memory_type_allowlist prof)"

lemma finalize_write_admitted:
  "admits v prof b \<Longrightarrow> finalize_write v ops prof b conv s =
     add_memory ops (b_wing b) (b_room b) (sanitize v (b_content b)) (b_metadata b) (Some conv) s"
  by (auto simp: finalize_write_def admits_def)

lemma complete_event_completes:
  "\<forall>e\<in>set (events (complete_event (Some ev) h now db)). me_id e = ev \<longrightarrow>
     me_status e = ''completed'' \<and> completed_memory_id e = Some h"
proof
  fix e assume e: "e \<in> set (events (complete_event (Some ev) h now db))"
  let ?g = "\<lambda>m. m\<lparr>me_status := ''completed'', completed_memory_id := Some h, processed_at := Some (isoformat now)\<rparr>"
  have "events (complete_event (Some ev) h now db) = update_where (\<lambda>m. me_id m = ev) ?g (events db)"
    by (simp add: complete_event_def)
  with e obtain m where "e = (if me_id m = ev then ?g m else m)"
    unfolding set_update_where [symmetric] by (auto simp only: set_update_where)
  then show "me_id e = ev \<longrightarrow> me_status e = ''completed'' \<and> completed_memory_id e = Some h"
    by (cases "me_id m = ev") simp_all
qed

lemma finalize_completing:
  assumes "find_approval i (w_outbox w) = Some row" and "memory_event_id row = Some ev"
    and "approved_via row = Some via" and "given_or expected (expected_approved_via v) = via" and "via \<noteq> []"
    and "approved_by row \<in> Some ` set approvers" and "claimable (clk 0) row" and "outbox_up (w_outbox w)"
    and "attests v row (w_audit w) r d" and "this_hash r \<noteq> []" and "candidate_fingerprint v (candidate_json row) \<noteq> []"
    and "principal_default_for_profile (ident v) (prof_name profile) (tenant_scope profile) = Inr p"
    and "reconstruct_durable_payload v (candidate_json row) (approval_ref i) i (Some via)
           (proposed_by_profile (dget d ''proposed_by_profile'')) (clk 1) = Inr b"
    and "admits v profile b"
    and "add_memory ops (b_wing b) (b_room b) (sanitize v (b_content b)) (b_metadata b)
           (Some (''approval:'' @ int_str i)) (w_store w) = (Inr h, s')" and "h \<noteq> []"
  shows "\<exists>w'. finalize_approved_candidate v approvers (Inr ops) (Inr profile) expected wid clk i w = (Inr (Some h), w') \<and>
    w_store w' = s' \<and>
    (\<exists>row'. find_approval i (w_outbox w') = Some row' \<and> finalizer_state row' = Some ''finalized'' \<and>
       durable_memory_id row' = Some h \<and> candidate_json row' = candidate_json row) \<and>
    (\<forall>e\<in>set (events (w_outbox w')). me_id e = ev \<longrightarrow> me_status e = ''completed'' \<and> completed_memory_id e = Some h)"
proof -
  let ?db = "set_approval i (claim_row wid (clk 0)) (w_outbox w)"
  let ?w1 = "w\<lparr>w_outbox := ?db, w_store := s'\<rparr>"
  have cl: "claim_candidate v approvers via wid (clk 0) i (w_outbox w) (w_audit w) = (Inr (Claimed row d), ?db)"
    by (rule claim_succeeds) (use assms in auto)
  note a = after_claim [OF cl]
  have ap: "approvers \<noteq> []" using assms(6) by auto
  have i: "aq_id row = i" using a by simp
  have so: "still_owns_claim i wid ?db = Inr True"
    by (rule still_owns_own [where r = "claim_row wid (clk 0) row"]) (use a in simp_all)
  have wr: "write_or_recover v ops profile b i (w_store w) = (Inr (Some h), s')"
    using assms(15,16) by (simp add: write_or_recover_def finalize_write_admitted [OF assms(14)] some_text_def Let_def
        split: list.splits option.splits)
  have st: "some_text (Some h) = Some h" using assms(16) by (simp add: some_text_def split: list.splits)
  have "finalize_approved_candidate v approvers (Inr ops) (Inr profile) expected wid clk i w =
      record_phase v ops p b wid h row (clk 2) ?w1"
    using ap assms(4,5) assms(13)
    by (simp add: finalize_approved_candidate_def cl finish_claimed_def i assms(12) so wr st Let_def del: One_nat_def)
  also have "\<dots> = (Inr (Some h), record_outcome v p b h row (clk 2)
      (?w1\<lparr>w_outbox := complete_event (Some ev) h (clk 2) (set_approval i (record_row wid h) ?db)\<rparr>))"
    by (subst record_phase_own [where r = "claim_row wid (clk 0) row"]) (use a assms(2,16) i in simp_all)
  finally have r: "finalize_approved_candidate v approvers (Inr ops) (Inr profile) expected wid clk i w = \<dots>" .
  have f: "find_approval i (set_approval i (record_row wid h) ?db) = Some (record_row wid h (claim_row wid (clk 0) row))"
    by (subst find_set_approval) (use a in simp_all)
  let ?w2 = "record_outcome v p b h row (clk 2)
      (?w1\<lparr>w_outbox := complete_event (Some ev) h (clk 2) (set_approval i (record_row wid h) ?db)\<rparr>)"
  show ?thesis
  proof (rule exI [of _ ?w2], intro conjI)
    show "finalize_approved_candidate v approvers (Inr ops) (Inr profile) expected wid clk i w = (Inr (Some h), ?w2)"
      by (rule r)
    show "w_store ?w2 = s'" by (simp add: record_outcome_world)
    show "\<exists>row'. find_approval i (w_outbox ?w2) = Some row' \<and> finalizer_state row' = Some ''finalized'' \<and>
       durable_memory_id row' = Some h \<and> candidate_json row' = candidate_json row"
      by (rule exI [of _ "record_row wid h (claim_row wid (clk 0) row)"]) (simp add: record_outcome_world f)
    show "\<forall>e\<in>set (events (w_outbox ?w2)). me_id e = ev \<longrightarrow> me_status e = ''completed'' \<and> completed_memory_id e = Some h"
      using complete_event_completes [of ev h "clk 2" "set_approval i (record_row wid h) ?db"]
      unfolding record_outcome_world by simp
  qed
qed

text \<open>
  An approval that the gate can verify becomes durable.  When the row is approved through the
  configured channel, unclaimed or its claim stale, attested by the log, and the store accepts the
  write, one call returns the store's id, the row is finalized with that id and its memory event is
  completed with it.
\<close>

theorem finalize_completes:
  assumes "find_approval i (w_outbox w) = Some row" and "memory_event_id row = Some ev"
    and "approved_via row = Some via" and "given_or expected (expected_approved_via v) = via" and "via \<noteq> []"
    and "approved_by row \<in> Some ` set approvers" and "claimable (clk 0) row" and "outbox_up (w_outbox w)"
    and "attests v row (w_audit w) r d" and "this_hash r \<noteq> []" and "candidate_fingerprint v (candidate_json row) \<noteq> []"
    and "principal_default_for_profile (ident v) (prof_name profile) (tenant_scope profile) = Inr p"
    and "reconstruct_durable_payload v (candidate_json row) (approval_ref i) i (Some via)
           (proposed_by_profile (dget d ''proposed_by_profile'')) (clk 1) = Inr b"
    and "admits v profile b"
    and "add_memory ops (b_wing b) (b_room b) (sanitize v (b_content b)) (b_metadata b)
           (Some (''approval:'' @ int_str i)) (w_store w) = (Inr h, s')" and "h \<noteq> []"
  shows "\<exists>w'. finalize_approved_candidate v approvers (Inr ops) (Inr profile) expected wid clk i w = (Inr (Some h), w') \<and>
    w_store w' = s' \<and>
    (\<exists>row'. find_approval i (w_outbox w') = Some row' \<and> finalizer_state row' = Some ''finalized'' \<and>
       durable_memory_id row' = Some h \<and> candidate_json row' = candidate_json row) \<and>
    (\<forall>e\<in>set (events (w_outbox w')). me_id e = ev \<longrightarrow> me_status e = ''completed'' \<and> completed_memory_id e = Some h)"
  by (rule finalize_completing [OF assms])

subsection \<open>Leases\<close>

lemma claim_row_receipt:
  "audit_receipt_seq (claim_row wid now r) = audit_receipt_seq r"
  "audit_receipt_hash (claim_row wid now r) = audit_receipt_hash r"
  "candidate_sha256 (claim_row wid now r) = candidate_sha256 r"
  by (simp_all add: claim_row_def)

lemma claim_row_provenance [simp]:
  "approved_via (claim_row wid now r) = approved_via r" "approved_by (claim_row wid now r) = approved_by r"
  by (simp_all add: claim_row_def)

lemma gate_claim_row [simp]: "receipt_gate_refusal v (claim_row wid now r) au = receipt_gate_refusal v r au"
  unfolding receipt_gate_refusal_def claim_row_receipt claim_row_provenance claim_row_simps by (rule refl)

text \<open>
  The claim is a lease.  While it is not stale, another call for the same channel and approvers
  returns without touching anything and the owner keeps owning; once it is stale, another worker can
  take it, and then the first one no longer owns it and will not write.
\<close>

theorem claim_is_lease:
  assumes "claim_candidate v approvers via wid now i db au = (Inr (Claimed row d), db')"
  shows "still_owns_claim i wid db' = Inr True \<and>
    (later \<le> now + seconds FINALIZER_STALE_TTL_SECONDS \<longrightarrow>
       claim_candidate v approvers via wid' later i db' au = (Inr Skipped, db')) \<and>
    (now + seconds FINALIZER_STALE_TTL_SECONDS < later \<and> wid' \<noteq> wid \<longrightarrow>
       (\<exists>row' db''. claim_candidate v approvers via wid' later i db' au = (Inr (Claimed row' d), db'') \<and>
          still_owns_claim i wid' db'' = Inr True \<and> still_owns_claim i wid db'' = Inr False))"
proof -
  note a = after_claim [OF assms] claim_cases [OF assms]
  let ?row = "claim_row wid now row"
  have so: "still_owns_claim i wid db' = Inr True"
    by (rule still_owns_own [where r = ?row]) (use a in simp_all)
  have ac: "\<exists>rr. receipt_gate_refusal v row au = Inr (Accepted rr d)"
    using assms unfolding claim_candidate_def by (auto split: sum.splits option.splits if_splits gate.splits)
  have g: "status ?row = ''approved''" "memory_event_id ?row \<noteq> None" "approved_via ?row = Some via"
      "approved_by ?row \<in> set (map Some approvers)"
    using a by simp_all
  have up: "outbox_connect db' = Inr ()" using a by (simp add: outbox_connect_def)
  have live: "live_claim later ?row \<longleftrightarrow> later \<le> now + seconds FINALIZER_STALE_TTL_SECONDS"
    by (auto simp: live_claim_def stale_cutoff_def)
  have early: "claim_candidate v approvers via wid' later i db' au = (Inr Skipped, db')"
    if "later \<le> now + seconds FINALIZER_STALE_TTL_SECONDS"
    using that live g up a by (auto simp: claim_candidate_def)
  have late: "\<exists>row' db''. claim_candidate v approvers via wid' later i db' au = (Inr (Claimed row' d), db'') \<and>
          still_owns_claim i wid' db'' = Inr True \<and> still_owns_claim i wid db'' = Inr False"
    if t: "now + seconds FINALIZER_STALE_TTL_SECONDS < later" and w: "wid' \<noteq> wid"
  proof -
    have "claimable later ?row" using t g by (auto simp: claimable_def stale_cutoff_def)
    then have c: "claim_candidate v approvers via wid' later i db' au = (Inr (Claimed ?row d), set_approval i (claim_row wid' later) db')"
      using t live g up a ac by (auto simp: claim_candidate_def)
    note b = after_claim [OF c]
    have "still_owns_claim i wid' (set_approval i (claim_row wid' later) db') = Inr True"
      by (rule still_owns_own [where r = "claim_row wid' later ?row"]) (use b in simp_all)
    moreover have "still_owns_claim i wid (set_approval i (claim_row wid' later) db') = Inr False"
      using b w by (simp add: still_owns_claim_def outbox_connect_def)
    ultimately show ?thesis using c by blast
  qed
  show ?thesis using so early late by blast
qed

subsection \<open>Forgetting wins\<close>

text \<open>
  A worker whose row was purged or is being forgotten records nothing.  It returns no id, no row
  and no event changes, and the durable row it wrote is deleted from the store, or, when it cannot be,
  a tombstone with its id is left for the reconcile sweep.
\<close>

theorem forget_wins:
  assumes "case find_approval (aq_id row) (w_outbox w) of None \<Rightarrow> True
      | Some r \<Rightarrow> finalizer_state r = Some ''rtbf_deleting'' \<and> finalizer_worker_id r \<noteq> Some wid"
    and "outbox_up (w_outbox w)" and "record_phase v ops p b wid h row now w = (res, w')"
  shows "res = Inr None \<and> approvals (w_outbox w') = approvals (w_outbox w) \<and> events (w_outbox w') = events (w_outbox w) \<and>
    ((\<exists>del ok. store_delete ops = Some del \<and>
        del h ''approval purged during finalize (RTBF); removing orphan'' (w_store w) = (Inr ok, w_store w')) \<or>
     (\<exists>m\<in>set (history (w_outbox w')). mh_op m = ''orphan_cleanup_pending'' \<and> mh_drawer_id m = h))"
proof -
  have "record_final (aq_id row) wid h (memory_event_id row) now (w_outbox w) = (Inr (None, False), w_outbox w)"
    using assms(1,2) by (auto simp: record_final_def outbox_connect_def split: option.splits)
  then have r: "res = Inr None" "w' = snd (cleanup_orphaned_durable v ops p h now w)"
    using assms(3) by (auto simp: record_phase_def)
  have o: "mh_op (orphan_history v p h m now) = ''orphan_cleanup_pending''" "mh_drawer_id (orphan_history v p h m now) = h" for m
    by (simp_all add: orphan_history_def history_entry_def)
  show ?thesis
  proof (cases "store_delete ops")
    case None
    then show ?thesis using r assms(2) o by (auto simp: cleanup_orphaned_durable_def append_history_def)
  next
    case (Some del)
    obtain x s' where x: "del h ''approval purged during finalize (RTBF); removing orphan'' (w_store w) = (x, s')"
      by (cases "del h ''approval purged during finalize (RTBF); removing orphan'' (w_store w)")
    show ?thesis
    proof (cases x)
      case (Inl e)
      then show ?thesis using r assms(2) o Some x by (simp add: cleanup_orphaned_durable_def append_history_def)
    next
      case (Inr ok)
      then show ?thesis using r Some x by (simp add: cleanup_orphaned_durable_def)
    qed
  qed
qed

text \<open>
  The refusal of the receipt gate does not respect a claim of the forget path.  For a row that is
  being forgotten (\<open>rtbf_deleting\<close>), one call made while the audit database cannot be opened marks the
  row \<open>failed\<close>, and from then on the finalizer can claim it again, which the claim of the forget path
  is there to prevent.
\<close>

theorem refusal_lifts_forget_claim:
  assumes "find_approval i db = Some row" and "status row = ''approved''" and "memory_event_id row \<noteq> None"
    and "approved_via row = Some via" and "approved_by row \<in> Some ` set approvers"
    and "finalizer_state row = Some ''rtbf_deleting''" and "outbox_up db"
    and "attests v row au r d" and "this_hash r \<noteq> []" and "candidate_fingerprint v (candidate_json row) \<noteq> []"
  shows "claim_candidate v approvers via wid now i db au = (Inr Skipped, db) \<and>
    (\<exists>db' row'. claim_candidate v approvers via wid now i db (au\<lparr>audit_up := False\<rparr>) = (Inr Skipped, db') \<and>
       find_approval i db' = Some row' \<and> finalizer_state row' = Some ''failed'' \<and>
       claim_candidate v approvers via wid now i db' au = (Inr (Claimed row' d), set_approval i (claim_row wid now) db'))"
proof -
  note base = assms(1-7)
  have up: "outbox_connect db = Inr ()" using assms(7) by (simp add: outbox_connect_def)
  have nl: "\<not> live_claim now row" "\<not> claimable now row" using assms(6) by (simp_all add: live_claim_def claimable_def)
  have g: "receipt_gate_refusal v row au = Inr (Accepted r d)" by (rule attests_gate [OF assms(8-10)])
  have first: "claim_candidate v approvers via wid now i db au = (Inr Skipped, db)"
    using base nl g up by (auto simp: claim_candidate_def)
  obtain n where n: "audit_receipt_seq row = Some n" "1 \<le> n"
    using assms(8) by (auto simp: attests_def verify_through_iff)
  have h: "audit_receipt_hash row = Some (this_hash r)" "candidate_sha256 row = Some (candidate_fingerprint v (candidate_json row))"
    using assms(8) by (simp_all add: attests_def)
  have t: "audit_verify_through (sha256_hex v) n (au\<lparr>audit_up := False\<rparr>) = Inl (OperationalError ''unable to open audit database'')"
    using n by (simp add: audit_verify_through_def audit_connect_def)
  then have g': "\<exists>m. receipt_gate_refusal v row (au\<lparr>audit_up := False\<rparr>) = Inr (Refused m)"
    using n h assms(9,10) by (simp add: receipt_gate_refusal_def)
  then obtain m where m: "receipt_gate_refusal v row (au\<lparr>audit_up := False\<rparr>) = Inr (Refused m)" ..
  let ?msg = "take 500 (''audit receipt gate: '' @ m)"
  let ?row = "row\<lparr>finalizer_state := Some ''failed'', finalizer_last_error := Some ?msg\<rparr>"
  have second: "claim_candidate v approvers via wid now i db (au\<lparr>audit_up := False\<rparr>) = (Inr Skipped, mark_refused i ?msg db)"
    using base nl m up by (auto simp: claim_candidate_def)
  have f: "find_approval i (mark_refused i ?msg db) = Some ?row"
    using assms(1,6) find_row_SomeD [of aq_id i "approvals db" row]
    by (simp add: mark_refused_def find_approval_def find_row_update_where)
  have at: "attests v ?row au r d" using assms(8) by (simp add: attests_def)
  have "claim_candidate v approvers via wid now i (mark_refused i ?msg db) au =
      (Inr (Claimed ?row d), set_approval i (claim_row wid now) (mark_refused i ?msg db))"
    by (rule claim_succeeds [OF f _ _ _ _ _ at assms(9)])
      (use assms in \<open>simp_all add: claimable_def mark_refused_def\<close>)
  with first second f show ?thesis by fastforce
qed

subsection \<open>Receipts that attest\<close>

lemma dget_canon:
  assumes "distinct (map fst d)" and "canon (JObj d) = JObj d'"
  shows "dget d' k = map_option canon (dget d k)"
proof -
  have d': "d' = sort_key fst (map (\<lambda>(k, x). (k, canon x)) d)" using assms(2) by simp
  have s: "set d' = set (map (\<lambda>(k, x). (k, canon x)) d)" by (simp add: d')
  have k: "map fst (map (\<lambda>(k, x). (k, canon x)) d) = map fst d" by (induction d) auto
  have "distinct (map fst d')"
    using assms(1) by (auto simp: d' distinct_map inj_on_def case_prod_beta)
  then have "map_of d' = map_of (map (\<lambda>(k, x). (k, canon x)) d)"
    using s assms(1) unfolding k [symmetric] by (intro map_of_inject_set [THEN iffD2])
  moreover have "map_of (map (\<lambda>(k, x). (k, canon x)) d) k = map_option canon (dget d k)"
    by (induction d) auto
  ultimately show ?thesis by simp
qed

lemma canon_opt: "canon (opt_json x) = opt_json x"
  by (rule canon_opt_json)

text \<open>A decision entry for a row: what the service and the backfill write.\<close>

definition decides :: "env \<Rightarrow> approval_row \<Rightarrow> audit_entry \<Rightarrow> bool" where
  "decides v row e \<longleftrightarrow> entry_ok e \<and> e_op e \<in> {''approval_decision'', ''approval_decision_backfill''} \<and>
     e_target e = Some (int_str (aq_id row)) \<and> e_tenant e = default_tenant_id (ident v) \<and>
     dget (e_details e) ''decision'' = Some (JStr ''approve'') \<and>
     dget (e_details e) ''approved_by'' = Some (opt_json (approved_by row)) \<and>
     dget (e_details e) ''approved_via'' = Some (opt_json (approved_via row)) \<and>
     dget (e_details e) ''candidate_sha256'' = Some (JStr (candidate_fingerprint v (candidate_json row)))"

definition receipted :: "env \<Rightarrow> int \<Rightarrow> string \<Rightarrow> approval_row \<Rightarrow> bool" where
  "receipted v n h row \<longleftrightarrow> audit_receipt_seq row = Some n \<and> audit_receipt_hash row = Some h \<and>
     candidate_sha256 row = Some (candidate_fingerprint v (candidate_json row))"

lemma receipt_attests:
  assumes i: "intact (sha256_hex v) (audit_rows au)" and wr: "audit_write (sha256_hex v) e au = Inr (n, au')"
    and e: "decides v row e" and r: "receipted v n (this_hash (new_row (sha256_hex v) e (audit_rows au))) row"
  shows "\<exists>d. attests v row au' (new_row (sha256_hex v) e (audit_rows au)) d \<and>
    (\<forall>k. dget d k = map_option canon (dget (e_details e) k))"
proof -
  let ?r = "new_row (sha256_hex v) e (audit_rows au)"
  obtain d where d: "canon (JObj (e_details e)) = JObj d" by simp
  have ok: "entry_ok e" using e by (simp add: decides_def)
  then have g: "dget d k = map_option canon (dget (e_details e) k)" for k
    using d by (intro dget_canon) (simp_all add: entry_ok_def)
  have t: "audit_verify_through (sha256_hex v) n au' = Inr (?r, JObj d)"
    using verify_through_new [OF i wr ok] d by simp
  have ne: "d \<noteq> []"
  proof
    assume "d = []"
    then have "dget d ''decision'' = None" by simp
    with g [of "''decision''"] e show False by (simp add: decides_def)
  qed
  have "attests v row au' ?r d"
    unfolding attests_def
  proof (intro conjI)
    show "\<exists>n. audit_receipt_seq row = Some n \<and>
        (\<exists>dj. audit_verify_through (sha256_hex v) n au' = Inr (?r, dj) \<and> (if truthy dj then dj else JObj []) = JObj d)"
      using r t ne by (auto simp: receipted_def)
  qed (use e r in \<open>simp_all add: decides_def receipted_def get_or_null_def g canon_opt\<close>)
  with g show ?thesis by blast
qed

lemma attests_persists:
  "attests v row au r d \<Longrightarrow> audit_write (sha256_hex v) e au = Inr (m, au') \<Longrightarrow> attests v row au' r d"
  using verify_through_write unfolding attests_def by blast

subsection \<open>The migration\<close>

definition backfill_entry :: "env \<Rightarrow> string \<Rightarrow> string \<Rightarrow> time \<Rightarrow> approval_row \<Rightarrow> marker_inspection option \<Rightarrow> audit_entry" where
  "backfill_entry v pid ten now r insp =
     \<lparr>e_ts = isoformat now, e_principal = pid, e_tenant = ten, e_op = ''approval_decision_backfill'',
      e_target = Some (int_str (aq_id r)), e_reason = None, e_details = backfill_details v r insp\<rparr>"

definition backfilled :: "env \<Rightarrow> int \<Rightarrow> string \<Rightarrow> approval_row \<Rightarrow> approval_row \<Rightarrow> approval_row" where
  "backfilled v n h r q = (if audit_receipt_seq q = None
     then q\<lparr>audit_receipt_seq := Some n, audit_receipt_hash := Some h,
            candidate_sha256 := Some (candidate_fingerprint v (candidate_json r))\<rparr> else q)"

definition inspection_of :: "marker_finder \<Rightarrow> string \<Rightarrow> approval_row \<Rightarrow> marker_inspection option" where
  "inspection_of finder ten r = (if finalizer_state r = Some ''finalizing''
     then Some (inspect_finalizing_marker finder (aq_id r) ten) else None)"

lemma details_distinct: "distinct (map fst (backfill_details v r insp))"
  by (simp add: backfill_details_def split: option.splits)

lemma details_jwf: "jwf (JObj (backfill_details v r insp))"
proof -
  have "list_all (\<lambda>(k, x). jwf x) (backfill_details v r insp)"
    by (simp add: backfill_details_def split: option.splits)
  with details_distinct show ?thesis by simp
qed

lemma backfill_entry_decides:
  "aq_id row' = aq_id r \<Longrightarrow> candidate_json row' = candidate_json r \<Longrightarrow> approved_by row' = approved_by r \<Longrightarrow>
   approved_via row' = approved_via r \<Longrightarrow> decides v row' (backfill_entry v pid (default_tenant_id (ident v)) now r insp)"
  by (simp add: decides_def backfill_entry_def entry_ok_def details_jwf del: jwf.simps)
    (simp add: backfill_details_def split: option.splits)

lemma backfill_one_eq:
  assumes "find_approval i db = Some r" and "eligible_null r" and "outbox_up db" and "audit_up au"
    and "intact (sha256_hex v) (audit_rows au)"
    and "inspection_of finder ten r \<notin> {Some LookupUnavailable, Some LookupFailed}"
    and "nr = new_row (sha256_hex v) (backfill_entry v pid ten now r (inspection_of finder ten r)) (audit_rows au)"
  shows "backfill_one v pid ten finder now i db au =
    (Inr True, set_approval i (backfilled v (seq nr) (this_hash nr) r) db, au\<lparr>audit_rows := audit_rows au @ [nr]\<rparr>)"
proof -
  let ?e = "backfill_entry v pid ten now r (inspection_of finder ten r)"
  have i: "aq_id r = i" using assms(1) by (auto simp: find_approval_def dest: find_row_SomeD)
  have wr: "audit_write (sha256_hex v) ?e au = Inr (seq nr, au\<lparr>audit_rows := audit_rows au @ [nr]\<rparr>)"
    using assms(4,7) by (simp add: audit_write_iff)
  have h: "audit_row_hash (seq nr) (au\<lparr>audit_rows := audit_rows au @ [nr]\<rparr>) = Inr (this_hash nr)"
    using row_hash_new [OF assms(5) wr] assms(7) by simp
  have e: "\<lparr>e_ts = isoformat now, e_principal = pid, e_tenant = ten, e_op = ''approval_decision_backfill'',
      e_target = Some (int_str i), e_reason = None, e_details = backfill_details v r (inspection_of finder ten r)\<rparr> = ?e"
    by (simp add: backfill_entry_def i)
  have insp: "(if finalizer_state r = Some ''finalizing'' then Some (inspect_finalizing_marker finder i ten) else None)
      = inspection_of finder ten r"
    by (simp add: inspection_of_def i)
  have bf: "backfilled v (seq nr) (this_hash nr) r = (\<lambda>q. if audit_receipt_seq q = None
     then q\<lparr>audit_receipt_seq := Some (seq nr), audit_receipt_hash := Some (this_hash nr),
            candidate_sha256 := Some (candidate_fingerprint v (candidate_json r))\<rparr> else q)"
    by (rule ext) (simp add: backfilled_def)
  have not: "inspection_of finder ten r \<notin> set [Some LookupUnavailable, Some LookupFailed]" using assms(6) by simp
  show ?thesis
    unfolding backfill_one_def outbox_connect_def Let_def
    by (simp only: assms(1,2,3) insp e wr h not if_True if_False simp_thms sum.case option.case prod.case)
      (simp only: bf)
qed

text \<open>
  A backfilled row passes the gate.  When the migration stamps a row, the log it leaves verifies a
  record that attests exactly this row, for its stored bytes and provenance, and for a row whose
  finalization had begun the record says what the store inspection found.
\<close>

theorem backfill_attests:
  assumes "intact (sha256_hex v) (audit_rows au)"
    and "backfill_one v pid (default_tenant_id (ident v)) finder now i db au = (Inr True, db', au')"
  shows "\<exists>row row' r d. find_approval i db = Some row \<and> eligible_null row \<and> find_approval i db' = Some row' \<and>
    attests v row' au' r d \<and> intact (sha256_hex v) (audit_rows au') \<and>
    (finalizer_state row = Some ''finalizing'' \<longrightarrow> dget d ''finalizing_inspection'' \<in>
       {Some (JStr ''marker_found''), Some (JStr ''marker_absent'')})"
proof -
  let ?ten = "default_tenant_id (ident v)"
  obtain row where f: "find_approval i db = Some row" "eligible_null row" and up: "outbox_up db"
    using assms(2) by (auto simp: backfill_one_def outbox_connect_def split: option.splits if_splits)
  have i: "aq_id row = i" using f(1) by (auto simp: find_approval_def dest: find_row_SomeD)
  have insp: "inspection_of finder ?ten row \<notin> {Some LookupUnavailable, Some LookupFailed}"
    using assms(2) f up i by (auto simp: backfill_one_def outbox_connect_def inspection_of_def Let_def split: if_splits)
  have aup: "audit_up au"
  proof (rule ccontr)
    assume "\<not> audit_up au"
    then have "audit_write (sha256_hex v) e au = Inl (OperationalError ''unable to open audit database'')" for e
      by (simp add: audit_write_def audit_connect_def)
    then show False
      using assms(2) f up i insp by (auto simp: backfill_one_def outbox_connect_def inspection_of_def Let_def split: if_splits)
  qed
  let ?e = "backfill_entry v pid ?ten now row (inspection_of finder ?ten row)"
  let ?nr = "new_row (sha256_hex v) ?e (audit_rows au)"
  have eq: "db' = set_approval i (backfilled v (seq ?nr) (this_hash ?nr) row) db" "au' = au\<lparr>audit_rows := audit_rows au @ [?nr]\<rparr>"
    using backfill_one_eq [OF f up aup assms(1) insp refl] assms(2) by simp_all
  let ?row = "backfilled v (seq ?nr) (this_hash ?nr) row row"
  have fields: "aq_id ?row = aq_id row" "candidate_json ?row = candidate_json row" "approved_by ?row = approved_by row"
      "approved_via ?row = approved_via row" "receipted v (seq ?nr) (this_hash ?nr) ?row"
    using f(2) by (simp_all add: backfilled_def receipted_def eligible_null_def)
  have f': "find_approval i db' = Some ?row"
    unfolding eq by (subst find_set_approval) (simp_all add: f(1) backfilled_def)
  have wr: "audit_write (sha256_hex v) ?e au = Inr (seq ?nr, au')"
    using aup eq by (simp add: audit_write_iff)
  obtain d where d: "attests v ?row au' ?nr d" "\<And>k. dget d k = map_option canon (dget (e_details ?e) k)"
    using receipt_attests [OF assms(1) wr backfill_entry_decides [OF fields(1-4)] fields(5)] by blast
  have "dget d ''finalizing_inspection'' \<in> {Some (JStr ''marker_found''), Some (JStr ''marker_absent'')}"
    if fin: "finalizer_state row = Some ''finalizing''"
  proof -
    obtain m where m: "inspection_of finder ?ten row = Some m" "m = MarkerFound \<or> m = MarkerAbsent"
      using fin insp by (cases "inspect_finalizing_marker finder (aq_id row) ?ten") (auto simp: inspection_of_def)
    then have "dget (e_details ?e) ''finalizing_inspection'' = Some (JStr (inspection_text m))"
      by (simp add: backfill_entry_def backfill_details_def split: option.splits)
    with d(2) m(2) show ?thesis by auto
  qed
  moreover have "intact (sha256_hex v) (audit_rows au')" using intact_audit_write [OF assms(1) wr] by blast
  ultimately show ?thesis using f f' d(1) by blast
qed

subsection \<open>An example\<close>

definition sample_decision :: audit_entry where
  "sample_decision = \<lparr>e_ts = ''t'', e_principal = ''human:owner@local'', e_tenant = ''t_owner'', e_op = ''approval_decision'',
     e_target = Some (int_str 1), e_reason = None,
     e_details = [(''decision'', JStr ''approve''), (''approved_by'', JStr ''local_cli:owner''),
       (''approved_via'', JStr ''local_cli''), (''candidate_sha256'', JStr (hex64 []))]\<rparr>"

definition sample_receipt :: audit_row where
  "sample_receipt = new_row hex64 sample_decision []"

definition sample_row :: approval_row where
  "sample_row = (queued_row ''agent'' [] 1 0)\<lparr>status := ''approved'', memory_event_id := Some 1,
     approved_via := Some ''local_cli'', approved_by := Some ''local_cli:owner'', audit_receipt_seq := Some 1,
     audit_receipt_hash := Some (this_hash sample_receipt), candidate_sha256 := Some (hex64 [])\<rparr>"

definition sample_audit :: audit_db where
  "sample_audit = \<lparr>audit_rows = [sample_receipt], audit_up = True\<rparr>"

definition sample_ops :: "string list store_ops" where
  "sample_ops = \<lparr>add_memory = (\<lambda>wg rm c md cv s. (Inr ''h1'', s @ [c])), find_marker = (\<lambda>m t s. Inr None),
     store_delete = Some (\<lambda>h m s. (Inr True, s))\<rparr>"

definition sample_profile :: agent_profile where
  "sample_profile = \<lparr>prof_name = ''panella-finalizer'', default_wing = ''owner'', default_room = ''feedback'',
     daily_max_drawers = 9, burst_max_per_minute = 3, memory_type_allowlist = [''owner_feedback'', ''owner_preference''],
     default_ttl_days = None, ephemeral_rooms = [], approval_required_for = [], read_allowlist = [], deny = [],
     max_query_k = 1, retrieval_mode = ''legacy'', wing_boost = [], observability_level = ''minimal'',
     daily_embed_calls_max = 1, tenant_scope = [''t_owner''], write_wing_allowlist = [], write_room_allowlist = [],
     enforce_write_allowlist = False, quota_counts_dedup = True, finalizer_only = True\<rparr>"

definition sample_world :: "string list world" where
  "sample_world = \<lparr>w_outbox = sample_outbox\<lparr>approvals := [sample_row]\<rparr>, w_audit = sample_audit, w_store = []\<rparr>"

lemma hex64_any: "hex64 s = hex64 t"
  by (simp add: hex64_def)

lemma sample_env_simps [simp]:
  "sha256_hex sample_env = hex64" "sanitize sample_env s = s" "default_tenant_id (ident sample_env) = ''t_owner''"
  "owner_wing (ident sample_env) = ''owner''" "owner_slug (ident sample_env) = ''owner''"
  by (simp_all add: sample_env_def sample_identity_def)

lemma sample_row_simps [simp]:
  "aq_id sample_row = 1" "status sample_row = ''approved''" "memory_event_id sample_row = Some 1"
  "approved_via sample_row = Some ''local_cli''" "approved_by sample_row = Some ''local_cli:owner''"
  "finalizer_state sample_row = None" "candidate_json sample_row = dumps (JObj [])"
  "audit_receipt_seq sample_row = Some 1" "audit_receipt_hash sample_row = Some (this_hash sample_receipt)"
  "candidate_sha256 sample_row = Some (hex64 [])" "aq_id (queued_row p c i now) = i"
  by (simp_all add: sample_row_def queued_row_def)

lemma sample_world_simps [simp]:
  "w_store sample_world = []" "w_audit sample_world = sample_audit" "outbox_up (w_outbox sample_world)"
  "find_approval 1 (w_outbox sample_world) = Some sample_row"
  by (simp_all add: sample_world_def sample_outbox_def find_approval_def)

lemma sample_attests:
  "\<exists>d. attests sample_env sample_row sample_audit sample_receipt d \<and> dget d ''proposed_by_profile'' = None"
proof -
  let ?au = "\<lparr>audit_rows = [], audit_up = True\<rparr>"
  have e: "decides sample_env sample_row sample_decision"
    by (simp add: decides_def sample_decision_def entry_ok_def opt_json_def candidate_fingerprint_def)
      (rule hex64_any)
  have wr: "audit_write (sha256_hex sample_env) sample_decision ?au = Inr (1, sample_audit)"
    by (simp add: audit_write_iff new_row_links last_row_def sample_audit_def sample_receipt_def)
  have r: "receipted sample_env 1 (this_hash (new_row (sha256_hex sample_env) sample_decision (audit_rows ?au))) sample_row"
    by (simp add: receipted_def sample_receipt_def candidate_fingerprint_def) (rule hex64_any)
  have i: "intact (sha256_hex sample_env) (audit_rows ?au)" by (simp add: intact_def)
  show ?thesis using receipt_attests [OF i wr e r]
    by (auto simp: sample_receipt_def sample_decision_def)
qed

lemma sample_nonempty: "this_hash sample_receipt \<noteq> []" "candidate_fingerprint sample_env s \<noteq> []" "hex64 s \<noteq> []"
  by (simp_all add: sample_receipt_def new_row_hash row_hash_def candidate_fingerprint_def hex64_def)

lemma sample_claimable: "claimable now sample_row"
  by (simp add: claimable_def)

lemma sample_principal:
  "\<exists>p. principal_default_for_profile (ident sample_env) (prof_name sample_profile) (tenant_scope sample_profile) = Inr p"
proof -
  have "tenant_re ''t_owner''" "tenant_re ''owner''" by code_simp+
  then show ?thesis
    by (simp add: principal_default_for_profile_def sample_profile_def sample_env_def sample_identity_def
        mk_principal_iff principal_ok_def Let_def)
qed

lemma sample_payload:
  "\<exists>b. reconstruct_durable_payload sample_env (dumps (JObj [])) (approval_ref 1) 1 (Some ''local_cli'') p t = Inr b \<and>
     admits sample_env sample_profile b"
proof -
  have l: "load_candidate (dumps (JObj [])) = Inr []" by code_simp
  obtain b where b: "reconstruct_durable_payload sample_env (dumps (JObj [])) (approval_ref 1) 1 (Some ''local_cli'') p t = Inr b"
    using l by (simp add: reconstruct_eq)
  have m: "b_metadata b = dict_update (base_metadata sample_env [] 1 t) (pinned sample_env [] (approval_ref 1) 1 (Some ''local_cli'') p)"
    using b l unfolding reconstruct_eq by auto
  have "dget (b_metadata b) ''memory_type'' = Some (JStr ''owner_feedback'')"
    unfolding m dget_built by (simp add: base_memory_type pinned_def payload_room_def Let_def cand_str_def)
  with b show ?thesis by (auto simp: admits_def sample_profile_def)
qed

lemma sample_finalizes:
  "\<exists>w'. finalize_approved_candidate sample_env [''local_cli:owner''] (Inr sample_ops) (Inr sample_profile) None ''w'' int 1
      sample_world = (Inr (Some ''h1''), w') \<and> w_store w' \<noteq> w_store sample_world"
proof -
  obtain d where d: "attests sample_env sample_row sample_audit sample_receipt d" using sample_attests by blast
  obtain p where p: "principal_default_for_profile (ident sample_env) (prof_name sample_profile) (tenant_scope sample_profile) = Inr p"
    using sample_principal ..
  obtain b where b: "reconstruct_durable_payload sample_env (dumps (JObj [])) (approval_ref 1) 1 (Some ''local_cli'')
       (proposed_by_profile (dget d ''proposed_by_profile'')) (int 1) = Inr b" "admits sample_env sample_profile b"
    using sample_payload by blast
  have v: "given_or None (expected_approved_via sample_env) = ''local_cli''"
    by (simp add: given_or_def expected_approved_via_def sample_env_def)
  have "\<exists>w'. finalize_approved_candidate sample_env [''local_cli:owner''] (Inr sample_ops) (Inr sample_profile) None ''w'' int 1
      sample_world = (Inr (Some ''h1''), w') \<and> w_store w' = [b_content b] \<and>
    (\<exists>row'. find_approval 1 (w_outbox w') = Some row' \<and> finalizer_state row' = Some ''finalized'' \<and>
       durable_memory_id row' = Some ''h1'' \<and> candidate_json row' = candidate_json sample_row) \<and>
    (\<forall>e\<in>set (events (w_outbox w')). me_id e = 1 \<longrightarrow> me_status e = ''completed'' \<and> completed_memory_id e = Some ''h1'')"
    by (rule finalize_completing [OF _ _ _ v _ _ sample_claimable _ _ sample_nonempty(1) sample_nonempty(2) p _ b(2)])
      (use d b in \<open>simp_all add: sample_ops_def del: One_nat_def\<close>)
  then show ?thesis by auto
qed

lemma finalize_gated_witness:
  "\<exists>w' row r d. finalize_approved_candidate sample_env [''local_cli:owner''] (Inr sample_ops) (Inr sample_profile) None ''w'' int 1
      sample_world = (Inr (Some ''h1''), w') \<and> w_store w' \<noteq> [] \<and>
     find_approval 1 (w_outbox sample_world) = Some row \<and> attests sample_env row (w_audit sample_world) r d"
proof -
  obtain w' where w: "finalize_approved_candidate sample_env [''local_cli:owner''] (Inr sample_ops) (Inr sample_profile) None ''w'' int 1
      sample_world = (Inr (Some ''h1''), w')" "w_store w' \<noteq> w_store sample_world"
    using sample_finalizes by blast
  from finalize_gated [OF w] w show ?thesis by auto
qed

lemma finalize_completes_witness:
  "\<exists>w' row'. finalize_approved_candidate sample_env [''local_cli:owner''] (Inr sample_ops) (Inr sample_profile) None ''w'' int 1
      sample_world = (Inr (Some ''h1''), w') \<and>
     find_approval 1 (w_outbox w') = Some row' \<and> durable_memory_id row' = Some ''h1''"
proof -
  obtain d where d: "attests sample_env sample_row sample_audit sample_receipt d" using sample_attests by blast
  obtain p where p: "principal_default_for_profile (ident sample_env) (prof_name sample_profile) (tenant_scope sample_profile) = Inr p"
    using sample_principal ..
  obtain b where b: "reconstruct_durable_payload sample_env (dumps (JObj [])) (approval_ref 1) 1 (Some ''local_cli'')
       (proposed_by_profile (dget d ''proposed_by_profile'')) (int 1) = Inr b" "admits sample_env sample_profile b"
    using sample_payload by blast
  have v: "given_or None (expected_approved_via sample_env) = ''local_cli''"
    by (simp add: given_or_def expected_approved_via_def sample_env_def)
  have "\<exists>w'. finalize_approved_candidate sample_env [''local_cli:owner''] (Inr sample_ops) (Inr sample_profile) None ''w'' int 1
      sample_world = (Inr (Some ''h1''), w') \<and> w_store w' = [b_content b] \<and>
    (\<exists>row'. find_approval 1 (w_outbox w') = Some row' \<and> finalizer_state row' = Some ''finalized'' \<and>
       durable_memory_id row' = Some ''h1'' \<and> candidate_json row' = candidate_json sample_row) \<and>
    (\<forall>e\<in>set (events (w_outbox w')). me_id e = 1 \<longrightarrow> me_status e = ''completed'' \<and> completed_memory_id e = Some ''h1'')"
    by (rule finalize_completes [OF _ _ _ v _ _ sample_claimable _ _ sample_nonempty(1) sample_nonempty(2) p _ b(2)])
      (use d b in \<open>simp_all add: sample_ops_def del: One_nat_def\<close>)
  then show ?thesis by blast
qed

lemma sample_claim:
  "\<exists>d. claim_candidate sample_env [''local_cli:owner''] ''local_cli'' ''w'' 0 1 (w_outbox sample_world) sample_audit =
     (Inr (Claimed sample_row d), set_approval 1 (claim_row ''w'' 0) (w_outbox sample_world))"
proof -
  obtain d where d: "attests sample_env sample_row sample_audit sample_receipt d" using sample_attests by blast
  have "claim_candidate sample_env [''local_cli:owner''] ''local_cli'' ''w'' 0 1 (w_outbox sample_world) sample_audit =
     (Inr (Claimed sample_row d), set_approval 1 (claim_row ''w'' 0) (w_outbox sample_world))"
    by (rule claim_succeeds [OF _ _ _ _ sample_claimable _ d sample_nonempty(1,2)]) simp_all
  then show ?thesis by (rule exI [of _ d])
qed

lemma claim_is_lease_witness:
  "\<exists>db' row' d db''. claim_candidate sample_env [''local_cli:owner''] ''local_cli'' ''other'' (seconds 300) 1 db' sample_audit = (Inr Skipped, db') \<and>
     claim_candidate sample_env [''local_cli:owner''] ''local_cli'' ''other'' (seconds 301) 1 db' sample_audit = (Inr (Claimed row' d), db'') \<and>
     still_owns_claim 1 ''w'' db' = Inr True \<and> still_owns_claim 1 ''w'' db'' = Inr False"
proof -
  obtain d where c: "claim_candidate sample_env [''local_cli:owner''] ''local_cli'' ''w'' 0 1 (w_outbox sample_world) sample_audit =
     (Inr (Claimed sample_row d), set_approval 1 (claim_row ''w'' 0) (w_outbox sample_world))"
    using sample_claim by blast
  have t: "seconds 300 \<le> 0 + seconds FINALIZER_STALE_TTL_SECONDS" "0 + seconds FINALIZER_STALE_TTL_SECONDS < seconds 301"
    by (simp_all add: seconds_def FINALIZER_STALE_TTL_SECONDS_def)
  have n: "''other'' \<noteq> ''w''" by simp
  show ?thesis
    using claim_is_lease [OF c, of "seconds 300" "''other''"] claim_is_lease [OF c, of "seconds 301" "''other''"] t n by blast
qed

lemma forget_wins_witness:
  "\<exists>res w'. record_phase sample_env sample_ops \<lparr>pr_id = ''p'', tenant_id = ''t_owner'', subject_id = ''s'', actor_kind = ''agent'',
       scopes = {}, roles = {}, root_flag = False, bg_token = None\<rparr>
       \<lparr>b_wing = [], b_room = [], b_content = [], b_metadata = [], b_tenant = []\<rparr> ''w'' ''h1'' sample_row 5
       (sample_world\<lparr>w_outbox := sample_outbox\<lparr>approvals := []\<rparr>\<rparr>) = (res, w') \<and> res = Inr None"
proof -
  let ?p = "\<lparr>pr_id = ''p'', tenant_id = ''t_owner'', subject_id = ''s'', actor_kind = ''agent'',
       scopes = {}, roles = {}, root_flag = False, bg_token = None\<rparr> :: principal"
  let ?b = "\<lparr>b_wing = [], b_room = [], b_content = [], b_metadata = [], b_tenant = []\<rparr>"
  let ?w = "sample_world\<lparr>w_outbox := sample_outbox\<lparr>approvals := []\<rparr>\<rparr>"
  obtain res w' where r: "record_phase sample_env sample_ops ?p ?b ''w'' ''h1'' sample_row 5 ?w = (res, w')"
    by (cases "record_phase sample_env sample_ops ?p ?b ''w'' ''h1'' sample_row 5 ?w")
  have f: "find_approval (aq_id sample_row) (w_outbox ?w) = None" by (simp add: find_approval_def)
  have up: "outbox_up (w_outbox ?w)" by (simp add: sample_outbox_def)
  have "res = Inr None" using forget_wins [OF _ up r] f by simp
  with r show ?thesis by blast
qed

lemma refusal_lifts_forget_claim_witness:
  "\<exists>db db' row' d. find_approval 1 db = Some (sample_row\<lparr>finalizer_state := Some ''rtbf_deleting''\<rparr>) \<and>
     claim_candidate sample_env [''local_cli:owner''] ''local_cli'' ''w'' 0 1 db (sample_audit\<lparr>audit_up := False\<rparr>) = (Inr Skipped, db') \<and>
     fst (claim_candidate sample_env [''local_cli:owner''] ''local_cli'' ''w'' 0 1 db' sample_audit) = Inr (Claimed row' d)"
proof -
  let ?row = "sample_row\<lparr>finalizer_state := Some ''rtbf_deleting''\<rparr>"
  let ?db = "sample_outbox\<lparr>approvals := [?row]\<rparr>"
  obtain d where "attests sample_env sample_row sample_audit sample_receipt d" using sample_attests by blast
  then have d: "attests sample_env ?row sample_audit sample_receipt d" by (simp add: attests_def)
  have f: "find_approval 1 ?db = Some ?row" by (simp add: find_approval_def)
  have "claim_candidate sample_env [''local_cli:owner''] ''local_cli'' ''w'' 0 1 ?db sample_audit = (Inr Skipped, ?db) \<and>
    (\<exists>db' row'. claim_candidate sample_env [''local_cli:owner''] ''local_cli'' ''w'' 0 1 ?db (sample_audit\<lparr>audit_up := False\<rparr>) = (Inr Skipped, db') \<and>
       find_approval 1 db' = Some row' \<and> finalizer_state row' = Some ''failed'' \<and>
       claim_candidate sample_env [''local_cli:owner''] ''local_cli'' ''w'' 0 1 db' sample_audit = (Inr (Claimed row' d), set_approval 1 (claim_row ''w'' 0) db'))"
    by (rule refusal_lifts_forget_claim [OF f _ _ _ _ _ _ d sample_nonempty(1,2)])
      (simp_all add: sample_outbox_def)
  with f show ?thesis by fastforce
qed

lemma backfill_attests_witness:
  "\<exists>db db' au' row' r d. backfill_one sample_env ''p'' (default_tenant_id (ident sample_env)) None 5 1 db \<lparr>audit_rows = [], audit_up = True\<rparr>
       = (Inr True, db', au') \<and> find_approval 1 db' = Some row' \<and> attests sample_env row' au' r d"
proof -
  let ?row = "sample_row\<lparr>audit_receipt_seq := None, audit_receipt_hash := None, candidate_sha256 := None\<rparr>"
  let ?db = "sample_outbox\<lparr>approvals := [?row]\<rparr>"
  let ?au = "\<lparr>audit_rows = [], audit_up = True\<rparr>"
  have i: "intact (sha256_hex sample_env) (audit_rows ?au)" by (simp add: intact_def)
  have f: "find_approval 1 ?db = Some ?row" by (simp add: find_approval_def)
  have el: "eligible_null ?row" by (simp add: eligible_null_def)
  have up: "outbox_up ?db" "audit_up ?au" by (simp_all add: sample_outbox_def)
  have insp: "inspection_of None (default_tenant_id (ident sample_env)) ?row \<notin> {Some LookupUnavailable, Some LookupFailed}"
    by (simp add: inspection_of_def)
  obtain db' au' where b: "backfill_one sample_env ''p'' (default_tenant_id (ident sample_env)) None 5 1 ?db ?au = (Inr True, db', au')"
    using backfill_one_eq [OF f el up i insp refl] by blast
  from backfill_attests [OF i b] b show ?thesis by blast
qed

end
