(* ===== verification/Wing_Boost.thy ===== *)
theory Wing_Boost
  imports Json
begin

text \<open>
  \<open>panella/wing_boost.py\<close>: the ranking factor of a hit's wing.  The factors are the literals of the
  floats.  The configured rules (a YAML file) are a parameter, and so is the matching of their regular
  expressions, \<open>search p q\<close>: \<open>None\<close> when \<open>p\<close> is not a regular expression.
\<close>

definition HINT_WING_BOOST_FACTOR :: string where
  "HINT_WING_BOOST_FACTOR = ''1.5''"

definition OUT_OF_HINT_WING_FACTOR :: string where
  "OUT_OF_HINT_WING_FACTOR = ''0.7''"

definition DEFAULT_WING_FACTOR :: string where
  "DEFAULT_WING_FACTOR = ''1.0''"

record wing_bias =
  target_wings :: "string list"
  downweight_wings :: "string list"
  bias_source :: string
  factors :: "(string \<times> string) list"
  downweight_all_others :: bool

text \<open>\<open>acc\<close> holds the values seen, in order.\<close>

fun normalize_wings :: "string list \<Rightarrow> string list \<Rightarrow> string list" where
  "normalize_wings acc [] = acc"
| "normalize_wings acc (w # ws) =
     (let value = py_strip w in
      normalize_wings (if value \<noteq> [] \<and> value \<notin> set acc then acc @ [value] else acc) ws)"

definition bias_of :: "string list \<Rightarrow> string list \<Rightarrow> string \<Rightarrow> bool \<Rightarrow> wing_bias" where
  "bias_of targets down src others =
     \<lparr>target_wings = targets, downweight_wings = down, bias_source = src,
      factors = foldl (\<lambda>d w. if dget d w = None then dset w OUT_OF_HINT_WING_FACTOR d else d)
                  (dict_update [] (map (\<lambda>w. (w, HINT_WING_BOOST_FACTOR)) targets)) down,
      downweight_all_others = others\<rparr>"

text \<open>\<open>[str(w) for w in rule.get(key, [])]\<close>\<close>

definition rule_wings :: "dict \<Rightarrow> string \<Rightarrow> string list res" where
  "rule_wings rule key = (case dget rule key of None \<Rightarrow> Inr []
     | Some (JList xs) \<Rightarrow> Inr (map py_str xs)
     | Some (JStr s) \<Rightarrow> Inr (map (\<lambda>c. [c]) s)
     | Some (JObj d) \<Rightarrow> Inr (map fst d)
     | Some _ \<Rightarrow> Inl (TypeError ''object is not iterable''))"

fun infer_wings_from ::
  "(string \<Rightarrow> string \<Rightarrow> bool option) \<Rightarrow> dict list \<Rightarrow> string \<Rightarrow> string list \<Rightarrow> string list \<Rightarrow> (string list \<times> string list) res" where
  "infer_wings_from search [] query up down = Inr (normalize_wings [] up, normalize_wings [] down)"
| "infer_wings_from search (rule # rules) query up down =
     (let pattern = str_or (dget rule ''pattern'') [] in
      if pattern = [] \<or> search pattern query \<noteq> Some True then infer_wings_from search rules query up down
      else rbind (rule_wings rule ''boost_wings'') (\<lambda>b. rbind (rule_wings rule ''downweight_wings'') (\<lambda>d.
           infer_wings_from search rules query (up @ b) (down @ d))))"

definition infer_wings ::
  "(string \<Rightarrow> string \<Rightarrow> bool option) \<Rightarrow> dict list \<Rightarrow> string \<Rightarrow> (string list \<times> string list) res" where
  "infer_wings search rules query = infer_wings_from search rules query [] []"

definition resolve_wing_bias ::
  "(string \<Rightarrow> string \<Rightarrow> bool option) \<Rightarrow> dict list \<Rightarrow> string \<Rightarrow> string list \<Rightarrow> wing_bias res" where
  "resolve_wing_bias search rules query hint =
     (let hinted = normalize_wings [] hint in
      if hinted \<noteq> [] then Inr (bias_of hinted [] ''goldset'' True)
      else rbind (infer_wings search rules query) (\<lambda>(inferred, down).
        Inr (if inferred \<noteq> [] then bias_of inferred down ''inferred'' False
             else \<lparr>target_wings = [], downweight_wings = [], bias_source = ''none'', factors = [],
                   downweight_all_others = False\<rparr>)))"

definition wing_boost_factor :: "string \<Rightarrow> wing_bias \<Rightarrow> string" where
  "wing_boost_factor hit_wing bias =
     (let hit = py_strip hit_wing in
      if hit = [] \<or> bias_source bias = ''none'' then DEFAULT_WING_FACTOR
      else case dget (factors bias) hit of
          Some f \<Rightarrow> f
        | None \<Rightarrow> if downweight_all_others bias then OUT_OF_HINT_WING_FACTOR else DEFAULT_WING_FACTOR)"

definition wing_boost ::
  "(string \<Rightarrow> string \<Rightarrow> bool option) \<Rightarrow> dict list \<Rightarrow> string \<Rightarrow> string list \<Rightarrow> string res" where
  "wing_boost search rules hit_wing hint =
     rbind (resolve_wing_bias search rules [] hint) (\<lambda>bias. Inr (wing_boost_factor hit_wing bias))"

subsection \<open>What the factor is\<close>

lemma set_normalize_wings: "set (normalize_wings acc ws) = set acc \<union> (py_strip ` set ws - {[]})"
  by (induction acc ws rule: normalize_wings.induct) (auto simp: Let_def)

lemma distinct_normalize_wings: "distinct acc \<Longrightarrow> distinct (normalize_wings acc ws)"
  by (induction acc ws rule: normalize_wings.induct) (auto simp: Let_def)

lemma dget_targets:
  "dget (dict_update d (map (\<lambda>w. (w, f)) ws)) k = (if k \<in> set ws then Some f else dget d k)"
  by (induction ws arbitrary: d) (auto simp: dict_simps)

lemma dget_down:
  "dget (foldl (\<lambda>d w. if dget d w = None then dset w f d else d) d ws) k =
     (case dget d k of Some x \<Rightarrow> Some x | None \<Rightarrow> if k \<in> set ws then Some f else None)"
  by (induction ws arbitrary: d) (auto simp: dict_simps split: option.splits)

text \<open>A wing that is both boosted and downweighted is boosted.\<close>

lemma factor_of_bias:
  "dget (factors (bias_of ts ds src b)) k =
     (if k \<in> set ts then Some HINT_WING_BOOST_FACTOR else if k \<in> set ds then Some OUT_OF_HINT_WING_FACTOR else None)"
  by (simp add: bias_of_def dget_down dget_targets)

lemma hinted_boost:
  assumes "normalize_wings [] hint \<noteq> []"
  shows "wing_boost search rules w hint = Inr
     (if py_strip w = [] then DEFAULT_WING_FACTOR
      else if py_strip w \<in> py_strip ` set hint then HINT_WING_BOOST_FACTOR else OUT_OF_HINT_WING_FACTOR)"
  using assms
  by (auto simp: wing_boost_def resolve_wing_bias_def wing_boost_factor_def Let_def factor_of_bias set_normalize_wings
      bias_of_def[of _ _ _ True, THEN arg_cong[of _ _ bias_source]]
      bias_of_def[of _ _ _ True, THEN arg_cong[of _ _ downweight_all_others]])

lemma wing_boost_values:
  assumes "wing_boost search rules w hint = Inr f"
  shows "f \<in> {HINT_WING_BOOST_FACTOR, OUT_OF_HINT_WING_FACTOR, DEFAULT_WING_FACTOR}"
  using assms
  by (auto simp: wing_boost_def resolve_wing_bias_def wing_boost_factor_def Let_def factor_of_bias rbind_Inr_iff
      split: if_splits option.splits)

end
