(* ===== verification/Store_Adapter.thy ===== *)
theory Store_Adapter
  imports Finalizer Wing_Boost
begin

text \<open>
  \<open>panella/panella_adapter.py\<close>: what Panella sends to the memory store and how it reads the answers.  The
  store itself is a service outside the program; \<open>http\<close> is a record of the requests the adapter makes,
  each a function of the store state \<open>'s\<close> to the response (with the retries of \<open>_request\<close> inside).
  \<open>request\<close> is that retry loop over single attempts.  The listing by pages may never end when the store
  always announces another page, so it is a partial function.  Semantic search multiplies floating-point
  scores and is left out, as are the key file and the per-row lock of \<open>tag_lock.py\<close>.
\<close>

subsection \<open>Requests and responses\<close>

record response =
  r_code :: int
  r_json :: "json option"

datatype sent = Transient exc | Broken exc | Answered response

definition RETRYABLE_STATUS :: "int list" where
  "RETRYABLE_STATUS = [500, 502, 503, 504]"

fun request :: "('s \<Rightarrow> sent \<times> 's) \<Rightarrow> nat \<Rightarrow> 's \<Rightarrow> response res \<times> 's" where
  "request send 0 s = (case send s of
      (Transient e, s') \<Rightarrow> (Inl e, s') | (Broken e, s') \<Rightarrow> (Inl e, s') | (Answered r, s') \<Rightarrow> (Inr r, s'))"
| "request send (Suc n) s = (case send s of
      (Transient e, s') \<Rightarrow> request send n s'
    | (Broken e, s') \<Rightarrow> (Inl e, s')
    | (Answered r, s') \<Rightarrow> if r_code r \<in> set RETRYABLE_STATUS then request send n s' else (Inr r, s'))"

record 's http =
  http_get :: "string \<Rightarrow> 's \<Rightarrow> response res"
  http_page :: "nat \<Rightarrow> 's \<Rightarrow> response res"
  http_find :: "json \<Rightarrow> 's \<Rightarrow> response res"
  http_search :: "json \<Rightarrow> 's \<Rightarrow> response res"
  http_post :: "json \<Rightarrow> 's \<Rightarrow> response res \<times> 's"
  http_put :: "string \<Rightarrow> json \<Rightarrow> 's \<Rightarrow> response res \<times> 's"
  http_delete :: "string \<Rightarrow> 's \<Rightarrow> response res \<times> 's"

definition raise_for_status :: "response \<Rightarrow> unit res" where
  "raise_for_status r = (if 200 \<le> r_code r \<and> r_code r \<le> 299 then Inr () else Inl (StoreError ''HTTPStatusError''))"

definition resp_json :: "response \<Rightarrow> json res" where
  "resp_json r = (case r_json r of None \<Rightarrow> Inl JSONDecodeError | Some j \<Rightarrow> Inr j)"

definition as_obj :: "json \<Rightarrow> dict res" where
  "as_obj j = (case j of JObj d \<Rightarrow> Inr d | _ \<Rightarrow> Inl AttributeError)"

text \<open>\<open>resp.raise_for_status(); resp.json() or {}\<close>\<close>

definition resp_dict :: "response \<Rightarrow> dict res" where
  "resp_dict r = rbind (resp_json r) (\<lambda>j. as_obj (if truthy j then j else JObj []))"

definition ok_dict :: "response \<Rightarrow> dict res" where
  "ok_dict r = rbind (raise_for_status r) (\<lambda>_. resp_dict r)"

text \<open>\<open>list(x or [])\<close>, and \<open>dict(x or {})\<close> of an object.\<close>

definition list_of :: "json option \<Rightarrow> json list res" where
  "list_of x = (case x of None \<Rightarrow> Inr []
     | Some v \<Rightarrow> if \<not> truthy v then Inr []
         else (case v of JList xs \<Rightarrow> Inr xs | JStr s \<Rightarrow> Inr (map (\<lambda>c. JStr [c]) s) | JObj d \<Rightarrow> Inr (map (JStr \<circ> fst) d)
               | _ \<Rightarrow> Inl (TypeError ''object is not iterable'')))"

definition dict_of :: "json option \<Rightarrow> dict res" where
  "dict_of x = (case x of None \<Rightarrow> Inr []
     | Some v \<Rightarrow> if \<not> truthy v then Inr [] else (case v of JObj d \<Rightarrow> Inr d | _ \<Rightarrow> Inl (TypeError ''object is not a mapping'')))"

text \<open>\<open>list(dict.fromkeys(xs))\<close>: lists and objects cannot be keys.\<close>

fun hashable :: "json \<Rightarrow> bool" where
  "hashable (JList _) = False"
| "hashable (JObj _) = False"
| "hashable _ = True"

definition dedup :: "'a list \<Rightarrow> 'a list" where
  "dedup xs = rev (remdups (rev xs))"

definition fromkeys :: "json list \<Rightarrow> json list res" where
  "fromkeys xs = (if list_all hashable xs then Inr (dedup xs) else Inl (TypeError ''unhashable type''))"

text \<open>\<open>a or b\<close> on values\<close>

definition jor :: "json option \<Rightarrow> json \<Rightarrow> json" where
  "jor x d = (case x of None \<Rightarrow> d | Some v \<Rightarrow> if truthy v then v else d)"

text \<open>A loop that appends to a list, skips or raises.\<close>

fun filter_map_res :: "('a \<Rightarrow> 'b option res) \<Rightarrow> 'a list \<Rightarrow> 'b list res" where
  "filter_map_res f [] = Inr []"
| "filter_map_res f (x # xs) =
     rbind (f x) (\<lambda>y. rbind (filter_map_res f xs) (\<lambda>ys. Inr (case y of None \<Rightarrow> ys | Some z \<Rightarrow> z # ys)))"

lemma filter_map_res_set:
  "filter_map_res f xs = Inr ys \<Longrightarrow> set ys = {y. \<exists>x \<in> set xs. f x = Inr (Some y)}"
  by (induction xs arbitrary: ys) (auto simp: rbind_Inr_iff split: option.splits)

lemma filter_map_res_length: "filter_map_res f xs = Inr ys \<Longrightarrow> length ys \<le> length xs"
  by (induction xs arbitrary: ys) (auto simp: rbind_Inr_iff le_SucI split: option.splits)

subsection \<open>Credentials\<close>

text \<open>The key file as found: permission bits and text.  \<open>PanellaAuthMissing\<close> is a \<open>RuntimeError\<close>.\<close>

definition resolve_panella_api_key :: "string option \<Rightarrow> string option \<Rightarrow> (nat \<times> string) option \<Rightarrow> string res" where
  "resolve_panella_api_key cli_arg env_value file =
     (if given_or cli_arg [] \<noteq> [] then Inr (py_strip (the cli_arg))
      else if given_or env_value [] \<noteq> [] \<and> py_strip (the env_value) \<noteq> [] then Inr (py_strip (the env_value))
      else case file of
          None \<Rightarrow> Inl (RuntimeError ''PanellaAuthMissing'')
        | Some (mode, content) \<Rightarrow>
            if mode mod 512 \<noteq> 384 then Inl (RuntimeError ''PanellaAuthMissing'')
            else if py_strip content \<noteq> [] then Inr (py_strip content)
            else Inl (RuntimeError ''PanellaAuthMissing''))"

definition cf_access_headers :: "string option \<Rightarrow> string option \<Rightarrow> (string \<times> string) list" where
  "cf_access_headers client_id client_secret =
     (let cf_id = py_strip (given_or client_id []); cf_token = py_strip (given_or client_secret [])
      in if cf_id \<noteq> [] \<and> cf_token \<noteq> []
         then [(''CF-Access-Client-Id'', cf_id), (''CF-Access-Client-Secret'', cf_token)] else [])"

subsection \<open>Writing a memory\<close>

definition PANELLA_MAX_TAGS_PER_MEMORY :: nat where
  "PANELLA_MAX_TAGS_PER_MEMORY = 100"

definition guard_tags :: "string \<Rightarrow> string \<Rightarrow> string \<Rightarrow> string \<Rightarrow> string \<Rightarrow> json list" where
  "guard_tags wing room agent mtype tenant = map JStr
     [''permanent'', ''status:active'', ''wing:'' @ wing, ''room:'' @ room, ''agent:'' @ agent, ''mtype:'' @ mtype,
      ''tenant:'' @ tenant]"

definition add_body :: "env \<Rightarrow> string \<Rightarrow> string \<Rightarrow> string \<Rightarrow> dict \<Rightarrow> string option \<Rightarrow> dict res" where
  "add_body v wing room content md conv =
     (let mtype = str_or (dget md ''memory_type'') ''observation'';
          agent = py_str (jor (dget md ''agent'') (jor (dget md ''agent_profile'') (JStr ''unknown'')));
          tenant = str_or (dget md ''tenant_id'') (default_tenant_id (ident v))
      in rbind (list_of (dget md ''tags'')) (\<lambda>explicit.
         rbind (fromkeys (guard_tags wing room agent mtype tenant @ explicit)) (\<lambda>tags.
           let meta = AList.delete ''tags'' md;
               meta1 = (if dget meta ''importance_score'' = None then dset ''importance_score'' (JFloat ''2.0'') meta else meta)
           in Inr ([(''content'', JStr content), (''tags'', JList (take PANELLA_MAX_TAGS_PER_MEMORY tags)),
                    (''memory_type'', JStr mtype),
                    (''metadata'', JObj (dict_update meta1 [(''wing'', JStr wing), (''room'', JStr room),
                       (''agent'', JStr agent), (''tenant_id'', JStr tenant)]))] @
                   (case conv of None \<Rightarrow> [] | Some c \<Rightarrow> [(''conversation_id'', JStr c)])))))"

fun contains :: "string \<Rightarrow> string \<Rightarrow> bool" where
  "contains p [] = (p = [])"
| "contains p (c # s) = (startswith p (c # s) \<or> contains p s)"

definition word_char :: "char \<Rightarrow> bool" where
  "word_char c \<longleftrightarrow> ident_char (py_lower_char c)"

definition hex_digit :: "char \<Rightarrow> bool" where
  "hex_digit c \<longleftrightarrow> is_hex_char (py_lower_char c)"

text \<open>\<open>re.search\<close> of a word of 64 hexadecimal digits; the flag says that a word character precedes.\<close>

fun find_hash :: "bool \<Rightarrow> string \<Rightarrow> string option" where
  "find_hash w [] = None"
| "find_hash w (c # s) =
     (let h = take 64 (c # s) in
      if \<not> w \<and> length h = 64 \<and> list_all hex_digit h \<and> (case drop 64 (c # s) of [] \<Rightarrow> True | d # _ \<Rightarrow> \<not> word_char d)
      then Some h else find_hash (word_char c) s)"

definition duplicate_info :: "dict \<Rightarrow> bool \<times> string option \<times> string" where
  "duplicate_info payload =
     (let message = str_or (dget payload ''message'') []; lowered = py_lower message in
      if dget payload ''success'' \<noteq> Some (JBool False) then (False, None, ''unknown'')
      else if \<not> contains ''duplicate content'' lowered then (False, None, ''unknown'')
      else (True, find_hash False message,
            if contains ''semantically similar'' lowered then ''semantic''
            else if contains ''exact match'' lowered then ''exact'' else ''unknown''))"

definition written_hash :: "dict \<Rightarrow> string res" where
  "written_hash payload =
     (let h = jor (dget payload ''content_hash'')
                (case dget payload ''memory'' of Some (JObj m) \<Rightarrow> get_or_null m ''content_hash'' | _ \<Rightarrow> JNull)
      in if truthy h then Inr (py_str h) else Inl PanellaUnknownWriteOutcome)"

definition adapter_add_memory ::
  "env \<Rightarrow> 's http \<Rightarrow> bool \<Rightarrow> string \<Rightarrow> string \<Rightarrow> string \<Rightarrow> dict \<Rightarrow> string option \<Rightarrow> 's \<Rightarrow> string res \<times> 's" where
  "adapter_add_memory v http sanitize_content wing room content md conv s =
     (case add_body v wing room (if sanitize_content then sanitize v content else content) md conv of
        Inl e \<Rightarrow> (Inl e, s)
      | Inr body \<Rightarrow>
          (let (r, s') = http_post http (JObj body) s in
           (rbind r (\<lambda>resp. rbind (ok_dict resp) (\<lambda>payload.
              case duplicate_info payload of
                (True, h, _) \<Rightarrow> Inl (PanellaDedupSkipped h)
              | (False, _, _) \<Rightarrow> written_hash payload)), s')))"

subsection \<open>Reading hits\<close>

definition EXCLUDED_RECALL_STATUSES :: "string list" where
  "EXCLUDED_RECALL_STATUSES = [''candidate'', ''superseded'', ''tombstoned'']"

text \<open>The last value of the tags \<open>key:value\<close>.\<close>

definition tag_values :: "json list \<Rightarrow> string \<Rightarrow> string list" where
  "tag_values tags key =
     List.map_filter (\<lambda>t. case t of JStr s \<Rightarrow> if startswith (key @ '':'') s then Some (drop (length key + 1) s) else None | _ \<Rightarrow> None) tags"

definition parse_namespaced_tag :: "json list \<Rightarrow> string \<Rightarrow> string option" where
  "parse_namespaced_tag tags key = (let m = tag_values tags key in if m = [] then None else Some (last m))"

definition normalize_hit :: "env \<Rightarrow> dict \<Rightarrow> dict res" where
  "normalize_hit v raw' =
     rbind (dict_of (dget raw' ''metadata'')) (\<lambda>meta.
     rbind (list_of (dget raw' ''tags'')) (\<lambda>tags.
       let tag = parse_namespaced_tag tags;
           text = (\<lambda>key name d. str_or (dget meta key) (given_or (tag name) d));
           hash = get_or_null raw' ''content_hash''
       in Inr [(''drawer_id'', hash), (''id'', hash), (''content'', get_or_null raw' ''content''),
          (''wing'', JStr (text ''wing'' ''wing'' ''knowledge'')),
          (''room'', JStr (text ''room'' ''room'' ''legacy'')),
          (''agent'', jor (dget meta ''agent'') (JStr (given_or (tag ''agent'') ''unknown''))),
          (''memory_type'', jor (dget raw' ''memory_type'')
             (jor (dget meta ''memory_type'') (JStr (given_or (tag ''mtype'') ''observation'')))),
          (''tenant_id'', JStr (text ''tenant_id'' ''tenant'' (default_tenant_id (ident v)))),
          (''status'', JStr (text ''status'' ''status'' ''active'')),
          (''tags'', JList tags), (''metadata'', JObj meta),
          (''created_at'', get_or_null raw' ''created_at''), (''created_at_iso'', get_or_null raw' ''created_at_iso''),
          (''updated_at'', get_or_null raw' ''updated_at''), (''updated_at_iso'', get_or_null raw' ''updated_at_iso'')]))"

definition excluded_tag :: "json \<Rightarrow> bool" where
  "excluded_tag t = (case t of JStr s \<Rightarrow> startswith ''status:'' s \<and> py_lower (drop 7 s) \<in> set EXCLUDED_RECALL_STATUSES | _ \<Rightarrow> False)"

definition has_excluded_recall_status :: "dict \<Rightarrow> bool res" where
  "has_excluded_recall_status hit =
     (if py_lower (str_or (dget hit ''status'') []) \<in> set EXCLUDED_RECALL_STATUSES then Inr True
      else rbind (list_of (dget hit ''tags'')) (\<lambda>tags. Inr (list_ex excluded_tag tags)))"

definition adapter_get_drawer :: "env \<Rightarrow> 's http \<Rightarrow> string \<Rightarrow> 's \<Rightarrow> dict option res" where
  "adapter_get_drawer v http i s =
     rbind (http_get http i s) (\<lambda>resp.
       if r_code resp = 404 then Inr None
       else rbind (raise_for_status resp) (\<lambda>_. rbind (resp_json resp) (\<lambda>j.
         case j of
           JObj raw' \<Rightarrow> if dget raw' ''content_hash'' = None then Inr None else map_sum id Some (normalize_hit v raw')
         | _ \<Rightarrow> Inr None)))"

subsection \<open>Transitions of a row\<close>

text \<open>
  The locked GET-merge-PUT: the tags are replaced as a whole, the metadata is a delta the store merges.
  \<open>n\<close> attempts are left; after the last one the answer is False.
\<close>

definition kept_tags :: "string list \<Rightarrow> json list \<Rightarrow> json list" where
  "kept_tags dropped tags = filter (\<lambda>t. t \<notin> JStr ` set dropped) tags"

definition merged_tags :: "string list \<Rightarrow> string list \<Rightarrow> json list \<Rightarrow> json list res" where
  "merged_tags dropped added tags = fromkeys (kept_tags dropped tags @ map JStr added)"

definition transition_landed :: "string list \<Rightarrow> string list \<Rightarrow> json list \<Rightarrow> json list \<Rightarrow> bool" where
  "transition_landed dropped added before now \<longleftrightarrow>
     JStr ` set added \<subseteq> set now \<and> JStr ` set dropped \<inter> set now = {} \<and> set (kept_tags dropped before) \<subseteq> set now"

text \<open>The row as the GET of an attempt reads it: \<open>None\<close> when there is none.\<close>

definition transition_read :: "response \<Rightarrow> (json list \<times> dict) option res" where
  "transition_read resp =
     (if r_code resp = 404 then Inr None
      else rbind (raise_for_status resp) (\<lambda>_. rbind (resp_json resp) (\<lambda>j.
        case j of
          JObj row \<Rightarrow>
            if dget row ''content_hash'' = None then Inl (RuntimeError ''unexpected GET shape'')
            else rbind (list_of (dget row ''tags'')) (\<lambda>tags. rbind (dict_of (dget row ''metadata'')) (\<lambda>meta.
                 Inr (Some (tags, meta))))
        | _ \<Rightarrow> Inl (RuntimeError ''unexpected GET shape''))))"

definition transition_tags :: "response \<Rightarrow> json list res" where
  "transition_tags resp = rbind (ok_dict resp) (\<lambda>d. rbind (list_of (dget d ''tags'')) fromkeys)"

fun tag_transition ::
  "'s http \<Rightarrow> string \<Rightarrow> string list \<Rightarrow> string list \<Rightarrow> (dict \<Rightarrow> dict) \<Rightarrow> nat \<Rightarrow> 's \<Rightarrow> bool res \<times> 's" where
  "tag_transition http i dropped added delta 0 s = (Inr False, s)"
| "tag_transition http i dropped added delta (Suc n) s =
     (case rbind (http_get http i s) transition_read of
        Inl e \<Rightarrow> (Inl e, s)
      | Inr None \<Rightarrow> (Inr False, s)
      | Inr (Some (tags, meta)) \<Rightarrow>
          (case merged_tags dropped added tags of
             Inl e \<Rightarrow> (Inl e, s)
           | Inr new \<Rightarrow>
               (let (r, s') = http_put http i (JObj [(''tags'', JList new), (''metadata'', JObj (delta meta))]) s in
                case rbind r ok_dict of
                  Inl e \<Rightarrow> (Inl e, s')
                | Inr put \<Rightarrow>
                    if \<not> opt_truthy (dget put ''success'') then tag_transition http i dropped added delta n s'
                    else
                      (case rbind (http_get http i s') transition_tags of
                         Inl e \<Rightarrow> (Inl e, s')
                       | Inr now \<Rightarrow>
                           if transition_landed dropped added tags now then (Inr True, s')
                           else tag_transition http i dropped added delta n s'))))"

definition tombstone_delta :: "string \<Rightarrow> string \<Rightarrow> time \<Rightarrow> dict \<Rightarrow> dict" where
  "tombstone_delta who reason now meta =
     [(''status'', JStr ''tombstoned''), (''tombstoned_at'', JStr (utcnow_iso now)), (''tombstone_reason'', JStr reason),
      (''tombstoned_by'', JStr who)]"

definition adapter_tombstone :: "'s http \<Rightarrow> string \<Rightarrow> string \<Rightarrow> string \<Rightarrow> time \<Rightarrow> 's \<Rightarrow> bool res \<times> 's" where
  "adapter_tombstone http i reason who now =
     tag_transition http i [''status:active''] [''status:tombstoned'']
       (tombstone_delta (if who = [] then ''unknown'' else who) reason now) 2"

definition supersede_delta :: "string \<Rightarrow> string option \<Rightarrow> time \<Rightarrow> dict \<Rightarrow> dict" where
  "supersede_delta reason by' now meta =
     [(''status'', JStr ''superseded''), (''valid_to'', jor (dget meta ''valid_to'') (JStr (utcnow_iso now))),
      (''superseded_reason'', JStr reason), (''superseded_by_ref'', opt_json by')]"

definition adapter_supersede :: "'s http \<Rightarrow> string \<Rightarrow> string \<Rightarrow> string option \<Rightarrow> time \<Rightarrow> 's \<Rightarrow> bool res \<times> 's" where
  "adapter_supersede http i reason by' now =
     tag_transition http i [''status:active''] [''status:superseded''] (supersede_delta reason by' now) 2"

definition adapter_ensure_tag :: "'s http \<Rightarrow> string \<Rightarrow> string \<Rightarrow> 's \<Rightarrow> bool res \<times> 's" where
  "adapter_ensure_tag http i tag = tag_transition http i [] [tag] (\<lambda>_. []) 2"

definition adapter_hard_delete :: "'s http \<Rightarrow> string \<Rightarrow> 's \<Rightarrow> bool res \<times> 's" where
  "adapter_hard_delete http i s =
     (let (r, s') = http_delete http i s in
      (rbind r (\<lambda>resp. if r_code resp = 404 then Inr False
         else rbind (ok_dict resp) (\<lambda>d. Inr (case dget d ''success'' of None \<Rightarrow> True | Some x \<Rightarrow> truthy x))), s'))"

subsection \<open>Lookups by tag\<close>

definition query_tags :: "string \<Rightarrow> string \<Rightarrow> json list" where
  "query_tags tag tenant = [JStr tag, JStr ''status:active''] @
     (if tenant \<noteq> [] \<and> tenant \<noteq> ''*'' then [JStr (''tenant:'' @ tenant)] else [])"

definition find_body :: "json list \<Rightarrow> int \<Rightarrow> json" where
  "find_body tags n = JObj [(''tags'', JList tags), (''match_all'', JBool True), (''n_results'', JInt n)]"

definition find_results :: "'s http \<Rightarrow> json list \<Rightarrow> int \<Rightarrow> 's \<Rightarrow> (dict \<times> json list) res" where
  "find_results http tags n s =
     rbind (http_find http (find_body tags n) s) (\<lambda>resp. rbind (ok_dict resp) (\<lambda>payload.
     rbind (list_of (dget payload ''results'')) (\<lambda>rs. Inr (payload, rs))))"

text \<open>The row of a result, when it is an object with a content hash.\<close>

definition result_row :: "json \<Rightarrow> dict option" where
  "result_row sr = (case sr of
      JObj d \<Rightarrow> (case dget d ''memory'' of Some (JObj m) \<Rightarrow> if opt_truthy (dget m ''content_hash'') then Some m else None | _ \<Rightarrow> None)
    | _ \<Rightarrow> None)"

definition row_hash_text :: "dict \<Rightarrow> string" where
  "row_hash_text m = py_str (get_or_null m ''content_hash'')"

definition find_active_hash_by_marker :: "'s http \<Rightarrow> string \<Rightarrow> string \<Rightarrow> 's \<Rightarrow> string option res" where
  "find_active_hash_by_marker http marker tenant s =
     rbind (find_results http (query_tags marker tenant) 2 s) (\<lambda>(payload, rs).
       let unique = dedup (map row_hash_text (List.map_filter result_row rs)) in
       if length unique > 1 then Inl PanellaUnknownWriteOutcome
       else Inr (if unique = [] then None else Some (hd unique)))"

definition FIND_ACTIVE_HASHES_LIMIT :: nat where
  "FIND_ACTIVE_HASHES_LIMIT = 200"

definition total_exceeds :: "json option \<Rightarrow> nat \<Rightarrow> bool" where
  "total_exceeds found n = (case found of
      Some (JInt t) \<Rightarrow> t > int n | Some (JBool b) \<Rightarrow> b \<and> n = 0 | _ \<Rightarrow> False)"

text \<open>\<open>all(t in mem_tags for t in tags)\<close>: membership in a list, a substring of a text.\<close>

definition row_has_tags :: "json list \<Rightarrow> dict \<Rightarrow> bool res" where
  "row_has_tags tags m = (case dget m ''tags'' of None \<Rightarrow> Inr False
     | Some v \<Rightarrow>
         if \<not> truthy v then Inr False
         else (case v of
             JList ts \<Rightarrow> Inr (set tags \<subseteq> set ts)
           | JObj d \<Rightarrow> Inr (set tags \<subseteq> (JStr \<circ> fst) ` set d)
           | JStr s \<Rightarrow> Inr (list_all (\<lambda>t. case t of JStr u \<Rightarrow> contains u s | _ \<Rightarrow> False) tags)
           | _ \<Rightarrow> Inl (TypeError ''argument is not iterable'')))"

definition rows_with_tags :: "json list \<Rightarrow> dict list \<Rightarrow> dict list res" where
  "rows_with_tags tags ms = filter_map_res (\<lambda>m. rbind (row_has_tags tags m) (\<lambda>b. Inr (if b then Some m else None))) ms"

definition find_active_hashes_by_tag :: "'s http \<Rightarrow> nat \<Rightarrow> string \<Rightarrow> string \<Rightarrow> 's \<Rightarrow> string list res" where
  "find_active_hashes_by_tag http limit tag tenant s =
     (let tags = query_tags tag tenant in
      rbind (find_results http tags (int limit) s) (\<lambda>(payload, rs).
        if total_exceeds (dget payload ''total_found'') (length rs) \<or> length rs \<ge> limit then Inl PanellaUnknownWriteOutcome
        else rbind (rows_with_tags tags (List.map_filter result_row rs)) (\<lambda>ms. Inr (dedup (map row_hash_text ms)))))"

subsection \<open>Searching and listing\<close>

text \<open>
  Scores are floats: \<open>to_float\<close> is \<open>float(x)\<close> as a literal (\<open>None\<close> when it raises), \<open>fmul\<close> the product of two
  literals and \<open>frank\<close> the position of a score, or of \<open>-inf\<close>, in the order that sorting uses.
\<close>

record 'r float_ops =
  to_float :: "json \<Rightarrow> string option"
  fmul :: "string \<Rightarrow> string \<Rightarrow> string"
  frank :: "string option \<Rightarrow> 'r"

definition PANELLA_OVERFETCH_N :: nat where
  "PANELLA_OVERFETCH_N = 40"

definition foreign_tenant :: "string list \<Rightarrow> dict \<Rightarrow> bool" where
  "foreign_tenant tenants hit \<longleftrightarrow>
     tenants \<noteq> [] \<and> ''*'' \<notin> set tenants \<and> get_or_null hit ''tenant_id'' \<notin> JStr ` set tenants"

definition result_memory :: "json \<Rightarrow> dict option" where
  "result_memory sr = (case sr of
      JObj d \<Rightarrow> (case dget d ''memory'' of Some (JObj m) \<Rightarrow> if m = [] then None else Some m | _ \<Rightarrow> None)
    | _ \<Rightarrow> None)"

definition result_score :: "'r float_ops \<Rightarrow> json \<Rightarrow> string option" where
  "result_score fl sr = (case sr of
      JObj d \<Rightarrow> (case dget d ''similarity_score'' of None \<Rightarrow> None | Some JNull \<Rightarrow> None | Some x \<Rightarrow> to_float fl x)
    | _ \<Rightarrow> None)"

definition boosted_hit ::
  "'r float_ops \<Rightarrow> (string \<Rightarrow> string list \<Rightarrow> string res) \<Rightarrow> string list \<Rightarrow> json \<Rightarrow> dict \<Rightarrow> dict res" where
  "boosted_hit fl boost wings_hint sr hit =
     (case result_score fl sr of
        None \<Rightarrow> Inr hit
      | Some x \<Rightarrow>
          if wings_hint = [] then Inr (dset ''score'' (JFloat x) hit)
          else rbind (boost (str_or (dget hit ''wing'') []) wings_hint) (\<lambda>f.
               Inr (dset ''score'' (JFloat (fmul fl x f)) hit)))"

definition search_hit ::
  "env \<Rightarrow> 'r float_ops \<Rightarrow> (string \<Rightarrow> string list \<Rightarrow> string res) \<Rightarrow> string list \<Rightarrow> string list \<Rightarrow> json \<Rightarrow> dict option res" where
  "search_hit v fl boost wings_hint tenants sr =
     (case result_memory sr of
        None \<Rightarrow> Inr None
      | Some m \<Rightarrow>
          rbind (normalize_hit v m) (\<lambda>hit. rbind (has_excluded_recall_status hit) (\<lambda>excluded.
            if excluded \<or> foreign_tenant tenants hit then Inr None
            else rbind (boosted_hit fl boost wings_hint sr hit) (\<lambda>h. Inr (Some h)))))"

definition hit_rank :: "'r float_ops \<Rightarrow> dict \<Rightarrow> 'r" where
  "hit_rank fl hit = frank fl (case dget hit ''score'' of Some (JFloat x) \<Rightarrow> Some x | _ \<Rightarrow> None)"

text \<open>\<open>sort(key=f, reverse=True)\<close>: equal elements keep their order.\<close>

definition sort_desc :: "('a \<Rightarrow> 'k::linorder) \<Rightarrow> 'a list \<Rightarrow> 'a list" where
  "sort_desc f xs = rev (sort_key f (rev xs))"

definition search_body :: "string \<Rightarrow> nat \<Rightarrow> json" where
  "search_body query k = JObj [(''query'', JStr query), (''n_results'', JInt (int (max k PANELLA_OVERFETCH_N)))]"

definition search_memories ::
  "env \<Rightarrow> 's http \<Rightarrow> ('r::linorder) float_ops \<Rightarrow> (string \<Rightarrow> string list \<Rightarrow> string res) \<Rightarrow> string \<Rightarrow> nat \<Rightarrow> string list \<Rightarrow>
   string list \<Rightarrow> 's \<Rightarrow> dict list res" where
  "search_memories v http fl boost query k wings_hint tenants s =
     rbind (http_search http (search_body query k) s) (\<lambda>resp.
     rbind (ok_dict resp) (\<lambda>payload. rbind (list_of (dget payload ''results'')) (\<lambda>rs.
     rbind (filter_map_res (search_hit v fl boost wings_hint tenants) rs) (\<lambda>hits.
       Inr (take k (sort_desc (hit_rank fl) hits))))))"

definition recent_hit :: "env \<Rightarrow> string list \<Rightarrow> json \<Rightarrow> dict option res" where
  "recent_hit v tenants sr =
     (case result_memory sr of
        None \<Rightarrow> Inr None
      | Some m \<Rightarrow> rbind (normalize_hit v m) (\<lambda>hit. Inr (if foreign_tenant tenants hit then None else Some hit)))"

definition created_text :: "dict \<Rightarrow> string" where
  "created_text hit = str_or (dget hit ''created_at_iso'') []"

definition list_recent_by_wing :: "env \<Rightarrow> 's http \<Rightarrow> string \<Rightarrow> nat \<Rightarrow> string list \<Rightarrow> 's \<Rightarrow> dict list res" where
  "list_recent_by_wing v http wing k tenants s =
     (let tags = [JStr (''wing:'' @ wing), JStr ''status:active''] @
            (if tenants \<noteq> [] \<and> ''*'' \<notin> set tenants \<and> length tenants = 1 then [JStr (''tenant:'' @ hd tenants)] else [])
      in rbind (find_results http tags (int k) s) (\<lambda>(_, rs).
         rbind (filter_map_res (recent_hit v tenants) rs) (\<lambda>hits. Inr (take k (sort_desc created_text hits)))))"

subsection \<open>Counting by pages\<close>

record tally =
  per_wing :: "(string \<times> (string \<times> nat) list) list"
  per_wing_latest :: "(string \<times> string) list"

text \<open>The wing, room and time of a row that counts.\<close>

definition counted_row :: "env \<Rightarrow> string option \<Rightarrow> string list \<Rightarrow> json \<Rightarrow> (string \<times> string \<times> string) option res" where
  "counted_row v wing_filter tenants mem =
     (case mem of
        JObj m \<Rightarrow>
          rbind (normalize_hit v m) (\<lambda>hit.
            let wing = str_or (dget hit ''wing'') []; room = str_or (dget hit ''room'') [] in
            Inr (if wing = [] \<or> (given_or wing_filter [] \<noteq> [] \<and> wing \<noteq> the wing_filter) \<or> foreign_tenant tenants hit
                 then None else Some (wing, room, created_text hit)))
      | _ \<Rightarrow> Inr None)"

definition rooms_of :: "tally \<Rightarrow> string \<Rightarrow> (string \<times> nat) list" where
  "rooms_of t wing = (case dget (per_wing t) wing of None \<Rightarrow> [] | Some rooms \<Rightarrow> rooms)"

definition count_of :: "(string \<times> nat) list \<Rightarrow> string \<Rightarrow> nat" where
  "count_of rooms room = (case dget rooms room of None \<Rightarrow> 0 | Some n \<Rightarrow> n)"

fun tally_row :: "tally \<Rightarrow> string \<times> string \<times> string \<Rightarrow> tally" where
  "tally_row t (wing, room, ts) =
     (let rooms = rooms_of t wing in
      t\<lparr>per_wing := dset wing (dset room (count_of rooms room + 1) rooms) (per_wing t),
        per_wing_latest :=
          (if ts \<noteq> [] \<and> (case dget (per_wing_latest t) wing of None \<Rightarrow> True | Some l \<Rightarrow> l < ts)
           then dset wing ts (per_wing_latest t) else per_wing_latest t)\<rparr>)"

text \<open>One page: the rows that count, and whether another page is announced.\<close>

definition stats_page :: "env \<Rightarrow> 's http \<Rightarrow> string option \<Rightarrow> string list \<Rightarrow> 's \<Rightarrow> nat \<Rightarrow> ((string \<times> string \<times> string) list \<times> bool) res" where
  "stats_page v http wing_filter tenants s page =
     (case rbind (http_page http page s) (\<lambda>resp. rbind (raise_for_status resp) (\<lambda>_. Inr resp)) of
        Inl e \<Rightarrow> Inl (RuntimeError ''aggregate_stats: pagination failed'')
      | Inr resp \<Rightarrow>
          rbind (resp_dict resp) (\<lambda>body. rbind (list_of (dget body ''memories'')) (\<lambda>mems.
          rbind (filter_map_res (counted_row v wing_filter tenants) mems) (\<lambda>rows.
            Inr (rows, opt_truthy (dget body ''has_more''))))))"

partial_function (option) stats_pages ::
  "env \<Rightarrow> 's http \<Rightarrow> string option \<Rightarrow> string list \<Rightarrow> 's \<Rightarrow> nat \<Rightarrow> tally \<Rightarrow> tally res option" where
  "stats_pages v http wing_filter tenants s page t =
     (case stats_page v http wing_filter tenants s page of
        Inl e \<Rightarrow> Some (Inl e)
      | Inr (rows, again) \<Rightarrow>
          if again then stats_pages v http wing_filter tenants s (page + 1) (foldl tally_row t rows)
          else Some (Inr (foldl tally_row t rows)))"

definition drawer_count :: "(string \<times> nat) list \<Rightarrow> nat" where
  "drawer_count rooms = sum_list (map snd rooms)"

definition wing_breakdown :: "tally \<Rightarrow> json list" where
  "wing_breakdown t = map (\<lambda>(wing, rooms).
     JObj [(''wing'', JStr wing), (''drawer_count'', JInt (int (drawer_count rooms))),
           (''rooms'', JObj (map (\<lambda>(r, n). (r, JInt (int n))) rooms)),
           (''most_recent_write_ts'', opt_json (dget (per_wing_latest t) wing))]) (sort_key fst (per_wing t))"

definition total_drawers :: "tally \<Rightarrow> nat" where
  "total_drawers t = sum_list (map (drawer_count \<circ> snd) (sort_key fst (per_wing t)))"

definition aggregate_stats :: "env \<Rightarrow> 's http \<Rightarrow> string option \<Rightarrow> string list \<Rightarrow> time \<Rightarrow> 's \<Rightarrow> dict res option" where
  "aggregate_stats v http wing_filter tenants now s =
     map_option (\<lambda>r. rbind r (\<lambda>t. Inr
       [(''total_drawers'', JInt (int (total_drawers t))), (''wing_breakdown'', JList (wing_breakdown t)),
        (''last_synced_ts'', JStr (isoformat now))]))
     (stats_pages v http wing_filter tenants s 1 \<lparr>per_wing = [], per_wing_latest = []\<rparr>)"

subsection \<open>Retries\<close>

definition step_send :: "('s \<Rightarrow> sent \<times> 's) \<Rightarrow> 's \<Rightarrow> 's" where
  "step_send send s = snd (send s)"

definition retryable :: "sent \<Rightarrow> bool" where
  "retryable x = (case x of Transient _ \<Rightarrow> True | Broken _ \<Rightarrow> False | Answered r \<Rightarrow> r_code r \<in> set RETRYABLE_STATUS)"

definition settled :: "sent \<Rightarrow> response res" where
  "settled x = (case x of Transient e \<Rightarrow> Inl e | Broken e \<Rightarrow> Inl e | Answered r \<Rightarrow> Inr r)"

text \<open>
  A request is sent at least once and at most \<open>max_retries + 1\<close> times; every attempt but the last was
  transient or answered 500, 502, 503 or 504, a request given up before the last attempt was not, and the
  caller sees the last attempt's outcome and the store as that attempt left it.
\<close>

theorem request_bounded:
  "\<exists>k \<le> n. request send n s = (settled (fst (send ((step_send send ^^ k) s))), (step_send send ^^ Suc k) s) \<and>
     (\<forall>j < k. retryable (fst (send ((step_send send ^^ j) s)))) \<and>
     \<not> (k < n \<and> retryable (fst (send ((step_send send ^^ k) s))))"
proof (induction n arbitrary: s)
  case 0
  show ?case
    by (auto simp: settled_def step_send_def split: prod.splits sent.splits)
next
  case (Suc n)
  obtain x s' where x: "send s = (x, s')" by (cases "send s")
  show ?case
  proof (cases "retryable x")
    case False
    then have "request send (Suc n) s = (settled x, s')"
      by (cases x) (auto simp: x retryable_def settled_def)
    with False show ?thesis
      by (intro exI [of _ 0]) (simp add: x step_send_def)
  next
    case True
    then have r: "request send (Suc n) s = request send n s'"
      by (cases x) (auto simp: x retryable_def)
    have s': "(step_send send ^^ Suc j) s = (step_send send ^^ j) s'" for j
      by (simp add: x step_send_def funpow_swap1)
    obtain k where k: "k \<le> n"
      "request send n s' = (settled (fst (send ((step_send send ^^ k) s'))), (step_send send ^^ Suc k) s')"
      "\<forall>j<k. retryable (fst (send ((step_send send ^^ j) s')))"
      "\<not> (k < n \<and> retryable (fst (send ((step_send send ^^ k) s'))))"
      using Suc.IH [of s'] by blast
    have "\<forall>j<Suc k. retryable (fst (send ((step_send send ^^ j) s)))"
    proof (intro allI impI)
      fix j assume "j < Suc k"
      then show "retryable (fst (send ((step_send send ^^ j) s)))"
        using k(3) True x s' by (cases j) auto
    qed
    with k r show ?thesis
      by (intro exI [of _ "Suc k"]) (simp only: s' Suc_le_mono Suc_less_eq simp_thms)
  qed
qed

definition busy_store :: "nat \<Rightarrow> sent \<times> nat" where
  "busy_store s = (Answered \<lparr>r_code = (if s < 2 then 503 else 200), r_json = None\<rparr>, s + 1)"

theorem request_bounded_witness:
  "request busy_store 3 0 = (Inr \<lparr>r_code = 200, r_json = None\<rparr>, 3) \<and>
   (\<exists>k \<le> 3. request busy_store 3 0 =
      (settled (fst (busy_store ((step_send busy_store ^^ k) 0))), (step_send busy_store ^^ Suc k) 0))"
  using request_bounded [of 3 busy_store 0] by (auto simp: busy_store_def RETRYABLE_STATUS_def numeral_3_eq_3)

subsection \<open>The tags of a posted row\<close>

lemma set_dedup [simp]: "set (dedup xs) = set xs"
  by (simp add: dedup_def)

lemma distinct_dedup [simp]: "distinct (dedup xs)"
  by (simp add: dedup_def)

lemma dedup_Nil [simp]: "dedup [] = []"
  by (simp add: dedup_def)

lemma remdups_snoc: "remdups (xs @ [x]) = filter (\<lambda>y. y \<noteq> x) (remdups xs) @ [x]"
  by (induction xs) auto

lemma dedup_Cons: "dedup (x # xs) = x # filter (\<lambda>y. y \<noteq> x) (dedup xs)"
  by (simp add: dedup_def remdups_snoc flip: rev_filter)

lemma dedup_append: "dedup (xs @ ys) = dedup xs @ filter (\<lambda>y. y \<notin> set xs) (dedup ys)"
  by (induction xs) (auto simp: dedup_Cons intro: filter_cong)

lemma length_dedup: "length (dedup xs) \<le> length xs"
  by (metis dedup_def length_remdups_leq length_rev)

lemma dedup_first: "length xs \<le> n \<Longrightarrow> set xs \<subseteq> set (take n (dedup (xs @ ys)))"
  using length_dedup [of xs] by (auto simp: dedup_append)

definition memory_type_of :: "dict \<Rightarrow> string" where
  "memory_type_of md = str_or (dget md ''memory_type'') ''observation''"

definition agent_of :: "dict \<Rightarrow> string" where
  "agent_of md = py_str (jor (dget md ''agent'') (jor (dget md ''agent_profile'') (JStr ''unknown'')))"

definition tenant_of :: "env \<Rightarrow> dict \<Rightarrow> string" where
  "tenant_of v md = str_or (dget md ''tenant_id'') (default_tenant_id (ident v))"

lemma add_body_parts:
  assumes "add_body v wing room content md conv = Inr body"
  shows "\<exists>explicit meta. list_of (dget md ''tags'') = Inr explicit \<and>
    dget body ''content'' = Some (JStr content) \<and>
    dget body ''tags'' = Some (JList (take 100 (dedup
       (guard_tags wing room (agent_of md) (memory_type_of md) (tenant_of v md) @ explicit)))) \<and>
    dget body ''memory_type'' = Some (JStr (memory_type_of md)) \<and>
    dget body ''metadata'' = Some (JObj meta) \<and>
    dget meta ''wing'' = Some (JStr wing) \<and> dget meta ''room'' = Some (JStr room) \<and>
    dget meta ''tenant_id'' = Some (JStr (tenant_of v md)) \<and> dget meta ''status'' = dget md ''status''"
  using assms
  by (auto simp: add_body_def Let_def rbind_Inr_iff fromkeys_def PANELLA_MAX_TAGS_PER_MEMORY_def memory_type_of_def
      agent_of_def tenant_of_def dict_simps delete_conv' split: if_splits)

text \<open>
  However many tags a caller supplies, the row that is posted carries at most the 100 tags the store
  keeps, without duplicates, and among them every guard: permanent, active, wing, room, agent, type and tenant.
\<close>

theorem posted_tags_bounded:
  assumes "add_body v wing room content md conv = Inr body"
  shows "\<exists>tags. dget body ''tags'' = Some (JList tags) \<and> length tags \<le> PANELLA_MAX_TAGS_PER_MEMORY \<and> distinct tags \<and>
    set (guard_tags wing room (agent_of md) (memory_type_of md) (tenant_of v md)) \<subseteq> set tags"
proof -
  obtain explicit where t: "dget body ''tags'' = Some (JList (take 100 (dedup
       (guard_tags wing room (agent_of md) (memory_type_of md) (tenant_of v md) @ explicit))))"
    using add_body_parts [OF assms] by blast
  have "length (guard_tags wing room (agent_of md) (memory_type_of md) (tenant_of v md)) \<le> 100"
    by (simp add: guard_tags_def)
  from dedup_first [OF this] t show ?thesis
    by (auto simp: PANELLA_MAX_TAGS_PER_MEMORY_def)
qed

definition sample_body :: dict where
  "sample_body = [(''content'', JStr ''text''),
     (''tags'', JList (guard_tags ''w'' ''r'' ''unknown'' ''observation'' ''t'')), (''memory_type'', JStr ''observation''),
     (''metadata'', JObj [(''tenant_id'', JStr ''t''), (''importance_score'', JFloat ''2.0''), (''wing'', JStr ''w''),
        (''room'', JStr ''r''), (''agent'', JStr ''unknown'')])]"

lemma sample_body_posted: "add_body v ''w'' ''r'' ''text'' [(''tenant_id'', JStr ''t'')] None = Inr sample_body"
  by (simp add: add_body_def sample_body_def guard_tags_def list_of_def fromkeys_def dedup_Cons jor_def py_str_def
      PANELLA_MAX_TAGS_PER_MEMORY_def Let_def)

theorem posted_tags_bounded_witness:
  "\<exists>tags. dget sample_body ''tags'' = Some (JList tags) \<and> length tags \<le> PANELLA_MAX_TAGS_PER_MEMORY"
  using posted_tags_bounded [OF sample_body_posted [of sample_env]] by blast

subsection \<open>Reading back what was posted\<close>

lemma set_map_filter: "x \<in> set (List.map_filter f xs) \<longleftrightarrow> (\<exists>y \<in> set xs. f y = Some x)"
  by (force simp: map_filter_def)

lemma tag_values_iff:
  "x \<in> set (tag_values tags key) \<longleftrightarrow>
   (\<exists>s. JStr s \<in> set tags \<and> startswith (key @ '':'') s \<and> x = drop (length key + 1) s)"
proof
  assume "x \<in> set (tag_values tags key)"
  then obtain t where "t \<in> set tags"
    "(case t of JStr s \<Rightarrow> if startswith (key @ '':'') s then Some (drop (length key + 1) s) else None | _ \<Rightarrow> None) = Some x"
    unfolding tag_values_def set_map_filter by blast
  then show "\<exists>s. JStr s \<in> set tags \<and> startswith (key @ '':'') s \<and> x = drop (length key + 1) s"
    by (auto split: json.split_asm if_split_asm)
next
  assume "\<exists>s. JStr s \<in> set tags \<and> startswith (key @ '':'') s \<and> x = drop (length key + 1) s"
  then obtain s where "JStr s \<in> set tags" "startswith (key @ '':'') s" "x = drop (length key + 1) s" by blast
  then show "x \<in> set (tag_values tags key)"
    unfolding tag_values_def set_map_filter by (intro bexI [of _ "JStr s"]) simp_all
qed

lemma tag_values_active:
  assumes "\<And>s. JStr s \<in> set tags \<Longrightarrow> startswith ''status:'' s \<Longrightarrow> s = ''status:active''"
  shows "parse_namespaced_tag tags ''status'' \<in> {None, Some ''active''}"
proof -
  have "set (tag_values tags ''status'') \<subseteq> {''active''}"
  proof
    fix x assume "x \<in> set (tag_values tags ''status'')"
    then obtain s where "JStr s \<in> set tags" "startswith ''status:'' s" "x = drop (length ''status'' + 1) s"
      unfolding tag_values_iff by auto
    with assms show "x \<in> {''active''}" by fastforce
  qed
  then have "last (tag_values tags ''status'') = ''active''" if "tag_values tags ''status'' \<noteq> []"
    using last_in_set [OF that] by blast
  then show ?thesis by (simp add: parse_namespaced_tag_def Let_def)
qed

lemma guard_status: "JStr s \<in> set (guard_tags wing room agent mtype tenant) \<Longrightarrow> startswith ''status:'' s \<Longrightarrow> s = ''status:active''"
  by (auto simp: guard_tags_def)

lemma excluded_tag_status: "excluded_tag t \<Longrightarrow> \<exists>s. t = JStr s \<and> startswith ''status:'' s"
  by (auto simp: excluded_tag_def split: json.splits)

lemma active_not_excluded: "\<not> excluded_tag (JStr ''status:active'')"
  by (simp add: excluded_tag_def EXCLUDED_RECALL_STATUSES_def py_lower_def py_lower_char_def Let_def)

lemma status_active_visible: "py_lower ''active'' \<notin> set EXCLUDED_RECALL_STATUSES"
  by (simp add: EXCLUDED_RECALL_STATUSES_def py_lower_def py_lower_char_def Let_def)

lemma posted_row_reads:
  assumes body: "add_body v wing room content md conv = Inr body" and "wing \<noteq> []" and "room \<noteq> []"
    and "tenant_of v md \<noteq> []" and status: "dget md ''status'' = None"
    and own: "\<forall>explicit s. list_of (dget md ''tags'') = Inr explicit \<and> JStr s \<in> set explicit \<longrightarrow> \<not> startswith ''status:'' s"
  shows "\<exists>hit. normalize_hit v (dset ''content_hash'' (JStr h) body) = Inr hit \<and>
    dget hit ''drawer_id'' = Some (JStr h) \<and> dget hit ''content'' = Some (JStr content) \<and>
    dget hit ''wing'' = Some (JStr wing) \<and> dget hit ''room'' = Some (JStr room) \<and>
    dget hit ''tenant_id'' = Some (JStr (tenant_of v md)) \<and> dget hit ''status'' = Some (JStr ''active'') \<and>
    has_excluded_recall_status hit = Inr False \<and> dget hit ''tags'' = dget body ''tags''"
proof -
  obtain explicit meta tags where e: "list_of (dget md ''tags'') = Inr explicit"
    and b: "dget body ''content'' = Some (JStr content)" "dget body ''tags'' = Some (JList tags)"
      "dget body ''metadata'' = Some (JObj meta)"
      "tags = take 100 (dedup (guard_tags wing room (agent_of md) (memory_type_of md) (tenant_of v md) @ explicit))"
    and m: "dget meta ''wing'' = Some (JStr wing)" "dget meta ''room'' = Some (JStr room)"
      "dget meta ''tenant_id'' = Some (JStr (tenant_of v md))" "dget meta ''status'' = None"
    using add_body_parts [OF body] status by auto
  have only: "s = ''status:active''" if "JStr s \<in> set tags" "startswith ''status:'' s" for s
  proof -
    have "JStr s \<in> set (guard_tags wing room (agent_of md) (memory_type_of md) (tenant_of v md) @ explicit)"
      using that(1) unfolding b(4) by (meson in_set_takeD set_dedup [THEN equalityD1, THEN subsetD])
    moreover have "JStr s \<notin> set explicit" using own e that(2) by blast
    ultimately show ?thesis using guard_status that(2) by fastforce
  qed
  have s: "given_or (parse_namespaced_tag tags ''status'') ''active'' = ''active''"
    using tag_values_active [of tags, OF only] by (auto simp: given_or_def)
  have lists: "list_of (Some (JList tags)) = Inr tags"
    "dict_of (Some (JObj meta)) = Inr meta"
    using m(1) by (auto simp: list_of_def dict_of_def)
  have "\<not> excluded_tag t" if "t \<in> set tags" for t
    using that excluded_tag_status only active_not_excluded by blast
  then have vis: "\<not> list_ex excluded_tag tags" by (simp add: list_ex_iff)
  show ?thesis
    using assms(2-4) vis status_active_visible
    by (simp add: normalize_hit_def lists Let_def b(1-3) m s dict_simps get_or_null_def has_excluded_recall_status_def)
qed

text \<open>
  A row the adapter posts reads back as it was written: the same text, wing, room and tenant, status
  active, and visible to recall, provided the caller supplies no status of its own.
\<close>

theorem posted_row_reads_back:
  assumes body: "add_body v wing room content md conv = Inr body" and "wing \<noteq> []" and "room \<noteq> []"
    and "tenant_of v md \<noteq> []" and status: "dget md ''status'' = None"
    and own: "\<forall>explicit s. list_of (dget md ''tags'') = Inr explicit \<and> JStr s \<in> set explicit \<longrightarrow> \<not> startswith ''status:'' s"
  shows "\<exists>hit. normalize_hit v (dset ''content_hash'' (JStr h) body) = Inr hit \<and>
    dget hit ''drawer_id'' = Some (JStr h) \<and> dget hit ''content'' = Some (JStr content) \<and>
    dget hit ''wing'' = Some (JStr wing) \<and> dget hit ''room'' = Some (JStr room) \<and>
    dget hit ''tenant_id'' = Some (JStr (tenant_of v md)) \<and> dget hit ''status'' = Some (JStr ''active'') \<and>
    has_excluded_recall_status hit = Inr False"
  using posted_row_reads [OF body assms(2-4) status own] by blast

theorem posted_row_reads_back_witness:
  "\<exists>hit. normalize_hit sample_env (dset ''content_hash'' (JStr ''h'') sample_body) = Inr hit \<and>
    dget hit ''tenant_id'' = Some (JStr ''t'') \<and> has_excluded_recall_status hit = Inr False"
  using posted_row_reads_back [OF sample_body_posted [of sample_env], of "''h''"]
  by (simp add: list_of_def tenant_of_def) blast

subsection \<open>Transitions are verified\<close>

lemma tag_transition_verified:
  "tag_transition http i dropped added delta n s = (Inr True, s') \<Longrightarrow>
   \<exists>s1 before meta now. rbind (http_get http i s1) transition_read = Inr (Some (before, meta)) \<and>
     rbind (http_get http i s') transition_tags = Inr now \<and> transition_landed dropped added before now"
proof (induction n arbitrary: s)
  case 0
  then show ?case by simp
next
  case (Suc n)
  then obtain before meta new r s1 put where
    steps: "rbind (http_get http i s) transition_read = Inr (Some (before, meta))"
      "merged_tags dropped added before = Inr new"
      "http_put http i (JObj [(''tags'', JList new), (''metadata'', JObj (delta meta))]) s = (r, s1)" "rbind r ok_dict = Inr put"
    by (auto split: sum.splits option.splits prod.splits)
  consider (again) "tag_transition http i dropped added delta n s1 = (Inr True, s')"
    | (verified) now where "s1 = s'" "rbind (http_get http i s1) transition_tags = Inr now" "transition_landed dropped added before now"
    using Suc.prems by (auto simp: steps split: sum.splits if_splits)
  then show ?case
  proof cases
    case again
    then show ?thesis by (rule Suc.IH)
  next
    case verified
    with steps(1) show ?thesis by blast
  qed
qed

lemma as_obj_Inr: "as_obj j = Inr d \<longleftrightarrow> j = JObj d"
  by (cases j) (auto simp: as_obj_def)

lemma resp_json_Inr: "resp_json r = Inr j \<longleftrightarrow> r_json r = Some j"
  by (auto simp: resp_json_def split: option.split)

lemma ok_dict_object: "ok_dict resp = Inr d \<Longrightarrow> r_json resp = Some (JObj raw') \<Longrightarrow> d = raw'"
  by (auto simp: ok_dict_def resp_dict_def rbind_Inr_iff resp_json_Inr as_obj_Inr split: if_split_asm)

lemma fromkeys_set: "fromkeys xs = Inr ys \<Longrightarrow> set ys = set xs"
  by (auto simp: fromkeys_def split: if_split_asm)

lemma get_drawer_read:
  assumes "adapter_get_drawer v http i s = Inr (Some hit)"
  shows "\<exists>resp raw'. http_get http i s = Inr resp \<and> r_json resp = Some (JObj raw') \<and> normalize_hit v raw' = Inr hit"
proof -
  obtain resp j where r: "http_get http i s = Inr resp" "r_json resp = Some j"
    "(case j of JObj raw' \<Rightarrow> if dget raw' ''content_hash'' = None then Inr None else map_sum id Some (normalize_hit v raw')
      | _ \<Rightarrow> Inr None) = Inr (Some hit)"
    using assms unfolding adapter_get_drawer_def
    by (auto simp: rbind_Inr_iff resp_json_Inr simp del: dget_dset split: if_split_asm)
  then obtain raw' where raw': "j = JObj raw'" "map_sum id Some (normalize_hit v raw') = Inr (Some hit)"
    by (cases j) (auto split: if_split_asm)
  then have "normalize_hit v raw' = Inr hit"
    by (cases "normalize_hit v raw'") auto
  with r raw' show ?thesis by blast
qed

lemma drawer_tags:
  assumes "rbind (http_get http i s) transition_tags = Inr now" and "adapter_get_drawer v http i s = Inr (Some hit)"
  shows "\<exists>tags. dget hit ''tags'' = Some (JList tags) \<and> set tags = set now"
proof -
  obtain resp raw' where r: "http_get http i s = Inr resp" "r_json resp = Some (JObj raw')" "normalize_hit v raw' = Inr hit"
    using get_drawer_read [OF assms(2)] by blast
  then have "transition_tags resp = Inr now" using assms(1) by simp
  then obtain tags where "list_of (dget raw' ''tags'') = Inr tags" "set now = set tags"
    unfolding transition_tags_def rbind_Inr_iff using ok_dict_object [OF _ r(2)] fromkeys_set by metis
  with r(3) show ?thesis by (auto simp: normalize_hit_def rbind_Inr_iff Let_def)
qed

lemma excluded_by_tag:
  assumes "dget hit ''tags'' = Some (JList tags)" and "t \<in> set tags" and "excluded_tag t"
  shows "has_excluded_recall_status hit = Inr True"
  using assms by (auto simp: has_excluded_recall_status_def list_of_def list_ex_iff)

lemma lifecycle_tags_excluded:
  "excluded_tag (JStr ''status:tombstoned'')" "excluded_tag (JStr ''status:superseded'')"
  by (simp_all add: excluded_tag_def EXCLUDED_RECALL_STATUSES_def py_lower_def py_lower_char_def Let_def)


subsection \<open>Lookups never answer with a partial set\<close>

lemma rows_with_tags_set:
  "rows_with_tags tags ms = Inr rs \<Longrightarrow> set rs = {m \<in> set ms. row_has_tags tags m = Inr True}"
  unfolding rows_with_tags_def by (drule filter_map_res_set) (auto simp: rbind_Inr_iff split: if_splits)

text \<open>
  C12: the lookup that feeds a deletion loop answers only with a complete set: fewer rows than the limit,
  no more announced than returned, every hash of a row that carries the tag, is active and is of the tenant,
  and no such returned row left out.
\<close>

theorem find_hashes_complete:
  assumes "find_active_hashes_by_tag http limit tag tenant s = Inr hs"
  shows "distinct hs \<and> length hs < limit \<and>
    (\<exists>payload rs. find_results http (query_tags tag tenant) (int limit) s = Inr (payload, rs) \<and> length rs < limit \<and>
       \<not> total_exceeds (dget payload ''total_found'') (length rs) \<and>
       set hs = row_hash_text ` {m. \<exists>sr \<in> set rs. result_row sr = Some m \<and> row_has_tags (query_tags tag tenant) m = Inr True})"
proof -
  obtain payload rs ms where r: "find_results http (query_tags tag tenant) (int limit) s = Inr (payload, rs)"
    "\<not> total_exceeds (dget payload ''total_found'') (length rs)" "length rs < limit"
    "rows_with_tags (query_tags tag tenant) (List.map_filter result_row rs) = Inr ms"
    "hs = dedup (map row_hash_text ms)"
    using assms by (auto simp: find_active_hashes_by_tag_def Let_def rbind_Inr_iff split: if_splits)
  have "length ms \<le> length (List.map_filter result_row rs)"
    using r(4) unfolding rows_with_tags_def by (rule filter_map_res_length)
  also have "\<dots> \<le> length rs" by (simp add: map_filter_def)
  finally have "length hs < limit"
    using r(3) length_dedup [of "map row_hash_text ms"] by (simp add: r(5))
  moreover have "set ms = {m. \<exists>sr \<in> set rs. result_row sr = Some m \<and> row_has_tags (query_tags tag tenant) m = Inr True}"
    unfolding rows_with_tags_set [OF r(4)] by (auto simp: set_map_filter)
  ultimately show ?thesis using r by auto
qed

subsection \<open>A store with one row\<close>

text \<open>Its state is the tags of the row; the corpus is two pages that show the row.\<close>

definition one_row :: "json list \<Rightarrow> dict" where
  "one_row s = [(''content_hash'', JStr ''h''), (''content'', JStr ''text''), (''tags'', JList s),
     (''metadata'', JObj [(''wing'', JStr ''w''), (''room'', JStr ''r''), (''tenant_id'', JStr ''t'')])]"

definition one_result :: "json list \<Rightarrow> json" where
  "one_result s = JObj [(''results'', JList [JObj [(''memory'', JObj (one_row s)), (''similarity_score'', JFloat ''0.5'')]])]"

definition tags_put :: "json \<Rightarrow> json list \<Rightarrow> json list" where
  "tags_put body s = (case body of JObj d \<Rightarrow> (case dget d ''tags'' of Some (JList new) \<Rightarrow> new | _ \<Rightarrow> s) | _ \<Rightarrow> s)"

definition one_row_http :: "json list http" where
  "one_row_http = \<lparr>http_get = (\<lambda>i s. Inr \<lparr>r_code = 200, r_json = Some (JObj (one_row s))\<rparr>),
     http_page = (\<lambda>n s. Inr \<lparr>r_code = 200, r_json = Some (JObj [(''memories'', JList [JObj (one_row s)]), (''has_more'', JBool (n < 2))])\<rparr>),
     http_find = (\<lambda>j s. Inr \<lparr>r_code = 200, r_json = Some (one_result s)\<rparr>),
     http_search = (\<lambda>j s. Inr \<lparr>r_code = 200, r_json = Some (one_result s)\<rparr>),
     http_post = (\<lambda>j s. (Inr \<lparr>r_code = 200, r_json = Some (JObj [(''content_hash'', JStr ''h'')])\<rparr>, s)),
     http_put = (\<lambda>i j s. (Inr \<lparr>r_code = 200, r_json = Some (JObj [(''success'', JBool True)])\<rparr>, tags_put j s)),
     http_delete = (\<lambda>i s. (Inr \<lparr>r_code = 404, r_json = None\<rparr>, s))\<rparr>"

lemmas response_simps = raise_for_status_def resp_json_def resp_dict_def ok_dict_def as_obj_def list_of_def dict_of_def
  get_or_null_def given_or_def jor_def Let_def

lemma one_row_reads:
  "http_get one_row_http i s = Inr \<lparr>r_code = 200, r_json = Some (JObj (one_row s))\<rparr>"
  "http_put one_row_http i j s = (Inr \<lparr>r_code = 200, r_json = Some (JObj [(''success'', JBool True)])\<rparr>, tags_put j s)"
  "http_find one_row_http j s = Inr \<lparr>r_code = 200, r_json = Some (one_result s)\<rparr>"
  "http_search one_row_http j s = Inr \<lparr>r_code = 200, r_json = Some (one_result s)\<rparr>"
  "http_page one_row_http n s =
     Inr \<lparr>r_code = 200, r_json = Some (JObj [(''memories'', JList [JObj (one_row s)]), (''has_more'', JBool (n < 2))])\<rparr>"
  by (simp_all add: one_row_http_def)

definition before_tags :: "json list" where
  "before_tags = [JStr ''status:active'', JStr ''wing:w'']"

definition after_tags :: "json list" where
  "after_tags = [JStr ''wing:w'', JStr ''status:tombstoned'']"

lemma one_row_tombstoned:
  "adapter_tombstone one_row_http ''h'' ''why'' ''me'' 0 before_tags = (Inr True, after_tags)"
  by (simp add: adapter_tombstone_def numeral_2_eq_2 one_row_reads transition_read_def one_row_def response_simps before_tags_def
      after_tags_def merged_tags_def kept_tags_def fromkeys_def dedup_Cons tags_put_def transition_tags_def transition_landed_def
      opt_truthy_def)

definition one_hit :: "json list \<Rightarrow> dict" where
  "one_hit s = (case normalize_hit sample_env (one_row s) of Inr h \<Rightarrow> h | _ \<Rightarrow> [])"

lemma one_hit_read: "normalize_hit sample_env (one_row s) = Inr (one_hit s)"
  by (cases s) (simp_all add: one_hit_def normalize_hit_def one_row_def response_simps)

lemma one_hit_before:
  "dget (one_hit before_tags) ''tenant_id'' = Some (JStr ''t'') \<and> dget (one_hit before_tags) ''wing'' = Some (JStr ''w'') \<and>
   dget (one_hit before_tags) ''tags'' = Some (JList before_tags) \<and> dget (one_hit before_tags) ''status'' = Some (JStr ''active'') \<and>
   dget (one_hit before_tags) ''room'' = Some (JStr ''r'') \<and> dget (one_hit before_tags) ''created_at_iso'' = Some JNull"
  by (simp add: one_hit_def normalize_hit_def one_row_def response_simps before_tags_def parse_namespaced_tag_def tag_values_def
      map_filter_def)


lemma one_row_found:
  "find_active_hashes_by_tag one_row_http 200 ''wing:w'' ''*'' before_tags = Inr [''h'']"
  by (simp add: find_active_hashes_by_tag_def find_results_def one_row_reads one_result_def response_simps total_exceeds_def
      rows_with_tags_def result_row_def one_row_def opt_truthy_def map_filter_def row_has_tags_def query_tags_def before_tags_def
      row_hash_text_def py_str_def dedup_Cons)

theorem find_hashes_complete_witness: "distinct [''h''] \<and> length [''h''] < 200"
  using find_hashes_complete [OF one_row_found] by blast

subsection \<open>What a search shows\<close>

lemma boosted_keeps:
  assumes "boosted_hit fl boost hints sr hit = Inr h" and "key \<noteq> ''score''"
  shows "dget h key = dget hit key"
  using assms by (auto simp: boosted_hit_def rbind_Inr_iff dict_simps split: option.splits if_split_asm)

definition visible :: "string list \<Rightarrow> dict \<Rightarrow> bool" where
  "visible tenants hit \<longleftrightarrow> has_excluded_recall_status hit = Inr False \<and> \<not> foreign_tenant tenants hit"

lemma search_hit_visible:
  assumes "search_hit v fl boost hints tenants sr = Inr (Some h)"
  shows "visible tenants h"
proof -
  obtain hit where hit: "has_excluded_recall_status hit = Inr False" "\<not> foreign_tenant tenants hit"
    "boosted_hit fl boost hints sr hit = Inr h"
    using assms by (auto simp: search_hit_def rbind_Inr_iff split: option.splits if_split_asm)
  have "dget h k = dget hit k" if "k \<in> {''status'', ''tags'', ''tenant_id''}" for k
    using boosted_keeps [OF hit(3)] that by auto
  then have "has_excluded_recall_status h = has_excluded_recall_status hit" "foreign_tenant tenants h = foreign_tenant tenants hit"
    by (simp_all add: has_excluded_recall_status_def foreign_tenant_def get_or_null_def)
  with hit(1,2) show ?thesis by (simp add: visible_def)
qed

lemma sort_desc_set [simp]: "set (sort_desc f xs) = set xs"
  by (simp add: sort_desc_def)

lemma sort_desc_length [simp]: "length (sort_desc f xs) = length xs"
  by (simp add: sort_desc_def)

lemma sort_desc_sorted: "sorted (rev (map f (take k (sort_desc f xs))))"
proof -
  have "rev (map f (take k (sort_desc f xs))) = drop (length xs - k) (map f (sort_key f (rev xs)))"
    by (simp add: sort_desc_def rev_map rev_take drop_map)
  then show ?thesis by (simp only: sorted_wrt_drop sorted_sort_key)
qed

text \<open>
  A search answers with at most \<open>k\<close> hits in descending order of score, none of them a candidate, superseded
  or tombstoned, none of a tenant that was not asked for, and as many as the fetched pool has visible rows.
\<close>

theorem search_shows_visible:
  assumes "search_memories v http fl boost query k hints tenants s = Inr hits"
  shows "sorted (rev (map (hit_rank fl) hits)) \<and>
    (\<forall>h \<in> set hits. has_excluded_recall_status h = Inr False \<and> \<not> foreign_tenant tenants h) \<and>
    (\<exists>rs pool. rbind (http_search http (search_body query k) s) (\<lambda>r. rbind (ok_dict r) (\<lambda>p. list_of (dget p ''results''))) = Inr rs \<and>
       filter_map_res (search_hit v fl boost hints tenants) rs = Inr pool \<and> set hits \<subseteq> set pool \<and>
       length hits = min k (length pool))"
proof -
  obtain rs pool where p:
    "rbind (http_search http (search_body query k) s) (\<lambda>r. rbind (ok_dict r) (\<lambda>p. list_of (dget p ''results''))) = Inr rs"
    "filter_map_res (search_hit v fl boost hints tenants) rs = Inr pool" "hits = take k (sort_desc (hit_rank fl) pool)"
    using assms by (auto simp: search_memories_def rbind_Inr_iff)
  then have sub: "set hits \<subseteq> set pool" using set_take_subset by fastforce
  have "visible tenants h" if "h \<in> set pool" for h
    using that filter_map_res_set [OF p(2)] search_hit_visible by blast
  with sub have "\<forall>h \<in> set hits. has_excluded_recall_status h = Inr False \<and> \<not> foreign_tenant tenants h"
    unfolding visible_def by blast
  moreover have "length hits = min k (length pool)" by (simp add: p(3) min.commute)
  ultimately show ?thesis
    using p sub sort_desc_sorted [of "hit_rank fl" k pool] by auto
qed


definition sample_floats :: "nat float_ops" where
  "sample_floats = \<lparr>to_float = (\<lambda>j. case j of JFloat x \<Rightarrow> Some x | _ \<Rightarrow> None), fmul = (@),
     frank = (\<lambda>x. case x of None \<Rightarrow> 0 | Some y \<Rightarrow> length y + 1)\<rparr>"

definition boosts :: "string \<Rightarrow> string list \<Rightarrow> string res" where
  "boosts = wing_boost (\<lambda>p q. None) []"

lemma one_row_searched:
  "search_memories sample_env one_row_http sample_floats boosts ''q'' 5 [''w''] [''t''] before_tags =
     Inr [dset ''score'' (JFloat (''0.5'' @ HINT_WING_BOOST_FACTOR)) (one_hit before_tags)]"
proof -
  let ?m = "one_row before_tags"
  have hit: "normalize_hit sample_env ?m = Inr (one_hit before_tags)" by (rule one_hit_read)
  have parts: "has_excluded_recall_status (one_hit before_tags) = Inr False" "dget (one_hit before_tags) ''tenant_id'' = Some (JStr ''t'')"
    "dget (one_hit before_tags) ''wing'' = Some (JStr ''w'')"
    using one_hit_before by (simp_all add: has_excluded_recall_status_def response_simps status_active_visible active_not_excluded
        before_tags_def excluded_tag_def)
  have "boosts ''w'' [''w''] = Inr HINT_WING_BOOST_FACTOR"
    unfolding boosts_def by (subst hinted_boost) (simp_all add: py_strip_def py_space_def)
  then have "search_hit sample_env sample_floats boosts [''w''] [''t''] (JObj [(''memory'', JObj ?m), (''similarity_score'', JFloat ''0.5'')]) =
    Inr (Some (dset ''score'' (JFloat (''0.5'' @ HINT_WING_BOOST_FACTOR)) (one_hit before_tags)))"
    by (simp add: search_hit_def result_memory_def hit parts foreign_tenant_def get_or_null_def boosted_hit_def
      result_score_def sample_floats_def) (simp add: one_row_def)
  then show ?thesis
    by (simp add: search_memories_def one_row_reads one_result_def raise_for_status_def resp_json_def ok_dict_def resp_dict_def
        as_obj_def list_of_def sort_desc_def)
qed

theorem search_shows_visible_witness:
  "has_excluded_recall_status (dset ''score'' (JFloat ''0.51.5'') (one_hit before_tags)) = Inr False"
  using search_shows_visible [OF one_row_searched] by (simp add: HINT_WING_BOOST_FACTOR_def)

subsection \<open>The page loop\<close>

lemma stats_pages_again:
  "stats_page v http flt ts s page = Inr (rows, True) \<Longrightarrow>
   stats_pages v http flt ts s page t = stats_pages v http flt ts s (page + 1) (foldl tally_row t rows)"
  by (subst stats_pages.simps) simp

lemma stats_pages_last:
  "stats_page v http flt ts s page = Inr (rows, False) \<Longrightarrow> stats_pages v http flt ts s page t = Some (Inr (foldl tally_row t rows))"
  by (subst stats_pages.simps) simp

lemma stats_pages_error:
  "stats_page v http flt ts s page = Inl e \<Longrightarrow> stats_pages v http flt ts s page t = Some (Inl e)"
  by (subst stats_pages.simps) simp

lemma stats_pages_ends:
  assumes "\<nexists>rows. stats_page v http flt ts s (page + d) = Inr (rows, True)"
  shows "stats_pages v http flt ts s page t \<noteq> None"
  using assms
proof (induction d arbitrary: page t)
  case 0
  then show ?case
    by (cases "stats_page v http flt ts s page") (auto simp: stats_pages_error stats_pages_last)
next
  case (Suc d)
  show ?case
  proof (cases "\<exists>rows. stats_page v http flt ts s page = Inr (rows, True)")
    case True
    then show ?thesis using Suc.IH [of "page + 1"] Suc.prems by (auto simp: stats_pages_again)
  next
    case False
    then show ?thesis
      by (cases "stats_page v http flt ts s page") (auto simp: stats_pages_error stats_pages_last)
  qed
qed

text \<open>The pages that were read when the loop ended without an error.\<close>

definition pages_read ::
  "env \<Rightarrow> 's http \<Rightarrow> string option \<Rightarrow> string list \<Rightarrow> 's \<Rightarrow> nat \<Rightarrow> (string \<times> string \<times> string) list list \<Rightarrow> bool" where
  "pages_read v http flt ts s page ps \<longleftrightarrow>
     ps \<noteq> [] \<and> (\<forall>k < length ps. stats_page v http flt ts s (page + k) = Inr (ps ! k, Suc k < length ps))"

lemma stats_pages_result:
  assumes "stats_pages v http flt ts s page t = Some (Inr t')"
  shows "\<exists>ps. pages_read v http flt ts s page ps \<and> t' = foldl tally_row t (concat ps)"
proof -
  have "case r of Inl e \<Rightarrow> True | Inr t' \<Rightarrow> \<exists>ps. pages_read v http flt ts s page ps \<and> t' = foldl tally_row t (concat ps)"
    if "stats_pages v http flt ts s page t = Some r" for r
    using that
  proof (induction v http flt ts s page t r rule: stats_pages.raw_induct [rotated, consumes 1])
    case (1 loop v http flt ts s page t r)
    show ?case
    proof (cases "stats_page v http flt ts s page")
      case (Inl e)
      with 1(2) have "r = Inl e" by simp
      then show ?thesis by simp
    next
      case (Inr x)
      obtain rows again where x: "x = (rows, again)" by (cases x)
      show ?thesis
      proof (cases again)
        case False
        with 1 Inr x have "r = Inr (foldl tally_row t rows)" "pages_read v http flt ts s page [rows]"
          by (simp_all add: pages_read_def)
        then show ?thesis by (auto intro!: exI [of _ "[rows]"])
      next
        case True
        with 1 Inr x have next': "case r of Inl e \<Rightarrow> True
          | Inr t' \<Rightarrow> \<exists>ps. pages_read v http flt ts s (page + 1) ps \<and> t' = foldl tally_row (foldl tally_row t rows) (concat ps)"
          by simp
        have cons: "pages_read v http flt ts s page (rows # ps)" if "pages_read v http flt ts s (page + 1) ps" for ps
          using that Inr x True by (auto simp: pages_read_def nth_Cons' less_Suc_eq_0_disj)
        show ?thesis
        proof (cases r)
          case (Inr t')
          with next' obtain ps where ps: "pages_read v http flt ts s (page + 1) ps"
            "t' = foldl tally_row (foldl tally_row t rows) (concat ps)" by auto
          from cons [OF this(1)] this(2) Inr show ?thesis by (auto intro!: exI [of _ "rows # ps"])
        qed simp
      qed
    qed
  qed
  from this [OF assms] show ?thesis by simp
qed

lemma pages_read_ends: "pages_read v http flt ts s page ps \<Longrightarrow> \<exists>n \<ge> page. \<nexists>rows. stats_page v http flt ts s n = Inr (rows, True)"
  unfolding pages_read_def by (intro exI [of _ "page + (length ps - 1)"]) auto

lemma stats_pages_error_ends:
  assumes "stats_pages v http flt ts s page t = Some (Inl e)"
  shows "\<exists>n \<ge> page. stats_page v http flt ts s n = Inl e"
proof -
  have "r = Inl e \<longrightarrow> (\<exists>n \<ge> page. stats_page v http flt ts s n = Inl e)" if "stats_pages v http flt ts s page t = Some r" for r
    using that
  proof (induction v http flt ts s page t r rule: stats_pages.raw_induct [rotated, consumes 1])
    case (1 loop v http flt ts s page t r)
    show ?case
    proof (cases "stats_page v http flt ts s page")
      case (Inl e')
      with 1(2) show ?thesis by auto
    next
      case (Inr x)
      obtain rows again where x: "x = (rows, again)" by (cases x)
      show ?thesis
      proof (cases again)
        case True
        with 1 Inr x have "r = Inl e \<longrightarrow> (\<exists>n \<ge> page + 1. stats_page v http flt ts s n = Inl e)" by simp
        then show ?thesis by (meson add_leD1)
      next
        case False
        with 1(2) Inr x have "r = Inr (foldl tally_row t rows)" by simp
        then show ?thesis by simp
      qed
    qed
  qed
  from this [OF assms] show ?thesis by simp
qed

text \<open>
  The corpus aggregate answers exactly when some page fails or announces no further page; a store that
  always announces another page keeps it running for ever.
\<close>

theorem aggregate_terminates:
  "aggregate_stats v http flt ts now s \<noteq> None \<longleftrightarrow> (\<exists>n \<ge> 1. \<nexists>rows. stats_page v http flt ts s n = Inr (rows, True))"
proof
  assume "\<exists>n \<ge> 1. \<nexists>rows. stats_page v http flt ts s n = Inr (rows, True)"
  then obtain d where "\<nexists>rows. stats_page v http flt ts s (1 + d) = Inr (rows, True)"
    by (metis le_add_diff_inverse)
  from stats_pages_ends [OF this] show "aggregate_stats v http flt ts now s \<noteq> None"
    by (simp add: aggregate_stats_def)
next
  assume "aggregate_stats v http flt ts now s \<noteq> None"
  then obtain r where r: "stats_pages v http flt ts s 1 \<lparr>per_wing = [], per_wing_latest = []\<rparr> = Some r"
    by (auto simp: aggregate_stats_def)
  show "\<exists>n \<ge> 1. \<nexists>rows. stats_page v http flt ts s n = Inr (rows, True)"
  proof (cases r)
    case (Inl e)
    then show ?thesis using stats_pages_error_ends r by fastforce
  next
    case (Inr t)
    obtain ps where "pages_read v http flt ts s 1 ps" using stats_pages_result [OF r [unfolded Inr]] by blast
    then show ?thesis by (rule pages_read_ends)
  qed
qed

subsection \<open>The aggregate counts every row once\<close>

lemma count_of_dset: "count_of (dset room n rooms) r = (if r = room then n else count_of rooms r)"
  by (simp add: count_of_def dict_simps)

lemma rooms_of_row: "rooms_of (tally_row t (w, r, ts)) w' =
   (if w' = w then dset r (count_of (rooms_of t w) r + 1) (rooms_of t w) else rooms_of t w')"
  by (simp add: rooms_of_def Let_def dict_simps)

lemma tally_counts:
  "count_of (rooms_of (foldl tally_row t rows) w) r =
   count_of (rooms_of t w) r + length (filter (\<lambda>(w', r', _). w' = w \<and> r' = r) rows)"
proof (induction rows arbitrary: t)
  case Nil
  then show ?case by simp
next
  case (Cons x rows)
  obtain w' r' ts where "x = (w', r', ts)" by (cases x) auto
  with Cons show ?case by (auto simp: rooms_of_row count_of_dset simp del: tally_row.simps)
qed

lemma drawer_count_dset: "drawer_count (dset room (count_of rooms room + 1) rooms) = drawer_count rooms + 1"
  by (induction rooms) (auto simp: drawer_count_def count_of_def)

lemma sum_list_insort: "sum_list (map f (insort_key k x xs)) = f x + (sum_list (map f xs) :: nat)"
  by (induction xs) auto

lemma total_alt: "total_drawers t = sum_list (map (drawer_count \<circ> snd) (per_wing t))"
proof -
  have "sum_list (map f (sort_key fst d)) = (sum_list (map f d) :: nat)" for f and d :: "(string \<times> 'a) list"
    by (induction d) (simp_all add: sum_list_insort)
  then show ?thesis unfolding total_drawers_def .
qed

lemma sum_dset:
  "sum_list (map (f \<circ> snd) (dset k v d)) + (case dget d k of None \<Rightarrow> 0 | Some x \<Rightarrow> f x) = sum_list (map (f \<circ> snd) d) + (f v :: nat)"
  by (induction d) auto

lemma total_row: "total_drawers (tally_row t (w, r, ts)) = total_drawers t + 1"
  using sum_dset [of drawer_count w "dset r (count_of (rooms_of t w) r + 1) (rooms_of t w)" "per_wing t"]
    drawer_count_dset [of r "rooms_of t w"]
  by (simp add: total_alt rooms_of_def Let_def drawer_count_def split: option.splits)

lemma total_rows: "total_drawers (foldl tally_row t rows) = total_drawers t + length rows"
proof (induction rows arbitrary: t)
  case (Cons x rows)
  obtain w r ts where "x = (w, r, ts)" by (cases x) auto
  with Cons show ?case by (simp add: total_row del: tally_row.simps)
qed simp

lemma empty_tally:
  "total_drawers \<lparr>per_wing = [], per_wing_latest = l\<rparr> = 0" "count_of (rooms_of \<lparr>per_wing = [], per_wing_latest = l\<rparr> w) r = 0"
  by (simp_all add: total_drawers_def rooms_of_def count_of_def)

text \<open>
  The aggregate agrees with counting the listed rows directly: every row of the pages that counts is
  counted once in its wing and room, and the total is their number.
\<close>

theorem aggregate_counts_rows:
  assumes "stats_pages v http flt ts s 1 \<lparr>per_wing = [], per_wing_latest = []\<rparr> = Some (Inr t)"
  shows "\<exists>ps. pages_read v http flt ts s 1 ps \<and> total_drawers t = length (concat ps) \<and>
    (\<forall>w r. count_of (rooms_of t w) r = length (filter (\<lambda>(w', r', _). w' = w \<and> r' = r) (concat ps)))"
proof -
  obtain ps where "pages_read v http flt ts s 1 ps" "t = foldl tally_row \<lparr>per_wing = [], per_wing_latest = []\<rparr> (concat ps)"
    using stats_pages_result [OF assms] by blast
  then show ?thesis
    by (intro exI [of _ ps]) (simp add: total_rows tally_counts empty_tally)
qed

lemma one_row_page: "stats_page sample_env one_row_http None [] before_tags n = Inr ([(''w'', ''r'', [])], n < 2)"
  by (simp add: stats_page_def one_row_reads raise_for_status_def resp_json_def resp_dict_def as_obj_def list_of_def opt_truthy_def
      counted_row_def one_hit_read one_hit_before foreign_tenant_def given_or_def created_text_def Let_def str_or_def py_str_def)

theorem aggregate_terminates_witness: "aggregate_stats sample_env one_row_http None [] 0 before_tags \<noteq> None"
  unfolding aggregate_terminates by (intro exI [of _ 2]) (simp add: one_row_page)

theorem aggregate_counts_rows_witness:
  "\<exists>ps. pages_read sample_env one_row_http None [] before_tags 1 ps \<and> length (concat ps) = 2"
proof -
  let ?t = "foldl tally_row \<lparr>per_wing = [], per_wing_latest = []\<rparr> [(''w'', ''r'', []), (''w'', ''r'', [])]"
  have p: "stats_pages sample_env one_row_http None [] before_tags 1 \<lparr>per_wing = [], per_wing_latest = []\<rparr> = Some (Inr ?t)"
    by (simp add: stats_pages_again [OF one_row_page [of 1, simplified]] stats_pages_last [OF one_row_page [of "Suc (Suc 0)", simplified]]
        del: tally_row.simps)
  have "total_drawers ?t = 2"
    by (simp only: total_rows empty_tally) simp
  with aggregate_counts_rows [OF p] show ?thesis by auto
qed

subsection \<open>The finalizer through the adapter\<close>

text \<open>The operations the finalizer calls, as the adapter provides them.\<close>

definition adapter_ops :: "env \<Rightarrow> 's http \<Rightarrow> 's store_ops" where
  "adapter_ops v http = \<lparr>add_memory = adapter_add_memory v http True, find_marker = find_active_hash_by_marker http,
     store_delete = Some (\<lambda>i reason. adapter_hard_delete http i)\<rparr>"

lemma status_reserved: "startswith ''status:'' t \<Longrightarrow> reserved_tag t"
  by (simp add: reserved_tag_def RESERVED_TAG_PREFIXES_def)

lemma finalized_body:
  assumes "reconstruct_durable_payload v cand marker i via proposer now = Inr b"
  shows "\<exists>body. add_body v (b_wing b) (b_room b) content (b_metadata b) conv = Inr body"
proof -
  obtain carried where "dget (b_metadata b) ''tags'' = Some (JList (map JStr (marker # carried)))"
    using payload_control [OF assms] by blast
  then show ?thesis
    by (simp add: add_body_def Let_def list_of_def fromkeys_def guard_tags_def list_all_iff)
qed

lemma no_status_key:
  assumes "reconstruct_durable_payload v cand marker i via proposer now = Inr b"
  shows "dget (b_metadata b) ''status'' = None"
proof (rule ccontr)
  assume "dget (b_metadata b) ''status'' \<noteq> None"
  then have "''status'' \<in> set (CANONICAL_METADATA_KEYS @ pinned_keys)"
    using payload_control [OF assms] by blast
  then show False by (simp add: CANONICAL_METADATA_KEYS_def pinned_keys_def)
qed

lemma payload_tenant:
  assumes "reconstruct_durable_payload v cand marker i via proposer now = Inr b"
  shows "dget (b_metadata b) ''tenant_id'' = Some (JStr (default_tenant_id (ident v)))"
proof -
  obtain c where "b_metadata b = dict_update (base_metadata v c i now) (pinned v c marker i via proposer)"
    using assms unfolding reconstruct_eq by (auto simp: payload_parts)
  then show ?thesis by (simp only: dget_built base_tenant) (simp add: pinned_def)
qed

lemma finalized_first_tag:
  assumes "add_body v wing room content md conv = Inr body" and "dget md ''tags'' = Some (JList (map JStr (marker # carried)))"
  shows "\<exists>tags. dget body ''tags'' = Some (JList tags) \<and> JStr marker \<in> set tags"
proof -
  let ?g = "guard_tags wing room (agent_of md) (memory_type_of md) (tenant_of v md)"
  have "dget body ''tags'' = Some (JList (take 100 (dedup (?g @ map JStr (marker # carried)))))"
    using add_body_parts [OF assms(1)] assms(2) by (auto simp: list_of_def)
  moreover have "set (?g @ [JStr marker]) \<subseteq> set (take 100 (dedup ((?g @ [JStr marker]) @ map JStr carried)))"
    by (rule dedup_first) (simp add: guard_tags_def)
  ultimately show ?thesis by (auto simp: set_append)
qed

text \<open>
  C10: what the finalizer makes durable is found and recalled as approved: the payload rebuilt from a candidate
  is always accepted by the adapter, and the row it posts reads back in the owner's wing, under the
  deployment's tenant, active and visible to recall, and carries the approval's marker by which it is looked up.
\<close>

theorem durable_row_reads_back:
  assumes b: "reconstruct_durable_payload v cand (approval_ref i) i via proposer now = Inr b"
    and "owner_wing (ident v) \<noteq> []" and "default_tenant_id (ident v) \<noteq> []"
  shows "\<exists>body hit tags. add_body v (b_wing b) (b_room b) content (b_metadata b) conv = Inr body \<and>
    normalize_hit v (dset ''content_hash'' (JStr h) body) = Inr hit \<and>
    dget hit ''content'' = Some (JStr content) \<and> dget hit ''wing'' = Some (JStr (owner_wing (ident v))) \<and>
    dget hit ''tenant_id'' = Some (JStr (default_tenant_id (ident v))) \<and> dget hit ''status'' = Some (JStr ''active'') \<and>
    has_excluded_recall_status hit = Inr False \<and> dget hit ''tags'' = Some (JList tags) \<and> JStr (approval_ref i) \<in> set tags"
proof -
  note p = payload_control [OF b]
  obtain carried where tags: "dget (b_metadata b) ''tags'' = Some (JList (map JStr (approval_ref i # carried)))"
    "\<forall>t \<in> set carried. \<not> reserved_tag t" using p by blast
  obtain body where body: "add_body v (b_wing b) (b_room b) content (b_metadata b) conv = Inr body"
    using finalized_body [OF b] by blast
  have tenant: "tenant_of v (b_metadata b) = default_tenant_id (ident v)"
    using p payload_tenant [OF b] by (simp add: tenant_of_def)
  have own: "\<forall>explicit s. list_of (dget (b_metadata b) ''tags'') = Inr explicit \<and> JStr s \<in> set explicit \<longrightarrow> \<not> startswith ''status:'' s"
    using tags status_reserved by (auto simp: list_of_def approval_ref_def)
  obtain hit where "normalize_hit v (dset ''content_hash'' (JStr h) body) = Inr hit" "dget hit ''content'' = Some (JStr content)"
    "dget hit ''wing'' = Some (JStr (b_wing b))" "dget hit ''tenant_id'' = Some (JStr (tenant_of v (b_metadata b)))"
    "dget hit ''status'' = Some (JStr ''active'')" "has_excluded_recall_status hit = Inr False" "dget hit ''tags'' = dget body ''tags''"
    using posted_row_reads [OF body _ _ _ no_status_key [OF b] own, of h] p assms(2,3) tenant by auto
  with body finalized_first_tag [OF body tags(1)] p tenant show ?thesis by auto
qed

theorem durable_row_reads_back_witness:
  "\<exists>b hit. reconstruct_durable_payload sample_env ''{}'' (approval_ref 7) 7 None (Some ''agent'') 0 = Inr b \<and>
     dget hit ''wing'' = Some (JStr ''owner'') \<and> has_excluded_recall_status hit = Inr False"
proof -
  have l: "load_candidate ''{}'' = Inr []" by code_simp
  obtain b where b: "reconstruct_durable_payload sample_env ''{}'' (approval_ref 7) 7 None (Some ''agent'') 0 = Inr b"
    using l by (simp add: reconstruct_eq)
  from durable_row_reads_back [OF b, of "''text''" None "''h''"] b show ?thesis
    by (auto simp: sample_env_def sample_identity_def)
qed

end
