(* ===== verification/Break_Glass.thy ===== *)
theory Break_Glass
  imports Audit_Log
begin

text \<open>
  \<open>panella/break_glass.py\<close>: root elevation for a bounded time.  The context manager is a function of
  its body: it checks the caller, writes the opening record, runs the body with the elevated
  principal and writes the closing record whether the body returned or raised.  The Telegram message
  is the value \<open>notify_open\<close>; sending it is I/O.  The clock readings are arguments.
\<close>

subsection \<open>The caller\<close>

definition validate_root_caller :: "identity_config \<Rightarrow> principal \<Rightarrow> unit res" where
  "validate_root_caller i p =
     rbind (mk_root_principal i) (\<lambda>root.
       if pr_id p \<noteq> pr_id root \<or> actor_kind p \<noteq> ''human'' then
         Inl (PermissionError (''break-glass is restricted to '' @ pr_id root))
       else if \<not> root_flag p \<or> ''root_operator'' \<notin> roles p then
         Inl (PermissionError ''break-glass requires root_operator role'')
       else if \<not> has_scope p ''*'' then Inl (PermissionError (''break-glass requires '' @ repr_str ''*'' @ '' scope''))
       else Inr ())"

subsection \<open>The notification\<close>

text \<open>\<open>str.splitlines\<close> and \<open>str.strip(chars)\<close>\<close>

definition line_break :: "char \<Rightarrow> bool" where
  "line_break c = (let n = of_char c :: nat in (10 \<le> n \<and> n \<le> 13) \<or> (28 \<le> n \<and> n \<le> 30))"

fun splitlines :: "string \<Rightarrow> string list" where
  "splitlines [] = []"
| "splitlines (c # s) =
     (if line_break c then [] # splitlines (if c = char_of (13::nat) \<and> s \<noteq> [] \<and> hd s = char_of (10::nat) then tl s else s)
      else (case splitlines s of [] \<Rightarrow> [[c]]
            | l # ls \<Rightarrow> (c # l) # ls))"

definition strip_char :: "char \<Rightarrow> string \<Rightarrow> string" where
  "strip_char c s = rev (dropWhile (\<lambda>x. x = c) (rev (dropWhile (\<lambda>x. x = c) s)))"

definition watchdog_line :: "string \<Rightarrow> string \<times> string \<Rightarrow> string \<times> string" where
  "watchdog_line line acc =
     (case after_first (CHR ''='') line of
        None \<Rightarrow> acc
      | Some v \<Rightarrow>
          if startswith ''#'' (py_strip line) then acc
          else
            (let key = py_strip (before_first (CHR ''='') line);
                 val = strip_char (CHR 0x27) (strip_char (CHR 0x22) (py_strip v))
             in if key = ''TELEGRAM_BOT_TOKEN'' then (val, snd acc)
                else if key = ''TELEGRAM_CHAT_ID'' then (fst acc, val) else acc))"

definition load_watchdog_telegram_config :: "string option \<Rightarrow> string \<times> string" where
  "load_watchdog_telegram_config file =
     (case file of None \<Rightarrow> ([], []) | Some txt \<Rightarrow> fold watchdog_line (splitlines txt) ([], []))"

definition nl :: string where
  "nl = [char_of (10::nat)]"

definition notify_open :: "string option \<Rightarrow> principal \<Rightarrow> string list \<Rightarrow> (string \<times> string \<times> string) option" where
  "notify_open file p tenants =
     (let (token, chat_id) = load_watchdog_telegram_config file in
      if token = [] \<or> chat_id = [] then None
      else Some (token, chat_id,
        ''Memory break-glass opened'' @ nl @
        ''principal='' @ pr_id p @ nl @
        ''tenants='' @ join '','' tenants @ nl @
        ''reason='' @ (case bg_token p of None \<Rightarrow> [] | Some t \<Rightarrow> bg_reason t) @ nl @
        ''expires_at='' @ (case bg_token p of None \<Rightarrow> [] | Some t \<Rightarrow> isoformat (expires_at t))))"

subsection \<open>Opening and closing\<close>

definition elevate :: "identity_config \<Rightarrow> principal \<Rightarrow> break_glass_token \<Rightarrow> principal res" where
  "elevate i p tok =
     rbind (mk_root_principal i) (\<lambda>root.
       mk_principal \<lparr>pr_id = pr_id root, tenant_id = ''*'', subject_id = subject_id p, actor_kind = ''human'',
         scopes = {''*''}, roles = roles root, root_flag = True, bg_token = Some tok\<rparr>)"

definition open_entry :: "time \<Rightarrow> principal \<Rightarrow> string \<Rightarrow> int \<Rightarrow> string list \<Rightarrow> time \<Rightarrow> audit_entry" where
  "open_entry now p reason ttl tenants expiry =
     \<lparr>e_ts = isoformat now, e_principal = pr_id p, e_tenant = ''*'', e_op = ''break_glass_open'', e_target = None,
      e_reason = Some reason,
      e_details = [(''ttl_seconds'', JInt ttl), (''requested_tenants'', JList (map JStr tenants)),
                   (''expires_at'', JStr (isoformat expiry))]\<rparr>"

definition close_entry :: "time \<Rightarrow> principal \<Rightarrow> string \<Rightarrow> string list \<Rightarrow> time \<Rightarrow> audit_entry" where
  "close_entry now p reason tenants issued =
     \<lparr>e_ts = isoformat now, e_principal = pr_id p, e_tenant = ''*'', e_op = ''break_glass_close'', e_target = None,
      e_reason = Some reason,
      e_details = [(''requested_tenants'', JList (map JStr tenants)), (''issued_at'', JStr (isoformat issued))]\<rparr>"

definition bg_open ::
  "(string \<Rightarrow> string) \<Rightarrow> identity_config \<Rightarrow> string option \<Rightarrow> int \<Rightarrow> string list \<Rightarrow> principal option \<Rightarrow>
   time \<Rightarrow> audit_db \<Rightarrow> (principal \<times> audit_db) res" where
  "bg_open H i reason ttl tenants caller now db =
     (let reason' = (case reason of None \<Rightarrow> [] | Some s \<Rightarrow> s) in
      if py_strip reason' = [] then Inl (ValueError ''break-glass reason is required'')
      else if ttl \<le> 0 then Inl (ValueError ''ttl_seconds must be positive'')
      else
        rbind (case caller of Some p \<Rightarrow> Inr p | None \<Rightarrow> mk_root_principal i) (\<lambda>p.
        rbind (validate_root_caller i p) (\<lambda>_.
        rbind (audit_tail_hash db) (\<lambda>prev.
        rbind (elevate i p \<lparr>bg_reason = reason', issued_at = now, expires_at = now + seconds ttl,
                            audit_chain_prev_hash = prev\<rparr>) (\<lambda>root.
        rbind (audit_write H (open_entry now root reason' ttl
                  (if tenants = [] then [''*''] else tenants) (now + seconds ttl)) db) (\<lambda>(n, db').
          Inr (root, db')))))))"

text \<open>
  The whole \<open>with break_glass(...)\<close> statement: \<open>body\<close> gets the elevated principal and the audit log as
  it finds it, and leaves a result and a log.  An exception of the closing write replaces the result.
\<close>

definition break_glass ::
  "(string \<Rightarrow> string) \<Rightarrow> identity_config \<Rightarrow> string option \<Rightarrow> int \<Rightarrow> string list \<Rightarrow> principal option \<Rightarrow>
   time \<Rightarrow> time \<Rightarrow> (principal \<Rightarrow> audit_db \<Rightarrow> 'a res \<times> audit_db) \<Rightarrow> audit_db \<Rightarrow> 'a res \<times> audit_db" where
  "break_glass H i reason ttl tenants caller now later body db =
     (case bg_open H i reason ttl tenants caller now db of
        Inl e \<Rightarrow> (Inl e, db)
      | Inr (root, db1) \<Rightarrow>
          (let (r, db2) = body root db1 in
           case audit_write H (close_entry later root (case reason of None \<Rightarrow> [] | Some s \<Rightarrow> s)
                  (if tenants = [] then [''*''] else tenants) now) db2 of
             Inl e \<Rightarrow> (Inl e, db2)
           | Inr (_, db3) \<Rightarrow> (r, db3)))"

subsection \<open>Properties\<close>

lemma validate_root_caller_ok: "validate_root_caller i p = Inr u \<longleftrightarrow>
    (\<exists>root. mk_root_principal i = Inr root \<and> pr_id p = pr_id root \<and> actor_kind p = ''human'' \<and>
       root_flag p \<and> ''root_operator'' \<in> roles p \<and> has_scope p ''*'')"
  by (auto simp: validate_root_caller_def rbind_Inr_iff)

lemma open_entry_ok: "entry_ok (open_entry now p reason ttl tenants expiry)"
  by (simp add: entry_ok_def open_entry_def list_all_iff)

lemma close_entry_ok: "entry_ok (close_entry now p reason tenants issued)"
  by (simp add: entry_ok_def close_entry_def list_all_iff)

lemma bg_open_Inr:
  assumes "bg_open H i reason ttl tenants caller now db = Inr (root, db')"
  shows "(\<exists>s. reason = Some s \<and> py_strip s \<noteq> [] \<and>
      bg_token root = Some \<lparr>bg_reason = s, issued_at = now, expires_at = now + seconds ttl,
                            audit_chain_prev_hash = projr (audit_tail_hash db)\<rparr> \<and>
      audit_write H (open_entry now root s ttl (if tenants = [] then [''*''] else tenants) (now + seconds ttl)) db
        = Inr (seq (last (audit_rows db')), db')) \<and> 0 < ttl \<and>
    (\<exists>p. (case caller of Some p \<Rightarrow> Inr p | None \<Rightarrow> mk_root_principal i) = Inr p \<and>
       validate_root_caller i p = Inr ()) \<and>
    principal_ok root \<and> root_flag root \<and> tenant_id root = ''*'' \<and> pr_id root = rp_id (root_principal i)"
  using assms
  by (cases reason)
    (auto simp: bg_open_def Let_def rbind_Inr_iff elevate_def mk_principal_iff mk_root_principal_def
      py_strip_def audit_write_iff split: if_splits prod.splits option.splits)

lemma elevated_until:
  assumes "bg_open H i reason ttl tenants caller now db = Inr (root, db')"
  shows "is_root_with_break_glass root t \<longleftrightarrow> t < now + seconds ttl"
  using bg_open_Inr [OF assms] by (auto simp: is_root_with_break_glass_def is_active_def)

lemma append_entry_open: "append_entry H (open_entry now p s ttl ts x) db = audit_write H (open_entry now p s ttl ts x) db"
  by (simp add: append_entry_def open_entry_ok)

lemma append_entry_close: "append_entry H (close_entry now p s ts x) db = audit_write H (close_entry now p s ts x) db"
  by (simp add: append_entry_def close_entry_ok)

lemma append_all_up: "audit_up (append_all (append_entry H) es db) = audit_up db"
  by (induction es arbitrary: db)
    (auto split: sum.splits simp: append_entry_def audit_write_iff split: if_splits)


lemma sample_open: "is_ok (bg_open H sample_identity (Some ''incident'') 600 [] None now (sample_log 0))"
proof -
  have "tenant_re ''owner''" "tenant_re ''*''" by code_simp+
  then have "mk_root_principal sample_identity = Inr \<lparr>pr_id = ''human:owner@local'', tenant_id = ''*'',
       subject_id = ''owner'', actor_kind = ''human'', scopes = {''*''},
       roles = {''root_operator''}, root_flag = True, bg_token = None\<rparr>"
    by (simp add: mk_root_principal_def mk_principal_iff principal_ok_def sample_identity_def)
  moreover have "py_strip ''incident'' \<noteq> []" by code_simp
  ultimately show ?thesis using \<open>tenant_re ''owner''\<close> \<open>tenant_re ''*''\<close>
    by (simp add: bg_open_def validate_root_caller_def has_scope_def elevate_def audit_tail_hash_def
        audit_connect_def audit_write_def sample_log_def mk_principal_def validate_identity_id_def Let_def)
qed


end
