(* ===== verification/Counters.thy ===== *)
theory Counters
  imports Prelude
begin

text \<open>
  \<open>panella/counters.py\<close>: the process-wide event counters that the quotas read, and their flush to a table.
  A \<open>Counter\<close> is a dictionary whose missing entries count 0.  The lock makes each operation atomic.
\<close>

type_synonym counters = "((string \<times> string \<times> string) \<times> int) list"

record stat_row =
  st_ts :: string
  st_agent :: string
  st_wing :: string
  st_event :: string
  st_count :: int

record stats_db =
  stat_rows :: "stat_row list"
  stats_up :: bool

definition counter_get :: "('k \<times> int) list \<Rightarrow> 'k \<Rightarrow> int" where
  "counter_get c k = (case dget c k of None \<Rightarrow> 0 | Some n \<Rightarrow> n)"

definition counter_add :: "'k \<Rightarrow> int \<Rightarrow> ('k \<times> int) list \<Rightarrow> ('k \<times> int) list" where
  "counter_add k n c = dset k (counter_get c k + n) c"

definition increment :: "string \<Rightarrow> string \<Rightarrow> string \<Rightarrow> int \<Rightarrow> counters \<Rightarrow> counters" where
  "increment agent event wing n c = counter_add (agent, wing, event) n c"

definition get_today :: "string option \<Rightarrow> counters \<Rightarrow> (string \<times> int) list" where
  "get_today agent c =
     foldl (\<lambda>totals ((row_agent, w, event), n).
       if agent = None \<or> agent = Some row_agent then counter_add event n totals else totals) [] c"

definition count_today :: "string \<Rightarrow> string \<Rightarrow> counters \<Rightarrow> int" where
  "count_today agent event c = counter_get (get_today (Some agent) c) event"

definition insert_stats :: "time \<Rightarrow> counters \<Rightarrow> stats_db \<Rightarrow> stats_db" where
  "insert_stats now c db = db\<lparr>stat_rows := stat_rows db @
     map (\<lambda>((agent, w, event), n). \<lparr>st_ts = isoformat now, st_agent = agent, st_wing = w, st_event = event, st_count = n\<rparr>) c\<rparr>"

text \<open>The counters are cleared before the rows are written: a failing database loses them.\<close>

definition flush :: "time \<Rightarrow> counters \<Rightarrow> stats_db \<Rightarrow> nat res \<times> counters \<times> stats_db" where
  "flush now c db =
     (if c = [] then (Inr 0, [], db)
      else if \<not> stats_up db then (Inl (OperationalError ''unable to open database file''), [], db)
      else (Inr (length c), [], insert_stats now c db))"

definition reset :: "counters \<Rightarrow> counters" where
  "reset c = []"

subsection \<open>What is counted\<close>

lemma counter_get_add [simp]: "counter_get (counter_add k n c) k' = counter_get c k' + (if k' = k then n else 0)"
  by (simp add: counter_get_def counter_add_def dict_simps)

text \<open>The rows of an agent and event, whatever the wing.\<close>

fun counted :: "string option \<Rightarrow> string \<Rightarrow> string \<times> string \<times> string \<Rightarrow> bool" where
  "counted agent event (a, w, e) \<longleftrightarrow> (agent = None \<or> agent = Some a) \<and> e = event"

definition event_sum :: "string option \<Rightarrow> string \<Rightarrow> counters \<Rightarrow> int" where
  "event_sum agent event c =
     sum_list (map (\<lambda>(k, n). if counted agent event k then n else 0) c)"

lemma get_today_sum: "counter_get (get_today agent c) event = event_sum agent event c"
proof -
  have "counter_get (foldl (\<lambda>totals ((row_agent, w, ev), n).
       if agent = None \<or> agent = Some row_agent then counter_add ev n totals else totals) t c) event =
     counter_get t event + event_sum agent event c" for t
    by (induction c arbitrary: t) (auto simp: event_sum_def split: prod.splits)
  from this [of "[]"] show ?thesis by (simp add: get_today_def counter_get_def)
qed

lemma counter_sum:
  "sum_list (map (\<lambda>(k, n). if P k then n else 0) (counter_add k n c)) =
   sum_list (map (\<lambda>(k, n). if P k then n else 0) c) + (if P k then n else 0)"
  by (induction c) (auto simp: counter_add_def counter_get_def)

lemma event_sum_add:
  "event_sum agent event (counter_add (a, w, e) n c) =
   event_sum agent event c + (if (agent = None \<or> agent = Some a) \<and> e = event then n else 0)"
  unfolding event_sum_def by (simp add: counter_sum)

lemma count_increment:
  "count_today agent event (increment a e w n c) = count_today agent event c + (if a = agent \<and> e = event then n else 0)"
  by (auto simp: count_today_def get_today_sum increment_def event_sum_add)

lemma count_reset [simp]: "count_today agent event (reset c) = 0"
  by (simp add: count_today_def get_today_sum reset_def event_sum_def)

text \<open>What an agent's event adds up to in the table.\<close>

definition table_sum :: "string \<Rightarrow> string \<Rightarrow> stats_db \<Rightarrow> int" where
  "table_sum agent event db = sum_list (map (\<lambda>r. if st_agent r = agent \<and> st_event r = event then st_count r else 0) (stat_rows db))"

lemma table_sum_insert: "table_sum agent event (insert_stats now c db) = table_sum agent event db + event_sum (Some agent) event c"
proof -
  have "sum_list (map ((\<lambda>r. if st_agent r = agent \<and> st_event r = event then st_count r else 0) \<circ>
      (\<lambda>((a, w, e), n). \<lparr>st_ts = isoformat now, st_agent = a, st_wing = w, st_event = e, st_count = n\<rparr>)) c)
    = event_sum (Some agent) event c"
    by (induction c) (auto simp: event_sum_def)
  then show ?thesis by (simp add: table_sum_def insert_stats_def)
qed

text \<open>A flush moves the counts to the table; only a failing database loses them.\<close>

lemma flush_conserves:
  assumes "flush now c db = (r, c', db')" and "stats_up db"
  shows "is_ok r \<and> table_sum agent event db' + count_today agent event c' = table_sum agent event db + count_today agent event c"
  using assms
  by (auto simp: flush_def count_today_def get_today_sum table_sum_insert event_sum_def split: if_split_asm)

lemma flush_down_loses:
  assumes "\<not> stats_up db" and "c \<noteq> []"
  shows "flush now c db = (Inl (OperationalError ''unable to open database file''), [], db)"
  using assms by (simp add: flush_def)

end
