(* ===== verification/Memory_Client.thy ===== *)
theory Memory_Client
  imports Store_Adapter Break_Glass Counters
begin

text \<open>
  \<open>panella/client.py\<close>: the profile-driven client that agents use: the guards of every call, the write
  quotas, the write path up to the approval queue or the store, reading under the profile's allowlists,
  and the lifecycle mutations.  A client is its principal, the world it acts on, the process-wide counters
  and the times of its recent writes; a method is a function of the client that returns its result and
  the client it leaves, also when it raises.  \<open>client_ops\<close> are the adapter's operations; \<open>None\<close> is an
  adapter without the attribute.  The clock readings of a call are \<open>clk k\<close> in the order of the code.
\<close>

subsection \<open>State\<close>

record 's client_ops = "'s store_ops" +
  op_get :: "(string \<Rightarrow> 's \<Rightarrow> dict option res) option"
  op_tombstone :: "(string \<Rightarrow> string \<Rightarrow> string \<Rightarrow> 's \<Rightarrow> bool res \<times> 's) option"
  op_supersede :: "(string \<Rightarrow> string \<Rightarrow> string option \<Rightarrow> 's \<Rightarrow> bool res \<times> 's) option"
  op_find :: "(string \<Rightarrow> string \<Rightarrow> 's \<Rightarrow> string list res) option"
  op_marker :: "(string \<Rightarrow> string \<Rightarrow> 's \<Rightarrow> string option res) option"
  op_recent :: "string \<Rightarrow> nat \<Rightarrow> string list \<Rightarrow> 's \<Rightarrow> dict list res"
  op_stats :: "string option \<Rightarrow> string list \<Rightarrow> 's \<Rightarrow> dict res option"
  accepts_conv :: bool

record 's client =
  me :: principal
  cw :: "'s world"
  counts :: counters
  stamps :: "time list"

definition client_store :: "'s client \<Rightarrow> 's" where
  "client_store c = w_store (cw c)"

definition set_store :: "'s \<Rightarrow> 's client \<Rightarrow> 's client" where
  "set_store s c = c\<lparr>cw := (cw c)\<lparr>w_store := s\<rparr>\<rparr>"

definition set_outbox :: "outbox_db \<Rightarrow> 's client \<Rightarrow> 's client" where
  "set_outbox db c = c\<lparr>cw := (cw c)\<lparr>w_outbox := db\<rparr>\<rparr>"

definition set_audit :: "audit_db \<Rightarrow> 's client \<Rightarrow> 's client" where
  "set_audit au c = c\<lparr>cw := (cw c)\<lparr>w_audit := au\<rparr>\<rparr>"

definition bump :: "agent_profile \<Rightarrow> string \<Rightarrow> string \<Rightarrow> int \<Rightarrow> 's client \<Rightarrow> 's client" where
  "bump p event wing n c = c\<lparr>counts := increment (prof_name p) event wing n (counts c)\<rparr>"

text \<open>Sequencing: the next step runs on the client the step before left, unless it raised.\<close>

definition andthen :: "'a res \<times> 'c \<Rightarrow> ('a \<Rightarrow> 'c \<Rightarrow> 'b res \<times> 'c) \<Rightarrow> 'b res \<times> 'c" where
  "andthen m f = (case m of (Inl e, c) \<Rightarrow> (Inl e, c) | (Inr x, c) \<Rightarrow> f x c)"

lemma andthen_simps [simp]:
  "andthen (Inl e, c) f = (Inl e, c)"
  "andthen (Inr x, c) f = f x c"
  by (simp_all add: andthen_def)

lemma andthen_Inr: "andthen m f = (Inr y, c') \<longleftrightarrow> (\<exists>x c. m = (Inr x, c) \<and> f x c = (Inr y, c'))"
  by (cases m; cases "fst m") auto

subsection \<open>Tenants and ownership\<close>

definition client_tenants :: "agent_profile \<Rightarrow> principal \<Rightarrow> time \<Rightarrow> string list res" where
  "client_tenants p who now =
     (if tenant_id who = ''*'' then
        (if is_root_with_break_glass who now then Inr [''*'']
         else Inl (PermissionError ''cross-tenant scope requires an active break-glass token''))
      else if \<not> allows_tenant p (tenant_id who) then
        Inl (PermissionError (''profile '' @ prof_name p @ '' does not allow tenant '' @ tenant_id who))
      else Inr [tenant_id who])"

definition hit_tenant :: "dict \<Rightarrow> string option" where
  "hit_tenant hit = (case dget hit ''tenant_id'' of None \<Rightarrow> None | Some JNull \<Rightarrow> None | Some t \<Rightarrow> Some (py_str t))"

definition require_mutation_target_owned ::
  "agent_profile \<Rightarrow> 's client_ops \<Rightarrow> principal \<Rightarrow> string \<Rightarrow> time \<Rightarrow> 's \<Rightarrow> bool res" where
  "require_mutation_target_owned p ops who i now s =
     rbind (client_tenants p who now) (\<lambda>tenants.
       if ''*'' \<in> set tenants then Inr True
       else case op_get ops of
           None \<Rightarrow> Inl (RuntimeError ''memory adapter does not support get_drawer; cannot verify mutation ownership'')
         | Some getter \<Rightarrow> rbind (getter i s) (\<lambda>target.
             case target of
               None \<Rightarrow> Inr False
             | Some hit \<Rightarrow>
                 (case hit_tenant hit of
                    None \<Rightarrow> Inl (PermissionError ''cannot mutate drawer'')
                  | Some t \<Rightarrow> if t \<notin> set tenants then Inl (PermissionError ''cannot mutate drawer'') else Inr True)))"

definition write_tenant_id :: "env \<Rightarrow> agent_profile \<Rightarrow> principal \<Rightarrow> time \<Rightarrow> string res" where
  "write_tenant_id v p who now = rbind (client_tenants p who now) (\<lambda>tenants.
     Inr (if ''*'' \<in> set tenants then default_tenant_id (ident v) else hd tenants))"

definition resolve_write_tenant_id ::
  "env \<Rightarrow> agent_profile \<Rightarrow> principal \<Rightarrow> json option \<Rightarrow> time \<Rightarrow> time \<Rightarrow> string res" where
  "resolve_write_tenant_id v p who requested now later =
     rbind (write_tenant_id v p who now) (\<lambda>write_tenant.
       if \<not> opt_truthy requested then Inr write_tenant
       else let r = py_str (the requested) in
         if is_root_with_break_glass who later then Inr r
         else if r \<noteq> write_tenant then
           Inl (PermissionError (''principal '' @ pr_id who @ '' cannot write tenant '' @ r))
         else Inr write_tenant)"

subsection \<open>Audit and history\<close>

definition client_entry ::
  "principal \<Rightarrow> string \<Rightarrow> string option \<Rightarrow> dict \<Rightarrow> string \<Rightarrow> time \<Rightarrow> audit_entry" where
  "client_entry who operation target details tenant now =
     \<lparr>e_ts = isoformat now, e_principal = pr_id who, e_tenant = tenant, e_op = operation, e_target = target,
      e_reason = map_option bg_reason (bg_token who), e_details = details\<rparr>"

definition audit_if_cross_tenant ::
  "env \<Rightarrow> string \<Rightarrow> string option \<Rightarrow> dict \<Rightarrow> string \<Rightarrow> time \<Rightarrow> time \<Rightarrow> 's client \<Rightarrow> unit res \<times> 's client" where
  "audit_if_cross_tenant v operation target details tenant now later c =
     (if \<not> is_root_with_break_glass (me c) now then (Inr (), c)
      else case audit_write (sha256_hex v) (client_entry (me c) operation target details tenant later) (w_audit (cw c)) of
          Inl e \<Rightarrow> (Inl e, c)
        | Inr (_, au) \<Rightarrow> (Inr (), set_audit au c))"

text \<open>A value that SQLite cannot bind loses the history row, as any failure of the best-effort log does.\<close>

definition bindable :: "json \<Rightarrow> bool" where
  "bindable j = (case j of JList _ \<Rightarrow> False | JObj _ \<Rightarrow> False | JInt i \<Rightarrow> - (2 ^ 63) \<le> i \<and> i < 2 ^ 63 | _ \<Rightarrow> True)"

definition log_history :: "history_row \<Rightarrow> 's client \<Rightarrow> 's client" where
  "log_history h c =
     (if bindable (mh_author h) \<and> bindable (mh_source_bridge h) \<and> bindable (mh_session h)
      then set_outbox (append_history h (w_outbox (cw c))) c else c)"

subsection \<open>Write quotas\<close>

definition enforce_write_quota :: "agent_profile \<Rightarrow> time \<Rightarrow> 's client \<Rightarrow> unit res \<times> 's client" where
  "enforce_write_quota p now c =
     (if count_today (prof_name p) ''writes'' (counts c) \<ge> daily_max_drawers p then
        (Inl QuotaExceeded, bump p ''quota_violations'' ''all'' 1 c)
      else
        (let c1 = c\<lparr>stamps := filter (\<lambda>ts. now - ts < seconds 60) (stamps c)\<rparr> in
         if int (length (stamps c1)) \<ge> burst_max_per_minute p then
           (Inl QuotaExceeded, bump p ''quota_violations'' ''all'' 1 c1)
         else (Inr (), c1)))"

definition check_write_quota :: "agent_profile \<Rightarrow> int \<Rightarrow> time \<Rightarrow> 's client \<Rightarrow> unit res \<times> 's client" where
  "check_write_quota p n now c =
     (if n \<le> 0 then (Inr (), c)
      else if count_today (prof_name p) ''writes'' (counts c) + n > daily_max_drawers p then
        (Inl QuotaExceeded, bump p ''quota_violations'' ''all'' 1 c)
      else if int (length (filter (\<lambda>ts. now - ts < seconds 60) (stamps c))) + n > burst_max_per_minute p then
        (Inl QuotaExceeded, bump p ''quota_violations'' ''all'' 1 c)
      else (Inr (), c))"

definition record_write :: "agent_profile \<Rightarrow> time \<Rightarrow> 's client \<Rightarrow> 's client" where
  "record_write p now c = bump p ''writes'' (default_wing p) 1 (c\<lparr>stamps := stamps c @ [now]\<rparr>)"

subsection \<open>Metadata of a write\<close>

definition retention_metadata :: "agent_profile \<Rightarrow> string \<Rightarrow> time \<Rightarrow> dict" where
  "retention_metadata p room now =
     (let ttl = (if room \<in> set (ephemeral_rooms p) then Some 7 else default_ttl_days p) in
      [(''retention_ttl_days'', case ttl of None \<Rightarrow> JNull | Some d \<Rightarrow> JInt d),
       (''retention_expires_at'', case ttl of None \<Rightarrow> JNull | Some d \<Rightarrow> JStr (isoformat (now + seconds (86400 * d)))),
       (''retention_stamped_at'', JStr (isoformat now))])"

definition bitemporal_metadata :: "time \<Rightarrow> dict" where
  "bitemporal_metadata now =
     [(''valid_from'', JStr (utcnow_iso now)), (''valid_to'', JNull), (''ingested_at'', JStr (utcnow_iso now))]"

definition payload_metadata ::
  "agent_profile \<Rightarrow> principal \<Rightarrow> dict \<Rightarrow> dict \<Rightarrow> dict \<Rightarrow> string \<Rightarrow> string \<Rightarrow> bool \<Rightarrow> dict" where
  "payload_metadata p who md retention bitemporal tenant mtype infer =
     dict_update (dict_update (dict_update md retention) bitemporal)
       [(''tenant_id'', JStr tenant),
        (''subject_id'', jor (dget md ''subject_id'') (JStr (subject_id who))),
        (''actor_id'', jor (dget md ''actor_id'') (JStr (actor_id who))),
        (''principal_id'', jor (dget md ''principal_id'') (JStr (pr_id who))),
        (''author_agent_id'', get_or_null md ''author_agent_id''),
        (''source_bridge'', get_or_null md ''source_bridge''),
        (''session_id'', get_or_null md ''session_id''),
        (''infer'', JBool infer),
        (''schema_version'', case dget md ''schema_version'' of None \<Rightarrow> JStr ''v2'' | Some x \<Rightarrow> x),
        (''migration_batch_id'', get_or_null md ''migration_batch_id''),
        (''memory_type'', JStr mtype),
        (''source_system'', case dget md ''source_system'' of None \<Rightarrow> JStr (''memory-client:'' @ prof_name p) | Some x \<Rightarrow> x),
        (''agent_profile'', JStr (prof_name p))]"

definition approval_required :: "agent_profile \<Rightarrow> string \<Rightarrow> string \<Rightarrow> bool" where
  "approval_required p wing room = matches_any (wing @ ''/'' @ room) (approval_required_for p)"

definition write_history ::
  "string \<Rightarrow> string \<Rightarrow> string \<Rightarrow> principal \<Rightarrow> string \<Rightarrow> string \<Rightarrow> dict \<Rightarrow> string option \<Rightarrow> time \<Rightarrow> history_row" where
  "write_history operation drawer tenant who wing room payload details now =
     (history_entry now operation drawer tenant (Some (pr_id who)))
     \<lparr>mh_wing := Some wing, mh_room := Some room, mh_author := get_or_null payload ''author_agent_id'',
      mh_source_bridge := get_or_null payload ''source_bridge'', mh_session := get_or_null payload ''session_id'',
      mh_details_json := details\<rparr>"

subsection \<open>Writing\<close>

record write_result =
  wr_drawer :: string
  wr_wing :: string
  wr_room :: string
  wr_queued :: bool
  wr_approval :: "int option"
  wr_dedup :: bool
  wr_existing :: "string option"
  wr_op :: string

definition write_guard :: "agent_profile \<Rightarrow> principal \<Rightarrow> string option \<Rightarrow> time \<Rightarrow> unit res" where
  "write_guard p who conv now =
     rbind (require_scope who ''memory.write'') (\<lambda>_. rbind (require_active_break_glass who now) (\<lambda>_.
       if conv \<noteq> None \<and> (prof_name p \<noteq> ''cc-sync'' \<or> \<not> startswith ''cc-sync:'' (the conv)) then
         Inl (PermissionError ''conversation_id is scope-restricted to the cc-sync profile'')
       else if finalizer_only p then Inl (PermissionError (''profile '' @ prof_name p @ '' is finalizer_only''))
       else Inr ()))"

definition infer_flag :: "dict \<Rightarrow> bool res" where
  "infer_flag md = (case dget md ''infer'' of None \<Rightarrow> Inr False | Some (JBool b) \<Rightarrow> Inr b
     | Some _ \<Rightarrow> Inl (ValueError ''infer must be a bool''))"

definition write_allowed :: "agent_profile \<Rightarrow> string \<Rightarrow> string \<Rightarrow> unit res" where
  "write_allowed p wing room =
     (if enforce_write_allowlist p \<and> wing \<notin> set (write_wing_allowlist p) then
        Inl (PermissionError (''profile '' @ prof_name p @ '' write_wing_allowlist denies wing='' @ wing))
      else if enforce_write_allowlist p \<and> (wing @ ''/'' @ room) \<notin> set (write_room_allowlist p) then
        Inl (PermissionError (''profile '' @ prof_name p @ '' write_room_allowlist denies pair='' @ wing @ ''/'' @ room))
      else Inr ())"

definition write_queued ::
  "env \<Rightarrow> agent_profile \<Rightarrow> string \<Rightarrow> string \<Rightarrow> string \<Rightarrow> string \<Rightarrow> string \<Rightarrow> dict \<Rightarrow> (nat \<Rightarrow> time) \<Rightarrow> 's client \<Rightarrow>
   write_result res \<times> 's client" where
  "write_queued v p wing room content mtype tenant payload clk c =
     (let drawer = deterministic_memory_id v wing room content in
      case enqueue_approval (prof_name p) wing room content mtype payload drawer (clk 6) (w_outbox (cw c)) of
        Inl e \<Rightarrow> (Inl e, c)
      | Inr (i, db) \<Rightarrow>
          andthen (audit_if_cross_tenant v ''write'' (Some drawer) [(''queued_for_approval'', JBool True)] tenant
             (clk 8) (clk 9) (record_write p (clk 7) (set_outbox db c))) (\<lambda>_ c1.
            (Inr \<lparr>wr_drawer = drawer, wr_wing = wing, wr_room = room, wr_queued = True, wr_approval = Some i,
                  wr_dedup = False, wr_existing = None, wr_op = ''queued_for_approval''\<rparr>,
             log_history (write_history ''queued_for_approval'' drawer tenant (me c1) wing room payload None (clk 10)) c1)))"

definition dedup_details :: "string option \<Rightarrow> string" where
  "dedup_details existing = dumps (JObj [(''dedup_existing_hash'', opt_json existing),
     (''drawer_id_kind'', JStr (if given_or existing [] \<noteq> [] then ''upstream_content_hash'' else ''local_fallback''))])"

definition write_direct ::
  "env \<Rightarrow> agent_profile \<Rightarrow> 's client_ops \<Rightarrow> string \<Rightarrow> string \<Rightarrow> string \<Rightarrow> string \<Rightarrow> dict \<Rightarrow> string option \<Rightarrow> bool \<Rightarrow>
   (nat \<Rightarrow> time) \<Rightarrow> 's client \<Rightarrow> write_result res \<times> 's client" where
  "write_direct v p ops wing room content tenant payload conv raise_dedup clk c =
     (let drawer = deterministic_memory_id v wing room content;
          (r, s') = add_memory ops wing room content payload (if accepts_conv ops then conv else None) (client_store c);
          c1 = set_store s' c
      in case (case r of
             Inr h \<Rightarrow> Inr (False, None, given_or (Some h) drawer)
           | Inl (PanellaDedupSkipped existing) \<Rightarrow>
               if raise_dedup then Inl (PanellaDedupSkipped existing) else Inr (True, existing, given_or existing drawer)
           | Inl e \<Rightarrow> Inl e) of
          Inl e \<Rightarrow> (Inl e, c1)
        | Inr (dup, existing, written) \<Rightarrow>
            (let c2 = (if dup \<and> \<not> quota_counts_dedup p then c1 else record_write p (clk 7) c1);
                 operation = (if dup then ''dedup_skipped'' else ''stored'')
             in andthen (audit_if_cross_tenant v ''write'' (Some written)
                   [(''queued_for_approval'', JBool False), (''dedup_skipped'', JBool dup)] tenant (clk 8) (clk 9) c2) (\<lambda>_ c3.
                 (Inr \<lparr>wr_drawer = written, wr_wing = wing, wr_room = room, wr_queued = False, wr_approval = None,
                       wr_dedup = dup, wr_existing = existing, wr_op = operation\<rparr>,
                  log_history (write_history operation written tenant (me c3) wing room payload
                    (if dup then Some (dedup_details existing) else None) (clk 10)) c3))))"

definition write_wing :: "agent_profile \<Rightarrow> dict \<Rightarrow> string" where
  "write_wing p md = str_or (dget md ''wing'') (default_wing p)"

definition write_room :: "agent_profile \<Rightarrow> string \<Rightarrow> string" where
  "write_room p room = (if room = [] then default_room p else room)"

text \<open>The metadata once the control arguments are popped.\<close>

definition own_metadata :: "dict \<Rightarrow> dict" where
  "own_metadata md = AList.delete ''wing'' (AList.delete ''infer'' (AList.delete ''raise_dedup_skipped'' md))"

text \<open>Every check of a write, in order: the infer hint and the tenant of one that may go on.\<close>

definition write_admit ::
  "env \<Rightarrow> agent_profile \<Rightarrow> string \<Rightarrow> string \<Rightarrow> string option \<Rightarrow> dict \<Rightarrow> (nat \<Rightarrow> time) \<Rightarrow> 's client \<Rightarrow>
   (bool \<times> string) res \<times> 's client" where
  "write_admit v p room mtype conv md clk c =
     andthen (write_guard p (me c) conv (clk 0), c) (\<lambda>_ c.
     andthen (infer_flag md, c) (\<lambda>infer c.
       if mtype \<notin> set (memory_type_allowlist p) then
         (Inl (ValueError (''memory_type not allowed for '' @ prof_name p @ '': '' @ mtype)), c)
       else
     andthen (enforce_write_quota p (clk 1) c) (\<lambda>_ c.
     andthen (write_allowed p (write_wing p md) (write_room p room), c) (\<lambda>_ c.
     andthen (resolve_write_tenant_id v p (me c) (dget (own_metadata md) ''tenant_id'') (clk 4) (clk 5), c) (\<lambda>tenant c.
       (Inr (infer, tenant), c))))))"

definition client_write ::
  "env \<Rightarrow> agent_profile \<Rightarrow> 's client_ops \<Rightarrow> string \<Rightarrow> string \<Rightarrow> string \<Rightarrow> string option \<Rightarrow> dict \<Rightarrow> (nat \<Rightarrow> time) \<Rightarrow>
   's client \<Rightarrow> write_result res \<times> 's client" where
  "client_write v p ops text room0 mtype conv md clk c =
     andthen (write_admit v p room0 mtype conv md clk c) (\<lambda>(infer, tenant) c.
       let wing = write_wing p md; room = write_room p room0;
           payload = payload_metadata p (me c) (own_metadata md) (retention_metadata p room (clk 2))
             (bitemporal_metadata (clk 3)) tenant mtype infer
       in if approval_required p wing room then write_queued v p wing room (sanitize v text) mtype tenant payload clk c
          else write_direct v p ops wing room (sanitize v text) tenant payload conv
                 (opt_truthy (dget md ''raise_dedup_skipped'')) clk c)"

subsection \<open>Reading\<close>

definition room_path :: "dict \<Rightarrow> string" where
  "room_path hit =
     (let wing = strip_char (CHR ''/'') (str_or (dget hit ''wing'') []);
          room = strip_char (CHR ''/'') (str_or (dget hit ''room'') [])
      in if CHR ''/'' \<in> set room then room else strip_char (CHR ''/'') (wing @ ''/'' @ room))"

definition path_readable :: "agent_profile \<Rightarrow> string \<Rightarrow> bool" where
  "path_readable p path \<longleftrightarrow> \<not> matches_any path (deny p) \<and> matches_any path (read_allowlist p)"

datatype verdict = Allow | Block

definition judge_hit :: "agent_profile \<Rightarrow> bool \<Rightarrow> string list \<Rightarrow> dict \<Rightarrow> verdict res" where
  "judge_hit p root tenants hit =
     rbind (has_excluded_recall_status hit) (\<lambda>excluded.
       if excluded then Inr Block
       else
         (let by_path = (if path_readable p (room_path hit) then Allow else Block) in
          case hit_tenant hit of
            None \<Rightarrow> if \<not> root then Inr Block else Inr by_path
          | Some t \<Rightarrow> if ''*'' \<notin> set tenants \<and> t \<notin> set tenants then Inl TenantIsolationError else Inr by_path))"

fun filter_loop :: "agent_profile \<Rightarrow> bool \<Rightarrow> string list \<Rightarrow> dict list \<Rightarrow> (dict list \<times> dict list) res" where
  "filter_loop p root tenants [] = Inr ([], [])"
| "filter_loop p root tenants (hit # hits) =
     rbind (judge_hit p root tenants hit) (\<lambda>verdict. rbind (filter_loop p root tenants hits) (\<lambda>(allowed, blocked).
       Inr (case verdict of Allow \<Rightarrow> (hit # allowed, blocked) | Block \<Rightarrow> (allowed, hit # blocked))))"

definition filter_hits :: "agent_profile \<Rightarrow> principal \<Rightarrow> time \<Rightarrow> time \<Rightarrow> dict list \<Rightarrow> (dict list \<times> dict list) res" where
  "filter_hits p who now later hits = rbind (client_tenants p who now) (\<lambda>tenants.
     filter_loop p (is_root_with_break_glass who later) tenants hits)"

definition read_guard :: "principal \<Rightarrow> time \<Rightarrow> unit res" where
  "read_guard who now = rbind (require_scope who ''memory.read'') (\<lambda>_. require_active_break_glass who now)"

definition count_blocked :: "agent_profile \<Rightarrow> dict list \<Rightarrow> 's client \<Rightarrow> 's client" where
  "count_blocked p blocked c = (if blocked = [] then c else bump p ''privacy_blocks'' ''all'' (int (length blocked)) c)"

definition get_memory ::
  "env \<Rightarrow> agent_profile \<Rightarrow> 's client_ops \<Rightarrow> string \<Rightarrow> (nat \<Rightarrow> time) \<Rightarrow> 's client \<Rightarrow> dict option res \<times> 's client" where
  "get_memory v p ops i clk c =
     andthen (read_guard (me c) (clk 0), c) (\<lambda>_ c.
       case op_get ops of
         None \<Rightarrow> (Inl (RuntimeError ''memory adapter does not support get_drawer''), c)
       | Some getter \<Rightarrow>
           andthen (getter i (client_store c), c) (\<lambda>raw' c.
             case raw' of
               None \<Rightarrow> (Inr None, c)
             | Some hit \<Rightarrow>
                 andthen (filter_hits p (me c) (clk 1) (clk 2) [hit], c) (\<lambda>(allowed, blocked) c.
                   let c1 = count_blocked p blocked c in
                   case allowed of
                     [] \<Rightarrow> (Inr None, c1)
                   | h # _ \<Rightarrow>
                       andthen (audit_if_cross_tenant v ''get_memory'' (Some i) [(''memory_id'', JStr i)]
                           (str_or (dget h ''tenant_id'') (tenant_id (me c1))) (clk 3) (clk 4) c1)
                         (\<lambda>_ c2. (Inr (Some h), c2)))))"

definition snippet :: "dict \<Rightarrow> dict" where
  "snippet hit = (let content = str_or (dget hit ''content'') [] in
     if length content > 240 then dset ''content'' (JStr (take 240 content @ ''...'')) hit else hit)"

text \<open>The fallback without tenants serves an adapter that raises \<open>TypeError\<close>.\<close>

definition sample_by_wing ::
  "agent_profile \<Rightarrow> 's client_ops \<Rightarrow> string \<Rightarrow> nat \<Rightarrow> (nat \<Rightarrow> time) \<Rightarrow> 's client \<Rightarrow> dict list res \<times> 's client" where
  "sample_by_wing p ops wing k clk c =
     andthen (read_guard (me c) (clk 0), c) (\<lambda>_ c.
     andthen (client_tenants p (me c) (clk 1), c) (\<lambda>tenants c.
     andthen (case op_recent ops wing k tenants (client_store c) of
                Inl (TypeError _) \<Rightarrow> op_recent ops wing k [] (client_store c) | r \<Rightarrow> r, c) (\<lambda>raw' c.
     andthen (filter_hits p (me c) (clk 2) (clk 3) raw', c) (\<lambda>(allowed, blocked) c.
       (Inr (take k (map snippet allowed)), count_blocked p blocked c)))))"

subsection \<open>Corpus statistics\<close>

definition row_wing :: "dict \<Rightarrow> json res" where
  "row_wing row = (case dget row ''wing'' of None \<Rightarrow> Inl (KeyError ''wing'') | Some x \<Rightarrow> Inr x)"

definition permitted_rooms :: "agent_profile \<Rightarrow> json \<Rightarrow> dict \<Rightarrow> dict" where
  "permitted_rooms p wing rooms = filter (\<lambda>(room, n). path_readable p (py_str wing @ ''/'' @ room)) rooms"

fun sum_counts :: "json list \<Rightarrow> int res" where
  "sum_counts [] = Inr 0"
| "sum_counts (JInt n # xs) = rbind (sum_counts xs) (\<lambda>m. Inr (n + m))"
| "sum_counts (JBool b # xs) = rbind (sum_counts xs) (\<lambda>m. Inr ((if b then 1 else 0) + m))"
| "sum_counts (_ # xs) = Inl (TypeError ''unsupported operand'')"

definition stats_row :: "agent_profile \<Rightarrow> json \<Rightarrow> (dict \<times> int) option res" where
  "stats_row p row = rbind (as_obj row) (\<lambda>r. rbind (row_wing r) (\<lambda>wing. rbind (dict_of (dget r ''rooms'')) (\<lambda>rooms.
     let permitted = permitted_rooms p wing rooms in
     if permitted = [] then Inr None
     else rbind (sum_counts (map snd permitted)) (\<lambda>n.
       Inr (Some ([(''wing'', wing), (''drawer_count'', JInt n), (''rooms'', JObj permitted),
                   (''most_recent_write_ts'', get_or_null r ''most_recent_write_ts'')], n))))))"

text \<open>The adapter's aggregate may not end; then neither does the client's.\<close>

definition client_aggregate_stats ::
  "agent_profile \<Rightarrow> 's client_ops \<Rightarrow> string option \<Rightarrow> (nat \<Rightarrow> time) \<Rightarrow> 's client \<Rightarrow> dict res option" where
  "client_aggregate_stats p ops wing_filter clk c =
     (case rbind (read_guard (me c) (clk 0)) (\<lambda>_. client_tenants p (me c) (clk 1)) of
        Inl e \<Rightarrow> Some (Inl e)
      | Inr tenants \<Rightarrow>
          map_option (\<lambda>r. rbind r (\<lambda>raw'.
            rbind (case dget raw' ''wing_breakdown'' of None \<Rightarrow> Inr [] | Some j \<Rightarrow> list_of (Some j)) (\<lambda>rows.
            rbind (filter_map_res (stats_row p) rows) (\<lambda>ws.
              Inr [(''total_drawers'', JInt (sum_list (map snd ws))), (''wing_breakdown'', JList (map (JObj \<circ> fst) ws)),
                   (''last_synced_ts'', get_or_null raw' ''last_synced_ts'')]))))
          (case op_stats ops wing_filter tenants (client_store c) of
             Some (Inl (TypeError _)) \<Rightarrow> op_stats ops wing_filter [] (client_store c) | r \<Rightarrow> r))"

definition breakdown :: "dict \<Rightarrow> dict list res" where
  "breakdown d = rbind (list_of (dget d ''wing_breakdown'')) (map_res as_obj)"

definition count_by_wing :: "agent_profile \<Rightarrow> 's client_ops \<Rightarrow> (nat \<Rightarrow> time) \<Rightarrow> 's client \<Rightarrow> (json \<times> json) list res option" where
  "count_by_wing p ops clk c = map_option (\<lambda>r. rbind r (\<lambda>d. rbind (breakdown d) (\<lambda>rows.
     Inr (dict_update [] (map (\<lambda>row. (get_or_null row ''wing'', get_or_null row ''drawer_count'')) rows)))))
     (client_aggregate_stats p ops None clk c)"

definition count_by_room ::
  "agent_profile \<Rightarrow> 's client_ops \<Rightarrow> string \<Rightarrow> (nat \<Rightarrow> time) \<Rightarrow> 's client \<Rightarrow> json res option" where
  "count_by_room p ops wing clk c = map_option (\<lambda>r. rbind r (\<lambda>d. rbind (breakdown d) (\<lambda>rows.
     Inr (case find (\<lambda>row. get_or_null row ''wing'' = JStr wing) rows of
            None \<Rightarrow> JObj [] | Some row \<Rightarrow> get_or_null row ''rooms''))))
     (client_aggregate_stats p ops (Some wing) clk c)"

text \<open>The counters of the profile with what is left of its daily quota.\<close>

definition client_stats :: "agent_profile \<Rightarrow> 's client \<Rightarrow> (string \<times> int) list" where
  "client_stats p c = (let today = get_today (Some (prof_name p)) (counts c) in
     dset ''quota_remaining'' (max 0 (daily_max_drawers p - counter_get today ''writes'')) today)"

subsection \<open>Lifecycle mutations\<close>

definition mutation_history ::
  "string \<Rightarrow> string \<Rightarrow> principal \<Rightarrow> string \<Rightarrow> string option \<Rightarrow> string option \<Rightarrow> time \<Rightarrow> history_row" where
  "mutation_history operation drawer who reason by' details now =
     (history_entry now operation drawer (tenant_id who) (Some (pr_id who)))
     \<lparr>mh_reason := Some reason, mh_superseded_by := by', mh_details_json := details\<rparr>"

definition mutation_guard :: "principal \<Rightarrow> string \<Rightarrow> string \<Rightarrow> time \<Rightarrow> unit res" where
  "mutation_guard who operation reason now =
     rbind (require_scope who ''memory.write'') (\<lambda>_. rbind (require_active_break_glass who now) (\<lambda>_.
       if py_strip reason = [] then Inl (ValueError (operation @ '' reason is required'')) else Inr ()))"

definition client_tombstone ::
  "env \<Rightarrow> agent_profile \<Rightarrow> 's client_ops \<Rightarrow> string \<Rightarrow> string \<Rightarrow> (nat \<Rightarrow> time) \<Rightarrow> 's client \<Rightarrow> bool res \<times> 's client" where
  "client_tombstone v p ops i reason clk c =
     andthen (mutation_guard (me c) ''tombstone'' reason (clk 0), c) (\<lambda>_ c.
     andthen (require_mutation_target_owned p ops (me c) i (clk 1) (client_store c), c) (\<lambda>owned c.
       if \<not> owned then (Inr False, c)
       else case op_tombstone ops of
           None \<Rightarrow> (Inl (RuntimeError ''memory adapter does not support tombstone''), c)
         | Some f \<Rightarrow>
             (let (r, s') = f i reason (pr_id (me c)) (client_store c) in
              andthen (r, set_store s' c) (\<lambda>ok c.
              andthen (audit_if_cross_tenant v ''tombstone'' (Some i)
                  [(''reason'', JStr reason), (''hard_delete'', JBool False)] ''*'' (clk 2) (clk 3) c) (\<lambda>_ c.
                (Inr ok, if ok then log_history (mutation_history ''tombstone'' i (me c) reason None None (clk 4)) c else c))))))"

definition client_supersede ::
  "env \<Rightarrow> agent_profile \<Rightarrow> 's client_ops \<Rightarrow> string \<Rightarrow> string \<Rightarrow> string option \<Rightarrow> (nat \<Rightarrow> time) \<Rightarrow> 's client \<Rightarrow>
   bool res \<times> 's client" where
  "client_supersede v p ops i reason by' clk c =
     andthen (mutation_guard (me c) ''supersede'' reason (clk 0), c) (\<lambda>_ c.
     andthen (require_mutation_target_owned p ops (me c) i (clk 1) (client_store c), c) (\<lambda>owned c.
       if \<not> owned then (Inr False, c)
       else case op_supersede ops of
           None \<Rightarrow> (Inl (RuntimeError ''memory adapter does not support supersede''), c)
         | Some f \<Rightarrow>
             (let (r, s') = f i reason by' (client_store c) in
              andthen (r, set_store s' c) (\<lambda>ok c.
              andthen (audit_if_cross_tenant v ''supersede'' (Some i)
                  [(''reason'', JStr reason), (''superseded_by'', opt_json by'), (''hard_delete'', JBool False)] ''*'' (clk 2)
                  (clk 3) c) (\<lambda>_ c.
                (Inr ok, if ok then log_history (mutation_history ''supersede'' i (me c) reason by' None (clk 4)) c else c))))))"

subsection \<open>Elevation\<close>

text \<open>The \<open>with client.break_glass(...)\<close> statement: \<open>body\<close> runs on the client with the elevated principal.\<close>

definition client_break_glass ::
  "env \<Rightarrow> string \<Rightarrow> int \<Rightarrow> time \<Rightarrow> time \<Rightarrow> ('s client \<Rightarrow> 'a res \<times> 's client) \<Rightarrow> 's client \<Rightarrow> 'a res \<times> 's client" where
  "client_break_glass v reason ttl now later body c =
     (case bg_open (sha256_hex v) (ident v) (Some reason) ttl [] (Some (me c)) now (w_audit (cw c)) of
        Inl e \<Rightarrow> (Inl e, c)
      | Inr (root, au) \<Rightarrow>
          (let (r, c1) = body (set_audit au (c\<lparr>me := root\<rparr>)); c2 = c1\<lparr>me := me c\<rparr> in
           case audit_write (sha256_hex v) (close_entry later root reason [''*''] now) (w_audit (cw c2)) of
             Inl e \<Rightarrow> (Inl e, c2)
           | Inr (_, au') \<Rightarrow> (r, set_audit au' c2)))"

subsection \<open>What a step leaves alone\<close>

named_theorems client_simps \<open>components of an updated client\<close>

lemma client_updates [client_simps, simp]:
  "me (set_store s c) = me c" "me (set_outbox db c) = me c" "me (set_audit au c) = me c" "me (bump p ev w n c) = me c"
  "counts (set_store s c) = counts c" "counts (set_outbox db c) = counts c" "counts (set_audit au c) = counts c"
  "stamps (set_store s c) = stamps c" "stamps (set_outbox db c) = stamps c" "stamps (set_audit au c) = stamps c"
  "stamps (bump p ev w n c) = stamps c" "cw (bump p ev w n c) = cw c"
  "client_store (set_store s c) = s" "client_store (set_outbox db c) = client_store c"
  "client_store (set_audit au c) = client_store c" "client_store (bump p ev w n c) = client_store c"
  "w_outbox (cw (set_store s c)) = w_outbox (cw c)" "w_outbox (cw (set_outbox db c)) = db"
  "w_outbox (cw (set_audit au c)) = w_outbox (cw c)"
  "w_audit (cw (set_store s c)) = w_audit (cw c)" "w_audit (cw (set_outbox db c)) = w_audit (cw c)"
  "w_audit (cw (set_audit au c)) = au"
  by (simp_all add: set_store_def set_outbox_def set_audit_def bump_def client_store_def)

lemma record_write_parts [client_simps, simp]:
  "me (record_write p t c) = me c" "cw (record_write p t c) = cw c" "client_store (record_write p t c) = client_store c"
  "stamps (record_write p t c) = stamps c @ [t]"
  by (simp_all add: record_write_def bump_def client_store_def)

lemma record_write_count: "count_today (prof_name p) ''writes'' (counts (record_write p t c)) = count_today (prof_name p) ''writes'' (counts c) + 1"
  by (simp add: record_write_def bump_def count_increment)

lemma bump_other_count: "ev \<noteq> ''writes'' \<Longrightarrow>
    count_today (prof_name p) ''writes'' (counts (bump p ev w n c)) = count_today (prof_name p) ''writes'' (counts c)"
  by (simp add: bump_def count_increment)

lemma audit_if_parts [client_simps, simp]:
  "me (snd (audit_if_cross_tenant v o' t d ten n1 n2 c)) = me c"
  "client_store (snd (audit_if_cross_tenant v o' t d ten n1 n2 c)) = client_store c"
  "counts (snd (audit_if_cross_tenant v o' t d ten n1 n2 c)) = counts c"
  "stamps (snd (audit_if_cross_tenant v o' t d ten n1 n2 c)) = stamps c"
  "w_outbox (cw (snd (audit_if_cross_tenant v o' t d ten n1 n2 c))) = w_outbox (cw c)"
  by (auto simp: audit_if_cross_tenant_def split: sum.split prod.split)

lemma log_history_parts [client_simps, simp]:
  "me (log_history h c) = me c" "client_store (log_history h c) = client_store c" "counts (log_history h c) = counts c"
  "stamps (log_history h c) = stamps c" "w_audit (cw (log_history h c)) = w_audit (cw c)"
  "approvals (w_outbox (cw (log_history h c))) = approvals (w_outbox (cw c))"
  "events (w_outbox (cw (log_history h c))) = events (w_outbox (cw c))"
  by (auto simp: log_history_def append_history_def)

lemma snd_andthen: "(\<And>x. P (snd (f x (snd m)))) \<Longrightarrow> P (snd m) \<Longrightarrow> P (snd (andthen m f))"
  by (cases m; cases "fst m") auto

lemma enforce_parts [client_simps]:
  "me (snd (enforce_write_quota p now c)) = me c" "cw (snd (enforce_write_quota p now c)) = cw c"
  "client_store (snd (enforce_write_quota p now c)) = client_store c"
  "count_today (prof_name p) ''writes'' (counts (snd (enforce_write_quota p now c))) = count_today (prof_name p) ''writes'' (counts c)"
  by (auto simp: enforce_write_quota_def Let_def bump_other_count client_store_def)

lemma enforce_ok:
  assumes "enforce_write_quota p now c = (Inr (), c1)"
  shows "c1 = c\<lparr>stamps := filter (\<lambda>ts. now - ts < seconds 60) (stamps c)\<rparr> \<and>
    count_today (prof_name p) ''writes'' (counts c) < daily_max_drawers p \<and>
    int (length (stamps c1)) < burst_max_per_minute p"
  using assms by (auto simp: enforce_write_quota_def Let_def split: if_split_asm)

subsection \<open>The stages of a write\<close>

definition write_payload :: "agent_profile \<Rightarrow> principal \<Rightarrow> dict \<Rightarrow> string \<Rightarrow> string \<Rightarrow> string \<Rightarrow> bool \<Rightarrow> (nat \<Rightarrow> time) \<Rightarrow> dict" where
  "write_payload p who md room tenant mtype infer clk =
     payload_metadata p who (own_metadata md) (retention_metadata p room (clk 2)) (bitemporal_metadata (clk 3)) tenant mtype infer"

lemma admit_ok:
  assumes "write_admit v p room mtype conv md clk c = (Inr (infer, tenant), c1)"
  shows "write_guard p (me c) conv (clk 0) = Inr () \<and> infer_flag md = Inr infer \<and> mtype \<in> set (memory_type_allowlist p) \<and>
    enforce_write_quota p (clk 1) c = (Inr (), c1) \<and> write_allowed p (write_wing p md) (write_room p room) = Inr () \<and>
    resolve_write_tenant_id v p (me c) (dget (own_metadata md) ''tenant_id'') (clk 4) (clk 5) = Inr tenant \<and>
    me c1 = me c \<and> cw c1 = cw c"
  using assms enforce_parts [of p "clk 1" c]
  by (auto simp: write_admit_def andthen_Inr split: if_split_asm)

lemma admit_leaves:
  "snd (write_admit v p room mtype conv md clk c) \<in> {c, snd (enforce_write_quota p (clk 1) c)}"
  by (auto simp: write_admit_def andthen_def split: sum.split prod.split)

lemma write_stages:
  assumes "client_write v p ops text room mtype conv md clk c = (res, c')"
  obtains (refused) e where "res = Inl e" "c' \<in> {c, snd (enforce_write_quota p (clk 1) c)}"
  | (queued) infer tenant c1 where "write_admit v p room mtype conv md clk c = (Inr (infer, tenant), c1)"
      "approval_required p (write_wing p md) (write_room p room)"
      "write_queued v p (write_wing p md) (write_room p room) (sanitize v text) mtype tenant
         (write_payload p (me c) md (write_room p room) tenant mtype infer clk) clk c1 = (res, c')"
  | (direct) infer tenant c1 where "write_admit v p room mtype conv md clk c = (Inr (infer, tenant), c1)"
      "\<not> approval_required p (write_wing p md) (write_room p room)"
      "write_direct v p ops (write_wing p md) (write_room p room) (sanitize v text) tenant
         (write_payload p (me c) md (write_room p room) tenant mtype infer clk) conv
         (opt_truthy (dget md ''raise_dedup_skipped'')) clk c1 = (res, c')"
proof -
  obtain r c1 where a: "write_admit v p room mtype conv md clk c = (r, c1)"
    by (cases "write_admit v p room mtype conv md clk c")
  show ?thesis
  proof (cases r)
    case (Inl e)
    with assms a admit_leaves [of v p room mtype conv md clk c] show ?thesis
      by (intro refused [of e]) (simp_all add: client_write_def)
  next
    case (Inr x)
    obtain infer tenant where x: "x = (infer, tenant)" by (cases x)
    have "me c1 = me c" using admit_ok a Inr x by blast
    then have w: "(if approval_required p (write_wing p md) (write_room p room)
        then write_queued v p (write_wing p md) (write_room p room) (sanitize v text) mtype tenant
          (write_payload p (me c) md (write_room p room) tenant mtype infer clk) clk c1
        else write_direct v p ops (write_wing p md) (write_room p room) (sanitize v text) tenant
          (write_payload p (me c) md (write_room p room) tenant mtype infer clk) conv
          (opt_truthy (dget md ''raise_dedup_skipped'')) clk c1) = (res, c')"
      using assms a Inr x by (simp add: client_write_def Let_def write_payload_def split: if_split_asm)
    show ?thesis
    proof (cases "approval_required p (write_wing p md) (write_room p room)")
      case True
      with w a Inr x show ?thesis by (intro queued) simp_all
    next
      case False
      with w a Inr x show ?thesis by (intro direct) simp_all
    qed
  qed
qed

subsection \<open>What a write does to the world\<close>

lemma write_direct_effect:
  assumes "write_direct v p ops wing room content tenant payload conv rd clk c = (res, c')"
  shows "client_store c' = snd (add_memory ops wing room content payload (if accepts_conv ops then conv else None) (client_store c)) \<and>
    approvals (w_outbox (cw c')) = approvals (w_outbox (cw c)) \<and> me c' = me c \<and>
    (counts c', stamps c') \<in> {(counts c, stamps c), (counts (record_write p (clk 7) c), stamps c @ [clk 7])}"
proof -
  obtain r s' where r: "add_memory ops wing room content payload (if accepts_conv ops then conv else None) (client_store c) = (r, s')"
    by (cases "add_memory ops wing room content payload (if accepts_conv ops then conv else None) (client_store c)")
  have counts: "counts (record_write p t (set_store s' c)) = counts (record_write p t c)" for t
    by (simp add: record_write_def bump_def)
  have step: "client_store d' = s' \<and> approvals (w_outbox (cw d')) = approvals (w_outbox (cw c)) \<and> me d' = me c \<and>
      (counts d', stamps d') \<in> {(counts c, stamps c), (counts (record_write p (clk 7) c), stamps c @ [clk 7])}"
    if "andthen (audit_if_cross_tenant v o' t d ten n1 n2 c2) (\<lambda>_ c3. (res', log_history (h c3) c3)) = (rr, d')"
      and "c2 = set_store s' c \<or> c2 = record_write p (clk 7) (set_store s' c)"
    for o' t d ten n1 n2 c2 res' h rr d'
  proof -
    obtain q c3 where q: "audit_if_cross_tenant v o' t d ten n1 n2 c2 = (q, c3)" by (cases "audit_if_cross_tenant v o' t d ten n1 n2 c2")
    have "d' = c3 \<or> d' = log_history (h c3) c3" using that(1) by (cases q) (auto simp: q)
    moreover have "client_store c3 = s'" "approvals (w_outbox (cw c3)) = approvals (w_outbox (cw c))" "me c3 = me c"
      "(counts c3, stamps c3) \<in> {(counts c, stamps c), (counts (record_write p (clk 7) c), stamps c @ [clk 7])}"
      using audit_if_parts [of v o' t d ten n1 n2 c2, unfolded q snd_conv] that(2) by (auto simp: counts)
    ultimately show ?thesis by auto
  qed
  show ?thesis
  proof (cases "\<exists>e. r = Inl e \<and> \<not> (\<exists>ex. e = PanellaDedupSkipped ex \<and> \<not> rd)")
    case True
    then obtain e where "r = Inl e" "\<And>ex. e = PanellaDedupSkipped ex \<Longrightarrow> rd" by auto
    then have "c' = set_store s' c"
      using assms by (cases e) (auto simp: write_direct_def r Let_def)
    then show ?thesis by (simp add: r)
  next
    case False
    then consider h where "r = Inr h" | ex where "r = Inl (PanellaDedupSkipped ex)" "\<not> rd" by (cases r) auto
    then show ?thesis
    proof cases
      case 1
      from step [OF assms [unfolded write_direct_def Let_def r 1, simplified]] show ?thesis by (simp add: r)
    next
      case 2
      from step [OF assms [unfolded write_direct_def Let_def r 2(1), simplified 2(2) simp_thms if_False sum.case exc.case prod.case]]
      show ?thesis by (auto simp: r)
    qed
  qed
qed

lemma write_queued_effect:
  assumes "write_queued v p wing room content mtype tenant payload clk c = (res, c')"
  shows "client_store c' = client_store c \<and> me c' = me c \<and>
    ((\<exists>e. res = Inl e) \<and> c' = c \<or>
     (\<exists>i db. enqueue_approval (prof_name p) wing room content mtype payload (deterministic_memory_id v wing room content) (clk 6)
          (w_outbox (cw c)) = Inr (i, db) \<and>
        approvals (w_outbox (cw c')) = approvals db \<and> events (w_outbox (cw c')) = events db \<and>
        counts c' = counts (record_write p (clk 7) c) \<and> stamps c' = stamps c @ [clk 7] \<and>
        (\<forall>r. res = Inr r \<longrightarrow> wr_queued r \<and> wr_approval r = Some i \<and>
           wr_drawer r = deterministic_memory_id v wing room content)))"
proof (cases "enqueue_approval (prof_name p) wing room content mtype payload (deterministic_memory_id v wing room content) (clk 6)
    (w_outbox (cw c))")
  case (Inl e)
  with assms show ?thesis by (auto simp: write_queued_def Let_def)
next
  case (Inr x)
  obtain i db where x: "x = (i, db)" by (cases x)
  let ?c1 = "record_write p (clk 7) (set_outbox db c)" and ?d = "deterministic_memory_id v wing room content"
  obtain q c3 where q: "audit_if_cross_tenant v ''write'' (Some ?d) [(''queued_for_approval'', JBool True)] tenant (clk 8) (clk 9) ?c1 = (q, c3)"
    by (cases "audit_if_cross_tenant v ''write'' (Some ?d) [(''queued_for_approval'', JBool True)] tenant (clk 8) (clk 9) ?c1")
  have "counts ?c1 = counts (record_write p (clk 7) c)" by (simp add: record_write_def bump_def)
  with audit_if_parts [of v "''write''" "Some ?d" "[(''queued_for_approval'', JBool True)]" tenant "clk 8" "clk 9" ?c1, unfolded q snd_conv]
  have c3: "client_store c3 = client_store c" "me c3 = me c" "approvals (w_outbox (cw c3)) = approvals db"
    "events (w_outbox (cw c3)) = events db" "counts c3 = counts (record_write p (clk 7) c)" "stamps c3 = stamps c @ [clk 7]"
    by simp_all
  have "(res, c') = andthen (q, c3) (\<lambda>_ c1. (Inr \<lparr>wr_drawer = ?d, wr_wing = wing, wr_room = room, wr_queued = True,
      wr_approval = Some i, wr_dedup = False, wr_existing = None, wr_op = ''queued_for_approval''\<rparr>,
      log_history (write_history ''queued_for_approval'' ?d tenant (me c1) wing room payload None (clk 10)) c1))"
    using assms by (simp add: write_queued_def Let_def Inr x q)
  then show ?thesis using c3 by (cases q) (simp_all add: Inr x)
qed

lemma resolved_tenant:
  assumes "resolve_write_tenant_id v p who requested t1 t2 = Inr tenant"
  shows "tenant = tenant_id who \<and> allows_tenant p tenant \<and> tenant \<noteq> ''*'' \<or> is_root_with_break_glass who t1"
proof (cases "tenant_id who = ''*''")
  case True
  with assms show ?thesis
    by (auto simp: resolve_write_tenant_id_def write_tenant_id_def client_tenants_def rbind_Inr_iff split: if_split_asm)
next
  case False
  then have "\<not> is_root_with_break_glass who t2" by (simp add: is_root_with_break_glass_def)
  with False assms show ?thesis
    by (auto simp: resolve_write_tenant_id_def write_tenant_id_def client_tenants_def rbind_Inr_iff Let_def split: if_split_asm)
qed

lemma payload_tenant_id: "dget (payload_metadata p who md retention bitemporal tenant mtype infer) ''tenant_id'' = Some (JStr tenant)"
  by (simp add: payload_metadata_def dict_simps)

lemma store_write_needs:
  assumes "client_write v p ops text room mtype conv md clk c = (res, c')" and "client_store c' \<noteq> client_store c"
  shows "\<not> finalizer_only p \<and> mtype \<in> set (memory_type_allowlist p) \<and> \<not> approval_required p (write_wing p md) (write_room p room)"
  using assms(1)
proof (cases rule: write_stages)
  case (refused e)
  then have "client_store c' = client_store c"
    using enforce_parts(3) [of p "clk 1" c] by (elim insertE) simp_all
  with assms(2) show ?thesis by contradiction
next
  case (queued infer tenant c1)
  then have "client_store c' = client_store c"
    using write_queued_effect [OF queued(3)] admit_ok [OF queued(1)] by (simp add: client_store_def)
  with assms(2) show ?thesis by contradiction
next
  case (direct infer tenant c1)
  note a = admit_ok [OF direct(1)]
  have "\<not> finalizer_only p" using a by (auto simp: write_guard_def require_scope_def rbind_Inr_iff split: if_split_asm)
  with a direct(2) show ?thesis by blast
qed

text \<open>
  C13: the client never writes around the approval queue.  When a write changes the store, the caller held the
  write scope, its profile is not the finalizer's, the wing and room need no approval and pass the write
  allowlists, the tenant is the caller's own allowed tenant unless root elevation is active, and the store
  changed by exactly one \<open>add_memory\<close> of the sanitized text with that tenant in its metadata.
\<close>

theorem write_mediated:
  assumes "client_write v p ops text room mtype conv md clk c = (res, c')" and "client_store c' \<noteq> client_store c"
  shows "has_scope (me c) ''memory.write'' \<and> \<not> finalizer_only p \<and> mtype \<in> set (memory_type_allowlist p) \<and>
    \<not> approval_required p (write_wing p md) (write_room p room) \<and>
    write_allowed p (write_wing p md) (write_room p room) = Inr () \<and>
    (\<exists>payload tenant conv'.
       client_store c' = snd (add_memory ops (write_wing p md) (write_room p room) (sanitize v text) payload conv' (client_store c)) \<and>
       dget payload ''tenant_id'' = Some (JStr tenant) \<and>
       (tenant = tenant_id (me c) \<and> allows_tenant p tenant \<and> tenant \<noteq> ''*'' \<or> is_root_with_break_glass (me c) (clk 4)) \<and>
       (conv' \<noteq> None \<longrightarrow> prof_name p = ''cc-sync''))"
  using assms(1)
proof (cases rule: write_stages)
  case (refused e)
  then have "client_store c' = client_store c"
    using enforce_parts(3) [of p "clk 1" c] by (elim insertE) simp_all
  with assms(2) show ?thesis by contradiction
next
  case (queued infer tenant c1)
  then have "client_store c' = client_store c"
    using write_queued_effect [OF queued(3)] admit_ok [OF queued(1)] by (simp add: client_store_def)
  with assms(2) show ?thesis by contradiction
next
  case (direct infer tenant c1)
  note a = admit_ok [OF direct(1)]
  have "(if accepts_conv ops then conv else None) \<noteq> None \<longrightarrow> prof_name p = ''cc-sync''" "has_scope (me c) ''memory.write''"
    using a by (auto simp: write_guard_def require_scope_def rbind_Inr_iff split: if_split_asm)
  moreover have "client_store c1 = client_store c" using a by (simp add: client_store_def)
  moreover have "client_store c' = snd (add_memory ops (write_wing p md) (write_room p room) (sanitize v text)
      (write_payload p (me c) md (write_room p room) tenant mtype infer clk) (if accepts_conv ops then conv else None) (client_store c1))"
    using write_direct_effect [OF direct(3)] by blast
  moreover have "dget (write_payload p (me c) md (write_room p room) tenant mtype infer clk) ''tenant_id'' = Some (JStr tenant)"
    by (simp add: write_payload_def payload_tenant_id)
  moreover have "tenant = tenant_id (me c) \<and> allows_tenant p tenant \<and> tenant \<noteq> ''*'' \<or> is_root_with_break_glass (me c) (clk 4)"
    using a resolved_tenant by blast
  moreover have "write_allowed p (write_wing p md) (write_room p room) = Inr ()" using a by blast
  ultimately show ?thesis using store_write_needs [OF assms] by (intro conjI exI) simp_all
qed

text \<open>
  A write into a wing and room that need approval changes no store row.  When it succeeds, exactly one
  candidate was appended to the queue, pending, attributed to the writing profile, holding the sanitized text
  and the drawer id the caller is told.
\<close>

theorem write_queues:
  assumes "client_write v p ops text room mtype conv md clk c = (res, c')"
    and "approval_required p (write_wing p md) (write_room p room)"
  shows "client_store c' = client_store c \<and>
    (\<forall>r. res = Inr r \<longrightarrow> wr_queued r \<and> wr_drawer r = deterministic_memory_id v (write_wing p md) (write_room p room) (sanitize v text) \<and>
       (\<exists>i candidate. wr_approval r = Some i \<and>
          approvals (w_outbox (cw c')) = approvals (w_outbox (cw c)) @ [queued_row (prof_name p) candidate i (clk 6)] \<and>
          dget candidate ''text'' = Some (JStr (sanitize v text)) \<and> dget candidate ''memory_id'' = Some (JStr (wr_drawer r))))"
  using assms(1)
proof (cases rule: write_stages)
  case (refused e)
  then show ?thesis using enforce_parts(3) [of p "clk 1" c] by auto
next
  case (queued infer tenant c1)
  note e = write_queued_effect [OF queued(3)] and a = admit_ok [OF queued(1)]
  have "client_store c1 = client_store c" using a by (simp add: client_store_def)
  moreover have "wr_queued r \<and> wr_drawer r = deterministic_memory_id v (write_wing p md) (write_room p room) (sanitize v text) \<and>
       (\<exists>i candidate. wr_approval r = Some i \<and>
          approvals (w_outbox (cw c')) = approvals (w_outbox (cw c)) @ [queued_row (prof_name p) candidate i (clk 6)] \<and>
          dget candidate ''text'' = Some (JStr (sanitize v text)) \<and> dget candidate ''memory_id'' = Some (JStr (wr_drawer r)))"
    if "res = Inr r" for r
    using e a that by (auto simp: enqueue_approval_def Let_def rbind_Inr_iff)
  moreover have "client_store c' = client_store c1" using e by blast
  ultimately show ?thesis by (intro conjI) (simp, blast)
next
  case (direct infer tenant c1)
  with assms(2) show ?thesis by blast
qed

subsection \<open>Quotas hold over any sequence of writes\<close>

record write_call =
  wc_text :: string
  wc_room :: string
  wc_type :: string
  wc_conv :: "string option"
  wc_metadata :: dict
  wc_clock :: "nat \<Rightarrow> time"

definition do_write :: "env \<Rightarrow> agent_profile \<Rightarrow> 's client_ops \<Rightarrow> write_call \<Rightarrow> 's client \<Rightarrow> 's client" where
  "do_write v p ops w c =
     snd (client_write v p ops (wc_text w) (wc_room w) (wc_type w) (wc_conv w) (wc_metadata w) (wc_clock w) c)"

abbreviation writes_of :: "agent_profile \<Rightarrow> 's client \<Rightarrow> int" where
  "writes_of p c \<equiv> count_today (prof_name p) ''writes'' (counts c)"

definition recent_stamps :: "time \<Rightarrow> time list \<Rightarrow> time list" where
  "recent_stamps now ts = filter (\<lambda>t. now - t < seconds 60) ts"

text \<open>A write is counted at most once, and only below both quotas.\<close>

lemma do_write_counts:
  "(writes_of p (do_write v p ops w c) = writes_of p c \<and>
      stamps (do_write v p ops w c) \<in> {stamps c, recent_stamps (wc_clock w 1) (stamps c)}) \<or>
   (writes_of p (do_write v p ops w c) = writes_of p c + 1 \<and> writes_of p c < daily_max_drawers p \<and>
      stamps (do_write v p ops w c) = recent_stamps (wc_clock w 1) (stamps c) @ [wc_clock w 7] \<and>
      int (length (recent_stamps (wc_clock w 1) (stamps c))) < burst_max_per_minute p)"
proof -
  obtain res c' where w: "client_write v p ops (wc_text w) (wc_room w) (wc_type w) (wc_conv w) (wc_metadata w) (wc_clock w) c = (res, c')"
    by (cases "client_write v p ops (wc_text w) (wc_room w) (wc_type w) (wc_conv w) (wc_metadata w) (wc_clock w) c")
  have c': "do_write v p ops w c = c'" by (simp add: do_write_def w)
  have counted: ?thesis
    if "enforce_write_quota p (wc_clock w 1) c = (Inr (), c1)"
      and "(counts c', stamps c') \<in> {(counts c1, stamps c1), (counts (record_write p (wc_clock w 7) c1), stamps c1 @ [wc_clock w 7])}"
    for c1
    using enforce_ok [OF that(1)] that(2) record_write_count [of p "wc_clock w 7" c1]
    by (auto simp: c' recent_stamps_def)
  from w show ?thesis
  proof (cases rule: write_stages)
    case (refused e)
    have "stamps (snd (enforce_write_quota p now c)) \<in> {stamps c, recent_stamps now (stamps c)}" for now
      by (simp add: enforce_write_quota_def Let_def recent_stamps_def)
    with refused show ?thesis by (auto simp: c' enforce_parts)
  next
    case (queued infer tenant c1)
    then show ?thesis
      using write_queued_effect [OF queued(3)] admit_ok [OF queued(1)] by (intro counted) auto
  next
    case (direct infer tenant c1)
    then show ?thesis
      using write_direct_effect [OF direct(3)] admit_ok [OF direct(1)] by (intro counted) auto
  qed
qed

text \<open>A run keeps, beside the client, the times at which its write counter grew.\<close>

fun run_writes :: "env \<Rightarrow> agent_profile \<Rightarrow> 's client_ops \<Rightarrow> write_call list \<Rightarrow> 's client \<times> time list \<Rightarrow> 's client \<times> time list" where
  "run_writes v p ops [] (c, log) = (c, log)"
| "run_writes v p ops (w # ws) (c, log) =
     (let c' = do_write v p ops w c
      in run_writes v p ops ws (c', if writes_of p c' = writes_of p c then log else log @ [wc_clock w 7]))"

fun clocked :: "time \<Rightarrow> write_call list \<Rightarrow> bool" where
  "clocked t [] = True"
| "clocked t (w # ws) = (t \<le> wc_clock w 1 \<and> wc_clock w 1 \<le> wc_clock w 7 \<and> clocked (wc_clock w 7) ws)"

definition window :: "time \<Rightarrow> time list \<Rightarrow> time list" where
  "window x log = filter (\<lambda>t. x \<le> t \<and> t < x + seconds 60) log"

definition burst_kept :: "agent_profile \<Rightarrow> time \<Rightarrow> time list \<Rightarrow> time list \<Rightarrow> bool" where
  "burst_kept p t st log \<longleftrightarrow> (\<forall>n \<ge> t. recent_stamps n st = recent_stamps n log) \<and>
     (\<forall>x. int (length (window x log)) \<le> max 0 (burst_max_per_minute p))"

lemma recent_recent: "n \<le> m \<Longrightarrow> recent_stamps m (recent_stamps n ts) = recent_stamps m ts"
  unfolding recent_stamps_def by (induction ts) auto

lemma burst_kept_later: "burst_kept p t st log \<Longrightarrow> t \<le> u \<Longrightarrow> burst_kept p u st log"
  by (simp add: burst_kept_def)

lemma burst_kept_recent: "burst_kept p t st log \<Longrightarrow> t \<le> n \<Longrightarrow> burst_kept p n (recent_stamps n st) log"
  by (simp add: burst_kept_def recent_recent)

lemma burst_kept_write:
  assumes k: "burst_kept p t st log" and "t \<le> n" "n \<le> u" and room: "int (length (recent_stamps n st)) < burst_max_per_minute p"
  shows "burst_kept p u (recent_stamps n st @ [u]) (log @ [u])"
proof -
  have eq: "recent_stamps m (recent_stamps n st @ [u]) = recent_stamps m (log @ [u])" if "u \<le> m" for m
  proof -
    have "recent_stamps m (recent_stamps n st) = recent_stamps m log"
      using that assms(2,3) k by (simp add: recent_recent burst_kept_def)
    then show ?thesis by (simp add: recent_stamps_def)
  qed
  have "int (length (window x (log @ [u]))) \<le> max 0 (burst_max_per_minute p)" for x
  proof (cases "x \<le> u \<and> u < x + seconds 60")
    case True
    have "length (window x log) \<le> length (recent_stamps n log)"
    proof -
      have "window x log = filter (\<lambda>t. x \<le> t \<and> t < x + seconds 60) (recent_stamps n log)"
        using True assms(3) unfolding window_def recent_stamps_def by (auto intro: filter_cong)
      then show ?thesis by simp
    qed
    then show ?thesis using True room k assms(2) by (simp add: burst_kept_def window_def)
  next
    case False
    then have "window x (log @ [u]) = window x log" by (auto simp: window_def)
    then show ?thesis using k by (simp add: burst_kept_def)
  qed
  with eq show ?thesis by (simp add: burst_kept_def)
qed

lemma run_writes_daily: "run_writes v p ops ws (c, log) = (c', log') \<Longrightarrow> writes_of p c' \<le> max (writes_of p c) (daily_max_drawers p)"
proof (induction ws arbitrary: c log)
  case (Cons w ws)
  have "writes_of p (do_write v p ops w c) \<le> max (writes_of p c) (daily_max_drawers p)"
    using do_write_counts [of p v ops w c] by linarith
  with Cons.IH Cons.prems show ?case by (fastforce simp: Let_def)
qed simp

lemma run_writes_burst:
  "run_writes v p ops ws (c, log) = (c', log') \<Longrightarrow> clocked t ws \<Longrightarrow> burst_kept p t (stamps c) log \<Longrightarrow>
   \<exists>u. burst_kept p u (stamps c') log'"
proof (induction ws arbitrary: c log t)
  case (Cons w ws)
  let ?c = "do_write v p ops w c" and ?n = "wc_clock w 1" and ?u = "wc_clock w 7"
  let ?log = "if writes_of p ?c = writes_of p c then log else log @ [?u]"
  have t: "t \<le> ?n" "?n \<le> ?u" "clocked ?u ws" using Cons.prems(2) by auto
  have "burst_kept p ?u (stamps ?c) ?log"
    using do_write_counts [of p v ops w c]
  proof (elim disjE conjE)
    assume same: "writes_of p ?c = writes_of p c" "stamps ?c \<in> {stamps c, recent_stamps ?n (stamps c)}"
    have "burst_kept p ?u (stamps c) log" "burst_kept p ?u (recent_stamps ?n (stamps c)) log"
      using Cons.prems(3) t by (meson burst_kept_later burst_kept_recent order_trans)+
    with same show ?thesis by auto
  next
    assume "writes_of p ?c = writes_of p c + 1" "stamps ?c = recent_stamps ?n (stamps c) @ [?u]"
      "int (length (recent_stamps ?n (stamps c))) < burst_max_per_minute p"
    with burst_kept_write [OF Cons.prems(3) t(1,2)] show ?thesis by simp
  qed
  with Cons.IH [OF _ t(3)] Cons.prems(1) show ?case by (simp add: Let_def)
qed auto

text \<open>
  C14: the write quotas hold.  Over any sequence of writes of a client the counted writes never pass the daily
  maximum, and when the clock does not run backwards no window of sixty seconds holds more counted writes than
  the burst maximum, although each write prunes the times it keeps.
\<close>

theorem quotas_hold:
  assumes "run_writes v p ops ws (c, []) = (c', log)" and "clocked t ws" and "stamps c = []"
  shows "writes_of p c' \<le> max (writes_of p c) (daily_max_drawers p) \<and>
    int (length (window x log)) \<le> max 0 (burst_max_per_minute p)"
proof -
  have "burst_kept p t (stamps c) []" by (simp add: assms(3) burst_kept_def recent_stamps_def window_def)
  with run_writes_burst [OF assms(1,2)] have "int (length (window x log)) \<le> max 0 (burst_max_per_minute p)"
    by (auto simp: burst_kept_def)
  with run_writes_daily [OF assms(1)] show ?thesis by simp
qed

subsection \<open>The preflight is enough\<close>

text \<open>\<open>n\<close> single-write checks, each followed by its record: what a set of \<open>n\<close> writes asks of the quota.\<close>

fun quota_run :: "agent_profile \<Rightarrow> (time \<times> time) list \<Rightarrow> 's client \<Rightarrow> unit res \<times> 's client" where
  "quota_run p [] c = (Inr (), c)"
| "quota_run p ((t, u) # ts) c = andthen (enforce_write_quota p t c) (\<lambda>_ c. quota_run p ts (record_write p u c))"

lemma length_filter_mono: "(\<And>x. P x \<Longrightarrow> Q x) \<Longrightarrow> length (filter P xs) \<le> length (filter Q xs)"
  by (induction xs) (auto intro: le_SucI)

lemma quota_run_passes:
  assumes "writes_of p c + int (length ts) \<le> daily_max_drawers p"
    and "int (length (recent_stamps now (stamps c))) + int (length ts) \<le> burst_max_per_minute p"
    and "\<forall>(t, u) \<in> set ts. now \<le> t"
  shows "fst (quota_run p ts c) = Inr ()"
  using assms
proof (induction ts arbitrary: c)
  case (Cons x ts)
  obtain t u where x: "x = (t, u)" by (cases x)
  have t: "now \<le> t" using Cons.prems(3) x by simp
  have shrink: "length (recent_stamps t (stamps c)) \<le> length (recent_stamps now (stamps c))"
    using t unfolding recent_stamps_def by (intro length_filter_mono) simp
  let ?c1 = "c\<lparr>stamps := recent_stamps t (stamps c)\<rparr>"
  have e: "enforce_write_quota p t c = (Inr (), ?c1)"
    using Cons.prems(1,2) shrink by (simp add: enforce_write_quota_def recent_stamps_def Let_def)
  have "writes_of p (record_write p u ?c1) = writes_of p c + 1"
    using record_write_count [of p u ?c1] by simp
  moreover have "length (recent_stamps now (stamps (record_write p u ?c1))) \<le> length (recent_stamps now (stamps c)) + 1"
  proof -
    have "length (filter (\<lambda>x. t - x < seconds 60 \<and> now - x < seconds 60) (stamps c)) \<le> length (recent_stamps now (stamps c))"
      unfolding recent_stamps_def by (rule length_filter_mono) simp
    then show ?thesis by (simp add: recent_stamps_def conj_commute)
  qed
  ultimately have "fst (quota_run p ts (record_write p u ?c1)) = Inr ()"
    using Cons.prems by (intro Cons.IH) auto
  with e x show ?case by simp
qed simp

text \<open>
  The preflight of a set of writes is enough: when \<open>check_write_quota n\<close> accepts, it changed nothing, and the
  single-write checks of the \<open>n\<close> writes that follow all pass, as long as the clock does not run backwards.
\<close>

theorem preflight_sufficient:
  assumes "check_write_quota p n now c = (Inr (), c1)" and "int (length ts) \<le> n" and "\<forall>(t, u) \<in> set ts. now \<le> t"
  shows "c1 = c \<and> fst (quota_run p ts c) = Inr ()"
proof (cases "n \<le> 0")
  case True
  then have "ts = []" using assms(2) by (cases ts) auto
  with True assms(1) show ?thesis by (simp add: check_write_quota_def)
next
  case False
  then have "c1 = c" "writes_of p c + n \<le> daily_max_drawers p" "int (length (recent_stamps now (stamps c))) + n \<le> burst_max_per_minute p"
    using assms(1) by (auto simp: check_write_quota_def recent_stamps_def split: if_split_asm)
  with assms(2,3) show ?thesis by (intro conjI quota_run_passes [where now = now]) auto
qed

subsection \<open>Reads and mutations stay in bounds\<close>

definition may_read :: "agent_profile \<Rightarrow> principal \<Rightarrow> dict \<Rightarrow> bool" where
  "may_read p who hit \<longleftrightarrow> has_excluded_recall_status hit = Inr False \<and> path_readable p (room_path hit) \<and>
     (hit_tenant hit = Some (tenant_id who) \<and> allows_tenant p (tenant_id who) \<or> root_flag who)"

lemma judge_allows:
  assumes "judge_hit p root tenants hit = Inr Allow"
  shows "has_excluded_recall_status hit = Inr False \<and> path_readable p (room_path hit) \<and>
    (hit_tenant hit = None \<and> root \<or> (\<exists>t. hit_tenant hit = Some t \<and> (''*'' \<in> set tenants \<or> t \<in> set tenants)))"
  using assms by (auto simp: judge_hit_def rbind_Inr_iff Let_def split: if_split_asm option.splits)

lemma filter_loop_allows:
  "filter_loop p root tenants hits = Inr (allowed, blocked) \<Longrightarrow>
   set allowed = {hit \<in> set hits. judge_hit p root tenants hit = Inr Allow} \<and> length allowed + length blocked = length hits"
proof (induction hits arbitrary: allowed blocked)
  case (Cons hit hits)
  then obtain w a b where w: "judge_hit p root tenants hit = Inr w" "filter_loop p root tenants hits = Inr (a, b)"
    "(allowed, blocked) = (case w of Allow \<Rightarrow> (hit # a, b) | Block \<Rightarrow> (a, hit # b))"
    by (auto simp: rbind_Inr_iff)
  with Cons.IH [OF w(2)] show ?case by (cases w) auto
qed simp

lemma tenants_of_root: "is_root_with_break_glass who now \<Longrightarrow> root_flag who \<and> tenant_id who = ''*''"
  by (simp add: is_root_with_break_glass_def)

lemma client_tenants_cases:
  assumes "client_tenants p who now = Inr tenants"
  shows "tenants = [''*''] \<and> is_root_with_break_glass who now \<or>
    tenants = [tenant_id who] \<and> tenant_id who \<noteq> ''*'' \<and> allows_tenant p (tenant_id who)"
  using assms by (auto simp: client_tenants_def split: if_split_asm)

lemma filter_hits_allows:
  assumes "filter_hits p who now later hits = Inr (allowed, blocked)" and "hit \<in> set allowed"
  shows "hit \<in> set hits \<and> may_read p who hit"
proof -
  obtain tenants where t: "client_tenants p who now = Inr tenants"
    "filter_loop p (is_root_with_break_glass who later) tenants hits = Inr (allowed, blocked)"
    using assms(1) by (auto simp: filter_hits_def rbind_Inr_iff)
  then have "hit \<in> set hits" "judge_hit p (is_root_with_break_glass who later) tenants hit = Inr Allow"
    using filter_loop_allows [OF t(2)] assms(2) by auto
  with judge_allows [OF this(2)] client_tenants_cases [OF t(1)] tenants_of_root show ?thesis
    by (fastforce simp: may_read_def)
qed

lemma may_read_snippet: "may_read p who hit \<Longrightarrow> may_read p who (snippet hit)"
proof -
  have "dget (snippet hit) k = dget hit k" if "k \<noteq> ''content''" for k
    using that by (simp add: snippet_def Let_def dict_simps)
  then have "has_excluded_recall_status (snippet hit) = has_excluded_recall_status hit" "room_path (snippet hit) = room_path hit"
    "hit_tenant (snippet hit) = hit_tenant hit"
    by (simp_all add: has_excluded_recall_status_def room_path_def hit_tenant_def)
  then show "may_read p who hit \<Longrightarrow> may_read p who (snippet hit)"
    by (simp add: may_read_def)
qed

text \<open>
  C15: every row the client shows, fetched by id or sampled from a wing, may be read: the caller held the read
  scope, the row is recallable, its room is on the profile's read list and not denied, and it is of the caller's own
  allowed tenant unless the caller is an elevated root.
\<close>

theorem reads_permitted:
  assumes "get_memory v p ops i clk c = (Inr (Some hit), c') \<or>
    (\<exists>hits wing k. sample_by_wing p ops wing k clk c = (Inr hits, c') \<and> hit \<in> set hits)"
  shows "has_scope (me c) ''memory.read'' \<and> may_read p (me c) hit"
  using assms
proof
  assume "get_memory v p ops i clk c = (Inr (Some hit), c')"
  note call = this
  have guard: "read_guard (me c) (clk 0) = Inr ()"
    using call by (cases "read_guard (me c) (clk 0)") (simp_all add: get_memory_def)
  obtain getter where getter: "op_get ops = Some getter"
    using call by (cases "op_get ops") (simp_all add: get_memory_def guard)
  obtain found where found: "getter i (client_store c) = Inr found"
    using call by (cases "getter i (client_store c)") (simp_all add: get_memory_def guard getter)
  obtain raw' where "found = Some raw'"
    using call by (cases found) (simp_all add: get_memory_def guard getter found)
  note g = guard getter found [unfolded this]
  obtain pair where pair: "filter_hits p (me c) (clk 1) (clk 2) [raw'] = Inr pair"
    using call by (cases "filter_hits p (me c) (clk 1) (clk 2) [raw']") (simp_all add: get_memory_def g)
  obtain allowed blocked where "pair = (allowed, blocked)" by (cases pair)
  with pair have f: "filter_hits p (me c) (clk 1) (clk 2) [raw'] = Inr (allowed, blocked)" by simp
  have "hit \<in> set allowed"
    using call f by (cases allowed) (auto simp: get_memory_def g Let_def andthen_Inr)
  with g(1) filter_hits_allows [OF f(1), of hit] show ?thesis
    by (auto simp: read_guard_def require_scope_def rbind_Inr_iff split: if_split_asm)
next
  assume "\<exists>hits wing k. sample_by_wing p ops wing k clk c = (Inr hits, c') \<and> hit \<in> set hits"
  then obtain raw' allowed blocked k where s: "read_guard (me c) (clk 0) = Inr ()" "hit \<in> set (take k (map snippet allowed))"
    "filter_hits p (me c) (clk 2) (clk 3) raw' = Inr (allowed, blocked)"
    by (auto simp: sample_by_wing_def andthen_Inr Let_def)
  then obtain h where "h \<in> set allowed" "hit = snippet h" by (auto dest!: in_set_takeD)
  with s(1) filter_hits_allows [OF s(3)] may_read_snippet show ?thesis
    by (auto simp: read_guard_def require_scope_def rbind_Inr_iff split: if_split_asm)
qed

definition owned_by_caller :: "agent_profile \<Rightarrow> 's client_ops \<Rightarrow> principal \<Rightarrow> string \<Rightarrow> 's \<Rightarrow> bool" where
  "owned_by_caller p ops who i s \<longleftrightarrow> (\<exists>getter hit. op_get ops = Some getter \<and> getter i s = Inr (Some hit) \<and>
     hit_tenant hit = Some (tenant_id who) \<and> allows_tenant p (tenant_id who))"

lemma owned_cases:
  assumes "require_mutation_target_owned p ops who i now s = Inr True"
  shows "is_root_with_break_glass who now \<or> owned_by_caller p ops who i s"
proof -
  obtain tenants where ts: "client_tenants p who now = Inr tenants"
    using assms by (auto simp: require_mutation_target_owned_def rbind_Inr_iff)
  from client_tenants_cases [OF this] show ?thesis
  proof (elim disjE conjE)
    assume own: "tenants = [tenant_id who]" "tenant_id who \<noteq> ''*''" "allows_tenant p (tenant_id who)"
    obtain getter where g: "op_get ops = Some getter"
      using assms own by (cases "op_get ops") (auto simp: require_mutation_target_owned_def ts)
    obtain hit where h: "getter i s = Inr (Some hit)"
      using assms own g by (cases "getter i s"; cases "projr (getter i s)") (auto simp: require_mutation_target_owned_def ts)
    have "hit_tenant hit = Some (tenant_id who)"
      using assms own g h by (cases "hit_tenant hit") (auto simp: require_mutation_target_owned_def ts split: if_split_asm)
    with own g h show ?thesis by (auto simp: owned_by_caller_def)
  qed simp
qed

text \<open>
  A tombstone or supersede that changes the store hits only a row the caller owns: at that moment the adapter
  showed the row in the caller's own allowed tenant, unless root elevation was active, the caller held the write
  scope and gave a reason.
\<close>

theorem mutations_owned:
  assumes "client_tombstone v p ops i reason clk c = (res, c') \<or> client_supersede v p ops i reason by' clk c = (res, c')"
    and "client_store c' \<noteq> client_store c"
  shows "has_scope (me c) ''memory.write'' \<and> py_strip reason \<noteq> [] \<and>
    (is_root_with_break_glass (me c) (clk 1) \<or> owned_by_caller p ops (me c) i (client_store c))"
proof -
  have guarded: "mutation_guard (me c) operation reason (clk 0) = Inr () \<Longrightarrow> has_scope (me c) ''memory.write'' \<and> py_strip reason \<noteq> []"
    for operation by (auto simp: mutation_guard_def require_scope_def rbind_Inr_iff split: if_split_asm)
  have "\<exists>operation. mutation_guard (me c) operation reason (clk 0) = Inr () \<and>
      require_mutation_target_owned p ops (me c) i (clk 1) (client_store c) = Inr True"
  proof (rule ccontr)
    assume no: "\<not> ?thesis"
    have "client_store (snd (client_tombstone v p ops i reason clk c)) = client_store c"
      using no by (cases "mutation_guard (me c) ''tombstone'' reason (clk 0)";
          cases "require_mutation_target_owned p ops (me c) i (clk 1) (client_store c)")
        (auto simp: client_tombstone_def)
    moreover have "client_store (snd (client_supersede v p ops i reason by' clk c)) = client_store c"
      using no by (cases "mutation_guard (me c) ''supersede'' reason (clk 0)";
          cases "require_mutation_target_owned p ops (me c) i (clk 1) (client_store c)")
        (auto simp: client_supersede_def)
    ultimately show False using assms by auto
  qed
  then obtain operation where o': "mutation_guard (me c) operation reason (clk 0) = Inr ()"
    "require_mutation_target_owned p ops (me c) i (clk 1) (client_store c) = Inr True" by blast
  from guarded [OF o'(1)] owned_cases [OF o'(2)] show ?thesis by simp
qed

subsection \<open>A client in action\<close>

definition sample_agent :: agent_profile where
  "sample_agent = sample_profile\<lparr>prof_name := ''agent'', approval_required_for := [''owner/feedback''],
     read_allowlist := [''w/r''], finalizer_only := False\<rparr>"

definition sample_me :: principal where
  "sample_me = \<lparr>pr_id = ''agent:a@t_owner'', tenant_id = ''t_owner'', subject_id = ''owner'', actor_kind = ''agent'',
     scopes = {''memory.read'', ''memory.write''}, roles = {}, root_flag = False, bg_token = None\<rparr>"

definition sample_row_hit :: dict where
  "sample_row_hit = [(''tenant_id'', JStr ''t_owner''), (''wing'', JStr ''w''), (''room'', JStr ''r''), (''content'', JStr ''text'')]"

definition sample_client_ops :: "string list client_ops" where
  "sample_client_ops = \<lparr>add_memory = (\<lambda>wg rm ct md cv s. (Inr ''h1'', s @ [ct])), find_marker = (\<lambda>m t s. Inr None),
     store_delete = Some (\<lambda>h m s. (Inr True, [])), op_get = Some (\<lambda>i s. Inr (Some sample_row_hit)),
     op_tombstone = Some (\<lambda>i r q s. (Inr True, s @ [i])), op_supersede = None, op_find = Some (\<lambda>m t s. Inr []),
     op_marker = Some (\<lambda>m t s. Inr None), op_recent = (\<lambda>w k ts s. Inr [sample_row_hit]),
     op_stats = (\<lambda>f ts s. Some (Inr [])), accepts_conv = True\<rparr>"

definition sample_client :: "string list client" where
  "sample_client = \<lparr>me = sample_me,
     cw = \<lparr>w_outbox = sample_outbox, w_audit = \<lparr>audit_rows = [], audit_up = True\<rparr>, w_store = []\<rparr>, counts = [], stamps = []\<rparr>"

lemma sample_not_root [simp]: "\<not> is_root_with_break_glass sample_me t"
  by (simp add: is_root_with_break_glass_def sample_me_def)

lemma sample_me_parts [simp]: "me sample_client = sample_me" "stamps sample_client = []" "counts sample_client = []"
  "client_store sample_client = []" "tenant_id sample_me = ''t_owner''"
  "w_outbox (cw sample_client) = sample_outbox" "prof_name sample_agent = ''agent''"
  by (simp_all add: sample_client_def client_store_def sample_me_def sample_agent_def)

lemma sample_guard: "write_guard sample_agent sample_me None t = Inr ()"
  by (simp add: write_guard_def require_scope_def has_scope_def require_active_break_glass_def sample_me_def sample_agent_def
      sample_profile_def)

lemma sample_tenants: "client_tenants sample_agent sample_me t = Inr [''t_owner'']"
  by (simp add: client_tenants_def allows_tenant_def sample_agent_def sample_profile_def)

lemma sample_admit:
  assumes "dget md ''infer'' = None" and "dget md ''tenant_id'' = None"
  shows "write_admit sample_env sample_agent [] ''owner_feedback'' None md clk sample_client = (Inr (False, ''t_owner''), sample_client)"
proof -
  have "resolve_write_tenant_id sample_env sample_agent sample_me (dget (own_metadata md) ''tenant_id'') t1 t2 = Inr ''t_owner''" for t1 t2
    using assms(2) by (simp add: resolve_write_tenant_id_def write_tenant_id_def sample_tenants own_metadata_def delete_conv' opt_truthy_def)
  moreover have "write_allowed sample_agent w r = Inr ()" for w r
    by (simp add: write_allowed_def sample_agent_def sample_profile_def)
  moreover have "enforce_write_quota sample_agent t sample_client = (Inr (), sample_client)" for t
    by (simp add: enforce_write_quota_def sample_agent_def sample_profile_def count_today_def get_today_def counter_get_def Let_def)
  moreover have "''owner_feedback'' \<in> set (memory_type_allowlist sample_agent)"
    by (simp add: sample_agent_def sample_profile_def)
  ultimately show ?thesis using assms(1) by (simp add: write_admit_def sample_guard infer_flag_def)
qed

definition sample_direct :: "write_result res \<times> string list client" where
  "sample_direct = client_write sample_env sample_agent sample_client_ops ''text'' [] ''owner_feedback'' None [(''wing'', JStr ''w'')] int sample_client"

lemma sample_room: "write_wing sample_agent [(''wing'', JStr ''w'')] = ''w''" "write_wing sample_agent [] = ''owner''"
  "write_room sample_agent [] = ''feedback''"
  by (simp_all add: write_wing_def write_room_def sample_agent_def sample_profile_def)

lemma sample_approval: "approval_required sample_agent ''owner'' ''feedback''" "\<not> approval_required sample_agent ''w'' ''feedback''"
  by (simp_all add: approval_required_def matches_any_def sample_agent_def)

lemma sample_direct_stores: "client_store (snd sample_direct) = [''text'']"
proof -
  have "\<exists>tenant payload conv raise' clk. sample_direct =
      write_direct sample_env sample_agent sample_client_ops ''w'' ''feedback'' ''text'' tenant payload conv raise' clk sample_client"
    using sample_admit [of "[(''wing'', JStr ''w'')]" int]
    by (simp add: sample_direct_def client_write_def Let_def sample_room sample_approval sample_env_simps) blast
  then obtain tenant payload conv raise' clk where "sample_direct =
      write_direct sample_env sample_agent sample_client_ops ''w'' ''feedback'' ''text'' tenant payload conv raise' clk sample_client" by blast
  then show ?thesis
    using write_direct_effect [of sample_env sample_agent sample_client_ops "''w''" "''feedback''" "''text''" tenant payload conv raise' clk
        sample_client "fst sample_direct" "snd sample_direct"]
    by (simp add: sample_client_ops_def)
qed

theorem write_mediated_witness:
  "\<exists>payload tenant. client_store (snd sample_direct) = snd (add_memory sample_client_ops ''w'' ''feedback'' ''text'' payload None []) \<and>
     dget payload ''tenant_id'' = Some (JStr tenant) \<and> tenant = ''t_owner''"
proof -
  have "client_write sample_env sample_agent sample_client_ops ''text'' [] ''owner_feedback'' None [(''wing'', JStr ''w'')] int sample_client =
    (fst sample_direct, snd sample_direct)" by (simp add: sample_direct_def)
  from write_mediated [OF this] show ?thesis
    by (auto simp: sample_direct_stores sample_room sample_client_ops_def)
qed

definition sample_enqueued :: "write_result res \<times> string list client" where
  "sample_enqueued = client_write sample_env sample_agent sample_client_ops ''text'' [] ''owner_feedback'' None [] int sample_client"

lemma sample_enqueued_call:
  "client_write sample_env sample_agent sample_client_ops ''text'' [] ''owner_feedback'' None [] int sample_client =
    (fst sample_enqueued, snd sample_enqueued)"
  by (simp add: sample_enqueued_def)

lemma sample_enqueued_ok: "\<exists>r. fst sample_enqueued = Inr r"
  using sample_admit [of "[]" int]
  by (simp add: sample_enqueued_def client_write_def Let_def sample_room sample_approval write_queued_def enqueue_approval_def
      outbox_connect_def audit_if_cross_tenant_def)
    (simp add: sample_client_def sample_outbox_def)

theorem write_queues_witness:
  "client_store (snd sample_enqueued) = [] \<and>
   (\<exists>row. approvals (w_outbox (cw (snd sample_enqueued))) = approvals sample_outbox @ [row] \<and> proposed_by_col row = Some ''agent'')"
proof -
  obtain r where "fst sample_enqueued = Inr r" using sample_enqueued_ok by blast
  with write_queues [OF sample_enqueued_call] show ?thesis
    by (auto simp: sample_room sample_approval queued_row_def)
qed

definition sample_calls :: "write_call list" where
  "sample_calls = [\<lparr>wc_text = ''text'', wc_room = [], wc_type = ''owner_feedback'', wc_conv = None, wc_metadata = [], wc_clock = int\<rparr>]"

theorem quotas_hold_witness:
  "\<exists>c log. run_writes sample_env sample_agent sample_client_ops sample_calls (sample_client, []) = (c, log) \<and>
     writes_of sample_agent c \<le> 9 \<and> int (length (window 0 log)) \<le> 3"
proof -
  obtain c log where r: "run_writes sample_env sample_agent sample_client_ops sample_calls (sample_client, []) = (c, log)"
    by (cases "run_writes sample_env sample_agent sample_client_ops sample_calls (sample_client, [])")
  have "writes_of sample_agent sample_client = 0"
    by (simp add: count_today_def get_today_def counter_get_def)
  with quotas_hold [OF r, of 0 0] r show ?thesis
    by (auto simp: sample_calls_def sample_agent_def sample_profile_def)
qed

theorem preflight_sufficient_witness: "fst (quota_run sample_agent [(5, 6), (7, 8)] sample_client) = Inr ()"
proof -
  have "check_write_quota sample_agent 2 0 sample_client = (Inr (), sample_client)"
    by (simp add: check_write_quota_def count_today_def get_today_def counter_get_def sample_agent_def sample_profile_def)
  from preflight_sufficient [OF this, of "[(5, 6), (7, 8)]"] show ?thesis by (simp del: quota_run.simps)
qed

lemma sample_readable: "path_readable sample_agent (room_path sample_row_hit)"
  by (simp add: path_readable_def matches_any_def room_path_def sample_row_hit_def sample_agent_def sample_profile_def strip_char_def)

lemma sample_filtered: "filter_hits sample_agent sample_me t1 t2 [sample_row_hit] = Inr ([sample_row_hit], [])"
  using sample_readable
  by (simp add: filter_hits_def sample_tenants judge_hit_def has_excluded_recall_status_def)
    (simp add: sample_row_hit_def list_of_def hit_tenant_def py_str_def EXCLUDED_RECALL_STATUSES_def py_lower_def)

lemma sample_read_guard: "read_guard sample_me t = Inr ()"
  by (simp add: read_guard_def require_scope_def has_scope_def require_active_break_glass_def sample_me_def)

lemma sample_fetched: "get_memory sample_env sample_agent sample_client_ops ''h'' int sample_client = (Inr (Some sample_row_hit), sample_client)"
  using sample_filtered sample_read_guard
  by (simp add: get_memory_def sample_client_ops_def count_blocked_def audit_if_cross_tenant_def Let_def)

theorem reads_permitted_witness: "may_read sample_agent sample_me sample_row_hit"
  using reads_permitted [OF disjI1 [OF sample_fetched]] by simp

theorem mutations_owned_witness:
  "client_store (snd (client_tombstone sample_env sample_agent sample_client_ops ''h'' ''why'' int sample_client)) = [''h''] \<and>
   owned_by_caller sample_agent sample_client_ops sample_me ''h'' []"
proof -
  let ?r = "client_tombstone sample_env sample_agent sample_client_ops ''h'' ''why'' int sample_client"
  have owned: "require_mutation_target_owned sample_agent sample_client_ops sample_me ''h'' t [] = Inr True" for t
    by (simp add: require_mutation_target_owned_def sample_tenants)
      (simp add: sample_client_ops_def hit_tenant_def sample_row_hit_def py_str_def)
  have "mutation_guard sample_me ''tombstone'' ''why'' t = Inr ()" for t
    by (simp add: mutation_guard_def require_scope_def has_scope_def require_active_break_glass_def sample_me_def py_strip_def py_space_def)
  then have st: "client_store (snd ?r) = [''h'']"
    by (simp add: client_tombstone_def owned audit_if_cross_tenant_def) (simp add: sample_client_ops_def audit_if_cross_tenant_def)
  have "?r = (fst ?r, snd ?r)" by simp
  from mutations_owned [OF disjI1 [OF this]] st show ?thesis by simp
qed

end
