(* ===== verification/Transport.thy ===== *)
theory Transport
  imports Governance
begin

unbundle bit_operations_syntax

text \<open>
  \<open>panella/approval_transport.py\<close>: the channels through which an approver presents a credential.
  \<open>approval_transport\<close> is the interface (the code's Protocol): a verifier from a raw credential to a
  canonical approver and the provenance name an approval is stamped with.  The token file of the
  local channel is read through a parameter: \<open>None\<close> when it cannot be read, otherwise its permission
  bits and its text.
\<close>

datatype transport =
    TelegramApprovalTransport (allowed_author_id: string)
  | LocalCliApprovalTransport (token_file: string) (token_mode: int)

type_synonym token_fs = "string \<Rightarrow> (int \<times> string) option"

definition expected_token :: "token_fs \<Rightarrow> string \<Rightarrow> int \<Rightarrow> string option" where
  "expected_token fs path tmode =
     (case fs path of None \<Rightarrow> None
      | Some (fmode, tok) \<Rightarrow>
          if fmode AND (NOT tmode) \<noteq> 0 then None
          else if py_strip tok = [] then None else Some (py_strip tok))"

fun verify_presser :: "token_fs \<Rightarrow> transport \<Rightarrow> string \<Rightarrow> string option" where
  "verify_presser fs (TelegramApprovalTransport allowed) presser =
     (if allowed = [] \<or> presser \<noteq> allowed then None else Some (''telegram:'' @ presser))"
| "verify_presser fs (LocalCliApprovalTransport path tmode) presser =
     (case expected_token fs path tmode of None \<Rightarrow> None
      | Some tok \<Rightarrow> if presser = [] then None
                   else if presser \<noteq> tok then None else Some ''local_cli:owner'')"

fun stamp_provenance :: "transport \<Rightarrow> string" where
  "stamp_provenance (TelegramApprovalTransport _) = ''telegram''"
| "stamp_provenance (LocalCliApprovalTransport _ _) = ''local_cli''"

text \<open>\<open>int(text, 8)\<close>: surrounding blanks, an optional \<open>0o\<close> prefix, octal digits.\<close>

definition is_octal :: "char \<Rightarrow> bool" where
  "is_octal c \<longleftrightarrow> is_digit c \<and> digit_val c < 8"

definition parse_octal :: "string \<Rightarrow> int option" where
  "parse_octal s =
     (let t = py_strip s;
          d = (if startswith ''0o'' t \<or> startswith ''0O'' t then drop 2 t else t)
      in if d \<noteq> [] \<and> list_all is_octal d
         then Some (int (foldl (\<lambda>n c. 8 * n + digit_val c) 0 d)) else None)"

definition build_transport :: "string \<Rightarrow> dict \<Rightarrow> transport res" where
  "build_transport kind cfg =
     (if kind = ''telegram'' then
        Inr (TelegramApprovalTransport (str_or (dget cfg ''allowed_author_id'') []))
      else if kind = ''local_cli'' then
        (let tf = str_or (dget cfg ''token_file'') [] in
         if tf = [] then Inl (ApprovalTransportError ''local_cli transport requires config.token_file'')
         else
           (case parse_octal (py_str (case dget cfg ''token_mode'' of None \<Rightarrow> JStr ''0600'' | Some v \<Rightarrow> v)) of
              None \<Rightarrow> Inl (ApprovalTransportError ''invalid local_cli token_mode'')
            | Some m \<Rightarrow> Inr (LocalCliApprovalTransport tf m)))
      else Inl (ApprovalTransportError ''unknown approval transport kind''))"

subsection \<open>The interface\<close>

text \<open>
  What every client relies on: a verified credential is not empty and names its channel, so the
  canonical identity determines the provenance stamp; the stamp is one of the known kinds.
\<close>

locale approval_transport =
  fixes verify :: "string \<Rightarrow> string option"
    and stamp :: string
  assumes verify_empty: "verify [] = None"
    and verify_stamp: "verify c = Some by' \<Longrightarrow> \<exists>who. who \<noteq> [] \<and> by' = stamp @ '':'' @ who"
    and stamp_known: "stamp \<in> set KNOWN_TRANSPORT_KINDS"
    and verify_fun: "verify c = Some by' \<Longrightarrow> verify d = Some by'' \<Longrightarrow> by' = by''"
begin

lemma stamp_no_colon: "CHR '':'' \<notin> set stamp"
  using stamp_known by (auto simp: KNOWN_TRANSPORT_KINDS_def)

lemma before_first_stamp: "before_first (CHR '':'') (stamp @ '':'' @ who) = stamp"
  using stamp_no_colon unfolding before_first_def
  by (subst takeWhile_append2) auto

lemma canonical_channel: "verify c = Some by' \<Longrightarrow> before_first (CHR '':'') by' = stamp"
  using verify_stamp before_first_stamp by blast

lemma canonical_nonempty: "verify c = Some by' \<Longrightarrow> by' \<noteq> []"
  using verify_stamp by auto

end

interpretation telegram: approval_transport
  "verify_presser fs (TelegramApprovalTransport allowed)" "stamp_provenance (TelegramApprovalTransport allowed)"
  by unfold_locales (auto simp: KNOWN_TRANSPORT_KINDS_def split: if_splits)

interpretation local_cli: approval_transport
  "verify_presser fs (LocalCliApprovalTransport path tmode)" "stamp_provenance (LocalCliApprovalTransport path tmode)"
  by unfold_locales (auto simp: KNOWN_TRANSPORT_KINDS_def split: if_splits option.splits)

lemma approval_transport_all: "approval_transport (verify_presser fs t) (stamp_provenance t)"
proof (cases t)
  case (TelegramApprovalTransport allowed)
  show ?thesis unfolding TelegramApprovalTransport by (rule telegram.approval_transport_axioms)
next
  case (LocalCliApprovalTransport path tmode)
  show ?thesis unfolding LocalCliApprovalTransport by (rule local_cli.approval_transport_axioms)
qed

interpretation any_transport: approval_transport "verify_presser fs t" "stamp_provenance t"
  by (rule approval_transport_all)

lemma build_transport_kind: "build_transport kind cfg = Inr t \<Longrightarrow> stamp_provenance t = kind"
  by (auto simp: build_transport_def Let_def split: if_splits option.splits)

lemma build_transport_unknown:
  "kind \<notin> set KNOWN_TRANSPORT_KINDS \<Longrightarrow> \<not> is_ok (build_transport kind cfg)"
  by (auto simp: build_transport_def KNOWN_TRANSPORT_KINDS_def is_ok_def split: sum.splits)

lemma expected_token_loose:
  "fs path = Some (fmode, tok) \<Longrightarrow> fmode AND (NOT tmode) \<noteq> 0 \<Longrightarrow> expected_token fs path tmode = None"
  by (simp add: expected_token_def)

text \<open>A transport built from the configuration stamps exactly the configured kind, whatever it
  accepts is a non-empty credential whose canonical identity is prefixed with that kind, and a local
  token file that cannot be read or grants more than the configured mode accepts nobody.\<close>

theorem transport_fail_closed:
  assumes "build_transport kind cfg = Inr t"
  shows "stamp_provenance t = kind \<and>
    verify_presser fs t [] = None \<and>
    (\<forall>c by'. verify_presser fs t c = Some by' \<longrightarrow> c \<noteq> [] \<and> before_first (CHR '':'') by' = kind) \<and>
    (\<forall>p m. t = LocalCliApprovalTransport p m \<and>
       (fs p = None \<or> (\<exists>fm tok. fs p = Some (fm, tok) \<and> fm AND (NOT m) \<noteq> 0)) \<longrightarrow>
       (\<forall>c. verify_presser fs t c = None))"
proof -
  have k: "stamp_provenance t = kind" by (rule build_transport_kind [OF assms])
  have "c \<noteq> [] \<and> before_first (CHR '':'') by' = kind" if "verify_presser fs t c = Some by'" for c by'
    using any_transport.canonical_channel [OF that] any_transport.verify_empty [of fs t] that k by auto
  moreover have "verify_presser fs t c = None"
    if "t = LocalCliApprovalTransport p m"
      "fs p = None \<or> (\<exists>fm tok. fs p = Some (fm, tok) \<and> fm AND (NOT m) \<noteq> 0)" for p m c
    using that by (auto simp: expected_token_def)
  ultimately show ?thesis using k any_transport.verify_empty by auto
qed

theorem transport_fail_closed_witness:
  "verify_presser (\<lambda>_. Some (420, ''secret'')) (LocalCliApprovalTransport ''t'' 384) ''secret'' = None \<and>
   verify_presser (\<lambda>_. Some (384, ''secret'')) (LocalCliApprovalTransport ''t'' 384) ''secret'' = Some ''local_cli:owner''"
proof -
  have b: "build_transport ''local_cli'' [(''token_file'', JStr ''t'')] = Inr (LocalCliApprovalTransport ''t'' 384)"
    by code_simp
  have m: "(420::int) AND (NOT 384) \<noteq> 0" by code_simp
  have "verify_presser (\<lambda>_. Some (420, ''secret'')) (LocalCliApprovalTransport ''t'' 384) ''secret'' = None"
    using transport_fail_closed [OF b, of "\<lambda>_. Some (420, ''secret'')"] m by blast
  moreover have "verify_presser (\<lambda>_. Some (384, ''secret'')) (LocalCliApprovalTransport ''t'' 384) ''secret'' = Some ''local_cli:owner''"
    by code_simp
  ultimately show ?thesis by blast
qed

end
