(* ===== verification/Approval_Service.thy ===== *)
theory Approval_Service
  imports Finalizer Transport
begin

text \<open>
  \<open>panella/approval_service.py\<close> and \<open>approval_audit.py\<close>: the one gate of both approval surfaces.  A
  presenter is authenticated by the configured transport and must be an authorized approver; every
  decision is written to the audit log before the queue changes; an approval stores the receipt of that
  record and is then finalized.  The functions act on a \<open>world\<close> and leave whatever they had committed
  when they raise.
\<close>

record audit_context =
  ac_principal :: principal
  ac_tenant :: string
  ac_source :: string
  ac_extra :: dict

definition verify_approver :: "token_fs \<Rightarrow> transport \<Rightarrow> env \<Rightarrow> string option \<Rightarrow> string res" where
  "verify_approver fs t v credential =
     (case credential of None \<Rightarrow> Inl (ApprovalAuthError ''approval credential rejected'')
      | Some c \<Rightarrow>
          if c = [] then Inl (ApprovalAuthError ''approval credential rejected'')
          else (case verify_presser fs t c of
                  None \<Rightarrow> Inl (ApprovalAuthError ''approval credential rejected'')
                | Some who \<Rightarrow>
                    if who \<notin> set (authorized_approvers (appr v))
                    then Inl (ApprovalAuthError ''presser is not an authorized approver'') else Inr who))"

definition service_details :: "audit_context \<Rightarrow> dict \<Rightarrow> dict" where
  "service_details ac core = dict_update (dset ''source'' (JStr (ac_source ac)) (dict_update [] (ac_extra ac))) core"

definition decision_core ::
  "string \<Rightarrow> int \<Rightarrow> string \<Rightarrow> string \<Rightarrow> string option \<Rightarrow> string option \<Rightarrow> dict" where
  "decision_core decision i by' via sha proposer =
     [(''phase'', JStr ''authorized_intent''), (''decision'', JStr decision), (''approval_id'', JInt i),
      (''approved_by'', JStr by'), (''approved_via'', JStr via)] @
     (case sha of None \<Rightarrow> [] | Some s \<Rightarrow> [(''candidate_sha256'', JStr s)]) @
     (case proposer of None \<Rightarrow> [] | Some p \<Rightarrow> [(''proposed_by_profile'', JStr p)])"

definition decision_entry ::
  "audit_context \<Rightarrow> string \<Rightarrow> int \<Rightarrow> string \<Rightarrow> string \<Rightarrow> string option \<Rightarrow> string option \<Rightarrow> time \<Rightarrow> audit_entry" where
  "decision_entry ac decision i by' via sha proposer now =
     \<lparr>e_ts = isoformat now, e_principal = pr_id (ac_principal ac), e_tenant = ac_tenant ac, e_op = ''approval_decision'',
      e_target = Some (int_str i), e_reason = map_option bg_reason (bg_token (ac_principal ac)),
      e_details = service_details ac (decision_core decision i by' via sha proposer)\<rparr>"

definition append_decision ::
  "env \<Rightarrow> audit_context \<Rightarrow> string \<Rightarrow> int \<Rightarrow> string \<Rightarrow> string \<Rightarrow> string option \<Rightarrow> string option \<Rightarrow> time \<Rightarrow> audit_db \<Rightarrow>
   (int \<times> string) res \<times> audit_db" where
  "append_decision v ac decision i by' via sha proposer now au =
     (case audit_write (sha256_hex v) (decision_entry ac decision i by' via sha proposer now) au of
        Inl e \<Rightarrow> (Inl e, au)
      | Inr (n, au') \<Rightarrow> (rbind (audit_row_hash n au') (\<lambda>h. Inr (n, h)), au'))"

text \<open>Best effort: a log that cannot be written does not hide the refusal.\<close>

definition audit_refused ::
  "env \<Rightarrow> audit_context \<Rightarrow> string \<Rightarrow> int option \<Rightarrow> string \<Rightarrow> time \<Rightarrow> audit_db \<Rightarrow> audit_db" where
  "audit_refused v ac action i reason now au =
     (case audit_write (sha256_hex v)
        \<lparr>e_ts = isoformat now, e_principal = pr_id (ac_principal ac), e_tenant = ac_tenant ac, e_op = ''approval_refused'',
         e_target = map_option int_str i, e_reason = None,
         e_details = service_details ac [(''action'', JStr action), (''reason'', JStr reason)]\<rparr> au of
        Inl _ \<Rightarrow> au | Inr (_, au') \<Rightarrow> au')"

fun auth_text :: "exc \<Rightarrow> string" where
  "auth_text (ApprovalAuthError m) = m"
| "auth_text _ = []"

subsection \<open>Listing\<close>

definition list_pending ::
  "env \<Rightarrow> token_fs \<Rightarrow> transport \<Rightarrow> string option \<Rightarrow> audit_context \<Rightarrow> int option \<Rightarrow> time \<Rightarrow> 's world \<Rightarrow>
   pending_item list res \<times> 's world" where
  "list_pending v fs t credential ac limit now w =
     (case verify_approver fs t v credential of
        Inl e \<Rightarrow> (Inl e, w\<lparr>w_audit := audit_refused v ac ''list_pending'' None (auth_text e) now (w_audit w)\<rparr>)
      | Inr who \<Rightarrow>
          (let lim = (case limit of Some k \<Rightarrow> if k < 1 then 20 else k | None \<Rightarrow> 20) in
           case list_pending_approvals lim (w_outbox w) of
             Inl e \<Rightarrow> (Inl e, w)
           | Inr rows \<Rightarrow>
               (case audit_write (sha256_hex v)
                  \<lparr>e_ts = isoformat now, e_principal = pr_id (ac_principal ac), e_tenant = ac_tenant ac,
                   e_op = ''approval_list'', e_target = None, e_reason = None,
                   e_details = service_details ac [(''listed'', JInt (int (length rows))), (''approved_by'', JStr who)]\<rparr>
                  (w_audit w) of
                  Inl e \<Rightarrow> (Inl e, w)
                | Inr (_, au) \<Rightarrow> (Inr rows, w\<lparr>w_audit := au\<rparr>))))"

definition count_pending :: "'s world \<Rightarrow> nat res" where
  "count_pending w = count_pending_approvals (w_outbox w)"

subsection \<open>Approving and rejecting\<close>

record approve_outcome =
  out_durable_id :: string
  out_retried :: bool

definition value_error :: "exc \<Rightarrow> bool" where
  "value_error e \<longleftrightarrow> (case e of ValueError _ \<Rightarrow> True | JSONDecodeError \<Rightarrow> True | PrincipalValidationError _ \<Rightarrow> True | _ \<Rightarrow> False)"

definition approve ::
  "env \<Rightarrow> token_fs \<Rightarrow> transport \<Rightarrow> string option \<Rightarrow> audit_context \<Rightarrow> 's store_ops res \<Rightarrow> agent_profile res \<Rightarrow>
   string \<Rightarrow> (nat \<Rightarrow> time) \<Rightarrow> int \<Rightarrow> 's world \<Rightarrow> approve_outcome res \<times> 's world" where
  "approve v fs t credential ac factory prof wid clk i w =
     (case verify_approver fs t v credential of
        Inl e \<Rightarrow> (Inl e, w\<lparr>w_audit := audit_refused v ac ''approve'' (Some i) (auth_text e) (clk 0) (w_audit w)\<rparr>)
      | Inr who \<Rightarrow>
      (let via = stamp_provenance t in
       case get_approval_candidate i (w_outbox w) of
         Inl e \<Rightarrow> (Inl e, w)
       | Inr None \<Rightarrow>
           (Inl (ApprovalStateError ''approval_queue row not found''),
            w\<lparr>w_audit := audit_refused v ac ''approve'' (Some i) ''approval row not found'' (clk 0) (w_audit w)\<rparr>)
       | Inr (Some (cand, col)) \<Rightarrow>
           (let sha = candidate_fingerprint v cand in
            case append_decision v ac ''approve'' i who via (Some sha) (proposed_by_profile (map_option JStr col)) (clk 0) (w_audit w) of
              (Inl e, au) \<Rightarrow> (Inl e, w\<lparr>w_audit := au\<rparr>)
            | (Inr (n, h), au) \<Rightarrow>
                (let w1 = w\<lparr>w_audit := au\<rparr> in
                 case mcp_approve_or_redrive v i via who n h sha (clk 1) (w_outbox w1) of
                   Inl e \<Rightarrow> (Inl (if value_error e then ApprovalStateError (exc_text e) else e), w1)
                 | Inr (m, db) \<Rightarrow>
                     (case finalize_approved_candidate v (authorized_approvers (appr v)) factory prof (Some via) wid
                             (\<lambda>k. clk (k + 2)) i (w1\<lparr>w_outbox := db\<rparr>) of
                        (Inl e, w2) \<Rightarrow> (Inl e, w2)
                      | (Inr None, w2) \<Rightarrow> (Inl ApprovalNotFinalized, w2)
                      | (Inr (Some d), w2) \<Rightarrow> (Inr \<lparr>out_durable_id = d, out_retried = (m = Redrive)\<rparr>, w2))))))"

definition reject ::
  "env \<Rightarrow> token_fs \<Rightarrow> transport \<Rightarrow> string option \<Rightarrow> audit_context \<Rightarrow> (nat \<Rightarrow> time) \<Rightarrow> int \<Rightarrow> 's world \<Rightarrow>
   unit res \<times> 's world" where
  "reject v fs t credential ac clk i w =
     (case verify_approver fs t v credential of
        Inl e \<Rightarrow> (Inl e, w\<lparr>w_audit := audit_refused v ac ''reject'' (Some i) (auth_text e) (clk 0) (w_audit w)\<rparr>)
      | Inr who \<Rightarrow>
          (case append_decision v ac ''reject'' i who (stamp_provenance t) None None (clk 0) (w_audit w) of
             (Inl e, au) \<Rightarrow> (Inl e, w\<lparr>w_audit := au\<rparr>)
           | (Inr _, au) \<Rightarrow>
               (let w1 = w\<lparr>w_audit := au\<rparr> in
                case update_approval_status v i ''rejected'' (Some who) (clk 1) (w_outbox w1) of
                  Inl e \<Rightarrow> (Inl e, w1)
                | Inr (changed, db) \<Rightarrow>
                    (if changed = 0 then Inl (ApprovalStateError ''approval is not a pending candidate (missing or already decided)'')
                     else Inr (), w1\<lparr>w_outbox := db\<rparr>))))"


subsection \<open>The decision record\<close>

lemma verify_approver_ok:
  assumes "verify_approver fs t v credential = Inr who"
  shows "who \<in> set (authorized_approvers (appr v)) \<and> who \<noteq> [] \<and>
    (\<exists>c. credential = Some c \<and> c \<noteq> [] \<and> verify_presser fs t c = Some who)"
proof -
  obtain c where c: "credential = Some c" "c \<noteq> []" "verify_presser fs t c = Some who" "who \<in> set (authorized_approvers (appr v))"
    using assms by (auto simp: verify_approver_def split: option.splits if_splits)
  moreover have "who \<noteq> []" by (rule any_transport.canonical_nonempty [OF c(3)])
  ultimately show ?thesis by blast
qed

lemma stamp_nonempty: "stamp_provenance t \<noteq> []"
  by (cases t) simp_all

lemma list_all_dset: "list_all (\<lambda>(k, x). P x) d \<Longrightarrow> P x \<Longrightarrow> list_all (\<lambda>(k, x). P x) (dset k x d)"
proof (induction d)
  case (Cons p d)
  then show ?case by (cases p) simp
qed simp

lemma list_all_dict_update:
  "list_all (\<lambda>(k, x). P x) d \<Longrightarrow> list_all (\<lambda>(k, x). P x) ps \<Longrightarrow> list_all (\<lambda>(k, x). P x) (dict_update d ps)"
proof (induction ps arbitrary: d)
  case (Cons p ps)
  then show ?case by (cases p) (simp add: list_all_dset)
qed simp

lemma service_details_jwf:
  assumes "list_all (\<lambda>(k, x). jwf x) (ac_extra ac)" and "list_all (\<lambda>(k, x). jwf x) core"
  shows "jwf (JObj (service_details ac core))"
  using assms by (simp add: service_details_def distinct_keys_dict_update distinct_keys_dset list_all_dict_update list_all_dset)

lemma decision_core_fields:
  "distinct (map fst (decision_core dec i by' via sha proposer))"
  "list_all (\<lambda>(k, x). jwf x) (decision_core dec i by' via sha proposer)"
  by (cases sha; cases proposer; simp add: decision_core_def)+

text \<open>The caller's extra fields cannot shadow the decision.\<close>

lemma decision_entry_details:
  "dget (e_details (decision_entry ac dec i by' via sha proposer now)) ''decision'' = Some (JStr dec)"
  "dget (e_details (decision_entry ac dec i by' via sha proposer now)) ''approved_by'' = Some (JStr by')"
  "dget (e_details (decision_entry ac dec i by' via sha proposer now)) ''approved_via'' = Some (JStr via)"
  "dget (e_details (decision_entry ac dec i by' via (Some s) proposer now)) ''candidate_sha256'' = Some (JStr s)"
  "dget (e_details (decision_entry ac dec i by' via (Some s) (Some p) now)) ''proposed_by_profile'' = Some (JStr p)"
  by (simp_all add: decision_entry_def service_details_def dget_dict_update decision_core_fields(1) del: dict_update_simps)
    (simp_all add: decision_core_def)

definition extra_ok :: "audit_context \<Rightarrow> bool" where
  "extra_ok ac \<longleftrightarrow> list_all (\<lambda>(k, x). jwf x) (ac_extra ac)"

lemma decision_entry_decides:
  assumes "extra_ok ac" and "ac_tenant ac = default_tenant_id (ident v)" and "aq_id row = i"
    and "approved_by row = Some who" and "approved_via row = Some via"
  shows "decides v row (decision_entry ac ''approve'' i who via (Some (candidate_fingerprint v (candidate_json row))) proposer now)"
proof -
  have "entry_ok (decision_entry ac ''approve'' i who via (Some (candidate_fingerprint v (candidate_json row))) proposer now)"
    using assms(1) service_details_jwf [of ac] decision_core_fields(2)
    by (simp add: entry_ok_def decision_entry_def extra_ok_def del: jwf.simps)
  then show ?thesis
    using assms by (simp add: decides_def decision_entry_details opt_json_def)
      (simp add: decision_entry_def)
qed

lemma append_decision_ok:
  assumes "intact (sha256_hex v) (audit_rows au)" and "audit_up au"
  shows "\<exists>n au'. audit_write (sha256_hex v) (decision_entry ac dec i who via sha proposer now) au = Inr (n, au') \<and>
    append_decision v ac dec i who via sha proposer now au =
      (Inr (n, this_hash (new_row (sha256_hex v) (decision_entry ac dec i who via sha proposer now) (audit_rows au))), au') \<and>
    1 \<le> n \<and> intact (sha256_hex v) (audit_rows au') \<and> audit_up au'"
proof -
  let ?e = "decision_entry ac dec i who via sha proposer now"
  obtain n au' where w: "audit_write (sha256_hex v) ?e au = Inr (n, au')"
    using assms(2) audit_write_iff [of "sha256_hex v" ?e au] by blast
  have "1 \<le> n" using w intact_new_row_seq [OF assms(1)] by (simp add: audit_write_iff)
  with w row_hash_new [OF assms(1) w] intact_audit_write [OF assms(1) w] show ?thesis
    by (simp add: append_decision_def)
qed

lemma append_decision_log:
  "append_decision v ac dec i who via sha proposer now au = (r, au') \<Longrightarrow>
   au' = au \<or> (\<exists>n. audit_write (sha256_hex v) (decision_entry ac dec i who via sha proposer now) au = Inr (n, au'))"
  by (auto simp: append_decision_def split: sum.splits prod.splits)

subsection \<open>An approval from the credential to the store\<close>

definition hex_digest :: "(string \<Rightarrow> string) \<Rightarrow> bool" where
  "hex_digest H \<longleftrightarrow> (\<forall>s. length (H s) = 64 \<and> list_all is_hex_char (H s))"

lemma hex_digest_receipt: "hex_digest H \<Longrightarrow> 1 \<le> n \<Longrightarrow> require_receipt (Some n) (Some (H a)) (Some (H b)) = Inr (n, H a, H b)"
  by (simp add: require_receipt_def hex_digest_def)

lemma hex_digest_nonempty: "hex_digest H \<Longrightarrow> H s \<noteq> []"
  by (auto simp: hex_digest_def dest: spec [of _ s])

lemma hex_digest_hashes:
  "hex_digest (sha256_hex v) \<Longrightarrow> this_hash (new_row (sha256_hex v) e rows) \<noteq> [] \<and> candidate_fingerprint v s \<noteq> []"
  by (simp add: new_row_hash row_hash_def candidate_fingerprint_def hex_digest_nonempty)

definition stamped_outbox :: "env \<Rightarrow> int \<Rightarrow> stamp \<Rightarrow> time \<Rightarrow> dict \<Rightarrow> outbox_db \<Rightarrow> outbox_db" where
  "stamped_outbox v i st now c db = set_approval i (stamp_row st now (next_event db))
     (db\<lparr>events := events db @ [approval_event v c i now (next_event db)], next_event := next_event db + 1\<rparr>)"

lemma mcp_stamps:
  assumes "find_approval i db = Some row" and "status row \<in> set mcp_approvable_statuses"
    and "finalizer_unclaimed (finalizer_state row)" and "load_candidate (candidate_json row) = Inr c"
    and "via \<noteq> []" and "by' \<noteq> []" and "outbox_up db"
    and "require_receipt (Some n) (Some h) (Some (candidate_fingerprint v (candidate_json row))) =
      Inr (n, h, candidate_fingerprint v (candidate_json row))"
  shows "mcp_approve_or_redrive v i via by' n h (candidate_fingerprint v (candidate_json row)) now db =
    Inr (Stamped, stamped_outbox v i (service_stamp via by' n h (candidate_fingerprint v (candidate_json row))) now c db)"
proof -
  let ?st = "service_stamp via by' n h (candidate_fingerprint v (candidate_json row))"
  have s: "status row \<noteq> ''approved''" "status row \<in> set approvable_statuses"
    using assms(2) by (auto simp: mcp_approvable_statuses_def approvable_statuses_def)
  have "approve_in_conn v i ?st now db = Inr (next_event db, stamped_outbox v i ?st now c db)"
    using assms(1,4) s by (simp add: approve_in_conn_def stamped_outbox_def service_stamp_def Let_def)
  with assms s(1) show ?thesis by (simp add: mcp_approve_or_redrive_def outbox_connect_def)
qed

lemma find_stamped:
  assumes "find_approval i db = Some row"
  shows "find_approval i (stamped_outbox v i st now c db) = Some (stamp_row st now (next_event db) row)"
  unfolding stamped_outbox_def by (subst find_set_approval) (simp_all add: assms)

lemma stamped_claimable:
  "finalizer_unclaimed (finalizer_state row) \<Longrightarrow> claimable now (stamp_row st t ev row)"
  by (auto simp: claimable_def finalizer_unclaimed_def stamp_row_def)

lemma dropWhile_id: "(xs \<noteq> [] \<Longrightarrow> \<not> P (hd xs)) \<Longrightarrow> dropWhile P xs = xs"
  by (cases xs) auto

lemma py_strip_idem: "py_strip (py_strip s) = py_strip s"
proof -
  let ?a = "dropWhile py_space s"
  let ?b = "dropWhile py_space (rev ?a)"
  have "dropWhile py_space (rev ?b) = rev ?b"
  proof (rule dropWhile_id)
    assume ne: "rev ?b \<noteq> []"
    then have a: "?a \<noteq> []" by (metis rev.simps(1) dropWhile.simps(1))
    obtain zs where z: "rev ?a = zs @ ?b" by (metis takeWhile_dropWhile_id)
    then have "?a = rev ?b @ rev zs" by (metis rev_append rev_rev_ident)
    then have "hd ?a = hd (rev ?b)" using ne by (metis hd_append2)
    with hd_dropWhile [OF a] show "\<not> py_space (hd (rev ?b))" by simp
  qed
  moreover have "dropWhile py_space ?b = ?b" by (simp only: dropWhile_idem)
  ultimately show ?thesis by (simp add: py_strip_def)
qed

lemma proposer_canonical:
  "proposed_by_profile x = Some p \<Longrightarrow> proposed_by_profile (Some (JStr p)) = Some p"
  by (cases x rule: proposed_by_profile.cases) (auto simp: py_strip_idem split: if_splits)

lemma dget_dict_update_none: "dget d k = None \<Longrightarrow> dget ps k = None \<Longrightarrow> dget (dict_update d ps) k = None"
proof (induction ps arbitrary: d)
  case (Cons p ps)
  then show ?case by (cases p) (simp add: dict_simps split: if_splits)
qed simp

lemma core_proposer:
  "dget (decision_core dec i by' via sha proposer) ''proposed_by_profile'' = map_option JStr proposer"
proof (cases sha)
  case None
  then show ?thesis by (cases proposer) (simp_all add: decision_core_def)
next
  case (Some s)
  then show ?thesis by (cases proposer) (simp_all add: decision_core_def)
qed

lemma entry_proposer:
  assumes "dget (ac_extra ac) ''proposed_by_profile'' = None"
  shows "dget (e_details (decision_entry ac dec i by' via sha proposer now)) ''proposed_by_profile'' = map_option JStr proposer"
proof -
  have "dget (dict_update [] (ac_extra ac)) ''proposed_by_profile'' = None"
    by (rule dget_dict_update_none) (simp_all add: assms)
  then have n: "dget (dset ''source'' (JStr (ac_source ac)) (dict_update [] (ac_extra ac))) ''proposed_by_profile'' = None"
    by (simp add: dict_simps)
  have e: "e_details (decision_entry ac dec i by' via sha proposer now) =
      dict_update (dset ''source'' (JStr (ac_source ac)) (dict_update [] (ac_extra ac))) (decision_core dec i by' via sha proposer)"
    by (simp only: decision_entry_def service_details_def audit_entry.simps)
  show ?thesis
    unfolding e dget_dict_update [OF decision_core_fields(1)] core_proposer n by (cases proposer) simp_all
qed

lemma decision_proposer:
  assumes "dget (ac_extra ac) ''proposed_by_profile'' = None"
  shows "proposed_by_profile (map_option canon (dget (e_details (decision_entry ac dec i by' via sha (proposed_by_profile x) now))
    ''proposed_by_profile'')) = proposed_by_profile x"
  unfolding entry_proposer [OF assms] using proposer_canonical [of x]
  by (cases "proposed_by_profile x") simp_all

lemma approve_completing:
  assumes "verify_presser fs t c = Some who" and "who \<in> set (authorized_approvers (appr v))"
    and "intact (sha256_hex v) (audit_rows (w_audit w))" and "audit_up (w_audit w)" and "outbox_up (w_outbox w)"
    and "hex_digest (sha256_hex v)" and "extra_ok ac" and "ac_tenant ac = default_tenant_id (ident v)"
    and "dget (ac_extra ac) ''proposed_by_profile'' = None"
    and "find_approval i (w_outbox w) = Some row" and "status row \<in> {''pending'', ''pending_approval''}"
    and "finalizer_state row \<in> {None, Some ''none'', Some ''failed''}"
    and "principal_default_for_profile (ident v) (prof_name profile) (tenant_scope profile) = Inr p"
    and "reconstruct_durable_payload v (candidate_json row) (approval_ref i) i (Some (stamp_provenance t))
           (proposed_by_profile (map_option JStr (proposed_by_col row))) (clk 3) = Inr b"
    and "admits v profile b"
    and "add_memory ops (b_wing b) (b_room b) (sanitize v (b_content b)) (b_metadata b)
           (Some (''approval:'' @ int_str i)) (w_store w) = (Inr h, s')" and "h \<noteq> []"
  shows "\<exists>w'. approve v fs t (Some c) ac (Inr ops) (Inr profile) wid clk i w =
      (Inr \<lparr>out_durable_id = h, out_retried = False\<rparr>, w') \<and> w_store w' = s' \<and>
    (\<exists>row'. find_approval i (w_outbox w') = Some row' \<and> finalizer_state row' = Some ''finalized'' \<and>
       durable_memory_id row' = Some h \<and> candidate_json row' = candidate_json row)"
proof -
  let ?via = "stamp_provenance t" and ?sha = "candidate_fingerprint v (candidate_json row)"
  let ?pro = "proposed_by_profile (map_option JStr (proposed_by_col row))"
  let ?e = "decision_entry ac ''approve'' i who ?via (Some ?sha) ?pro (clk 0)"
  let ?hash = "this_hash (new_row (sha256_hex v) ?e (audit_rows (w_audit w)))"
  have c: "c \<noteq> []" using assms(1) any_transport.verify_empty [of fs t] by auto
  have who: "who \<noteq> []" by (rule any_transport.canonical_nonempty [OF assms(1)])
  have ver: "verify_approver fs t v (Some c) = Inr who" using c assms(1,2) by (simp add: verify_approver_def)
  have i: "aq_id row = i" using assms(10) by (auto simp: find_approval_def dest: find_row_SomeD)
  obtain n au where wr: "audit_write (sha256_hex v) ?e (w_audit w) = Inr (n, au)"
    and ap: "append_decision v ac ''approve'' i who ?via (Some ?sha) ?pro (clk 0) (w_audit w) = (Inr (n, ?hash), au)"
    and n: "1 \<le> n"
    using append_decision_ok [OF assms(3,4)] by blast
  obtain cd where cd: "load_candidate (candidate_json row) = Inr cd"
    using assms(14) by (cases "load_candidate (candidate_json row)") (simp_all add: reconstruct_durable_payload_def)
  let ?st = "service_stamp ?via who n ?hash ?sha"
  let ?db = "stamped_outbox v i ?st (clk 1) cd (w_outbox w)"
  have rr: "require_receipt (Some n) (Some ?hash) (Some ?sha) = Inr (n, ?hash, ?sha)"
    using hex_digest_receipt [OF assms(6) n] by (simp add: new_row_hash row_hash_def candidate_fingerprint_def)
  have m: "mcp_approve_or_redrive v i ?via who n ?hash ?sha (clk 1) (w_outbox w) = Inr (Stamped, ?db)"
    by (rule mcp_stamps [OF assms(10) _ _ cd stamp_nonempty who assms(5) rr])
      (use assms(11,12) in \<open>simp_all add: mcp_approvable_statuses_def finalizer_unclaimed_def\<close>)
  let ?row = "stamp_row ?st (clk 1) (next_event (w_outbox w)) row"
  let ?w = "w\<lparr>w_audit := au, w_outbox := ?db\<rparr>"
  have f: "find_approval i (w_outbox ?w) = Some ?row" using find_stamped [OF assms(10)] by simp
  have dec: "decides v ?row ?e"
    using decision_entry_decides [OF assms(7,8), where row = ?row and i = i and who = who and via = ?via] i
    by (simp add: stamp_row_def service_stamp_def)
  have rec: "receipted v n ?hash ?row" by (simp add: receipted_def stamp_row_def service_stamp_def)
  obtain d where d: "attests v ?row au (new_row (sha256_hex v) ?e (audit_rows (w_audit w))) d"
    "dget d ''proposed_by_profile'' = map_option canon (dget (e_details ?e) ''proposed_by_profile'')"
    using receipt_attests [OF assms(3) wr dec rec] by blast
  have pd: "proposed_by_profile (dget d ''proposed_by_profile'') = ?pro"
    unfolding d(2) by (rule decision_proposer [OF assms(9)])
  have "\<exists>w'. finalize_approved_candidate v (authorized_approvers (appr v)) (Inr ops) (Inr profile) (Some ?via) wid
      (\<lambda>k. clk (k + 2)) i ?w = (Inr (Some h), w') \<and> w_store w' = s' \<and>
    (\<exists>row'. find_approval i (w_outbox w') = Some row' \<and> finalizer_state row' = Some ''finalized'' \<and>
       durable_memory_id row' = Some h \<and> candidate_json row' = candidate_json ?row) \<and>
    (\<forall>e\<in>set (events (w_outbox w')). me_id e = next_event (w_outbox w) \<longrightarrow> me_status e = ''completed'' \<and> completed_memory_id e = Some h)"
  proof (rule finalize_completing [OF f])
    show "attests v ?row (w_audit ?w) (new_row (sha256_hex v) ?e (audit_rows (w_audit w))) d" using d(1) by simp
    show "claimable (clk (0 + 2)) ?row"
      by (rule stamped_claimable) (use assms(12) in \<open>simp add: finalizer_unclaimed_def\<close>)
    show "reconstruct_durable_payload v (candidate_json ?row) (approval_ref i) i (Some ?via)
        (proposed_by_profile (dget d ''proposed_by_profile'')) (clk (1 + 2)) = Inr b"
      unfolding pd using assms(14) by (simp add: stamp_row_def numeral_3_eq_3)
  qed (use assms hex_digest_hashes [OF assms(6)] stamp_nonempty [of t] in \<open>simp_all add: stamp_row_def
      service_stamp_def given_or_def stamped_outbox_def\<close>)
  then show ?thesis
    using ver assms(10) ap m by (auto simp: approve_def get_approval_candidate_def outbox_connect_def assms(5) stamp_row_def)
qed

text \<open>
  C1: an approval works end to end.  When the credential belongs to an authorized approver, the row
  awaits a decision and is unclaimed, the log is intact, and the store accepts the built payload, one
  call appends a decision record, stamps its receipt, passes the finalizer's gate, writes the candidate
  and returns the store's id; the row is then finalized with that id, its candidate text unchanged.
\<close>

theorem approve_end_to_end:
  assumes "verify_presser fs t c = Some who" and "who \<in> set (authorized_approvers (appr v))"
    and "intact (sha256_hex v) (audit_rows (w_audit w))" and "audit_up (w_audit w)" and "outbox_up (w_outbox w)"
    and "hex_digest (sha256_hex v)" and "extra_ok ac" and "ac_tenant ac = default_tenant_id (ident v)"
    and "dget (ac_extra ac) ''proposed_by_profile'' = None"
    and "find_approval i (w_outbox w) = Some row" and "status row \<in> {''pending'', ''pending_approval''}"
    and "finalizer_state row \<in> {None, Some ''none'', Some ''failed''}"
    and "principal_default_for_profile (ident v) (prof_name profile) (tenant_scope profile) = Inr p"
    and "reconstruct_durable_payload v (candidate_json row) (approval_ref i) i (Some (stamp_provenance t))
           (proposed_by_profile (map_option JStr (proposed_by_col row))) (clk 3) = Inr b"
    and "admits v profile b"
    and "add_memory ops (b_wing b) (b_room b) (sanitize v (b_content b)) (b_metadata b)
           (Some (''approval:'' @ int_str i)) (w_store w) = (Inr h, s')" and "h \<noteq> []"
  shows "\<exists>w'. approve v fs t (Some c) ac (Inr ops) (Inr profile) wid clk i w =
      (Inr \<lparr>out_durable_id = h, out_retried = False\<rparr>, w') \<and> w_store w' = s' \<and>
    (\<exists>row'. find_approval i (w_outbox w') = Some row' \<and> finalizer_state row' = Some ''finalized'' \<and>
       durable_memory_id row' = Some h \<and> candidate_json row' = candidate_json row)"
  using assms by (rule approve_completing)

subsection \<open>What the calls preserve\<close>

text \<open>The log only grows by appended records.\<close>

inductive grows :: "(string \<Rightarrow> string) \<Rightarrow> audit_db \<Rightarrow> audit_db \<Rightarrow> bool" for H where
  grows_refl [simp, intro]: "grows H au au"
| grows_write: "grows H au au1 \<Longrightarrow> audit_write H e au1 = Inr (n, au2) \<Longrightarrow> grows H au au2"

lemma grows_one: "audit_write H e au = Inr (n, au') \<Longrightarrow> grows H au au'"
  by (rule grows_write) auto

lemma grows_trans: "grows H b c \<Longrightarrow> grows H a b \<Longrightarrow> grows H a c"
  by (induction rule: grows.induct) (auto intro: grows_write)

lemma grows_intact: "grows H a b \<Longrightarrow> intact H (audit_rows a) \<Longrightarrow> intact H (audit_rows b)"
  by (induction rule: grows.induct) (auto dest: intact_audit_write)

lemma grows_attests: "grows (sha256_hex v) a b \<Longrightarrow> attests v row a r d \<Longrightarrow> attests v row b r d"
  by (induction rule: grows.induct) (auto intro: attests_persists)

lemma grows_prefix: "grows H a b \<Longrightarrow> \<exists>new. audit_rows b = audit_rows a @ new"
  by (induction rule: grows.induct) (auto simp: audit_write_iff)

definition world_keeps :: "env \<Rightarrow> 's world \<Rightarrow> 's world \<Rightarrow> bool" where
  "world_keeps v w w' \<longleftrightarrow> keeps_queue v (w_outbox w) (w_outbox w') \<and> grows (sha256_hex v) (w_audit w) (w_audit w')"

lemma world_keeps_refl [simp, intro]: "world_keeps v w w"
  by (simp add: world_keeps_def)

lemma world_keeps_trans: "world_keeps v a b \<Longrightarrow> world_keeps v b c \<Longrightarrow> world_keeps v a c"
  unfolding world_keeps_def using keeps_queue_trans grows_trans by blast

lemma world_keeps_parts:
  "world_keeps v w (w\<lparr>w_store := s\<rparr>)"
  "keeps_queue v (w_outbox w) db \<Longrightarrow> world_keeps v w (w\<lparr>w_outbox := db\<rparr>)"
  "grows (sha256_hex v) (w_audit w) au \<Longrightarrow> world_keeps v w (w\<lparr>w_audit := au\<rparr>)"
  by (simp_all add: world_keeps_def)

lemma world_keeps_store [simp]: "world_keeps v (w\<lparr>w_store := s\<rparr>) w' = world_keeps v w w'"
  by (simp add: world_keeps_def)

lemma failing_keeps: "world_keeps v w (snd (failing i wid m w))"
  using fail_claim_keeps [of v "w_outbox w" i wid m]
  by (auto simp: failing_def split: prod.splits sum.splits intro!: world_keeps_parts(2))

lemma record_outcome_keeps: "world_keeps v w (record_outcome v p b h row now w)"
  by (auto simp: record_outcome_def Let_def world_keeps_def append_history_keeps split: sum.splits intro: grows_one)

lemma cleanup_keeps: "world_keeps v w (snd (cleanup_orphaned_durable v ops p h now w))"
  by (auto simp: cleanup_orphaned_durable_def world_keeps_def append_history_keeps split: option.splits sum.splits prod.splits)

definition row_approved :: "int \<Rightarrow> outbox_db \<Rightarrow> bool" where
  "row_approved i db \<longleftrightarrow> (\<forall>r. find_approval i db = Some r \<longrightarrow> status r = ''approved'')"

lemma record_phase_keeps:
  assumes "row_approved (aq_id row) (w_outbox w)" and "h \<noteq> []"
  shows "world_keeps v w (snd (record_phase v ops p b wid h row now w))"
proof -
  let ?r = "record_final (aq_id row) wid h (memory_event_id row) now (w_outbox w)"
  obtain x db where r: "?r = (x, db)" by (cases ?r)
  have "keeps_queue v (w_outbox w) db"
    using record_final_keeps [of v "w_outbox w" "aq_id row" h wid "memory_event_id row" now] assms r
    by (simp add: keeps_queue_def row_approved_def)
  then have k: "world_keeps v w (w\<lparr>w_outbox := db\<rparr>)" by (rule world_keeps_parts(2))
  show ?thesis
    using k world_keeps_trans [OF k record_outcome_keeps] world_keeps_trans [OF k cleanup_keeps]
    by (auto simp: record_phase_def r Let_def split: sum.splits prod.splits)
qed

lemma finish_claimed_keeps:
  assumes "row_approved (aq_id row) (w_outbox w)"
  shows "world_keeps v w (snd (finish_claimed v factory prof via wid clk row d w))"
proof -
  have f: "world_keeps v w (snd (failing i wid m (w\<lparr>w_store := s\<rparr>)))" for i m s
    using failing_keeps [of v "w\<lparr>w_store := s\<rparr>" i wid m] by simp
  have r: "some_text h = Some t \<Longrightarrow>
    world_keeps v w (snd (record_phase v ops p b wid t row now (w\<lparr>w_store := s\<rparr>)))" for h t ops p b now s
    using record_phase_keeps [of row "w\<lparr>w_store := s\<rparr>" t v ops p b wid now] assms
    by (auto simp: some_text_def split: option.splits list.splits)
  show ?thesis
    unfolding finish_claimed_def Let_def
    by (auto split: sum.splits option.splits bool.splits prod.splits simp: failing_keeps f r simp del: One_nat_def)
qed

lemma finalize_keeps: "world_keeps v w (snd (finalize_approved_candidate v approvers factory prof expected wid clk i w))"
proof -
  let ?via = "given_or expected (expected_approved_via v)"
  obtain c db where c: "claim_candidate v approvers ?via wid (clk 0) i (w_outbox w) (w_audit w) = (c, db)"
    by (cases "claim_candidate v approvers ?via wid (clk 0) i (w_outbox w) (w_audit w)")
  have k: "world_keeps v w (w\<lparr>w_outbox := db\<rparr>)"
    using claim_keeps [where v = v and ap = approvers and via = ?via and wid = wid and now = "clk 0" and i = i
      and db = "w_outbox w" and au = "w_audit w"] c by (intro world_keeps_parts(2)) simp
  have f: "world_keeps v w (snd (finish_claimed v factory prof ?via wid clk row d (w\<lparr>w_outbox := db\<rparr>)))"
    if "c = Inr (Claimed row d)" for row d
  proof (rule world_keeps_trans [OF k finish_claimed_keeps])
    note a = after_claim [OF c [unfolded that]] and s = claim_cases [OF c [unfolded that]]
    show "row_approved (aq_id row) (w_outbox (w\<lparr>w_outbox := db\<rparr>))"
      using a s by (simp add: row_approved_def)
  qed
  show ?thesis
    using k f by (auto simp: finalize_approved_candidate_def Let_def c split: sum.splits claim.splits)
qed

lemma redrive_all_keeps: "world_keeps v w (snd (redrive_all v approvers factory prof via wid clk is w))"
proof (induction "is" arbitrary: w)
  case (Cons i "is")
  obtain r w1 where f: "finalize_approved_candidate v approvers factory prof (Some via) wid (clk (length is)) i w = (r, w1)"
    by (cases "finalize_approved_candidate v approvers factory prof (Some via) wid (clk (length is)) i w")
  have "world_keeps v w w1"
    using finalize_keeps [where v = v and w = w and approvers = approvers and factory = factory and prof = prof and
      expected = "Some via" and wid = wid and clk = "clk (length is)" and i = i] f by simp
  with Cons.IH [of w1] show ?case by (simp add: f split: prod.splits) (metis snd_conv world_keeps_trans)
qed simp

lemma redrive_keeps: "world_keeps v w (snd (redrive_pending_finalizations v approvers factory prof expected wid now clk w))"
proof -
  have "snd (redrive_pending_finalizations v approvers factory prof expected wid now clk w) = w \<or>
    (\<exists>via is. snd (redrive_pending_finalizations v approvers factory prof expected wid now clk w) =
       snd (redrive_all v approvers factory prof via wid clk is w))"
    by (auto simp: redrive_pending_finalizations_def Let_def split: sum.splits prod.splits) (metis snd_conv)+
  then show ?thesis by (metis world_keeps_refl redrive_all_keeps)
qed

lemma audit_refused_grows: "grows (sha256_hex v) au (audit_refused v ac action i reason now au)"
  by (auto simp: audit_refused_def split: sum.splits intro: grows_one)

lemma append_decision_grows: "append_decision v ac dec i who via sha proposer now au = (r, au') \<Longrightarrow> grows (sha256_hex v) au au'"
  using append_decision_log [of v ac dec i who via sha proposer now au r au'] by (auto intro: grows_one)

text \<open>The successful path of \<open>approve\<close> up to the finalizer, and the worlds the other paths leave.\<close>

lemma approve_cases:
  assumes "approve v fs t credential ac factory prof wid clk i w = (res, w')"
  obtains (stopped) "w_outbox w' = w_outbox w" "w_store w' = w_store w" "grows (sha256_hex v) (w_audit w) (w_audit w')"
      "\<not> is_ok res"
    | (decided) who cand col n h au m db where
      "verify_approver fs t v credential = Inr who" "get_approval_candidate i (w_outbox w) = Inr (Some (cand, col))"
      "append_decision v ac ''approve'' i who (stamp_provenance t) (Some (candidate_fingerprint v cand))
         (proposed_by_profile (map_option JStr col)) (clk 0) (w_audit w) = (Inr (n, h), au)"
      "mcp_approve_or_redrive v i (stamp_provenance t) who n h (candidate_fingerprint v cand) (clk 1) (w_outbox w) = Inr (m, db)"
      "w' = snd (finalize_approved_candidate v (authorized_approvers (appr v)) factory prof (Some (stamp_provenance t)) wid
         (\<lambda>k. clk (k + 2)) i (w\<lparr>w_audit := au, w_outbox := db\<rparr>))"
proof -
  note a = assms [unfolded approve_def Let_def]
  show ?thesis
  proof (cases "verify_approver fs t v credential")
    case (Inl e)
    then show ?thesis using a audit_refused_grows by (intro stopped) (auto simp: is_ok_def)
  next
    case who: (Inr who)
    show ?thesis
    proof (cases "\<exists>cand col. get_approval_candidate i (w_outbox w) = Inr (Some (cand, col))")
      case False
      then show ?thesis using a who audit_refused_grows
        by (intro stopped) (auto simp: is_ok_def split: sum.splits option.splits)
    next
      case True
      then obtain cand col where c: "get_approval_candidate i (w_outbox w) = Inr (Some (cand, col))" by blast
      obtain r au where ap: "append_decision v ac ''approve'' i who (stamp_provenance t) (Some (candidate_fingerprint v cand))
         (proposed_by_profile (map_option JStr col)) (clk 0) (w_audit w) = (r, au)" by force
      note g = append_decision_grows [OF ap]
      show ?thesis
      proof (cases r)
        case (Inl e)
        then show ?thesis using a who c ap g by (intro stopped) (auto simp: is_ok_def)
      next
        case (Inr nh)
        obtain n h where nh: "nh = (n, h)" by (cases nh)
        show ?thesis
        proof (cases "mcp_approve_or_redrive v i (stamp_provenance t) who n h (candidate_fingerprint v cand) (clk 1) (w_outbox w)")
          case (Inl e)
          then show ?thesis using a who c ap \<open>r = _\<close> nh g by (intro stopped) (auto simp: is_ok_def)
        next
          case m: (Inr md)
          obtain m db where md: "md = (m, db)" by (cases md)
          let ?f = "finalize_approved_candidate v (authorized_approvers (appr v)) factory prof (Some (stamp_provenance t)) wid
             (\<lambda>k. clk (k + 2)) i (w\<lparr>w_audit := au, w_outbox := db\<rparr>)"
          have "w' = snd ?f"
            using a who c ap Inr nh m md by (cases ?f) (auto split: sum.splits option.splits)
          then show ?thesis using who c ap Inr nh m md by (intro decided) simp_all
        qed
      qed
    qed
  qed
qed

lemma mcp_keeps:
  assumes "mcp_approve_or_redrive v i via by' n h sha now db = Inr (m, db')"
  shows "keeps_queue v db db'"
  by (rule approve_service_keeps [OF assms])

lemma approve_keeps: "world_keeps v w (snd (approve v fs t credential ac factory prof wid clk i w))"
proof (cases "approve v fs t credential ac factory prof wid clk i w")
  case (Pair res w')
  then show ?thesis
  proof (cases rule: approve_cases)
    case stopped
    then show ?thesis using Pair by (simp add: world_keeps_def)
  next
    case (decided who cand col n h au m db)
    have "world_keeps v w (w\<lparr>w_audit := au, w_outbox := db\<rparr>)"
      using mcp_keeps [OF decided(4)] append_decision_grows [OF decided(3)] by (simp add: world_keeps_def)
    from world_keeps_trans [OF this finalize_keeps] show ?thesis unfolding Pair decided(5) snd_conv .
  qed
qed

lemma reject_keeps: "world_keeps v w (snd (reject v fs t credential ac clk i w))"
proof (cases "verify_approver fs t v credential")
  case (Inl e)
  then show ?thesis by (simp add: reject_def world_keeps_def audit_refused_grows)
next
  case (Inr who)
  obtain r au where ap: "append_decision v ac ''reject'' i who (stamp_provenance t) None None (clk 0) (w_audit w) = (r, au)"
    by force
  note g = append_decision_grows [OF ap]
  show ?thesis
    using Inr ap g update_status_keeps [of v i "''rejected''" "Some who" "clk 1" "w_outbox w"]
    by (auto simp: reject_def Let_def world_keeps_def split: sum.splits prod.splits)
qed

lemma list_keeps: "world_keeps v w (snd (list_pending v fs t credential ac limit now w))"
  by (auto simp: list_pending_def Let_def world_keeps_def split: sum.splits prod.splits intro: grows_one audit_refused_grows)

definition sample_context :: audit_context where
  "sample_context = \<lparr>ac_principal = \<lparr>pr_id = ''human:owner@local'', tenant_id = ''t_owner'', subject_id = ''owner'',
     actor_kind = ''human'', scopes = {}, roles = {}, root_flag = False, bg_token = None\<rparr>,
     ac_tenant = ''t_owner'', ac_source = ''cli'', ac_extra = []\<rparr>"

subsection \<open>Refusals\<close>

text \<open>A refused call changes nothing but the log, where it adds at most one record of the refusal.\<close>

definition refusal_only :: "'s world \<Rightarrow> 's world \<Rightarrow> bool" where
  "refusal_only w w' \<longleftrightarrow> w_outbox w' = w_outbox w \<and> w_store w' = w_store w \<and>
     (w_audit w' = w_audit w \<or>
      (\<exists>r. audit_rows (w_audit w') = audit_rows (w_audit w) @ [r] \<and> op r = ''approval_refused''))"

lemma audit_refused_only: "refusal_only w (w\<lparr>w_audit := audit_refused v ac action i reason now (w_audit w)\<rparr>)"
  by (auto simp: refusal_only_def audit_refused_def audit_write_iff split: sum.splits)

lemma verify_approver_refuses:
  assumes "\<forall>c who. credential = Some c \<and> verify_presser fs t c = Some who \<longrightarrow> who \<notin> set (authorized_approvers (appr v))"
  shows "\<exists>m. verify_approver fs t v credential = Inl (ApprovalAuthError m)"
  using assms by (auto simp: verify_approver_def split: option.splits)



lemma append_decision_down: "\<not> audit_up au \<Longrightarrow> \<exists>e. append_decision v ac dec i who via sha proposer now au = (Inl e, au)"
  by (auto simp: append_decision_def audit_write_def audit_connect_def split: sum.splits)

lemma audit_refused_down: "\<not> audit_up au \<Longrightarrow> audit_refused v ac action i reason now au = au"
  by (auto simp: audit_refused_def audit_write_def audit_connect_def split: sum.splits)

text \<open>
  C8: the service fails closed.  While the log cannot be written, no call decides anything: approving,
  rejecting and listing fail and leave queue, log and store exactly as they were, so no pending
  candidate is even disclosed.
\<close>

theorem audit_down_fails_closed:
  assumes "\<not> audit_up (w_audit w)"
  shows "(\<exists>e. approve v fs t credential ac factory prof wid clk i w = (Inl e, w)) \<and>
    (\<exists>e. reject v fs t credential ac clk i w = (Inl e, w)) \<and>
    (\<exists>e. list_pending v fs t credential ac limit now w = (Inl e, w))"
proof (intro conjI)
  note d = append_decision_down [OF assms] audit_refused_down [OF assms]
  show "\<exists>e. approve v fs t credential ac factory prof wid clk i w = (Inl e, w)"
  proof (cases "verify_approver fs t v credential")
    case (Inr who)
    have "\<exists>e. (case append_decision v ac ''approve'' i who via sha p (clk 0) (w_audit w) of (Inl e, au) \<Rightarrow> (Inl e, w\<lparr>w_audit := au\<rparr>)
        | (Inr (n, h), au) \<Rightarrow> f n h au) = (Inl e, w)" for via sha p and f :: "int \<Rightarrow> string \<Rightarrow> audit_db \<Rightarrow> approve_outcome res \<times> _"
      using d(1) [of v ac "''approve''" i who via sha p "clk 0"] by auto
    then show ?thesis using Inr d(2) by (auto simp: approve_def Let_def split: sum.splits option.splits)
  qed (simp add: approve_def d(2))
  show "\<exists>e. reject v fs t credential ac clk i w = (Inl e, w)"
  proof (cases "verify_approver fs t v credential")
    case (Inr who)
    then show ?thesis
      using d(1) [of v ac "''reject''" i who "stamp_provenance t" None None "clk 0"] by (auto simp: reject_def)
  qed (simp add: reject_def d(2))
  show "\<exists>e. list_pending v fs t credential ac limit now w = (Inl e, w)"
    using assms d(2)
    by (auto simp: list_pending_def audit_write_def audit_connect_def Let_def split: sum.splits)
qed

lemma audit_down_fails_closed_witness:
  "\<exists>e (w :: string list world). \<not> audit_up (w_audit w) \<and>
     list_pending sample_env (\<lambda>_. Some (384, ''secret'')) (LocalCliApprovalTransport ''t'' 384) (Some ''secret'')
      sample_context None 5 w = (Inl e, w)"
proof -
  let ?w = "sample_world\<lparr>w_audit := \<lparr>audit_rows = [], audit_up = False\<rparr>\<rparr>"
  have n: "\<not> audit_up (w_audit ?w)" by simp
  from audit_down_fails_closed [OF n] obtain e where "list_pending sample_env (\<lambda>_. Some (384, ''secret''))
      (LocalCliApprovalTransport ''t'' 384) (Some ''secret'') sample_context None 5 ?w = (Inl e, ?w)"
    by blast
  with n show ?thesis by blast
qed

subsection \<open>Decisions are recorded first\<close>

lemma approved_row_evolves:
  assumes "outbox_ok v db" and "evolves db db'" and "find_approval i db = Some r" and "find_approval i db' = Some r'"
    and "attests v r au x d" and "status r = ''approved''" and "row_ok v r" and "approved_via r \<noteq> None"
  shows "attests v r' au x d \<and> approved_by r' = approved_by r \<and> approved_via r' = approved_via r"
proof -
  have st: "row_step r r'" by (rule evolves_row [OF assms(1-4)])
  have q: "audit_receipt_seq r \<noteq> None" using assms(5) by (auto simp: attests_def)
  show ?thesis using st q assms(5,8) unfolding row_step_def attests_def by (elim conjE) (intro conjI, simp_all)
qed

text \<open>
  C3: whatever the service approves is attested.  If a call of \<open>approve\<close> leaves a row approved that was
  not approved before, then the caller's credential named an authorized approver, the row carries that
  approver and the transport's stamp, and the log it leaves verifies a decision record that attests
  exactly this row; this holds also when the finalization afterwards fails.
\<close>

theorem approve_leaves_receipt:
  assumes "approve v fs t credential ac factory prof wid clk i w = (res, w')"
    and "outbox_ok v (w_outbox w)" and "intact (sha256_hex v) (audit_rows (w_audit w))"
    and "extra_ok ac" and "ac_tenant ac = default_tenant_id (ident v)"
    and "find_approval i (w_outbox w) = Some row" and "status row \<noteq> ''approved''"
    and "find_approval i (w_outbox w') = Some row'" and "status row' = ''approved''"
  shows "\<exists>who r d. verify_approver fs t v credential = Inr who \<and> approved_by row' = Some who \<and>
    approved_via row' = Some (stamp_provenance t) \<and> attests v row' (w_audit w') r d"
  using assms(1)
proof (cases rule: approve_cases)
  case stopped
  then show ?thesis using assms(6-9) by simp
next
  case (decided who cand col n h au m db)
  let ?via = "stamp_provenance t" and ?sha = "candidate_fingerprint v (candidate_json row)"
  have cand: "cand = candidate_json row"
    using decided(2) assms(6) by (auto simp: get_approval_candidate_def rbind_Inr_iff)
  let ?e = "decision_entry ac ''approve'' i who ?via (Some ?sha) (proposed_by_profile (map_option JStr col)) (clk 0)"
  obtain wr: "audit_write (sha256_hex v) ?e (w_audit w) = Inr (n, au)"
    and h: "h = this_hash (new_row (sha256_hex v) ?e (audit_rows (w_audit w)))"
    using decided(3) row_hash_new [OF assms(3)] unfolding cand append_decision_def
    by (auto split: sum.splits prod.splits simp: rbind_Inr_iff)
  have ms: "m = Stamped"
    using approve_service_cases [OF decided(4)] assms(6,7) unfolding cand by (cases m) auto
  have m: "m = Stamped" "find_approval i db = Some (stamp_row (service_stamp ?via who n h ?sha) (clk 1) (next_event (w_outbox w)) row)"
    using approve_service_cases [OF decided(4)] assms(6,7) unfolding cand ms by auto
  let ?row = "stamp_row (service_stamp ?via who n h ?sha) (clk 1) (next_event (w_outbox w)) row"
  have i: "aq_id row = i" using assms(6) by (auto simp: find_approval_def dest: find_row_SomeD)
  have dec: "decides v ?row ?e"
    using decision_entry_decides [OF assms(4,5), where row = ?row and i = i and who = who and via = ?via] i
    by (simp add: stamp_row_def service_stamp_def)
  have "receipted v n h ?row" by (simp add: receipted_def stamp_row_def service_stamp_def)
  then obtain d where d: "attests v ?row au (new_row (sha256_hex v) ?e (audit_rows (w_audit w))) d"
    using receipt_attests [OF assms(3) wr dec] unfolding h by blast
  have k: "keeps_queue v (w_outbox w) db" by (rule mcp_keeps [OF decided(4)])
  then have ok: "outbox_ok v db" using assms(2) by (simp add: keeps_queue_def)
  have fk: "world_keeps v (w\<lparr>w_audit := au, w_outbox := db\<rparr>) w'" unfolding decided(5) by (rule finalize_keeps)
  then have ev: "evolves db (w_outbox w')" and g: "grows (sha256_hex v) au (w_audit w')"
    using ok by (simp_all add: world_keeps_def keeps_queue_def)
  have "attests v row' au (new_row (sha256_hex v) ?e (audit_rows (w_audit w))) d \<and>
      approved_by row' = approved_by ?row \<and> approved_via row' = approved_via ?row"
    by (rule approved_row_evolves [OF ok ev m(2) assms(8) d])
      (use find_approval_ok [OF ok m(2)] in \<open>simp_all add: stamp_row_def service_stamp_def\<close>)
  then have "attests v row' (w_audit w') (new_row (sha256_hex v) ?e (audit_rows (w_audit w))) d"
      "approved_by row' = Some who" "approved_via row' = Some ?via"
    using grows_attests [OF g] by (simp_all add: stamp_row_def service_stamp_def)
  with decided(1) show ?thesis by blast
qed

subsection \<open>Examples\<close>

definition sample_pending :: "string list world" where
  "sample_pending = \<lparr>w_outbox = sample_outbox, w_audit = \<lparr>audit_rows = [], audit_up = True\<rparr>, w_store = []\<rparr>"

definition sample_files :: token_fs where
  "sample_files = (\<lambda>_. Some (384, ''secret''))"

definition sample_channel :: transport where
  "sample_channel = LocalCliApprovalTransport ''t'' 384"

lemma sample_pending_row: "find_approval 1 (w_outbox sample_pending) = Some (queued_row ''agent'' [] 1 0)"
  by (simp add: sample_pending_def sample_outbox_def find_approval_def queued_row_def)

lemma sample_presser: "verify_presser sample_files sample_channel ''secret'' = Some ''local_cli:owner''"
  by code_simp

lemma sample_hex: "hex_digest (sha256_hex sample_env)"
proof -
  have "length (hex64 []) = 64 \<and> list_all is_hex_char (hex64 [])" by code_simp
  then show ?thesis unfolding hex_digest_def sample_env_simps using hex64_any by metis
qed

lemma queued_fields: "status (queued_row p c i now) = ''pending_approval''" "finalizer_state (queued_row p c i now) = None"
  "candidate_json (queued_row p c i now) = dumps (JObj c)" "proposed_by_col (queued_row p c i now) = Some p"
  by (simp_all add: queued_row_def)

lemma sample_pending_ready:
  "\<exists>p b. principal_default_for_profile (ident sample_env) (prof_name sample_profile) (tenant_scope sample_profile) = Inr p \<and>
     reconstruct_durable_payload sample_env (candidate_json (queued_row ''agent'' [] 1 0)) (approval_ref 1) 1
       (Some (stamp_provenance sample_channel))
       (proposed_by_profile (map_option JStr (proposed_by_col (queued_row ''agent'' [] 1 0)))) (int 3) = Inr b \<and>
     admits sample_env sample_profile b"
proof -
  have via: "stamp_provenance sample_channel = ''local_cli''" by (simp add: sample_channel_def)
  show ?thesis
    unfolding queued_fields via using sample_principal
      sample_payload [of "proposed_by_profile (map_option JStr (Some ''agent''))" "int 3"] by blast
qed

lemma sample_pending_ok:
  "''local_cli:owner'' \<in> set (authorized_approvers (appr sample_env))"
  "intact (sha256_hex sample_env) (audit_rows (w_audit sample_pending))"
  "audit_up (w_audit sample_pending)" "outbox_up (w_outbox sample_pending)" "extra_ok sample_context"
  "ac_tenant sample_context = default_tenant_id (ident sample_env)"
  "dget (ac_extra sample_context) ''proposed_by_profile'' = None"
  "outbox_ok sample_env (w_outbox sample_pending)"
  "add_memory sample_ops wg rm c md cv (w_store sample_pending) = (Inr ''h1'', [c])"
  by (simp_all add: sample_env_def sample_pending_def intact_def sample_outbox_def extra_ok_def sample_context_def sample_ops_def)
    (simp_all add: sample_identity_def sample_outbox_ok [unfolded sample_outbox_def])

lemma approve_end_to_end_witness:
  "\<exists>w'. approve sample_env sample_files sample_channel (Some ''secret'') sample_context (Inr sample_ops) (Inr sample_profile) ''w'' int 1
      sample_pending = (Inr \<lparr>out_durable_id = ''h1'', out_retried = False\<rparr>, w') \<and> w_store w' \<noteq> []"
proof -
  obtain p b where r: "principal_default_for_profile (ident sample_env) (prof_name sample_profile) (tenant_scope sample_profile) = Inr p"
      "reconstruct_durable_payload sample_env (candidate_json (queued_row ''agent'' [] 1 0)) (approval_ref 1) 1
       (Some (stamp_provenance sample_channel))
       (proposed_by_profile (map_option JStr (proposed_by_col (queued_row ''agent'' [] 1 0)))) (int 3) = Inr b"
      "admits sample_env sample_profile b"
    using sample_pending_ready by blast
  note t = approve_end_to_end [where clk = int and wid = "''w''", OF sample_presser sample_pending_ok(1-4) sample_hex sample_pending_ok(5-7) sample_pending_row
      _ _ r sample_pending_ok(9)]
  show ?thesis using t by (auto simp: queued_fields)
qed

lemma sample_approved:
  "\<exists>w' row'. approve sample_env sample_files sample_channel (Some ''secret'') sample_context (Inr sample_ops) (Inr sample_profile) ''w'' int 1
      sample_pending = (Inr \<lparr>out_durable_id = ''h1'', out_retried = False\<rparr>, w') \<and>
     find_approval 1 (w_outbox w') = Some row' \<and> finalizer_state row' = Some ''finalized'' \<and> w_store w' \<noteq> []"
proof -
  obtain p b where r: "principal_default_for_profile (ident sample_env) (prof_name sample_profile) (tenant_scope sample_profile) = Inr p"
      "reconstruct_durable_payload sample_env (candidate_json (queued_row ''agent'' [] 1 0)) (approval_ref 1) 1
       (Some (stamp_provenance sample_channel))
       (proposed_by_profile (map_option JStr (proposed_by_col (queued_row ''agent'' [] 1 0)))) (int 3) = Inr b"
      "admits sample_env sample_profile b"
    using sample_pending_ready by blast
  note t = approve_completing [where clk = int and wid = "''w''", OF sample_presser sample_pending_ok(1-4) sample_hex sample_pending_ok(5-7) sample_pending_row
      _ _ r sample_pending_ok(9)]
  show ?thesis using t by (auto simp: queued_fields)
qed

lemma approve_leaves_receipt_witness:
  "\<exists>w' row' r d. approve sample_env sample_files sample_channel (Some ''secret'') sample_context (Inr sample_ops) (Inr sample_profile)
      ''w'' int 1 sample_pending = (Inr \<lparr>out_durable_id = ''h1'', out_retried = False\<rparr>, w') \<and>
     find_approval 1 (w_outbox w') = Some row' \<and> attests sample_env row' (w_audit w') r d"
proof -
  obtain w' row' where a: "approve sample_env sample_files sample_channel (Some ''secret'') sample_context (Inr sample_ops)
      (Inr sample_profile) ''w'' int 1 sample_pending = (Inr \<lparr>out_durable_id = ''h1'', out_retried = False\<rparr>, w')"
    and f: "find_approval 1 (w_outbox w') = Some row'" "finalizer_state row' = Some ''finalized''"
    using sample_approved by blast
  have "outbox_ok sample_env (w_outbox w')"
    using approve_keeps [of sample_env sample_pending sample_files sample_channel "Some ''secret''" sample_context "Inr sample_ops"
      "Inr sample_profile" "''w''" int 1] a sample_pending_ok(8) by (simp add: world_keeps_def keeps_queue_def)
  then have st: "status row' = ''approved''" using find_approval_ok [OF _ f(1)] f(2) by (auto simp: row_ok_def)
  have p: "status (queued_row ''agent'' [] 1 0) \<noteq> ''approved''" by (simp add: queued_fields)
  from approve_leaves_receipt [OF a sample_pending_ok(8,2,5,6) sample_pending_row p f(1) st] a f(1) show ?thesis by blast
qed

subsection \<open>Rejection\<close>

lemma update_status_row:
  assumes "outbox_ok v db" and "update_approval_status v i ''rejected'' (Some who) now db = Inr (changed, db')" and "who \<noteq> []"
  shows "(changed = 0 \<longrightarrow> approvals db' = approvals db) \<and>
    (changed \<noteq> 0 \<longrightarrow> (\<exists>r. find_approval i db = Some r \<and> undecided r \<and>
       find_approval i db' = Some (r\<lparr>status := ''rejected'', responded_at := Some now, decided_by := Some who, last_error := None\<rparr>))) \<and>
    (\<forall>j. j \<noteq> i \<longrightarrow> find_approval j db' = find_approval j db)"
proof -
  let ?hit = "\<lambda>r. aq_id r = i \<and> undecided r"
  let ?f = "\<lambda>r. r\<lparr>status := ''rejected'', responded_at := Some now, decided_by := Some who, last_error := None\<rparr>"
  have g: "given_or (Some who) d = who" for d using assms(3) by (simp add: given_or_def)
  have u: "changed = count_where ?hit (approvals db)" "approvals db' = update_where ?hit ?f (approvals db)"
    using assms(2) by (auto simp: update_approval_status_def rbind_Inr_iff Let_def g split: if_splits)
  have find: "find_approval j db' = map_option (\<lambda>r. if ?hit r then ?f r else r) (find_approval j db)" for j
    unfolding find_approval_def u(2) by (rule find_row_update_where) simp
  have "\<exists>r. find_approval i db = Some r \<and> undecided r \<and> find_approval i db' = Some (?f r)" if c: "changed \<noteq> 0"
  proof -
    obtain r where r: "r \<in> set (approvals db)" "aq_id r = i" "undecided r"
      using c unfolding u(1) count_where_def by (auto simp: filter_empty_conv)
    have "find_approval (aq_id r) db = Some r"
      unfolding find_approval_def by (rule find_row_distinct) (use assms(1) r(1) in \<open>simp_all add: outbox_ok_def\<close>)
    with r find [of i] show ?thesis by simp
  qed
  moreover have "approvals db' = approvals db" if "changed = 0"
  proof -
    have "\<forall>r\<in>set (approvals db). \<not> ?hit r" using that unfolding u(1) count_where_def by (simp add: filter_empty_conv)
    then show ?thesis unfolding u(2) update_where_def by (intro map_idI) auto
  qed
  moreover have "find_approval j db' = find_approval j db" if "j \<noteq> i" for j
  proof (cases "find_approval j db")
    case (Some r)
    then have "aq_id r = j" by (auto simp: find_approval_def dest: find_row_SomeD)
    with that find [of j] Some show ?thesis by simp
  qed (simp add: find)
  ultimately show ?thesis by blast
qed

lemma find_decision:
  assumes "entry_ok e" shows "\<exists>d. parse_details (new_row H e rows) = Inr (JObj d) \<and>
    (\<forall>k. dget d k = map_option canon (dget (e_details e) k))"
proof -
  obtain d where d: "canon (JObj (e_details e)) = JObj d" by simp
  have "distinct (map fst (e_details e))" using assms by (simp add: entry_ok_def)
  from dget_canon [OF this d] parse_details_new_row [OF assms, of H rows] d show ?thesis by auto
qed

text \<open>
  A rejection is recorded before it happens, and only an undecided row can be rejected.  Whenever
  the queue changes, the log has gained one record of the decision "reject" for this row; on success
  exactly that row, undecided before, becomes rejected in the authorized approver's name; on any
  failure no row changes.  The store is never touched.
\<close>

theorem reject_recorded:
  assumes "reject v fs t credential ac clk i w = (res, w')"
    and "outbox_ok v (w_outbox w)" and "extra_ok ac"
  shows "w_store w' = w_store w \<and>
    (\<forall>j. j \<noteq> i \<longrightarrow> find_approval j (w_outbox w') = find_approval j (w_outbox w)) \<and>
    (if res = Inr () then
       (\<exists>row who. find_approval i (w_outbox w) = Some row \<and> undecided row \<and> verify_approver fs t v credential = Inr who \<and>
          find_approval i (w_outbox w') = Some (row\<lparr>status := ''rejected'', responded_at := Some (clk 1),
            decided_by := Some who, last_error := None\<rparr>) \<and>
          (\<exists>r d. audit_rows (w_audit w') = audit_rows (w_audit w) @ [r] \<and> op r = ''approval_decision'' \<and>
             target_id r = Some (int_str i) \<and> parse_details r = Inr (JObj d) \<and>
             dget d ''decision'' = Some (JStr ''reject'') \<and> dget d ''approved_by'' = Some (JStr who)))
     else approvals (w_outbox w') = approvals (w_outbox w))"
proof (cases "verify_approver fs t v credential")
  case (Inl e)
  then show ?thesis using assms(1) by (auto simp: reject_def)
next
  case (Inr who)
  let ?e = "decision_entry ac ''reject'' i who (stamp_provenance t) None None (clk 0)"
  obtain x au where ap: "append_decision v ac ''reject'' i who (stamp_provenance t) None None (clk 0) (w_audit w) = (x, au)"
    by force
  show ?thesis
  proof (cases x)
    case Inl
    then show ?thesis using assms(1) Inr ap by (auto simp: reject_def)
  next
    case x: (Inr nh)
    have ok: "entry_ok ?e"
      using assms(3) service_details_jwf [of ac] decision_core_fields(2)
      by (simp add: entry_ok_def decision_entry_def extra_ok_def del: jwf.simps)
    obtain n where wr: "audit_write (sha256_hex v) ?e (w_audit w) = Inr (n, au)"
      using ap x by (auto simp: append_decision_def split: sum.splits prod.splits)
    let ?r = "new_row (sha256_hex v) ?e (audit_rows (w_audit w))"
    obtain d where d: "parse_details ?r = Inr (JObj d)" "\<forall>k. dget d k = map_option canon (dget (e_details ?e) k)"
      using find_decision [OF ok, of "sha256_hex v" "audit_rows (w_audit w)"] by blast
    have r: "audit_rows au = audit_rows (w_audit w) @ [?r]" "op ?r = ''approval_decision''" "target_id ?r = Some (int_str i)"
        "dget d ''decision'' = Some (JStr ''reject'')" "dget d ''approved_by'' = Some (JStr who)"
      using wr d(2) by (simp_all add: audit_write_iff decision_entry_details) (simp_all add: decision_entry_def)
    have who: "who \<noteq> []" using verify_approver_ok [OF Inr] by blast
    show ?thesis
    proof (cases "update_approval_status v i ''rejected'' (Some who) (clk 1) (w_outbox w)")
      case Inl
      then show ?thesis using assms(1) Inr ap x by (auto simp: reject_def Let_def)
    next
      case u: (Inr cd)
      obtain changed db where cd: "cd = (changed, db)" by (cases cd)
      note row = update_status_row [OF assms(2) u [unfolded cd] who]
      have w': "w' = w\<lparr>w_audit := au, w_outbox := db\<rparr>" "res = Inr () \<longleftrightarrow> changed \<noteq> 0"
        using assms(1) Inr ap x u cd by (auto simp: reject_def Let_def split: if_splits)
      show ?thesis unfolding w' using row Inr d(1) r by auto
    qed
  qed
qed

lemma reject_recorded_witness:
  "\<exists>w' row. reject sample_env sample_files sample_channel (Some ''secret'') sample_context int 1 sample_pending = (Inr (), w') \<and>
     find_approval 1 (w_outbox w') = Some row \<and> status row = ''rejected''"
proof -
  have ver: "verify_approver sample_files sample_channel sample_env (Some ''secret'') = Inr ''local_cli:owner''"
    using sample_presser sample_pending_ok(1) by (simp add: verify_approver_def)
  obtain n h au where ap: "append_decision sample_env sample_context ''reject'' 1 ''local_cli:owner'' (stamp_provenance sample_channel)
      None None (int 0) (w_audit sample_pending) = (Inr (n, h), au)"
    using append_decision_ok [OF sample_pending_ok(2,3)] by blast
  obtain c db where u: "update_approval_status sample_env 1 ''rejected'' (Some ''local_cli:owner'') (int 1) (w_outbox sample_pending) = Inr (c, db)" "c \<noteq> 0"
    by (simp add: update_approval_status_def outbox_connect_def sample_pending_ok(4) Let_def)
      (simp add: sample_pending_def sample_outbox_def count_where_def queued_fields queued_row_ok undecided_def approvable_statuses_def finalizer_unclaimed_def)
  obtain w' where rj: "reject sample_env sample_files sample_channel (Some ''secret'') sample_context int 1 sample_pending = (Inr (), w')"
    using ver ap u by (simp add: reject_def Let_def)
  from reject_recorded [OF rj sample_pending_ok(8,5)] rj show ?thesis by (auto split: if_splits)
qed

end
