(* ===== verification/Reader.thy ===== *)
theory Reader
  imports Complex_Main "HOL-Library.Product_Lexorder" "HOL-Library.Multiset" Approval_Queue
begin

text \<open>
  \<open>panella/reader.py\<close>: the read-side order of hits.  Rows are clustered by token overlap, the older dated rows of
  a cluster are demoted, the rest is ordered by a fused rank, and an optional scorer reorders inside the live and
  the demoted rows only.  A finite float is its rational value; \<open>rounded\<close> is the rounding of an exact result to a
  float, and reading numbers and dates from text are the other parameters of \<open>reader_env\<close>.
\<close>

subsection \<open>Configuration\<close>

definition or_default :: "'a option \<Rightarrow> 'a \<Rightarrow> 'a" where
  "or_default x d = (case x of None \<Rightarrow> d | Some y \<Rightarrow> y)"

record reader_env =
  getenv :: "string \<Rightarrow> string option"
  rounded :: "rat \<Rightarrow> rat"
  float_of :: "json \<Rightarrow> rat option option" \<comment> \<open>\<open>float(x)\<close>: raises, not finite, or a number\<close>
  iso_epoch :: "string \<Rightarrow> rat option" \<comment> \<open>\<open>datetime.fromisoformat\<close>, a naive time read as UTC\<close>

definition READERPP_TAU :: "reader_env \<Rightarrow> rat" where
  "READERPP_TAU re = rounded re (3 / 10)"

definition READERPP_RRF_K :: nat where
  "READERPP_RRF_K = 60"

definition DEFAULT_OVERFETCH :: int where
  "DEFAULT_OVERFETCH = 50"

definition MAX_OVERFETCH :: int where
  "MAX_OVERFETCH = 100"

definition env_value :: "reader_env \<Rightarrow> string \<Rightarrow> string" where
  "env_value re name = py_lower (py_strip (let x = given_or (getenv re name) [] in if x = [] then ''off'' else x))"

definition reader_enabled :: "reader_env \<Rightarrow> bool" where
  "reader_enabled re \<longleftrightarrow> env_value re ''PANELLA_READER'' = ''readerpp''"

definition overfetch_n :: "reader_env \<Rightarrow> int" where
  "overfetch_n re =
     (let raw = py_strip (given_or (getenv re ''PANELLA_READER_OVERFETCH'') []) in
      if raw = [] then DEFAULT_OVERFETCH
      else case text_int raw of None \<Rightarrow> DEFAULT_OVERFETCH
        | Some n \<Rightarrow> if n < 1 then DEFAULT_OVERFETCH else min n MAX_OVERFETCH)"

definition fetch_k :: "reader_env \<Rightarrow> int \<Rightarrow> bool \<Rightarrow> int" where
  "fetch_k re limit enabled = (if \<not> enabled then limit else max limit (overfetch_n re))"

subsection \<open>Similarity\<close>

text \<open>The maximal runs of characters that satisfy \<open>P\<close>.\<close>

fun runs :: "(char \<Rightarrow> bool) \<Rightarrow> string \<Rightarrow> string \<Rightarrow> string list" where
  "runs P acc [] = (if acc = [] then [] else [rev acc])"
| "runs P acc (c # cs) =
     (if P c then runs P (c # acc) cs else if acc = [] then runs P [] cs else rev acc # runs P [] cs)"

definition STOP :: "string list" where
  "STOP = runs (\<lambda>c. c \<noteq> CHR '' '') []
     (''the a an and or but if then so of to in on at for with from by as is am are was were be been '' @
      ''being i me my mine you your we our it its this that these those now currently use used using '' @
      ''have has had do did does just over again new my user'')"

definition content_body :: "string \<Rightarrow> string" where
  "content_body text =
     py_strip (if startswith ''[Session '' text then
                 (case dropWhile (\<lambda>c. c \<noteq> CHR '']'') (drop 9 text) of [] \<Rightarrow> text | _ # r \<Rightarrow> r)
               else text)"

definition token_char :: "char \<Rightarrow> bool" where
  "token_char c \<longleftrightarrow> is_digit c \<or> (let n = of_char c :: nat in 97 \<le> n \<and> n \<le> 122)"

definition content_tokens :: "string \<Rightarrow> string set" where
  "content_tokens text =
     set (filter (\<lambda>t. 2 < length t \<and> t \<notin> set STOP) (runs token_char [] (py_lower (content_body text))))"

definition jaccard_sim :: "reader_env \<Rightarrow> string \<Rightarrow> string \<Rightarrow> rat" where
  "jaccard_sim re a b =
     (let ta = content_tokens a; tb = content_tokens b in
      if ta = {} \<or> tb = {} then 0 else rounded re (of_nat (card (ta \<inter> tb)) / of_nat (card (ta \<union> tb))))"

definition hit_content :: "dict \<Rightarrow> string" where
  "hit_content hit = (case dget hit ''content'' of Some (JStr s) \<Rightarrow> s | _ \<Rightarrow> [])"

subsection \<open>Recency\<close>

definition normalize_z :: "string \<Rightarrow> string" where
  "normalize_z text = concat (map (\<lambda>c. if c = CHR ''Z'' then ''+00:00'' else [c]) text)"

fun coerce_epoch :: "reader_env \<Rightarrow> json option \<Rightarrow> rat option" where
  "coerce_epoch re (Some (JInt i)) = or_default (float_of re (JInt i)) None"
| "coerce_epoch re (Some (JFloat x)) = or_default (float_of re (JFloat x)) None"
| "coerce_epoch re (Some (JStr s)) =
     (if py_strip s = [] then None
      else case float_of re (JStr (py_strip s)) of Some e \<Rightarrow> e | None \<Rightarrow> iso_epoch re (normalize_z (py_strip s)))"
| "coerce_epoch re _ = None"

definition row_epoch :: "reader_env \<Rightarrow> dict \<Rightarrow> rat option" where
  "row_epoch re hit =
     (case (case dget hit ''metadata'' of Some (JObj meta) \<Rightarrow> coerce_epoch re (dget meta ''source_last_timestamp'') | _ \<Rightarrow> None) of
        Some e \<Rightarrow> Some e
      | None \<Rightarrow> (case coerce_epoch re (dget hit ''created_at'') of
          Some e \<Rightarrow> Some e | None \<Rightarrow> coerce_epoch re (dget hit ''created_at_iso'')))"

subsection \<open>Clusters\<close>

text \<open>\<open>find\<close> with path halving; None is a loop that does not end.\<close>

partial_function (option) uf_find :: "nat list \<Rightarrow> nat \<Rightarrow> (nat \<times> nat list) option" where
  "uf_find parent x =
     (if parent ! x = x then Some (x, parent)
      else (let parent' = parent[x := parent ! (parent ! x)] in uf_find parent' (parent' ! x)))"

declare uf_find.simps [code]

text \<open>Joining the linked pairs, in order; \<open>find(j)\<close> runs before \<open>find(i)\<close>.\<close>

fun join_pairs :: "(nat \<Rightarrow> nat \<Rightarrow> bool) \<Rightarrow> (nat \<times> nat) list \<Rightarrow> nat list \<Rightarrow> nat list option" where
  "join_pairs linked [] parent = Some parent"
| "join_pairs linked ((i, j) # ps) parent =
     (if linked i j then
        (case uf_find parent j of None \<Rightarrow> None
         | Some (rj, parent) \<Rightarrow> (case uf_find parent i of None \<Rightarrow> None
             | Some (ri, parent) \<Rightarrow> join_pairs linked ps (parent[ri := rj])))
      else join_pairs linked ps parent)"

fun collect :: "nat list \<Rightarrow> nat list \<Rightarrow> (nat \<times> nat list) list \<Rightarrow> (nat \<times> nat list) list option" where
  "collect [] parent groups = Some groups"
| "collect (i # is) parent groups =
     (case uf_find parent i of None \<Rightarrow> None
      | Some (r, parent) \<Rightarrow> collect is parent (dset r (or_default (dget groups r) [] @ [i]) groups))"

definition all_pairs :: "nat \<Rightarrow> (nat \<times> nat) list" where
  "all_pairs n = concat (map (\<lambda>i. map (\<lambda>j. (i, j)) [i + 1..<n]) [0..<n])"

definition cluster_linked :: "(nat \<Rightarrow> nat \<Rightarrow> bool) \<Rightarrow> nat \<Rightarrow> nat list list option" where
  "cluster_linked linked n =
     (case join_pairs linked (all_pairs n) [0..<n] of None \<Rightarrow> None
      | Some parent \<Rightarrow> map_option (map snd) (collect [0..<n] parent []))"

definition cluster :: "(string \<Rightarrow> string \<Rightarrow> rat) \<Rightarrow> rat \<Rightarrow> dict list \<Rightarrow> nat list list option" where
  "cluster sim tau hits =
     (let bodies = map (\<lambda>h. content_body (hit_content h)) hits in
      cluster_linked (\<lambda>i j. sim (bodies ! i) (bodies ! j) \<ge> tau) (length hits))"

subsection \<open>The order\<close>

definition by_recency :: "rat option list \<Rightarrow> nat list" where
  "by_recency epochs =
     rev (sort_key (\<lambda>i. (epochs ! i \<noteq> None, or_default (epochs ! i) 0, - int i)) [0..<length epochs])"

definition position :: "nat list \<Rightarrow> nat \<Rightarrow> nat" where
  "position xs i = length (takeWhile (\<lambda>j. j \<noteq> i) xs)"

definition newest :: "rat option list \<Rightarrow> nat list \<Rightarrow> nat" where
  "newest epochs dated = last (sort_key (\<lambda>i. (the (epochs ! i), - int i)) dated)"

definition demoted_of :: "rat option list \<Rightarrow> nat list \<Rightarrow> nat list" where
  "demoted_of epochs cl =
     (let dated = filter (\<lambda>i. epochs ! i \<noteq> None) cl in
      if 2 \<le> length dated then filter (\<lambda>i. i \<noteq> newest epochs dated) dated else [])"

definition rrf :: "reader_env \<Rightarrow> nat \<Rightarrow> nat \<Rightarrow> nat \<Rightarrow> rat" where
  "rrf re rrf_k i r = rounded re (rounded re (1 / of_nat (rrf_k + i + 1)) + rounded re (1 / of_nat (rrf_k + r + 1)))"

definition readerpp_order ::
  "reader_env \<Rightarrow> (string \<Rightarrow> string \<Rightarrow> rat) \<Rightarrow> rat \<Rightarrow> nat \<Rightarrow> dict list \<Rightarrow> (nat list \<times> nat list) option" where
  "readerpp_order re sim tau rrf_k hits =
     (let epochs = map (row_epoch re) hits; rank = position (by_recency epochs) in
      map_option (\<lambda>clusters.
        let superseded = concat (map (demoted_of epochs) clusters)
        in (rev (sort_key (\<lambda>i. (i \<notin> set superseded, rrf re rrf_k i (rank i), - int i)) [0..<length hits]), superseded))
        (cluster sim tau hits))"

definition readerpp_select ::
  "reader_env \<Rightarrow> (string \<Rightarrow> string \<Rightarrow> rat) \<Rightarrow> rat \<Rightarrow> nat \<Rightarrow> dict list \<Rightarrow> int \<Rightarrow> dict list option" where
  "readerpp_select re sim tau rrf_k hits k =
     (if hits = [] then Some []
      else map_option (\<lambda>(order, _). map ((!) hits) (py_take k order)) (readerpp_order re sim tau rrf_k hits))"

subsection \<open>The scorer\<close>

type_synonym scorer = "string \<Rightarrow> string list \<Rightarrow> json res"

text \<open>The scores of a scorer that keeps its contract: a list of as many finite numbers as there are rows.\<close>

definition finite_score :: "reader_env \<Rightarrow> json \<Rightarrow> rat option" where
  "finite_score re x = (case float_of re x of Some (Some q) \<Rightarrow> Some q | _ \<Rightarrow> None)"

definition scores_of :: "reader_env \<Rightarrow> scorer \<Rightarrow> string \<Rightarrow> string list \<Rightarrow> rat list option" where
  "scores_of re scorer query contents =
     (case scorer query contents of
        Inr (JList xs) \<Rightarrow>
          if length xs = length contents \<and> list_all (\<lambda>x. finite_score re x \<noteq> None) xs
          then Some (map (\<lambda>x. the (finite_score re x)) xs) else None
      | _ \<Rightarrow> None)"

definition stratified :: "nat list \<Rightarrow> nat list \<Rightarrow> rat list \<Rightarrow> nat list" where
  "stratified order superseded scores =
     (let key = (\<lambda>p. (- (scores ! p), p)); ps = [0..<length order] in
      map ((!) order) (sort_key key (filter (\<lambda>p. order ! p \<notin> set superseded) ps) @
                       sort_key key (filter (\<lambda>p. order ! p \<in> set superseded) ps)))"

definition reader_select ::
  "reader_env \<Rightarrow> (string \<Rightarrow> string \<Rightarrow> rat) \<Rightarrow> rat \<Rightarrow> nat \<Rightarrow> scorer option \<Rightarrow> string \<Rightarrow> dict list \<Rightarrow> int \<Rightarrow> dict list option" where
  "reader_select re sim tau rrf_k scorer query hits k =
     (if hits = [] then Some []
      else map_option (\<lambda>(order, superseded).
        let final = (case scorer of None \<Rightarrow> order
              | Some f \<Rightarrow> (case scores_of re f query (map (\<lambda>i. hit_content (hits ! i)) order) of
                  None \<Rightarrow> order | Some scores \<Rightarrow> stratified order superseded scores))
        in map ((!) hits) (py_take k final)) (readerpp_order re sim tau rrf_k hits))"

text \<open>The process-wide scorers: loaded once per model, and a failed load is remembered.\<close>

record scorer_state =
  scorer_cache :: "(string \<times> scorer) list"
  scorer_failed :: "string list"

datatype scorer_mode = Off | Ok | Unavailable

definition DEFAULT_CROSS_ENCODER_MODEL :: string where
  "DEFAULT_CROSS_ENCODER_MODEL = ''cross-encoder/ms-marco-MiniLM-L-6-v2''"

definition reranker_on :: "reader_env \<Rightarrow> bool" where
  "reranker_on re \<longleftrightarrow> env_value re ''PANELLA_RERANKER'' = ''cross-encoder''"

definition resolve_scorer ::
  "reader_env \<Rightarrow> (string \<Rightarrow> scorer res) \<Rightarrow> scorer_state \<Rightarrow> (scorer option \<times> scorer_mode) \<times> scorer_state" where
  "resolve_scorer re load st =
     (if \<not> reranker_on re then ((None, Off), st)
      else
        (let named = py_strip (given_or (getenv re ''PANELLA_RERANKER_MODEL'') []);
             model = (if named = [] then DEFAULT_CROSS_ENCODER_MODEL else named) in
         if model \<in> set (scorer_failed st) then ((None, Unavailable), st)
         else case dget (scorer_cache st) model of
             Some f \<Rightarrow> ((Some f, Ok), st)
           | None \<Rightarrow> (case load model of
               Inl e \<Rightarrow> ((None, Unavailable), st\<lparr>scorer_failed := model # scorer_failed st\<rparr>)
             | Inr f \<Rightarrow> ((Some f, Ok), st\<lparr>scorer_cache := dset model f (scorer_cache st)\<rparr>))))"

subsection \<open>The parent array is a forest\<close>

text \<open>
  \<open>rep x\<close> is the representative of \<open>x\<close>, and the height \<open>h\<close>, at most \<open>B\<close>, grows along every parent link, so
  that a walk ends.
\<close>

definition forest :: "nat list \<Rightarrow> (nat \<Rightarrow> nat) \<Rightarrow> (nat \<Rightarrow> nat) \<Rightarrow> nat \<Rightarrow> bool" where
  "forest ps rep h B \<longleftrightarrow>
     (\<forall>x < length ps. ps ! x < length ps \<and> rep x < length ps \<and> ps ! rep x = rep x \<and> rep (ps ! x) = rep x \<and>
        (ps ! x = x \<longrightarrow> rep x = x) \<and> (ps ! x \<noteq> x \<longrightarrow> h x < h (ps ! x)) \<and> h x \<le> B)"

lemma forestD:
  assumes "forest ps rep h B" and "x < length ps"
  shows "ps ! x < length ps" "rep x < length ps" "ps ! rep x = rep x" "rep (ps ! x) = rep x" "ps ! x = x \<Longrightarrow> rep x = x"
    "ps ! x \<noteq> x \<Longrightarrow> h x < h (ps ! x)" "h x \<le> B"
  using assms by (simp_all add: forest_def)

lemma forest_root: "forest ps rep h B \<Longrightarrow> x < length ps \<Longrightarrow> rep (rep x) = rep x"
  using forestD(2,3,5) by metis

lemma forest_init: "forest [0..<n] (\<lambda>x. x) (\<lambda>x. 0) 0"
  by (simp add: forest_def)

lemma forest_halve:
  assumes f: "forest ps rep h B" and x: "x < length ps" and "ps ! x \<noteq> x"
  shows "forest (ps[x := ps ! (ps ! x)]) rep h B \<and> h x < h (ps ! (ps ! x)) \<and> ps ! (ps ! x) < length ps"
proof -
  let ?y = "ps ! x" and ?z = "ps ! (ps ! x)"
  have y: "?y < length ps" "h x < h ?y" using forestD [OF f x] assms(3) by auto
  have z: "?z < length ps" "h ?y \<le> h ?z" "rep ?z = rep x"
    using forestD [OF f y(1)] forestD(4) [OF f x] by (cases "?z = ?y"; simp)+
  have ne: "rep w \<noteq> x" if "w < length ps" for w using forestD(3) [OF f that] assms(3) by metis
  have "forest (ps[x := ?z]) rep h B"
    unfolding forest_def
  proof (intro allI impI)
    fix w assume w: "w < length (ps[x := ?z])"
    then have w': "w < length ps" by simp
    show "ps[x := ?z] ! w < length (ps[x := ?z]) \<and> rep w < length (ps[x := ?z]) \<and> ps[x := ?z] ! rep w = rep w \<and>
        rep (ps[x := ?z] ! w) = rep w \<and> (ps[x := ?z] ! w = w \<longrightarrow> rep w = w) \<and> (ps[x := ?z] ! w \<noteq> w \<longrightarrow> h w < h (ps[x := ?z] ! w)) \<and> h w \<le> B"
      using forestD [OF f w'] z y ne [OF w'] x by (cases "w = x") (auto simp: nth_list_update)
  qed
  with y z show ?thesis by auto
qed

text \<open>Finding returns the representative, and changes neither the representatives nor the heights.\<close>

lemma uf_find_root:
  assumes "forest ps rep h B" and "x < length ps"
  shows "\<exists>ps'. uf_find ps x = Some (rep x, ps') \<and> forest ps' rep h B \<and> length ps' = length ps"
  using assms
proof (induction "B - h x" arbitrary: ps x rule: less_induct)
  case less
  note f = less.prems
  show ?case
  proof (cases "ps ! x = x")
    case True
    with forestD(5) [OF f] f show ?thesis by (simp add: uf_find.simps)
  next
    case False
    let ?z = "ps ! (ps ! x)" and ?ps = "ps[x := ps ! (ps ! x)]"
    note half = forest_halve [OF f False]
    have "rep ?z = rep x" using forestD(4) [OF f] forestD(4) [OF f(1) forestD(1) [OF f]] by simp
    moreover have "B - h ?z < B - h x"
      using half forestD(7) [OF f(1), of ?z] by (intro diff_less_mono2) auto
    ultimately obtain ps' where "uf_find ?ps ?z = Some (rep x, ps')" "forest ps' rep h B" "length ps' = length ps"
      using less.hyps [of ?z ?ps] half by auto
    with False f(2) show ?thesis by (simp add: uf_find.simps [of ps x])
  qed
qed

text \<open>Linking two representatives.\<close>

definition join_rep :: "(nat \<Rightarrow> nat) \<Rightarrow> nat \<Rightarrow> nat \<Rightarrow> nat \<Rightarrow> nat" where
  "join_rep rep i j x = (if rep x = rep i then rep j else rep x)"

lemma forest_join:
  assumes f: "forest ps rep h B" and i: "i < length ps" and j: "j < length ps"
  shows "\<exists>h' B'. forest (ps[rep i := rep j]) (join_rep rep i j) h' B'"
proof (cases "rep i = rep j")
  case True
  then have "ps[rep i := rep j] = ps" using forestD(2,3) [OF f i] by (metis list_update_id)
  moreover have "join_rep rep i j = rep" using True by (auto simp: join_rep_def)
  ultimately show ?thesis using f by auto
next
  case False
  let ?h = "\<lambda>x. if rep x = rep j then h x + Suc B else h x"
  have rr: "rep (rep x) = rep x" if "x < length ps" for x using forest_root [OF f that] .
  have "forest (ps[rep i := rep j]) (join_rep rep i j) ?h (B + Suc B)"
    unfolding forest_def
  proof (intro allI impI)
    fix w assume "w < length (ps[rep i := rep j])"
    then have w: "w < length ps" by simp
    let ?ps = "ps[rep i := rep j]" and ?r = "join_rep rep i j"
    note fw = forestD [OF f w] and fi = forestD [OF f i] and fj = forestD [OF f j]
    show "?ps ! w < length ?ps \<and> ?r w < length ?ps \<and> ?ps ! ?r w = ?r w \<and> ?r (?ps ! w) = ?r w \<and> (?ps ! w = w \<longrightarrow> ?r w = w) \<and>
        (?ps ! w \<noteq> w \<longrightarrow> ?h w < ?h (?ps ! w)) \<and> ?h w \<le> B + Suc B"
    proof (cases "w = rep i")
      case True
      then have "?ps ! w = rep j" "?r w = rep j" "?ps ! rep j = rep j" using i fi fj rr [OF i] False
        by (auto simp: join_rep_def nth_list_update)
      moreover have "?r (rep j) = rep j" using rr [OF j] False by (simp add: join_rep_def)
      moreover have "h w \<le> B" "h (rep j) \<le> B" using fw(7) forestD(7) [OF f fj(2)] by simp_all
      ultimately show ?thesis using True fj False rr [OF i] rr [OF j] by auto
    next
      case ne: False
      then have p: "?ps ! w = ps ! w" by simp
      have "?ps ! ?r w = ?r w" using fw fi fj by (auto simp: join_rep_def nth_list_update)
      moreover have "?r (ps ! w) = ?r w" using fw(4) by (simp add: join_rep_def)
      moreover have "ps ! w = w \<longrightarrow> ?r w = w" using fw(5) ne by (auto simp: join_rep_def)
      moreover have "ps ! w \<noteq> w \<longrightarrow> ?h w < ?h (ps ! w)" using fw(4,6) by auto
      ultimately show ?thesis using p fw fj by (auto simp: join_rep_def)
    qed
  qed
  then show ?thesis by blast
qed

subsection \<open>Clusters are the connected components\<close>

definition symcl :: "(nat \<times> nat) set \<Rightarrow> (nat \<times> nat) set" where
  "symcl S = (S \<union> S\<inverse>)\<^sup>*"

lemma symcl_sym: "(x, y) \<in> symcl S \<Longrightarrow> (y, x) \<in> symcl S"
  unfolding symcl_def by (metis converse_Un converse_converse rtrancl_converseI sup_commute)

lemma symcl_mono: "S \<subseteq> T \<Longrightarrow> symcl S \<subseteq> symcl T"
  unfolding symcl_def by (intro rtrancl_mono) auto

lemma symcl_kernel:
  assumes "(a, b) \<in> symcl S" and "\<And>x y. (x, y) \<in> S \<Longrightarrow> f x = f y"
  shows "f a = f b"
  using assms(1) unfolding symcl_def by (induction rule: rtrancl_induct) (auto dest: assms(2))

text \<open>The representatives tell the components of the pairs joined so far.\<close>

definition represents :: "nat \<Rightarrow> (nat \<Rightarrow> nat) \<Rightarrow> (nat \<times> nat) set \<Rightarrow> bool" where
  "represents n rep S \<longleftrightarrow> (\<forall>x < n. \<forall>y < n. rep x = rep y \<longleftrightarrow> (x, y) \<in> symcl S)"

lemma represents_join:
  assumes "represents n rep S" and "S \<subseteq> {..<n} \<times> {..<n}" and "i < n" and "j < n"
  shows "represents n (join_rep rep i j) (insert (i, j) S)"
  unfolding represents_def
proof (intro allI impI iffI)
  fix x y assume xy: "x < n" "y < n"
  let ?T = "insert (i, j) S"
  have old: "rep a = rep b \<longleftrightarrow> (a, b) \<in> symcl S" if "a < n" "b < n" for a b
    using assms(1) that by (simp add: represents_def)
  { assume eq: "join_rep rep i j x = join_rep rep i j y"
    have up: "(a, b) \<in> symcl ?T" if "rep a = rep b" "a < n" "b < n" for a b
      using old that symcl_mono [of S ?T] by auto
    have ij: "(i, j) \<in> symcl ?T" by (auto simp: symcl_def)
    have tr: "(a, b) \<in> symcl ?T \<Longrightarrow> (b, d) \<in> symcl ?T \<Longrightarrow> (a, d) \<in> symcl ?T" for a b d
      by (auto simp: symcl_def)
    have "rep x = rep y \<or> rep x = rep i \<and> rep j = rep y \<or> rep y = rep i \<and> rep j = rep x"
      using eq by (auto simp: join_rep_def split: if_split_asm)
    then show "(x, y) \<in> symcl ?T"
      using up xy assms(3,4) ij symcl_sym [OF ij] tr by metis }
  { assume "(x, y) \<in> symcl ?T"
    moreover have "join_rep rep i j a = join_rep rep i j b" if "(a, b) \<in> ?T" for a b
    proof (cases "(a, b) \<in> S")
      case True
      then have "(a, b) \<in> symcl S" "a < n" "b < n" using assms(2) by (auto simp: symcl_def)
      with old [of a b] have "rep a = rep b" by simp
      then show ?thesis by (simp add: join_rep_def)
    next
      case False
      with that show ?thesis by (auto simp: join_rep_def)
    qed
    ultimately show "join_rep rep i j x = join_rep rep i j y" by (rule symcl_kernel) }
qed

lemma join_pairs_components:
  assumes "forest ps rep h B" and "represents (length ps) rep S" and "S \<subseteq> {..<length ps} \<times> {..<length ps}"
    and "set prs \<subseteq> {..<length ps} \<times> {..<length ps}"
  shows "\<exists>ps' rep' h' B'. join_pairs linked prs ps = Some ps' \<and> forest ps' rep' h' B' \<and> length ps' = length ps \<and>
    represents (length ps) rep' (S \<union> {(i, j) \<in> set prs. linked i j})"
  using assms
proof (induction prs arbitrary: ps rep h B S)
  case Nil
  then show ?case by auto
next
  case (Cons pr prs)
  obtain i j where pr: "pr = (i, j)" by (cases pr)
  have ij: "i < length ps" "j < length ps" using Cons.prems(4) pr by auto
  show ?case
  proof (cases "linked i j")
    case False
    then have "{(a, b) \<in> set (pr # prs). linked a b} = {(a, b) \<in> set prs. linked a b}" using pr by auto
    with Cons.IH [OF Cons.prems(1-3)] Cons.prems(4) False pr show ?thesis by simp
  next
    case True
    obtain ps1 where 1: "uf_find ps j = Some (rep j, ps1)" "forest ps1 rep h B" "length ps1 = length ps"
      using uf_find_root [OF Cons.prems(1) ij(2)] by blast
    obtain ps2 where 2: "uf_find ps1 i = Some (rep i, ps2)" "forest ps2 rep h B" "length ps2 = length ps"
      using uf_find_root [OF 1(2)] ij 1(3) by metis
    let ?ps = "ps2[rep i := rep j]" and ?S = "insert (i, j) S"
    obtain h' B' where f: "forest ?ps (join_rep rep i j) h' B'" using forest_join [OF 2(2)] ij 2(3) by metis
    have "represents (length ?ps) (join_rep rep i j) ?S" "?S \<subseteq> {..<length ?ps} \<times> {..<length ?ps}"
      "set prs \<subseteq> {..<length ?ps} \<times> {..<length ?ps}"
      using represents_join [OF Cons.prems(2,3) ij] Cons.prems(3,4) ij 2(3) by auto
    from Cons.IH [OF f this] obtain ps' rep' h'' B'' where
      "join_pairs linked prs ?ps = Some ps'" "forest ps' rep' h'' B''" "length ps' = length ps"
      "represents (length ps) rep' (?S \<union> {(i, j) \<in> set prs. linked i j})" using 2(3) by auto
    moreover have "?S \<union> {(i, j) \<in> set prs. linked i j} = S \<union> {(i, j) \<in> set (pr # prs). linked i j}" using pr True by auto
    ultimately show ?thesis using 1 2 True pr by auto
  qed
qed

text \<open>Collecting the groups: the members of a representative, in order.\<close>

definition grouped :: "(nat \<Rightarrow> nat) \<Rightarrow> nat list \<Rightarrow> (nat \<times> nat list) list \<Rightarrow> bool" where
  "grouped rep xs g \<longleftrightarrow> distinct (map fst g) \<and>
     (\<forall>r. dget g r = (let ys = filter (\<lambda>i. rep i = r) xs in if ys = [] then None else Some ys))"

lemma grouped_snoc:
  assumes "grouped rep xs g"
  shows "grouped rep (xs @ [i]) (dset (rep i) (or_default (dget g (rep i)) [] @ [i]) g)"
  using assms by (auto simp: grouped_def distinct_update update_conv' Let_def or_default_def)

lemma collect_grouped:
  assumes "forest ps rep h B" and "set is \<subseteq> {..<length ps}" and "grouped rep xs g"
  shows "\<exists>g'. collect is ps g = Some g' \<and> grouped rep (xs @ is) g'"
  using assms
proof (induction "is" arbitrary: ps xs g)
  case (Cons i "is")
  obtain ps' where "uf_find ps i = Some (rep i, ps')" "forest ps' rep h B" "length ps' = length ps"
    using uf_find_root [OF Cons.prems(1), of i] Cons.prems(2) by auto
  with Cons.IH [OF this(2) _ grouped_snoc [OF Cons.prems(3), of i]] Cons.prems(2) show ?case by simp
qed simp

text \<open>The components of the graph of the linked pairs among the first \<open>n\<close> rows.\<close>

definition linked_pairs :: "(nat \<Rightarrow> nat \<Rightarrow> bool) \<Rightarrow> nat \<Rightarrow> (nat \<times> nat) set" where
  "linked_pairs linked n = {(i, j). i < j \<and> j < n \<and> linked i j}"

lemma all_pairs_set: "set (all_pairs n) = {(i, j). i < j \<and> j < n}"
  by (auto simp: all_pairs_def image_iff intro!: bexI)

lemma cluster_linked_components:
  "\<exists>gs. cluster_linked linked n = Some gs \<and> distinct (concat gs) \<and> set (concat gs) = {..<n} \<and>
     (\<forall>g \<in> set gs. g \<noteq> [] \<and> sorted g \<and> (\<forall>i \<in> set g. set g = {j. j < n \<and> (i, j) \<in> symcl (linked_pairs linked n)}))"
proof -
  have rep0: "represents (length [0..<n]) (\<lambda>x. x) {}" by (simp add: represents_def symcl_def)
  have pairs_in: "set (all_pairs n) \<subseteq> {..<length [0..<n]} \<times> {..<length [0..<n]}" by (auto simp: all_pairs_set)
  obtain ps rep h B where ps: "join_pairs linked (all_pairs n) [0..<n] = Some ps" "forest ps rep h B" "length ps = n"
    and rep: "represents n rep ({} \<union> {(i, j) \<in> set (all_pairs n). linked i j})"
    using join_pairs_components [OF forest_init rep0 _ pairs_in, of linked] by auto
  have pairs: "{} \<union> {(i, j) \<in> set (all_pairs n). linked i j} = linked_pairs linked n"
    by (auto simp: all_pairs_set linked_pairs_def)
  obtain g where g: "collect [0..<n] ps [] = Some g" "grouped rep [0..<n] g"
  proof -
    have "grouped rep [] []" by (simp add: grouped_def)
    moreover have "set [0..<n] \<subseteq> {..<length ps}" using ps(3) by auto
    ultimately show ?thesis using collect_grouped [OF ps(2), of "[0..<n]" "[]" "[]"] that by auto
  qed
  have entry: "ys = filter (\<lambda>i. rep i = r) [0..<n] \<and> ys \<noteq> []" if "(r, ys) \<in> set g" for r ys
  proof -
    have "dget g r = Some ys" using that g(2) unfolding grouped_def by (intro map_of_is_SomeI) auto
    then show ?thesis using g(2) by (auto simp: grouped_def Let_def split: if_split_asm)
  qed
  have "distinct (concat (map snd g))"
  proof -
    have "distinct (map fst g)" using g(2) by (simp add: grouped_def)
    then show ?thesis using entry
    proof (induction g)
      case (Cons e g)
      obtain r ys where e: "e = (r, ys)" by (cases e)
      have "set ys \<inter> set zs = {}" if "(r', zs) \<in> set g" for r' zs
      proof -
        have "r' \<noteq> r" using Cons.prems(1) e that by force
        then show ?thesis using Cons.prems(2) [of r ys] Cons.prems(2) [of r' zs] e that by auto
      qed
      then have "set ys \<inter> set (concat (map snd g)) = {}" by fastforce
      moreover have "distinct ys" using Cons.prems(2) [of r ys] e by auto
      moreover have "distinct (concat (map snd g))"
      proof (rule Cons.IH)
        show "distinct (map fst g)" using Cons.prems(1) by simp
        show "zs = filter (\<lambda>i. rep i = r') [0..<n] \<and> zs \<noteq> []" if "(r', zs) \<in> set g" for r' zs
          by (rule Cons.prems(2)) (use that in simp)
      qed
      ultimately show ?case using e by simp
    qed simp
  qed
  moreover have "set (concat (map snd g)) = {..<n}"
  proof -
    have "i \<in> set (concat (map snd g))" if "i < n" for i
    proof -
      have "dget g (rep i) = Some (filter (\<lambda>j. rep j = rep i) [0..<n])" using g(2) that
        by (auto simp: grouped_def Let_def filter_empty_conv)
      from map_of_SomeD [OF this] have "filter (\<lambda>j. rep j = rep i) [0..<n] \<in> set (map snd g)" by force
      with that show ?thesis by force
    qed
    with entry show ?thesis by fastforce
  qed
  moreover have "\<forall>ys \<in> set (map snd g). ys \<noteq> [] \<and> sorted ys \<and>
      (\<forall>i \<in> set ys. set ys = {j. j < n \<and> (i, j) \<in> symcl (linked_pairs linked n)})"
  proof
    fix ys assume "ys \<in> set (map snd g)"
    then obtain r where "(r, ys) \<in> set g" by auto
    then have ys: "ys = filter (\<lambda>i. rep i = r) [0..<n]" "ys \<noteq> []" using entry by blast+
    have "set ys = {j. j < n \<and> (i, j) \<in> symcl (linked_pairs linked n)}" if "i \<in> set ys" for i
      using that ys(1) rep unfolding pairs represents_def by (auto intro: symcl_sym)
    moreover have "sorted ys" unfolding ys(1) by (simp add: sorted_filter [where f = "\<lambda>x. x", simplified])
    ultimately show "ys \<noteq> [] \<and> sorted ys \<and> (\<forall>i \<in> set ys. set ys = {j. j < n \<and> (i, j) \<in> symcl (linked_pairs linked n)})"
      using ys(2) by blast
  qed
  ultimately show ?thesis using ps(1) g(1) by (simp add: cluster_linked_def)
qed

subsection \<open>What the order means\<close>

definition bodies_linked :: "(string \<Rightarrow> string \<Rightarrow> rat) \<Rightarrow> rat \<Rightarrow> dict list \<Rightarrow> nat \<Rightarrow> nat \<Rightarrow> bool" where
  "bodies_linked sim tau hits i j \<longleftrightarrow> tau \<le> sim (content_body (hit_content (hits ! i))) (content_body (hit_content (hits ! j)))"

definition same_cluster :: "(string \<Rightarrow> string \<Rightarrow> rat) \<Rightarrow> rat \<Rightarrow> dict list \<Rightarrow> (nat \<times> nat) set" where
  "same_cluster sim tau hits = symcl (linked_pairs (bodies_linked sim tau hits) (length hits))"

text \<open>A row is stale when its cluster holds a dated row that is newer, or as new and earlier retrieved.\<close>

definition newer :: "rat option list \<Rightarrow> nat \<Rightarrow> nat \<Rightarrow> bool" where
  "newer epochs j i \<longleftrightarrow> (the (epochs ! i), - int i) < (the (epochs ! j), - int j)"

definition stale :: "reader_env \<Rightarrow> (string \<Rightarrow> string \<Rightarrow> rat) \<Rightarrow> rat \<Rightarrow> dict list \<Rightarrow> nat \<Rightarrow> bool" where
  "stale re sim tau hits i \<longleftrightarrow>
     (let epochs = map (row_epoch re) hits in
      i < length hits \<and> epochs ! i \<noteq> None \<and>
      (\<exists>j < length hits. (i, j) \<in> same_cluster sim tau hits \<and> epochs ! j \<noteq> None \<and> newer epochs j i))"

lemma cluster_eq: "cluster sim tau hits = cluster_linked (\<lambda>i j. bodies_linked sim tau hits i j) (length hits)"
proof -
  have cong: "join_pairs l prs ps = join_pairs l' prs ps" if "\<forall>(i, j) \<in> set prs. l i j = l' i j" for l l' prs ps
    using that by (induction prs arbitrary: ps) (auto split: option.split)
  have "join_pairs (\<lambda>i j. tau \<le> sim (map (\<lambda>h. content_body (hit_content h)) hits ! i) (map (\<lambda>h. content_body (hit_content h)) hits ! j))
      (all_pairs (length hits)) ps = join_pairs (bodies_linked sim tau hits) (all_pairs (length hits)) ps" for ps
    by (rule cong) (auto simp: all_pairs_set bodies_linked_def)
  then show ?thesis by (simp add: cluster_def cluster_linked_def Let_def)
qed

lemma clusters_of:
  "\<exists>gs. cluster sim tau hits = Some gs \<and> set (concat gs) = {..<length hits} \<and>
     (\<forall>g \<in> set gs. \<forall>i \<in> set g. set g = {j. j < length hits \<and> (i, j) \<in> same_cluster sim tau hits})"
proof -
  obtain gs where "cluster_linked (bodies_linked sim tau hits) (length hits) = Some gs" "set (concat gs) = {..<length hits}"
    "\<forall>g \<in> set gs. g \<noteq> [] \<and> sorted g \<and>
       (\<forall>i \<in> set g. set g = {j. j < length hits \<and> (i, j) \<in> symcl (linked_pairs (bodies_linked sim tau hits) (length hits))})"
    using cluster_linked_components [of "bodies_linked sim tau hits" "length hits"] by (elim exE conjE) (rule that)
  then show ?thesis by (simp add: cluster_eq same_cluster_def)
qed

lemma sort_key_last:
  assumes "xs \<noteq> []"
  shows "last (sort_key f xs) \<in> set xs \<and> (\<forall>y \<in> set xs. f y \<le> f (last (sort_key f xs)))"
proof -
  let ?s = "sort_key f xs"
  have ne: "?s \<noteq> []" using assms length_sort [of f xs] by (cases ?s) auto
  have in': "last ?s \<in> set xs" using last_in_set [OF ne] by simp
  have "sorted (map f (butlast ?s @ [last ?s]))" using ne sorted_sort_key [of f xs] by simp
  then have "\<forall>y \<in> set (butlast ?s). f y \<le> f (last ?s)" by (simp add: sorted_append)
  moreover have "set xs = insert (last ?s) (set (butlast ?s))"
  proof -
    have "set xs = set (butlast ?s @ [last ?s])" using ne by simp
    then show ?thesis by simp
  qed
  ultimately show ?thesis using in' by auto
qed

lemma newest_of:
  assumes "dated \<noteq> []"
  shows "newest epochs dated \<in> set dated \<and> (\<forall>i \<in> set dated. i \<noteq> newest epochs dated \<longrightarrow> newer epochs (newest epochs dated) i)"
  using sort_key_last [OF assms, of "\<lambda>i. (the (epochs ! i), - int i)"]
  by (force simp: newest_def newer_def less_le)

lemma newer_irrefl: "newer epochs i j \<Longrightarrow> \<not> newer epochs j i"
  unfolding newer_def by (rule less_not_sym)

text \<open>In a cluster the demoted rows are the dated ones that are not the newest.\<close>

lemma demoted_set:
  "set (demoted_of epochs cl) = {i \<in> set cl. epochs ! i \<noteq> None \<and> (\<exists>j \<in> set cl. epochs ! j \<noteq> None \<and> newer epochs j i)}"
proof -
  let ?d = "filter (\<lambda>i. epochs ! i \<noteq> None) cl"
  show ?thesis
  proof (cases "?d = []")
    case True
    then show ?thesis by (auto simp: demoted_of_def filter_empty_conv)
  next
    case False
    note top = newest_of [OF False, of epochs]
    have "set (demoted_of epochs cl) = set (filter (\<lambda>i. i \<noteq> newest epochs ?d) ?d)"
    proof (cases "2 \<le> length ?d")
      case True
      then show ?thesis by (simp add: demoted_of_def)
    next
      case small: False
      then obtain x where "?d = [x]" using False by (cases ?d; cases "tl ?d") auto
      then show ?thesis using top by (auto simp: demoted_of_def)
    qed
    also have "\<dots> = {i \<in> set ?d. \<exists>j \<in> set ?d. newer epochs j i}"
    proof (intro set_eqI iffI)
      fix i assume "i \<in> set (filter (\<lambda>i. i \<noteq> newest epochs ?d) ?d)"
      then show "i \<in> {i \<in> set ?d. \<exists>j \<in> set ?d. newer epochs j i}" using top by auto
    next
      fix i assume i: "i \<in> {i \<in> set ?d. \<exists>j \<in> set ?d. newer epochs j i}"
      then obtain j where j: "j \<in> set ?d" "newer epochs j i" by blast
      have "i \<noteq> newest epochs ?d"
      proof
        assume eq: "i = newest epochs ?d"
        with j newer_irrefl [of epochs i i] have "j \<noteq> i" by blast
        with top j(1) eq have "newer epochs i j" by blast
        with newer_irrefl j(2) show False by blast
      qed
      with i show "i \<in> set (filter (\<lambda>i. i \<noteq> newest epochs ?d) ?d)" by simp
    qed
    finally show ?thesis by auto
  qed
qed

text \<open>The core of the order: a permutation of the rows whose stale rows come last.\<close>

lemma readerpp_order_spec:
  "\<exists>order superseded. readerpp_order re sim tau rrf_k hits = Some (order, superseded) \<and>
     mset order = mset [0..<length hits] \<and> set superseded = {i. stale re sim tau hits i} \<and>
     sorted_wrt (\<lambda>i j. i \<in> set superseded \<longrightarrow> j \<in> set superseded) order"
proof -
  let ?n = "length hits" and ?e = "map (row_epoch re) hits"
  obtain gs where gs: "cluster sim tau hits = Some gs" "set (concat gs) = {..<?n}"
    "\<forall>g \<in> set gs. \<forall>i \<in> set g. set g = {j. j < ?n \<and> (i, j) \<in> same_cluster sim tau hits}"
    using clusters_of [of sim tau hits] by blast
  let ?s = "concat (map (demoted_of ?e) gs)"
  let ?key = "\<lambda>i. (i \<notin> set ?s, rrf re rrf_k i (position (by_recency ?e) i), - int i)"
  let ?o = "rev (sort_key ?key [0..<?n])"
  have "set ?s = {i. stale re sim tau hits i}"
  proof (intro set_eqI iffI)
    fix i assume "i \<in> set ?s"
    then obtain g where g: "g \<in> set gs" "i \<in> set (demoted_of ?e g)" by auto
    then have "i \<in> set g" "?e ! i \<noteq> None" "\<exists>j \<in> set g. ?e ! j \<noteq> None \<and> newer ?e j i" by (simp_all add: demoted_set)
    moreover from this(1) gs(3) g(1) have "set g = {j. j < ?n \<and> (i, j) \<in> same_cluster sim tau hits}" by blast
    ultimately show "i \<in> {i. stale re sim tau hits i}" by (auto simp: stale_def Let_def)
  next
    fix i assume "i \<in> {i. stale re sim tau hits i}"
    then obtain j where i: "i < ?n" "?e ! i \<noteq> None" and j: "j < ?n" "(i, j) \<in> same_cluster sim tau hits" "?e ! j \<noteq> None" "newer ?e j i"
      by (auto simp: stale_def Let_def)
    from i(1) gs(2) obtain g where g: "g \<in> set gs" "i \<in> set g" by auto
    with gs(3) j have "j \<in> set g" by blast
    with g i j have "i \<in> set (demoted_of ?e g)" unfolding demoted_set by blast
    with g(1) show "i \<in> set ?s" by auto
  qed
  moreover have "sorted_wrt (\<lambda>i j. i \<in> set ?s \<longrightarrow> j \<in> set ?s) ?o"
  proof -
    have "sorted_wrt (\<lambda>i j. ?key i \<le> ?key j) (sort_key ?key [0..<?n])"
      using sorted_sort_key [of ?key "[0..<?n]"] by (simp add: sorted_map)
    then have "sorted_wrt (\<lambda>i j. ?key j \<le> ?key i) ?o" by (simp add: sorted_wrt_rev)
    then show ?thesis by (rule sorted_wrt_mono_rel [rotated]) (auto simp: less_eq_prod_def)
  qed
  moreover have "readerpp_order re sim tau rrf_k hits = Some (?o, ?s)"
    by (simp add: readerpp_order_def gs(1) Let_def)
  moreover have "mset ?o = mset [0..<?n]" by simp
  ultimately show ?thesis by blast
qed

subsection \<open>Selecting rows\<close>

lemma sorted_wrt_all: "(\<And>x y. x \<in> set xs \<Longrightarrow> y \<in> set xs \<Longrightarrow> P x y) \<Longrightarrow> sorted_wrt P xs"
  by (induction xs) auto

lemma stratified_spec:
  assumes "sorted_wrt (\<lambda>i j. i \<in> set dem \<longrightarrow> j \<in> set dem) order"
  shows "mset (stratified order dem scores) = mset order \<and>
    sorted_wrt (\<lambda>i j. i \<in> set dem \<longrightarrow> j \<in> set dem) (stratified order dem scores)"
proof -
  let ?key = "\<lambda>p. (- (scores ! p), p)" and ?ps = "[0..<length order]"
  let ?l = "sort_key ?key (filter (\<lambda>p. order ! p \<notin> set dem) ?ps)" and ?d = "sort_key ?key (filter (\<lambda>p. order ! p \<in> set dem) ?ps)"
  have "mset (?l @ ?d) = filter_mset (\<lambda>p. order ! p \<notin> set dem) (mset ?ps) + filter_mset (\<lambda>p. order ! p \<in> set dem) (mset ?ps)"
    by (simp only: mset_append mset_sort mset_filter)
  also have "\<dots> = mset ?ps"
    using multiset_partition [of "mset ?ps" "\<lambda>p. order ! p \<in> set dem"] by (simp only: add.commute)
  finally have "mset (?l @ ?d) = mset ?ps" .
  then have "mset (map ((!) order) (?l @ ?d)) = image_mset ((!) order) (mset ?ps)" by (simp only: mset_map)
  also have "\<dots> = mset order" by (simp only: mset_map [symmetric] map_nth)
  finally have "mset (stratified order dem scores) = mset order" by (simp add: stratified_def Let_def)
  moreover have "sorted_wrt (\<lambda>i j. i \<in> set dem \<longrightarrow> j \<in> set dem) (map ((!) order) (?l @ ?d))"
    unfolding map_append sorted_wrt_append by (auto intro!: sorted_wrt_all)
  ultimately show ?thesis by (simp add: stratified_def Let_def)
qed

lemma stratified_split:
  assumes "sorted_wrt (\<lambda>i j. i \<in> D \<longrightarrow> j \<in> D) xs"
  shows "filter (\<lambda>i. i \<notin> D) xs @ filter (\<lambda>i. i \<in> D) xs = xs"
  using assms
proof (induction xs)
  case (Cons x xs)
  show ?case
  proof (cases "x \<in> D")
    case True
    with Cons.prems have "filter (\<lambda>i. i \<notin> D) xs = []" "filter (\<lambda>i. i \<in> D) xs = xs" by (auto simp: filter_empty_conv filter_id_conv)
    with True show ?thesis by simp
  next
    case False
    with Cons show ?thesis by simp
  qed
qed simp

text \<open>Scores that do not differ leave the order as it was.\<close>

lemma stratified_constant:
  assumes "sorted_wrt (\<lambda>i j. i \<in> set dem \<longrightarrow> j \<in> set dem) order" and "scores = replicate (length order) q"
  shows "stratified order dem scores = order"
proof -
  let ?ps = "[0..<length order]"
  have keep: "sort_key (\<lambda>p. (- (scores ! p), p)) (filter P ?ps) = filter P ?ps" for P
  proof -
    have "map (\<lambda>p. (- (scores ! p), p)) (filter P ?ps) = map (\<lambda>p. (- q, p)) (filter P ?ps)"
      using assms(2) by simp
    moreover have "sorted (map (\<lambda>p. (- q, p)) (filter P ?ps))"
      by (simp add: sorted_map sorted_wrt_filter less_eq_prod_def sorted_wrt_upt [THEN sorted_wrt_mono_rel [rotated]])
    ultimately show ?thesis by (metis sort_key_id_if_sorted)
  qed
  have pick: "map ((!) order) (filter (\<lambda>p. Q (order ! p)) ?ps) = filter Q order" for Q
    by (metis (no_types, lifting) filter_map map_nth comp_apply filter_cong)
  show ?thesis
    using stratified_split [OF assms(1)] pick [of "\<lambda>i. i \<notin> set dem"] pick [of "\<lambda>i. i \<in> set dem"]
    by (simp add: stratified_def Let_def keep)
qed

subsection \<open>What the reader promises\<close>

text \<open>The live rows come before the stale ones.\<close>

definition live_first :: "nat set \<Rightarrow> nat list \<Rightarrow> bool" where
  "live_first old order \<longleftrightarrow> sorted_wrt (\<lambda>i j. i \<in> old \<longrightarrow> j \<in> old) order"

text \<open>
  C19: the union-find clustering ends and computes the connected components.  The groups partition the rows, none is
  empty, each lists its rows in order, and two rows share a group exactly when a chain of similar pairs joins them.
\<close>

theorem cluster_components:
  "\<exists>gs. cluster sim tau hits = Some gs \<and> distinct (concat gs) \<and> set (concat gs) = {..<length hits} \<and>
     (\<forall>g \<in> set gs. g \<noteq> [] \<and> sorted g \<and> (\<forall>i \<in> set g. set g = {j. j < length hits \<and> (i, j) \<in> same_cluster sim tau hits}))"
  unfolding cluster_eq same_cluster_def by (rule cluster_linked_components)

lemma reader_select_order:
  "\<exists>order. reader_select re sim tau rrf_k scorer query hits k = Some (map ((!) hits) (py_take k order)) \<and>
     mset order = mset [0..<length hits] \<and> live_first {i. stale re sim tau hits i} order"
proof (cases "hits = []")
  case True
  then have "reader_select re sim tau rrf_k scorer query hits k = Some (map ((!) hits) (py_take k []))"
    by (simp add: reader_select_def py_take_def)
  moreover have "live_first {i. stale re sim tau hits i} []" by (simp add: live_first_def)
  ultimately show ?thesis using True by (metis list.size(3) upt_rec zero_less_iff_neq_zero)
next
  case False
  obtain order dem where o': "readerpp_order re sim tau rrf_k hits = Some (order, dem)" "mset order = mset [0..<length hits]"
    "set dem = {i. stale re sim tau hits i}" "sorted_wrt (\<lambda>i j. i \<in> set dem \<longrightarrow> j \<in> set dem) order"
    using readerpp_order_spec [of re sim tau rrf_k hits] by blast
  define final where "final = (case scorer of None \<Rightarrow> order
      | Some f \<Rightarrow> (case scores_of re f query (map (\<lambda>i. hit_content (hits ! i)) order) of
          None \<Rightarrow> order | Some scores \<Rightarrow> stratified order dem scores))"
  have "mset final = mset order \<and> sorted_wrt (\<lambda>i j. i \<in> set dem \<longrightarrow> j \<in> set dem) final"
    using stratified_spec [OF o'(4)] o'(4) by (simp add: final_def split: option.split)
  moreover have "reader_select re sim tau rrf_k scorer query hits k = Some (map ((!) hits) (py_take k final))"
    using False o'(1) by (simp add: reader_select_def final_def)
  ultimately show ?thesis using o'(2,3) by (auto simp: live_first_def)
qed

text \<open>
  Whatever the scorer answers, the reader ends and returns the first rows of a permutation of the hits in which
  every live row comes before every stale one, where a row is stale when its component holds a newer dated row.  No
  score lifts a stale row over a live one, and no row is invented, repeated or lost.
\<close>

theorem reader_orders:
  "\<exists>order. reader_select re sim tau rrf_k scorer query hits k = Some (map ((!) hits) (py_take k order)) \<and>
     mset order = mset [0..<length hits] \<and> live_first {i. stale re sim tau hits i} order"
  by (rule reader_select_order)

text \<open>
  A scorer that raises, answers something that is no list, answers too many or too few scores or a score that is
  not a finite number, or does not tell the rows apart, changes nothing: the rows are those of the reader without a
  scorer.
\<close>

theorem reader_degrades:
  assumes "\<And>contents. (case scorer query contents of
      Inr (JList xs) \<Rightarrow> length xs \<noteq> length contents \<or> (\<exists>x \<in> set xs. finite_score re x = None) \<or>
        map (finite_score re) xs = replicate (length contents) (Some q)
    | _ \<Rightarrow> True)"
  shows "reader_select re sim tau rrf_k (Some scorer) query hits k = readerpp_select re sim tau rrf_k hits k"
proof (cases "hits = []")
  case True
  then show ?thesis by (simp add: reader_select_def readerpp_select_def)
next
  case False
  obtain order dem where o': "readerpp_order re sim tau rrf_k hits = Some (order, dem)"
    "sorted_wrt (\<lambda>i j. i \<in> set dem \<longrightarrow> j \<in> set dem) order"
    using readerpp_order_spec [of re sim tau rrf_k hits] by blast
  let ?contents = "map (\<lambda>i. hit_content (hits ! i)) order"
  have "scores_of re scorer query ?contents = None \<or> scores_of re scorer query ?contents = Some (replicate (length order) q)"
  proof (cases "scores_of re scorer query ?contents")
    case (Some scores)
    then obtain xs where xs: "scorer query ?contents = Inr (JList xs)" "length xs = length ?contents"
      "\<forall>x \<in> set xs. finite_score re x \<noteq> None" "scores = map (\<lambda>x. the (finite_score re x)) xs"
      by (auto simp: scores_of_def list_all_iff split: sum.split_asm json.split_asm if_split_asm)
    with assms [of ?contents] have "map (finite_score re) xs = replicate (length order) (Some q)" by auto
    then have "map the (map (finite_score re) xs) = replicate (length order) q" by simp
    then have "scores = replicate (length order) q" using xs(4) by (simp add: comp_def)
    with Some show ?thesis by simp
  qed simp
  then show ?thesis
    using False o'(1) stratified_constant [OF o'(2) refl] by (auto simp: reader_select_def readerpp_select_def)
qed

lemma resolve_sticky:
  assumes "resolve_scorer re load st = ((s, Unavailable), st')"
  shows "resolve_scorer re load' st' = ((None, Unavailable), st')"
  using assms by (auto simp: resolve_scorer_def Let_def split: if_split_asm option.split_asm sum.split_asm)

definition sample_reader :: reader_env where
  "sample_reader = \<lparr>getenv = (\<lambda>n. None), rounded = (\<lambda>q. q),
     float_of = (\<lambda>x. case x of JInt i \<Rightarrow> Some (Some (of_int i)) | _ \<Rightarrow> None), iso_epoch = (\<lambda>s. None)\<rparr>"

definition sample_hits :: "dict list" where
  "sample_hits = [[(''content'', JStr ''alpha beta''), (''created_at'', JInt 1)], [(''content'', JStr ''gamma'')],
     [(''content'', JStr ''beta alpha''), (''created_at'', JInt 2)]]"

lemma sample_clusters: "cluster (jaccard_sim sample_reader) (READERPP_TAU sample_reader) sample_hits = Some [[0, 2], [1]]"
  by code_simp

theorem cluster_components_witness:
  "(0, 2) \<in> same_cluster (jaccard_sim sample_reader) (READERPP_TAU sample_reader) sample_hits \<and>
   (0, 1) \<notin> same_cluster (jaccard_sim sample_reader) (READERPP_TAU sample_reader) sample_hits"
proof -
  have n: "length sample_hits = 3" by (simp add: sample_hits_def)
  have "{0, 2} = {j. j < 3 \<and> (0, j) \<in> same_cluster (jaccard_sim sample_reader) (READERPP_TAU sample_reader) sample_hits}"
    using cluster_components [of "jaccard_sim sample_reader" "READERPP_TAU sample_reader" sample_hits]
    by (simp add: sample_clusters n)
  then have "j \<in> {0, 2} \<longleftrightarrow> j < 3 \<and> (0, j) \<in> same_cluster (jaccard_sim sample_reader) (READERPP_TAU sample_reader) sample_hits" for j
    by blast
  from this [of 2] this [of 1] show ?thesis by simp
qed

theorem reader_orders_witness:
  "\<exists>order. reader_select sample_reader (jaccard_sim sample_reader) (READERPP_TAU sample_reader) READERPP_RRF_K
      (Some (\<lambda>q cs. Inr (JList [JInt 1, JInt 2, JInt 9]))) [] sample_hits 3 = Some (map ((!) sample_hits) (py_take 3 order)) \<and>
    mset order = mset [0, 1, 2] \<and> live_first {i. stale sample_reader (jaccard_sim sample_reader) (READERPP_TAU sample_reader) sample_hits i} order"
proof -
  have "[0..<length sample_hits] = [0, 1, 2]" by code_simp
  with reader_orders [of sample_reader "jaccard_sim sample_reader" "READERPP_TAU sample_reader" READERPP_RRF_K
      "Some (\<lambda>q cs. Inr (JList [JInt 1, JInt 2, JInt 9]))" "[]" sample_hits 3]
  show ?thesis by simp
qed

theorem reader_degrades_witness:
  "reader_select sample_reader (jaccard_sim sample_reader) (READERPP_TAU sample_reader) READERPP_RRF_K
     (Some (\<lambda>q cs. Inr (JList []))) [] [[(''content'', JStr ''alpha beta''), (''created_at'', JInt 1)], [(''content'', JStr ''beta alpha'')]] 2 =
   readerpp_select sample_reader (jaccard_sim sample_reader) (READERPP_TAU sample_reader) READERPP_RRF_K
     [[(''content'', JStr ''alpha beta''), (''created_at'', JInt 1)], [(''content'', JStr ''beta alpha'')]] 2"
  by (rule reader_degrades [where q = 0]) simp

end
