(* ===== verification/Client_Search.thy ===== *)
theory Client_Search
  imports Memory_Client Approval_Service Reader
begin

text \<open>
  The hybrid search of \<open>panella/client.py\<close> (\<open>search\<close>, \<open>_apply_profile_boost\<close>): the adapter's hits pass the
  tenant, status and room filter, then the profile's boost, then the reader when it is enabled.  The product of a
  score and a boost factor is a parameter, with the order that sorting uses.
\<close>

subsection \<open>The boost of a profile\<close>

record 'r boost_ops =
  times_rank :: "json \<Rightarrow> json \<Rightarrow> 'r res" \<comment> \<open>\<open>float(score) * factor\<close>\<close>
  zero_rank :: 'r

definition boost_factor :: "agent_profile \<Rightarrow> dict \<Rightarrow> json res" where
  "boost_factor p hit =
     (case dget (Profiles.wing_boost p) ''default'' of
        None \<Rightarrow> Inl (KeyError ''default'')
      | Some d \<Rightarrow> Inr (or_default (dget (Profiles.wing_boost p) (py_strip (str_or (dget hit ''wing'') []))) d))"

definition boosted_score :: "agent_profile \<Rightarrow> 'r boost_ops \<Rightarrow> dict \<Rightarrow> 'r res" where
  "boosted_score p bo hit =
     rbind (boost_factor p hit) (\<lambda>f.
       case times_rank bo (or_default (dget hit ''score'') (JFloat ''0.0'')) f of
         Inl (TypeError _) \<Rightarrow> Inr (zero_rank bo)
       | Inl e \<Rightarrow> if value_error e then Inr (zero_rank bo) else Inl e
       | Inr r \<Rightarrow> Inr r)"

text \<open>\<open>sorted(xs, key=f, reverse=True)\<close>: equal keys keep their order.\<close>

definition sort_desc :: "('a \<Rightarrow> 'r::linorder) \<Rightarrow> 'a list \<Rightarrow> 'a list" where
  "sort_desc f xs = rev (sort_key f (rev xs))"

definition apply_profile_boost :: "agent_profile \<Rightarrow> ('r::linorder) boost_ops \<Rightarrow> dict list \<Rightarrow> dict list res" where
  "apply_profile_boost p bo hits =
     (if \<not> list_ex (\<lambda>h. dget h ''score'' \<noteq> None) hits then Inr hits
      else rbind (map_res (boosted_score p bo) hits) (\<lambda>ranks. Inr (map snd (sort_desc fst (zip ranks hits)))))"

subsection \<open>Searching\<close>

type_synonym 's searcher = "string \<Rightarrow> int \<Rightarrow> string list \<Rightarrow> (string \<times> string list) option \<Rightarrow> 's \<Rightarrow> dict list res"

text \<open>An adapter that rejects the mode and tenant arguments is asked again without them.\<close>

definition search_hits :: "'s searcher \<Rightarrow> string \<Rightarrow> int \<Rightarrow> string list \<Rightarrow> string \<Rightarrow> string list \<Rightarrow> 's \<Rightarrow> dict list res" where
  "search_hits asks query k hints mode tenants s =
     (case asks query k hints (Some (mode, tenants)) s of
        Inl (TypeError _) \<Rightarrow> asks query k hints None s
      | r \<Rightarrow> r)"

definition search_limit :: "agent_profile \<Rightarrow> int option \<Rightarrow> int" where
  "search_limit p k = min (or_default k (max_query_k p)) (max_query_k p)"

definition search_hints :: "agent_profile \<Rightarrow> string list \<Rightarrow> string list" where
  "search_hints p wings_hint =
     (if wings_hint \<noteq> [] then wings_hint
      else if allowlist_wings (read_allowlist p) \<noteq> [] then allowlist_wings (read_allowlist p)
      else [default_wing p])"

text \<open>Up to the boosted hits and the blocked ones.\<close>

definition search_pool ::
  "agent_profile \<Rightarrow> reader_env \<Rightarrow> ('r::linorder) boost_ops \<Rightarrow> 's searcher \<Rightarrow> string \<Rightarrow> int option \<Rightarrow> string list \<Rightarrow>
   (nat \<Rightarrow> time) \<Rightarrow> 's client \<Rightarrow> (dict list \<times> dict list) res" where
  "search_pool p re bo asks query k wings_hint clk c =
     rbind (read_guard (me c) (clk 0)) (\<lambda>_.
     rbind (client_tenants p (me c) (clk 1)) (\<lambda>tenants.
     rbind (search_hits asks query (fetch_k re (search_limit p k) (reader_enabled re)) (search_hints p wings_hint)
              (retrieval_mode p) tenants (client_store c)) (\<lambda>raw'.
     rbind (filter_hits p (me c) (clk 2) (clk 3) raw') (\<lambda>(allowed, blocked).
     rbind (apply_profile_boost p bo allowed) (\<lambda>boosted.
       Inr (boosted, blocked))))))"

text \<open>The counters and the audit row of a search that shows \<open>rows\<close>.\<close>

definition count_shown :: "agent_profile \<Rightarrow> dict list \<Rightarrow> 's client \<Rightarrow> 's client" where
  "count_shown p rows c = foldl (\<lambda>c h. bump p ''wing_hit'' (str_or (dget h ''wing'') ''unknown'') 1 c) (bump p ''queries'' ''all'' 1 c) rows"

definition search_finish ::
  "env \<Rightarrow> agent_profile \<Rightarrow> string \<Rightarrow> int \<Rightarrow> dict list \<Rightarrow> dict list \<Rightarrow> (nat \<Rightarrow> time) \<Rightarrow> 's client \<Rightarrow> dict list res \<times> 's client" where
  "search_finish v p query limit rows blocked clk c =
     andthen (audit_if_cross_tenant v ''search'' None
         [(''query_sha256'', JStr (sha256_hex v query)), (''k'', JInt limit)] ''*'' (clk 4) (clk 5)
         (count_blocked p blocked (count_shown p (py_take limit rows) c)))
       (\<lambda>_ c. (Inr (py_take limit rows), c))"

definition client_search ::
  "env \<Rightarrow> agent_profile \<Rightarrow> reader_env \<Rightarrow> (string \<Rightarrow> scorer res) \<Rightarrow> ('r::linorder) boost_ops \<Rightarrow> 's searcher \<Rightarrow> string \<Rightarrow>
   int option \<Rightarrow> string list \<Rightarrow> (nat \<Rightarrow> time) \<Rightarrow> 's client \<Rightarrow> scorer_state \<Rightarrow>
   ((dict list res \<times> 's client) \<times> scorer_state) option" where
  "client_search v p re load bo asks query k wings_hint clk c st =
     (case search_pool p re bo asks query k wings_hint clk c of
        Inl e \<Rightarrow> Some ((Inl e, c), st)
      | Inr (boosted, blocked) \<Rightarrow>
          if \<not> reader_enabled re then Some (search_finish v p query (search_limit p k) boosted blocked clk c, st)
          else
            (let ((scorer, mode), st') = resolve_scorer re load st;
                 c1 = (if mode = Unavailable then bump p ''reranker_unavailable'' ''all'' 1 c else c)
             in map_option (\<lambda>rows. (search_finish v p query (search_limit p k) rows blocked clk c1, st'))
                  (reader_select re (jaccard_sim re) (READERPP_TAU re) READERPP_RRF_K scorer query boosted (search_limit p k))))"

subsection \<open>What a search shows\<close>

lemma sort_desc_mset [simp]: "mset (sort_desc f xs) = mset xs"
  by (simp add: sort_desc_def)

lemma map_res_length: "map_res f xs = Inr ys \<Longrightarrow> length ys = length xs"
  by (induction xs arbitrary: ys) (auto simp: rbind_Inr_iff)

lemma apply_boost_mset: "apply_profile_boost p bo hits = Inr boosted \<Longrightarrow> mset boosted = mset hits"
proof -
  assume a: "apply_profile_boost p bo hits = Inr boosted"
  show ?thesis
  proof (cases "list_ex (\<lambda>h. dget h ''score'' \<noteq> None) hits")
    case True
    with a obtain ranks where r: "map_res (boosted_score p bo) hits = Inr ranks" "boosted = map snd (sort_desc fst (zip ranks hits))"
      by (auto simp: apply_profile_boost_def rbind_Inr_iff)
    then have "mset boosted = image_mset snd (mset (zip ranks hits))" by (simp only: mset_map sort_desc_mset)
    also have "\<dots> = mset (map snd (zip ranks hits))" by (simp only: mset_map)
    also have "\<dots> = mset hits" using map_res_length [OF r(1)] by simp
    finally show ?thesis .
  next
    case False
    with a show ?thesis by (simp add: apply_profile_boost_def)
  qed
qed

lemma filter_loop_subset: "filter_loop p root' tenants hits = Inr (allowed, blocked) \<Longrightarrow> mset allowed \<subseteq># mset hits"
proof (induction hits arbitrary: allowed blocked)
  case (Cons hit hits)
  then obtain w a b where w: "judge_hit p root' tenants hit = Inr w" "filter_loop p root' tenants hits = Inr (a, b)"
    "(allowed, blocked) = (case w of Allow \<Rightarrow> (hit # a, b) | Block \<Rightarrow> (a, hit # b))"
    by (auto simp: rbind_Inr_iff)
  from Cons.IH [OF w(2)] have "mset a \<subseteq># mset (hit # hits)" using subset_mset.order_trans [OF _ mset_subset_eq_add_right [of "mset hits" "{#hit#}"]] by simp
  moreover from Cons.IH [OF w(2)] have "mset (hit # a) \<subseteq># mset (hit # hits)" by simp
  ultimately show ?case using w(3) by (cases w) simp_all
qed simp

lemma py_take_subset: "mset (py_take k xs) \<subseteq># mset xs"
proof -
  have "mset (take n xs) \<subseteq># mset (take n xs @ drop n xs)" for n by (simp only: mset_append) simp
  then show ?thesis by (simp add: py_take_def)
qed

lemma py_take_set: "set (py_take k xs) \<subseteq> set xs"
  by (auto simp: py_take_def dest: in_set_takeD)

lemma py_take_length: "0 \<le> k \<Longrightarrow> int (length (py_take k xs)) \<le> k"
  by (simp add: py_take_def)

lemma reader_rows:
  "\<exists>rows. reader_select re sim tau rrf_k scorer query hits k = Some rows \<and> mset rows \<subseteq># mset hits"
proof -
  obtain order where o': "reader_select re sim tau rrf_k scorer query hits k = Some (map ((!) hits) (py_take k order))"
    "mset order = mset [0..<length hits]" using reader_select_order by blast
  have "mset (map ((!) hits) (py_take k order)) \<subseteq># image_mset ((!) hits) (mset order)"
    unfolding mset_map by (intro image_mset_subseteq_mono py_take_subset)
  also have "\<dots> = mset hits" unfolding o'(2) by (simp only: mset_map [symmetric] map_nth)
  finally show ?thesis using o'(1) by blast
qed

lemma foldl_bump:
  "me (foldl (\<lambda>c h. bump p ev (f h) 1 c) c rows) = me c" "cw (foldl (\<lambda>c h. bump p ev (f h) 1 c) c rows) = cw c"
  by (induction rows arbitrary: c) simp_all

lemma count_shown_parts [client_simps, simp]:
  "me (count_shown p rows c) = me c" "client_store (count_shown p rows c) = client_store c" "cw (count_shown p rows c) = cw c"
  by (simp_all add: count_shown_def client_store_def foldl_bump)

lemma count_blocked_parts [client_simps, simp]:
  "me (count_blocked p rows c) = me c" "client_store (count_blocked p rows c) = client_store c"
  by (simp_all add: count_blocked_def)

lemma search_finish_shows:
  assumes "search_finish v p query limit rows blocked clk c = (r, c')"
  shows "client_store c' = client_store c \<and> me c' = me c \<and> (\<forall>shown. r = Inr shown \<longrightarrow> shown = py_take limit rows)"
proof -
  let ?c = "count_blocked p blocked (count_shown p (py_take limit rows) c)"
  obtain a c1 where a: "audit_if_cross_tenant v ''search'' None
      [(''query_sha256'', JStr (sha256_hex v query)), (''k'', JInt limit)] ''*'' (clk 4) (clk 5) ?c = (a, c1)"
    by (cases "audit_if_cross_tenant v ''search'' None
      [(''query_sha256'', JStr (sha256_hex v query)), (''k'', JInt limit)] ''*'' (clk 4) (clk 5) ?c")
  note parts = audit_if_parts [of v "''search''" None "[(''query_sha256'', JStr (sha256_hex v query)), (''k'', JInt limit)]" "''*''"
    "clk 4" "clk 5" ?c]
  have "client_store c1 = client_store c" "me c1 = me c" using parts(1,2) a by simp_all
  with assms a show ?thesis by (cases a) (auto simp: search_finish_def)
qed

lemma search_pool_shows:
  assumes "search_pool p re bo asks query k wings_hint clk c = Inr (boosted, blocked)"
  shows "has_scope (me c) ''memory.read'' \<and> (\<forall>h \<in> set boosted. may_read p (me c) h) \<and>
    (\<exists>tenants raw'. client_tenants p (me c) (clk 1) = Inr tenants \<and>
       search_hits asks query (fetch_k re (search_limit p k) (reader_enabled re)) (search_hints p wings_hint) (retrieval_mode p)
         tenants (client_store c) = Inr raw' \<and> mset boosted \<subseteq># mset raw')"
proof -
  obtain tenants raw' allowed blocked' where g: "read_guard (me c) (clk 0) = Inr ()" "client_tenants p (me c) (clk 1) = Inr tenants"
    and s: "search_hits asks query (fetch_k re (search_limit p k) (reader_enabled re)) (search_hints p wings_hint) (retrieval_mode p)
         tenants (client_store c) = Inr raw'"
    and f: "filter_hits p (me c) (clk 2) (clk 3) raw' = Inr (allowed, blocked')" and b: "apply_profile_boost p bo allowed = Inr boosted"
    using assms by (auto simp: search_pool_def rbind_Inr_iff)
  note same = apply_boost_mset [OF b]
  have "mset allowed \<subseteq># mset raw'" using f filter_loop_subset by (auto simp: filter_hits_def rbind_Inr_iff)
  moreover have "may_read p (me c) h" if "h \<in> set boosted" for h
    using filter_hits_allows [OF f] that mset_eq_setD [OF same] by blast
  moreover have "has_scope (me c) ''memory.read''"
    using g(1) by (auto simp: read_guard_def require_scope_def rbind_Inr_iff split: if_split_asm)
  ultimately show ?thesis using g(2) s same by auto
qed

lemma search_shows:
  "\<exists>r c' st'. client_search v p re load bo asks query k wings_hint clk c st = Some ((r, c'), st') \<and>
     client_store c' = client_store c \<and> me c' = me c \<and>
     (\<forall>shown. r = Inr shown \<longrightarrow> has_scope (me c) ''memory.read'' \<and> (\<forall>h \<in> set shown. may_read p (me c) h) \<and>
        (0 \<le> search_limit p k \<longrightarrow> int (length shown) \<le> search_limit p k) \<and> search_limit p k \<le> max_query_k p \<and>
        (\<exists>tenants raw'. client_tenants p (me c) (clk 1) = Inr tenants \<and>
           search_hits asks query (fetch_k re (search_limit p k) (reader_enabled re)) (search_hints p wings_hint) (retrieval_mode p)
             tenants (client_store c) = Inr raw' \<and> mset shown \<subseteq># mset raw'))"
proof (cases "search_pool p re bo asks query k wings_hint clk c")
  case (Inl e)
  then show ?thesis by (simp add: client_search_def)
next
  case (Inr pair)
  obtain boosted blocked where pair: "pair = (boosted, blocked)" by (cases pair)
  note pool = search_pool_shows [OF Inr [unfolded pair]]
  have run: "\<exists>rows c1 st'. client_search v p re load bo asks query k wings_hint clk c st =
      Some (search_finish v p query (search_limit p k) rows blocked clk c1, st') \<and> mset rows \<subseteq># mset boosted \<and>
      client_store c1 = client_store c \<and> me c1 = me c"
  proof (cases "reader_enabled re")
    case False
    with Inr pair show ?thesis by (auto simp: client_search_def)
  next
    case True
    obtain scorer mode st' where sc: "resolve_scorer re load st = ((scorer, mode), st')"
      by (cases "resolve_scorer re load st"; cases "fst (resolve_scorer re load st)") auto
    obtain rows where "reader_select re (jaccard_sim re) (READERPP_TAU re) READERPP_RRF_K scorer query boosted (search_limit p k) = Some rows"
      "mset rows \<subseteq># mset boosted" using reader_rows by blast
    with Inr pair True sc show ?thesis
      by (intro exI [of _ rows] exI [of _ "if mode = Unavailable then bump p ''reranker_unavailable'' ''all'' 1 c else c"] exI [of _ st'])
        (simp add: client_search_def)
  qed
  then obtain rows c1 st' where call: "client_search v p re load bo asks query k wings_hint clk c st =
      Some (search_finish v p query (search_limit p k) rows blocked clk c1, st')" and rows: "mset rows \<subseteq># mset boosted"
    and c1: "client_store c1 = client_store c" "me c1 = me c" by blast
  obtain r c' where fin: "search_finish v p query (search_limit p k) rows blocked clk c1 = (r, c')"
    by (cases "search_finish v p query (search_limit p k) rows blocked clk c1")
  note shows' = search_finish_shows [OF fin]
  have shown: "mset shown \<subseteq># mset boosted \<and> set shown \<subseteq> set boosted \<and> (0 \<le> search_limit p k \<longrightarrow> int (length shown) \<le> search_limit p k)"
    if "r = Inr shown" for shown
  proof -
    have s: "shown = py_take (search_limit p k) rows" using shows' that by blast
    then have "mset shown \<subseteq># mset boosted" using py_take_subset rows subset_mset.order_trans by blast
    with s py_take_length set_mset_mono [of "mset shown" "mset boosted"] show ?thesis by auto
  qed
  have "search_limit p k \<le> max_query_k p" by (simp add: search_limit_def)
  with pool shown shows' c1 call fin show ?thesis
    by (intro exI [of _ r] exI [of _ c'] exI [of _ st']) (auto intro: subset_mset.order_trans)
qed

text \<open>
  C18: a search always ends, changes nothing in the store, and shows only what may be read.  Each shown row is one of
  the hits the adapter returned for the caller's tenants, shown no more often than it was returned; it passed the
  status, tenant and room filter of the caller, and with a limit that is not negative at most that many are shown,
  never more than the profile's maximum, whatever the reader, the boost or the reranker does.
\<close>

theorem search_permitted:
  "\<exists>r c' st'. client_search v p re load bo asks query k wings_hint clk c st = Some ((r, c'), st') \<and>
     client_store c' = client_store c \<and> me c' = me c \<and>
     (\<forall>shown. r = Inr shown \<longrightarrow> has_scope (me c) ''memory.read'' \<and> (\<forall>h \<in> set shown. may_read p (me c) h) \<and>
        (0 \<le> search_limit p k \<longrightarrow> int (length shown) \<le> search_limit p k) \<and> search_limit p k \<le> max_query_k p \<and>
        (\<exists>tenants raw'. client_tenants p (me c) (clk 1) = Inr tenants \<and>
           search_hits asks query (fetch_k re (search_limit p k) (reader_enabled re)) (search_hints p wings_hint) (retrieval_mode p)
             tenants (client_store c) = Inr raw' \<and> mset shown \<subseteq># mset raw'))"
  by (rule search_shows)

definition sample_asks :: "string list searcher" where
  "sample_asks query k hints scoped s = (case scoped of None \<Rightarrow> Inr [sample_row_hit] | Some _ \<Rightarrow> Inl (TypeError ''unexpected keyword argument''))"

definition sample_boost :: "nat boost_ops" where
  "sample_boost = \<lparr>times_rank = (\<lambda>s f. Inr 1), zero_rank = 0\<rparr>"

lemma sample_searched:
  "\<exists>c'. client_search sample_env sample_agent sample_reader (\<lambda>m. Inl (RuntimeError [])) sample_boost sample_asks ''q'' (Some 1) []
      int sample_client \<lparr>scorer_cache = [], scorer_failed = []\<rparr> =
    Some ((Inr [sample_row_hit], c'), \<lparr>scorer_cache = [], scorer_failed = []\<rparr>)"
proof -
  have off: "\<not> reader_enabled sample_reader" by code_simp
  have plain: "apply_profile_boost sample_agent sample_boost [sample_row_hit] = Inr [sample_row_hit]"
    by (simp add: apply_profile_boost_def sample_row_hit_def)
  have limit: "search_limit sample_agent (Some 1) = 1"
    by (simp add: search_limit_def or_default_def sample_agent_def sample_profile_def)
  have "search_hits sample_asks ''q'' n hs m ts s = Inr [sample_row_hit]" for n hs m ts s
    by (simp add: search_hits_def sample_asks_def)
  then have "search_pool sample_agent sample_reader sample_boost sample_asks ''q'' (Some 1) [] int sample_client = Inr ([sample_row_hit], [])"
    by (simp add: search_pool_def sample_read_guard sample_tenants sample_filtered plain)
  with off limit show ?thesis
    by (simp add: client_search_def search_finish_def audit_if_cross_tenant_def py_take_def)
qed

theorem search_permitted_witness:
  "\<exists>c' st'. client_search sample_env sample_agent sample_reader (\<lambda>m. Inl (RuntimeError [])) sample_boost sample_asks ''q'' (Some 1) []
      int sample_client \<lparr>scorer_cache = [], scorer_failed = []\<rparr> = Some ((Inr [sample_row_hit], c'), st') \<and>
    client_store c' = [] \<and> may_read sample_agent sample_me sample_row_hit"
  using search_permitted [of sample_env sample_agent sample_reader "\<lambda>m. Inl (RuntimeError [])" sample_boost sample_asks "''q''" "Some 1" "[]"
      int sample_client "\<lparr>scorer_cache = [], scorer_failed = []\<rparr>"] sample_searched
  by auto

end
