(* ===== verification/Mcp_Tools.thy ===== *)
theory Mcp_Tools
  imports Client_Search
begin

text \<open>
  \<open>panella/mcp_tools.py\<close> and \<open>write_hygiene.py\<close>: the tools an MCP client may call.  A context says which
  tools are registered; \<open>dispatch\<close> routes one call.  The client behind the tools is the memory client of
  \<open>Client_Search\<close> and \<open>Memory_Client\<close>, the approval tools go through \<open>Approval_Service\<close>.  A reply is the JSON
  value whose text is returned; \<open>late\<close> says that the search ran past its time limit, in which case its thread
  still ends in the background.  Tool descriptions and input schemas are data of the MCP library.
\<close>

subsection \<open>Metadata hygiene\<close>

definition HTTP_BLOCKED_WRITE_METADATA :: "string list" where
  "HTTP_BLOCKED_WRITE_METADATA =
     [''raise_dedup_skipped'', ''principal_id'', ''actor_id'', ''subject_id'', ''conversation_id'', ''source_artifact_key'']"

definition NETWORK_WRITE_BLOCKED_METADATA :: "string list" where
  "NETWORK_WRITE_BLOCKED_METADATA = HTTP_BLOCKED_WRITE_METADATA @ [''source_system'']"

definition control_tag :: "json \<Rightarrow> bool" where
  "control_tag t = (case t of JStr s \<Rightarrow> startswith ''ccsk:'' s | _ \<Rightarrow> False)"

definition strip_control_tags :: "json \<Rightarrow> json" where
  "strip_control_tags tags = (case tags of JList ts \<Rightarrow> JList (filter (\<lambda>t. \<not> control_tag t) ts) | _ \<Rightarrow> tags)"

definition sanitize_network_write_metadata :: "dict \<Rightarrow> dict" where
  "sanitize_network_write_metadata md =
     (let clean = filter (\<lambda>(k, x). k \<notin> set NETWORK_WRITE_BLOCKED_METADATA) md in
      case dget clean ''tags'' of None \<Rightarrow> clean | Some tags \<Rightarrow> dset ''tags'' (strip_control_tags tags) clean)"

subsection \<open>The context of a server\<close>

definition TOOL_SEARCH :: string where "TOOL_SEARCH = ''memory.search''"
definition TOOL_SUBMIT :: string where "TOOL_SUBMIT = ''memory.submit_candidate''"
definition TOOL_LIST_PENDING :: string where "TOOL_LIST_PENDING = ''memory.list_pending_approvals''"
definition TOOL_APPROVE :: string where "TOOL_APPROVE = ''memory.approve_candidate''"
definition TOOL_REJECT :: string where "TOOL_REJECT = ''memory.reject_candidate''"

definition MCP_APPROVABLE_TRANSPORTS :: "string list" where
  "MCP_APPROVABLE_TRANSPORTS = [''local_cli'']"

definition DEFAULT_K :: int where "DEFAULT_K = 5"
definition MAX_K :: int where "MAX_K = 50"

record 's mcp_context =
  mx_profile :: "agent_profile option"
  mx_governance :: "env option"
  mx_transport :: "transport option"
  mx_serving :: bool
  mx_reason :: string
  mx_factory :: "'s store_ops res"
  mx_audit :: "audit_context option"

definition build_transport_if_approvable :: "env \<Rightarrow> transport option" where
  "build_transport_if_approvable g =
     (if transport_kind (appr g) \<notin> set MCP_APPROVABLE_TRANSPORTS then None
      else (case build_transport (transport_kind (appr g)) (transport_config (appr g)) of Inl _ \<Rightarrow> None | Inr t \<Rightarrow> Some t))"

definition write_capable :: "agent_profile \<Rightarrow> bool" where
  "write_capable p \<longleftrightarrow> \<not> finalizer_only p \<and> memory_type_allowlist p \<noteq> [] \<and> ''*'' \<in> set (approval_required_for p)"

definition submit_registered :: "'s mcp_context \<Rightarrow> bool" where
  "submit_registered ctx = (case mx_profile ctx of None \<Rightarrow> False | Some p \<Rightarrow> write_capable p)"

definition approval_registered :: "'s mcp_context \<Rightarrow> bool" where
  "approval_registered ctx \<longleftrightarrow> mx_transport ctx \<noteq> None \<and> mx_governance ctx \<noteq> None \<and> mx_audit ctx \<noteq> None"

definition list_tools :: "'s mcp_context \<Rightarrow> string list" where
  "list_tools ctx =
     [TOOL_SEARCH] @ (if submit_registered ctx then [TOOL_SUBMIT] else []) @
     (if approval_registered ctx then [TOOL_LIST_PENDING, TOOL_APPROVE, TOOL_REJECT] else [])"

subsection \<open>Replies\<close>

definition error_payload :: "string \<Rightarrow> string \<Rightarrow> json" where
  "error_payload message code = JObj [(''error'', JObj [(''code'', JStr code), (''message'', JStr message)])]"

definition refusal_text :: "exc \<Rightarrow> string" where
  "refusal_text e = (case e of ApprovalAuthError m \<Rightarrow> m | ApprovalStateError m \<Rightarrow> m | _ \<Rightarrow> exc_text e)"

definition pending_json :: "pending_item \<Rightarrow> json" where
  "pending_json i = JObj [(''approval_id'', JInt (pi_approval_id i)), (''wing'', pi_wing i), (''room'', pi_room i),
     (''memory_type'', pi_memory_type i), (''created_at'', JStr (pi_created_at i)),
     (''content_preview'', JStr (pi_content_preview i)), (''proposed_by'', opt_json (pi_proposed_by i))]"

subsection \<open>The handlers\<close>

text \<open>What the handlers reach: the client's methods, the token file, the finalizer's profile and worker.\<close>

record 's mcp_state =
  ms_client :: "'s client"
  ms_scorer :: scorer_state

record 's mcp_host =
  host_search :: "string \<Rightarrow> int \<Rightarrow> string list \<Rightarrow> (nat \<Rightarrow> time) \<Rightarrow> 's mcp_state \<Rightarrow> dict list res \<times> 's mcp_state"
  host_write :: "string \<Rightarrow> string \<Rightarrow> string \<Rightarrow> dict \<Rightarrow> (nat \<Rightarrow> time) \<Rightarrow> 's mcp_state \<Rightarrow> write_result res \<times> 's mcp_state"
  host_tokens :: token_fs
  host_finalizer :: "agent_profile res"
  host_worker :: string
  host_limit :: string

definition search_k :: "json option \<Rightarrow> int" where
  "search_k k = min (case k of Some (JInt n) \<Rightarrow> if n < 1 then DEFAULT_K else n | _ \<Rightarrow> DEFAULT_K) MAX_K"

definition wings_of :: "json option \<Rightarrow> string list" where
  "wings_of h = (case h of Some (JList ws) \<Rightarrow> concat (map (\<lambda>w. case w of JStr s \<Rightarrow> [s] | _ \<Rightarrow> []) ws) | _ \<Rightarrow> [])"

definition handle_search :: "'s mcp_host \<Rightarrow> bool \<Rightarrow> (nat \<Rightarrow> time) \<Rightarrow> dict \<Rightarrow> 's mcp_state \<Rightarrow> json \<times> 's mcp_state" where
  "handle_search host late clk args st =
     (case dget args ''query'' of
        Some (JStr query) \<Rightarrow>
          if py_strip query = [] then (JObj [(''hits'', JList [])], st)
          else
            (case host_search host query (search_k (dget args ''k'')) (wings_of (dget args ''wings_hint'')) clk st of
               (r, st') \<Rightarrow>
                 (if late then error_payload (''upstream Panella store search timed out after '' @ host_limit host @ ''s'') ''internal_error''
                  else (case r of
                     Inl e \<Rightarrow> error_payload (''upstream Panella store search failed: '' @ refusal_text e) ''internal_error''
                   | Inr hits \<Rightarrow> JObj [(''hits'', JList (map JObj hits))]), st'))
      | _ \<Rightarrow> (JObj [(''hits'', JList [])], st))"

definition required_text :: "dict \<Rightarrow> string \<Rightarrow> string option" where
  "required_text args key = (case dget args key of Some (JStr s) \<Rightarrow> if py_strip s = [] then None else Some s | _ \<Rightarrow> None)"

definition caller_metadata :: "dict \<Rightarrow> dict" where
  "caller_metadata args = (case dget args ''metadata'' of Some (JObj d) \<Rightarrow> d | _ \<Rightarrow> [])"

definition submit_error :: "exc \<Rightarrow> json" where
  "submit_error e =
     (case e of PermissionError m \<Rightarrow> error_payload m ''forbidden''
      | QuotaExceeded \<Rightarrow> error_payload [] ''quota_exceeded''
      | _ \<Rightarrow> if value_error e then error_payload (exc_text e) ''invalid_arguments''
            else error_payload (''submit failed: '' @ refusal_text e) ''internal_error'')"

definition submit_reply :: "write_result res \<Rightarrow> json" where
  "submit_reply r =
     (case r of Inl e \<Rightarrow> submit_error e
      | Inr w \<Rightarrow>
          if \<not> wr_queued w then error_payload ''submit did not route to the approval queue; refused'' ''internal_error''
          else JObj [(''queued'', JBool True), (''approval_id'', case wr_approval w of None \<Rightarrow> JNull | Some i \<Rightarrow> JInt i),
                     (''wing'', JStr (wr_wing w)), (''room'', JStr (wr_room w))])"

definition handle_submit :: "'s mcp_host \<Rightarrow> (nat \<Rightarrow> time) \<Rightarrow> dict \<Rightarrow> 's mcp_state \<Rightarrow> json \<times> 's mcp_state" where
  "handle_submit host clk args st =
     (case required_text args ''content'' of None \<Rightarrow> (error_payload ''content is required'' ''invalid_arguments'', st)
      | Some content \<Rightarrow> (case required_text args ''room'' of None \<Rightarrow> (error_payload ''room is required'' ''invalid_arguments'', st)
      | Some room \<Rightarrow> (case required_text args ''memory_type'' of None \<Rightarrow> (error_payload ''memory_type is required'' ''invalid_arguments'', st)
      | Some mtype \<Rightarrow>
          (case host_write host content room mtype (sanitize_network_write_metadata (caller_metadata args)) clk st of
             (r, st') \<Rightarrow> (submit_reply r, st')))))"

definition credential_of :: "dict \<Rightarrow> string option" where
  "credential_of args = (case dget args ''credential'' of Some (JStr s) \<Rightarrow> Some s | _ \<Rightarrow> None)"

definition int_of :: "json option \<Rightarrow> int option" where
  "int_of j = (case j of Some (JInt i) \<Rightarrow> Some i | _ \<Rightarrow> None)"

text \<open>Running an operation of the approval service on the client's world.\<close>

definition on_world :: "('s world \<Rightarrow> 'a \<times> 's world) \<Rightarrow> 's mcp_state \<Rightarrow> 'a \<times> 's mcp_state" where
  "on_world f st = (case f (cw (ms_client st)) of (r, w) \<Rightarrow> (r, st\<lparr>ms_client := (ms_client st)\<lparr>cw := w\<rparr>\<rparr>))"

definition approval_error :: "string \<Rightarrow> exc \<Rightarrow> json" where
  "approval_error what e =
     (case e of ApprovalAuthError m \<Rightarrow> error_payload m ''approval_refused''
      | ApprovalStateError m \<Rightarrow> error_payload m ''approval_refused''
      | _ \<Rightarrow> error_payload (what @ '' failed: '' @ refusal_text e) ''internal_error'')"

definition handle_list_pending ::
  "'s mcp_host \<Rightarrow> env \<Rightarrow> transport \<Rightarrow> audit_context \<Rightarrow> (nat \<Rightarrow> time) \<Rightarrow> dict \<Rightarrow> 's mcp_state \<Rightarrow> json \<times> 's mcp_state" where
  "handle_list_pending host g t ac clk args st =
     (case on_world (list_pending g (host_tokens host) t (credential_of args) ac (int_of (dget args ''limit'')) (clk 0)) st of
        (Inl (ApprovalAuthError m), st') \<Rightarrow> (error_payload m ''approval_refused'', st')
      | (Inl e, st') \<Rightarrow> (error_payload (''list failed: '' @ refusal_text e) ''internal_error'', st')
      | (Inr rows, st') \<Rightarrow> (JObj [(''pending'', JList (map pending_json rows))], st'))"

definition handle_approve ::
  "'s mcp_host \<Rightarrow> 's mcp_context \<Rightarrow> env \<Rightarrow> transport \<Rightarrow> audit_context \<Rightarrow> (nat \<Rightarrow> time) \<Rightarrow> dict \<Rightarrow> 's mcp_state \<Rightarrow>
   json \<times> 's mcp_state" where
  "handle_approve host ctx g t ac clk args st =
     (case int_of (dget args ''approval_id'') of
        None \<Rightarrow> (error_payload ''approval_id (int) is required'' ''invalid_arguments'', st)
      | Some i \<Rightarrow>
          (case on_world (approve g (host_tokens host) t (credential_of args) ac (mx_factory ctx) (host_finalizer host)
                 (host_worker host) clk i) st of
             (Inl ApprovalNotFinalized, st') \<Rightarrow>
               (error_payload (''approval '' @ int_str i @ '' is approved but not yet durable'') ''not_finalized'', st')
           | (Inl e, st') \<Rightarrow> (approval_error ''approval'' e, st')
           | (Inr out, st') \<Rightarrow>
               (JObj [(''approved'', JBool True), (''finalized'', JBool True), (''durable_id'', JStr (out_durable_id out)),
                      (''retried'', JBool (out_retried out))], st')))"

definition handle_reject ::
  "'s mcp_host \<Rightarrow> env \<Rightarrow> transport \<Rightarrow> audit_context \<Rightarrow> (nat \<Rightarrow> time) \<Rightarrow> dict \<Rightarrow> 's mcp_state \<Rightarrow> json \<times> 's mcp_state" where
  "handle_reject host g t ac clk args st =
     (case int_of (dget args ''approval_id'') of
        None \<Rightarrow> (error_payload ''approval_id (int) is required'' ''invalid_arguments'', st)
      | Some i \<Rightarrow>
          (case on_world (reject g (host_tokens host) t (credential_of args) ac clk i) st of
             (Inl e, st') \<Rightarrow> (approval_error ''reject'' e, st')
           | (Inr _, st') \<Rightarrow> (JObj [(''rejected'', JBool True), (''approval_id'', JInt i)], st')))"

definition dispatch ::
  "'s mcp_host \<Rightarrow> 's mcp_context \<Rightarrow> bool \<Rightarrow> (nat \<Rightarrow> time) \<Rightarrow> string \<Rightarrow> dict \<Rightarrow> 's mcp_state \<Rightarrow> json \<times> 's mcp_state" where
  "dispatch host ctx late clk name args st =
     (if \<not> mx_serving ctx then
        (error_payload (''memory not serving (governance/corpus incoherence): '' @ mx_reason ctx) ''memory_not_serving'', st)
      else if name = TOOL_SEARCH then handle_search host late clk args st
      else if name = TOOL_SUBMIT then
        (if \<not> submit_registered ctx then (error_payload (''tool not available: '' @ name) ''unknown_tool'', st)
         else handle_submit host clk args st)
      else if name \<in> set [TOOL_LIST_PENDING, TOOL_APPROVE, TOOL_REJECT] then
        (case (mx_governance ctx, mx_transport ctx, mx_audit ctx) of
           (Some g, Some t, Some ac) \<Rightarrow>
             if name = TOOL_LIST_PENDING then handle_list_pending host g t ac clk args st
             else if name = TOOL_APPROVE then handle_approve host ctx g t ac clk args st
             else handle_reject host g t ac clk args st
         | _ \<Rightarrow> (error_payload (''tool not available: '' @ name) ''unknown_tool'', st))
      else (error_payload (''unknown tool: '' @ name) ''unknown_tool'', st))"


subsection \<open>The memory client behind the tools\<close>

text \<open>The parameters of \<open>MemoryClient.write\<close>: a metadata key of the same name makes the call a type error.\<close>

definition WRITE_ARGUMENTS :: "string list" where
  "WRITE_ARGUMENTS = [''self'', ''content'', ''room'', ''memory_type'']"

definition write_kwargs ::
  "env \<Rightarrow> agent_profile \<Rightarrow> 's client_ops \<Rightarrow> string \<Rightarrow> string \<Rightarrow> string \<Rightarrow> dict \<Rightarrow> (nat \<Rightarrow> time) \<Rightarrow> 's client \<Rightarrow>
   write_result res \<times> 's client" where
  "write_kwargs v p ops content room mtype md clk c =
     (if list_ex (\<lambda>(k, x). k \<in> set WRITE_ARGUMENTS) md then (Inl (TypeError ''got multiple values for argument''), c)
      else client_write v p ops content room mtype None md clk c)"

definition call_write ::
  "env \<Rightarrow> agent_profile \<Rightarrow> 's client_ops \<Rightarrow> string \<Rightarrow> string \<Rightarrow> string \<Rightarrow> dict \<Rightarrow> (nat \<Rightarrow> time) \<Rightarrow> 's mcp_state \<Rightarrow>
   write_result res \<times> 's mcp_state" where
  "call_write v p ops content room mtype md clk st =
     (case write_kwargs v p ops content room mtype md clk (ms_client st) of (r, c) \<Rightarrow> (r, st\<lparr>ms_client := c\<rparr>))"

definition call_search ::
  "env \<Rightarrow> agent_profile \<Rightarrow> reader_env \<Rightarrow> (string \<Rightarrow> scorer res) \<Rightarrow> ('r::linorder) boost_ops \<Rightarrow> 's searcher \<Rightarrow> string \<Rightarrow> int \<Rightarrow>
   string list \<Rightarrow> (nat \<Rightarrow> time) \<Rightarrow> 's mcp_state \<Rightarrow> dict list res \<times> 's mcp_state" where
  "call_search v p re load bo asks query k hints clk st =
     (case the (client_search v p re load bo asks query (Some k) hints clk (ms_client st) (ms_scorer st)) of
        ((r, c), sc) \<Rightarrow> (r, \<lparr>ms_client = c, ms_scorer = sc\<rparr>))"

definition client_host ::
  "env \<Rightarrow> agent_profile \<Rightarrow> 's client_ops \<Rightarrow> reader_env \<Rightarrow> (string \<Rightarrow> scorer res) \<Rightarrow> ('r::linorder) boost_ops \<Rightarrow> 's searcher \<Rightarrow>
   token_fs \<Rightarrow> agent_profile res \<Rightarrow> string \<Rightarrow> string \<Rightarrow> 's mcp_host" where
  "client_host v p ops re load bo asks fs prof wid limit =
     \<lparr>host_search = call_search v p re load bo asks, host_write = call_write v p ops, host_tokens = fs,
      host_finalizer = prof, host_worker = wid, host_limit = limit\<rparr>"

subsection \<open>Hygiene\<close>

lemma clean_blocked: "k \<in> set NETWORK_WRITE_BLOCKED_METADATA \<Longrightarrow> dget (sanitize_network_write_metadata md) k = None"
proof -
  assume k: "k \<in> set NETWORK_WRITE_BLOCKED_METADATA"
  have f: "dget (filter (\<lambda>(k, x). k \<notin> set NETWORK_WRITE_BLOCKED_METADATA) md) k = None"
    using k by (induction md) auto
  have "k \<noteq> ''tags''" using k by (auto simp: NETWORK_WRITE_BLOCKED_METADATA_def HTTP_BLOCKED_WRITE_METADATA_def)
  with f show ?thesis by (simp add: sanitize_network_write_metadata_def Let_def dict_simps split: option.split)
qed

lemma clean_tags:
  "dget (sanitize_network_write_metadata md) ''tags'' = Some (JList ts) \<Longrightarrow> list_all (\<lambda>t. \<not> control_tag t) ts"
  by (auto simp: sanitize_network_write_metadata_def Let_def dict_simps strip_control_tags_def list_all_iff
      split: option.split_asm json.split_asm)

subsection \<open>The approval service leaves the store alone\<close>

lemma list_pending_store: "list_pending g fs t cr ac n now w = (r, w') \<Longrightarrow> w_store w' = w_store w \<and> w_outbox w' = w_outbox w"
  by (auto simp: list_pending_def Let_def split: sum.split_asm prod.split_asm)

lemma reject_store: "reject g fs t cr ac clk i w = (r, w') \<Longrightarrow> w_store w' = w_store w"
  by (auto simp: reject_def Let_def split: sum.split_asm prod.split_asm if_split_asm)

lemma reject_refused:
  "verify_approver fs t g cr = Inl e \<Longrightarrow> reject g fs t cr ac clk i w = (r, w') \<Longrightarrow> w_store w' = w_store w \<and> w_outbox w' = w_outbox w"
  by (auto simp: reject_def)

lemma approve_refused:
  "verify_approver fs t g cr = Inl e \<Longrightarrow> approve g fs t cr ac fac prof wid clk i w = (r, w') \<Longrightarrow>
   w_store w' = w_store w \<and> w_outbox w' = w_outbox w"
  by (auto simp: approve_def)

lemma on_world_parts:
  "on_world f st = (r, st') \<longleftrightarrow> (\<exists>w'. f (cw (ms_client st)) = (r, w') \<and> st' = st\<lparr>ms_client := (ms_client st)\<lparr>cw := w'\<rparr>\<rparr>)"
  by (cases "f (cw (ms_client st))") (auto simp: on_world_def)

lemma list_pending_handler:
  "handle_list_pending host g t ac clk args st = (reply, st') \<Longrightarrow>
     \<exists>r. list_pending g (host_tokens host) t (credential_of args) ac (int_of (dget args ''limit'')) (clk 0) (cw (ms_client st)) =
       (r, cw (ms_client st')) \<and> ms_scorer st' = ms_scorer st"
  by (cases "on_world (list_pending g (host_tokens host) t (credential_of args) ac (int_of (dget args ''limit'')) (clk 0)) st")
    (auto simp: handle_list_pending_def on_world_parts split: sum.split_asm exc.split_asm)

lemma approve_handler:
  assumes "handle_approve host ctx g t ac clk args st = (reply, st')"
  shows "st' = st \<or> (\<exists>i r. dget args ''approval_id'' = Some (JInt i) \<and>
     approve g (host_tokens host) t (credential_of args) ac (mx_factory ctx) (host_finalizer host) (host_worker host) clk i (cw (ms_client st)) =
       (r, cw (ms_client st')))"
proof (cases "int_of (dget args ''approval_id'')")
  case None
  with assms show ?thesis by (simp add: handle_approve_def)
next
  case (Some i)
  obtain r st1 where o': "on_world (approve g (host_tokens host) t (credential_of args) ac (mx_factory ctx) (host_finalizer host)
      (host_worker host) clk i) st = (r, st1)"
    by (cases "on_world (approve g (host_tokens host) t (credential_of args) ac (mx_factory ctx) (host_finalizer host)
      (host_worker host) clk i) st")
  then have "st' = st1" using assms Some by (auto simp: handle_approve_def split: sum.split_asm exc.split_asm)
  moreover have "dget args ''approval_id'' = Some (JInt i)" using Some by (auto simp: int_of_def split: option.split_asm json.split_asm)
  ultimately show ?thesis using o' by (auto simp: on_world_parts)
qed

lemma reject_handler:
  assumes "handle_reject host g t ac clk args st = (reply, st')"
  shows "st' = st \<or> (\<exists>i r. dget args ''approval_id'' = Some (JInt i) \<and>
     reject g (host_tokens host) t (credential_of args) ac clk i (cw (ms_client st)) = (r, cw (ms_client st')))"
proof (cases "int_of (dget args ''approval_id'')")
  case None
  with assms show ?thesis by (simp add: handle_reject_def)
next
  case (Some i)
  obtain r st1 where o': "on_world (reject g (host_tokens host) t (credential_of args) ac clk i) st = (r, st1)"
    by (cases "on_world (reject g (host_tokens host) t (credential_of args) ac clk i) st")
  then have "st' = st1" using assms Some by (auto simp: handle_reject_def split: sum.split_asm)
  moreover have "dget args ''approval_id'' = Some (JInt i)" using Some by (auto simp: int_of_def split: option.split_asm json.split_asm)
  ultimately show ?thesis using o' by (auto simp: on_world_parts)
qed

subsection \<open>The client contract\<close>

text \<open>
  What the tools rely on: a search leaves the store alone, and so does a write of a capable client, because it can
  only queue a candidate.
\<close>

locale candidate_client =
  fixes host :: "'s mcp_host" and capable :: bool
  assumes search_keeps: "host_search host query k hints clk st = (r, st') \<Longrightarrow>
      client_store (ms_client st') = client_store (ms_client st)"
    and write_keeps: "capable \<Longrightarrow> host_write host content room mtype md clk st = (w, st') \<Longrightarrow>
      client_store (ms_client st') = client_store (ms_client st)"
begin

lemma search_tool_keeps:
  "handle_search host late clk args st = (reply, st') \<Longrightarrow> client_store (ms_client st') = client_store (ms_client st)"
  using search_keeps
  by (auto simp: handle_search_def split: option.split_asm json.split_asm if_split_asm prod.split_asm)

lemma submit_tool_keeps:
  "capable \<Longrightarrow> handle_submit host clk args st = (reply, st') \<Longrightarrow> client_store (ms_client st') = client_store (ms_client st)"
  using write_keeps
  by (auto simp: handle_submit_def split: option.split_asm prod.split_asm)

lemma list_tool_keeps:
  assumes "handle_list_pending host g t ac clk args st = (reply, st')"
  shows "client_store (ms_client st') = client_store (ms_client st)"
proof -
  obtain r where r: "list_pending g (host_tokens host) t (credential_of args) ac (int_of (dget args ''limit'')) (clk 0) (cw (ms_client st)) =
       (r, cw (ms_client st'))" using list_pending_handler [OF assms] by blast
  from list_pending_store [OF this] show ?thesis by (simp add: client_store_def)
qed

lemma reject_tool_keeps:
  assumes "handle_reject host g t ac clk args st = (reply, st')"
  shows "client_store (ms_client st') = client_store (ms_client st)"
  using reject_handler [OF assms] reject_store by (fastforce simp: client_store_def)

lemma approve_tool_authorized:
  assumes "handle_approve host ctx g t ac clk args st = (reply, st')"
    and "client_store (ms_client st') \<noteq> client_store (ms_client st)"
  shows "\<exists>i who. dget args ''approval_id'' = Some (JInt i) \<and>
    verify_approver (host_tokens host) t g (credential_of args) = Inr who"
proof -
  obtain i r where i: "dget args ''approval_id'' = Some (JInt i)"
    and a: "approve g (host_tokens host) t (credential_of args) ac (mx_factory ctx) (host_finalizer host) (host_worker host) clk i
      (cw (ms_client st)) = (r, cw (ms_client st'))"
    using approve_handler [OF assms(1)] assms(2) by auto
  show ?thesis
  proof (cases "verify_approver (host_tokens host) t g (credential_of args)")
    case (Inl e)
    from approve_refused [OF this a] assms(2) show ?thesis by (simp add: client_store_def)
  next
    case (Inr who)
    with i show ?thesis by blast
  qed
qed

text \<open>Only an authorized approval reaches the store.\<close>

lemma dispatch_store:
  assumes "dispatch host ctx late clk name args st = (reply, st')"
    and "client_store (ms_client st') \<noteq> client_store (ms_client st)" and "submit_registered ctx \<Longrightarrow> capable"
  shows "mx_serving ctx \<and> name = TOOL_APPROVE \<and>
    (\<exists>g t ac i who. mx_governance ctx = Some g \<and> mx_transport ctx = Some t \<and> mx_audit ctx = Some ac \<and>
       dget args ''approval_id'' = Some (JInt i) \<and> verify_approver (host_tokens host) t g (credential_of args) = Inr who)"
proof -
  have serving: "mx_serving ctx" using assms by (cases "mx_serving ctx") (auto simp: dispatch_def)
  have nosearch: "name \<noteq> TOOL_SEARCH" using assms search_tool_keeps serving by (auto simp: dispatch_def)
  have nosubmit: "name \<noteq> TOOL_SUBMIT"
    using assms submit_tool_keeps serving nosearch by (auto simp: dispatch_def split: if_split_asm)
  obtain g t ac where armed: "mx_governance ctx = Some g" "mx_transport ctx = Some t" "mx_audit ctx = Some ac"
    and name: "name \<in> set [TOOL_LIST_PENDING, TOOL_APPROVE, TOOL_REJECT]"
    using assms serving nosearch nosubmit by (auto simp: dispatch_def split: if_split_asm option.split_asm)
  have nolist: "name \<noteq> TOOL_LIST_PENDING"
    using assms list_tool_keeps serving nosearch nosubmit armed by (auto simp: dispatch_def)
  have approve: "name = TOOL_APPROVE"
  proof (rule ccontr)
    assume "name \<noteq> TOOL_APPROVE"
    then have "handle_reject host g t ac clk args st = (reply, st')"
      using assms(1) serving nosearch nosubmit nolist armed name by (simp add: dispatch_def)
    from reject_tool_keeps [OF this] assms(2) show False by contradiction
  qed
  then have "handle_approve host ctx g t ac clk args st = (reply, st')"
    using assms(1) serving nosearch nosubmit nolist armed name by (simp add: dispatch_def)
  from approve_tool_authorized [OF this assms(2)] approve serving armed show ?thesis by blast
qed

end

subsection \<open>The memory client keeps the contract\<close>

lemma star_required: "''*'' \<in> set (approval_required_for p) \<Longrightarrow> approval_required p wing room"
  unfolding approval_required_def matches_any_def list_ex_iff by (rule bexI [of _ "''*''"]) (rule glob_star)

lemma call_search_keeps:
  assumes "call_search v p re load bo asks query k hints clk st = (r, st')"
  shows "client_store (ms_client st') = client_store (ms_client st) \<and> me (ms_client st') = me (ms_client st)"
proof -
  obtain r0 c' sc' where run: "client_search v p re load bo asks query (Some k) hints clk (ms_client st) (ms_scorer st) = Some ((r0, c'), sc')"
    and keeps: "client_store c' = client_store (ms_client st)" "me c' = me (ms_client st)"
    using search_shows [of v p re load bo asks query "Some k" hints clk "ms_client st" "ms_scorer st"] by blast
  then have "st' = \<lparr>ms_client = c', ms_scorer = sc'\<rparr>" using assms by (auto simp: call_search_def)
  with keeps show ?thesis by simp
qed

lemma call_write_keeps:
  assumes "''*'' \<in> set (approval_required_for p)" and "call_write v p ops content room mtype md clk st = (r, st')"
  shows "client_store (ms_client st') = client_store (ms_client st)"
proof (cases "list_ex (\<lambda>(k, x). k \<in> set WRITE_ARGUMENTS) md")
  case True
  with assms(2) show ?thesis by (auto simp: call_write_def write_kwargs_def)
next
  case False
  then obtain c' where w: "client_write v p ops content room mtype None md clk (ms_client st) = (r, c')"
    and st': "st' = st\<lparr>ms_client := c'\<rparr>" using assms(2) by (auto simp: call_write_def write_kwargs_def split: prod.split_asm)
  from w have "client_store c' = client_store (ms_client st)"
  proof (cases rule: write_stages)
    case (refused e)
    then show ?thesis using enforce_parts(3) [of p "clk 1" "ms_client st"] by auto
  next
    case (queued infer tenant c1)
    then show ?thesis using write_queued_effect [OF queued(3)] admit_ok [OF queued(1)] by (simp add: client_store_def)
  next
    case (direct infer tenant c1)
    with star_required [OF assms(1)] show ?thesis by blast
  qed
  with st' show ?thesis by simp
qed

lemma client_host_parts [simp]:
  "host_search (client_host v p ops re load bo asks fs prof wid limit) = call_search v p re load bo asks"
  "host_write (client_host v p ops re load bo asks fs prof wid limit) = call_write v p ops"
  "host_tokens (client_host v p ops re load bo asks fs prof wid limit) = fs"
  by (simp_all add: client_host_def)

interpretation tools: candidate_client "client_host v p ops re load bo asks fs prof wid limit" "write_capable p"
proof unfold_locales
  show "client_store (ms_client st') = client_store (ms_client st)"
    if "host_search (client_host v p ops re load bo asks fs prof wid limit) query k hints clk st = (r, st')" for query k hints clk st r st'
    by (rule conjunct1 [OF call_search_keeps [OF that [unfolded client_host_parts]]])
next
  show "client_store (ms_client st') = client_store (ms_client st)"
    if "write_capable p" and "host_write (client_host v p ops re load bo asks fs prof wid limit) content room mtype md clk st = (w, st')"
    for content room mtype md clk st w st'
    using call_write_keeps [of p v ops content room mtype md clk st w st'] that by (simp add: write_capable_def)
qed

subsection \<open>What an MCP client can do\<close>

text \<open>
  C21: whatever an MCP client calls with whatever arguments, the durable store changes only by an approval: the server
  passed its self-check, the tool is \<open>memory.approve_candidate\<close>, it names an approval id, and its credential was
  verified by the configured transport as an authorized approver.  The submit tool in particular never writes.
\<close>

theorem mcp_store_guarded:
  assumes "dispatch (client_host v p ops re load bo asks fs prof wid limit) ctx late clk name args st = (reply, st')"
    and "mx_profile ctx \<in> {None, Some p}" and "client_store (ms_client st') \<noteq> client_store (ms_client st)"
  shows "mx_serving ctx \<and> name = TOOL_APPROVE \<and>
    (\<exists>g t i who c. mx_governance ctx = Some g \<and> mx_transport ctx = Some t \<and> mx_audit ctx \<noteq> None \<and>
       dget args ''approval_id'' = Some (JInt i) \<and> dget args ''credential'' = Some (JStr c) \<and>
       verify_presser fs t c = Some who \<and> who \<in> set (authorized_approvers (appr g)))"
proof -
  have "submit_registered ctx \<Longrightarrow> write_capable p" using assms(2) by (auto simp: submit_registered_def)
  from tools.dispatch_store [OF assms(1,3) this] obtain g t ac i who where d: "mx_serving ctx" "name = TOOL_APPROVE"
    "mx_governance ctx = Some g" "mx_transport ctx = Some t" "mx_audit ctx = Some ac" "dget args ''approval_id'' = Some (JInt i)"
    and who: "verify_approver fs t g (credential_of args) = Inr who" by auto
  obtain c where c: "credential_of args = Some c" "verify_presser fs t c = Some who" "who \<in> set (authorized_approvers (appr g))"
    using verify_approver_ok [OF who] by blast
  then have "dget args ''credential'' = Some (JStr c)" by (simp add: credential_of_def split: option.split_asm json.split_asm)
  with d c show ?thesis by blast
qed

text \<open>Who wrote a candidate does not depend on what the caller says.\<close>

lemma clean_identity:
  assumes "md = sanitize_network_write_metadata raw'"
  shows "dget (own_metadata md) ''subject_id'' = None" "dget (own_metadata md) ''actor_id'' = None"
    "dget (own_metadata md) ''principal_id'' = None" "dget (own_metadata md) ''source_system'' = None"
    "dget (own_metadata md) ''source_artifact_key'' = None" "dget (own_metadata md) ''tags'' = dget md ''tags''"
  using clean_blocked [of _ raw'] assms
  by (simp_all add: own_metadata_def delete_conv' NETWORK_WRITE_BLOCKED_METADATA_def HTTP_BLOCKED_WRITE_METADATA_def)

lemma payload_identity:
  assumes "md = sanitize_network_write_metadata raw'"
  shows "dget (write_payload p who md room tenant mtype infer clk) ''subject_id'' = Some (JStr (subject_id who))"
    "dget (write_payload p who md room tenant mtype infer clk) ''actor_id'' = Some (JStr (actor_id who))"
    "dget (write_payload p who md room tenant mtype infer clk) ''principal_id'' = Some (JStr (pr_id who))"
    "dget (write_payload p who md room tenant mtype infer clk) ''source_system'' = Some (JStr (''memory-client:'' @ prof_name p))"
    "dget (write_payload p who md room tenant mtype infer clk) ''tenant_id'' = Some (JStr tenant)"
    "dget (write_payload p who md room tenant mtype infer clk) ''tags'' = dget md ''tags''"
    "dget (write_payload p who md room tenant mtype infer clk) ''source_artifact_key'' = None"
  using clean_identity [OF assms]
  by (simp_all add: write_payload_def payload_metadata_def retention_metadata_def bitemporal_metadata_def dict_simps Let_def jor_def)

lemma write_stays_queued:
  assumes "client_write v p ops text room mtype conv md clk c = (Inr r, c')" and "''*'' \<in> set (approval_required_for p)"
  shows "has_scope (me c) ''memory.write'' \<and> mtype \<in> set (memory_type_allowlist p) \<and>
    (\<exists>i infer tenant candidate. wr_approval r = Some i \<and>
       approvals (w_outbox (cw c')) = approvals (w_outbox (cw c)) @ [queued_row (prof_name p) candidate i (clk 6)] \<and>
       dget candidate ''text'' = Some (JStr (sanitize v text)) \<and> dget candidate ''memory_type'' = Some (JStr mtype) \<and>
       dget candidate ''metadata'' = Some (JObj (write_payload p (me c) md (write_room p room) tenant mtype infer clk)) \<and>
       (tenant = tenant_id (me c) \<and> allows_tenant p tenant \<or> is_root_with_break_glass (me c) (clk 4)))"
  using assms(1)
proof (cases rule: write_stages)
  case (queued infer tenant c1)
  note e = write_queued_effect [OF queued(3)] and a = admit_ok [OF queued(1)]
  have "has_scope (me c) ''memory.write''" "mtype \<in> set (memory_type_allowlist p)"
    using a by (auto simp: write_guard_def require_scope_def rbind_Inr_iff split: if_split_asm)
  moreover have "tenant = tenant_id (me c) \<and> allows_tenant p tenant \<or> is_root_with_break_glass (me c) (clk 4)"
    using a resolved_tenant by blast
  moreover have "\<exists>i candidate. wr_approval r = Some i \<and>
       approvals (w_outbox (cw c')) = approvals (w_outbox (cw c)) @ [queued_row (prof_name p) candidate i (clk 6)] \<and>
       dget candidate ''text'' = Some (JStr (sanitize v text)) \<and> dget candidate ''memory_type'' = Some (JStr mtype) \<and>
       dget candidate ''metadata'' = Some (JObj (write_payload p (me c) md (write_room p room) tenant mtype infer clk))"
    using e a by (auto simp: enqueue_approval_def Let_def rbind_Inr_iff)
  ultimately show ?thesis by blast
next
  case (direct infer tenant c1)
  with star_required [OF assms(2)] show ?thesis by blast
qed simp

text \<open>A reply that reports a queued candidate comes from a write that queued one.\<close>

lemma error_not_queued: "dget d ''queued'' = Some (JBool True) \<Longrightarrow> error_payload m c \<noteq> JObj d"
  by (auto simp: error_payload_def)

lemma submit_reply_queued:
  assumes "submit_reply r = JObj d" and "dget d ''queued'' = Some (JBool True)"
  shows "\<exists>w. r = Inr w \<and> wr_queued w \<and> (\<forall>i. wr_approval w = Some i \<longrightarrow> dget d ''approval_id'' = Some (JInt i))"
  using assms error_not_queued [OF assms(2)]
  by (auto simp: submit_reply_def submit_error_def split: sum.split_asm if_split_asm exc.split_asm)

lemma submit_handler:
  assumes "handle_submit host clk args st = (JObj d, st')" and "dget d ''queued'' = Some (JBool True)"
  shows "\<exists>content room mtype w. dget args ''content'' = Some (JStr content) \<and> py_strip content \<noteq> [] \<and>
    host_write host content room mtype (sanitize_network_write_metadata (caller_metadata args)) clk st = (Inr w, st') \<and> wr_queued w \<and>
    (\<forall>i. wr_approval w = Some i \<longrightarrow> dget d ''approval_id'' = Some (JInt i))"
proof -
  obtain content room mtype where a: "required_text args ''content'' = Some content" "required_text args ''room'' = Some room"
    "required_text args ''memory_type'' = Some mtype"
    using assms(1) error_not_queued [OF assms(2)] by (auto simp: handle_submit_def split: option.split_asm)
  obtain r st1 where w: "host_write host content room mtype (sanitize_network_write_metadata (caller_metadata args)) clk st = (r, st1)"
    by (cases "host_write host content room mtype (sanitize_network_write_metadata (caller_metadata args)) clk st")
  have "submit_reply r = JObj d" "st1 = st'" using assms(1) a w by (simp_all add: handle_submit_def)
  with submit_reply_queued [OF this(1) assms(2)] w a(1) show ?thesis
    by (auto simp: required_text_def split: option.split_asm json.split_asm if_split_asm)
qed

text \<open>
  A successful submission appends exactly one pending candidate to the queue, holding the sanitized text, and
  says its id; whatever metadata the caller sent, the candidate's subject, actor, principal, source system and tenant
  are those of the server's profile and principal, and it carries no cc-sync control tag or source key.
\<close>

theorem mcp_candidate_attributed:
  assumes "dispatch (client_host v p ops re load bo asks fs prof wid limit) ctx late clk TOOL_SUBMIT args st = (JObj d, st')"
    and "dget d ''queued'' = Some (JBool True)" and "mx_profile ctx = Some p"
  shows "\<exists>i content candidate payload tenant.
    dget d ''approval_id'' = Some (JInt i) \<and> dget args ''content'' = Some (JStr content) \<and>
    approvals (w_outbox (cw (ms_client st'))) =
      approvals (w_outbox (cw (ms_client st))) @ [queued_row (prof_name p) candidate i (clk 6)] \<and>
    dget candidate ''text'' = Some (JStr (sanitize v content)) \<and> dget candidate ''metadata'' = Some (JObj payload) \<and>
    dget payload ''subject_id'' = Some (JStr (subject_id (me (ms_client st)))) \<and>
    dget payload ''actor_id'' = Some (JStr (actor_id (me (ms_client st)))) \<and>
    dget payload ''principal_id'' = Some (JStr (pr_id (me (ms_client st)))) \<and>
    dget payload ''source_system'' = Some (JStr (''memory-client:'' @ prof_name p)) \<and>
    dget payload ''tenant_id'' = Some (JStr tenant) \<and>
    (tenant = tenant_id (me (ms_client st)) \<and> allows_tenant p tenant \<or> is_root_with_break_glass (me (ms_client st)) (clk 4)) \<and>
    dget payload ''source_artifact_key'' = None \<and>
    (\<forall>ts. dget payload ''tags'' = Some (JList ts) \<longrightarrow> list_all (\<lambda>t. \<not> control_tag t) ts)"
proof -
  let ?md = "sanitize_network_write_metadata (caller_metadata args)"
  have other: "TOOL_SUBMIT \<noteq> TOOL_SEARCH" by code_simp
  have ok: "mx_serving ctx" "submit_registered ctx"
    using assms(1) other error_not_queued [OF assms(2)] by (auto simp: dispatch_def split: if_split_asm)
  then have star: "''*'' \<in> set (approval_required_for p)" using assms(3) by (simp add: submit_registered_def write_capable_def)
  have "handle_submit (client_host v p ops re load bo asks fs prof wid limit) clk args st = (JObj d, st')"
    using assms(1) ok other by (simp add: dispatch_def)
  from submit_handler [OF this assms(2)] obtain content room mtype w where content: "dget args ''content'' = Some (JStr content)"
    and call: "call_write v p ops content room mtype ?md clk st = (Inr w, st')"
    and told: "\<And>i. wr_approval w = Some i \<Longrightarrow> dget d ''approval_id'' = Some (JInt i)" by auto
  obtain c' where cw: "client_write v p ops content room mtype None ?md clk (ms_client st) = (Inr w, c')" and st': "ms_client st' = c'"
    using call by (auto simp: call_write_def write_kwargs_def split: if_split_asm prod.split_asm)
  from write_stays_queued [OF cw star] obtain i infer tenant candidate where q: "wr_approval w = Some i"
    "approvals (w_outbox (cw c')) = approvals (w_outbox (cw (ms_client st))) @ [queued_row (prof_name p) candidate i (clk 6)]"
    "dget candidate ''text'' = Some (JStr (sanitize v content))"
    "dget candidate ''metadata'' = Some (JObj (write_payload p (me (ms_client st)) ?md (write_room p room) tenant mtype infer clk))"
    "tenant = tenant_id (me (ms_client st)) \<and> allows_tenant p tenant \<or> is_root_with_break_glass (me (ms_client st)) (clk 4)" by blast
  note id = payload_identity [OF refl, of p "me (ms_client st)" "caller_metadata args" "write_room p room" tenant mtype infer clk]
  have "list_all (\<lambda>t. \<not> control_tag t) ts"
    if "dget (write_payload p (me (ms_client st)) ?md (write_room p room) tenant mtype infer clk) ''tags'' = Some (JList ts)" for ts
    using that id(6) clean_tags by simp
  with content told [OF q(1)] q st' id show ?thesis by (intro exI conjI) (assumption | simp)+
qed

text \<open>No handler calls its own tool unknown.\<close>

definition says_unknown :: "json \<Rightarrow> bool" where
  "says_unknown reply \<longleftrightarrow> (\<exists>m. reply = error_payload m ''unknown_tool'')"

lemma says_unknown_simps [simp]:
  "says_unknown (error_payload m c) \<longleftrightarrow> c = ''unknown_tool''"
  "k \<noteq> ''error'' \<Longrightarrow> \<not> says_unknown (JObj ((k, x) # d))"
  by (auto simp: says_unknown_def error_payload_def)

lemma handlers_known:
  "\<not> says_unknown (fst (handle_search host late clk args st))"
  "\<not> says_unknown (fst (handle_submit host clk args st))"
  "\<not> says_unknown (fst (handle_list_pending host g t ac clk args st))"
  "\<not> says_unknown (fst (handle_approve host ctx g t ac clk args st))"
  "\<not> says_unknown (fst (handle_reject host g t ac clk args st))"
  by (simp_all add: handle_search_def handle_submit_def submit_reply_def submit_error_def handle_list_pending_def handle_approve_def
      handle_reject_def approval_error_def split: option.split json.split sum.split exc.split prod.split)

lemma approval_tool_refused:
  assumes "\<not> is_ok (verify_approver (host_tokens host) t g (credential_of args))"
  shows "handle_list_pending host g t ac clk args st = (reply, st') \<or> handle_approve host ctx g t ac clk args st = (reply, st') \<or>
      handle_reject host g t ac clk args st = (reply, st') \<Longrightarrow>
    w_store (cw (ms_client st')) = w_store (cw (ms_client st)) \<and> w_outbox (cw (ms_client st')) = w_outbox (cw (ms_client st))"
proof (elim disjE)
  obtain e where e: "verify_approver (host_tokens host) t g (credential_of args) = Inl e"
    using assms by (cases "verify_approver (host_tokens host) t g (credential_of args)") auto
  show ?thesis if "handle_list_pending host g t ac clk args st = (reply, st')"
    using list_pending_handler [OF that] list_pending_store by fastforce
  show ?thesis if "handle_approve host ctx g t ac clk args st = (reply, st')"
    using approve_handler [OF that] approve_refused [OF e] by fastforce
  show ?thesis if "handle_reject host g t ac clk args st = (reply, st')"
    using reject_handler [OF that] reject_refused [OF e] by fastforce
qed

lemma tool_names [simp]:
  "TOOL_SEARCH \<noteq> TOOL_SUBMIT" "TOOL_SEARCH \<noteq> TOOL_LIST_PENDING" "TOOL_SEARCH \<noteq> TOOL_APPROVE" "TOOL_SEARCH \<noteq> TOOL_REJECT"
  "TOOL_SUBMIT \<noteq> TOOL_SEARCH" "TOOL_SUBMIT \<noteq> TOOL_LIST_PENDING" "TOOL_SUBMIT \<noteq> TOOL_APPROVE" "TOOL_SUBMIT \<noteq> TOOL_REJECT"
  "TOOL_LIST_PENDING \<noteq> TOOL_SEARCH" "TOOL_LIST_PENDING \<noteq> TOOL_SUBMIT" "TOOL_LIST_PENDING \<noteq> TOOL_APPROVE" "TOOL_LIST_PENDING \<noteq> TOOL_REJECT"
  "TOOL_APPROVE \<noteq> TOOL_SEARCH" "TOOL_APPROVE \<noteq> TOOL_SUBMIT" "TOOL_APPROVE \<noteq> TOOL_LIST_PENDING" "TOOL_APPROVE \<noteq> TOOL_REJECT"
  "TOOL_REJECT \<noteq> TOOL_SEARCH" "TOOL_REJECT \<noteq> TOOL_SUBMIT" "TOOL_REJECT \<noteq> TOOL_LIST_PENDING" "TOOL_REJECT \<noteq> TOOL_APPROVE"
  by (simp_all add: TOOL_SEARCH_def TOOL_SUBMIT_def TOOL_LIST_PENDING_def TOOL_APPROVE_def TOOL_REJECT_def)

lemma dispatch_refuses:
  "\<not> mx_serving ctx \<Longrightarrow> dispatch host ctx late clk name args st =
     (error_payload (''memory not serving (governance/corpus incoherence): '' @ mx_reason ctx) ''memory_not_serving'', st)"
  "mx_serving ctx \<Longrightarrow> name \<notin> set (list_tools ctx) \<Longrightarrow> \<exists>m. dispatch host ctx late clk name args st = (error_payload m ''unknown_tool'', st)"
  by (auto simp: dispatch_def list_tools_def approval_registered_def split: option.split if_split_asm)

lemma dispatch_known:
  "mx_serving ctx \<Longrightarrow> name \<in> set (list_tools ctx) \<Longrightarrow> \<not> says_unknown (fst (dispatch host ctx late clk name args st))"
  by (auto simp: dispatch_def list_tools_def approval_registered_def handlers_known split: option.split if_split_asm)

lemma dispatch_approval_tool:
  assumes "dispatch host ctx late clk name args st = (reply, st')" and "name \<in> set [TOOL_LIST_PENDING, TOOL_APPROVE, TOOL_REJECT]"
  shows "st' = st \<or> (\<exists>g t ac. mx_governance ctx = Some g \<and> mx_transport ctx = Some t \<and>
     (handle_list_pending host g t ac clk args st = (reply, st') \<or> handle_approve host ctx g t ac clk args st = (reply, st') \<or>
      handle_reject host g t ac clk args st = (reply, st')))"
  using assms by (auto simp: dispatch_def split: if_split_asm option.split_asm)

text \<open>
  Refusals.  A server that failed its self-check answers every call with an error and changes nothing; a serving
  one calls a tool unknown exactly when it does not advertise it, and changes nothing then.  An approval tool whose
  credential does not verify leaves queue and store as they were.
\<close>

theorem mcp_fails_closed:
  assumes "dispatch host ctx late clk name args st = (reply, st')"
  shows "(\<not> mx_serving ctx \<longrightarrow> st' = st \<and>
        reply = error_payload (''memory not serving (governance/corpus incoherence): '' @ mx_reason ctx) ''memory_not_serving'') \<and>
    (mx_serving ctx \<longrightarrow> ((\<exists>m. reply = error_payload m ''unknown_tool'') \<longleftrightarrow> name \<notin> set (list_tools ctx)) \<and>
        (name \<notin> set (list_tools ctx) \<longrightarrow> st' = st)) \<and>
    (name \<in> set [TOOL_LIST_PENDING, TOOL_APPROVE, TOOL_REJECT] \<and>
       (\<forall>g t. mx_governance ctx = Some g \<and> mx_transport ctx = Some t \<longrightarrow>
          \<not> is_ok (verify_approver (host_tokens host) t g (credential_of args))) \<longrightarrow>
       client_store (ms_client st') = client_store (ms_client st) \<and> w_outbox (cw (ms_client st')) = w_outbox (cw (ms_client st)))"
proof (intro conjI impI)
  show "st' = st" "reply = error_payload (''memory not serving (governance/corpus incoherence): '' @ mx_reason ctx) ''memory_not_serving''"
    if "\<not> mx_serving ctx"
    using dispatch_refuses(1) [OF that, of host late clk name args st] assms by simp_all
  show "st' = st" if "mx_serving ctx" "name \<notin> set (list_tools ctx)"
    using dispatch_refuses(2) [OF that, of host late clk args st] assms by auto
  show "(\<exists>m. reply = error_payload m ''unknown_tool'') \<longleftrightarrow> name \<notin> set (list_tools ctx)" if "mx_serving ctx"
    using dispatch_refuses(2) [OF that, of name host late clk args st] dispatch_known [OF that, of name host late clk args st] assms
    by (auto simp: says_unknown_def)
next
  assume h: "name \<in> set [TOOL_LIST_PENDING, TOOL_APPROVE, TOOL_REJECT] \<and>
       (\<forall>g t. mx_governance ctx = Some g \<and> mx_transport ctx = Some t \<longrightarrow>
          \<not> is_ok (verify_approver (host_tokens host) t g (credential_of args)))"
  have "w_store (cw (ms_client st')) = w_store (cw (ms_client st)) \<and> w_outbox (cw (ms_client st')) = w_outbox (cw (ms_client st))"
    using dispatch_approval_tool [OF assms conjunct1 [OF h]] conjunct2 [OF h] approval_tool_refused by blast
  then show "client_store (ms_client st') = client_store (ms_client st)" "w_outbox (cw (ms_client st')) = w_outbox (cw (ms_client st))"
    by (simp_all add: client_store_def)
qed

subsection \<open>A server in action\<close>

definition sample_writer :: agent_profile where
  "sample_writer = sample_agent\<lparr>approval_required_for := [''*'']\<rparr>"

definition sample_host :: "string list mcp_host" where
  "sample_host = client_host sample_env sample_writer sample_client_ops sample_reader (\<lambda>m. Inl (RuntimeError []))
     sample_boost sample_asks sample_files (Inr sample_profile) ''w'' ''5.0''"

definition sample_server :: "string list mcp_context" where
  "sample_server = \<lparr>mx_profile = Some sample_writer, mx_governance = Some sample_env, mx_transport = Some sample_channel,
     mx_serving = True, mx_reason = [], mx_factory = Inr sample_ops, mx_audit = Some sample_context\<rparr>"

definition sample_state :: "string list mcp_state" where
  "sample_state = \<lparr>ms_client = sample_client, ms_scorer = \<lparr>scorer_cache = [], scorer_failed = []\<rparr>\<rparr>"

definition sample_candidate :: dict where
  "sample_candidate = [(''content'', JStr ''text''), (''room'', JStr ''feedback''), (''memory_type'', JStr ''owner_feedback''),
     (''metadata'', JObj [(''source_system'', JStr ''forged''), (''tags'', JList [JStr ''ccsk:a'', JStr ''topic:b''])])]"

lemma sample_writer_parts [simp]: "''*'' \<in> set (approval_required_for sample_writer)" "write_capable sample_writer"
  by (simp_all add: sample_writer_def write_capable_def sample_agent_def sample_profile_def)

lemma sample_approval_run:
  "client_store (ms_client (snd (dispatch sample_host sample_server False int TOOL_APPROVE
     [(''approval_id'', JInt 1), (''credential'', JStr ''secret'')] sample_state))) \<noteq> []"
proof -
  have w: "cw sample_client = sample_pending" by (simp add: sample_client_def sample_pending_def)
  obtain w' where a: "approve sample_env sample_files sample_channel (Some ''secret'') sample_context (Inr sample_ops) (Inr sample_profile) ''w'' int 1
      sample_pending = (Inr \<lparr>out_durable_id = ''h1'', out_retried = False\<rparr>, w')" and s: "w_store w' \<noteq> []" using sample_approved by blast
  have "dispatch sample_host sample_server False int TOOL_APPROVE [(''approval_id'', JInt 1), (''credential'', JStr ''secret'')] sample_state =
      handle_approve sample_host sample_server sample_env sample_channel sample_context int
        [(''approval_id'', JInt 1), (''credential'', JStr ''secret'')] sample_state"
    by (simp add: dispatch_def sample_server_def)
  then show ?thesis using a s
    by (simp add: handle_approve_def int_of_def on_world_def credential_of_def sample_state_def w sample_host_def client_host_def
        sample_server_def client_store_def)
qed

theorem mcp_store_guarded_witness:
  "\<exists>who. verify_presser sample_files sample_channel ''secret'' = Some who \<and> who \<in> set (authorized_approvers (appr sample_env))"
proof -
  let ?args = "[(''approval_id'', JInt 1), (''credential'', JStr ''secret'')]"
  obtain reply st' where d: "dispatch sample_host sample_server False int TOOL_APPROVE ?args sample_state = (reply, st')"
    by (cases "dispatch sample_host sample_server False int TOOL_APPROVE ?args sample_state")
  have "mx_profile sample_server \<in> {None, Some sample_writer}" by (simp add: sample_server_def)
  moreover have "client_store (ms_client st') \<noteq> client_store (ms_client sample_state)"
    using sample_approval_run d by (simp add: sample_state_def)
  ultimately show ?thesis
    using mcp_store_guarded [OF d [unfolded sample_host_def]] by (auto simp: sample_server_def)
qed

lemma sample_clean:
  "sanitize_network_write_metadata (caller_metadata sample_candidate) = [(''tags'', JList [JStr ''topic:b''])]"
  by code_simp

lemma sample_writer_admitted:
  "write_admit sample_env sample_writer ''feedback'' ''owner_feedback'' None [(''tags'', t)] int sample_client =
     (Inr (False, ''t_owner''), sample_client)"
proof -
  have "write_guard sample_writer sample_me None 0 = Inr ()"
    by (simp add: write_guard_def require_scope_def has_scope_def require_active_break_glass_def sample_me_def sample_writer_def
        sample_agent_def sample_profile_def)
  moreover have "client_tenants sample_writer sample_me n = Inr [''t_owner'']" for n
    by (simp add: client_tenants_def allows_tenant_def sample_writer_def sample_agent_def sample_profile_def)
  moreover have "enforce_write_quota sample_writer n sample_client = (Inr (), sample_client)" for n
    by (simp add: enforce_write_quota_def sample_writer_def sample_agent_def sample_profile_def count_today_def get_today_def
        counter_get_def Let_def)
  moreover have "write_allowed sample_writer w r = Inr ()" "''owner_feedback'' \<in> set (memory_type_allowlist sample_writer)" for w r
    by (simp_all add: write_allowed_def sample_writer_def sample_agent_def sample_profile_def)
  ultimately show ?thesis
    by (simp add: write_admit_def infer_flag_def own_metadata_def resolve_write_tenant_id_def write_tenant_id_def opt_truthy_def)
qed

lemma sample_submitted:
  "\<exists>d st'. dispatch sample_host sample_server False int TOOL_SUBMIT sample_candidate sample_state = (JObj d, st') \<and>
     dget d ''queued'' = Some (JBool True)"
proof -
  let ?md = "[(''tags'', JList [JStr ''topic:b''])]"
  have "\<exists>r c'. client_write sample_env sample_writer sample_client_ops ''text'' ''feedback'' ''owner_feedback'' None ?md int sample_client = (Inr r, c') \<and>
      wr_queued r"
    by (simp add: client_write_def sample_writer_admitted star_required Let_def write_queued_def enqueue_approval_def
        outbox_connect_def audit_if_cross_tenant_def) (simp add: sample_client_def sample_outbox_def)
  then obtain r c' where w: "client_write sample_env sample_writer sample_client_ops ''text'' ''feedback'' ''owner_feedback'' None ?md int
      sample_client = (Inr r, c')" "wr_queued r" by blast
  have "call_write sample_env sample_writer sample_client_ops ''text'' ''feedback'' ''owner_feedback'' ?md int sample_state =
      (Inr r, sample_state\<lparr>ms_client := c'\<rparr>)"
    using w(1) by (simp add: call_write_def write_kwargs_def WRITE_ARGUMENTS_def sample_state_def)
  moreover have "required_text sample_candidate ''content'' = Some ''text''" "required_text sample_candidate ''room'' = Some ''feedback''"
    "required_text sample_candidate ''memory_type'' = Some ''owner_feedback''" by code_simp+
  ultimately have "handle_submit sample_host int sample_candidate sample_state = (submit_reply (Inr r), sample_state\<lparr>ms_client := c'\<rparr>)"
    by (simp add: handle_submit_def sample_clean sample_host_def)
  moreover have "dispatch sample_host sample_server False int TOOL_SUBMIT sample_candidate sample_state =
      handle_submit sample_host int sample_candidate sample_state"
    by (simp add: dispatch_def sample_server_def submit_registered_def)
  ultimately show ?thesis using w(2) by (simp add: submit_reply_def)
qed

theorem mcp_candidate_attributed_witness:
  "\<exists>reply st' i candidate payload. dispatch sample_host sample_server False int TOOL_SUBMIT sample_candidate sample_state = (reply, st') \<and>
    approvals (w_outbox (cw (ms_client st'))) =
      approvals sample_outbox @ [queued_row ''agent'' candidate i 6] \<and>
    dget candidate ''metadata'' = Some (JObj payload) \<and>
    dget payload ''source_system'' = Some (JStr ''memory-client:agent'')"
proof -
  obtain d st' where d: "dispatch sample_host sample_server False int TOOL_SUBMIT sample_candidate sample_state = (JObj d, st')"
    "dget d ''queued'' = Some (JBool True)" using sample_submitted by blast
  have p: "mx_profile sample_server = Some sample_writer" by (simp add: sample_server_def)
  show ?thesis
    using mcp_candidate_attributed [OF d(1) [unfolded sample_host_def] d(2) p] d(1)
    by (simp add: sample_state_def sample_writer_def) blast
qed

theorem mcp_fails_closed_witness:
  "dispatch sample_host (sample_server\<lparr>mx_serving := False\<rparr>) False int TOOL_APPROVE [] sample_state =
     (error_payload ''memory not serving (governance/corpus incoherence): '' ''memory_not_serving'', sample_state)"
proof -
  obtain reply st' where d: "dispatch sample_host (sample_server\<lparr>mx_serving := False\<rparr>) False int TOOL_APPROVE [] sample_state = (reply, st')"
    by (cases "dispatch sample_host (sample_server\<lparr>mx_serving := False\<rparr>) False int TOOL_APPROVE [] sample_state")
  from mcp_fails_closed [OF d] d show ?thesis by (simp add: sample_server_def)
qed

end
