(* ===== verification/Forget.thy ===== *)
theory Forget
  imports Memory_Client
begin

text \<open>
  The forget path of \<open>panella/client.py\<close> (\<open>hard_delete\<close>): under root elevation it claims the approval rows
  that concern a drawer, so that no finalizer can write for them any more, deletes the drawer, the rows it was
  stored under by another id and the rows found by the approvals' markers, and only then drops the local rows.
  Each outbox step is one transaction.  The ids of a set are kept as a list.
\<close>

subsection \<open>What concerns a drawer\<close>

text \<open>The drawer an event is about, from the identity fields of its payload.\<close>

definition event_payload_identity :: "string \<Rightarrow> string option" where
  "event_payload_identity payload =
     (case loads payload of
        Some (JObj d) \<Rightarrow>
          (let ident = get_or_null d ''expected_id'' in
           if truthy ident then Some (py_str ident)
           else case dget d ''metadata'' of
               Some (JObj m) \<Rightarrow> if opt_truthy (dget m ''memory_id'') then Some (py_str (get_or_null m ''memory_id'')) else None
             | _ \<Rightarrow> None)
      | _ \<Rightarrow> None)"

definition event_about :: "string \<Rightarrow> memory_event \<Rightarrow> bool" where
  "event_about drawer m \<longleftrightarrow> completed_memory_id m = Some drawer \<or> event_payload_identity (payload_json m) = Some drawer"

definition candidate_about :: "string \<Rightarrow> approval_row \<Rightarrow> bool" where
  "candidate_about drawer r \<longleftrightarrow>
     (case loads (candidate_json r) of Some (JObj d) \<Rightarrow> dget d ''memory_id'' = Some (JStr drawer) | _ \<Rightarrow> False)"

text \<open>The loop over the approval rows: a row linked to a known event, or a candidate that names the drawer, whose event joins.\<close>

fun scan_approvals :: "string \<Rightarrow> approval_row list \<Rightarrow> int list \<Rightarrow> int list \<times> int list" where
  "scan_approvals drawer [] evs = ([], evs)"
| "scan_approvals drawer (r # rs) evs =
     (if memory_event_id r \<noteq> None \<and> the (memory_event_id r) \<in> set evs then
        (let (stale, evs') = scan_approvals drawer rs evs in (aq_id r # stale, evs'))
      else if candidate_about drawer r then
        (let (stale, evs') = scan_approvals drawer rs (case memory_event_id r of None \<Rightarrow> evs | Some e \<Rightarrow> e # evs)
         in (aq_id r # stale, evs'))
      else scan_approvals drawer rs evs)"

definition completed_of :: "memory_event list \<Rightarrow> int \<Rightarrow> string option" where
  "completed_of ms i = (case find (\<lambda>m. me_id m = i) (rev ms) of None \<Rightarrow> None | Some m \<Rightarrow> completed_memory_id m)"

definition extra_upstream :: "string \<Rightarrow> memory_event list \<Rightarrow> int list \<Rightarrow> string list" where
  "extra_upstream drawer ms evs =
     remdups (List.map_filter (\<lambda>i. case some_text (completed_of ms i) of
        Some h \<Rightarrow> if h \<noteq> drawer then Some h else None | None \<Rightarrow> None) evs)"

definition scan_sidecar :: "string \<Rightarrow> outbox_db \<Rightarrow> int list \<times> int list \<times> string list" where
  "scan_sidecar drawer db =
     (let (stale, evs) = scan_approvals drawer (approvals db) (map me_id (filter (event_about drawer) (events db)))
      in (stale, evs, extra_upstream drawer (events db) evs))"

subsection \<open>The steps\<close>

definition claim_sidecar_for_rtbf :: "string \<Rightarrow> time \<Rightarrow> outbox_db \<Rightarrow> int list res \<times> outbox_db" where
  "claim_sidecar_for_rtbf drawer now db =
     (case outbox_connect db of
        Inl e \<Rightarrow> (Inl e, db)
      | Inr _ \<Rightarrow>
          (let stale = fst (scan_sidecar drawer db) in
           case find (\<lambda>i. case find_approval i db of None \<Rightarrow> False | Some r \<Rightarrow> live_claim now r) stale of
             Some i \<Rightarrow> (Inl (RtbfFinalizeInFlight i), db)
           | None \<Rightarrow>
               (Inr stale, db\<lparr>approvals := update_where (\<lambda>r. aq_id r \<in> set stale)
                  (\<lambda>r. r\<lparr>finalizer_state := Some ''rtbf_deleting'', finalizer_worker_id := Some ''rtbf''\<rparr>) (approvals db)\<rparr>)))"

definition resolve_divergent_upstream_ids :: "string \<Rightarrow> outbox_db \<Rightarrow> string list res" where
  "resolve_divergent_upstream_ids drawer db =
     rbind (outbox_connect db) (\<lambda>_. Inr (snd (snd (scan_sidecar drawer db))))"

definition hard_delete_sidecar :: "string \<Rightarrow> outbox_db \<Rightarrow> unit res \<times> outbox_db" where
  "hard_delete_sidecar drawer db =
     (case outbox_connect db of
        Inl e \<Rightarrow> (Inl e, db)
      | Inr _ \<Rightarrow>
          (let (stale, evs, _) = scan_sidecar drawer db in
           (Inr (), db\<lparr>approvals := filter (\<lambda>r. aq_id r \<notin> set stale) (approvals db),
                       events := filter (\<lambda>m. me_id m \<notin> set evs) (events db)\<rparr>)))"

type_synonym 's deleter = "string \<Rightarrow> string \<Rightarrow> 's \<Rightarrow> bool res \<times> 's"

text \<open>Deleting a list of ids; the flag says whether any was there.  An exception stops it.\<close>

fun delete_ids :: "'s deleter \<Rightarrow> string \<Rightarrow> string list \<Rightarrow> 's \<Rightarrow> bool res \<times> 's" where
  "delete_ids del reason [] s = (Inr False, s)"
| "delete_ids del reason (i # is') s =
     andthen (del i reason s) (\<lambda>ok s. andthen (delete_ids del reason is' s) (\<lambda>more' s. (Inr (ok \<or> more'), s)))"

fun marker_sweep ::
  "(string \<Rightarrow> string \<Rightarrow> 's \<Rightarrow> string option res) \<Rightarrow> 's deleter \<Rightarrow> string \<Rightarrow> string \<Rightarrow> int list \<Rightarrow> 's \<Rightarrow> string list res \<times> 's" where
  "marker_sweep finder del tenant reason [] s = (Inr [], s)"
| "marker_sweep finder del tenant reason (i # is') s =
     andthen (finder (approval_ref i) tenant s, s) (\<lambda>h s.
       case some_text h of
         None \<Rightarrow> marker_sweep finder del tenant reason is' s
       | Some g \<Rightarrow> andthen (del g reason s) (\<lambda>ok s.
           andthen (marker_sweep finder del tenant reason is' s) (\<lambda>hs s. (Inr (if ok then g # hs else hs), s))))"

definition rtbf_marker_sweep ::
  "'s client_ops \<Rightarrow> principal \<Rightarrow> int list \<Rightarrow> string \<Rightarrow> 's \<Rightarrow> string list res \<times> 's" where
  "rtbf_marker_sweep ops who ids reason s =
     (case (op_marker ops, store_delete ops) of
        (Some finder, Some del) \<Rightarrow> marker_sweep finder del (tenant_id who) reason ids s
      | _ \<Rightarrow> (Inr [], s))"

definition divergent_details :: "string list \<Rightarrow> string list \<Rightarrow> dict" where
  "divergent_details divergent swept =
     (if divergent = [] then [] else [(''divergent_upstream_ids'', JList (map JStr divergent))]) @
     (if swept = [] then [] else [(''finalizer_marker_deleted_ids'', JList (map JStr swept))])"

definition forget_guard :: "principal \<Rightarrow> string \<Rightarrow> time \<Rightarrow> time \<Rightarrow> unit res" where
  "forget_guard who reason now later =
     rbind (require_scope who ''memory.write'') (\<lambda>_. rbind (require_active_break_glass who now) (\<lambda>_.
       if \<not> is_root_with_break_glass who later then Inl (PermissionError ''hard delete requires active break-glass'')
       else if py_strip reason = [] then Inl (ValueError ''hard delete reason is required'')
       else Inr ()))"

text \<open>A step on the store alone, and one on the outbox alone, as steps of the client.\<close>

definition on_store :: "('s \<Rightarrow> 'a res \<times> 's) \<Rightarrow> 's client \<Rightarrow> 'a res \<times> 's client" where
  "on_store f c = (let (r, s) = f (client_store c) in (r, set_store s c))"

definition on_outbox :: "(outbox_db \<Rightarrow> 'a res \<times> outbox_db) \<Rightarrow> 's client \<Rightarrow> 'a res \<times> 's client" where
  "on_outbox f c = (let (r, db) = f (w_outbox (cw c)) in (r, set_outbox db c))"

text \<open>Everything between the claim and the purge.\<close>

definition delete_upstream ::
  "'s client_ops \<Rightarrow> 's deleter \<Rightarrow> string \<Rightarrow> string \<Rightarrow> int list \<Rightarrow> 's client \<Rightarrow> (bool \<times> string list \<times> string list) res \<times> 's client" where
  "delete_upstream ops del drawer reason claimed c =
     andthen (on_store (del drawer reason) c) (\<lambda>ok c.
     andthen (resolve_divergent_upstream_ids drawer (w_outbox (cw c)), c) (\<lambda>ids c.
     let divergent = sort ids in
     andthen (on_store (delete_ids del reason divergent) c) (\<lambda>ok' c.
     andthen (on_store (rtbf_marker_sweep ops (me c) claimed reason) c) (\<lambda>found c.
     let swept = sort (remdups found) in
       (Inr (ok \<or> ok' \<or> swept \<noteq> [], divergent, swept), c)))))"

text \<open>The purge of the local rows, the history row of a deletion and the audit row.\<close>

definition finish_forget ::
  "env \<Rightarrow> string \<Rightarrow> string \<Rightarrow> (nat \<Rightarrow> time) \<Rightarrow> bool \<times> string list \<times> string list \<Rightarrow> 's client \<Rightarrow> bool res \<times> 's client" where
  "finish_forget v drawer reason clk res c =
     (let (ok, divergent, swept) = res; details = divergent_details divergent swept in
      andthen (on_outbox (hard_delete_sidecar drawer) c) (\<lambda>_ c.
      andthen (audit_if_cross_tenant v ''hard_delete'' (Some drawer)
          (dict_update [(''reason'', JStr reason), (''hard_delete'', JBool True)] details) ''*'' (clk 5) (clk 6)
          (if ok then log_history (mutation_history ''hard_delete'' drawer (me c) reason None
               (if details = [] then None else Some (dumps (JObj details))) (clk 4)) c else c))
        (\<lambda>_ c. (Inr ok, c))))"

definition client_hard_delete ::
  "env \<Rightarrow> agent_profile \<Rightarrow> 's client_ops \<Rightarrow> string \<Rightarrow> string \<Rightarrow> (nat \<Rightarrow> time) \<Rightarrow> 's client \<Rightarrow> bool res \<times> 's client" where
  "client_hard_delete v p ops drawer reason clk c =
     andthen (forget_guard (me c) reason (clk 0) (clk 1), c) (\<lambda>_ c.
     andthen (require_mutation_target_owned p ops (me c) drawer (clk 2) (client_store c), c) (\<lambda>owned c.
       if \<not> owned then (Inr False, c)
       else case store_delete ops of
           None \<Rightarrow> (Inl (RuntimeError ''memory adapter does not support hard delete''), c)
         | Some del \<Rightarrow>
             andthen (on_outbox (claim_sidecar_for_rtbf drawer (clk 3)) c) (\<lambda>claimed c.
             andthen (delete_upstream ops del drawer reason claimed c) (finish_forget v drawer reason clk))))"

subsection \<open>What a scan finds\<close>

lemma scan_finds:
  assumes "scan_approvals drawer rs evs = (stale, evs')"
  shows "set evs \<subseteq> set evs' \<and> (\<forall>r \<in> set rs. candidate_about drawer r \<longrightarrow> aq_id r \<in> set stale) \<and>
    (\<forall>r \<in> set rs. \<forall>e. memory_event_id r = Some e \<and> e \<in> set evs \<longrightarrow> aq_id r \<in> set stale) \<and>
    (\<forall>r \<in> set rs. \<forall>e. candidate_about drawer r \<and> memory_event_id r = Some e \<longrightarrow> e \<in> set evs')"
  using assms
proof (induction rs arbitrary: evs stale)
  case (Cons r rs)
  let ?evs = "if memory_event_id r \<noteq> None \<and> the (memory_event_id r) \<in> set evs then evs
    else if candidate_about drawer r then (case memory_event_id r of None \<Rightarrow> evs | Some e \<Rightarrow> e # evs) else evs"
  obtain st where st: "scan_approvals drawer rs ?evs = (st, evs')"
    "stale = (if (memory_event_id r \<noteq> None \<and> the (memory_event_id r) \<in> set evs) \<or> candidate_about drawer r then aq_id r # st else st)"
    using Cons.prems by (auto simp: Let_def split: if_split_asm prod.split_asm)
  have "set evs \<subseteq> set ?evs" by (auto split: option.split)
  moreover have "e \<in> set ?evs" if "candidate_about drawer r" "memory_event_id r = Some e" for e
    using that by simp
  ultimately show ?case using Cons.IH [OF st(1)] st(2) by (auto split: if_split_asm)
qed simp

definition concerned :: "string \<Rightarrow> outbox_db \<Rightarrow> bool" where
  "concerned drawer db \<longleftrightarrow> (\<exists>r \<in> set (approvals db). candidate_about drawer r) \<or> (\<exists>m \<in> set (events db). event_about drawer m)"

lemma sidecar_purged:
  assumes "hard_delete_sidecar drawer db = (Inr u, db')"
  shows "\<not> concerned drawer db' \<and> history db' = history db"
proof -
  obtain stale evs where s: "scan_approvals drawer (approvals db) (map me_id (filter (event_about drawer) (events db))) = (stale, evs)"
    by (cases "scan_approvals drawer (approvals db) (map me_id (filter (event_about drawer) (events db)))")
  have db': "approvals db' = filter (\<lambda>r. aq_id r \<notin> set stale) (approvals db)" "events db' = filter (\<lambda>m. me_id m \<notin> set evs) (events db)"
    "history db' = history db"
    using assms by (auto simp: hard_delete_sidecar_def scan_sidecar_def s split: sum.split_asm)
  from scan_finds [OF s] show ?thesis
    by (auto simp: concerned_def db')
qed

lemma claim_refuses_live:
  assumes "r \<in> set (approvals db)" and "candidate_about drawer r" and "live_claim now r" and "distinct (map aq_id (approvals db))"
  shows "\<exists>e. claim_sidecar_for_rtbf drawer now db = (Inl e, db)"
proof (cases "outbox_connect db")
  case (Inl e)
  then show ?thesis by (simp add: claim_sidecar_for_rtbf_def)
next
  case (Inr u)
  obtain stale evs where s: "scan_approvals drawer (approvals db) (map me_id (filter (event_about drawer) (events db))) = (stale, evs)"
    by (cases "scan_approvals drawer (approvals db) (map me_id (filter (event_about drawer) (events db)))")
  have "aq_id r \<in> set stale" using scan_finds [OF s] assms(1,2) by blast
  moreover have "find_approval (aq_id r) db = Some r"
    using assms(1,4) by (simp add: find_approval_def find_row_distinct)
  ultimately have "find (\<lambda>i. case find_approval i db of None \<Rightarrow> False | Some r \<Rightarrow> live_claim now r) stale \<noteq> None"
    using assms(3) by (auto simp: find_None_iff)
  with Inr show ?thesis
    by (auto simp: claim_sidecar_for_rtbf_def scan_sidecar_def s)
qed

subsection \<open>What the steps leave alone\<close>

lemma on_store_parts [simp]:
  "me (snd (on_store f c)) = me c" "w_outbox (cw (snd (on_store f c))) = w_outbox (cw c)"
  "w_audit (cw (snd (on_store f c))) = w_audit (cw c)" "client_store (snd (on_store f c)) = snd (f (client_store c))"
  by (simp_all add: on_store_def split: prod.split)

lemma on_outbox_parts [simp]:
  "me (snd (on_outbox f c)) = me c" "client_store (snd (on_outbox f c)) = client_store c"
  "w_audit (cw (snd (on_outbox f c))) = w_audit (cw c)" "w_outbox (cw (snd (on_outbox f c))) = snd (f (w_outbox (cw c)))"
  by (simp_all add: on_outbox_def split: prod.split)

lemma forget_guard_ok:
  assumes "forget_guard who reason now later = Inr u"
  shows "has_scope who ''memory.write'' \<and> is_root_with_break_glass who later \<and> py_strip reason \<noteq> [] \<and> tenant_id who = ''*''"
  using assms by (auto simp: forget_guard_def require_scope_def rbind_Inr_iff is_root_with_break_glass_def split: if_split_asm)

lemma root_owns:
  assumes "tenant_id who = ''*''" and "require_mutation_target_owned p ops who i now s = Inr owned"
  shows owned
  using assms by (auto simp: require_mutation_target_owned_def client_tenants_def rbind_Inr_iff split: if_split_asm)

text \<open>The call once its checks passed.\<close>

definition forget_body ::
  "env \<Rightarrow> 's client_ops \<Rightarrow> 's deleter \<Rightarrow> string \<Rightarrow> string \<Rightarrow> (nat \<Rightarrow> time) \<Rightarrow> 's client \<Rightarrow> bool res \<times> 's client" where
  "forget_body v ops del drawer reason clk c =
     andthen (on_outbox (claim_sidecar_for_rtbf drawer (clk 3)) c) (\<lambda>claimed c.
     andthen (delete_upstream ops del drawer reason claimed c) (finish_forget v drawer reason clk))"

lemma hard_delete_cases:
  assumes "client_hard_delete v p ops drawer reason clk c = (res, c')"
  obtains (refused) e where "res = Inl e" "c' = c"
  | (run) del where "forget_guard (me c) reason (clk 0) (clk 1) = Inr ()" "store_delete ops = Some del"
      "forget_body v ops del drawer reason clk c = (res, c')"
proof (cases "forget_guard (me c) reason (clk 0) (clk 1)")
  case (Inl e)
  with assms show ?thesis by (intro refused [of e]) (simp_all add: client_hard_delete_def)
next
  case g: (Inr u)
  show ?thesis
  proof (cases "require_mutation_target_owned p ops (me c) drawer (clk 2) (client_store c)")
    case (Inl e)
    with assms g show ?thesis by (intro refused [of e]) (simp_all add: client_hard_delete_def)
  next
    case (Inr owned)
    have owned using root_owns [OF _ Inr] forget_guard_ok [OF g] by simp
    show ?thesis
    proof (cases "store_delete ops")
      case None
      with assms g Inr \<open>owned\<close> show ?thesis by (intro refused [of "RuntimeError ''memory adapter does not support hard delete''"]) (simp_all add: client_hard_delete_def)
    next
      case (Some del)
      with assms g Inr \<open>owned\<close> show ?thesis by (intro run) (simp_all add: client_hard_delete_def forget_body_def)
    qed
  qed
qed

lemma finish_purged:
  assumes "finish_forget v drawer reason clk res c = (Inr ok, c')"
  shows "\<not> concerned drawer (w_outbox (cw c'))"
proof (cases "on_outbox (hard_delete_sidecar drawer) c")
  case (Pair r c1)
  obtain ok' divergent swept where res: "res = (ok', divergent, swept)" by (cases res)
  show ?thesis
  proof (cases r)
    case (Inl e)
    with assms Pair show ?thesis by (simp add: finish_forget_def res)
  next
    case (Inr u)
    have "hard_delete_sidecar drawer (w_outbox (cw c)) = (Inr u, w_outbox (cw c1))"
      using Pair Inr by (auto simp: on_outbox_def split: prod.split_asm)
    then have "\<not> concerned drawer (w_outbox (cw c1))" using sidecar_purged by blast
    moreover have "approvals (w_outbox (cw c')) = approvals (w_outbox (cw c1)) \<and> events (w_outbox (cw c')) = events (w_outbox (cw c1))"
      using assms Pair Inr by (auto simp: finish_forget_def res Let_def andthen_Inr split: if_split_asm dest!: arg_cong [where f = snd])
    ultimately show ?thesis by (simp add: concerned_def)
  qed
qed

lemma forget_body_purged:
  assumes "forget_body v ops del drawer reason clk c = (Inr ok, c')"
  shows "\<not> concerned drawer (w_outbox (cw c'))"
  using assms finish_purged unfolding forget_body_def andthen_Inr by blast

lemma forget_clean:
  assumes "client_hard_delete v p ops drawer reason clk c = (Inr ok, c')"
  shows "\<not> concerned drawer (w_outbox (cw c'))"
  using assms by (cases rule: hard_delete_cases) (use forget_body_purged in blast)+

text \<open>
  C16: a forget that returns leaves no local copy.  The caller was an elevated root with the write scope and a
  reason, and afterwards no approval row holds a candidate of the drawer and no event is about it, whether or not
  anything was deleted upstream.
\<close>

theorem forget_purges:
  assumes "client_hard_delete v p ops drawer reason clk c = (Inr ok, c')"
  shows "is_root_with_break_glass (me c) (clk 1) \<and> has_scope (me c) ''memory.write'' \<and> py_strip reason \<noteq> [] \<and>
    \<not> concerned drawer (w_outbox (cw c'))"
  using assms
proof (cases rule: hard_delete_cases)
  case (run del)
  with forget_guard_ok [OF run(1)] forget_clean [OF assms] show ?thesis by blast
qed simp

text \<open>
  A forget waits for a finalizer at work: while one holds a live claim on a candidate of the drawer the call
  raises and has changed nothing, neither the store nor the queue, the events, the history or the audit log.
\<close>

theorem forget_defers:
  assumes "r \<in> set (approvals (w_outbox (cw c)))" and "candidate_about drawer r" and "live_claim (clk 3) r"
    and "distinct (map aq_id (approvals (w_outbox (cw c))))"
  shows "\<exists>e. client_hard_delete v p ops drawer reason clk c = (Inl e, c)"
proof -
  obtain res c' where call: "client_hard_delete v p ops drawer reason clk c = (res, c')"
    by (cases "client_hard_delete v p ops drawer reason clk c")
  have same: "set_outbox (w_outbox (cw c)) c = c" by (simp add: set_outbox_def)
  from call show ?thesis
  proof (cases rule: hard_delete_cases)
    case (refused e)
    with call show ?thesis by simp
  next
    case (run del)
    obtain e where "claim_sidecar_for_rtbf drawer (clk 3) (w_outbox (cw c)) = (Inl e, w_outbox (cw c))"
      using claim_refuses_live [OF assms] by blast
    then have "forget_body v ops del drawer reason clk c = (Inl e, c)"
      by (simp add: forget_body_def on_outbox_def same)
    with run(3) call show ?thesis by auto
  qed
qed

text \<open>
  Nothing is forgotten without elevation: a call that changes the store, or any approval or event row, was made
  by a root principal whose break-glass token was active, with the write scope and a reason.
\<close>

theorem forget_needs_elevation:
  assumes "client_hard_delete v p ops drawer reason clk c = (res, c')" and "cw c' \<noteq> cw c"
  shows "is_root_with_break_glass (me c) (clk 1) \<and> has_scope (me c) ''memory.write'' \<and> py_strip reason \<noteq> []"
  using assms(1)
proof (cases rule: hard_delete_cases)
  case (run del)
  with forget_guard_ok show ?thesis by blast
qed (use assms(2) in simp)

subsection \<open>Samples\<close>

definition sample_root :: principal where
  "sample_root = \<lparr>pr_id = ''root:root@*'', tenant_id = ''*'', subject_id = ''owner'', actor_kind = ''root'',
     scopes = {''memory.write''}, roles = {}, root_flag = True,
     bg_token = Some \<lparr>bg_reason = ''incident'', issued_at = 0, expires_at = 100, audit_chain_prev_hash = []\<rparr>\<rparr>"

definition sample_candidate_row :: approval_row where
  "sample_candidate_row = (queued_row ''agent'' [(''memory_id'', JStr ''d'')] 1 0)
     \<lparr>finalizer_state := Some ''finalizing'', finalizer_claimed_at := Some 0\<rparr>"

definition sample_rtbf :: "approval_row \<Rightarrow> string list client" where
  "sample_rtbf r = sample_client\<lparr>me := sample_root,
     cw := (cw sample_client)\<lparr>w_outbox := sample_outbox\<lparr>approvals := [r]\<rparr>, w_store := [''text'']\<rparr>\<rparr>"

lemma sample_root_parts:
  "is_root_with_break_glass sample_root 1" "has_scope sample_root ''memory.write''" "tenant_id sample_root = ''*''"
  by (simp_all add: sample_root_def is_root_with_break_glass_def is_active_def has_scope_def)

lemma sample_candidate: "candidate_about ''d'' (sample_candidate_row\<lparr>finalizer_state := s\<rparr>)" "candidate_about ''d'' sample_candidate_row"
proof -
  have "loads (dumps (JObj [(''memory_id'', JStr ''d'')])) = Some (JObj [(''memory_id'', JStr ''d'')])" by code_simp
  then show "candidate_about ''d'' (sample_candidate_row\<lparr>finalizer_state := s\<rparr>)" "candidate_about ''d'' sample_candidate_row"
    by (simp_all add: candidate_about_def sample_candidate_row_def queued_row_def)
qed

lemma sample_rtbf_parts: "me (sample_rtbf r) = sample_root" "w_outbox (cw (sample_rtbf r)) = sample_outbox\<lparr>approvals := [r]\<rparr>"
  "w_audit (cw (sample_rtbf r)) = \<lparr>audit_rows = [], audit_up = True\<rparr>" "client_store (sample_rtbf r) = [''text'']"
  by (simp_all add: sample_rtbf_def sample_client_def client_store_def)

definition sample_forgotten :: "bool res \<times> string list client" where
  "sample_forgotten = client_hard_delete sample_env sample_agent sample_client_ops ''d'' ''incident'' (\<lambda>n. 1)
     (sample_rtbf (sample_candidate_row\<lparr>finalizer_state := None\<rparr>))"

lemma sample_forget_guard: "forget_guard sample_root ''incident'' 1 1 = Inr ()"
proof -
  have "py_strip ''incident'' \<noteq> []" by code_simp
  moreover have "require_active_break_glass sample_root 1 = Inr ()"
    by (simp add: require_active_break_glass_def sample_root_def is_active_def)
  ultimately show ?thesis using sample_root_parts by (simp add: forget_guard_def require_scope_def)
qed

lemma queued_row_fields:
  "aq_id (queued_row n cand i t) = i" "memory_event_id (queued_row n cand i t) = None"
  by (simp_all add: queued_row_def)

lemma sample_candidate_fields:
  "aq_id (sample_candidate_row\<lparr>finalizer_state := s\<rparr>) = 1" "memory_event_id (sample_candidate_row\<lparr>finalizer_state := s\<rparr>) = None"
  "aq_id sample_candidate_row = 1" "finalizer_state sample_candidate_row = Some ''finalizing''" "finalizer_claimed_at sample_candidate_row = Some 0"
  by (simp_all add: sample_candidate_row_def queued_row_fields)

lemma sample_scan:
  assumes "aq_id r = 1" and "memory_event_id r = None" and "candidate_about ''d'' r"
  shows "scan_sidecar ''d'' (sample_outbox\<lparr>approvals := [r]\<rparr>) = ([1], [], [])"
  using assms by (simp add: scan_sidecar_def extra_upstream_def) (simp add: sample_outbox_def)

lemma sample_rtbf_claim:
  assumes "aq_id r = 1" and "memory_event_id r = None" and "candidate_about ''d'' r" and "\<not> live_claim 1 r"
  shows "claim_sidecar_for_rtbf ''d'' 1 (sample_outbox\<lparr>approvals := [r]\<rparr>) =
    (Inr [1], sample_outbox\<lparr>approvals := [r\<lparr>finalizer_state := Some ''rtbf_deleting'', finalizer_worker_id := Some ''rtbf''\<rparr>]\<rparr>)"
proof -
  have "outbox_connect (sample_outbox\<lparr>approvals := [r]\<rparr>) = Inr ()"
    by (simp add: outbox_connect_def sample_outbox_def)
  moreover have "find_approval 1 (sample_outbox\<lparr>approvals := [r]\<rparr>) = Some r"
    using assms(1) by (simp add: find_approval_def find_row_def)
  ultimately show ?thesis
    using assms by (simp add: claim_sidecar_for_rtbf_def sample_scan update_where_def)
qed

lemma sample_audited:
  assumes "is_root_with_break_glass (me c) n1" and "w_audit (cw c) = \<lparr>audit_rows = rs, audit_up = True\<rparr>"
  shows "\<exists>au. audit_if_cross_tenant v o' t d ten n1 n2 c = (Inr (), set_audit au c)"
  using assms by (auto simp: audit_if_cross_tenant_def audit_write_def audit_connect_def Let_def)

lemma sample_upstream:
  assumes "w_outbox (cw c) = sample_outbox\<lparr>approvals := [r]\<rparr>" and "aq_id r = 1" and "memory_event_id r = None" and "candidate_about ''d'' r"
  shows "delete_upstream sample_client_ops (\<lambda>h m s. (Inr True, [])) ''d'' reason [1] c = (Inr (True, [], []), set_store [] c)"
proof -
  have up: "outbox_connect (sample_outbox\<lparr>approvals := [r]\<rparr>) = Inr ()"
    by (simp add: outbox_connect_def sample_outbox_def)
  have m: "op_marker sample_client_ops = Some (\<lambda>m t s. Inr None)" "store_delete sample_client_ops = Some (\<lambda>h m s. (Inr True, []))"
    by (simp_all add: sample_client_ops_def)
  show ?thesis
    using assms up by (simp add: delete_upstream_def on_store_def resolve_divergent_upstream_ids_def sample_scan
        rtbf_marker_sweep_def m some_text_def set_store_def client_store_def)
qed

lemma sample_finish:
  assumes "me c = sample_root" and "w_audit (cw c) = \<lparr>audit_rows = rs, audit_up = True\<rparr>" and "outbox_up (w_outbox (cw c))"
  shows "\<exists>c'. finish_forget v drawer reason (\<lambda>n. 1) (True, [], []) c = (Inr True, c')"
proof -
  obtain db where "hard_delete_sidecar drawer (w_outbox (cw c)) = (Inr (), db)"
    using assms(3) by (cases "scan_sidecar drawer (w_outbox (cw c))") (auto simp: hard_delete_sidecar_def outbox_connect_def)
  then have s: "on_outbox (hard_delete_sidecar drawer) c = (Inr (), set_outbox db c)" by (simp add: on_outbox_def)
  let ?c = "log_history (mutation_history ''hard_delete'' drawer sample_root reason None None 1) (set_outbox db c)"
  obtain au where "audit_if_cross_tenant v ''hard_delete'' (Some drawer) [(''reason'', JStr reason), (''hard_delete'', JBool True)]
      ''*'' 1 1 ?c = (Inr (), set_audit au ?c)"
    using sample_audited [of ?c 1 rs v "''hard_delete''" "Some drawer" "[(''reason'', JStr reason), (''hard_delete'', JBool True)]" "''*''" 1]
      assms sample_root_parts by auto
  then show ?thesis by (simp add: finish_forget_def s divergent_details_def assms(1) dict_update_def)
qed

lemma sample_forgotten_ok: "\<exists>c'. sample_forgotten = (Inr True, c')"
proof -
  let ?r = "sample_candidate_row\<lparr>finalizer_state := None\<rparr>"
  let ?c = "sample_rtbf ?r"
  have own: "require_mutation_target_owned sample_agent sample_client_ops sample_root ''d'' 1 s = Inr True" for s
    using sample_root_parts by (simp add: require_mutation_target_owned_def client_tenants_def)
  have del: "store_delete sample_client_ops = Some (\<lambda>h m s. (Inr True, []))" by (simp add: sample_client_ops_def)
  define r1 where "r1 = ?r\<lparr>finalizer_state := Some ''rtbf_deleting'', finalizer_worker_id := Some ''rtbf''\<rparr>"
  let ?c1 = "set_outbox (sample_outbox\<lparr>approvals := [r1]\<rparr>) ?c"
  have about: "candidate_about ''d'' r1" using sample_candidate(1) by (simp add: candidate_about_def r1_def)
  have id1: "aq_id r1 = 1" "memory_event_id r1 = None" using sample_candidate_fields by (simp_all add: r1_def)
  have claim: "on_outbox (claim_sidecar_for_rtbf ''d'' 1) ?c = (Inr [1], ?c1)"
    using sample_rtbf_claim [OF sample_candidate_fields(1,2) sample_candidate(1), of None]
    by (simp add: on_outbox_def sample_rtbf_parts live_claim_def r1_def)
  have up: "delete_upstream sample_client_ops (\<lambda>h m s. (Inr True, [])) ''d'' ''incident'' [1] ?c1 = (Inr (True, [], []), set_store [] ?c1)"
    by (rule sample_upstream [OF _ id1 about]) simp
  obtain c' where "finish_forget sample_env ''d'' ''incident'' (\<lambda>n. 1) (True, [], []) (set_store [] ?c1) = (Inr True, c')"
    using sample_finish [of "set_store [] ?c1" "[]" sample_env "''d''" "''incident''"]
    by (auto simp: sample_rtbf_parts sample_outbox_def)
  then show ?thesis
    by (simp add: sample_forgotten_def client_hard_delete_def sample_rtbf_parts sample_forget_guard own del claim up)
qed

theorem forget_purges_witness:
  "\<exists>c'. sample_forgotten = (Inr True, c') \<and> \<not> concerned ''d'' (w_outbox (cw c')) \<and>
    concerned ''d'' (w_outbox (cw (sample_rtbf sample_candidate_row)))"
proof -
  obtain c' where c': "sample_forgotten = (Inr True, c')" using sample_forgotten_ok by blast
  moreover have "concerned ''d'' (w_outbox (cw (sample_rtbf sample_candidate_row)))"
    using sample_candidate(2) by (simp add: concerned_def sample_rtbf_parts)
  ultimately show ?thesis using forget_purges [OF c' [unfolded sample_forgotten_def]] by blast
qed

theorem forget_defers_witness:
  "\<exists>e. client_hard_delete sample_env sample_agent sample_client_ops ''d'' ''incident'' (\<lambda>n. 1) (sample_rtbf sample_candidate_row) =
    (Inl e, sample_rtbf sample_candidate_row)"
proof (rule forget_defers [of sample_candidate_row])
  show "live_claim 1 sample_candidate_row"
    by (simp add: live_claim_def sample_candidate_fields stale_cutoff_def FINALIZER_STALE_TTL_SECONDS_def seconds_def)
qed (simp_all add: sample_rtbf_parts sample_candidate(2))

theorem forget_needs_elevation_witness: "is_root_with_break_glass sample_root 1 \<and> has_scope sample_root ''memory.write''"
proof -
  let ?c = "sample_rtbf (sample_candidate_row\<lparr>finalizer_state := None\<rparr>)"
  obtain c' where c': "sample_forgotten = (Inr True, c')" using sample_forgotten_ok by blast
  then have "\<not> concerned ''d'' (w_outbox (cw c'))"
    using forget_clean unfolding sample_forgotten_def by blast
  moreover have "concerned ''d'' (w_outbox (cw ?c))"
    using sample_candidate(1) by (simp add: concerned_def sample_rtbf_parts)
  ultimately have "cw c' \<noteq> cw ?c" by metis
  then show ?thesis
    using forget_needs_elevation [OF c' [unfolded sample_forgotten_def]] by (simp add: sample_rtbf_parts)
qed

end
