(* ===== verification/Http_Routes.thy ===== *)
theory Http_Routes
  imports Http_Auth Mcp_Tools Forget
begin

text \<open>
  \<open>panella/http/routes/\<close>: what the HTTP operations do once a request has passed the gates of \<open>Http_Auth\<close>.  Every
  request builds a new memory client for its principal, so the times of recent writes start empty; the world, the
  counters, the token table, the elevations and the statistics cache are the server's.  Each route ends with an
  audit record, also when it refuses, and an audit log that cannot be written fails the request.  Request schemas
  and response models belong to the web framework.
\<close>

subsection \<open>Clients and audit records\<close>

record 's server =
  sv_http :: http_state
  sv_world :: "'s world"
  sv_counts :: counters
  sv_cache :: "((string \<times> string) \<times> (time \<times> dict)) list"
  sv_contexts :: "(string \<times> (principal \<times> string \<times> time)) list"

definition memory_client :: "principal \<Rightarrow> 's server \<Rightarrow> 's client" where
  "memory_client who sv = \<lparr>me = who, cw = sv_world sv, counts = sv_counts sv, stamps = []\<rparr>"

definition close_client :: "'s client \<Rightarrow> 's server \<Rightarrow> 's server" where
  "close_client c sv = sv\<lparr>sv_world := cw c, sv_counts := counts c\<rparr>"

definition http_entry :: "string \<Rightarrow> principal \<Rightarrow> string \<Rightarrow> string \<Rightarrow> string option \<Rightarrow> dict \<Rightarrow> time \<Rightarrow> audit_entry" where
  "http_entry rid who operation tenant target details now =
     \<lparr>e_ts = isoformat now, e_principal = pr_id who, e_tenant = tenant, e_op = operation, e_target = target,
      e_reason = map_option bg_reason (bg_token who),
      e_details = dict_update [(''source'', JStr ''http''), (''request_id'', JStr rid)] details\<rparr>"

text \<open>\<open>audited\<close> appends the record and then answers, or raises what the log raised.\<close>

definition audited ::
  "env \<Rightarrow> audit_entry \<Rightarrow> 'a web \<Rightarrow> 's client \<Rightarrow> 'a web \<times> 's client" where
  "audited v e answer c =
     (case audit_write (sha256_hex v) e (w_audit (cw c)) of
        Inl x \<Rightarrow> (Inl (Raised x), c)
      | Inr (_, au) \<Rightarrow> (answer, set_audit au c))"

definition require_break_glass :: "principal \<Rightarrow> time \<Rightarrow> unit web" where
  "require_break_glass who now = (if \<not> is_root_with_break_glass who now then Inl (Api ''break_glass_required'' 403) else Inr ())"

subsection \<open>Writing\<close>

record write_response =
  ws_result :: write_result
  ws_outcome :: string
  ws_existing :: bool
  ws_queued_reason :: "string option"
  ws_hash :: string

definition http_write_metadata :: "dict \<Rightarrow> dict" where
  "http_write_metadata md =
     (let clean = filter (\<lambda>(k, x). k \<notin> set HTTP_BLOCKED_WRITE_METADATA) md in
      case dget clean ''tags'' of None \<Rightarrow> clean | Some tags \<Rightarrow> dset ''tags'' (strip_control_tags tags) clean)"

definition write_failure :: "exc \<Rightarrow> string \<times> int" where
  "write_failure e =
     (case e of QuotaExceeded \<Rightarrow> (''quota_exceeded'', 429) | PermissionError _ \<Rightarrow> (''forbidden'', 403)
      | _ \<Rightarrow> if value_error e then (''bad_request'', 400) else (''memory_backend_error'', 500))"

definition write_outcome :: "write_result \<Rightarrow> string" where
  "write_outcome r = (if wr_queued r then ''queued'' else if wr_dedup r then ''dedup_skipped'' else ''stored'')"

definition write_memory ::
  "env \<Rightarrow> agent_profile \<Rightarrow> 's client_ops \<Rightarrow> string \<Rightarrow> principal \<Rightarrow> string \<Rightarrow> string \<Rightarrow> string \<Rightarrow> dict \<Rightarrow> (nat \<Rightarrow> time) \<Rightarrow> time \<Rightarrow>
   's client \<Rightarrow> write_response web \<times> 's client" where
  "write_memory v p ops rid who content room mtype md clk now c =
     (case write_kwargs v p ops content room mtype (http_write_metadata md) clk c of
        (Inl e, c1) \<Rightarrow>
          (let (code, status) = write_failure e in
           audited v (http_entry rid who ''write'' (tenant_id who) None [(''error'', JStr code)] now) (Inl (Api code status)) c1)
      | (Inr r, c1) \<Rightarrow>
          audited v (http_entry rid who ''write'' (str_or (dget md ''tenant_id'') (tenant_id who)) (Some (wr_drawer r))
              [(''outcome'', JStr (write_outcome r)), (''queued_for_approval'', JBool (wr_queued r))] now)
            (Inr \<lparr>ws_result = r, ws_outcome = write_outcome r, ws_existing = \<not> wr_queued r \<and> wr_dedup r,
                  ws_queued_reason = (if wr_queued r then Some ''approval_required'' else None), ws_hash = sha256_hex v content\<rparr>) c1)"

subsection \<open>Deleting\<close>

definition delete_op :: "bool \<Rightarrow> string" where
  "delete_op hard = (if hard then ''hard_delete'' else ''tombstone'')"

definition delete_failure :: "exc \<Rightarrow> string \<times> string \<times> int" where
  "delete_failure e =
     (case e of PermissionError _ \<Rightarrow> (''forbidden'', ''forbidden'', 403)
      | RtbfFinalizeInFlight _ \<Rightarrow> (''forget_deferred_finalize_in_flight'', ''forget_deferred'', 409)
      | _ \<Rightarrow> if value_error e then (''bad_request'', ''bad_request'', 400)
            else (''memory_backend_error'', ''memory_backend_error'', 500))"

definition delete_memory ::
  "env \<Rightarrow> agent_profile \<Rightarrow> 's client_ops \<Rightarrow> string \<Rightarrow> principal \<Rightarrow> bool \<Rightarrow> string \<Rightarrow> string \<Rightarrow> (nat \<Rightarrow> time) \<Rightarrow> time \<Rightarrow>
   's client \<Rightarrow> bool web \<times> 's client" where
  "delete_memory v p ops rid who hard drawer reason clk now c =
     (case (if hard then client_hard_delete v p ops drawer reason clk c else client_tombstone v p ops drawer reason clk c) of
        (Inl e, c1) \<Rightarrow>
          (let (logged, code, status) = delete_failure e in
           audited v (http_entry rid who (delete_op hard) (tenant_id who) (Some drawer)
               [(''error'', JStr logged), (''hard_delete'', JBool hard)] now) (Inl (Api code status)) c1)
      | (Inr deleted, c1) \<Rightarrow>
          audited v (http_entry rid who (delete_op hard) (tenant_id who) (Some drawer)
              [(''hard_delete'', JBool hard), (''deleted'', JBool deleted), (''reason'', JStr reason)] now) (Inr deleted) c1)"

subsection \<open>Reading\<close>

definition get_failure :: "exc \<Rightarrow> string \<times> string \<times> int" where
  "get_failure e =
     (case e of PermissionError _ \<Rightarrow> (''forbidden'', ''forbidden'', 403)
      | TenantIsolationError \<Rightarrow> (''tenant_isolation'', ''memory_not_found'', 404)
      | _ \<Rightarrow> (''memory_backend_error'', ''memory_backend_error'', 500))"

definition get_memory_route ::
  "env \<Rightarrow> agent_profile \<Rightarrow> 's client_ops \<Rightarrow> string \<Rightarrow> principal \<Rightarrow> string \<Rightarrow> (nat \<Rightarrow> time) \<Rightarrow> time \<Rightarrow> 's client \<Rightarrow>
   dict web \<times> 's client" where
  "get_memory_route v p ops rid who i clk now c =
     (case get_memory v p ops i clk c of
        (Inl e, c1) \<Rightarrow>
          (let (logged, code, status) = get_failure e in
           audited v (http_entry rid who ''memory_get'' (tenant_id who) (Some i) [(''error'', JStr logged)] now) (Inl (Api code status)) c1)
      | (Inr None, c1) \<Rightarrow>
          audited v (http_entry rid who ''memory_get'' (tenant_id who) (Some i) [(''found'', JBool False)] now)
            (Inl (Api ''memory_not_found'' 404)) c1
      | (Inr (Some hit), c1) \<Rightarrow>
          audited v (http_entry rid who ''memory_get'' (str_or (dget hit ''tenant_id'') (tenant_id who)) (Some i)
              [(''found'', JBool True)] now) (Inr hit) c1)"

definition search_failure :: "exc \<Rightarrow> string \<times> int" where
  "search_failure e =
     (case e of PermissionError _ \<Rightarrow> (''forbidden'', 403) | TenantIsolationError \<Rightarrow> (''tenant_isolation'', 403)
      | _ \<Rightarrow> (''memory_backend_error'', 500))"

definition search_memory ::
  "env \<Rightarrow> agent_profile \<Rightarrow> reader_env \<Rightarrow> (string \<Rightarrow> scorer res) \<Rightarrow> ('r::linorder) boost_ops \<Rightarrow> 's searcher \<Rightarrow> string \<Rightarrow> principal \<Rightarrow>
   string \<Rightarrow> int option \<Rightarrow> string list \<Rightarrow> (nat \<Rightarrow> time) \<Rightarrow> time \<Rightarrow> 's client \<Rightarrow> scorer_state \<Rightarrow>
   (dict list web \<times> 's client) \<times> scorer_state" where
  "search_memory v p re load bo asks rid who query k hints clk now c sc =
     (case the (client_search v p re load bo asks query k hints clk c sc) of
        ((Inl e, c1), sc1) \<Rightarrow>
          (let (code, status) = search_failure e in
           (audited v (http_entry rid who ''search'' (tenant_id who) None [(''error'', JStr code)] now) (Inl (Api code status)) c1, sc1))
      | ((Inr hits, c1), sc1) \<Rightarrow>
          (audited v (http_entry rid who ''search'' (tenant_id who) None
              [(''k'', case k of None \<Rightarrow> JNull | Some n \<Rightarrow> JInt n), (''hit_count'', JInt (int (length hits)))] now) (Inr hits) c1, sc1))"

subsection \<open>The audit log\<close>

definition audit_row_details :: "audit_row \<Rightarrow> json option res" where
  "audit_row_details r =
     (case details_json r of None \<Rightarrow> Inr None
      | Some s \<Rightarrow> if s = [] then Inr None else (case loads s of None \<Rightarrow> Inl JSONDecodeError | Some j \<Rightarrow> Inr (Some j)))"

definition audit_rows_where :: "(audit_row \<Rightarrow> bool) \<Rightarrow> int \<Rightarrow> audit_db \<Rightarrow> (audit_row \<times> json option) list res" where
  "audit_rows_where cond n db = rbind (audit_connect db) (\<lambda>rows.
     map_res (\<lambda>r. rbind (audit_row_details r) (\<lambda>d. Inr (r, d))) (take (nat n) (rev (sort_key seq (filter cond rows)))))"

definition list_audit ::
  "env \<Rightarrow> string \<Rightarrow> principal \<Rightarrow> string option \<Rightarrow> int \<Rightarrow> (nat \<Rightarrow> time) \<Rightarrow> 's client \<Rightarrow> (audit_row \<times> json option) list web \<times> 's client" where
  "list_audit v rid who tenant n clk c =
     (let requested = given_or tenant (tenant_id who) in
      if requested \<noteq> tenant_id who \<and> \<not> is_root_with_break_glass who (clk 0) then (Inl (Api ''break_glass_required'' 403), c)
      else
        (case audit_rows_where
            (if is_root_with_break_glass who (clk 1) \<and> requested = ''*'' then (\<lambda>r. True)
             else (\<lambda>r. tenant_accessed r = requested \<or> principal_id r = pr_id who)) n (w_audit (cw c)) of
           Inl e \<Rightarrow> (Inl (Raised e), c)
         | Inr rows \<Rightarrow> audited v (http_entry rid who ''audit_list'' requested None [(''limit'', JInt n)] (clk 2)) (Inr rows) c))"

subsection \<open>Break-glass over HTTP\<close>

text \<open>\<open>body\<close> of a request in a client of its own.\<close>

definition with_client :: "principal \<Rightarrow> ('s client \<Rightarrow> 'a \<times> 's client) \<Rightarrow> 's server \<Rightarrow> 'a \<times> 's server" where
  "with_client who body sv = (case body (memory_client who sv) of (r, c) \<Rightarrow> (r, close_client c sv))"

definition open_break_glass ::
  "env \<Rightarrow> auth_config \<Rightarrow> string \<Rightarrow> principal \<Rightarrow> string \<Rightarrow> int \<Rightarrow> string list \<Rightarrow> string \<Rightarrow> (nat \<Rightarrow> time) \<Rightarrow> 's server \<Rightarrow>
   (string \<times> string) web \<times> 's server" where
  "open_break_glass v cfg rid who reason ttl tenants token clk sv =
     (case bg_open (sha256_hex v) (ident v) (Some reason) ttl [] (Some who) (clk 0) (w_audit (sv_world sv)) of
        Inl (PermissionError m) \<Rightarrow> (Inl (Api ''forbidden'' 403), sv)
      | Inl e \<Rightarrow> (Inl (if value_error e then Api ''bad_request'' 400 else Raised e), sv)
      | Inr (elevated, au) \<Rightarrow>
          (let sv1 = sv\<lparr>sv_world := (sv_world sv)\<lparr>w_audit := au\<rparr>\<rparr> in
           case rbind (mk_root_principal (au_identity cfg)) (\<lambda>root.
                  mint (au_hash cfg) (au_identity cfg) (au_alias cfg) (au_load cfg) (pr_id root) (''break-glass-'' @ rid) [''*'']
                    (Some ttl) token (clk 1) (hs_tokens (sv_http sv1))) of
             Inl e \<Rightarrow> (Inl (Raised e), sv1)
           | Inr (t, db) \<Rightarrow>
               (let h = sv_http sv1; digest = au_hash cfg t;
                    sv2 = sv1\<lparr>sv_http := h\<lparr>hs_tokens := db, hs_elevated := dset digest elevated (hs_elevated h)\<rparr>,
                              sv_contexts := dset digest (elevated, reason, clk 0) (sv_contexts sv1)\<rparr>
                in with_client who (audited v (http_entry rid elevated ''break_glass_grant'' ''*'' None
                       [(''ttl_seconds'', JInt ttl), (''requested_tenants'', JList (map JStr tenants))] (clk 2))
                     (Inr (t, case bg_token elevated of None \<Rightarrow> [] | Some b \<Rightarrow> isoformat (expires_at b)))) sv2)))"

text \<open>At shutdown every open elevation is closed; a log that fails is ignored.\<close>

definition close_context :: "env \<Rightarrow> time \<Rightarrow> string \<times> principal \<times> string \<times> time \<Rightarrow> audit_db \<Rightarrow> audit_db" where
  "close_context v now ctx au =
     (case ctx of (digest, who, reason, issued) \<Rightarrow>
        (case audit_write (sha256_hex v) (close_entry now who reason [''*''] issued) au of Inl _ \<Rightarrow> au | Inr (_, au') \<Rightarrow> au'))"

definition shutdown :: "env \<Rightarrow> time \<Rightarrow> 's server \<Rightarrow> 's server" where
  "shutdown v now sv =
     sv\<lparr>sv_world := (sv_world sv)\<lparr>w_audit := fold (close_context v now) (sv_contexts sv) (w_audit (sv_world sv))\<rparr>\<rparr>"

subsection \<open>Approvals over HTTP\<close>

definition require_owner :: "identity_config \<Rightarrow> principal \<Rightarrow> unit web" where
  "require_owner i who = hbind (raised (mk_root_principal i)) (\<lambda>root.
     if pr_id who \<noteq> pr_id root then Inl (Api ''forbidden'' 403) else Inr ())"

definition resolve_transport :: "env \<Rightarrow> transport web" where
  "resolve_transport g = (case build_transport_if_approvable g of None \<Rightarrow> Inl (Api ''approvals_unavailable'' 404) | Some t \<Rightarrow> Inr t)"

definition audit_ctx :: "env \<Rightarrow> string \<Rightarrow> principal \<Rightarrow> audit_context" where
  "audit_ctx v rid who = \<lparr>ac_principal = who, ac_tenant = default_tenant_id (ident v), ac_source = ''http'',
     ac_extra = [(''request_id'', JStr rid)]\<rparr>"

text \<open>Both guards, then the service on the server's world.\<close>

definition approval_route ::
  "env \<Rightarrow> principal \<Rightarrow> (transport \<Rightarrow> 's world \<Rightarrow> 'a res \<times> 's world) \<Rightarrow> (exc \<Rightarrow> http_exc) \<Rightarrow> 's server \<Rightarrow> 'a web \<times> 's server" where
  "approval_route v who service refuse sv =
     (case hbind (require_owner (ident v) who) (\<lambda>_. resolve_transport v) of
        Inl e \<Rightarrow> (Inl e, sv)
      | Inr t \<Rightarrow>
          (case service t (sv_world sv) of
             (Inl e, w) \<Rightarrow> (Inl (refuse e), sv\<lparr>sv_world := w\<rparr>)
           | (Inr x, w) \<Rightarrow> (Inr x, sv\<lparr>sv_world := w\<rparr>)))"

definition list_refusal :: "exc \<Rightarrow> http_exc" where
  "list_refusal e = (case e of ApprovalAuthError _ \<Rightarrow> Api ''approval_refused'' 403 | _ \<Rightarrow> Raised e)"

definition approve_refusal :: "exc \<Rightarrow> http_exc" where
  "approve_refusal e =
     (case e of ApprovalAuthError _ \<Rightarrow> Api ''approval_refused'' 403 | ApprovalStateError _ \<Rightarrow> Api ''approval_refused'' 409
      | ApprovalNotFinalized \<Rightarrow> Api ''not_finalized'' 503 | _ \<Rightarrow> Api ''approval_failed'' 500)"

definition reject_refusal :: "exc \<Rightarrow> http_exc" where
  "reject_refusal e =
     (case e of ApprovalAuthError _ \<Rightarrow> Api ''approval_refused'' 403 | ApprovalStateError _ \<Rightarrow> Api ''approval_refused'' 409
      | _ \<Rightarrow> Raised e)"

definition list_pending_route ::
  "env \<Rightarrow> token_fs \<Rightarrow> string \<Rightarrow> principal \<Rightarrow> string option \<Rightarrow> int \<Rightarrow> time \<Rightarrow> 's server \<Rightarrow> pending_item list web \<times> 's server" where
  "list_pending_route v fs rid who tok n now sv =
     approval_route v who (\<lambda>t. list_pending v fs t tok (audit_ctx v rid who) (Some n) now) list_refusal sv"

definition count_route :: "env \<Rightarrow> principal \<Rightarrow> 's server \<Rightarrow> nat web \<times> 's server" where
  "count_route v who sv = approval_route v who (\<lambda>t w. (count_pending w, w)) Raised sv"

definition approve_route ::
  "env \<Rightarrow> token_fs \<Rightarrow> 's store_ops \<Rightarrow> agent_profile res \<Rightarrow> string \<Rightarrow> string \<Rightarrow> principal \<Rightarrow> string option \<Rightarrow> (nat \<Rightarrow> time) \<Rightarrow> int \<Rightarrow>
   's server \<Rightarrow> approve_outcome web \<times> 's server" where
  "approve_route v fs ops prof wid rid who tok clk i sv =
     approval_route v who (\<lambda>t. approve v fs t tok (audit_ctx v rid who) (Inr ops) prof wid clk i) approve_refusal sv"

definition reject_route ::
  "env \<Rightarrow> token_fs \<Rightarrow> string \<Rightarrow> principal \<Rightarrow> string option \<Rightarrow> (nat \<Rightarrow> time) \<Rightarrow> int \<Rightarrow> 's server \<Rightarrow> unit web \<times> 's server" where
  "reject_route v fs rid who tok clk i sv =
     approval_route v who (\<lambda>t. reject v fs t tok (audit_ctx v rid who) clk i) reject_refusal sv"

subsection \<open>Statistics\<close>

definition CACHE_TTL_SECONDS :: int where "CACHE_TTL_SECONDS = 60"

definition cache_key :: "principal \<Rightarrow> string option \<Rightarrow> (string \<times> string) res" where
  "cache_key who wing = rbind (scope_of_principal who) (\<lambda>ts. Inr (join '','' (sort ts), given_or wing []))"

definition cache_get ::
  "string \<times> string \<Rightarrow> time \<Rightarrow> ((string \<times> string) \<times> (time \<times> dict)) list \<Rightarrow>
   dict option \<times> ((string \<times> string) \<times> (time \<times> dict)) list" where
  "cache_get key now cache =
     (case dget cache key of None \<Rightarrow> (None, cache)
      | Some (until', payload) \<Rightarrow> if now \<ge> until' then (None, AList.delete key cache) else (Some payload, cache))"

definition stats_answer ::
  "env \<Rightarrow> string \<Rightarrow> principal \<Rightarrow> string option \<Rightarrow> string \<Rightarrow> dict \<Rightarrow> time \<Rightarrow> 's server \<Rightarrow> dict web \<times> 's server" where
  "stats_answer v rid who wing served payload now sv =
     with_client who (audited v (http_entry rid who ''stats'' (tenant_id who) None
         [(''wing_filter'', opt_json wing), (''total_drawers'', get_or_null payload ''total_drawers''), (''served_from'', JStr served)] now)
       (Inr payload)) sv"

definition stats_failure :: "exc \<Rightarrow> string \<times> int" where
  "stats_failure e = (case e of PermissionError _ \<Rightarrow> (''forbidden'', 403) | _ \<Rightarrow> (''memory_backend_error'', 500))"

definition fresh_stats ::
  "env \<Rightarrow> agent_profile \<Rightarrow> 's client_ops \<Rightarrow> (exc \<Rightarrow> string) \<Rightarrow> string \<Rightarrow> principal \<Rightarrow> string option \<Rightarrow> string \<times> string \<Rightarrow> (nat \<Rightarrow> time) \<Rightarrow>
   's server \<Rightarrow> (dict web \<times> 's server) option" where
  "fresh_stats v p ops name_of rid who wing key clk sv =
     map_option (\<lambda>r.
       case r of
         Inl e \<Rightarrow>
           (let (code, status) = stats_failure e in
            with_client who (audited v (http_entry rid who ''stats'' (tenant_id who) None
                ((''error'', JStr code) # (if code = ''forbidden'' then [] else [(''exception'', JStr (name_of e))])) (clk 4))
              (Inl (Api code status))) sv)
       | Inr payload \<Rightarrow>
           stats_answer v rid who wing ''fresh'' payload (clk 4)
             (sv\<lparr>sv_cache := dset key (clk 3 + seconds CACHE_TTL_SECONDS, payload) (sv_cache sv)\<rparr>))
     (client_aggregate_stats p ops wing (\<lambda>k. clk (k + 1)) (memory_client who sv))"

definition get_stats ::
  "env \<Rightarrow> agent_profile \<Rightarrow> 's client_ops \<Rightarrow> (exc \<Rightarrow> string) \<Rightarrow> string \<Rightarrow> principal \<Rightarrow> string option \<Rightarrow> bool \<Rightarrow> (nat \<Rightarrow> time) \<Rightarrow>
   's server \<Rightarrow> (dict web \<times> 's server) option" where
  "get_stats v p ops name_of rid who wing fresh clk sv =
     (case cache_key who wing of
        Inl e \<Rightarrow> Some (Inl (Raised e), sv)
      | Inr key \<Rightarrow>
          if fresh then fresh_stats v p ops name_of rid who wing key clk sv
          else
            (case cache_get key (clk 0) (sv_cache sv) of
               (Some payload, cache) \<Rightarrow> Some (stats_answer v rid who wing ''cache'' payload (clk 4) (sv\<lparr>sv_cache := cache\<rparr>))
             | (None, cache) \<Rightarrow> fresh_stats v p ops name_of rid who wing key clk (sv\<lparr>sv_cache := cache\<rparr>)))"

subsection \<open>Every answer is on record\<close>

definition answered :: "'a web \<Rightarrow> bool" where
  "answered r \<longleftrightarrow> (case r of Inl (Raised _) \<Rightarrow> False | _ \<Rightarrow> True)"

lemma answered_simps [simp]: "answered (Inr x)" "answered (Inl (Api c n))" "\<not> answered (Inl (Raised e))"
  by (simp_all add: answered_def)

text \<open>The last row of the log reports the operation, its principal and its target.\<close>

definition on_record :: "env \<Rightarrow> principal \<Rightarrow> string \<Rightarrow> string option \<Rightarrow> 's client \<Rightarrow> bool" where
  "on_record v who operation target c \<longleftrightarrow>
     (\<exists>older e. audit_rows (w_audit (cw c)) = older @ [new_row (sha256_hex v) e older] \<and> e_op e = operation \<and>
        e_principal e = pr_id who \<and> e_target e = target \<and> dget (e_details e) ''source'' = Some (JStr ''http''))"

lemma dget_dict_update_keep: "dget ps k = None \<Longrightarrow> dget (dict_update d ps) k = dget d k"
proof (induction ps arbitrary: d)
  case (Cons x ps)
  then show ?case by (cases x) (auto simp: dict_simps split: if_split_asm)
qed simp

lemma audited_record:
  assumes "audited v (http_entry rid who operation tenant target details now) r c = (r', c')" and "answered r'"
    and "dget details ''source'' = None"
  shows "on_record v who operation target c' \<and> client_store c' = client_store c \<and> w_outbox (cw c') = w_outbox (cw c) \<and> r' = r"
proof -
  let ?e = "http_entry rid who operation tenant target details now"
  obtain n au where w: "audit_write (sha256_hex v) ?e (w_audit (cw c)) = Inr (n, au)" "c' = set_audit au c" "r' = r"
    using assms(1,2) by (auto simp: audited_def split: sum.split_asm)
  have "audit_rows au = audit_rows (w_audit (cw c)) @ [new_row (sha256_hex v) ?e (audit_rows (w_audit (cw c)))]"
    using w(1) by (simp add: audit_write_iff)
  moreover have "dget (e_details ?e) ''source'' = Some (JStr ''http'')"
    by (simp add: http_entry_def dget_dict_update_keep [OF assms(3)] del: dict_update_simps)
  moreover have "w_audit (cw c') = au" "e_op ?e = operation" "e_principal ?e = pr_id who" "e_target ?e = target"
    by (simp_all add: w(2) set_audit_def http_entry_def)
  ultimately have "on_record v who operation target c'" unfolding on_record_def by metis
  then show ?thesis by (simp add: w(2,3))
qed

lemma write_memory_record:
  assumes "write_memory v p ops rid who content room mtype md clk now c = (r, c')" and "answered r"
  shows "\<exists>target. on_record v who ''write'' target c' \<and> (\<forall>x. r = Inr x \<longrightarrow> target = Some (wr_drawer (ws_result x)))"
proof -
  obtain q c1 where w: "write_kwargs v p ops content room mtype (http_write_metadata md) clk c = (q, c1)"
    by (cases "write_kwargs v p ops content room mtype (http_write_metadata md) clk c")
  show ?thesis
  proof (cases q)
    case (Inl e)
    obtain code status where f: "write_failure e = (code, status)" by (cases "write_failure e")
    from assms(1) have "audited v (http_entry rid who ''write'' (tenant_id who) None [(''error'', JStr code)] now) (Inl (Api code status)) c1 = (r, c')"
      by (simp add: write_memory_def w Inl f)
    from audited_record [OF this assms(2)] show ?thesis by auto
  next
    case (Inr x)
    from assms(1) [unfolded write_memory_def w Inr prod.case sum.case] audited_record [OF _ assms(2)] show ?thesis by fastforce
  qed
qed

lemma delete_memory_record:
  assumes "delete_memory v p ops rid who hard drawer reason clk now c = (r, c')" and "answered r"
  shows "on_record v who (delete_op hard) (Some drawer) c'"
proof -
  obtain q c1 where w: "(if hard then client_hard_delete v p ops drawer reason clk c else client_tombstone v p ops drawer reason clk c) = (q, c1)"
    by (cases "if hard then client_hard_delete v p ops drawer reason clk c else client_tombstone v p ops drawer reason clk c")
  show ?thesis
  proof (cases q)
    case (Inl e)
    obtain logged code status where f: "delete_failure e = (logged, code, status)" by (cases "delete_failure e")
    from assms(1) [unfolded delete_memory_def w Inl f Let_def prod.case sum.case] audited_record [OF _ assms(2)] show ?thesis by fastforce
  next
    case (Inr x)
    from assms(1) [unfolded delete_memory_def w Inr prod.case sum.case] audited_record [OF _ assms(2)] show ?thesis by fastforce
  qed
qed

lemma get_memory_record:
  assumes "get_memory_route v p ops rid who i clk now c = (r, c')" and "answered r"
  shows "on_record v who ''memory_get'' (Some i) c'"
proof -
  obtain q c1 where w: "get_memory v p ops i clk c = (q, c1)" by (cases "get_memory v p ops i clk c")
  consider e where "q = Inl e" | "q = Inr None" | hit where "q = Inr (Some hit)" by (cases q; cases "projr q") auto
  then show ?thesis
  proof cases
    case (1 e)
    obtain logged code status where f: "get_failure e = (logged, code, status)" by (cases "get_failure e")
    from assms(1) [unfolded get_memory_route_def w 1 f Let_def prod.case sum.case] audited_record [OF _ assms(2)] show ?thesis by fastforce
  next
    case 2
    from assms(1) [unfolded get_memory_route_def w 2 prod.case sum.case option.case] audited_record [OF _ assms(2)] show ?thesis by fastforce
  next
    case (3 hit)
    from assms(1) [unfolded get_memory_route_def w 3 prod.case sum.case option.case] audited_record [OF _ assms(2)] show ?thesis by fastforce
  qed
qed

lemma search_memory_record:
  assumes "search_memory v p re load bo asks rid who query k hints clk now c sc = ((r, c'), sc')" and "answered r"
  shows "on_record v who ''search'' None c'"
proof -
  obtain q c1 sc1 where w: "the (client_search v p re load bo asks query k hints clk c sc) = ((q, c1), sc1)"
    by (metis surj_pair)
  show ?thesis
  proof (cases q)
    case (Inl e)
    obtain code status where f: "search_failure e = (code, status)" by (cases "search_failure e")
    from assms(1) have "audited v (http_entry rid who ''search'' (tenant_id who) None [(''error'', JStr code)] now) (Inl (Api code status)) c1 = (r, c')"
      by (simp add: search_memory_def w Inl f)
    from audited_record [OF this assms(2)] show ?thesis by auto
  next
    case (Inr hits)
    from assms(1) have "audited v (http_entry rid who ''search'' (tenant_id who) None
          [(''k'', case k of None \<Rightarrow> JNull | Some n \<Rightarrow> JInt n), (''hit_count'', JInt (int (length hits)))] now) (Inr hits) c1 = (r, c')"
      by (simp add: search_memory_def w Inr)
    from audited_record [OF this assms(2)] show ?thesis by auto
  qed
qed

text \<open>
  C25: no HTTP memory operation answers, with a result or with a refusal, unless the last row of the audit chain
  reports it: a write names the row it wrote, a delete and a read the row they were about.
\<close>

theorem http_on_record:
  "(\<forall>r c'. write_memory v p ops rid who content room mtype md clk now c = (r, c') \<and> answered r \<longrightarrow>
      (\<exists>target. on_record v who ''write'' target c' \<and> (\<forall>x. r = Inr x \<longrightarrow> target = Some (wr_drawer (ws_result x))))) \<and>
   (\<forall>r c'. delete_memory v p ops rid who hard drawer reason clk now c = (r, c') \<and> answered r \<longrightarrow>
      on_record v who (delete_op hard) (Some drawer) c') \<and>
   (\<forall>r c'. get_memory_route v p ops rid who i clk now c = (r, c') \<and> answered r \<longrightarrow> on_record v who ''memory_get'' (Some i) c') \<and>
   (\<forall>r c' sc'. search_memory v p re load bo asks rid who query k hints clk now c sc = ((r, c'), sc') \<and> answered r \<longrightarrow>
      on_record v who ''search'' None c')"
  by (intro conjI allI impI; elim conjE)
    (erule (1) write_memory_record delete_memory_record get_memory_record search_memory_record)+

subsection \<open>Approvals need both the owner and an approver\<close>

lemma approval_route_passed:
  assumes "approval_route v who service refuse sv = (r, sv')" and "sv_world sv' \<noteq> sv_world sv"
  shows "\<exists>root t x. mk_root_principal (ident v) = Inr root \<and> pr_id who = pr_id root \<and> build_transport_if_approvable v = Some t \<and>
    service t (sv_world sv) = (x, sv_world sv')"
proof -
  obtain t where g: "require_owner (ident v) who = Inr ()" "resolve_transport v = Inr t"
    using assms by (auto simp: approval_route_def hbind_def split: sum.split_asm)
  have "\<exists>x. service t (sv_world sv) = (x, sv_world sv')"
    using assms(1) g by (cases "service t (sv_world sv)") (auto simp: approval_route_def split: sum.split_asm)
  moreover have "build_transport_if_approvable v = Some t" using g(2) by (simp add: resolve_transport_def split: option.split_asm)
  moreover have "\<exists>root. mk_root_principal (ident v) = Inr root \<and> pr_id who = pr_id root"
    using g(1) by (auto simp: require_owner_def hbind_Inr split: if_split_asm)
  ultimately show ?thesis by blast
qed

lemma approvable_kind: "build_transport_if_approvable g = Some t \<Longrightarrow> transport_kind (appr g) = ''local_cli''"
  by (simp add: build_transport_if_approvable_def MCP_APPROVABLE_TRANSPORTS_def split: if_split_asm)

text \<open>
  Over HTTP a decision needs two credentials.  When an approve or reject request changes the queue or the store,
  its bearer principal was the governance root, the deployment's transport is \<open>local_cli\<close>, and the approval token of
  the header was verified by it as an authorized approver; the bearer alone never decides.
\<close>

theorem http_approval_two_factors:
  assumes "snd (approve_route v fs ops prof wid rid who tok clk i sv) = sv' \<or> snd (reject_route v fs rid who tok clk i sv) = sv'"
    and "w_outbox (sv_world sv') \<noteq> w_outbox (sv_world sv) \<or> w_store (sv_world sv') \<noteq> w_store (sv_world sv)"
  shows "\<exists>root t c by'. mk_root_principal (ident v) = Inr root \<and> pr_id who = pr_id root \<and>
    transport_kind (appr v) = ''local_cli'' \<and> build_transport_if_approvable v = Some t \<and>
    tok = Some c \<and> verify_presser fs t c = Some by' \<and> by' \<in> set (authorized_approvers (appr v))"
proof -
  have changed: "sv_world sv' \<noteq> sv_world sv" using assms(2) by auto
  obtain root t where p: "mk_root_principal (ident v) = Inr root" "pr_id who = pr_id root" "build_transport_if_approvable v = Some t"
    and s: "(\<exists>x. approve v fs t tok (audit_ctx v rid who) (Inr ops) prof wid clk i (sv_world sv) = (x, sv_world sv')) \<or>
      (\<exists>x. reject v fs t tok (audit_ctx v rid who) clk i (sv_world sv) = (x, sv_world sv'))"
    using assms(1)
  proof
    assume "snd (approve_route v fs ops prof wid rid who tok clk i sv) = sv'"
    then obtain r where "approve_route v fs ops prof wid rid who tok clk i sv = (r, sv')" by (metis prod.collapse)
    from approval_route_passed [OF this [unfolded approve_route_def] changed] that show ?thesis by blast
  next
    assume "snd (reject_route v fs rid who tok clk i sv) = sv'"
    then obtain r where "reject_route v fs rid who tok clk i sv = (r, sv')" by (metis prod.collapse)
    from approval_route_passed [OF this [unfolded reject_route_def] changed] that show ?thesis by blast
  qed
  obtain by' where by': "verify_approver fs t v tok = Inr by'"
  proof (cases "verify_approver fs t v tok")
    case (Inl e)
    from s have "w_store (sv_world sv') = w_store (sv_world sv) \<and> w_outbox (sv_world sv') = w_outbox (sv_world sv)"
      using approve_refused [OF Inl] reject_refused [OF Inl] by (elim disjE exE)
    with assms(2) show ?thesis by simp
  qed
  obtain c where c: "by' \<in> set (authorized_approvers (appr v))" "tok = Some c" "verify_presser fs t c = Some by'"
    using verify_approver_ok [OF by'] by (elim conjE exE)
  show ?thesis
    by (intro exI [of _ root] exI [of _ t] exI [of _ c] exI [of _ by'] conjI) (rule p c approvable_kind [OF p(3)])+
qed

subsection \<open>Bursts over HTTP\<close>

text \<open>
  A new client has written nothing, so the quota per minute of a profile never stops an HTTP write: only the daily
  quota, kept by the process-wide counters, does.
\<close>

theorem http_burst_unchecked:
  assumes "0 < burst_max_per_minute p" and "count_today (prof_name p) ''writes'' (sv_counts sv) < daily_max_drawers p"
  shows "fst (enforce_write_quota p now (memory_client who sv)) = Inr ()"
  using assms by (simp add: enforce_write_quota_def memory_client_def Let_def)

subsection \<open>Elevation over HTTP\<close>

lemma open_break_glass_cases:
  assumes "open_break_glass v cfg rid who reason ttl tenants token clk sv = (Inr (t, x), sv')"
  shows "\<exists>elevated au. bg_open (sha256_hex v) (ident v) (Some reason) ttl [] (Some who) (clk 0) (w_audit (sv_world sv)) = Inr (elevated, au) \<and>
    dget (hs_elevated (sv_http sv')) (au_hash cfg t) = Some elevated \<and>
    (\<exists>row \<in> set (hs_tokens (sv_http sv')). tk_sha row = au_hash cfg t \<and> tk_expires_at row = Some (clk 1 + seconds ttl))"
proof -
  obtain elevated au where o': "bg_open (sha256_hex v) (ident v) (Some reason) ttl [] (Some who) (clk 0) (w_audit (sv_world sv)) = Inr (elevated, au)"
    using assms by (cases "bg_open (sha256_hex v) (ident v) (Some reason) ttl [] (Some who) (clk 0) (w_audit (sv_world sv))")
      (auto simp: open_break_glass_def split: exc.split_asm)
  let ?m = "rbind (mk_root_principal (au_identity cfg)) (\<lambda>root.
      mint (au_hash cfg) (au_identity cfg) (au_alias cfg) (au_load cfg) (pr_id root) (''break-glass-'' @ rid) [''*'']
        (Some ttl) token (clk 1) (hs_tokens (sv_http sv)))"
  obtain t' db where m: "?m = Inr (t', db)"
    using assms o' by (cases ?m) (auto simp: open_break_glass_def Let_def)
  then obtain pid where "mint (au_hash cfg) (au_identity cfg) (au_alias cfg) (au_load cfg) pid (''break-glass-'' @ rid) [''*'']
        (Some ttl) token (clk 1) (hs_tokens (sv_http sv)) = Inr (t', db)" by (auto simp: rbind_Inr_iff)
  from mint_appends [OF this] obtain row where "db = hs_tokens (sv_http sv) @ [row]" "t' = token" "tk_sha row = au_hash cfg token"
    "tk_expires_at row = map_option (\<lambda>s. clk 1 + seconds s) (Some ttl)" by blast
  then have row: "row \<in> set db" "tk_sha row = au_hash cfg t'" "tk_expires_at row = Some (clk 1 + seconds ttl)" by simp_all
  have kept: "sv_http (snd (with_client who f sv2)) = sv_http sv2" for f sv2
    by (simp add: with_client_def close_client_def case_prod_beta)
  have "t = t'" "hs_elevated (sv_http sv') = dset (au_hash cfg t') elevated (hs_elevated (sv_http sv))" "hs_tokens (sv_http sv') = db"
    using assms o' m kept
    by (auto simp: open_break_glass_def Let_def with_client_def audited_def close_client_def split: sum.split_asm prod.split_asm)
  with o' row show ?thesis by (auto simp: dict_simps)
qed

text \<open>
  Elevation over HTTP belongs to the root operator, is reported in the log and ends by itself.  A successful
  break-glass request came from the governance root with the operator role and a positive lifetime, its opening is the
  row the audit chain got, and from the moment the lifetime has passed no request with the minted token gets in,
  whatever has become of the rest of the server.
\<close>

theorem http_elevation_ends:
  assumes "open_break_glass v cfg rid who reason ttl tenants token clk sv = (Inr (t, x), sv')"
  shows "validate_root_caller (ident v) who = Inr () \<and> 0 < ttl \<and> py_strip reason \<noteq> [] \<and>
    (\<exists>elevated. dget (hs_elevated (sv_http sv')) (au_hash cfg t) = Some elevated \<and>
       (\<forall>now. is_root_with_break_glass elevated now \<longleftrightarrow> now < clk 0 + seconds ttl) \<and>
       (\<forall>path header clk' st p st'. dget (hs_elevated st) (au_hash cfg t) = Some elevated \<and> bearer_of header = Inr t \<and>
          clk 0 + seconds ttl \<le> clk' 3 \<longrightarrow> http_enter cfg path header clk' st \<noteq> (Inr (Some p), st')))"
proof -
  obtain elevated au where o': "bg_open (sha256_hex v) (ident v) (Some reason) ttl [] (Some who) (clk 0) (w_audit (sv_world sv)) = Inr (elevated, au)"
    and d: "dget (hs_elevated (sv_http sv')) (au_hash cfg t) = Some elevated" using open_break_glass_cases [OF assms] by blast
  have "validate_root_caller (ident v) who = Inr ()" using o' by (auto simp: bg_open_def Let_def rbind_Inr_iff split: if_split_asm)
  moreover have "0 < ttl" "py_strip reason \<noteq> []" using bg_open_Inr [OF o'] by auto
  moreover have until': "is_root_with_break_glass elevated now \<longleftrightarrow> now < clk 0 + seconds ttl" for now by (rule elevated_until [OF o'])
  moreover have "http_enter cfg path header clk' st \<noteq> (Inr (Some p), st')"
    if "dget (hs_elevated st) (au_hash cfg t) = Some elevated \<and> bearer_of header = Inr t \<and> clk 0 + seconds ttl \<le> clk' 3"
    for path header clk' st p st'
  proof
    assume "http_enter cfg path header clk' st = (Inr (Some p), st')"
    from entered_as [OF this] that until' [of "clk' 3"] show False by auto
  qed
  ultimately show ?thesis using d by blast
qed

subsection \<open>Examples\<close>

definition sample_sv :: "string list server" where
  "sample_sv = \<lparr>sv_http = sample_http, sv_world = sample_pending, sv_counts = [], sv_cache = [], sv_contexts = []\<rparr>"

definition sample_owner :: principal where
  "sample_owner = \<lparr>pr_id = ''human:owner@local'', tenant_id = ''t_owner'', subject_id = ''owner'', actor_kind = ''human'',
     scopes = {''*''}, roles = {''root_operator''}, root_flag = True, bg_token = None\<rparr>"

definition sample_deployment :: env where
  "sample_deployment = sample_env\<lparr>appr := \<lparr>authorized_approvers = [''local_cli:owner''], transport_kind = ''local_cli'',
     transport_config = [(''token_file'', JStr ''t''), (''token_mode'', JStr ''600'')]\<rparr>\<rparr>"

theorem http_on_record_witness:
  "\<exists>r c'. get_memory_route sample_env sample_agent sample_client_ops ''r1'' sample_me ''h'' int 9 sample_client = (r, c') \<and>
     on_record sample_env sample_me ''memory_get'' (Some ''h'') c'"
proof -
  let ?run = "get_memory_route sample_env sample_agent sample_client_ops ''r1'' sample_me ''h'' int 9 sample_client"
  have "audit_up (w_audit (cw sample_client))" by (simp add: sample_client_def)
  then have "answered (fst ?run)"
    by (simp add: get_memory_route_def sample_fetched audited_def audit_write_def audit_connect_def Let_def)
  moreover obtain r c' where run: "?run = (r, c')" by (cases ?run)
  moreover note conjunct1 [OF conjunct2 [OF conjunct2 [OF http_on_record [where v = sample_env and p = sample_agent and
      ops = sample_client_ops and rid = "''r1''" and who = sample_me and i = "''h''" and clk = int and now = 9 and c = sample_client]]]]
  ultimately have "on_record sample_env sample_me ''memory_get'' (Some ''h'') c'" by simp
  with run show ?thesis by blast
qed

lemma sample_deployment_parts:
  "build_transport_if_approvable sample_deployment = Some sample_channel" "require_owner (ident sample_deployment) sample_owner = Inr ()"
  "authorized_approvers (appr sample_deployment) = [''local_cli:owner'']" "sha256_hex sample_deployment = sha256_hex sample_env"
proof -
  have "tenant_re ''owner''" "tenant_re ''*''" by code_simp+
  then have "mk_root_principal sample_identity = Inr (sample_owner\<lparr>tenant_id := ''*''\<rparr>)"
    by (simp add: mk_root_principal_def mk_principal_iff principal_ok_def sample_identity_def sample_owner_def)
  then show "require_owner (ident sample_deployment) sample_owner = Inr ()"
    by (simp add: require_owner_def sample_deployment_def sample_env_def sample_owner_def)
  show "build_transport_if_approvable sample_deployment = Some sample_channel" by code_simp
qed (simp_all add: sample_deployment_def)

lemma sample_rejected:
  "w_outbox (sv_world (snd (reject_route sample_deployment sample_files ''r1'' sample_owner (Some ''secret'') int 1 sample_sv))) \<noteq>
   w_outbox (sv_world sample_sv)"
proof -
  let ?ac = "audit_ctx sample_deployment ''r1'' sample_owner"
  have ver: "verify_approver sample_files sample_channel sample_deployment (Some ''secret'') = Inr ''local_cli:owner''"
    using sample_presser sample_deployment_parts(3) by (simp add: verify_approver_def)
  have "intact (sha256_hex sample_deployment) (audit_rows (w_audit sample_pending))"
    unfolding sample_deployment_parts(4) by (rule sample_pending_ok(2))
  then obtain n h au where ap: "append_decision sample_deployment ?ac ''reject'' 1 ''local_cli:owner'' (stamp_provenance sample_channel)
      None None (int 0) (w_audit sample_pending) = (Inr (n, h), au)"
    using append_decision_ok [OF _ sample_pending_ok(3)] by blast
  obtain c db where u: "update_approval_status sample_deployment 1 ''rejected'' (Some ''local_cli:owner'') (int 1) (w_outbox sample_pending) =
      Inr (c, db)" "c \<noteq> 0" "map status (approvals db) = [''rejected'']"
    by (simp add: update_approval_status_def outbox_connect_def sample_pending_ok(4) Let_def)
      (simp add: sample_pending_def sample_outbox_def count_where_def queued_fields queued_row_ok undecided_def approvable_statuses_def finalizer_unclaimed_def)
  have "\<exists>w'. reject sample_deployment sample_files sample_channel (Some ''secret'') ?ac int 1 sample_pending = (Inr (), w') \<and> w_outbox w' = db"
    using ver ap u by (simp add: reject_def Let_def)
  moreover have "map status (approvals (w_outbox sample_pending)) = [''pending_approval'']"
    by (simp add: sample_pending_def sample_outbox_def queued_fields)
  then have "db \<noteq> w_outbox sample_pending" using u(3) by auto
  ultimately show ?thesis
    by (auto simp: reject_route_def approval_route_def sample_deployment_parts resolve_transport_def sample_sv_def)
qed

theorem http_approval_two_factors_witness:
  "\<exists>t by'. build_transport_if_approvable sample_deployment = Some t \<and> verify_presser sample_files t ''secret'' = Some by' \<and>
     by' \<in> set (authorized_approvers (appr sample_deployment))"
proof -
  obtain t c by' where "build_transport_if_approvable sample_deployment = Some t" "Some ''secret'' = Some c"
    "verify_presser sample_files t c = Some by'" "by' \<in> set (authorized_approvers (appr sample_deployment))"
    using http_approval_two_factors [OF disjI2 [OF refl] disjI1 [OF sample_rejected]] by (elim exE conjE)
  then show ?thesis by (intro exI [of _ t] exI [of _ by']) simp
qed

lemma sample_bg_open:
  "\<exists>elevated au. bg_open H sample_identity (Some ''incident'') 600 [] (Some sample_owner) now \<lparr>audit_rows = [], audit_up = True\<rparr> = Inr (elevated, au) \<and>
     audit_up au"
proof -
  have "tenant_re ''owner''" "tenant_re ''*''" "py_strip ''incident'' \<noteq> []" by code_simp+
  then show ?thesis
    by (simp add: bg_open_def validate_root_caller_def has_scope_def elevate_def audit_tail_hash_def audit_connect_def audit_write_def
        mk_root_principal_def mk_principal_def validate_identity_id_def Let_def sample_identity_def sample_owner_def)
qed

lemma sample_minted:
  "\<exists>db. rbind (mk_root_principal sample_identity) (\<lambda>root. mint sample_hash sample_identity True (\<lambda>n. Inl (RuntimeError n)) (pr_id root)
     (''break-glass-'' @ ''r1'') [''*''] (Some 600) ''bg'' (int 1) [sample_token]) = Inr (''bg'', db)"
proof -
  have "case rbind (mk_root_principal sample_identity) (\<lambda>root. mint sample_hash sample_identity True (\<lambda>n. Inl (RuntimeError n)) (pr_id root)
     (''break-glass-'' @ ''r1'') [''*''] (Some 600) ''bg'' (int 1) [sample_token]) of Inr (t, db) \<Rightarrow> t = ''bg'' | Inl _ \<Rightarrow> False"
    by code_simp
  then show ?thesis by (auto split: sum.split_asm)
qed

lemma sample_elevated:
  "\<exists>x sv'. open_break_glass sample_env sample_auth ''r1'' sample_owner ''incident'' 600 [] ''bg'' int sample_sv = (Inr (''bg'', x), sv')"
proof -
  obtain elevated au where bg: "bg_open hex64 sample_identity (Some ''incident'') 600 [] (Some sample_owner) 0
      \<lparr>audit_rows = [], audit_up = True\<rparr> = Inr (elevated, au)" "audit_up au" using sample_bg_open by blast
  obtain db where m: "rbind (mk_root_principal sample_identity) (\<lambda>root. mint sample_hash sample_identity True (\<lambda>n. Inl (RuntimeError n)) (pr_id root)
     (''break-glass-'' @ ''r1'') [''*''] (Some 600) ''bg'' (int 1) [sample_token]) = Inr (''bg'', db)" using sample_minted by blast
  have env: "sha256_hex sample_env = hex64" "ident sample_env = sample_identity" by (simp_all add: sample_env_def)
  have w: "w_audit (sv_world sample_sv) = \<lparr>audit_rows = [], audit_up = True\<rparr>" "hs_tokens (sv_http sample_sv) = [sample_token]"
    by (simp_all add: sample_sv_def sample_pending_def sample_http_def)
  have auth: "au_hash sample_auth = sample_hash" "au_identity sample_auth = sample_identity" "au_alias sample_auth"
    "au_load sample_auth = (\<lambda>n. Inl (RuntimeError n))" by (simp_all add: sample_auth_def)
  show ?thesis using bg m
    by (simp add: open_break_glass_def env w auth Let_def with_client_def audited_def audit_write_def audit_connect_def memory_client_def)
qed

theorem http_elevation_ends_witness:
  "\<exists>x sv' elevated. open_break_glass sample_env sample_auth ''r1'' sample_owner ''incident'' 600 [] ''bg'' int sample_sv = (Inr (''bg'', x), sv') \<and>
     dget (hs_elevated (sv_http sv')) ''#bg'' = Some elevated \<and> is_root_with_break_glass elevated 5 \<and>
     \<not> is_root_with_break_glass elevated (seconds 600)"
proof -
  obtain x sv' where o': "open_break_glass sample_env sample_auth ''r1'' sample_owner ''incident'' 600 [] ''bg'' int sample_sv = (Inr (''bg'', x), sv')"
    using sample_elevated by blast
  have h: "au_hash sample_auth ''bg'' = ''#bg''" by (simp add: sample_auth_def sample_hash_def)
  from http_elevation_ends [OF o'] o' h show ?thesis by (auto simp: seconds_def)
qed

end
