(* ===== verification/Source_Replace.thy ===== *)
theory Source_Replace
  imports Forget
begin

text \<open>
  The source-version replacement of \<open>panella/client.py\<close> (\<open>delete_prior_source_versions\<close>,
  \<open>replace_source_atom_set\<close>): the batch sync of files deletes its own prior rows of a source, found by the tag
  of the source key, and writes the new atoms, checking before and after that the stored set is the expected one.
  A set of hashes is kept as a list.  Clock readings are numbered; the replacement has three such numberings, its
  own, that of the deletion and that of the writes.
\<close>

subsection \<open>Deleting the prior versions\<close>

definition source_reason :: string where
  "source_reason = ''cc-sync oversize source-version replace''"

definition source_guard :: "agent_profile \<Rightarrow> principal \<Rightarrow> string \<Rightarrow> time \<Rightarrow> unit res" where
  "source_guard p who key now =
     rbind (require_scope who ''memory.write'') (\<lambda>_. rbind (require_active_break_glass who now) (\<lambda>_.
       if prof_name p \<noteq> ''cc-sync'' then Inl (PermissionError ''restricted to the cc-sync profile'')
       else if length key \<noteq> 64 \<or> \<not> list_all is_hex_char key then
         Inl (ValueError ''source_artifact_key must be a sha256 hex digest'')
       else Inr ()))"

definition source_tag :: "string \<Rightarrow> string" where
  "source_tag key = ''ccsk:'' @ key"

text \<open>One candidate: its owner is checked, and only a confirmed deletion is recorded.\<close>

definition delete_candidate ::
  "env \<Rightarrow> agent_profile \<Rightarrow> 's client_ops \<Rightarrow> 's deleter \<Rightarrow> string \<Rightarrow> string \<Rightarrow> string \<Rightarrow> (nat \<Rightarrow> time) \<Rightarrow> 's client \<Rightarrow>
   bool res \<times> 's client" where
  "delete_candidate v p ops del tenant key h clk c =
     andthen (require_mutation_target_owned p ops (me c) h (clk 0) (client_store c), c) (\<lambda>owned c.
       if \<not> owned then (Inr False, c)
       else andthen (on_store (del h source_reason) c) (\<lambda>ok c.
         if \<not> ok then (Inr False, c)
         else andthen (audit_if_cross_tenant v ''hard_delete'' (Some h)
             [(''reason'', JStr ''cc_sync_source_version_replace''), (''source_artifact_key'', JStr key)] tenant (clk 1) (clk 2) c)
           (\<lambda>_ c. (Inr True, log_history ((history_entry (clk 3) ''cc_sync_source_replace_delete'' h tenant (Some (pr_id (me c))))
                     \<lparr>mh_reason := Some source_reason\<rparr>) c))))"

fun delete_candidates ::
  "env \<Rightarrow> agent_profile \<Rightarrow> 's client_ops \<Rightarrow> 's deleter \<Rightarrow> string \<Rightarrow> string \<Rightarrow> string option \<Rightarrow> string list \<Rightarrow> (nat \<Rightarrow> time) \<Rightarrow>
   's client \<Rightarrow> string list res \<times> 's client" where
  "delete_candidates v p ops del tenant key keep [] clk c = (Inr [], c)"
| "delete_candidates v p ops del tenant key keep (h # hs) clk c =
     (if given_or keep [] \<noteq> [] \<and> Some h = keep then delete_candidates v p ops del tenant key keep hs clk c
      else andthen (delete_candidate v p ops del tenant key h clk c) (\<lambda>ok c.
           andthen (delete_candidates v p ops del tenant key keep hs (\<lambda>k. clk (k + 4)) c) (\<lambda>ds c.
             (Inr (if ok then h # ds else ds), c))))"

definition delete_prior_source_versions ::
  "env \<Rightarrow> agent_profile \<Rightarrow> 's client_ops \<Rightarrow> string \<Rightarrow> string option \<Rightarrow> (nat \<Rightarrow> time) \<Rightarrow> 's client \<Rightarrow> string list res \<times> 's client" where
  "delete_prior_source_versions v p ops key keep clk c =
     andthen (source_guard p (me c) key (clk 0), c) (\<lambda>_ c.
     andthen (enforce_write_quota p (clk 1) c) (\<lambda>_ c.
       case (op_find ops, store_delete ops) of
         (Some finder, Some del) \<Rightarrow>
           andthen (write_tenant_id v p (me c) (clk 2), c) (\<lambda>tenant c.
           andthen (finder (source_tag key) tenant (client_store c), c) (\<lambda>candidates c.
           andthen (delete_candidates v p ops del tenant key keep candidates (\<lambda>k. clk (k + 3)) c) (\<lambda>deleted c.
           andthen (finder (source_tag key) tenant (client_store c), c) (\<lambda>left c.
             if filter (\<lambda>h. Some h \<noteq> keep) left \<noteq> [] then (Inl PanellaUnknownWriteOutcome, c)
             else (Inr deleted, c)))))
       | _ \<Rightarrow> (Inr [], c)))"

subsection \<open>Replacing the set\<close>

record atom_write =
  at_content :: string
  at_metadata :: dict

record atom_set_result =
  as_status :: string
  as_deleted :: nat
  as_written :: nat

definition stored_content_hash :: "env \<Rightarrow> string \<Rightarrow> string" where
  "stored_content_hash v text = sha256_hex v (py_lower (py_strip (sanitize v text)))"

text \<open>The keyword arguments of one write; a key that is already a parameter of \<open>write\<close> is a TypeError.\<close>

definition atom_metadata :: "string \<Rightarrow> atom_write \<Rightarrow> dict res" where
  "atom_metadata key a =
     (let md = filter (\<lambda>(k, x). k \<notin> {''room'', ''memory_type''}) (at_metadata a) in
      rbind (list_of (dget md ''tags'')) (\<lambda>tags.
        if \<exists>k \<in> {''content'', ''conversation_id'', ''self''}. dget md k \<noteq> None then
          Inl (TypeError ''got multiple values for keyword argument'')
        else Inr (dset ''tags'' (JList (JStr (source_tag key) # tags)) md)))"

fun write_atoms ::
  "env \<Rightarrow> agent_profile \<Rightarrow> 's client_ops \<Rightarrow> string \<Rightarrow> string \<Rightarrow> string \<Rightarrow> atom_write list \<Rightarrow> (nat \<Rightarrow> time) \<Rightarrow> 's client \<Rightarrow>
   nat res \<times> 's client" where
  "write_atoms v p ops key room mtype [] clk c = (Inr 0, c)"
| "write_atoms v p ops key room mtype (a # as) clk c =
     andthen (atom_metadata key a, c) (\<lambda>md c.
     andthen (client_write v p ops (at_content a) room mtype (Some (''cc-sync:'' @ key)) md clk c) (\<lambda>_ c.
     andthen (write_atoms v p ops key room mtype as (\<lambda>k. clk (k + 11)) c) (\<lambda>n c. (Inr (Suc n), c))))"

text \<open>The hashes the atoms will be stored under, without repetition.\<close>

definition expected_hashes :: "env \<Rightarrow> atom_write list \<Rightarrow> string list" where
  "expected_hashes v atoms = remdups (map (\<lambda>a. stored_content_hash v (at_content a)) atoms)"

text \<open>The complete-set check before any change; a failing read is not a confirmation.\<close>

definition set_unchanged :: "'s client_ops \<Rightarrow> string \<Rightarrow> string \<Rightarrow> string list \<Rightarrow> 's \<Rightarrow> bool" where
  "set_unchanged ops key tenant expected s =
     (case op_find ops of None \<Rightarrow> False
      | Some finder \<Rightarrow> (case finder (source_tag key) tenant s of Inl _ \<Rightarrow> False | Inr active \<Rightarrow> set active = set expected))"

definition verify_set :: "'s client_ops \<Rightarrow> string \<Rightarrow> string \<Rightarrow> string list \<Rightarrow> 's \<Rightarrow> unit res" where
  "verify_set ops key tenant expected s =
     (case op_find ops of None \<Rightarrow> Inr ()
      | Some finder \<Rightarrow> rbind (finder (source_tag key) tenant s) (\<lambda>final.
          if set final \<noteq> set expected then Inl PanellaUnknownWriteOutcome else Inr ()))"

definition rewrite_set ::
  "env \<Rightarrow> agent_profile \<Rightarrow> 's client_ops \<Rightarrow> string \<Rightarrow> string \<Rightarrow> string list \<Rightarrow> atom_write list \<Rightarrow> string \<Rightarrow> string \<Rightarrow>
   (nat \<Rightarrow> nat \<Rightarrow> time) \<Rightarrow> 's client \<Rightarrow> atom_set_result res \<times> 's client" where
  "rewrite_set v p ops key tenant expected atoms room mtype clk c =
     andthen (delete_prior_source_versions v p ops key None (clk 1) c) (\<lambda>deleted c.
     andthen (write_atoms v p ops key room mtype atoms (clk 2) c) (\<lambda>written c.
     andthen (verify_set ops key tenant expected (client_store c), c) (\<lambda>_ c.
       (Inr \<lparr>as_status = ''written'', as_deleted = length deleted, as_written = written\<rparr>, c))))"

definition replace_source_atom_set ::
  "env \<Rightarrow> agent_profile \<Rightarrow> 's client_ops \<Rightarrow> string \<Rightarrow> atom_write list \<Rightarrow> string \<Rightarrow> string \<Rightarrow> (nat \<Rightarrow> nat \<Rightarrow> time) \<Rightarrow>
   's client \<Rightarrow> atom_set_result res \<times> 's client" where
  "replace_source_atom_set v p ops key atoms room mtype clk c =
     andthen (source_guard p (me c) key (clk 0 0), c) (\<lambda>_ c.
       if atoms = [] then (Inl (ValueError ''replace_source_atom_set requires a non-empty atom set''), c)
       else andthen (write_tenant_id v p (me c) (clk 0 1), c) (\<lambda>tenant c.
         let expected = expected_hashes v atoms in
         if length expected \<ge> FIND_ACTIVE_HASHES_LIMIT then (Inl PanellaUnknownWriteOutcome, c)
         else if set_unchanged ops key tenant expected (client_store c) then
           (Inr \<lparr>as_status = ''unchanged'', as_deleted = 0, as_written = 0\<rparr>, c)
         else andthen (check_write_quota p (int (length atoms)) (clk 0 2) c) (\<lambda>_ c.
           rewrite_set v p ops key tenant expected atoms room mtype clk c)))"

subsection \<open>The deletion stays inside the source\<close>

text \<open>The ways a store can change by deletions of rows from \<open>H\<close> that the caller owned when they were deleted.\<close>

inductive owned_deletes ::
  "agent_profile \<Rightarrow> 's client_ops \<Rightarrow> principal \<Rightarrow> 's deleter \<Rightarrow> time set \<Rightarrow> string set \<Rightarrow> 's \<Rightarrow> 's \<Rightarrow> bool"
  for p ops who del T H where
  none: "owned_deletes p ops who del T H s s"
| one: "h \<in> H \<Longrightarrow> (\<exists>t \<in> T. is_root_with_break_glass who t) \<or> owned_by_caller p ops who h s \<Longrightarrow>
    owned_deletes p ops who del T H (snd (del h source_reason s)) s' \<Longrightarrow> owned_deletes p ops who del T H s s'"

lemma owned_deletes_trans:
  "owned_deletes p ops who del T H s s' \<Longrightarrow> owned_deletes p ops who del T H s' s'' \<Longrightarrow> owned_deletes p ops who del T H s s''"
  by (induction rule: owned_deletes.induct) (auto intro: owned_deletes.intros)

lemma owned_deletes_mono: "owned_deletes p ops who del T H s s' \<Longrightarrow> H \<subseteq> H' \<Longrightarrow> T \<subseteq> T' \<Longrightarrow> owned_deletes p ops who del T' H' s s'"
  by (induction rule: owned_deletes.induct) (blast intro: owned_deletes.intros)+

lemma delete_candidate_store:
  assumes "delete_candidate v p ops del tenant key h clk c = (res, c')"
  shows "me c' = me c \<and> owned_deletes p ops (me c) del (range clk) {h} (client_store c) (client_store c')"
proof (cases "require_mutation_target_owned p ops (me c) h (clk 0) (client_store c)")
  case (Inl e)
  with assms show ?thesis by (auto simp: delete_candidate_def intro: owned_deletes.none)
next
  case (Inr owned)
  show ?thesis
  proof (cases owned)
    case False
    with assms Inr show ?thesis by (auto simp: delete_candidate_def intro: owned_deletes.none)
  next
    case True
    obtain r c1 where s: "on_store (del h source_reason) c = (r, c1)" by (cases "on_store (del h source_reason) c")
    have c1: "me c1 = me c" "client_store c1 = snd (del h source_reason (client_store c))"
      using on_store_parts [of "del h source_reason" c] s by simp_all
    have "me c' = me c1 \<and> client_store c' = client_store c1"
    proof (cases r)
      case (Inl e)
      with assms Inr True s show ?thesis by (simp add: delete_candidate_def)
    next
      case ok: (Inr ok)
      obtain a c2 where a: "audit_if_cross_tenant v ''hard_delete'' (Some h)
          [(''reason'', JStr ''cc_sync_source_version_replace''), (''source_artifact_key'', JStr key)] tenant (clk 1) (clk 2) c1 = (a, c2)"
        by (cases "audit_if_cross_tenant v ''hard_delete'' (Some h)
          [(''reason'', JStr ''cc_sync_source_version_replace''), (''source_artifact_key'', JStr key)] tenant (clk 1) (clk 2) c1")
      have "me c2 = me c1" "client_store c2 = client_store c1" using audit_if_parts(1,2) [of v] a by (metis snd_conv)+
      with assms Inr True s ok a show ?thesis by (cases ok; cases a) (auto simp: delete_candidate_def)
    qed
    moreover have "(\<exists>t \<in> range clk. is_root_with_break_glass (me c) t) \<or> owned_by_caller p ops (me c) h (client_store c)"
      using owned_cases [of p ops "me c" h "clk 0"] Inr True by auto
    ultimately have "me c' = me c" "client_store c' = snd (del h source_reason (client_store c))"
      "(\<exists>t \<in> range clk. is_root_with_break_glass (me c) t) \<or> owned_by_caller p ops (me c) h (client_store c)"
      using c1 by auto
    then show ?thesis by (simp add: owned_deletes.one [OF _ _ owned_deletes.none])
  qed
qed

text \<open>The candidates but the kept one.\<close>

definition replaceable :: "string option \<Rightarrow> string list \<Rightarrow> string set" where
  "replaceable keep hs = {h \<in> set hs. keep = None \<or> keep = Some [] \<or> keep \<noteq> Some h}"

lemma replaceable_Cons:
  "replaceable keep hs \<subseteq> replaceable keep (h # hs)"
  "\<not> (given_or keep [] \<noteq> [] \<and> Some h = keep) \<Longrightarrow> h \<in> replaceable keep (h # hs)"
  by (auto simp: replaceable_def given_or_def split: option.split_asm if_split_asm)

lemma delete_candidates_store:
  assumes "delete_candidates v p ops del tenant key keep hs clk c = (res, c')"
  shows "me c' = me c \<and> owned_deletes p ops (me c) del (range clk) (replaceable keep hs) (client_store c) (client_store c')
    \<and> (\<forall>ds. res = Inr ds \<longrightarrow> set ds \<subseteq> replaceable keep hs)"
  using assms
proof (induction hs arbitrary: clk c res c')
  case Nil
  then show ?case by (auto intro: owned_deletes.none)
next
  case (Cons h hs)
  let ?R = "replaceable keep (h # hs)"
  show ?case
  proof (cases "given_or keep [] \<noteq> [] \<and> Some h = keep")
    case True
    then have "delete_candidates v p ops del tenant key keep hs clk c = (res, c')" using Cons.prems by auto
    note ih = Cons.IH [OF this]
    moreover from ih have "owned_deletes p ops (me c) del (range clk) ?R (client_store c) (client_store c')"
      by (intro owned_deletes_mono [OF conjunct1 [OF conjunct2 [OF ih]] replaceable_Cons(1) order_refl])
    ultimately show ?thesis using replaceable_Cons(1) [of keep hs h] by blast
  next
    case False
    note keep = replaceable_Cons(2) [OF False, of hs]
    obtain r c1 where d: "delete_candidate v p ops del tenant key h clk c = (r, c1)"
      by (cases "delete_candidate v p ops del tenant key h clk c")
    note first = delete_candidate_store [OF d]
    have f: "owned_deletes p ops (me c) del (range clk) ?R (client_store c) (client_store c1)"
      by (rule owned_deletes_mono [OF conjunct2 [OF first]]) (use keep in auto)
    show ?thesis
    proof (cases r)
      case (Inl e)
      then have "res = Inl e" "c' = c1" using Cons.prems False d by auto
      with first f show ?thesis by simp
    next
      case (Inr ok)
      obtain r2 c2 where rest: "delete_candidates v p ops del tenant key keep hs (\<lambda>k. clk (k + 4)) c1 = (r2, c2)"
        by (cases "delete_candidates v p ops del tenant key keep hs (\<lambda>k. clk (k + 4)) c1")
      note ih = Cons.IH [OF rest]
      have c2: "c' = c2" using Cons.prems False d Inr rest by (cases r2) auto
      have out: "set ds \<subseteq> ?R" if "res = Inr ds" for ds
        using Cons.prems False d Inr rest that ih keep replaceable_Cons(1) [of keep hs h] by (cases r2) (auto split: if_split_asm)
      have shift: "range (\<lambda>k. clk (k + 4)) \<subseteq> range clk" by auto
      have "owned_deletes p ops (me c) del (range clk) ?R (client_store c1) (client_store c2)"
        using owned_deletes_mono [OF conjunct1 [OF conjunct2 [OF ih]] replaceable_Cons(1) shift] first by simp
      then show ?thesis using owned_deletes_trans [OF f] first ih c2 out by simp
    qed
  qed
qed

lemma source_guard_ok:
  assumes "source_guard p who key now = Inr u"
  shows "has_scope who ''memory.write'' \<and> prof_name p = ''cc-sync'' \<and> length key = 64 \<and> list_all is_hex_char key"
  using assms by (auto simp: source_guard_def require_scope_def rbind_Inr_iff split: if_split_asm)

text \<open>A call of the deletion: refused with the store as it was, or run to its re-check.\<close>

lemma delete_prior_cases:
  assumes "delete_prior_source_versions v p ops key keep clk c = (res, c')"
  obtains (refused) e where "res = Inl e" "me c' = me c" "client_store c' = client_store c"
  | (legacy) "res = Inr []" "me c' = me c" "client_store c' = client_store c" "op_find ops = None \<or> store_delete ops = None"
      "source_guard p (me c) key (clk 0) = Inr ()"
  | (run) finder del tenant before where "source_guard p (me c) key (clk 0) = Inr ()" "op_find ops = Some finder"
      "store_delete ops = Some del" "write_tenant_id v p (me c) (clk 2) = Inr tenant"
      "finder (source_tag key) tenant (client_store c) = Inr before" "me c' = me c"
      "owned_deletes p ops (me c) del (range clk) (replaceable keep before) (client_store c) (client_store c')"
      "\<forall>hs. res = Inr hs \<longrightarrow> set hs \<subseteq> replaceable keep before \<and>
        (\<exists>left. finder (source_tag key) tenant (client_store c') = Inr left \<and> (\<forall>h \<in> set left. Some h = keep))"
proof (cases "source_guard p (me c) key (clk 0)")
  case (Inl e)
  with assms show ?thesis by (intro refused [of e]) (simp_all add: delete_prior_source_versions_def)
next
  case g: (Inr u)
  obtain q c1 where q: "enforce_write_quota p (clk 1) c = (q, c1)" by (cases "enforce_write_quota p (clk 1) c")
  have c1: "me c1 = me c" "client_store c1 = client_store c" using enforce_parts(1,3) [of p "clk 1" c] q by simp_all
  show ?thesis
  proof (cases q)
    case (Inl e)
    with assms g q c1 show ?thesis by (intro refused [of e]) (simp_all add: delete_prior_source_versions_def)
  next
    case (Inr u')
    note to_body = assms [unfolded delete_prior_source_versions_def] g q c1 Inr
    show ?thesis
    proof (cases "op_find ops = None \<or> store_delete ops = None")
      case True
      with to_body show ?thesis by (intro legacy) (auto split: option.split_asm)
    next
      case False
      then obtain finder del where f: "op_find ops = Some finder" "store_delete ops = Some del" by auto
      show ?thesis
      proof (cases "write_tenant_id v p (me c) (clk 2)")
        case (Inl e)
        with to_body f show ?thesis by (intro refused [of e]) simp_all
      next
        case t: (Inr tenant)
        show ?thesis
        proof (cases "finder (source_tag key) tenant (client_store c)")
          case (Inl e)
          with to_body f t show ?thesis by (intro refused [of e]) simp_all
        next
          case b: (Inr before)
          obtain r c2 where d: "delete_candidates v p ops del tenant key keep before (\<lambda>k. clk (k + 3)) c1 = (r, c2)"
            by (cases "delete_candidates v p ops del tenant key keep before (\<lambda>k. clk (k + 3)) c1")
          note eff = delete_candidates_store [OF d]
          have c': "c' = c2" "\<forall>hs. res = Inr hs \<longrightarrow> r = Inr hs \<and>
              (\<exists>left. finder (source_tag key) tenant (client_store c2) = Inr left \<and> (\<forall>h \<in> set left. Some h = keep))"
            using to_body f t b d
            by (cases r; cases "finder (source_tag key) tenant (client_store c2)";
                auto simp: filter_empty_conv split: if_split_asm)+
          have shift: "range (\<lambda>k. clk (k + 3)) \<subseteq> range clk" by auto
          have "owned_deletes p ops (me c) del (range clk) (replaceable keep before) (client_store c) (client_store c2)"
            using owned_deletes_mono [OF conjunct1 [OF conjunct2 [OF eff]] order_refl shift] c1 by simp
          with eff c1 c' g f t b show ?thesis by (intro run [of finder del tenant before]) auto
        qed
      qed
    qed
  qed
qed

subsection \<open>What the calls guarantee\<close>

text \<open>
  Deleting prior versions stays inside the source.  The store changes only by deletions of rows that the tag
  lookup of this source returned, other than the one to keep, and each of them was owned by the caller when it was
  deleted (or root elevation was active); the caller had the write scope and the batch profile.  A call that
  returns has deleted only such rows, and a second lookup found nothing left but the one to keep.
\<close>

theorem source_delete_scoped:
  assumes "delete_prior_source_versions v p ops key keep clk c = (res, c')" and "client_store c' \<noteq> client_store c"
  shows "prof_name p = ''cc-sync'' \<and> has_scope (me c) ''memory.write'' \<and>
    (\<exists>finder del tenant before. op_find ops = Some finder \<and> store_delete ops = Some del \<and>
       finder (source_tag key) tenant (client_store c) = Inr before \<and>
       owned_deletes p ops (me c) del (range clk) (replaceable keep before) (client_store c) (client_store c') \<and>
       (\<forall>hs. res = Inr hs \<longrightarrow> set hs \<subseteq> replaceable keep before \<and>
          (\<exists>left. finder (source_tag key) tenant (client_store c') = Inr left \<and> (\<forall>h \<in> set left. Some h = keep))))"
  using assms(1)
proof (cases rule: delete_prior_cases)
  case (run finder del tenant before)
  with source_guard_ok [OF run(1)] show ?thesis by blast
qed (use assms(2) in simp_all)

lemma check_quota_cases:
  assumes "check_write_quota p n now c = (q, c1)"
  shows "cw c1 = cw c \<and> me c1 = me c \<and> (q = Inr () \<longrightarrow> c1 = c \<and> (0 < n \<longrightarrow> writes_of p c + n \<le> daily_max_drawers p \<and>
    int (length (recent_stamps now (stamps c))) + n \<le> burst_max_per_minute p))"
  using assms by (auto simp: check_write_quota_def recent_stamps_def split: if_split_asm)

lemma write_atoms_count: "write_atoms v p ops key room mtype as clk c = (Inr n, c') \<Longrightarrow> n = length as"
  by (induction as arbitrary: clk c n) (auto simp: andthen_Inr)

text \<open>A replacement: refused before any change, found unchanged, or run.\<close>

lemma replace_cases:
  assumes "replace_source_atom_set v p ops key atoms room mtype clk c = (res, c')"
  obtains (refused) e where "res = Inl e" "client_store c' = client_store c"
  | (same) tenant where "source_guard p (me c) key (clk 0 0) = Inr ()" "write_tenant_id v p (me c) (clk 0 1) = Inr tenant"
      "set_unchanged ops key tenant (expected_hashes v atoms) (client_store c)" "c' = c"
      "res = Inr \<lparr>as_status = ''unchanged'', as_deleted = 0, as_written = 0\<rparr>"
  | (run) tenant where "source_guard p (me c) key (clk 0 0) = Inr ()" "write_tenant_id v p (me c) (clk 0 1) = Inr tenant"
      "atoms \<noteq> []" "length (expected_hashes v atoms) < FIND_ACTIVE_HASHES_LIMIT"
      "\<not> set_unchanged ops key tenant (expected_hashes v atoms) (client_store c)"
      "check_write_quota p (int (length atoms)) (clk 0 2) c = (Inr (), c)"
      "rewrite_set v p ops key tenant (expected_hashes v atoms) atoms room mtype clk c = (res, c')"
proof (cases "source_guard p (me c) key (clk 0 0)")
  case (Inl e)
  with assms show ?thesis by (intro refused [of e]) (simp_all add: replace_source_atom_set_def)
next
  case g: (Inr u)
  note def = assms [unfolded replace_source_atom_set_def] g
  show ?thesis
  proof (cases "atoms = []")
    case True
    with def show ?thesis by (intro refused) auto
  next
    case a: False
    show ?thesis
    proof (cases "write_tenant_id v p (me c) (clk 0 1)")
      case (Inl e)
      with def a show ?thesis by (intro refused [of e]) simp_all
    next
      case t: (Inr tenant)
      note def = def a t
      show ?thesis
      proof (cases "length (expected_hashes v atoms) < FIND_ACTIVE_HASHES_LIMIT")
        case False
        with def show ?thesis by (intro refused [of PanellaUnknownWriteOutcome]) (simp_all add: Let_def)
      next
        case l: True
        show ?thesis
        proof (cases "set_unchanged ops key tenant (expected_hashes v atoms) (client_store c)")
          case True
          with def l show ?thesis by (intro same [of tenant]) (simp_all add: Let_def)
        next
          case s: False
          obtain q c1 where q: "check_write_quota p (int (length atoms)) (clk 0 2) c = (q, c1)"
            by (cases "check_write_quota p (int (length atoms)) (clk 0 2) c")
          show ?thesis
          proof (cases q)
            case (Inl e)
            with def l s q check_quota_cases [OF q] show ?thesis
              by (intro refused [of e]) (simp_all add: Let_def client_store_def)
          next
            case (Inr u')
            with def l s q check_quota_cases [OF q] show ?thesis by (intro run [of tenant]) (simp_all add: Let_def)
          qed
        qed
      qed
    qed
  qed
qed

text \<open>
  C17: a replacement that succeeds leaves exactly the expected set.  When the adapter can look a source up, the
  lookup after the call returns the hashes of the new atoms and nothing else; a set that was already complete is
  left alone, and otherwise every atom was written.
\<close>

theorem source_set_replaced:
  assumes "replace_source_atom_set v p ops key atoms room mtype clk c = (Inr r, c')"
  shows "prof_name p = ''cc-sync'' \<and>
    (\<exists>tenant. write_tenant_id v p (me c) (clk 0 1) = Inr tenant \<and>
       (\<forall>finder. op_find ops = Some finder \<longrightarrow>
          (\<exists>hs. finder (source_tag key) tenant (client_store c') = Inr hs \<and>
             set hs = (\<lambda>a. stored_content_hash v (at_content a)) ` set atoms))) \<and>
    (as_status r = ''unchanged'' \<and> c' = c \<or> as_status r = ''written'' \<and> as_written r = length atoms)"
  using assms
proof (cases rule: replace_cases)
  case (same tenant)
  with source_guard_ok [OF same(1)] show ?thesis
    by (auto simp: set_unchanged_def expected_hashes_def split: option.split_asm sum.split_asm)
next
  case (run tenant)
  obtain deleted c1 written c2 where d: "write_atoms v p ops key room mtype atoms (clk 2) c1 = (Inr written, c2)"
    "verify_set ops key tenant (expected_hashes v atoms) (client_store c2) = Inr ()" "c' = c2"
    "r = \<lparr>as_status = ''written'', as_deleted = length (deleted :: string list), as_written = written\<rparr>"
    using run(7) by (auto simp: rewrite_set_def andthen_Inr)
  have "\<exists>hs. finder (source_tag key) tenant (client_store c') = Inr hs \<and>
      set hs = (\<lambda>a. stored_content_hash v (at_content a)) ` set atoms" if "op_find ops = Some finder" for finder
    using d(2,3) that by (auto simp: verify_set_def expected_hashes_def rbind_Inr_iff split: if_split_asm)
  with write_atoms_count [OF d(1)] d(4) run(2) source_guard_ok [OF run(1)] show ?thesis by auto
qed simp

text \<open>
  Nothing of a source is touched unless the whole new set can follow.  A replacement that changes the store
  had the write scope and the batch profile, found the set changed or unreadable, and had checked before its first
  deletion that the set is small enough to be looked up again and that every atom fits both write quotas.
\<close>

theorem source_replace_guarded:
  assumes "replace_source_atom_set v p ops key atoms room mtype clk c = (res, c')" and "client_store c' \<noteq> client_store c"
  shows "prof_name p = ''cc-sync'' \<and> has_scope (me c) ''memory.write'' \<and> atoms \<noteq> [] \<and>
    length (expected_hashes v atoms) < FIND_ACTIVE_HASHES_LIMIT \<and>
    (\<exists>tenant. write_tenant_id v p (me c) (clk 0 1) = Inr tenant \<and>
       \<not> set_unchanged ops key tenant (expected_hashes v atoms) (client_store c)) \<and>
    writes_of p c + int (length atoms) \<le> daily_max_drawers p \<and>
    int (length (recent_stamps (clk 0 2) (stamps c))) + int (length atoms) \<le> burst_max_per_minute p"
  using assms(1)
proof (cases rule: replace_cases)
  case (run tenant)
  with source_guard_ok [OF run(1)] check_quota_cases [OF run(6)] show ?thesis by auto
qed (use assms(2) in simp_all)

subsection \<open>A source being replaced\<close>

definition sample_sync :: agent_profile where
  "sample_sync = sample_agent\<lparr>prof_name := ''cc-sync''\<rparr>"

definition sample_key :: string where
  "sample_key = replicate 64 (CHR ''a'')"

definition sample_sync_ops :: "string list client_ops" where
  "sample_sync_ops = sample_client_ops\<lparr>op_find := Some (\<lambda>tag t s. Inr s), store_delete := Some (\<lambda>h m s. (Inr True, remove1 h s))\<rparr>"

definition sample_atom :: atom_write where
  "sample_atom = \<lparr>at_content = ''text'', at_metadata = [(''content'', JNull)]\<rparr>"

definition sample_source :: "string list \<Rightarrow> string list client" where
  "sample_source s = set_store s sample_client"

lemma sample_source_parts: "me (sample_source s) = sample_me" "stamps (sample_source s) = []" "counts (sample_source s) = []"
  "client_store (sample_source s) = s" "set_store s' (sample_source s) = sample_source s'"
  by (simp_all add: sample_source_def) (simp add: set_store_def)

lemma sample_sync_ops_parts: "op_find sample_sync_ops = Some (\<lambda>tag t s. Inr s)"
  "store_delete sample_sync_ops = Some (\<lambda>h m s. (Inr True, remove1 h s))" "op_get sample_sync_ops = Some (\<lambda>i s. Inr (Some sample_row_hit))"
  by (simp_all add: sample_sync_ops_def sample_client_ops_def)

lemma sample_source_guard: "source_guard sample_sync sample_me sample_key t = Inr ()"
  by (simp add: source_guard_def require_scope_def has_scope_def require_active_break_glass_def sample_me_def sample_sync_def
      sample_key_def list_all_iff is_hex_char_def)

lemma sample_sync_tenant: "write_tenant_id sample_env sample_sync sample_me t = Inr ''t_owner''"
  by (simp add: write_tenant_id_def client_tenants_def allows_tenant_def sample_sync_def sample_agent_def sample_profile_def)

lemma sample_sync_quota: "enforce_write_quota sample_sync t (sample_source s) = (Inr (), sample_source s)"
  "check_write_quota sample_sync 1 t (sample_source s) = (Inr (), sample_source s)"
  by (simp_all add: enforce_write_quota_def check_write_quota_def sample_source_parts sample_sync_def sample_agent_def sample_profile_def
      count_today_def get_today_def counter_get_def Let_def)

lemma sample_owned: "require_mutation_target_owned sample_sync sample_sync_ops sample_me h t s = Inr True"
  by (simp add: require_mutation_target_owned_def client_tenants_def allows_tenant_def sample_sync_def sample_agent_def sample_profile_def
      sample_sync_ops_parts hit_tenant_def sample_row_hit_def py_str_def)

lemma sample_deleted:
  "\<exists>c'. delete_prior_source_versions sample_env sample_sync sample_sync_ops sample_key None int (sample_source [''old'']) =
     (Inr [''old''], c') \<and> client_store c' = []"
  by (simp add: delete_prior_source_versions_def sample_source_parts sample_source_guard sample_sync_quota sample_sync_ops_parts
      sample_sync_tenant delete_candidate_def sample_owned on_store_def audit_if_cross_tenant_def given_or_def)

theorem source_delete_scoped_witness:
  "prof_name sample_sync = ''cc-sync'' \<and> (\<exists>c'. delete_prior_source_versions sample_env sample_sync sample_sync_ops sample_key None int
     (sample_source [''old'']) = (Inr [''old''], c') \<and> client_store c' = [])"
proof -
  obtain c' where c': "delete_prior_source_versions sample_env sample_sync sample_sync_ops sample_key None int (sample_source [''old'']) =
     (Inr [''old''], c')" "client_store c' = []" using sample_deleted by blast
  with source_delete_scoped [OF c'(1)] show ?thesis by (simp add: sample_source_parts)
qed

theorem source_set_replaced_witness:
  "\<exists>r c'. replace_source_atom_set sample_env sample_sync sample_sync_ops sample_key [sample_atom] ''r'' ''m'' (\<lambda>i. int)
      (sample_source [stored_content_hash sample_env ''text'']) = (Inr r, c') \<and>
    set (client_store c') = {stored_content_hash sample_env ''text''} \<and> as_status r \<in> {''unchanged'', ''written''}"
proof -
  obtain r c' where c': "replace_source_atom_set sample_env sample_sync sample_sync_ops sample_key [sample_atom] ''r'' ''m'' (\<lambda>i. int)
      (sample_source [stored_content_hash sample_env ''text'']) = (Inr r, c')"
    by (simp add: replace_source_atom_set_def sample_source_parts sample_source_guard sample_sync_tenant expected_hashes_def sample_atom_def
        FIND_ACTIVE_HASHES_LIMIT_def set_unchanged_def sample_sync_ops_parts)
  with source_set_replaced [OF c'] show ?thesis by (auto simp: sample_sync_ops_parts sample_atom_def)
qed

theorem source_replace_guarded_witness:
  "\<exists>e c'. replace_source_atom_set sample_env sample_sync sample_sync_ops sample_key [sample_atom] ''r'' ''m'' (\<lambda>i. int)
      (sample_source [''old'']) = (Inl e, c') \<and> client_store c' = [] \<and> prof_name sample_sync = ''cc-sync''"
proof -
  obtain c1 where c1: "delete_prior_source_versions sample_env sample_sync sample_sync_ops sample_key None int (sample_source [''old'']) =
     (Inr [''old''], c1)" "client_store c1 = []" using sample_deleted by blast
  have differs: "stored_content_hash sample_env ''text'' \<noteq> ''old''" by code_simp
  have md: "atom_metadata sample_key sample_atom = Inl (TypeError ''got multiple values for keyword argument'')"
    by (simp add: atom_metadata_def sample_atom_def list_of_def dict_simps)
  have content: "at_content sample_atom = ''text''" by (simp add: sample_atom_def)
  have call: "replace_source_atom_set sample_env sample_sync sample_sync_ops sample_key [sample_atom] ''r'' ''m'' (\<lambda>i. int)
      (sample_source [''old'']) = (Inl (TypeError ''got multiple values for keyword argument''), c1)"
    using differs by (simp add: replace_source_atom_set_def sample_source_parts sample_source_guard sample_sync_tenant expected_hashes_def
        FIND_ACTIVE_HASHES_LIMIT_def set_unchanged_def sample_sync_ops_parts sample_sync_quota rewrite_set_def c1 md content)
  with source_replace_guarded [OF call] c1 show ?thesis by (simp add: sample_source_parts)
qed

end
