(* ===== verification/Tag_Lock.thy ===== *)
theory Tag_Lock
  imports Store_Adapter
begin

text \<open>
  \<open>panella/tag_lock.py\<close> and the read-merge-write of \<open>panella_adapter.py\<close> (\<open>_tag_transition\<close>) that runs under it,
  as several processes of one host execute them: \<open>poll_lock\<close> is the waiting loop of one process, \<open>writer_step\<close> the
  interleaved steps of all of them.  A tag update replaces the whole list, so without the lock one writer's change
  can be lost; the refinement below shows that with it every execution is one of atomic updates.
\<close>

subsection \<open>Waiting for the lock\<close>

definition DEFAULT_TIMEOUT :: time where "DEFAULT_TIMEOUT = seconds 30"
definition POLL_INTERVAL :: time where "POLL_INTERVAL = 100000"

definition lock_path :: "(string \<Rightarrow> string) \<Rightarrow> string \<Rightarrow> string \<Rightarrow> string" where
  "lock_path H dir key = dir @ ''/'' @ take 32 (H key) @ ''.lock''"

text \<open>\<open>granted n\<close> says whether the \<open>n\<close>-th \<open>flock\<close> succeeds, \<open>clk n\<close> is the clock after it failed.\<close>

partial_function (option) poll_lock :: "(nat \<Rightarrow> bool) \<Rightarrow> (nat \<Rightarrow> time) \<Rightarrow> time \<Rightarrow> time \<Rightarrow> nat \<Rightarrow> nat res option" where
  "poll_lock granted clk start timeout n =
     (if granted n then Some (Inr n)
      else if clk n - start \<ge> timeout then Some (Inl TagLockTimeout)
      else poll_lock granted clk start timeout (Suc n))"

lemma poll_lock_returns:
  assumes slept: "\<And>n. clk n + POLL_INTERVAL \<le> clk (Suc n)"
  shows "\<exists>r. poll_lock granted clk start timeout n = Some r \<and>
    (\<forall>k. r = Inr k \<longrightarrow> n \<le> k \<and> granted k \<and> (\<forall>m. n \<le> m \<and> m < k \<longrightarrow> \<not> granted m \<and> clk m - start < timeout)) \<and>
    (\<forall>e. r = Inl e \<longrightarrow> e = TagLockTimeout \<and> (\<exists>k \<ge> n. clk k - start \<ge> timeout \<and> (\<forall>m. n \<le> m \<and> m \<le> k \<longrightarrow> \<not> granted m)))"
proof (induction "nat (timeout + start - clk n)" arbitrary: n rule: less_induct)
  case less
  show ?case
  proof (cases "granted n \<or> clk n - start \<ge> timeout")
    case True
    then show ?thesis by (subst poll_lock.simps) (auto simp: le_Suc_eq intro!: exI [of _ n])
  next
    case False
    have "nat (timeout + start - clk (Suc n)) < nat (timeout + start - clk n)"
      using slept [of n] False by (simp add: POLL_INTERVAL_def)
    from less [OF this] obtain r where r: "poll_lock granted clk start timeout (Suc n) = Some r"
      "\<forall>k. r = Inr k \<longrightarrow> Suc n \<le> k \<and> granted k \<and> (\<forall>m. Suc n \<le> m \<and> m < k \<longrightarrow> \<not> granted m \<and> clk m - start < timeout)"
      "\<forall>e. r = Inl e \<longrightarrow> e = TagLockTimeout \<and> (\<exists>k \<ge> Suc n. clk k - start \<ge> timeout \<and> (\<forall>m. Suc n \<le> m \<and> m \<le> k \<longrightarrow> \<not> granted m))" by blast
    have step: "poll_lock granted clk start timeout n = Some r" using False r(1) by (subst poll_lock.simps) simp
    have early: "m = n \<or> Suc n \<le> m" if "n \<le> m" for m using that by auto
    have "n \<le> k \<and> granted k \<and> (\<forall>m. n \<le> m \<and> m < k \<longrightarrow> \<not> granted m \<and> clk m - start < timeout)" if "r = Inr k" for k
    proof -
      have k: "Suc n \<le> k" "granted k" "\<And>m. Suc n \<le> m \<Longrightarrow> m < k \<Longrightarrow> \<not> granted m \<and> clk m - start < timeout" using r(2) that by auto
      have "\<not> granted m \<and> clk m - start < timeout" if "n \<le> m" "m < k" for m
        using early [OF that(1)] k(3) [OF _ that(2)] False by (elim disjE) auto
      with k(1,2) show ?thesis by auto
    qed
    moreover have "e = TagLockTimeout \<and> (\<exists>k \<ge> n. clk k - start \<ge> timeout \<and> (\<forall>m. n \<le> m \<and> m \<le> k \<longrightarrow> \<not> granted m))"
      if e: "r = Inl e" for e
    proof -
      from r(3) e obtain k where k: "k \<ge> Suc n" "clk k - start \<ge> timeout" "\<forall>m. Suc n \<le> m \<and> m \<le> k \<longrightarrow> \<not> granted m" by auto
      have "\<not> granted m" if "n \<le> m" "m \<le> k" for m
        using early [OF that(1)] k(3) that(2) False by (elim disjE) auto
      with k r(3) e show ?thesis by (intro conjI exI [of _ k]) auto
    qed
    ultimately show ?thesis using step by blast
  qed
qed

subsection \<open>Processes\<close>

record job =
  job_key :: string
  job_drop :: "string list"
  job_add :: "string list"

datatype writer_pc = Waiting | Holding | Merged "json list" | Stored | Finished bool | TimedOut

text \<open>What became visible in the store: a writer's PUT, or the deletion of a row, which takes no lock.\<close>

datatype store_event = Put nat | Deleted string

record lock_state =
  holder :: "string \<Rightarrow> nat option"
  rows_of :: "string \<Rightarrow> json list option"
  pcs :: "nat \<Rightarrow> writer_pc"
  happened :: "store_event list"

definition goes :: "nat \<Rightarrow> writer_pc \<Rightarrow> lock_state \<Rightarrow> lock_state" where
  "goes p pc s = s\<lparr>pcs := (pcs s)(p := pc)\<rparr>"

definition releases :: "(string \<Rightarrow> string) \<Rightarrow> (nat \<Rightarrow> job) \<Rightarrow> nat \<Rightarrow> bool \<Rightarrow> lock_state \<Rightarrow> lock_state" where
  "releases path jobs p ok s = (goes p (Finished ok) s)\<lparr>holder := (holder s)(path (job_key (jobs p)) := None)\<rparr>"

definition holds_lock :: "writer_pc \<Rightarrow> bool" where
  "holds_lock pc \<longleftrightarrow> pc = Holding \<or> pc = Stored \<or> (\<exists>new. pc = Merged new)"

text \<open>
  One step of one process.  A read of a row that is gone, a failed request or a killed process ends the attempt and
  frees the lock, as leaving the context or the closing of the file does.  A retry after a failed check reads again.
\<close>

inductive writer_step :: "(string \<Rightarrow> string) \<Rightarrow> (nat \<Rightarrow> job) \<Rightarrow> lock_state \<Rightarrow> lock_state \<Rightarrow> bool" for path jobs where
  acquire: "pcs s p = Waiting \<Longrightarrow> holder s (path (job_key (jobs p))) = None \<Longrightarrow>
    writer_step path jobs s ((goes p Holding s)\<lparr>holder := (holder s)(path (job_key (jobs p)) := Some p)\<rparr>)"
| give_up: "pcs s p = Waiting \<Longrightarrow> writer_step path jobs s (goes p TimedOut s)"
| read: "pcs s p = Holding \<Longrightarrow> rows_of s (job_key (jobs p)) = Some tags \<Longrightarrow>
    merged_tags (job_drop (jobs p)) (job_add (jobs p)) tags = Inr new \<Longrightarrow> writer_step path jobs s (goes p (Merged new) s)"
| put: "pcs s p = Merged new \<Longrightarrow> rows_of s (job_key (jobs p)) \<noteq> None \<Longrightarrow>
    writer_step path jobs s ((goes p Stored s)\<lparr>rows_of := (rows_of s)(job_key (jobs p) \<mapsto> new), happened := happened s @ [Put p]\<rparr>)"
| delete: "writer_step path jobs s (s\<lparr>rows_of := (rows_of s)(key := None), happened := happened s @ [Deleted key]\<rparr>)"
| retry: "pcs s p = Stored \<Longrightarrow> writer_step path jobs s (goes p Holding s)"
| leave: "holds_lock (pcs s p) \<Longrightarrow> writer_step path jobs s (releases path jobs p ok s)"

inductive reaches :: "(string \<Rightarrow> string) \<Rightarrow> (nat \<Rightarrow> job) \<Rightarrow> lock_state \<Rightarrow> lock_state \<Rightarrow> bool" for path jobs s where
  start: "reaches path jobs s s"
| step: "reaches path jobs s t \<Longrightarrow> writer_step path jobs t u \<Longrightarrow> reaches path jobs s u"

definition starting :: "(string \<Rightarrow> json list option) \<Rightarrow> lock_state" where
  "starting rows = \<lparr>holder = (\<lambda>_. None), rows_of = rows, pcs = (\<lambda>_. Waiting), happened = []\<rparr>"

subsection \<open>The specification: atomic updates\<close>

inductive atomic_update ::
  "(nat \<Rightarrow> job) \<Rightarrow> (string \<Rightarrow> json list option) \<times> store_event list \<Rightarrow> (string \<Rightarrow> json list option) \<times> store_event list \<Rightarrow> bool"
  for jobs where
  update: "rows (job_key (jobs p)) = Some tags \<Longrightarrow> merged_tags (job_drop (jobs p)) (job_add (jobs p)) tags = Inr new \<Longrightarrow>
   atomic_update jobs (rows, log) (rows(job_key (jobs p) \<mapsto> new), log @ [Put p])"
| remove: "atomic_update jobs (rows, log) (rows(key := None), log @ [Deleted key])"

definition visible :: "lock_state \<Rightarrow> (string \<Rightarrow> json list option) \<times> store_event list" where
  "visible s = (rows_of s, happened s)"

subsection \<open>The invariant\<close>

text \<open>
  Whoever is past the lock holds it, so at most one process per lock file is; what a process merged is the merge of
  the list that is in the row now, unless the row was deleted.
\<close>

definition lock_inv :: "(string \<Rightarrow> string) \<Rightarrow> (nat \<Rightarrow> job) \<Rightarrow> lock_state \<Rightarrow> bool" where
  "lock_inv path jobs s \<longleftrightarrow>
     (\<forall>p. holds_lock (pcs s p) \<longrightarrow> holder s (path (job_key (jobs p))) = Some p) \<and>
     (\<forall>p new. pcs s p = Merged new \<longrightarrow> (\<forall>tags. rows_of s (job_key (jobs p)) = Some tags \<longrightarrow>
        merged_tags (job_drop (jobs p)) (job_add (jobs p)) tags = Inr new))"

lemma holds_lock_simps [simp]:
  "holds_lock Holding" "holds_lock Stored" "holds_lock (Merged new)" "\<not> holds_lock Waiting" "\<not> holds_lock (Finished ok)"
  "\<not> holds_lock TimedOut"
  by (simp_all add: holds_lock_def)

lemma lock_inv_start: "lock_inv path jobs (starting rows)"
  by (simp add: lock_inv_def starting_def)

lemma lock_exclusive:
  "lock_inv path jobs s \<Longrightarrow> holds_lock (pcs s p) \<Longrightarrow> holds_lock (pcs s q) \<Longrightarrow>
   path (job_key (jobs p)) = path (job_key (jobs q)) \<Longrightarrow> p = q"
  unfolding lock_inv_def by (metis option.inject)

lemma lock_inv_step: "writer_step path jobs s t \<Longrightarrow> lock_inv path jobs s \<Longrightarrow> lock_inv path jobs t"
proof (induction rule: writer_step.induct)
  case (acquire s p)
  then show ?case by (auto simp: lock_inv_def goes_def)
next
  case (give_up s p)
  then show ?case by (auto simp: lock_inv_def goes_def)
next
  case (read s p tags new)
  then show ?case by (auto simp: lock_inv_def goes_def)
next
  case (put s p new)
  have other: "job_key (jobs q) \<noteq> job_key (jobs p)" if "q \<noteq> p" "holds_lock (pcs s q)" for q
    using lock_exclusive [OF put.prems that(2), of p] put.hyps that(1) by auto
  show ?case
    unfolding lock_inv_def
  proof (intro conjI allI impI)
    fix q assume "holds_lock (pcs (goes p Stored s\<lparr>rows_of := (rows_of s)(job_key (jobs p) \<mapsto> new), happened := happened s @ [Put p]\<rparr>) q)"
    then have "holds_lock (pcs s q)" using put.hyps by (auto simp: goes_def split: if_split_asm)
    with put.prems show "holder (goes p Stored s\<lparr>rows_of := (rows_of s)(job_key (jobs p) \<mapsto> new), happened := happened s @ [Put p]\<rparr>)
        (path (job_key (jobs q))) = Some q" by (simp add: lock_inv_def goes_def)
  next
    fix q n assume "pcs (goes p Stored s\<lparr>rows_of := (rows_of s)(job_key (jobs p) \<mapsto> new), happened := happened s @ [Put p]\<rparr>) q = Merged n"
    then have q: "q \<noteq> p" "pcs s q = Merged n" by (auto simp: goes_def split: if_split_asm)
    fix tags assume "rows_of (goes p Stored s\<lparr>rows_of := (rows_of s)(job_key (jobs p) \<mapsto> new), happened := happened s @ [Put p]\<rparr>)
        (job_key (jobs q)) = Some tags"
    with q put.prems other [of q] show "merged_tags (job_drop (jobs q)) (job_add (jobs q)) tags = Inr n"
      by (auto simp: lock_inv_def goes_def)
  qed
next
  case (delete s key)
  then show ?case by (auto simp: lock_inv_def)
next
  case (retry s p)
  then show ?case by (auto simp: lock_inv_def goes_def)
next
  case (leave s p ok)
  then show ?case using lock_exclusive [OF leave.prems] by (auto simp: lock_inv_def releases_def goes_def)
qed

lemma writer_step_visible:
  assumes "writer_step path jobs s t" and "lock_inv path jobs s"
  shows "visible t = visible s \<or> atomic_update jobs (visible s) (visible t)"
  using assms
proof (induction rule: writer_step.induct)
  case (put s p new)
  then obtain tags where "rows_of s (job_key (jobs p)) = Some tags" "merged_tags (job_drop (jobs p)) (job_add (jobs p)) tags = Inr new"
    unfolding lock_inv_def by blast
  then have "atomic_update jobs (rows_of s, happened s) ((rows_of s)(job_key (jobs p) \<mapsto> new), happened s @ [Put p])"
    by (rule atomic_update.update)
  then show ?case by (simp add: visible_def goes_def)
next
  case (delete s key)
  show ?case using atomic_update.remove [of jobs "rows_of s" "happened s" key] by (simp add: visible_def)
qed (simp_all add: visible_def goes_def releases_def)

lemma reaches_refines:
  assumes "reaches path jobs (starting rows) s"
  shows "lock_inv path jobs s \<and> (atomic_update jobs)\<^sup>*\<^sup>* (rows, []) (visible s)"
  using assms
proof (induction rule: reaches.induct)
  case start
  show ?case using lock_inv_start by (simp add: visible_def starting_def)
next
  case (step t u)
  have "lock_inv path jobs u" using lock_inv_step step by blast
  moreover have "(atomic_update jobs)\<^sup>*\<^sup>* (rows, []) (visible u)"
    using writer_step_visible [of path jobs t u] step by (auto intro: rtranclp.rtrancl_into_rtrancl)
  ultimately show ?case by blast
qed

subsection \<open>No change is lost\<close>

definition removes_tag :: "(nat \<Rightarrow> job) \<Rightarrow> string \<Rightarrow> string \<Rightarrow> store_event \<Rightarrow> bool" where
  "removes_tag jobs key t e \<longleftrightarrow>
     (case e of Put q \<Rightarrow> job_key (jobs q) = key \<and> t \<in> set (job_drop (jobs q)) | Deleted k \<Rightarrow> k = key)"

definition adds_tag :: "(nat \<Rightarrow> job) \<Rightarrow> string \<Rightarrow> string \<Rightarrow> store_event \<Rightarrow> bool" where
  "adds_tag jobs key t e \<longleftrightarrow> (case e of Put q \<Rightarrow> job_key (jobs q) = key \<and> t \<in> set (job_add (jobs q)) | Deleted k \<Rightarrow> False)"

definition carries :: "(string \<Rightarrow> json list option) \<Rightarrow> string \<Rightarrow> string \<Rightarrow> bool" where
  "carries rows key t \<longleftrightarrow> (case rows key of None \<Rightarrow> False | Some tags \<Rightarrow> JStr t \<in> set tags)"

lemma merged_tags_set:
  "merged_tags dropped added tags = Inr new \<Longrightarrow> set new = set (kept_tags dropped tags) \<union> JStr ` set added"
  by (auto simp: merged_tags_def fromkeys_def split: if_split_asm)

lemma atomic_keeps:
  assumes "atomic_update jobs (rows, log) (rows', log')" and "carries rows key t" and "\<forall>e \<in> set log'. \<not> removes_tag jobs key t e"
  shows "carries rows' key t"
  using assms
proof (cases rule: atomic_update.cases)
  case (update p tags new)
  show ?thesis
  proof (cases "job_key (jobs p) = key")
    case True
    with update assms(2,3) merged_tags_set [OF update(4)] show ?thesis by (auto simp: carries_def removes_tag_def kept_tags_def)
  next
    case False
    with update assms(2) show ?thesis by (simp add: carries_def)
  qed
next
  case (remove key')
  with assms(2,3) show ?thesis by (auto simp: carries_def removes_tag_def)
qed

lemma atomic_adds:
  assumes "atomic_update jobs (rows, log) (rows', log')"
  shows "\<exists>e. log' = log @ [e] \<and> (\<forall>key t. adds_tag jobs key t e \<longrightarrow> carries rows' key t)"
  using assms
proof (cases rule: atomic_update.cases)
  case (update p tags new)
  with merged_tags_set [OF update(4)] show ?thesis by (auto simp: carries_def adds_tag_def)
next
  case (remove key)
  then show ?thesis by (auto simp: adds_tag_def)
qed

lemma atomic_run_keeps:
  assumes "(atomic_update jobs)\<^sup>*\<^sup>* (rows, []) (rows', log)"
  shows "\<forall>key t. (\<forall>e \<in> set log. \<not> removes_tag jobs key t e) \<and>
    (carries rows key t \<or> (\<exists>e \<in> set log. adds_tag jobs key t e)) \<longrightarrow> carries rows' key t"
  using assms
proof (induction "(rows', log)" arbitrary: rows' log rule: rtranclp_induct)
  case base
  then show ?case by simp
next
  case (step mid)
  obtain rows1 log1 where mid: "mid = (rows1, log1)" by (cases mid)
  obtain e where e: "log = log1 @ [e]" "\<And>key t. adds_tag jobs key t e \<Longrightarrow> carries rows' key t"
    using atomic_adds [OF step.hyps(2) [unfolded mid]] by blast
  show ?case
  proof (intro allI impI)
    fix key t
    assume h: "(\<forall>e \<in> set log. \<not> removes_tag jobs key t e) \<and> (carries rows key t \<or> (\<exists>e \<in> set log. adds_tag jobs key t e))"
    show "carries rows' key t"
    proof (cases "adds_tag jobs key t e")
      case True
      with e(2) show ?thesis by blast
    next
      case False
      with h e(1) have "carries rows1 key t" using step.hyps(3) [OF mid] by auto
      with atomic_keeps [OF step.hyps(2) [unfolded mid]] h show ?thesis by blast
    qed
  qed
qed

text \<open>
  C27: under the lock, whatever the processes of a host do and in whatever order, every execution is one of atomic
  updates of the rows: each replaces a row's tags by the merge of the tags it had at that moment, or deletes the row.
  Two processes past the same lock file are one.  So no change is lost: a tag that a row had or that some PUT added
  is there, unless the row was deleted or a writer of that row was asked to drop the tag.
\<close>

theorem locked_updates_atomic:
  assumes "reaches path jobs (starting rows) s"
  shows "(atomic_update jobs)\<^sup>*\<^sup>* (rows, []) (visible s) \<and>
    (\<forall>p q. holds_lock (pcs s p) \<and> holds_lock (pcs s q) \<and> path (job_key (jobs p)) = path (job_key (jobs q)) \<longrightarrow> p = q) \<and>
    (\<forall>key t. (\<forall>e \<in> set (happened s). \<not> removes_tag jobs key t e) \<and>
       (carries rows key t \<or> (\<exists>e \<in> set (happened s). adds_tag jobs key t e)) \<longrightarrow> carries (rows_of s) key t)"
proof -
  have r: "lock_inv path jobs s" "(atomic_update jobs)\<^sup>*\<^sup>* (rows, []) (visible s)" using reaches_refines [OF assms] by blast+
  have "(atomic_update jobs)\<^sup>*\<^sup>* (rows, []) (rows_of s, happened s)" using r(2) by (simp add: visible_def)
  from r lock_exclusive [OF r(1)] atomic_run_keeps [OF this] show ?thesis by (intro conjI) blast+
qed

text \<open>
  C28: waiting for the lock ends.  When every failed attempt sleeps at least the polling interval, the wait returns:
  either at the first attempt that is granted, every attempt before it having failed within the time limit, or with
  the timeout error, the limit having passed without any attempt granted.
\<close>

theorem lock_wait_ends:
  assumes "\<And>n. clk n + POLL_INTERVAL \<le> clk (Suc n)"
  shows "\<exists>r. poll_lock granted clk start timeout 0 = Some r \<and>
    (\<forall>k. r = Inr k \<longrightarrow> granted k \<and> (\<forall>m < k. \<not> granted m \<and> clk m - start < timeout)) \<and>
    (\<forall>e. r = Inl e \<longrightarrow> e = TagLockTimeout \<and> (\<exists>k. clk k - start \<ge> timeout \<and> (\<forall>m \<le> k. \<not> granted m)))"
proof -
  from poll_lock_returns [where clk = clk and granted = granted and start = start and timeout = timeout and n = 0, OF assms]
  obtain r where "poll_lock granted clk start timeout 0 = Some r"
    "\<forall>k. r = Inr k \<longrightarrow> 0 \<le> k \<and> granted k \<and> (\<forall>m. 0 \<le> m \<and> m < k \<longrightarrow> \<not> granted m \<and> clk m - start < timeout)"
    "\<forall>e. r = Inl e \<longrightarrow> e = TagLockTimeout \<and> (\<exists>k \<ge> 0. clk k - start \<ge> timeout \<and> (\<forall>m. 0 \<le> m \<and> m \<le> k \<longrightarrow> \<not> granted m))" by blast
  then show ?thesis by (intro exI [of _ r]) simp
qed

theorem lock_wait_ends_witness:
  "\<exists>r. poll_lock (\<lambda>n. n = 2) (\<lambda>n. 100000 * int n) 0 DEFAULT_TIMEOUT 0 = Some r \<and> (\<forall>k. r = Inr k \<longrightarrow> k = 2)"
proof -
  have "100000 * int n + POLL_INTERVAL \<le> 100000 * int (Suc n)" for n by (simp add: POLL_INTERVAL_def)
  from lock_wait_ends [where clk = "\<lambda>n. 100000 * int n", OF this, of "\<lambda>n. n = 2" 0 DEFAULT_TIMEOUT] show ?thesis by blast
qed

subsection \<open>Two writers of one row\<close>

definition sample_jobs :: "nat \<Rightarrow> job" where
  "sample_jobs p = (if p = 0 then \<lparr>job_key = ''k'', job_drop = [''status:active''], job_add = [''status:superseded'']\<rparr>
     else \<lparr>job_key = ''k'', job_drop = [], job_add = [''topic:x'']\<rparr>)"

definition sample_rows :: "string \<Rightarrow> json list option" where
  "sample_rows = [''k'' \<mapsto> [JStr ''status:active'', JStr ''keep'']]"

lemma one_writer:
  assumes "pcs s p = Waiting" and "holder s (path (job_key (jobs p))) = None" and "rows_of s (job_key (jobs p)) = Some tags"
    and "merged_tags (job_drop (jobs p)) (job_add (jobs p)) tags = Inr new" and "reaches path jobs s0 s"
  shows "\<exists>t. reaches path jobs s0 t \<and> rows_of t = (rows_of s)(job_key (jobs p) \<mapsto> new) \<and> happened t = happened s @ [Put p] \<and>
    holder t = (holder s)(path (job_key (jobs p)) := None) \<and> pcs t = (pcs s)(p := Finished True)"
proof -
  let ?k = "job_key (jobs p)"
  define s1 where "s1 = (goes p Holding s)\<lparr>holder := (holder s)(path ?k := Some p)\<rparr>"
  define s2 where "s2 = goes p (Merged new) s1"
  define s3 where "s3 = (goes p Stored s2)\<lparr>rows_of := (rows_of s2)(?k \<mapsto> new), happened := happened s2 @ [Put p]\<rparr>"
  have "writer_step path jobs s s1" unfolding s1_def by (rule writer_step.acquire) (rule assms)+
  moreover have "writer_step path jobs s1 s2" unfolding s2_def
    by (rule writer_step.read [of _ _ _ tags]) (use assms(3,4) in \<open>simp_all add: s1_def goes_def\<close>)
  moreover have "writer_step path jobs s2 s3" unfolding s3_def
    by (rule writer_step.put) (use assms(3) in \<open>simp_all add: s2_def s1_def goes_def\<close>)
  moreover have "writer_step path jobs s3 (releases path jobs p True s3)"
    by (rule writer_step.leave) (simp add: s3_def goes_def)
  ultimately have "reaches path jobs s0 (releases path jobs p True s3)" using assms(5) by (meson reaches.step)
  then show ?thesis
    by (intro exI [of _ "releases path jobs p True s3"]) (simp add: releases_def s3_def s2_def s1_def goes_def)
qed

theorem locked_updates_atomic_witness:
  "\<exists>s. reaches id sample_jobs (starting sample_rows) s \<and> happened s = [Put 0, Put 1] \<and> carries (rows_of s) ''k'' ''status:superseded'' \<and>
     carries (rows_of s) ''k'' ''keep'' \<and> carries (rows_of s) ''k'' ''topic:x''"
proof -
  let ?new = "[JStr ''keep'', JStr ''status:superseded'']"
  have m: "merged_tags [''status:active''] [''status:superseded''] [JStr ''status:active'', JStr ''keep''] = Inr ?new"
    "merged_tags [] [''topic:x''] ?new = Inr (?new @ [JStr ''topic:x''])" by code_simp+
  obtain t where t: "reaches id sample_jobs (starting sample_rows) t" "rows_of t = sample_rows(''k'' \<mapsto> ?new)" "happened t = [Put 0]"
    "holder t = (\<lambda>_. None)(''k'' := None)" "pcs t = (\<lambda>_. Waiting)(0 := Finished True)"
    using one_writer [of "starting sample_rows" 0 id sample_jobs "[JStr ''status:active'', JStr ''keep'']" ?new, OF _ _ _ _ reaches.start] m(1)
    by (simp add: starting_def sample_jobs_def sample_rows_def) blast
  obtain s where s: "reaches id sample_jobs (starting sample_rows) s" "happened s = [Put 0, Put 1]"
    using one_writer [of t 1 id sample_jobs ?new "?new @ [JStr ''topic:x'']" "starting sample_rows", OF _ _ _ _ t(1)] t m(2)
    by (simp add: sample_jobs_def) blast
  note done' = conjunct2 [OF conjunct2 [OF locked_updates_atomic [OF s(1)]], rule_format, of "''k''"]
  have "carries sample_rows ''k'' ''keep''" by (simp add: carries_def sample_rows_def)
  moreover have "\<not> removes_tag sample_jobs ''k'' t (Put q)" if "t \<noteq> ''status:active''" for t q
    using that by (simp add: removes_tag_def sample_jobs_def)
  ultimately show ?thesis using done' s by (intro exI [of _ s]) (auto simp: adds_tag_def sample_jobs_def)
qed

end
