(* ===== verification/Reconcile.thy ===== *)
theory Reconcile
  imports Store_Adapter
begin

text \<open>
  \<open>panella/reconcile.py\<close>: the reconciler that finds rows the store's own forgetting deleted while their tags still
  say they are active, and reports each such event once in the memory history.  The store is read through its SQL
  table; the only writes are history rows.  Whether a value can be bound is what SQLite's column accepts.
\<close>

subsection \<open>The store's table\<close>

record memory_row =
  sm_hash :: string
  sm_tags :: "string option"
  sm_deleted_at :: "json option"
  sm_metadata :: "string option"
  sm_type :: json

definition no_spaces :: "string \<Rightarrow> string" where
  "no_spaces s = filter (\<lambda>c. c \<noteq> CHR '' '') s"

text \<open>SQLite's \<open>LIKE\<close> ignores the case of letters.\<close>

definition forgotten_row :: "memory_row \<Rightarrow> bool" where
  "forgotten_row r \<longleftrightarrow> sm_deleted_at r \<noteq> None \<and>
     (case sm_tags r of None \<Rightarrow> False | Some t \<Rightarrow> contains '',status:active,'' (py_lower ('','' @ no_spaces t @ '','')))"

definition tenant_from_tags :: "string option \<Rightarrow> string option" where
  "tenant_from_tags tags =
     (case tags of None \<Rightarrow> None
      | Some t \<Rightarrow>
          if t = [] then None
          else (case find (startswith ''tenant:'') (split_at (CHR '','') (no_spaces t)) of
                  None \<Rightarrow> None | Some tag \<Rightarrow> if drop 7 tag = [] then None else Some (drop 7 tag)))"

subsection \<open>Detection\<close>

record divergence =
  dv_drawer :: string
  dv_tenant :: string
  dv_deleted_at :: json
  dv_type :: json
  dv_wing :: json
  dv_room :: json

definition row_meta :: "memory_row \<Rightarrow> dict" where
  "row_meta r = (case sm_metadata r of None \<Rightarrow> [] | Some s \<Rightarrow>
     if s = [] then [] else (case loads s of Some (JObj d) \<Rightarrow> d | _ \<Rightarrow> []))"

definition divergence_of :: "identity_config \<Rightarrow> memory_row \<Rightarrow> divergence" where
  "divergence_of i r =
     \<lparr>dv_drawer = sm_hash r,
      dv_tenant = str_or (dget (row_meta r) ''tenant_id'') (given_or (tenant_from_tags (sm_tags r)) (default_tenant_id i)),
      dv_deleted_at = (case sm_deleted_at r of None \<Rightarrow> JNull | Some x \<Rightarrow> x), dv_type = sm_type r,
      dv_wing = get_or_null (row_meta r) ''wing'', dv_room = get_or_null (row_meta r) ''room''\<rparr>"

definition detect_forgotten :: "identity_config \<Rightarrow> memory_row list option \<Rightarrow> divergence list res" where
  "detect_forgotten i store =
     (case store of None \<Rightarrow> Inl (OperationalError ''store not found'')
      | Some rows \<Rightarrow> Inr (map (divergence_of i) (filter forgotten_row rows)))"

subsection \<open>Reconciliation\<close>

definition event_key :: "divergence \<Rightarrow> string \<times> string" where
  "event_key d = (dv_drawer d, str_or (Some (dv_deleted_at d)) [])"

text \<open>What a text column makes of a value: \<open>None\<close> when it cannot be bound.\<close>

definition bound_text :: "json \<Rightarrow> string option option" where
  "bound_text j =
     (case j of JNull \<Rightarrow> Some None | JStr s \<Rightarrow> Some (Some s) | JBool b \<Rightarrow> Some (Some (if b then ''1'' else ''0''))
      | JInt i \<Rightarrow> if - (2 ^ 63) \<le> i \<and> i < 2 ^ 63 then Some (Some (int_str i)) else None
      | JFloat s \<Rightarrow> Some (Some s) | JList _ \<Rightarrow> None | JObj _ \<Rightarrow> None)"

definition forgotten_details :: "divergence \<Rightarrow> string" where
  "forgotten_details d = dumps (JObj [(''deleted_at'', dv_deleted_at d), (''memory_type'', dv_type d)])"

definition event_row :: "time \<Rightarrow> divergence \<Rightarrow> string option \<Rightarrow> string option \<Rightarrow> history_row" where
  "event_row now d wing room =
     (history_entry now ''forgotten'' (dv_drawer d) (dv_tenant d) None)
       \<lparr>mh_wing := wing, mh_room := room, mh_source_bridge := JStr ''reconciler'',
        mh_reason := Some ''upstream forgetting soft-deleted a status:active memory (never-lose violation)'',
        mh_details_json := Some (forgotten_details d)\<rparr>"

definition report :: "time \<Rightarrow> divergence \<Rightarrow> outbox_db \<Rightarrow> outbox_db" where
  "report now d db =
     (case (bound_text (dv_wing d), bound_text (dv_room d)) of
        (Some wing, Some room) \<Rightarrow> append_history (event_row now d wing room) db
      | _ \<Rightarrow> db)"

record summary =
  su_divergent :: nat
  su_already :: nat
  su_fresh :: nat
  su_emitted :: nat
  su_dry_run :: bool

definition fresh_events :: "divergence list \<Rightarrow> outbox_db \<Rightarrow> divergence list" where
  "fresh_events ds db = filter (\<lambda>d. event_key d \<notin> forgotten_events db) ds"

definition reconcile ::
  "identity_config \<Rightarrow> memory_row list option \<Rightarrow> bool \<Rightarrow> time \<Rightarrow> outbox_db \<Rightarrow> summary res \<times> outbox_db" where
  "reconcile i store dry_run now db =
     (case detect_forgotten i store of
        Inl e \<Rightarrow> (Inl e, db)
      | Inr divergent \<Rightarrow>
          (let fresh = fresh_events divergent db in
           (Inr \<lparr>su_divergent = length divergent, su_already = length divergent - length fresh, su_fresh = length fresh,
                 su_emitted = (if dry_run then 0 else length fresh), su_dry_run = dry_run\<rparr>,
            if dry_run then db else fold (report now) fresh db)))"

subsection \<open>Every event is reported once\<close>

text \<open>Values that the history can carry: SQL values of the columns, text or null in wing and room.\<close>

definition scalar :: "json \<Rightarrow> bool" where
  "scalar j = (case j of JList _ \<Rightarrow> False | JObj _ \<Rightarrow> False | _ \<Rightarrow> jwf j)"

definition reportable :: "divergence \<Rightarrow> bool" where
  "reportable d \<longleftrightarrow> scalar (dv_deleted_at d) \<and> scalar (dv_type d) \<and> bound_text (dv_wing d) \<noteq> None \<and> bound_text (dv_room d) \<noteq> None"

lemma scalar_canon: "scalar j \<Longrightarrow> jwf j \<and> canon j = j"
  by (cases j) (simp_all add: scalar_def)

lemma details_read_back:
  assumes "scalar (dv_deleted_at d)" and "scalar (dv_type d)"
  shows "loads (forgotten_details d) = Some (JObj [(''deleted_at'', dv_deleted_at d), (''memory_type'', dv_type d)])"
proof -
  let ?j = "JObj [(''deleted_at'', dv_deleted_at d), (''memory_type'', dv_type d)]"
  have "jwf ?j" "canon ?j = ?j" using scalar_canon assms by simp_all
  then show ?thesis unfolding forgotten_details_def using loads_dumps(1) by metis
qed

definition reports :: "divergence \<Rightarrow> history_row \<Rightarrow> bool" where
  "reports d h \<longleftrightarrow> mh_op h = ''forgotten'' \<and> mh_drawer_id h = dv_drawer d \<and> mh_tenant_id h = dv_tenant d \<and> forgotten_event h = event_key d"

lemma report_appends:
  assumes "reportable d" and "outbox_up db"
  shows "\<exists>h. report now d db = db\<lparr>history := history db @ [h]\<rparr> \<and> reports d h"
proof -
  obtain wing room where b: "bound_text (dv_wing d) = Some wing" "bound_text (dv_room d) = Some room"
    using assms(1) by (auto simp: reportable_def)
  have "loads (forgotten_details d) = Some (JObj [(''deleted_at'', dv_deleted_at d), (''memory_type'', dv_type d)])"
    using assms(1) details_read_back by (simp add: reportable_def)
  then have "reports d (event_row now d wing room)"
    by (simp add: reports_def forgotten_event_def event_key_def event_row_def history_entry_def)
  moreover have "report now d db = db\<lparr>history := history db @ [event_row now d wing room]\<rparr>"
    using b assms(2) by (simp add: report_def append_history_def)
  ultimately show ?thesis by blast
qed

lemma reports_append:
  assumes "\<forall>d \<in> set ds. reportable d" and "outbox_up db"
  shows "\<exists>hs. fold (report now) ds db = db\<lparr>history := history db @ hs\<rparr> \<and> list_all2 reports ds hs"
  using assms
proof (induction ds arbitrary: db)
  case Nil
  show ?case by (intro exI [of _ "[]"]) simp
next
  case (Cons d ds)
  obtain h where h: "report now d db = db\<lparr>history := history db @ [h]\<rparr>" "reports d h"
    using report_appends [of d db now] Cons.prems by auto
  have up: "outbox_up (report now d db)" using Cons.prems(2) by (simp add: h(1))
  have "\<forall>x \<in> set ds. reportable x" using Cons.prems(1) by simp
  from Cons.IH [OF this up] obtain hs where "fold (report now) ds (report now d db) =
      (report now d db)\<lparr>history := history (report now d db) @ hs\<rparr>" "list_all2 reports ds hs" by blast
  with h show ?case by (intro exI [of _ "h # hs"]) simp
qed

lemma reported_events:
  assumes "list_all2 reports ds hs" and "outbox_up db"
  shows "forgotten_events (db\<lparr>history := history db @ hs\<rparr>) = forgotten_events db \<union> event_key ` set ds"
proof -
  have "filter (\<lambda>h. mh_op h = ''forgotten'') hs = hs" "map forgotten_event hs = map event_key ds"
    using assms(1) by (induction ds hs rule: list_all2_induct) (auto simp: reports_def)
  then have "forgotten_event ` set (filter (\<lambda>h. mh_op h = ''forgotten'') hs) = event_key ` set ds" by (metis list.set_map)
  with assms(2) show ?thesis by (simp add: forgotten_events_def image_Un)
qed

text \<open>
  C29: an emitting run reports every forgotten row of the store exactly once.  It appends one history row per event
  that was not in the log, for the row's drawer and tenant, and nothing else; after it every divergent row's event
  is in the log, so a second run on the same store finds nothing fresh and changes nothing.  A dry run never writes.
\<close>

theorem reconcile_once:
  assumes "reconcile i store False now db = (Inr s, db')" and "detect_forgotten i store = Inr ds"
    and "\<forall>d \<in> set ds. reportable d" and "outbox_up db"
  shows "(\<exists>hs. db' = db\<lparr>history := history db @ hs\<rparr> \<and> list_all2 reports (fresh_events ds db) hs) \<and>
    su_emitted s = length (fresh_events ds db) \<and> (\<forall>d \<in> set ds. event_key d \<in> forgotten_events db') \<and>
    (\<exists>s'. reconcile i store False later db' = (Inr s', db') \<and> su_fresh s' = 0 \<and> su_already s' = su_divergent s') \<and>
    (\<exists>s'. reconcile i store True later db = (Inr s', db))"
proof -
  let ?fresh = "fresh_events ds db"
  have d: "db' = fold (report now) ?fresh db" "su_emitted s = length ?fresh"
    using assms(1,2) by (auto simp: reconcile_def Let_def)
  have "\<forall>d \<in> set ?fresh. reportable d" using assms(3) by (simp add: fresh_events_def)
  from reports_append [OF this assms(4)] obtain hs where hs: "db' = db\<lparr>history := history db @ hs\<rparr>" "list_all2 reports ?fresh hs"
    unfolding d(1) by blast
  have "forgotten_events db' = forgotten_events db \<union> event_key ` set ?fresh" unfolding hs(1) by (rule reported_events [OF hs(2) assms(4)])
  then have all: "\<forall>d \<in> set ds. event_key d \<in> forgotten_events db'" by (auto simp: fresh_events_def)
  then have none: "fresh_events ds db' = []" by (simp add: fresh_events_def filter_empty_conv)
  have "\<exists>s'. reconcile i store False later db' = (Inr s', db') \<and> su_fresh s' = 0 \<and> su_already s' = su_divergent s'"
    by (simp add: reconcile_def assms(2) Let_def none)
  moreover have "\<exists>s'. reconcile i store True later db = (Inr s', db)" by (simp add: reconcile_def assms(2) Let_def)
  ultimately show ?thesis using hs d(2) all by blast
qed

definition sample_store :: "memory_row list" where
  "sample_store = [\<lparr>sm_hash = ''h1'', sm_tags = Some ''status:active, tenant:t_a'', sm_deleted_at = Some (JInt 7), sm_metadata = None, sm_type = JStr ''note''\<rparr>,
     \<lparr>sm_hash = ''h2'', sm_tags = Some ''status:active_x'', sm_deleted_at = Some (JInt 7), sm_metadata = None, sm_type = JNull\<rparr>]"

lemma sample_detected:
  "detect_forgotten sample_identity (Some sample_store) = Inr [\<lparr>dv_drawer = ''h1'', dv_tenant = ''t_a'', dv_deleted_at = JInt 7,
     dv_type = JStr ''note'', dv_wing = JNull, dv_room = JNull\<rparr>]"
  by code_simp

theorem reconcile_once_witness:
  "\<exists>s db'. reconcile sample_identity (Some sample_store) False 5 sample_outbox = (Inr s, db') \<and> su_emitted s = 1 \<and>
     (\<exists>h. history db' = history sample_outbox @ [h] \<and> mh_tenant_id h = ''t_a'') \<and> (''h1'', ''7'') \<in> forgotten_events db'"
proof -
  let ?d = "\<lparr>dv_drawer = ''h1'', dv_tenant = ''t_a'', dv_deleted_at = JInt 7, dv_type = JStr ''note'', dv_wing = JNull, dv_room = JNull\<rparr>"
  obtain s db' where r: "reconcile sample_identity (Some sample_store) False 5 sample_outbox = (Inr s, db')"
    by (simp add: reconcile_def sample_detected Let_def)
  have "reportable ?d" "event_key ?d = (''h1'', ''7'')" by code_simp+
  moreover have "outbox_up sample_outbox" "forgotten_events sample_outbox = {}" by (simp_all add: sample_outbox_def forgotten_events_def)
  moreover from this have "fresh_events [?d] sample_outbox = [?d]" by (simp add: fresh_events_def)
  ultimately show ?thesis
    using reconcile_once [OF r sample_detected, of 6] r by (auto simp: list_all2_Cons1 reports_def)
qed

end
