(* ===== verification/Store_Probe.thy ===== *)
theory Store_Probe
  imports Reconcile
begin

text \<open>
  \<open>panella/store_probe.py\<close>: the self-check of a serving process, which refuses to serve a store whose active rows
  belong to somebody else than the owner in the configuration.  The two queries are evaluated on the rows of the
  store's table; the text of a LIKE pattern and its wildcards are SQLite's, over bytes of UTF-8.  SQLite's own JSON
  functions are the parameter \<open>json_tenant\<close>: the value of \<open>json_extract(metadata, '$.tenant_id')\<close> for a valid text.
\<close>

subsection \<open>The queries\<close>

definition FRESH_BOX_ENV :: string where "FRESH_BOX_ENV = ''PANELLA_FRESH_BOX''"
definition STORE_PATH_ENV :: string where "STORE_PATH_ENV = ''PANELLA_STORE_PATH''"

definition utf8_tail :: "char \<Rightarrow> bool" where
  "utf8_tail c = (let n = of_char c :: nat in 128 \<le> n \<and> n < 192)"

text \<open>SQLite's LIKE: \<open>%\<close> stands for any text, \<open>_\<close> for one character, and the case of ASCII letters is ignored.\<close>

fun like :: "string \<Rightarrow> string \<Rightarrow> bool" where
  "like [] s = (s = [])"
| "like (c # p) [] = (c = CHR ''%'' \<and> like p [])"
| "like (c # p) (x # s) =
     (if c = CHR ''%'' then like p (x # s) \<or> like (c # p) s
      else if c = CHR ''_'' then like p (dropWhile utf8_tail s)
      else py_lower_char c = py_lower_char x \<and> like p s)"

definition norm_tags :: "string \<Rightarrow> string" where
  "norm_tags t = '','' @ no_spaces t @ '',''"

definition meta_tenant :: "(string \<Rightarrow> json option) \<Rightarrow> memory_row \<Rightarrow> json option" where
  "meta_tenant json_tenant r =
     (case sm_metadata r of None \<Rightarrow> None
      | Some m \<Rightarrow> (case json_tenant m of None \<Rightarrow> None | Some x \<Rightarrow> if x = JNull \<or> x = JStr [] then None else Some x))"

definition single_tenant_tag :: "string \<Rightarrow> bool" where
  "single_tenant_tag s \<longleftrightarrow> int (length s) - int (length (replace_all '',tenant:'' [] s)) = 8"

definition active_row :: "memory_row \<Rightarrow> bool" where
  "active_row r \<longleftrightarrow> sm_deleted_at r = None \<and>
     (case sm_tags r of None \<Rightarrow> False | Some t \<Rightarrow> like ''%,status:active,%'' (norm_tags t))"

definition owner_row :: "(string \<Rightarrow> json option) \<Rightarrow> string \<Rightarrow> memory_row \<Rightarrow> bool" where
  "owner_row json_tenant owner r \<longleftrightarrow> active_row r \<and>
     (case sm_tags r of None \<Rightarrow> False
      | Some t \<Rightarrow>
          meta_tenant json_tenant r = Some (JStr owner) \<or>
          meta_tenant json_tenant r = None \<and> single_tenant_tag (norm_tags t) \<and>
            like (''%,tenant:'' @ owner @ '',%'') (norm_tags t) \<or>
          meta_tenant json_tenant r = None \<and> \<not> like ''%,tenant:%'' (norm_tags t))"

subsection \<open>The self-check\<close>

record self_check_result =
  sc_serving :: bool
  sc_reason :: string

text \<open>What is at a path: nothing, something that cannot be read as a store, or the table of a store.\<close>

datatype store_file = Absent | Failing exc | Table "memory_row list"

definition resolve_store_path ::
  "(string \<Rightarrow> string) \<Rightarrow> (string \<Rightarrow> string option) \<Rightarrow> governance res \<Rightarrow> string option \<Rightarrow> string res" where
  "resolve_store_path expanduser env gov arg =
     map_sum id expanduser
       (case (case arg of None \<Rightarrow> [] | Some p \<Rightarrow> p) of
          c # cs \<Rightarrow> Inr (c # cs)
        | [] \<Rightarrow> (case (case env STORE_PATH_ENV of None \<Rightarrow> [] | Some p \<Rightarrow> p) of
            c # cs \<Rightarrow> Inr (c # cs)
          | [] \<Rightarrow> rbind gov (\<lambda>g. rbind (paths g) (\<lambda>p. Inr (store_path p)))))"

definition fresh_box_acked :: "(string \<Rightarrow> string option) \<Rightarrow> bool" where
  "fresh_box_acked env \<longleftrightarrow> env FRESH_BOX_ENV = Some ''1''"

definition self_check ::
  "(string \<Rightarrow> string) \<Rightarrow> (string \<Rightarrow> string option) \<Rightarrow> (string \<Rightarrow> store_file) \<Rightarrow> (string \<Rightarrow> json option) \<Rightarrow> governance res \<Rightarrow>
   string option \<Rightarrow> self_check_result res" where
  "self_check expanduser env store json_tenant gov arg =
     rbind (rbind gov identity) (\<lambda>i. let owner = default_tenant_id i in
     rbind (resolve_store_path expanduser env gov arg) (\<lambda>path.
       let overlay_pinned = resolve_overlay_path expanduser None env \<noteq> None;
           answer = (\<lambda>serving reason. Inr \<lparr>sc_serving = serving, sc_reason = reason\<rparr>) in
       case store path of
         Absent \<Rightarrow>
           if fresh_box_acked env then answer True (''store absent, '' @ FRESH_BOX_ENV @ ''=1 acked: '' @ path)
           else if overlay_pinned then
             answer False (''governance overlay is configured but the store is missing: '' @ path @
               '' (misconfigured overlay or store not mounted; set '' @ FRESH_BOX_ENV @ ''=1 only for a genuinely fresh box)'')
           else answer True (''no store yet (pure-generic fresh box): '' @ path)
       | Failing e \<Rightarrow> Inl e
       | Table rows \<Rightarrow>
           if \<not> list_ex active_row rows then answer True ''store has no active rows (fresh/empty box)''
           else if list_ex (owner_row json_tenant owner) rows then
             answer True (''owner tenant '' @ py_repr (JStr owner) @ '' represented in store'')
           else if fresh_box_acked env then
             answer True (''owner tenant '' @ py_repr (JStr owner) @ '' absent but '' @ FRESH_BOX_ENV @ ''=1 acked'')
           else answer False (''INCOHERENT: store '' @ path @ '' has active rows but none attributed to the resolved owner tenant '' @
             py_repr (JStr owner) @ '' '' @ [CHR 0xE2, CHR 0x80, CHR 0x94] @
             '' the governance overlay is likely missing/wrong on this box (serving would TenantIsolationError on every owned row). '' @
             ''Fix the overlay (place it, set PANELLA_GOVERNANCE_OVERLAY, restart) or ack a fresh box with '' @ FRESH_BOX_ENV @ ''=1.'')))"

text \<open>\<open>describe\<close> is the text of an exception.\<close>

definition startup_self_check ::
  "(exc \<Rightarrow> string) \<Rightarrow> (string \<Rightarrow> string) \<Rightarrow> (string \<Rightarrow> string option) \<Rightarrow> (string \<Rightarrow> store_file) \<Rightarrow> (string \<Rightarrow> json option) \<Rightarrow>
   governance res \<Rightarrow> string option \<Rightarrow> self_check_result" where
  "startup_self_check describe expanduser env store json_tenant gov arg =
     (case self_check expanduser env store json_tenant gov arg of
        Inr result \<Rightarrow> result
      | Inl e \<Rightarrow> \<lparr>sc_serving = False, sc_reason = ''self-check error: '' @ describe e\<rparr>)"

subsection \<open>What the patterns find\<close>

text \<open>A text of ASCII characters without capital letters, on which case and encoding play no part.\<close>

definition plain_text :: "string \<Rightarrow> bool" where
  "plain_text s \<longleftrightarrow> (\<forall>c \<in> set s. (of_char c :: nat) < 128 \<and> py_lower_char c = c)"

lemma plain_text_simps [simp]:
  "plain_text []" "plain_text (c # s) \<longleftrightarrow> (of_char c :: nat) < 128 \<and> py_lower_char c = c \<and> plain_text s"
  "plain_text (a @ b) \<longleftrightarrow> plain_text a \<and> plain_text b"
  by (auto simp: plain_text_def)

lemma like_rest: "like ''%'' s"
  by (induction s) simp_all

lemma like_any: "like (CHR ''%'' # p) s \<longleftrightarrow> (\<exists>a b. s = a @ b \<and> like p b)"
proof (induction s)
  case (Cons x s)
  have "(\<exists>a b. x # s = a @ b \<and> like p b) \<longleftrightarrow> like p (x # s) \<or> (\<exists>a b. s = a @ b \<and> like p b)"
    by (auto simp: Cons_eq_append_conv)
  with Cons.IH show ?case by simp
qed simp

lemma like_pieces:
  assumes "CHR ''%'' \<notin> set q" and "plain_text s"
  shows "like (q @ p) s \<longleftrightarrow> (\<exists>m b. s = m @ b \<and> like q m \<and> like p b)"
  using assms
proof (induction q arbitrary: s)
  case (Cons c q)
  show ?case
  proof (cases s)
    case Nil
    then show ?thesis using Cons.prems by auto
  next
    case (Cons x s')
    have flat: "dropWhile utf8_tail u = u" if "plain_text u" for u
      using that by (cases u) (auto simp: utf8_tail_def Let_def)
    have ih: "like (q @ p) s' \<longleftrightarrow> (\<exists>m b. s' = m @ b \<and> like q m \<and> like p b)"
      using Cons.IH [of s'] Cons.prems Cons by simp
    have pre: "like (c # q) (x # m) \<longleftrightarrow> (c = CHR ''_'' \<or> py_lower_char c = py_lower_char x) \<and> like q m" if "plain_text m" for m
      using Cons.prems(1) flat [OF that] by (auto simp: py_lower_char_def)
    have whole: "like ((c # q) @ p) s \<longleftrightarrow> (c = CHR ''_'' \<or> py_lower_char c = py_lower_char x) \<and> like (q @ p) s'"
      using Cons.prems flat [of s'] Cons by auto
    show ?thesis unfolding whole unfolding ih unfolding Cons
    proof (intro iffI; elim conjE exE)
      fix m b assume a: "c = CHR ''_'' \<or> py_lower_char c = py_lower_char x" "s' = m @ b" "like q m" "like p b"
      then have "plain_text m" using Cons.prems(2) Cons by simp
      with a show "\<exists>m b. x # s' = m @ b \<and> like (c # q) m \<and> like p b"
        using pre by (intro exI [of _ "x # m"] exI [of _ b]) simp
    next
      fix m b assume a: "x # s' = m @ b" "like (c # q) m" "like p b"
      then obtain m' where m: "m = x # m'" "s' = m' @ b" using Cons.prems(1) by (cases m) auto
      then have "plain_text m'" using Cons.prems(2) Cons by simp
      then show "(c = CHR ''_'' \<or> py_lower_char c = py_lower_char x) \<and> (\<exists>m b. s' = m @ b \<and> like q m \<and> like p b)"
        using pre a(2,3) m by blast
    qed
  qed
qed simp

lemma like_same: "CHR ''%'' \<notin> set q \<Longrightarrow> CHR ''_'' \<notin> set q \<Longrightarrow> plain_text q \<Longrightarrow> plain_text s \<Longrightarrow> like q s \<longleftrightarrow> s = q"
proof (induction q arbitrary: s)
  case (Cons c q)
  then show ?case by (cases s) auto
qed simp

lemma like_literal:
  assumes "CHR ''%'' \<notin> set q" "CHR ''_'' \<notin> set q" "plain_text q" "plain_text s"
  shows "like (q @ p) s \<longleftrightarrow> (\<exists>b. s = q @ b \<and> like p b)"
  unfolding like_pieces [OF assms(1,4)]
proof (intro iffI; elim exE conjE)
  fix m b assume "s = m @ b" "like q m" "like p b"
  moreover from this have "m = q" using like_same [OF assms(1-3)] assms(4) by simp
  ultimately show "\<exists>b. s = q @ b \<and> like p b" by blast
next
  fix b assume "s = q @ b" "like p b"
  then show "\<exists>m b. s = m @ b \<and> like q m \<and> like p b" using like_same [OF assms(1-3) assms(3)] by blast
qed

subsection \<open>Tags between bars\<close>

definition bars :: "string list \<Rightarrow> string" where
  "bars ts = concat (map ((#) (CHR '','')) ts) @ '',''"

lemma bars_simps [simp]: "bars [] = '',''" "bars (t # ts) = CHR '','' # t @ bars ts"
  by (simp_all add: bars_def)

lemma bars_starts: "\<exists>s. bars ts = CHR '','' # s"
  by (cases ts) simp_all

definition column_tags :: "string \<Rightarrow> string list" where
  "column_tags t = split_at (CHR '','') (no_spaces t)"

lemma bars_split: "CHR '','' # s @ '','' = bars (split_at (CHR '','') s)"
proof (induction s)
  case (Cons x s)
  obtain w ws where "split_at (CHR '','') s = w # ws" by (cases "split_at (CHR '','') s") auto
  with Cons show ?case by auto
qed simp

lemma norm_bars: "norm_tags t = bars (column_tags t)"
  using bars_split by (simp add: norm_tags_def column_tags_def)

lemma split_at_middle: "split_at c (a @ c # s) = split_at c a @ split_at c s"
proof (induction a)
  case (Cons x a)
  obtain w ws where "split_at c a = w # ws" by (cases "split_at c a") auto
  with Cons show ?case by auto
qed simp

lemma split_at_prefix: "c \<notin> set p \<Longrightarrow> \<exists>w ws. split_at c (p @ s) = (p @ w) # ws"
proof (induction p)
  case Nil
  then show ?case by (cases "split_at c s") auto
next
  case (Cons x p)
  then obtain w ws where "split_at c (p @ s) = (p @ w) # ws" by auto
  with Cons.prems show ?case by auto
qed

definition comma_free :: "string list \<Rightarrow> bool" where
  "comma_free ts \<longleftrightarrow> (\<forall>t \<in> set ts. CHR '','' \<notin> set t)"

lemma comma_free_simps [simp]: "comma_free []" "comma_free (t # ts) \<longleftrightarrow> CHR '','' \<notin> set t \<and> comma_free ts"
  by (auto simp: comma_free_def)

lemma column_comma_free: "comma_free (column_tags t)"
  using split_at_clean by (fastforce simp: comma_free_def column_tags_def)

lemma split_bars: "comma_free ts \<Longrightarrow> split_at (CHR '','') (bars ts) = [] # ts @ [[]]"
proof (induction ts)
  case (Cons t ts)
  obtain s where s: "bars ts = CHR '','' # s" using bars_starts by blast
  have "split_at (CHR '','') s = ts @ [[]]" using Cons by (simp add: s)
  then show ?case using Cons.prems split_at_append [of "CHR '',''" t s] by (simp add: s)
qed simp

lemma bars_middle: "t \<in> set ts \<Longrightarrow> \<exists>a b. bars ts = a @ CHR '','' # t @ CHR '','' # b"
proof (induction ts)
  case (Cons u ts)
  obtain s where s: "bars ts = CHR '','' # s" using bars_starts by blast
  show ?case
  proof (cases "t = u")
    case True
    then show ?thesis using s by (intro exI [of _ "[]"] exI [of _ s]) simp
  next
    case False
    then obtain a b where "bars ts = a @ CHR '','' # t @ CHR '','' # b" using Cons by auto
    then show ?thesis by (intro exI [of _ "CHR '','' # u @ a"] exI [of _ b]) simp
  qed
qed simp

lemma bars_has:
  assumes "comma_free ts" and "CHR '','' \<notin> set q" and "q \<noteq> []"
  shows "(\<exists>a b. bars ts = a @ CHR '','' # q @ CHR '','' # b) \<longleftrightarrow> q \<in> set ts"
proof
  assume "\<exists>a b. bars ts = a @ CHR '','' # q @ CHR '','' # b"
  then obtain a b where "bars ts = a @ CHR '','' # q @ CHR '','' # b" by blast
  then have "[] # ts @ [[]] = split_at (CHR '','') a @ q # split_at (CHR '','') b"
    using split_bars [OF assms(1)] split_at_middle split_at_append [OF assms(2)] by metis
  then have "q \<in> set ([] # ts @ [[]])" by simp
  then show "q \<in> set ts" using assms(3) by simp
qed (rule bars_middle)

lemma bars_has_start:
  assumes "comma_free ts" and "CHR '','' \<notin> set p" and "p \<noteq> []"
  shows "(\<exists>a b. bars ts = a @ CHR '','' # p @ b) \<longleftrightarrow> (\<exists>t \<in> set ts. startswith p t)"
proof
  assume "\<exists>a b. bars ts = a @ CHR '','' # p @ b"
  then obtain a b where b: "bars ts = a @ CHR '','' # p @ b" by blast
  obtain w ws where w: "split_at (CHR '','') (p @ b) = (p @ w) # ws" using split_at_prefix [OF assms(2)] by blast
  have "[] # ts @ [[]] = split_at (CHR '','') a @ (p @ w) # ws"
    using split_bars [OF assms(1)] split_at_middle w b by metis
  then have "p @ w \<in> set ([] # ts @ [[]])" by simp
  then have "p @ w \<in> set ts" using assms(3) by simp
  then show "\<exists>t \<in> set ts. startswith p t" by (rule bexI [rotated]) simp
next
  assume "\<exists>t \<in> set ts. startswith p t"
  then obtain w where "p @ w \<in> set ts" by (metis startswithD)
  then obtain a b where "bars ts = a @ CHR '','' # (p @ w) @ CHR '','' # b" using bars_middle by blast
  then show "\<exists>a b. bars ts = a @ CHR '','' # p @ b" by (intro exI [of _ a] exI [of _ "w @ CHR '','' # b"]) simp
qed

lemma startswith_word: "c \<notin> set p \<Longrightarrow> startswith p (t @ c # s) \<longleftrightarrow> startswith p t"
proof (induction p arbitrary: t)
  case (Cons x p)
  then show ?case by (cases t) auto
qed simp

lemma replace_skip: "CHR '','' \<notin> set w \<Longrightarrow> replace_all (CHR '','' # p) [] (w @ s) = w @ replace_all (CHR '','' # p) [] s"
  by (induction w) auto

lemma replace_counts:
  assumes "comma_free ts" and "CHR '','' \<notin> set p" and "p \<noteq> []"
  shows "length (replace_all (CHR '','' # p) [] (bars ts)) + Suc (length p) * length (filter (startswith p) ts) = length (bars ts)"
  using assms(1)
proof (induction ts)
  case Nil
  then show ?case using assms(3) by (cases p) simp_all
next
  case (Cons t ts)
  obtain s where s: "bars ts = CHR '','' # s" using bars_starts by blast
  have start: "startswith p (t @ bars ts) \<longleftrightarrow> startswith p t" using startswith_word [OF assms(2)] by (simp add: s)
  show ?case
  proof (cases "startswith p t")
    case True
    then obtain w where w: "t = p @ w" by (metis startswithD)
    have "replace_all (CHR '','' # p) [] (bars (t # ts)) = replace_all (CHR '','' # p) [] (w @ bars ts)"
      using start True by (simp add: w)
    also have "\<dots> = w @ replace_all (CHR '','' # p) [] (bars ts)" using Cons.prems by (intro replace_skip) (simp add: w)
    finally show ?thesis using Cons True by (simp add: w)
  next
    case False
    then have "replace_all (CHR '','' # p) [] (bars (t # ts)) = CHR '','' # t @ replace_all (CHR '','' # p) [] (bars ts)"
      using start Cons.prems replace_skip [of t p "bars ts"] by simp
    then show ?thesis using Cons False by simp
  qed
qed

lemma single_tenant_iff: "single_tenant_tag (norm_tags t) \<longleftrightarrow> length (filter (startswith ''tenant:'') (column_tags t)) = 1"
proof -
  have "length (replace_all '',tenant:'' [] (norm_tags t)) + 8 * length (filter (startswith ''tenant:'') (column_tags t)) = length (norm_tags t)"
    using replace_counts [OF column_comma_free, of "''tenant:''" t] by (simp add: norm_bars)
  then show ?thesis unfolding single_tenant_tag_def by linarith
qed

subsection \<open>Whose the rows are\<close>

text \<open>A row as the store answers it, and the tenant the read path gives to it.\<close>

definition row_tags :: "memory_row \<Rightarrow> string list" where
  "row_tags r = (case sm_tags r of None \<Rightarrow> [] | Some t \<Rightarrow> filter (\<lambda>w. w \<noteq> []) (column_tags t))"

definition row_hit :: "memory_row \<Rightarrow> dict" where
  "row_hit r = [(''content_hash'', JStr (sm_hash r)), (''metadata'', JObj (row_meta r)), (''tags'', JList (map JStr (row_tags r)))]"

definition attributed :: "env \<Rightarrow> memory_row \<Rightarrow> json option" where
  "attributed v r = (case normalize_hit v (row_hit r) of Inl _ \<Rightarrow> None | Inr hit \<Rightarrow> dget hit ''tenant_id'')"

definition live_active :: "memory_row \<Rightarrow> bool" where
  "live_active r \<longleftrightarrow> sm_deleted_at r = None \<and> ''status:active'' \<in> set (row_tags r)"

text \<open>No text between \<open>,tenant:\<close> and a comma is taken for the owner's name but the name itself.\<close>

definition takes_only :: "string \<Rightarrow> string \<Rightarrow> bool" where
  "takes_only owner s \<longleftrightarrow> (\<forall>a m b. s = a @ '',tenant:'' @ m @ '','' @ b \<longrightarrow> like owner m \<longrightarrow> m = owner)"

text \<open>What the query relies on: lower-case ASCII tags with at most one tenant, and a tenant in the metadata that is a text.\<close>

definition plain_row :: "(string \<Rightarrow> json option) \<Rightarrow> string \<Rightarrow> memory_row \<Rightarrow> bool" where
  "plain_row json_tenant owner r \<longleftrightarrow>
     (case sm_tags r of None \<Rightarrow> True
      | Some t \<Rightarrow> plain_text (no_spaces t) \<and> length (filter (startswith ''tenant:'') (column_tags t)) \<le> 1 \<and>
          ''tenant:'' \<notin> set (column_tags t) \<and> takes_only owner (norm_tags t)) \<and>
     (case dget (row_meta r) ''tenant_id'' of
        None \<Rightarrow> meta_tenant json_tenant r = None
      | Some x \<Rightarrow> x = JNull \<and> meta_tenant json_tenant r = None \<or>
          (\<exists>t. x = JStr t \<and> meta_tenant json_tenant r = (if t = [] then None else Some (JStr t))))"

definition plain_owner :: "string \<Rightarrow> bool" where
  "plain_owner owner \<longleftrightarrow> plain_text owner \<and> CHR ''%'' \<notin> set owner \<and> CHR '','' \<notin> set owner"

lemma attributed_is:
  "attributed v r = Some (JStr (str_or (dget (row_meta r) ''tenant_id'')
     (given_or (parse_namespaced_tag (map JStr (row_tags r)) ''tenant'') (default_tenant_id (ident v)))))"
proof -
  have "dict_of (dget (row_hit r) ''metadata'') = Inr (row_meta r)"
    by (simp add: row_hit_def dict_of_def)
  moreover have "list_of (dget (row_hit r) ''tags'') = Inr (map JStr (row_tags r))"
    by (simp add: row_hit_def list_of_def)
  ultimately show ?thesis by (simp add: attributed_def normalize_hit_def Let_def)
qed

lemma plain_norm: "plain_text (no_spaces t) \<Longrightarrow> plain_text (norm_tags t)"
  by (simp add: norm_tags_def py_lower_char_def)

definition literal :: "string \<Rightarrow> bool" where
  "literal q \<longleftrightarrow> plain_text q \<and> CHR ''%'' \<notin> set q \<and> CHR ''_'' \<notin> set q"

lemma literal_words [simp]: "literal '',status:active,''" "literal '',tenant:''" "literal '',''"
  by (simp_all add: literal_def py_lower_char_def)

lemma like_literal_iff: "literal q \<Longrightarrow> plain_text s \<Longrightarrow> like (q @ p) s \<longleftrightarrow> (\<exists>b. s = q @ b \<and> like p b)"
  using like_literal by (simp add: literal_def)

lemma found_literal:
  assumes "literal q" and "plain_text s"
  shows "like (CHR ''%'' # q @ p) s \<longleftrightarrow> (\<exists>a b. s = a @ q @ b \<and> like p b)"
proof -
  have "like (q @ p) u \<longleftrightarrow> (\<exists>b. u = q @ b \<and> like p b)" if "s = a @ u" for a u
    using like_literal_iff [OF assms(1)] assms(2) that by simp
  then show ?thesis unfolding like_any by blast
qed

lemma found_between:
  assumes "plain_text s" and "CHR ''%'' \<notin> set w"
  shows "like (CHR ''%'' # '',tenant:'' @ w @ '','' @ ''%'') s \<longleftrightarrow> (\<exists>a m b. s = a @ '',tenant:'' @ m @ '','' @ b \<and> like w m)"
proof -
  have "like (w @ '','' @ ''%'') u \<longleftrightarrow> (\<exists>m b. u = m @ '','' @ b \<and> like w m)" if "s = a @ '',tenant:'' @ u" for a u
  proof -
    have u: "plain_text u" using assms(1) that by simp
    have "like ('','' @ ''%'') x \<longleftrightarrow> (\<exists>b. x = '','' @ b)" if "u = m @ x" for m x
      using like_literal_iff [of "'',''" x "''%''"] like_rest u that by simp
    then show ?thesis unfolding like_pieces [OF assms(2) u] by blast
  qed
  then show ?thesis unfolding found_literal [OF literal_words(2) assms(1)] by blast
qed

lemma found_status:
  assumes "plain_text (norm_tags t)"
  shows "like ''%,status:active,%'' (norm_tags t) \<longleftrightarrow> ''status:active'' \<in> set (column_tags t)"
  using found_literal [OF literal_words(1) assms, of "''%''"] like_rest bars_has [OF column_comma_free, of "''status:active''" t]
  by (simp add: norm_bars)

lemma found_tenant:
  assumes "plain_text (norm_tags t)"
  shows "like ''%,tenant:%'' (norm_tags t) \<longleftrightarrow> (\<exists>w \<in> set (column_tags t). startswith ''tenant:'' w)"
  using found_literal [OF literal_words(2) assms, of "''%''"] like_rest bars_has_start [OF column_comma_free, of "''tenant:''" t]
  by (simp add: norm_bars)

lemma like_self: "plain_text w \<Longrightarrow> CHR ''%'' \<notin> set w \<Longrightarrow> like w w"
proof (induction w)
  case (Cons c w)
  have "dropWhile utf8_tail w = w" using Cons.prems(1) by (cases w) (auto simp: utf8_tail_def Let_def)
  with Cons show ?case by auto
qed simp

lemma found_owner:
  assumes "plain_text (norm_tags t)" and "plain_owner owner" and "takes_only owner (norm_tags t)"
  shows "like (''%,tenant:'' @ owner @ '',%'') (norm_tags t) \<longleftrightarrow> ''tenant:'' @ owner \<in> set (column_tags t)"
proof -
  have o: "CHR ''%'' \<notin> set owner" "like owner owner" "CHR '','' \<notin> set owner"
    using assms(2) like_self by (auto simp: plain_owner_def)
  have "like (''%,tenant:'' @ owner @ '',%'') (norm_tags t) \<longleftrightarrow>
      (\<exists>a m b. norm_tags t = a @ '',tenant:'' @ m @ '','' @ b \<and> like owner m)"
    using found_between [OF assms(1) o(1)] by simp
  also have "\<dots> \<longleftrightarrow> (\<exists>a b. norm_tags t = a @ '',tenant:'' @ owner @ '','' @ b)"
    using assms(3) o(2) unfolding takes_only_def by blast
  also have "\<dots> \<longleftrightarrow> ''tenant:'' @ owner \<in> set (column_tags t)"
    using bars_has [OF column_comma_free, of "''tenant:'' @ owner" t] o(3) by (simp add: norm_bars)
  finally show ?thesis .
qed

lemma active_row_iff:
  assumes "plain_row json_tenant owner r"
  shows "active_row r \<longleftrightarrow> live_active r"
proof (cases "sm_tags r")
  case None
  then show ?thesis by (simp add: active_row_def live_active_def row_tags_def)
next
  case (Some t)
  with assms have "plain_text (norm_tags t)" by (intro plain_norm) (simp add: plain_row_def)
  from found_status [OF this] show ?thesis by (simp add: active_row_def live_active_def row_tags_def Some)
qed

text \<open>The tenant tag of a column with at most one.\<close>

lemma column_tenant:
  assumes "length (filter (startswith ''tenant:'') ts) \<le> 1" and "''tenant:'' \<notin> set ts"
  obtains "filter (startswith ''tenant:'') ts = []" "parse_namespaced_tag (map JStr (filter (\<lambda>w. w \<noteq> []) ts)) ''tenant'' = None"
  | w where "filter (startswith ''tenant:'') ts = [''tenant:'' @ w]" "w \<noteq> []"
      "parse_namespaced_tag (map JStr (filter (\<lambda>w. w \<noteq> []) ts)) ''tenant'' = Some w"
proof -
  have v: "tag_values (map JStr (filter (\<lambda>w. w \<noteq> []) us)) ''tenant'' = map (drop 7) (filter (startswith ''tenant:'') us)" for us
  proof (induction us)
    case (Cons u us)
    then show ?case by (cases u) (auto simp: tag_values_def List.map_filter_def eval_nat_numeral)
  qed (simp add: tag_values_def List.map_filter_def)
  show thesis
  proof (cases "filter (startswith ''tenant:'') ts")
    case Nil
    then show thesis using that(1) v [of ts] by (simp add: parse_namespaced_tag_def Let_def)
  next
    case (Cons u us)
    then have u: "filter (startswith ''tenant:'') ts = [u]" using assms(1) by simp
    then have "u \<in> set (filter (startswith ''tenant:'') ts)" by simp
    then have "startswith ''tenant:'' u" "u \<in> set ts" by auto
    then obtain w where w: "u = ''tenant:'' @ w" by (metis startswithD)
    with \<open>u \<in> set ts\<close> assms(2) have "w \<noteq> []" by auto
    with u w show thesis using that(2) [of w] v [of ts] by (simp add: parse_namespaced_tag_def Let_def)
  qed
qed

lemma owner_row_iff:
  assumes "plain_row json_tenant owner r" and "plain_owner owner" and "default_tenant_id (ident v) = owner"
  shows "owner_row json_tenant owner r \<longleftrightarrow> live_active r \<and> attributed v r = Some (JStr owner)"
proof (cases "sm_tags r")
  case None
  then show ?thesis by (simp add: owner_row_def live_active_def row_tags_def)
next
  case (Some t)
  let ?ts = "column_tags t"
  have p: "plain_text (norm_tags t)" "takes_only owner (norm_tags t)"
    "length (filter (startswith ''tenant:'') ?ts) \<le> 1" "''tenant:'' \<notin> set ?ts"
    using assms(1) Some plain_norm by (auto simp: plain_row_def)
  let ?m = "meta_tenant json_tenant r"
  let ?tag = "parse_namespaced_tag (map JStr (row_tags r)) ''tenant''"
  have tags: "(single_tenant_tag (norm_tags t) \<and> like (''%,tenant:'' @ owner @ '',%'') (norm_tags t) \<or>
      \<not> like ''%,tenant:%'' (norm_tags t)) \<longleftrightarrow> given_or ?tag owner = owner"
    using p(3,4)
  proof (cases rule: column_tenant)
    case 1
    then have "\<not> like ''%,tenant:%'' (norm_tags t)" using found_tenant [OF p(1)] by (auto simp: filter_empty_conv)
    with 1 show ?thesis by (simp add: row_tags_def Some given_or_def)
  next
    case (2 w)
    have in_ts: "x \<in> set ?ts \<and> startswith ''tenant:'' x \<longleftrightarrow> x = ''tenant:'' @ w" for x
      using arg_cong [OF 2(1), of "\<lambda>l. x \<in> set l"] by simp
    have "like ''%,tenant:%'' (norm_tags t)" using found_tenant [OF p(1)] in_ts by blast
    moreover have "single_tenant_tag (norm_tags t)" using 2(1) by (simp add: single_tenant_iff)
    moreover have "like (''%,tenant:'' @ owner @ '',%'') (norm_tags t) \<longleftrightarrow> owner = w"
      using found_owner [OF p(1) assms(2) p(2)] in_ts [of "''tenant:'' @ owner"] startswith_append [of "''tenant:''" owner] by auto
    ultimately show ?thesis using 2(2,3) by (auto simp: row_tags_def Some given_or_def)
  qed
  have att: "attributed v r = Some (JStr owner) \<longleftrightarrow> str_or (dget (row_meta r) ''tenant_id'') (given_or ?tag owner) = owner"
    using attributed_is [of v r] assms(3) by simp
  have "?m = Some (JStr owner) \<or> ?m = None \<and> given_or ?tag owner = owner \<longleftrightarrow> attributed v r = Some (JStr owner)"
    using assms(1) unfolding att plain_row_def
    by (auto simp: str_or_def py_str_def split: option.splits if_splits)
  then show ?thesis using active_row_iff [OF assms(1)] tags by (auto simp: owner_row_def Some)
qed

subsection \<open>The gate\<close>


text \<open>A failure of any step, from the configuration to the queries, refuses to serve.\<close>

theorem startup_fails_closed:
  "(case self_check expanduser env store json_tenant gov arg of
      Inl e \<Rightarrow> startup_self_check describe expanduser env store json_tenant gov arg =
        \<lparr>sc_serving = False, sc_reason = ''self-check error: '' @ describe e\<rparr>
    | Inr result \<Rightarrow> \<exists>g i path. gov = Inr g \<and> identity g = Inr i \<and> resolve_store_path expanduser env gov arg = Inr path \<and>
        (\<forall>e. store path \<noteq> Failing e) \<and> startup_self_check describe expanduser env store json_tenant gov arg = result)"
  by (auto simp: startup_self_check_def self_check_def rbind_def Let_def split: sum.splits store_file.splits)

text \<open>Without the hypothesis on the owner's name the probe opens on another tenant: \<open>_\<close> is a wildcard of LIKE.\<close>

definition foreign_row :: memory_row where
  "foreign_row = \<lparr>sm_hash = ''h1'', sm_tags = Some ''status:active,tenant:t2owner'', sm_deleted_at = None, sm_metadata = None,
     sm_type = JNull\<rparr>"

theorem probe_opens_on_another:
  "owner_row (\<lambda>_. None) (default_tenant_id sample_identity) foreign_row \<and>
   attributed sample_env foreign_row = Some (JStr ''t2owner'') \<and> ''t2owner'' \<noteq> default_tenant_id sample_identity"
proof (intro conjI)
  show "owner_row (\<lambda>_. None) (default_tenant_id sample_identity) foreign_row" by code_simp
  show "attributed sample_env foreign_row = Some (JStr ''t2owner'')"
    unfolding attributed_is by (simp add: foreign_row_def row_meta_def row_tags_def column_tags_def no_spaces_def
        parse_namespaced_tag_def tag_values_def given_or_def)
  show "''t2owner'' \<noteq> default_tenant_id sample_identity" by (simp add: sample_identity_def)
qed

subsection \<open>The store of another box\<close>

definition alice_governance :: governance where
  "alice_governance = \<lparr>schema_version = 1, raw = [(''identity'', JObj [(''default_tenant_id'', JStr ''alice'')])]\<rparr>"

lemma takes_only_plain: "plain_owner owner \<Longrightarrow> CHR ''_'' \<notin> set owner \<Longrightarrow> plain_text s \<Longrightarrow> takes_only owner s"
  using like_same [of owner] by (auto simp: takes_only_def plain_owner_def)


end
