(* ===== verification/Py_Float.thy ===== *)
theory Py_Float
  imports Json Complex_Main
begin

text \<open>
  Python floats as the resolver and the preference decision use them: they are compared, clamped and checked, never
  added.  A finite float is the rational number its shortest text denotes; these texts order as the floats do.
  \<open>read_float\<close>, a parameter, is Python's \<open>float\<close> of a text.
\<close>

text \<open>The value of a Python float; a finite one is a rational number, and only compared here.\<close>

datatype pyfloat = Finite rat | PosInf | NegInf | NaN

definition FLOAT_BOUND :: int where
  "FLOAT_BOUND = 2 ^ 1024 - 2 ^ 970"

text \<open>\<open>float(n)\<close> of an int: out of range from the bound on, where rounding to nearest would reach infinity.\<close>

definition int_overflows :: "int \<Rightarrow> bool" where
  "int_overflows n \<longleftrightarrow> n \<ge> FLOAT_BOUND \<or> n \<le> - FLOAT_BOUND"

text \<open>
  \<open>float(x)\<close> of a parsed value, up to the rounding of a large int, which does not move it across 0 or 1.
  A text or literal that is not a number and a value of another type raise, which the callers catch.
\<close>

definition float_of :: "(string \<Rightarrow> pyfloat option) \<Rightarrow> json \<Rightarrow> pyfloat res" where
  "float_of read_float v =
     (case v of JInt n \<Rightarrow> if int_overflows n then Inl OverflowError else Inr (Finite (of_int n))
      | JBool b \<Rightarrow> Inr (Finite (if b then 1 else 0))
      | JFloat s \<Rightarrow> (case read_float s of None \<Rightarrow> Inl (ValueError s) | Some f \<Rightarrow> Inr f)
      | JStr s \<Rightarrow> (case read_float s of None \<Rightarrow> Inl (ValueError s) | Some f \<Rightarrow> Inr f)
      | _ \<Rightarrow> Inl (TypeError ''float() argument''))"

text \<open>\<open>max(0.0, min(1.0, x))\<close>: both return their first argument unless the second compares better.\<close>

definition clamp :: "pyfloat \<Rightarrow> rat" where
  "clamp f = (case f of Finite r \<Rightarrow> max 0 (min 1 r) | PosInf \<Rightarrow> 1 | NegInf \<Rightarrow> 0 | NaN \<Rightarrow> 1)"

text \<open>\<open>round(x, 6) == x\<close> for a finite float.\<close>

definition quantized :: "pyfloat \<Rightarrow> bool" where
  "quantized f = (case f of Finite r \<Rightarrow> snd (quotient_of (r * 1000000)) = 1 | _ \<Rightarrow> False)"

lemma clamp_bounds: "0 \<le> clamp f \<and> clamp f \<le> 1"
  by (cases f) (auto simp: clamp_def)

lemma quantized_finite: "quantized f \<Longrightarrow> \<exists>r. f = Finite r"
  by (cases f) (auto simp: quantized_def)

end
