(* ===== verification/Preference_Decide.thy ===== *)
theory Preference_Decide
  imports Py_Float
begin

text \<open>
  \<open>panella/preference_decide.py\<close>: the decision whether a new preference is added, repeats a stored one, or
  supersedes it.  A language model only proposes which stored rows are about the same thing; its reply is an
  argument.  Reading the reply, the guards and the action are code.\<close>

subsection \<open>Descriptors and results\<close>

definition RISK_NORMAL :: string where "RISK_NORMAL = ''normal''"
definition RISK_HIGH :: string where "RISK_HIGH = ''high''"

datatype decide_action = ADD | NOOP | UPDATE | UPDATE_NEEDS_APPROVAL

datatype decide_reason =
    NO_ACTIVE | JUDGE_NO_MATCH | JUDGE_AMBIGUOUS | PARSE_ERROR | KIND_GUARD | RISK_GUARD
  | SAME_VALUE | SAME_SLOT_UPDATE | HIGH_RISK_UPDATE

record preference_descriptor =
  pd_kind :: string
  pd_risk_class :: string
  pd_value :: string
  pd_slot_question :: string
  pd_slot_label :: string
  pd_slot_scope :: string
  pd_source_sid :: string
  pd_content_hash :: "string option"

definition judge_descriptor :: "preference_descriptor \<Rightarrow> string" where
  "judge_descriptor p =
     (let base = (if py_strip (pd_slot_question p) \<noteq> [] then py_strip (pd_slot_question p) else py_strip (pd_slot_label p));
          scope = py_strip (pd_slot_scope p)
      in if scope \<noteq> [] then base @ '' ('' @ scope @ '')'' else base)"

record decide_result =
  dr_action :: decide_action
  dr_target :: "string option"
  dr_matched :: "nat option"
  dr_confidence :: rat
  dr_ambiguous :: bool
  dr_parse_error :: bool
  dr_rationale :: string
  dr_reason :: decide_reason
  dr_judge_indices :: "nat list"
  dr_judge_rationale :: string

subsection \<open>The judge's prompt and reply\<close>

definition active_line :: "nat \<Rightarrow> preference_descriptor \<Rightarrow> string" where
  "active_line i p = ''  ['' @ nat_str i @ ''] slot: '' @ judge_descriptor p @ '' | value: '' @ pd_value p"

definition build_judge_user :: "preference_descriptor \<Rightarrow> preference_descriptor list \<Rightarrow> string" where
  "build_judge_user candidate active = join [CHR 0x0A]
     ([''NEW attribute:'', ''  slot: '' @ judge_descriptor candidate, ''  value: '' @ pd_value candidate, [],
       ''EXISTING stored attributes:''] @
      map (\<lambda>(i, p). active_line i p) (enumerate 0 active) @
      [[], ''Which EXISTING indices are the SAME slot as the NEW attribute? Return the JSON object.''])"

text \<open>The text inside a fence of three back quotes, which may name \<open>json\<close>.\<close>

definition fence :: string where "fence = ''```''"

definition drop_open_fence :: "string \<Rightarrow> string" where
  "drop_open_fence t = (let r = drop 3 t in dropWhile py_space (if startswith ''json'' r then drop 4 r else r))"

definition drop_close_fence :: "string \<Rightarrow> string" where
  "drop_close_fence t =
     (if startswith fence (rev t) then rev (dropWhile py_space (drop 3 (rev t))) else t)"

definition unfence :: "string \<Rightarrow> string" where
  "unfence t = (if startswith fence t then py_strip (drop_close_fence (drop_open_fence t)) else t)"

text \<open>From the first opening to the last closing brace, empty when there is no such stretch.\<close>

definition braced :: "string \<Rightarrow> string" where
  "braced t = rev (dropWhile (\<lambda>c. c \<noteq> CHR ''}'') (rev (dropWhile (\<lambda>c. c \<noteq> CHR ''{'') t)))"

definition extract_json_object :: "string \<Rightarrow> dict option" where
  "extract_json_object raw =
     (let t = unfence (py_strip raw) in
      case loads t of Some v \<Rightarrow> object_items v
      | None \<Rightarrow> if braced t = [] then None else (case loads (braced t) of None \<Rightarrow> None | Some v \<Rightarrow> object_items v))"

record judge_verdict =
  jv_indices :: "nat list"
  jv_confidence :: rat
  jv_rationale :: string
  jv_parse_error :: bool

definition unparsed :: judge_verdict where
  "unparsed = \<lparr>jv_indices = [], jv_confidence = 0, jv_rationale = [], jv_parse_error = True\<rparr>"

definition valid_index :: "nat \<Rightarrow> json \<Rightarrow> nat option" where
  "valid_index n v = (case v of JInt i \<Rightarrow> if 0 \<le> i \<and> i < int n then Some (nat i) else None | _ \<Rightarrow> None)"

definition confidence_of :: "(string \<Rightarrow> pyfloat option) \<Rightarrow> json option \<Rightarrow> rat res" where
  "confidence_of read_float v =
     (case v of None \<Rightarrow> Inr 0
      | Some x \<Rightarrow> (case float_of read_float x of Inl OverflowError \<Rightarrow> Inl OverflowError | Inl _ \<Rightarrow> Inr 0 | Inr f \<Rightarrow> Inr (clamp f)))"

definition str_or_empty :: "json option \<Rightarrow> string" where
  "str_or_empty v = (case v of None \<Rightarrow> [] | Some x \<Rightarrow> py_str x)"

definition parse_judge :: "(string \<Rightarrow> pyfloat option) \<Rightarrow> string \<Rightarrow> nat \<Rightarrow> judge_verdict res" where
  "parse_judge read_float raw n =
     (case extract_json_object raw of None \<Rightarrow> Inr unparsed
      | Some d \<Rightarrow>
          (case dget d ''same_slot_indices'' of
             Some (JList vs) \<Rightarrow>
               if list_ex (\<lambda>v. valid_index n v = None) vs then Inr unparsed
               else rbind (confidence_of read_float (dget d ''confidence'')) (\<lambda>conf.
                 Inr \<lparr>jv_indices = sort (remdups (map (\<lambda>v. the (valid_index n v)) vs)), jv_confidence = conf,
                      jv_rationale = py_strip (str_or_empty (dget d ''rationale'')), jv_parse_error = False\<rparr>)
           | _ \<Rightarrow> Inr unparsed))"

subsection \<open>The decision\<close>

text \<open>Lower case, white space collapsed to single blanks, surrounding punctuation removed.\<close>

fun collapse :: "string \<Rightarrow> string" where
  "collapse [] = []"
| "collapse (c # s) = (if py_space c then CHR '' '' # collapse (dropWhile py_space s) else c # collapse s)"

definition edge_mark :: "char \<Rightarrow> bool" where
  "edge_mark c \<longleftrightarrow> c \<in> set [CHR '' '', CHR ''.'', CHR '','', CHR '';'', CHR '':'', CHR ''!'', CHR ''?'', CHR 0x22, CHR 0x27]"

definition norm_value :: "string \<Rightarrow> string" where
  "norm_value s = strip_chars edge_mark (collapse (py_lower (py_strip s)))"

definition dash :: string where
  "dash = [CHR 0xE2, CHR 0x80, CHR 0x94]"

text \<open>A result with the fields the code leaves at their defaults.\<close>

definition proposal :: "decide_action \<Rightarrow> decide_reason \<Rightarrow> string \<Rightarrow> decide_result" where
  "proposal a why note = \<lparr>dr_action = a, dr_target = None, dr_matched = None, dr_confidence = 0, dr_ambiguous = False,
     dr_parse_error = False, dr_rationale = note, dr_reason = why, dr_judge_indices = [], dr_judge_rationale = []\<rparr>"

definition judged :: "judge_verdict \<Rightarrow> decide_result \<Rightarrow> decide_result" where
  "judged v r = r\<lparr>dr_confidence := jv_confidence v, dr_judge_rationale := jv_rationale v\<rparr>"

text \<open>Exactly one row is about the same thing: the guards, then the value, then the risk.\<close>

definition matched :: "judge_verdict \<Rightarrow> nat \<Rightarrow> decide_result \<Rightarrow> decide_result" where
  "matched v i r = (judged v r)\<lparr>dr_matched := Some i, dr_judge_indices := [i]\<rparr>"

definition decide_match :: "judge_verdict \<Rightarrow> nat \<Rightarrow> preference_descriptor \<Rightarrow> preference_descriptor \<Rightarrow> decide_result" where
  "decide_match v i candidate m =
     (if pd_kind candidate \<noteq> pd_kind m then
        matched v i (proposal ADD KIND_GUARD
          (''kind mismatch ('' @ pd_kind candidate @ '' vs '' @ pd_kind m @ '') '' @ dash @ '' not the same slot''))
      else if pd_risk_class candidate \<noteq> pd_risk_class m then
        matched v i (proposal ADD RISK_GUARD
          (''risk-class mismatch ('' @ pd_risk_class candidate @ '' vs '' @ pd_risk_class m @ '') '' @ dash @ '' not the same slot''))
      else
        (matched v i
          (if norm_value (pd_value candidate) = norm_value (pd_value m) then proposal NOOP SAME_VALUE ''same slot, same value''
           else if pd_risk_class candidate = RISK_HIGH then
             proposal UPDATE_NEEDS_APPROVAL HIGH_RISK_UPDATE
               (''high-risk slot update '' @ dash @ '' never silent; route to Owner-visible approval'')
           else proposal UPDATE SAME_SLOT_UPDATE ''same slot, new value''))\<lparr>dr_target := pd_content_hash m\<rparr>)"

definition decide_verdict ::
  "judge_verdict \<Rightarrow> preference_descriptor \<Rightarrow> preference_descriptor list \<Rightarrow> decide_result" where
  "decide_verdict v candidate active =
     (if jv_parse_error v then
        (proposal ADD PARSE_ERROR (''judge reply unparseable '' @ dash @ '' fail-safe ADD (never merge on an untrusted verdict)''))
          \<lparr>dr_ambiguous := True, dr_parse_error := True\<rparr>
      else if jv_indices v = [] then judged v (proposal ADD JUDGE_NO_MATCH ''no same-slot match'')
      else if length (jv_indices v) > 1 then
        (judged v (proposal ADD JUDGE_AMBIGUOUS
          (''ambiguous '' @ dash @ '' '' @ nat_str (length (jv_indices v)) @ '' same-slot matches; fail-safe ADD (never merge)'')))
          \<lparr>dr_ambiguous := True, dr_judge_indices := jv_indices v\<rparr>
      else decide_match v (hd (jv_indices v)) candidate (active ! hd (jv_indices v)))"

text \<open>\<open>judge\<close> is the judge function with its constant system prompt; it may raise.\<close>

definition decide ::
  "(string \<Rightarrow> pyfloat option) \<Rightarrow> (string \<Rightarrow> string res) \<Rightarrow> preference_descriptor \<Rightarrow> preference_descriptor list \<Rightarrow>
   decide_result res" where
  "decide read_float judge candidate active =
     (if active = [] then Inr (proposal ADD NO_ACTIVE ''no active prefs in room'')
      else rbind (judge (build_judge_user candidate active)) (\<lambda>raw.
           rbind (parse_judge read_float raw (length active)) (\<lambda>v. Inr (decide_verdict v candidate active))))"

subsection \<open>What a reply can do\<close>

lemma valid_index_bound: "valid_index n v = Some i \<Longrightarrow> i < n \<and> v = JInt (int i)"
  by (auto simp: valid_index_def split: json.split_asm if_split_asm)

lemma confidence_raises: "confidence_of read_float v = Inl e \<Longrightarrow> e = OverflowError \<and> (\<exists>n. v = Some (JInt n) \<and> int_overflows n)"
  by (auto simp: confidence_of_def float_of_def split: option.split_asm json.split_asm if_split_asm sum.split_asm exc.split_asm)

text \<open>A reply whose list holds one row and nothing else.\<close>

definition names_only :: "string \<Rightarrow> nat \<Rightarrow> nat \<Rightarrow> bool" where
  "names_only raw n i \<longleftrightarrow> i < n \<and> (\<exists>d vs. extract_json_object raw = Some d \<and> dget d ''same_slot_indices'' = Some (JList vs) \<and>
     set vs = {JInt (int i)})"

lemma parse_judge_single:
  assumes "parse_judge read_float raw n = Inr v" and "\<not> jv_parse_error v" and "jv_indices v = [i]"
  shows "names_only raw n i"
proof -
  obtain d vs where d: "extract_json_object raw = Some d" "dget d ''same_slot_indices'' = Some (JList vs)"
    and ok: "\<not> list_ex (\<lambda>v. valid_index n v = None) vs"
    and v: "jv_indices v = sort (remdups (map (\<lambda>v. the (valid_index n v)) vs))"
    using assms(1,2)
    by (auto simp: parse_judge_def unparsed_def rbind_Inr_iff split: option.split_asm json.split_asm if_split_asm)
  have "set (jv_indices v) = (\<lambda>v. the (valid_index n v)) ` set vs" by (simp add: v)
  then have i: "(\<lambda>v. the (valid_index n v)) ` set vs = {i}" by (simp add: assms(3))
  have "x = JInt (int i) \<and> i < n" if "x \<in> set vs" for x
  proof -
    obtain j where j: "valid_index n x = Some j" using ok \<open>x \<in> set vs\<close> by (auto simp: list_ex_iff)
    then have "j = i" using i \<open>x \<in> set vs\<close> by force
    then show ?thesis using valid_index_bound [OF j] by simp
  qed
  moreover have "vs \<noteq> []" using i by auto
  ultimately have "set vs = {JInt (int i)}" "i < n" by (cases vs; auto)+
  then show ?thesis using d by (auto simp: names_only_def)
qed

definition trusted_reply :: "string \<Rightarrow> nat \<Rightarrow> bool" where
  "trusted_reply raw n \<longleftrightarrow> (\<exists>d vs. extract_json_object raw = Some d \<and> dget d ''same_slot_indices'' = Some (JList vs) \<and>
     (\<forall>v \<in> set vs. \<exists>i. v = JInt i \<and> 0 \<le> i \<and> i < int n))"

lemma untrusted_unparsed:
  assumes "\<not> trusted_reply raw n"
  shows "parse_judge read_float raw n = Inr unparsed"
proof (cases "extract_json_object raw")
  case (Some d)
  show ?thesis
  proof (cases "\<exists>vs. dget d ''same_slot_indices'' = Some (JList vs)")
    case True
    then obtain vs where vs: "dget d ''same_slot_indices'' = Some (JList vs)" by blast
    then obtain x where "x \<in> set vs" "\<not> (\<exists>i. x = JInt i \<and> 0 \<le> i \<and> i < int n)"
      using assms Some by (auto simp: trusted_reply_def)
    then have "list_ex (\<lambda>v. valid_index n v = None) vs"
      by (auto simp: list_ex_iff valid_index_def split: json.split intro!: bexI [of _ x])
    then show ?thesis using Some vs by (simp add: parse_judge_def)
  next
    case False
    then show ?thesis using Some by (auto simp: parse_judge_def split: option.split json.split)
  qed
qed (simp add: parse_judge_def)

lemma decide_match_fields:
  "dr_action (decide_match v i c m) = ADD \<longleftrightarrow> pd_kind c \<noteq> pd_kind m \<or> pd_risk_class c \<noteq> pd_risk_class m"
  "dr_target (decide_match v i c m) = (if dr_action (decide_match v i c m) = ADD then None else pd_content_hash m)"
  "dr_action (decide_match v i c m) = NOOP \<Longrightarrow> norm_value (pd_value c) = norm_value (pd_value m)"
  "dr_action (decide_match v i c m) = UPDATE \<Longrightarrow> norm_value (pd_value c) \<noteq> norm_value (pd_value m) \<and> pd_risk_class c \<noteq> RISK_HIGH"
  "dr_action (decide_match v i c m) = UPDATE_NEEDS_APPROVAL \<Longrightarrow>
     norm_value (pd_value c) \<noteq> norm_value (pd_value m) \<and> pd_risk_class c = RISK_HIGH"
  by (auto simp: decide_match_def matched_def judged_def proposal_def split: if_split_asm)

lemma decide_verdict_merge:
  assumes "dr_action (decide_verdict v c active) \<noteq> ADD"
  shows "\<not> jv_parse_error v \<and> (\<exists>i. jv_indices v = [i] \<and> decide_verdict v c active = decide_match v i c (active ! i))"
proof (cases "jv_parse_error v \<or> jv_indices v = [] \<or> length (jv_indices v) > 1")
  case True
  with assms show ?thesis by (auto simp: decide_verdict_def proposal_def judged_def split: if_split_asm)
next
  case False
  then obtain i where "jv_indices v = [i]" by (cases "jv_indices v") auto
  with False show ?thesis by (simp add: decide_verdict_def)
qed

lemma decide_verdict_add: "dr_action (decide_verdict v c active) = ADD \<Longrightarrow> dr_target (decide_verdict v c active) = None"
  using decide_match_fields(2) by (auto simp: decide_verdict_def proposal_def judged_def split: if_split_asm)

lemma decide_parts:
  "decide read_float judge c active = Inr r \<longleftrightarrow>
     (if active = [] then r = proposal ADD NO_ACTIVE ''no active prefs in room''
      else \<exists>raw v. judge (build_judge_user c active) = Inr raw \<and> parse_judge read_float raw (length active) = Inr v \<and>
        r = decide_verdict v c active)"
  by (auto simp: decide_def rbind_Inr_iff)

text \<open>
  C31: a stored preference is superseded, or taken for the same, only when the judge's reply lists exactly that row,
  kind and risk class are equal, and the target is that row's own hash; an update without approval is never of the
  high risk class.  Whatever else the judge replies, the preference is added and nothing is its target.
\<close>

theorem decide_never_merges:
  assumes "decide read_float judge c active = Inr r"
  shows "(dr_action r = ADD \<longrightarrow> dr_target r = None) \<and>
    (dr_action r \<noteq> ADD \<longrightarrow> (\<exists>raw i. judge (build_judge_user c active) = Inr raw \<and> names_only raw (length active) i \<and>
       pd_kind c = pd_kind (active ! i) \<and> pd_risk_class c = pd_risk_class (active ! i) \<and>
       dr_target r = pd_content_hash (active ! i) \<and>
       (dr_action r = NOOP) = (norm_value (pd_value c) = norm_value (pd_value (active ! i))))) \<and>
    (dr_action r = UPDATE \<longrightarrow> pd_risk_class c \<noteq> RISK_HIGH)"
proof (cases "dr_action r = ADD")
  case True
  then show ?thesis using assms decide_verdict_add by (auto simp: decide_parts proposal_def split: if_split_asm)
next
  case False
  then obtain raw v where j: "judge (build_judge_user c active) = Inr raw"
      and v: "parse_judge read_float raw (length active) = Inr v" and r: "r = decide_verdict v c active"
    using assms by (auto simp: decide_parts proposal_def split: if_split_asm)
  obtain i where ok: "\<not> jv_parse_error v" "jv_indices v = [i]" and m: "r = decide_match v i c (active ! i)"
    using decide_verdict_merge [of v c active] False r by auto
  note f = decide_match_fields [of v i c "active ! i", folded m]
  have "(dr_action r = NOOP) = (norm_value (pd_value c) = norm_value (pd_value (active ! i)))"
    using f(1,3,4,5) False by (cases "dr_action r") auto
  then show ?thesis
    using j parse_judge_single [OF v ok] f False by auto
qed


subsection \<open>A favourite that changed\<close>

definition sample_pref :: "string \<Rightarrow> preference_descriptor" where
  "sample_pref value = \<lparr>pd_kind = ''preference'', pd_risk_class = ''normal'', pd_value = value, pd_slot_question = ''language'',
     pd_slot_label = [], pd_slot_scope = [], pd_source_sid = [], pd_content_hash = Some ''h0''\<rparr>"

definition sample_reply :: "int \<Rightarrow> string" where
  "sample_reply i = (fence @ ''json'' @ [CHR 0x0A] @ dumps (JObj [(''same_slot_indices'', JList [JInt i])]) @ fence)"

lemma sample_update:
  "map_sum id (\<lambda>r. (dr_action r, dr_target r)) (decide (\<lambda>_. None) (\<lambda>_. Inr (sample_reply 0)) (sample_pref ''Rust'') [sample_pref ''Python'']) =
     Inr (UPDATE, Some ''h0'')"
  by code_simp

lemma sample_untrusted: "\<not> trusted_reply (sample_reply 1) 1"
proof -
  have "extract_json_object (sample_reply 1) =
      Some [(''same_slot_indices'', JList [JInt 1])]" by code_simp
  then show ?thesis by (simp add: trusted_reply_def)
qed

theorem decide_never_merges_witness:
  "\<exists>r. decide (\<lambda>_. None) (\<lambda>_. Inr (sample_reply 0)) (sample_pref ''Rust'') [sample_pref ''Python''] = Inr r \<and> dr_action r = UPDATE \<and>
     names_only (sample_reply 0) 1 0"
proof -
  obtain r where r: "decide (\<lambda>_. None) (\<lambda>_. Inr (sample_reply 0)) (sample_pref ''Rust'') [sample_pref ''Python''] = Inr r"
      "dr_action r = UPDATE"
    using sample_update by (cases "decide (\<lambda>_. None) (\<lambda>_. Inr (sample_reply 0)) (sample_pref ''Rust'') [sample_pref ''Python'']") auto
  obtain i where "names_only (sample_reply 0) 1 i"
    using decide_never_merges [OF r(1)] r(2) by auto
  moreover then have "i = 0" by (simp add: names_only_def)
  ultimately show ?thesis using r by blast
qed


end
