(* ===== verification/Preference_Extract.thy ===== *)
theory Preference_Extract
  imports Preference_Decide
begin

text \<open>
  \<open>panella/preference_extraction.py\<close>: typed candidates from the text of a user's turn.  A language model reads the
  turn; its reply is an argument.  Reading the reply, normalizing the name of a slot and counting what broke the
  contract are code.
\<close>

subsection \<open>The prompt\<close>

definition ALLOWED_KINDS :: "string list" where "ALLOWED_KINDS = [''preference'', ''fact'', ''constraint'']"
definition DEFAULT_KIND :: string where "DEFAULT_KIND = ''fact''"

definition line_feed :: string where "line_feed = [CHR 0x0A]"

definition EXTRACT_SYS :: string where
  "EXTRACT_SYS =
     ''You extract DURABLE facts and preferences ABOUT THE USER from a single user message, for a long-term personal memory. '' @
     ''Extract ONLY stable, self-describing attributes of the user: their preferences/tastes (kind=preference), their factual '' @
     ''states/attributes (kind=fact), and explicit rules/permissions they set (kind=constraint). Do NOT extract: questions, '' @
     ''requests, transient one-off events, chit-chat, or anything not a durable attribute of the user.'' @ line_feed @ line_feed @
     ''For each attribute output an object with:'' @ line_feed @
     ''  '' @ quoted ''kind'' @ '': one of '' @ quoted ''preference'' @ '' | '' @ quoted ''fact'' @ '' | '' @ quoted ''constraint'' @ line_feed @
     ''  '' @ quoted ''domain'' @ '': a short, STABLE snake_case slot name for the attribute (the SAME slot must get the SAME domain '' @
     ''every time it is mentioned, however it is phrased). Use the most general natural slot for the attribute (for example '' @
     ''timezone, preferred_news_source, or data_sharing_rule show the shape). Different attributes MUST get different domains.'' @ line_feed @
     ''  '' @ quoted ''value'' @ '': the current value, concise'' @ line_feed @
     ''  '' @ quoted ''confidence'' @ '': 0.0-1.0'' @ line_feed @
     ''  '' @ quoted ''evidence'' @ '': a short quote from the message'' @ line_feed @ line_feed @
     ''Return ONLY a JSON array (no prose, no markdown fences). Return [] if the message contains no durable user attribute.''"

subsection \<open>Candidates and slots\<close>

record preference_candidate =
  pc_source_sid :: string
  pc_kind :: string
  pc_domain :: string
  pc_value :: string
  pc_confidence :: rat
  pc_evidence :: string
  pc_coerced_kind :: bool

definition pref_key :: "preference_candidate \<Rightarrow> string" where
  "pref_key c = pc_kind c @ '':'' @ pc_domain c"

text \<open>Every run of other characters becomes one underscore.\<close>

definition slug_char :: "char \<Rightarrow> bool" where
  "slug_char c = (let n = of_char c :: nat in 97 \<le> n \<and> n \<le> 122 \<or> 48 \<le> n \<and> n \<le> 57)"

fun slugged :: "string \<Rightarrow> string" where
  "slugged [] = []"
| "slugged (c # s) =
     (if slug_char c then c # slugged s else CHR ''_'' # slugged (dropWhile (\<lambda>x. \<not> slug_char x) s))"

definition normalize_domain :: "string \<Rightarrow> string" where
  "normalize_domain d = strip_chars (\<lambda>c. c = CHR ''_'') (slugged (py_lower (py_strip d)))"

definition coerce_confidence :: "(string \<Rightarrow> pyfloat option) \<Rightarrow> json option \<Rightarrow> rat res" where
  "coerce_confidence read_float v =
     (case v of None \<Rightarrow> Inr (1 / 2)
      | Some x \<Rightarrow> (case float_of read_float x of Inl OverflowError \<Rightarrow> Inl OverflowError | Inl _ \<Rightarrow> Inr (1 / 2) | Inr f \<Rightarrow> Inr (clamp f)))"

subsection \<open>The reply\<close>

text \<open>From the first opening to the last closing bracket, empty when there is no such stretch.\<close>

definition bracketed :: "string \<Rightarrow> string" where
  "bracketed t = rev (dropWhile (\<lambda>c. c \<noteq> CHR '']'') (rev (dropWhile (\<lambda>c. c \<noteq> CHR ''['') t)))"

definition array_of :: "json option \<Rightarrow> json list option" where
  "array_of v = (case v of Some (JList xs) \<Rightarrow> Some xs | _ \<Rightarrow> None)"

definition extract_json_array :: "string \<Rightarrow> json list option" where
  "extract_json_array raw =
     (let t = unfence (py_strip raw) in
      case loads t of Some v \<Rightarrow> array_of (Some v)
      | None \<Rightarrow> if bracketed t = [] then None else array_of (loads (bracketed t)))"

record extract_stats =
  es_raw_objects :: nat
  es_dropped :: nat
  es_coerced :: nat
  es_malformed :: nat

definition no_stats :: extract_stats where
  "no_stats = \<lparr>es_raw_objects = 0, es_dropped = 0, es_coerced = 0, es_malformed = 0\<rparr>"

text \<open>A field that is absent or null is empty.\<close>

definition present :: "dict \<Rightarrow> string \<Rightarrow> string" where
  "present d k = (case dget d k of None \<Rightarrow> [] | Some JNull \<Rightarrow> [] | Some v \<Rightarrow> py_str v)"

definition entry_domain :: "dict \<Rightarrow> string" where
  "entry_domain d = normalize_domain (present d ''domain'')"

definition entry_value :: "dict \<Rightarrow> string" where
  "entry_value d = py_strip (present d ''value'')"

definition entry_kind :: "dict \<Rightarrow> string" where
  "entry_kind d = py_lower (py_strip (present d ''kind''))"

definition candidate_of :: "string \<Rightarrow> dict \<Rightarrow> rat \<Rightarrow> preference_candidate" where
  "candidate_of sid d conf =
     (let valid = entry_kind d \<in> set ALLOWED_KINDS in
      \<lparr>pc_source_sid = sid, pc_kind = (if valid then entry_kind d else DEFAULT_KIND), pc_domain = entry_domain d,
       pc_value = entry_value d, pc_confidence = conf, pc_evidence = py_strip (str_or_empty (dget d ''evidence'')),
       pc_coerced_kind = (\<not> valid)\<rparr>)"

text \<open>The loop over the entries, with the candidates so far and the counts.\<close>

fun parse_entries ::
  "(string \<Rightarrow> pyfloat option) \<Rightarrow> string \<Rightarrow> json list \<Rightarrow> preference_candidate list \<Rightarrow> extract_stats \<Rightarrow>
   (preference_candidate list \<times> extract_stats) res" where
  "parse_entries read_float sid [] out st = Inr (out, st)"
| "parse_entries read_float sid (item # items) out st =
     (case item of
        JObj d \<Rightarrow>
          if entry_domain d = [] \<or> entry_value d = [] then parse_entries read_float sid items out (st\<lparr>es_dropped := es_dropped st + 1\<rparr>)
          else
            (let st' = (if entry_kind d \<in> set ALLOWED_KINDS then st else st\<lparr>es_coerced := es_coerced st + 1\<rparr>) in
             rbind (coerce_confidence read_float (dget d ''confidence'')) (\<lambda>conf.
               parse_entries read_float sid items (out @ [candidate_of sid d conf]) st'))
      | _ \<Rightarrow> parse_entries read_float sid items out (st\<lparr>es_malformed := es_malformed st + 1\<rparr>))"

definition parse_with_stats ::
  "(string \<Rightarrow> pyfloat option) \<Rightarrow> string \<Rightarrow> string \<Rightarrow> (preference_candidate list \<times> extract_stats) res" where
  "parse_with_stats read_float raw sid =
     (case extract_json_array raw of None \<Rightarrow> Inr ([], no_stats\<lparr>es_raw_objects := 1, es_malformed := 1\<rparr>)
      | Some arr \<Rightarrow> parse_entries read_float sid arr [] (no_stats\<lparr>es_raw_objects := length arr\<rparr>))"

definition parse_candidates :: "(string \<Rightarrow> pyfloat option) \<Rightarrow> string \<Rightarrow> string \<Rightarrow> preference_candidate list res" where
  "parse_candidates read_float raw sid = map_sum id fst (parse_with_stats read_float raw sid)"

text \<open>\<open>chat\<close> is the model, which may raise.  A blank turn is not sent.\<close>

definition extract_preferences ::
  "(string \<Rightarrow> pyfloat option) \<Rightarrow> (string \<Rightarrow> string \<Rightarrow> string res) \<Rightarrow> string \<Rightarrow> string \<Rightarrow>
   (preference_candidate list \<times> extract_stats) res" where
  "extract_preferences read_float chat turn sid =
     (if py_strip turn = [] then Inr ([], no_stats)
      else rbind (chat EXTRACT_SYS turn) (\<lambda>raw. parse_with_stats read_float raw sid))"

subsection \<open>The name of a slot\<close>

text \<open>Words of lower-case letters and digits, joined by single underscores.\<close>

definition slot_name :: "string \<Rightarrow> bool" where
  "slot_name s \<longleftrightarrow> s \<noteq> [] \<and> list_all (\<lambda>c. slug_char c \<or> c = CHR ''_'') s \<and> hd s \<noteq> CHR ''_'' \<and> last s \<noteq> CHR ''_'' \<and>
     successively (\<lambda>x y. \<not> (x = CHR ''_'' \<and> y = CHR ''_'')) s"

lemma underscore_not_slug [simp]: "\<not> slug_char (CHR ''_'')"
  by (simp add: slug_char_def)

lemma slug_not_space: "slug_char c \<or> c = CHR ''_'' \<Longrightarrow> \<not> py_space c"
  by (auto simp: slug_char_def py_space_def Let_def)

lemma slug_lower: "slug_char c \<or> c = CHR ''_'' \<Longrightarrow> py_lower_char c = c"
  by (auto simp: slug_char_def py_lower_char_def Let_def)

lemma slugged_chars: "list_all (\<lambda>c. slug_char c \<or> c = CHR ''_'') (slugged s)"
  by (induction s rule: slugged.induct) auto

lemma slugged_hd: "s = [] \<or> slug_char (hd s) \<Longrightarrow> slugged s = [] \<or> slug_char (hd (slugged s))"
  by (cases s) auto

lemma slugged_after: "slugged (dropWhile (\<lambda>x. \<not> slug_char x) s) = [] \<or> slug_char (hd (slugged (dropWhile (\<lambda>x. \<not> slug_char x) s)))"
  by (rule slugged_hd) (use hd_dropWhile in blast)

lemma slugged_single: "successively (\<lambda>x y. \<not> (x = CHR ''_'' \<and> y = CHR ''_'')) (slugged s)"
proof (induction s rule: slugged.induct)
  case (2 c s)
  show ?case
  proof (cases "slug_char c")
    case True
    then have "c \<noteq> CHR ''_''" by auto
    then show ?thesis using 2(1) True by (simp add: successively_Cons)
  next
    case False
    then show ?thesis using 2(2) slugged_after [of s] by (auto simp: successively_Cons)
  qed
qed simp

lemma slugged_id:
  assumes "list_all (\<lambda>c. slug_char c \<or> c = CHR ''_'') s" and "successively (\<lambda>x y. \<not> (x = CHR ''_'' \<and> y = CHR ''_'')) s"
  shows "slugged s = s"
  using assms
proof (induction s)
  case (Cons c s)
  have "successively (\<lambda>x y. \<not> (x = CHR ''_'' \<and> y = CHR ''_'')) s" using Cons.prems(2) by (cases s) auto
  then have ih: "slugged s = s" using Cons.IH Cons.prems(1) by simp
  have "dropWhile (\<lambda>x. \<not> slug_char x) s = s" if "\<not> slug_char c"
    using Cons.prems that by (cases s) (auto simp: successively_Cons)
  then show ?case using ih Cons.prems(1) by auto
qed simp

lemma strip_chars_part: "\<exists>a b. s = a @ strip_chars P s @ b"
proof -
  let ?t = "dropWhile P s"
  have "s = takeWhile P s @ ?t" by simp
  moreover have "?t = strip_chars P s @ rev (takeWhile P (rev ?t))"
    unfolding strip_chars_def by (metis rev_append rev_rev_ident takeWhile_dropWhile_id)
  ultimately show ?thesis by metis
qed

lemma strip_chars_ends:
  assumes "strip_chars P s \<noteq> []"
  shows "\<not> P (hd (strip_chars P s)) \<and> \<not> P (last (strip_chars P s))"
proof -
  let ?t = "dropWhile P s"
  have r: "dropWhile P (rev ?t) \<noteq> []" using assms by (simp add: strip_chars_def)
  then have l: "\<not> P (last (strip_chars P s))" unfolding strip_chars_def using hd_dropWhile [OF r] by (simp add: last_rev)
  have t: "?t \<noteq> []" using r by (cases "?t = []") simp_all
  have "?t = strip_chars P s @ rev (takeWhile P (rev ?t))"
    unfolding strip_chars_def by (metis rev_append rev_rev_ident takeWhile_dropWhile_id)
  then have "hd (strip_chars P s) = hd ?t" using assms by (metis hd_append2)
  with l show ?thesis using hd_dropWhile [OF t] by simp
qed

lemma strip_chars_none: "s = [] \<or> \<not> P (hd s) \<and> \<not> P (last s) \<Longrightarrow> strip_chars P s = s"
proof -
  assume s: "s = [] \<or> \<not> P (hd s) \<and> \<not> P (last s)"
  then have "dropWhile P s = s" "dropWhile P (rev s) = rev s" by (auto simp: dropWhile_eq_self_iff hd_rev)
  then show ?thesis by (simp add: strip_chars_def)
qed

lemma normalize_slot_name: "normalize_domain d = [] \<or> slot_name (normalize_domain d)"
proof (cases "normalize_domain d = []")
  case False
  let ?s = "slugged (py_lower (py_strip d))"
  obtain a b where p: "?s = a @ normalize_domain d @ b"
    using strip_chars_part [of ?s "\<lambda>c. c = CHR ''_''"] by (auto simp: normalize_domain_def)
  have "list_all (\<lambda>c. slug_char c \<or> c = CHR ''_'') (a @ normalize_domain d @ b)" unfolding p [symmetric] by (rule slugged_chars)
  moreover have "successively (\<lambda>x y. \<not> (x = CHR ''_'' \<and> y = CHR ''_'')) (a @ normalize_domain d @ b)"
    unfolding p [symmetric] by (rule slugged_single)
  ultimately show ?thesis
    using False strip_chars_ends [of "\<lambda>c. c = CHR ''_''" ?s] by (auto simp: slot_name_def normalize_domain_def successively_append_iff)
qed simp

lemma normalize_fixes: "slot_name s \<Longrightarrow> normalize_domain s = s"
proof -
  assume s: "slot_name s"
  then have c: "list_all (\<lambda>c. slug_char c \<or> c = CHR ''_'') s" by (simp add: slot_name_def)
  have "\<not> py_space (hd s) \<and> \<not> py_space (last s)"
  proof -
    have "hd s \<in> set s" "last s \<in> set s" using s by (auto simp: slot_name_def)
    with c show ?thesis using slug_not_space unfolding list_all_iff by blast
  qed
  then have "py_strip s = s" by (simp add: py_strip_def strip_chars_none flip: strip_chars_def)
  moreover have "py_lower s = s" unfolding py_lower_def by (rule map_idI, rule slug_lower) (use c in \<open>simp add: list_all_iff\<close>)
  moreover have "slugged s = s" using s by (intro slugged_id) (simp_all add: slot_name_def)
  ultimately show ?thesis using s by (simp add: normalize_domain_def slot_name_def strip_chars_none)
qed

subsection \<open>What a reply can do\<close>

text \<open>The entries that become candidates, in the order of the reply.\<close>

definition usable :: "dict \<Rightarrow> bool" where
  "usable d \<longleftrightarrow> entry_domain d \<noteq> [] \<and> entry_value d \<noteq> []"

definition entries_of :: "json list \<Rightarrow> dict list" where
  "entries_of arr = concat (map (\<lambda>v. case v of JObj d \<Rightarrow> [d] | _ \<Rightarrow> []) arr)"

definition yields :: "(string \<Rightarrow> pyfloat option) \<Rightarrow> string \<Rightarrow> dict \<Rightarrow> preference_candidate \<Rightarrow> bool" where
  "yields read_float sid d c \<longleftrightarrow> (\<exists>conf. coerce_confidence read_float (dget d ''confidence'') = Inr conf \<and> c = candidate_of sid d conf)"

lemma entries_of_simps [simp]:
  "entries_of [] = []"
  "entries_of (v # vs) = (case v of JObj d \<Rightarrow> d # entries_of vs | _ \<Rightarrow> entries_of vs)"
  by (auto simp: entries_of_def split: json.split)

lemma parse_entries_yields:
  assumes "parse_entries read_float sid arr out st = Inr (cands, st')"
  shows "\<exists>new. cands = out @ new \<and> list_all2 (yields read_float sid) (filter usable (entries_of arr)) new \<and>
    es_raw_objects st' = es_raw_objects st \<and>
    es_dropped st' = es_dropped st + length (filter (\<lambda>d. \<not> usable d) (entries_of arr)) \<and>
    es_malformed st' + length (entries_of arr) = es_malformed st + length arr \<and>
    es_coerced st' = es_coerced st + length (filter pc_coerced_kind new)"
  using assms
proof (induction read_float sid arr out st rule: parse_entries.induct)
  case (2 read_float sid item items out st)
  show ?case
  proof (cases "\<exists>d. item = JObj d")
    case True
    then obtain d where d: "item = JObj d" by blast
    show ?thesis
    proof (cases "usable d")
      case True
      let ?st = "if entry_kind d \<in> set ALLOWED_KINDS then st else st\<lparr>es_coerced := es_coerced st + 1\<rparr>"
      have "rbind (coerce_confidence read_float (dget d ''confidence''))
          (\<lambda>conf. parse_entries read_float sid items (out @ [candidate_of sid d conf]) ?st) = Inr (cands, st')"
        using "2.prems" d True by (simp add: usable_def Let_def)
      then obtain conf where conf: "coerce_confidence read_float (dget d ''confidence'') = Inr conf"
        "parse_entries read_float sid items (out @ [candidate_of sid d conf]) ?st = Inr (cands, st')"
        by (auto simp only: rbind_Inr_iff)
      have "\<not> (entry_domain d = [] \<or> entry_value d = [])" using True by (simp add: usable_def)
      from "2.IH"(8) [OF d this refl conf] obtain new where
        n: "cands = (out @ [candidate_of sid d conf]) @ new" "list_all2 (yields read_float sid) (filter usable (entries_of items)) new"
          "es_raw_objects st' = es_raw_objects ?st" "es_dropped st' = es_dropped ?st + length (filter (\<lambda>d. \<not> usable d) (entries_of items))"
          "es_malformed st' + length (entries_of items) = es_malformed ?st + length items"
          "es_coerced st' = es_coerced ?st + length (filter pc_coerced_kind new)"
        by auto
      have y: "yields read_float sid d (candidate_of sid d conf)" using conf(1) by (auto simp: yields_def)
      have k: "pc_coerced_kind (candidate_of sid d conf) = (entry_kind d \<notin> set ALLOWED_KINDS)" by (simp add: candidate_of_def Let_def)
      show ?thesis using n y k d True by (intro exI [of _ "candidate_of sid d conf # new"]) (simp split: if_split_asm)
    next
      case False
      then have e: "entry_domain d = [] \<or> entry_value d = []" by (auto simp: usable_def)
      then have "parse_entries read_float sid items out (st\<lparr>es_dropped := es_dropped st + 1\<rparr>) = Inr (cands, st')"
        using "2.prems" d by simp
      from "2.IH"(7) [OF d e this] False d show ?thesis by simp
    qed
  next
    case False
    then have "parse_entries read_float sid items out (st\<lparr>es_malformed := es_malformed st + 1\<rparr>) = Inr (cands, st')"
      using "2.prems" by (cases item) auto
    then show ?thesis using "2.IH"(1-6) False by (cases item) auto
  qed
qed simp

lemma coerce_confidence_unit: "coerce_confidence read_float v = Inr conf \<Longrightarrow> 0 \<le> conf \<and> conf \<le> 1"
  using clamp_bounds by (auto simp: coerce_confidence_def split: option.split_asm sum.split_asm exc.split_asm)

lemma coerce_confidence_raises:
  "coerce_confidence read_float v = Inl e \<longleftrightarrow> e = OverflowError \<and> (\<exists>n. v = Some (JInt n) \<and> int_overflows n)"
  by (auto simp: coerce_confidence_def float_of_def split: option.split json.split sum.split exc.split)

lemma parse_entries_raises:
  "parse_entries read_float sid arr out st = Inl e \<longleftrightarrow> e = OverflowError \<and>
     (\<exists>d \<in> set (filter usable (entries_of arr)). \<exists>n. dget d ''confidence'' = Some (JInt n) \<and> int_overflows n)"
proof (induction arr arbitrary: out st)
  case (Cons item items)
  show ?case
  proof (cases "\<exists>d. item = JObj d")
    case True
    then obtain d where d: "item = JObj d" by blast
    show ?thesis
    proof (cases "usable d")
      case True
      show ?thesis
      proof (cases "coerce_confidence read_float (dget d ''confidence'')")
        case (Inl x)
        have "x = OverflowError \<and> (\<exists>n. dget d ''confidence'' = Some (JInt n) \<and> int_overflows n)"
          using Inl by (simp only: coerce_confidence_raises)
        then show ?thesis using d True Inl by (auto simp: usable_def Let_def)
      next
        case (Inr conf)
        then have "\<not> (\<exists>n. dget d ''confidence'' = Some (JInt n) \<and> int_overflows n)"
          using coerce_confidence_raises [of read_float "dget d ''confidence''" OverflowError] by auto
        then show ?thesis using d True Inr by (auto simp: usable_def Let_def Cons.IH)
      qed
    next
      case False
      then have "entry_domain d = [] \<or> entry_value d = []" by (auto simp: usable_def)
      then show ?thesis using d False Cons.IH by simp
    qed
  next
    case False
    then show ?thesis using Cons.IH by (cases item) auto
  qed
qed simp

text \<open>A candidate as the store may use it.\<close>

definition well_formed_candidate :: "string \<Rightarrow> preference_candidate \<Rightarrow> bool" where
  "well_formed_candidate sid c \<longleftrightarrow> pc_source_sid c = sid \<and> pc_kind c \<in> set ALLOWED_KINDS \<and> slot_name (pc_domain c) \<and>
     normalize_domain (pc_domain c) = pc_domain c \<and> pc_value c \<noteq> [] \<and> 0 \<le> pc_confidence c \<and> pc_confidence c \<le> 1"

lemma yields_well_formed: "yields read_float sid d c \<Longrightarrow> usable d \<Longrightarrow> well_formed_candidate sid c"
proof -
  assume y: "yields read_float sid d c" and u: "usable d"
  obtain conf where c: "c = candidate_of sid d conf" "0 \<le> conf \<and> conf \<le> 1"
    using y coerce_confidence_unit by (auto simp: yields_def)
  have "slot_name (entry_domain d)" using u normalize_slot_name by (auto simp: usable_def entry_domain_def)
  then show ?thesis using c u normalize_fixes
    by (simp add: well_formed_candidate_def candidate_of_def Let_def usable_def ALLOWED_KINDS_def DEFAULT_KIND_def)
qed

lemma pref_key_inj:
  assumes "well_formed_candidate sid c" and "well_formed_candidate sid' c'"
  shows "pref_key c = pref_key c' \<longleftrightarrow> pc_kind c = pc_kind c' \<and> pc_domain c = pc_domain c'"
  using assms by (auto simp: well_formed_candidate_def pref_key_def ALLOWED_KINDS_def)

lemma list_all2_source: "list_all2 P xs ys \<Longrightarrow> y \<in> set ys \<Longrightarrow> \<exists>x \<in> set xs. P x y"
  by (induction rule: list_all2_induct) auto

lemma parse_with_stats_yields:
  assumes "parse_with_stats read_float raw sid = Inr (cands, st)"
  shows "(extract_json_array raw = None \<longrightarrow> cands = [] \<and> es_malformed st = 1) \<and>
    (\<forall>arr. extract_json_array raw = Some arr \<longrightarrow> es_raw_objects st = length arr \<and>
       list_all2 (yields read_float sid) (filter usable (entries_of arr)) cands) \<and>
    es_raw_objects st = length cands + es_dropped st + es_malformed st \<and>
    es_coerced st = length (filter pc_coerced_kind cands) \<and> (\<forall>c \<in> set cands. well_formed_candidate sid c)"
proof (cases "extract_json_array raw")
  case None
  then show ?thesis using assms by (auto simp: parse_with_stats_def no_stats_def)
next
  case (Some arr)
  have "parse_entries read_float sid arr [] (no_stats\<lparr>es_raw_objects := length arr\<rparr>) = Inr (cands, st)"
    using assms Some by (simp add: parse_with_stats_def)
  from parse_entries_yields [OF this] have
    y: "list_all2 (yields read_float sid) (filter usable (entries_of arr)) cands" and
    n: "es_raw_objects st = length arr" "es_dropped st = length (filter (\<lambda>d. \<not> usable d) (entries_of arr))"
      "es_malformed st + length (entries_of arr) = length arr" "es_coerced st = length (filter pc_coerced_kind cands)"
    by (auto simp: no_stats_def)
  have "length cands = length (filter usable (entries_of arr))" using y by (simp add: list_all2_lengthD)
  moreover have "length (filter usable (entries_of arr)) + length (filter (\<lambda>d. \<not> usable d) (entries_of arr)) = length (entries_of arr)"
    by (rule sum_length_filter_compl)
  moreover have "well_formed_candidate sid c" if c: "c \<in> set cands" for c
  proof -
    obtain d where "d \<in> set (filter usable (entries_of arr))" "yields read_float sid d c"
      using list_all2_source [OF y c] by blast
    then show ?thesis using yields_well_formed by auto
  qed
  ultimately show ?thesis using Some y n by auto
qed

lemma extract_raises:
  "extract_preferences read_float chat turn sid = Inl e \<longleftrightarrow> py_strip turn \<noteq> [] \<and>
     (chat EXTRACT_SYS turn = Inl e \<or>
      e = OverflowError \<and> (\<exists>raw arr d n. chat EXTRACT_SYS turn = Inr raw \<and> extract_json_array raw = Some arr \<and>
        d \<in> set (filter usable (entries_of arr)) \<and> dget d ''confidence'' = Some (JInt n) \<and> int_overflows n))"
proof (cases "py_strip turn = []")
  case False
  show ?thesis
  proof (cases "chat EXTRACT_SYS turn")
    case (Inr raw)
    then show ?thesis using False
      by (cases "extract_json_array raw") (auto simp: extract_preferences_def parse_with_stats_def parse_entries_raises)
  qed (use False in \<open>auto simp: extract_preferences_def\<close>)
qed (simp add: extract_preferences_def)

text \<open>
  C33: nothing of a model's reply is hidden.  Every entry of the reply is a candidate, counted as dropped or counted as
  malformed, a reply that is no array counts as malformed, and the candidates are the usable entries in their order, of which those whose
  kind was replaced are counted.  Every candidate has an allowed kind, a snake-case slot name that normalizes to itself,
  a value, a confidence between 0 and 1 and the session it came from; two have the same key just when kind and
  slot are the same.
\<close>

theorem extraction_accounts:
  assumes "parse_with_stats read_float raw sid = Inr (cands, st)"
  shows "es_raw_objects st = length cands + es_dropped st + es_malformed st \<and>
    es_coerced st = length (filter pc_coerced_kind cands) \<and>
    (case extract_json_array raw of None \<Rightarrow> cands = [] \<and> es_malformed st = 1
     | Some arr \<Rightarrow> es_raw_objects st = length arr \<and> list_all2 (yields read_float sid) (filter usable (entries_of arr)) cands) \<and>
    (\<forall>c \<in> set cands. well_formed_candidate sid c \<and>
       (\<forall>c' \<in> set cands. pref_key c = pref_key c' \<longleftrightarrow> pc_kind c = pc_kind c' \<and> pc_domain c = pc_domain c'))"
proof -
  note y = parse_with_stats_yields [OF assms]
  then have "pref_key c = pref_key c' \<longleftrightarrow> pc_kind c = pc_kind c' \<and> pc_domain c = pc_domain c'" if "c \<in> set cands" "c' \<in> set cands" for c c'
    using that pref_key_inj by blast
  with y show ?thesis by (cases "extract_json_array raw") auto
qed

text \<open>
  Reading a turn fails only with the model.  A blank turn is not sent and gives nothing.  Otherwise the extraction
  raises what the model raised, or an overflow when a usable entry of the reply has an int as confidence that is too
  large for a float; any other reply, however broken, gives candidates and counts.
\<close>

theorem extraction_raises:
  "extract_preferences read_float chat turn sid = Inl e \<longleftrightarrow> py_strip turn \<noteq> [] \<and>
     (chat EXTRACT_SYS turn = Inl e \<or>
      e = OverflowError \<and> (\<exists>raw arr d n. chat EXTRACT_SYS turn = Inr raw \<and> extract_json_array raw = Some arr \<and>
        JObj d \<in> set arr \<and> usable d \<and> dget d ''confidence'' = Some (JInt n) \<and> int_overflows n))"
proof -
  have "d \<in> set (entries_of arr) \<longleftrightarrow> JObj d \<in> set arr" for d arr by (auto simp: entries_of_def split: json.split_asm)
  then show ?thesis by (simp add: extract_raises)
qed

subsection \<open>A reply with three entries\<close>

definition sample_extraction :: string where
  "sample_extraction = fence @ ''json'' @ line_feed @ dumps (JList
     [JObj [(''domain'', JStr ''Preferred  News-Source''), (''kind'', JStr ''Preference''), (''value'', JStr '' BBC '')],
      JNull, JObj [(''domain'', JStr ''timezone'')]]) @ fence"

lemma sample_extracted:
  "parse_with_stats (\<lambda>_. None) sample_extraction ''s1'' = Inr ([\<lparr>pc_source_sid = ''s1'', pc_kind = ''preference'',
     pc_domain = ''preferred_news_source'', pc_value = ''BBC'', pc_confidence = 1 / 2, pc_evidence = [], pc_coerced_kind = False\<rparr>],
     \<lparr>es_raw_objects = 3, es_dropped = 1, es_coerced = 0, es_malformed = 1\<rparr>)"
  by code_simp

theorem extraction_accounts_witness:
  "\<exists>c st. parse_with_stats (\<lambda>_. None) sample_extraction ''s1'' = Inr ([c], st) \<and> well_formed_candidate ''s1'' c \<and>
     pref_key c = ''preference:preferred_news_source''"
  using extraction_accounts [OF sample_extracted] sample_extracted by (simp add: pref_key_def)

end
