(* ===== verification/Model_Router.thy ===== *)
theory Model_Router
  imports Governance Preference_Extract "HOL-Library.Sublist"
begin

text \<open>
  \<open>panella/model_router.py\<close>: the binding of the extractor and the judge to language models.  Bindings to providers are
  read from the configuration and checked, a call walks them until one answers, each with its own credential, and what
  the failures say is redacted.  One HTTP POST is an argument, and so are the parsing of a URL and of an address.
\<close>

subsection \<open>Bindings\<close>

record provider_binding =
  pb_provider :: string
  pb_auth_mode :: string
  pb_model :: string
  pb_credential_ref :: string
  pb_endpoint :: "string option"

record router_tier =
  rt_name :: string
  rt_primary :: provider_binding
  rt_fallbacks :: "provider_binding list"

definition PROVIDERS :: "string list" where "PROVIDERS = [''openai'', ''anthropic'', ''gemini'', ''ollama'']"
definition AUTH_MODES :: "string list" where "AUTH_MODES = [''api_key'', ''subscription'', ''mcp_connector'']"
definition ROLES :: "string list" where "ROLES = [''extract'', ''judge'', ''synth'']"
definition TIER_NAMES :: "string list" where "TIER_NAMES = [''T0'', ''T1'', ''T3'']"

definition SUBSCRIPTION_ACK_ENV :: string where "SUBSCRIPTION_ACK_ENV = ''PANELLA_SUBSCRIPTION_TOS_ACK''"

definition PROVIDER_DEFAULT_KEY_ENV :: "(string \<times> string) list" where
  "PROVIDER_DEFAULT_KEY_ENV = [(''openai'', ''OPENAI_API_KEY''), (''anthropic'', ''ANTHROPIC_API_KEY''),
     (''gemini'', ''GEMINI_API_KEY''), (''ollama'', ''OLLAMA_API_KEY'')]"

definition OPENAI_COMPAT_ENDPOINTS :: "(string \<times> string) list" where
  "OPENAI_COMPAT_ENDPOINTS = [(''openai'', ''https://api.openai.com/v1''),
     (''gemini'', ''https://generativelanguage.googleapis.com/v1beta/openai''), (''ollama'', ''http://localhost:11434/v1'')]"

definition ANTHROPIC_DEFAULT_ENDPOINT :: string where "ANTHROPIC_DEFAULT_ENDPOINT = ''https://api.anthropic.com''"

text \<open>
  What the router is given from its surroundings: the environment; \<open>urlparse(e).hostname or ""\<close>, which may raise; whether
  a text is a loopback address; the type name and text of an exception; and the order in which a set of texts is listed.
\<close>

record router_host =
  rh_env :: "(string \<times> string) list"
  rh_hostname :: "string \<Rightarrow> string res"
  rh_loopback :: "string \<Rightarrow> bool"
  rh_describe :: "exc \<Rightarrow> string"
  rh_listed :: "string list \<Rightarrow> string list"

definition env_get :: "router_host \<Rightarrow> string \<Rightarrow> string" where
  "env_get h k = (case dget (rh_env h) k of None \<Rightarrow> [] | Some v \<Rightarrow> v)"

subsection \<open>Requests and replies\<close>

type_synonym poster = "string \<Rightarrow> (string \<times> string) list \<Rightarrow> string \<Rightarrow> (int \<times> string) res"

definition rstrip_slash :: "string \<Rightarrow> string" where
  "rstrip_slash s = rev (dropWhile (\<lambda>c. c = CHR ''/'') (rev s))"

definition endpoint_or :: "string option \<Rightarrow> string \<Rightarrow> string" where
  "endpoint_or e dflt = (case e of None \<Rightarrow> dflt | Some u \<Rightarrow> if u = [] then dflt else u)"

definition terr :: "string \<Rightarrow> 'a res" where
  "terr m = Inl (TransportError m)"

definition message :: "string \<Rightarrow> string \<Rightarrow> json" where
  "message who content = JObj [(''role'', JStr who), (''content'', JStr content)]"

text \<open>\<open>d[k]\<close> and \<open>xs[0]\<close> of a parsed value; what raises is kept as the name of its type.\<close>

definition item_at :: "string \<Rightarrow> json \<Rightarrow> string + json" where
  "item_at k v = (case v of JObj d \<Rightarrow> (case dget d k of None \<Rightarrow> Inl ''KeyError'' | Some x \<Rightarrow> Inr x) | _ \<Rightarrow> Inl ''TypeError'')"

definition item_0 :: "json \<Rightarrow> string + json" where
  "item_0 v =
     (case v of JList xs \<Rightarrow> (case xs of [] \<Rightarrow> Inl ''IndexError'' | x # _ \<Rightarrow> Inr x)
      | JStr s \<Rightarrow> (case s of [] \<Rightarrow> Inl ''IndexError'' | c # _ \<Rightarrow> Inr (JStr [c]))
      | JObj _ \<Rightarrow> Inl ''KeyError'' | _ \<Rightarrow> Inl ''TypeError'')"

definition at_path :: "(json \<Rightarrow> string + json) list \<Rightarrow> string \<Rightarrow> string + json" where
  "at_path steps body =
     fold (\<lambda>f v. case v of Inl e \<Rightarrow> Inl e | Inr x \<Rightarrow> f x) steps
       (case loads body of None \<Rightarrow> Inl ''JSONDecodeError'' | Some x \<Rightarrow> Inr x)"

definition openai_request ::
  "provider_binding \<Rightarrow> string option \<Rightarrow> string \<Rightarrow> string \<Rightarrow> (string \<times> (string \<times> string) list \<times> string) res" where
  "openai_request b cred system user =
     (let base = rstrip_slash (endpoint_or (pb_endpoint b) (case dget OPENAI_COMPAT_ENDPOINTS (pb_provider b) of None \<Rightarrow> [] | Some u \<Rightarrow> u)) in
      if base = [] then terr (''no endpoint configured for provider '' @ pb_provider b)
      else Inr (base @ ''/chat/completions'',
        (''Content-Type'', ''application/json'') #
          (case cred of None \<Rightarrow> [] | Some c \<Rightarrow> if c = [] then [] else [(''Authorization'', ''Bearer '' @ c)]),
        jprint '', '' '': '' (JObj [(''model'', JStr (pb_model b)), (''temperature'', JInt 0),
          (''messages'', JList [message ''system'' system, message ''user'' user])])))"

definition openai_compatible_transport ::
  "poster \<Rightarrow> provider_binding \<Rightarrow> string option \<Rightarrow> string \<Rightarrow> string \<Rightarrow> string res" where
  "openai_compatible_transport post b cred system user =
     rbind (openai_request b cred system user) (\<lambda>(url, headers, body).
     rbind (post url headers body) (\<lambda>(code, raw).
       if code \<noteq> 200 then terr (pb_provider b @ '' HTTP '' @ int_str code)
       else (case at_path [item_at ''choices'', item_0, item_at ''message'', item_at ''content''] raw of
          Inl e \<Rightarrow> terr (pb_provider b @ '' malformed response: '' @ e)
        | Inr (JStr s) \<Rightarrow> if py_strip s = [] then terr (pb_provider b @ '' response content missing or non-text'') else Inr (py_strip s)
        | Inr _ \<Rightarrow> terr (pb_provider b @ '' response content missing or non-text''))))"

definition anthropic_request ::
  "provider_binding \<Rightarrow> string option \<Rightarrow> string \<Rightarrow> string \<Rightarrow> string \<times> (string \<times> string) list \<times> string" where
  "anthropic_request b cred system user =
     (rstrip_slash (endpoint_or (pb_endpoint b) ANTHROPIC_DEFAULT_ENDPOINT) @ ''/v1/messages'',
      [(''Content-Type'', ''application/json''), (''anthropic-version'', ''2023-06-01'')] @
        (case cred of None \<Rightarrow> [] | Some c \<Rightarrow> if c = [] then [] else [(''x-api-key'', c)]),
      jprint '', '' '': '' (JObj [(''model'', JStr (pb_model b)), (''max_tokens'', JInt 1024), (''system'', JStr system),
        (''messages'', JList [message ''user'' user])]))"

definition block_text :: "json \<Rightarrow> string" where
  "block_text v = (case v of JObj d \<Rightarrow> (case dget d ''text'' of Some (JStr t) \<Rightarrow> t | _ \<Rightarrow> []) | _ \<Rightarrow> [])"

definition anthropic_transport ::
  "poster \<Rightarrow> provider_binding \<Rightarrow> string option \<Rightarrow> string \<Rightarrow> string \<Rightarrow> string res" where
  "anthropic_transport post b cred system user =
     (case anthropic_request b cred system user of (url, headers, body) \<Rightarrow>
      rbind (post url headers body) (\<lambda>(code, raw).
        if code \<noteq> 200 then terr (''anthropic HTTP '' @ int_str code)
        else (case at_path [item_at ''content''] raw of
           Inl e \<Rightarrow> terr (''anthropic malformed response: '' @ e)
         | Inr blocks \<Rightarrow>
             (let joined = py_strip (case blocks of JList bs \<Rightarrow> concat (map block_text bs) | _ \<Rightarrow> []) in
              if joined = [] then terr ''anthropic response content missing or non-text'' else Inr joined))))"

definition default_transport ::
  "poster \<Rightarrow> provider_binding \<Rightarrow> string option \<Rightarrow> string \<Rightarrow> string \<Rightarrow> string res" where
  "default_transport post b cred system user =
     (if pb_auth_mode b = ''subscription'' then
        terr (''subscription transport is accepted + routed but deferred (ToS research + a hardened, '' @
          ''env-isolated subprocess required); walking to fallback '' @ dash @ '' API-key mode is the default'')
      else if pb_auth_mode b = ''mcp_connector'' then
        terr ''mcp_connector transport is accepted + routed but not yet wired (deferred); walking to fallback''
      else if pb_provider b = ''anthropic'' then anthropic_transport post b cred system user
      else openai_compatible_transport post b cred system user)"

subsection \<open>The router\<close>

type_synonym model_transport = "provider_binding \<Rightarrow> string option \<Rightarrow> string \<Rightarrow> string \<Rightarrow> string res"

definition is_local_endpoint :: "router_host \<Rightarrow> string option \<Rightarrow> bool res" where
  "is_local_endpoint h e =
     (case e of None \<Rightarrow> Inr True
      | Some u \<Rightarrow> if u = [] then Inr True
                else rbind (rh_hostname h u) (\<lambda>host. Inr (py_lower host = ''localhost'' \<or> rh_loopback h (py_lower host))))"

record memory_model_router =
  mr_tiers :: "router_tier list"
  mr_role :: string

definition all_bindings :: "router_tier list \<Rightarrow> provider_binding list" where
  "all_bindings tiers = concat (map (\<lambda>t. rt_primary t # rt_fallbacks t) tiers)"

definition cerr :: "string \<Rightarrow> 'a res" where
  "cerr m = Inl (RouterConfigError m)"

definition conflicting_keys :: "router_host \<Rightarrow> provider_binding \<Rightarrow> string list" where
  "conflicting_keys h b =
     sort (remdups (filter (\<lambda>n. n \<noteq> [] \<and> env_get h n \<noteq> [])
       ((case dget PROVIDER_DEFAULT_KEY_ENV (pb_provider b) of None \<Rightarrow> [] | Some k \<Rightarrow> [k]) @ [pb_credential_ref b])))"

definition subscription_ack :: "router_host \<Rightarrow> bool" where
  "subscription_ack h \<longleftrightarrow> dget (rh_env h) SUBSCRIPTION_ACK_ENV = Some ''1''"

definition validate_binding :: "router_host \<Rightarrow> provider_binding \<Rightarrow> unit res" where
  "validate_binding h b =
     (if pb_provider b \<notin> set PROVIDERS then cerr (''invalid provider: '' @ repr_str (pb_provider b))
      else if pb_auth_mode b \<notin> set AUTH_MODES then cerr (''invalid auth_mode: '' @ repr_str (pb_auth_mode b))
      else if py_strip (pb_model b) = [] then cerr (pb_provider b @ '': binding.model must be a non-empty string'')
      else if pb_auth_mode b = ''subscription'' then
        (if \<not> subscription_ack h then
           cerr (pb_provider b @ '': auth_mode=subscription requires '' @ SUBSCRIPTION_ACK_ENV @
             ''=1 (subscription-mode ToS is an owner acknowledgment; API-key mode is the unconditional default)'')
         else if conflicting_keys h b \<noteq> [] then
           cerr (pb_provider b @ '': auth_mode=subscription but API key env(s) '' @ join '', '' (conflicting_keys h b) @ '' set '' @ dash @
             '' an API key silently overrides a subscription/OAuth token; unset it (see agent-sdk-subscription-auth-headless)'')
         else Inr ())
      else Inr ())"

definition validate_router :: "router_host \<Rightarrow> memory_model_router \<Rightarrow> unit res" where
  "validate_router h m =
     (if mr_tiers m = [] then cerr (''router for role='' @ repr_str (mr_role m) @ '' has no tiers'')
      else rbind (map_res (\<lambda>t. if rt_name t \<in> set TIER_NAMES then Inr () else cerr (''invalid tier name: '' @ repr_str (rt_name t))) (mr_tiers m))
        (\<lambda>_. rbind (map_res (validate_binding h) (all_bindings (mr_tiers m))) (\<lambda>_. Inr ())))"

definition mk_router :: "router_host \<Rightarrow> router_tier list \<Rightarrow> string \<Rightarrow> memory_model_router res" where
  "mk_router h tiers whose =
     (if whose \<notin> set ROLES then cerr (''invalid role: '' @ repr_str whose)
      else rbind (validate_router h \<lparr>mr_tiers = tiers, mr_role = whose\<rparr>) (\<lambda>_. Inr \<lparr>mr_tiers = tiers, mr_role = whose\<rparr>))"

definition resolve_credential :: "router_host \<Rightarrow> provider_binding \<Rightarrow> string option res" where
  "resolve_credential h b =
     (if pb_auth_mode b = ''api_key'' then
        (let v = env_get h (pb_credential_ref b); missing = pb_provider b @ '': credential env '' @ pb_credential_ref b @ '' not set'' in
         if v \<noteq> [] then Inr (Some v)
         else if pb_provider b = ''ollama'' then
           rbind (is_local_endpoint h (pb_endpoint b)) (\<lambda>here. if here then Inr (Some []) else terr missing)
         else terr missing)
      else Inr None)"

text \<open>The values of the environment to hide, the longest first.\<close>

definition secret_values :: "router_host \<Rightarrow> string list" where
  "secret_values h = sort_key (\<lambda>v. - int (length v)) (rh_listed h (remdups (filter (\<lambda>v. 8 \<le> length v) (map snd (rh_env h)))))"

definition redact :: "router_host \<Rightarrow> string \<Rightarrow> string" where
  "redact h s = fold (\<lambda>v out. replace_all v ''***'' out) (secret_values h) s"

definition failure_reason :: "router_host \<Rightarrow> exc \<Rightarrow> string" where
  "failure_reason h e = (case e of TransportError m \<Rightarrow> m | _ \<Rightarrow> rh_describe h e)"

text \<open>
  The walk over the bindings; beside the result it gives the bindings handed to the transport with their credentials.
\<close>

fun walk ::
  "router_host \<Rightarrow> model_transport \<Rightarrow> string \<Rightarrow> string \<Rightarrow> provider_binding list \<Rightarrow> string list \<Rightarrow>
   (string list + string) \<times> (provider_binding \<times> string option) list" where
  "walk h transport system user [] errors = (Inl errors, [])"
| "walk h transport system user (b # bs) errors =
     (case resolve_credential h b of
        Inl e \<Rightarrow> walk h transport system user bs
          (errors @ [redact h (pb_provider b @ ''/'' @ pb_auth_mode b @ '': '' @ failure_reason h e)])
      | Inr cred \<Rightarrow>
          (case transport b cred system user of
             Inl e \<Rightarrow> (case walk h transport system user bs
                 (errors @ [redact h (pb_provider b @ ''/'' @ pb_auth_mode b @ '': '' @ failure_reason h e)]) of
               (r, calls) \<Rightarrow> (r, (b, cred) # calls))
           | Inr answer \<Rightarrow>
               if py_strip answer = [] then
                 (case walk h transport system user bs (errors @ [pb_provider b @ ''/'' @ pb_auth_mode b @ '': empty response'']) of
                    (r, calls) \<Rightarrow> (r, (b, cred) # calls))
               else (Inr answer, [(b, cred)])))"

definition invoke ::
  "router_host \<Rightarrow> model_transport \<Rightarrow> memory_model_router \<Rightarrow> string \<Rightarrow> string \<Rightarrow>
   string res \<times> (provider_binding \<times> string option) list" where
  "invoke h transport m system user =
     (case walk h transport system user (all_bindings (mr_tiers m)) [] of
        (Inr answer, calls) \<Rightarrow> (Inr answer, calls)
      | (Inl errors, calls) \<Rightarrow>
          (Inl (AllProvidersFailed (''all '' @ nat_str (length (all_bindings (mr_tiers m))) @ '' model-router bindings failed for role='' @
             mr_role m @ '': '' @ join ''; '' errors)), calls))"

definition router_chat :: "router_host \<Rightarrow> model_transport \<Rightarrow> memory_model_router \<Rightarrow> string \<Rightarrow> string \<Rightarrow> string res" where
  "router_chat h transport m system user = fst (invoke h transport m system user)"

subsection \<open>The configuration\<close>

definition type_name :: "json \<Rightarrow> string" where
  "type_name v = (case v of JNull \<Rightarrow> ''NoneType'' | JBool _ \<Rightarrow> ''bool'' | JInt _ \<Rightarrow> ''int'' | JFloat _ \<Rightarrow> ''float''
     | JStr _ \<Rightarrow> ''str'' | JList _ \<Rightarrow> ''list'' | JObj _ \<Rightarrow> ''dict'')"

definition str_get :: "dict \<Rightarrow> string \<Rightarrow> string \<Rightarrow> string" where
  "str_get d k dflt = (case dget d k of None \<Rightarrow> dflt | Some v \<Rightarrow> py_str v)"

definition missing_key :: "string \<Rightarrow> string \<Rightarrow> 'a res" where
  "missing_key place k = cerr (place @ '': binding missing required key '' @ repr_str k)"

definition parse_binding :: "string \<Rightarrow> json \<Rightarrow> provider_binding res" where
  "parse_binding place v =
     (case v of
        JObj d \<Rightarrow>
          (case dget d ''provider'' of None \<Rightarrow> missing_key place ''provider''
           | Some p \<Rightarrow>
               (case dget d ''model'' of None \<Rightarrow> missing_key place ''model''
                | Some mv \<Rightarrow>
                    (case mv of
                       JStr s \<Rightarrow>
                         if py_strip s = [] then cerr (place @ '': binding.model must be a non-empty string, got '' @ py_repr mv)
                         else Inr \<lparr>pb_provider = py_str p, pb_auth_mode = str_get d ''auth_mode'' ''api_key'', pb_model = py_strip s,
                           pb_credential_ref = str_get d ''credential_ref'' [],
                           pb_endpoint = (case dget d ''endpoint'' of None \<Rightarrow> None
                             | Some e \<Rightarrow> if truthy e then Some (py_str e) else None)\<rparr>
                     | _ \<Rightarrow> cerr (place @ '': binding.model must be a non-empty string, got '' @ py_repr mv))))
      | _ \<Rightarrow> cerr (place @ '': binding must be a mapping, got '' @ type_name v))"

text \<open>What \<open>enumerate(x or [])\<close> walks over.\<close>

definition fallback_items :: "json option \<Rightarrow> json list res" where
  "fallback_items v =
     (if \<not> opt_truthy v then Inr []
      else case the v of JList xs \<Rightarrow> Inr xs | JObj d \<Rightarrow> Inr (map (JStr \<circ> fst) d) | JStr s \<Rightarrow> Inr (map (\<lambda>c. JStr [c]) s)
        | w \<Rightarrow> Inl (TypeError (repr_str (type_name w) @ '' object is not iterable'')))"

definition parse_tier :: "string \<Rightarrow> json \<Rightarrow> router_tier res" where
  "parse_tier place v =
     (case v of
        JObj d \<Rightarrow>
          (case dget d ''primary'' of None \<Rightarrow> cerr (place @ '': missing '' @ repr_str ''primary'' @ '' binding'')
           | Some p \<Rightarrow>
               rbind (parse_binding (place @ ''.primary'') p) (\<lambda>primary.
               rbind (fallback_items (dget d ''fallbacks'')) (\<lambda>items.
               rbind (map_res (\<lambda>(j, fb). parse_binding (place @ ''.fallbacks['' @ nat_str j @ '']'') fb) (enumerate 0 items)) (\<lambda>fallbacks.
                 Inr \<lparr>rt_name = str_get d ''name'' [], rt_primary = primary, rt_fallbacks = fallbacks\<rparr>))))
      | _ \<Rightarrow> cerr (place @ '' must be a mapping''))"

definition parse_tiers :: "string \<Rightarrow> json \<Rightarrow> router_tier list res" where
  "parse_tiers whose v =
     (let place = ''model_router['' @ repr_str whose @ '']''; bad = cerr (place @ '' must be a non-empty list of tiers'') in
      case v of
        JList xs \<Rightarrow> if xs = [] then bad
                   else map_res (\<lambda>(i, t). parse_tier (place @ ''['' @ nat_str i @ '']'') t) (enumerate 0 xs)
      | _ \<Rightarrow> bad)"

definition from_governance :: "router_host \<Rightarrow> governance \<Rightarrow> string \<Rightarrow> memory_model_router res" where
  "from_governance h g whose =
     (let none = cerr (''governance.model_router has no config for role='' @ repr_str whose) in
      case dget (model_router g) whose of None \<Rightarrow> none
      | Some v \<Rightarrow> if v = JNull then none else rbind (parse_tiers whose v) (\<lambda>tiers. mk_router h tiers whose))"

subsection \<open>What redaction hides\<close>

lemma sublist_after_mask:
  assumes "CHR ''*'' \<notin> set v" and "v \<noteq> []" and "sublist v (''***'' @ s)"
  shows "sublist v s"
proof -
  from assms(3) consider "sublist v ''***''" | "sublist v s"
    | xs ys where "v = xs @ ys" "suffix xs ''***''" "prefix ys s" unfolding sublist_append by blast
  then show ?thesis
  proof cases
    case 1
    then have "set v \<subseteq> {CHR ''*''}" using set_mono_sublist [OF 1] by simp
    with assms(1,2) show ?thesis by (cases v) auto
  next
    case (3 xs ys)
    then have "set xs \<subseteq> {CHR ''*''}" using set_mono_suffix by fastforce
    then have "xs = []" using assms(1) 3(1) by (cases xs) auto
    with 3 show ?thesis by (simp add: prefix_imp_sublist)
  qed
qed

lemma prefix_startswith: "startswith v s \<longleftrightarrow> prefix v s"
  by (auto simp: startswith_def prefix_def) (metis append_take_drop_id)

lemma prefix_masked:
  assumes "CHR ''*'' \<notin> set v" and "prefix v (replace_all u ''***'' s)"
  shows "prefix v s"
  using assms
proof (induction v arbitrary: s)
  case (Cons c v)
  show ?case
  proof (cases s)
    case (Cons d s')
    then show ?thesis using Cons.prems Cons.IH [of s'] by (auto split: if_split_asm)
  qed (use Cons.prems in simp)
qed simp

lemma replace_all_sublist:
  assumes "CHR ''*'' \<notin> set v" and "v \<noteq> []" and "sublist v (replace_all u ''***'' s)"
  shows "sublist v s"
  using assms(3)
proof (induction u "''***'' :: string" s rule: replace_all.induct)
  case (2 u c s)
  show ?case
  proof (cases "u \<noteq> [] \<and> startswith u (c # s)")
    case True
    then have "sublist v (''***'' @ replace_all u ''***'' (drop (length u) (c # s)))" using 2(3) by simp
    then have "sublist v (drop (length u) (c # s))" using sublist_after_mask [OF assms(1,2)] 2(1) True by blast
    then show ?thesis by (rule sublist_order.order_trans) (simp add: suffix_imp_sublist suffix_drop)
  next
    case False
    then have "sublist v (c # replace_all u ''***'' s)" using 2(3) by auto
    then show ?thesis using prefix_masked [OF assms(1), of u "c # s"] 2(2) False by (auto simp: sublist_Cons_right)
  qed
qed simp

lemma replace_all_gone:
  assumes "CHR ''*'' \<notin> set v" and "v \<noteq> []"
  shows "\<not> sublist v (replace_all v ''***'' s)"
  using assms
proof (induction v "''***'' :: string" s rule: replace_all.induct)
  case (2 v c s)
  show ?case
  proof (cases "v \<noteq> [] \<and> startswith v (c # s)")
    case True
    then have "\<not> sublist v (replace_all v ''***'' (drop (length v) (c # s)))" using 2(1) 2(3,4) by simp
    then show ?thesis using True sublist_after_mask [OF 2(3,4)] by (metis replace_all.simps(2))
  next
    case False
    then have "\<not> sublist v (replace_all v ''***'' s)" "\<not> prefix v (c # s)" using 2(2-4) by (auto simp: prefix_startswith)
    moreover have "replace_all v ''***'' (c # s) = c # replace_all v ''***'' s" using False by (simp only: replace_all.simps if_False)
    ultimately show ?thesis using prefix_masked [OF 2(3), of v "c # s"] by (auto simp: sublist_Cons_right)
  qed
qed simp

text \<open>The text shows none of these values.\<close>

definition shows_none :: "string list \<Rightarrow> string \<Rightarrow> bool" where
  "shows_none vs s \<longleftrightarrow> (\<forall>v \<in> set vs. CHR ''*'' \<notin> set v \<and> v \<noteq> [] \<longrightarrow> \<not> sublist v s)"

lemma fold_masks: "shows_none vs (fold (\<lambda>v out. replace_all v ''***'' out) vs s)"
proof (induction vs arbitrary: s rule: rev_induct)
  case (snoc v vs)
  show ?case unfolding shows_none_def
  proof (intro ballI impI)
    fix u assume u: "u \<in> set (vs @ [v])" "CHR ''*'' \<notin> set u \<and> u \<noteq> []"
    let ?t = "fold (\<lambda>v out. replace_all v ''***'' out) vs s"
    show "\<not> sublist u (fold (\<lambda>v out. replace_all v ''***'' out) (vs @ [v]) s)"
    proof (cases "u = v")
      case True
      then show ?thesis using replace_all_gone u(2) by simp
    next
      case False
      then have "\<not> sublist u ?t" using snoc u by (auto simp: shows_none_def)
      then show ?thesis using replace_all_sublist [of u v ?t] u(2) by auto
    qed
  qed
qed (simp add: shows_none_def)

definition lists_sets :: "router_host \<Rightarrow> bool" where
  "lists_sets h \<longleftrightarrow> (\<forall>xs. set (rh_listed h xs) = set xs)"

lemma redact_hides:
  assumes "lists_sets h"
  shows "shows_none (filter (\<lambda>v. 8 \<le> length v) (map snd (rh_env h))) (redact h s)"
proof -
  have "set (secret_values h) = set (filter (\<lambda>v. 8 \<le> length v) (map snd (rh_env h)))"
    using assms by (simp add: secret_values_def lists_sets_def)
  then show ?thesis using fold_masks [of "secret_values h" s] by (simp add: redact_def shows_none_def)
qed

subsection \<open>The walk\<close>

definition attempt :: "router_host \<Rightarrow> model_transport \<Rightarrow> string \<Rightarrow> string \<Rightarrow> provider_binding \<Rightarrow> string res" where
  "attempt h transport system user b = rbind (resolve_credential h b) (\<lambda>cred. transport b cred system user)"

definition answered_by :: "router_host \<Rightarrow> model_transport \<Rightarrow> string \<Rightarrow> string \<Rightarrow> provider_binding \<Rightarrow> bool" where
  "answered_by h transport system user b \<longleftrightarrow>
     (case attempt h transport system user b of Inl _ \<Rightarrow> False | Inr answer \<Rightarrow> py_strip answer \<noteq> [])"

text \<open>The calls of the bindings whose credential is there, and what is reported of a binding that gave no answer.\<close>

definition called_with :: "router_host \<Rightarrow> provider_binding list \<Rightarrow> (provider_binding \<times> string option) list" where
  "called_with h bs = concat (map (\<lambda>b. case resolve_credential h b of Inl _ \<Rightarrow> [] | Inr c \<Rightarrow> [(b, c)]) bs)"

definition report_of :: "router_host \<Rightarrow> model_transport \<Rightarrow> string \<Rightarrow> string \<Rightarrow> provider_binding \<Rightarrow> string" where
  "report_of h transport system user b =
     (case attempt h transport system user b of
        Inl e \<Rightarrow> redact h (pb_provider b @ ''/'' @ pb_auth_mode b @ '': '' @ failure_reason h e)
      | Inr _ \<Rightarrow> pb_provider b @ ''/'' @ pb_auth_mode b @ '': empty response'')"

lemma called_with_simps [simp]:
  "called_with h [] = []"
  "called_with h (b # bs) = (case resolve_credential h b of Inl _ \<Rightarrow> called_with h bs | Inr c \<Rightarrow> (b, c) # called_with h bs)"
  by (simp_all add: called_with_def split: sum.split)

lemma walk_unanswered:
  assumes "\<not> answered_by h transport system user b"
  shows "walk h transport system user (b # bs) errors =
    apsnd (\<lambda>calls. called_with h [b] @ calls) (walk h transport system user bs (errors @ [report_of h transport system user b]))"
proof (cases "resolve_credential h b")
  case (Inl e)
  then show ?thesis by (simp add: report_of_def attempt_def apsnd_def map_prod_def split: prod.split)
next
  case (Inr c)
  show ?thesis
  proof (cases "transport b c system user")
    case (Inl e)
    with Inr show ?thesis by (simp add: report_of_def attempt_def split: prod.split)
  next
    case a: (Inr answer)
    with Inr assms have "py_strip answer = []" by (simp add: answered_by_def attempt_def)
    with Inr a show ?thesis by (simp add: report_of_def attempt_def split: prod.split)
  qed
qed

lemma walk_answered:
  assumes "answered_by h transport system user b"
  shows "\<exists>answer. attempt h transport system user b = Inr answer \<and> py_strip answer \<noteq> [] \<and>
    walk h transport system user (b # bs) errors = (Inr answer, called_with h [b])"
  using assms by (auto simp: answered_by_def attempt_def rbind_def split: sum.split_asm)

lemma walk_finds:
  assumes "walk h transport system user bs errors = (r, calls)"
  shows "case r of
      Inr answer \<Rightarrow> (\<exists>before b after. bs = before @ b # after \<and> (\<forall>x \<in> set before. \<not> answered_by h transport system user x) \<and>
        attempt h transport system user b = Inr answer \<and> py_strip answer \<noteq> [] \<and> calls = called_with h (before @ [b]))
    | Inl es \<Rightarrow> (\<forall>x \<in> set bs. \<not> answered_by h transport system user x) \<and> calls = called_with h bs \<and>
        es = errors @ map (report_of h transport system user) bs"
  using assms
proof (induction bs arbitrary: errors r calls)
  case (Cons b bs)
  show ?case
  proof (cases "answered_by h transport system user b")
    case True
    from walk_answered [OF this, of bs errors] Cons.prems obtain answer where
      "r = Inr answer" "calls = called_with h [b]" "attempt h transport system user b = Inr answer" "py_strip answer \<noteq> []" by auto
    then show ?thesis by (auto intro!: exI [of _ "[]"])
  next
    case False
    obtain calls' where w: "walk h transport system user bs (errors @ [report_of h transport system user b]) = (r, calls')"
      "calls = called_with h [b] @ calls'"
      using Cons.prems walk_unanswered [OF False, of bs errors]
      by (cases "walk h transport system user bs (errors @ [report_of h transport system user b])") auto
    have app: "called_with h [b] @ called_with h xs = called_with h (b # xs)" for xs by (simp split: sum.split)
    show ?thesis
    proof (cases r)
      case (Inl es)
      with Cons.IH [OF w(1)] w(2) False app show ?thesis by simp
    next
      case (Inr answer)
      from Cons.IH [OF w(1)] Inr obtain before x after where i:
        "bs = before @ x # after" "\<forall>x \<in> set before. \<not> answered_by h transport system user x"
        "attempt h transport system user x = Inr answer" "py_strip answer \<noteq> []" "calls' = called_with h (before @ [x])" by auto
      have "b # bs = (b # before) @ x # after" "\<forall>x \<in> set (b # before). \<not> answered_by h transport system user x"
        "calls = called_with h ((b # before) @ [x])" using i False w(2) app [of "before @ [x]"] by simp_all
      with i(3,4) Inr show ?thesis by (simp only: sum.case) blast
    qed
  qed
qed simp

lemma router_answers:
  assumes "invoke h transport m system user = (r, calls)"
  shows "case r of
      Inr answer \<Rightarrow> (\<exists>before b after. all_bindings (mr_tiers m) = before @ b # after \<and>
        (\<forall>x \<in> set before. \<not> answered_by h transport system user x) \<and>
        attempt h transport system user b = Inr answer \<and> py_strip answer \<noteq> [] \<and> calls = called_with h (before @ [b]))
    | Inl e \<Rightarrow> (\<forall>x \<in> set (all_bindings (mr_tiers m)). \<not> answered_by h transport system user x) \<and>
        calls = called_with h (all_bindings (mr_tiers m)) \<and>
        e = AllProvidersFailed (''all '' @ nat_str (length (all_bindings (mr_tiers m))) @ '' model-router bindings failed for role='' @
             mr_role m @ '': '' @ join ''; '' (map (report_of h transport system user) (all_bindings (mr_tiers m))))"
proof -
  obtain w cs where w: "walk h transport system user (all_bindings (mr_tiers m)) [] = (w, cs)"
    by (cases "walk h transport system user (all_bindings (mr_tiers m)) []")
  note f = walk_finds [OF w]
  show ?thesis
  proof (cases w)
    case (Inl es)
    with assms w f show ?thesis by (auto simp: invoke_def)
  next
    case (Inr answer)
    then have "r = Inr answer" "calls = cs" using assms w by (auto simp: invoke_def)
    with f Inr show ?thesis by simp
  qed
qed

lemma called_with_mem: "(b, c) \<in> set (called_with h bs) \<longleftrightarrow> b \<in> set bs \<and> resolve_credential h b = Inr c"
  by (auto simp: called_with_def split: sum.splits)

text \<open>
  C35: the router answers with the first binding that answers, and an outage degrades.  The bindings are tried in the
  order of the configuration: before the one that answered none gave a text that is not blank, and none after it is
  called.  When all fail the one exception says so, with one report for each, and no report of a failure shows a value of
  the environment of eight or more characters that holds no asterisk.  A binding is called with its own credential.
\<close>

theorem router_walks:
  assumes "invoke h transport m system user = (r, calls)" and listed: "lists_sets h"
  shows "(case r of
      Inr answer \<Rightarrow> (\<exists>before b after. all_bindings (mr_tiers m) = before @ b # after \<and>
        (\<forall>x \<in> set before. \<not> answered_by h transport system user x) \<and>
        attempt h transport system user b = Inr answer \<and> py_strip answer \<noteq> [] \<and> calls = called_with h (before @ [b]))
    | Inl e \<Rightarrow> (\<forall>x \<in> set (all_bindings (mr_tiers m)). \<not> answered_by h transport system user x) \<and>
        calls = called_with h (all_bindings (mr_tiers m)) \<and>
        e = AllProvidersFailed (''all '' @ nat_str (length (all_bindings (mr_tiers m))) @ '' model-router bindings failed for role='' @
             mr_role m @ '': '' @ join ''; '' (map (report_of h transport system user) (all_bindings (mr_tiers m))))) \<and>
    (\<forall>b e. attempt h transport system user b = Inl e \<longrightarrow>
       shows_none (filter (\<lambda>v. 8 \<le> length v) (map snd (rh_env h))) (report_of h transport system user b))"
proof -
  have "shows_none (filter (\<lambda>v. 8 \<le> length v) (map snd (rh_env h))) (report_of h transport system user b)"
    if "attempt h transport system user b = Inl e" for b e
    using that redact_hides [OF listed] by (simp add: report_of_def)
  with router_answers [OF assms(1)] show ?thesis by blast
qed

subsection \<open>Where credentials go\<close>

definition posted :: "provider_binding \<Rightarrow> string option \<Rightarrow> string \<Rightarrow> string \<Rightarrow> (string \<times> (string \<times> string) list \<times> string) option" where
  "posted b cred system user =
     (if pb_auth_mode b = ''subscription'' \<or> pb_auth_mode b = ''mcp_connector'' then None
      else if pb_provider b = ''anthropic'' then Some (anthropic_request b cred system user)
      else case openai_request b cred system user of Inl _ \<Rightarrow> None | Inr q \<Rightarrow> Some q)"

text \<open>The transport sends this request and no other.\<close>

lemma default_transport_posts:
  assumes "\<And>url headers body. posted b cred system user = Some (url, headers, body) \<Longrightarrow> post url headers body = post' url headers body"
  shows "default_transport post b cred system user = default_transport post' b cred system user"
proof (cases "posted b cred system user")
  case None
  then show ?thesis
    by (auto simp: posted_def default_transport_def openai_compatible_transport_def split: if_split_asm sum.split_asm)
next
  case (Some q)
  obtain url headers body where q: "q = (url, headers, body)" by (cases q)
  have "post url headers body = post' url headers body" using assms Some q by simp
  with Some q show ?thesis
    by (auto simp: posted_def default_transport_def openai_compatible_transport_def anthropic_transport_def
        split: if_split_asm sum.split_asm)
qed

definition home :: "provider_binding \<Rightarrow> string" where
  "home b = rstrip_slash (endpoint_or (pb_endpoint b)
     (if pb_provider b = ''anthropic'' then ANTHROPIC_DEFAULT_ENDPOINT
      else case dget OPENAI_COMPAT_ENDPOINTS (pb_provider b) of None \<Rightarrow> [] | Some u \<Rightarrow> u))"

definition credential_headers :: "(string \<times> string) list \<Rightarrow> (string \<times> string) list" where
  "credential_headers hs = filter (\<lambda>(k, v). k \<noteq> ''Content-Type'' \<and> k \<noteq> ''anthropic-version'') hs"

lemma posted_headers:
  assumes "posted b cred system user = Some (url, headers, body)"
  shows "(\<exists>path. url = home b @ path) \<and>
    credential_headers headers =
      (case cred of None \<Rightarrow> [] | Some c \<Rightarrow> if c = [] then []
       else if pb_provider b = ''anthropic'' then [(''x-api-key'', c)] else [(''Authorization'', ''Bearer '' @ c)])"
  using assms
  by (auto simp: posted_def home_def anthropic_request_def openai_request_def credential_headers_def Let_def terr_def
      split: if_split_asm sum.split_asm option.split_asm option.split)

lemma resolve_credential_own:
  assumes "resolve_credential h b = Inr cred"
  shows "if pb_auth_mode b \<noteq> ''api_key'' then cred = None
    else cred = Some (env_get h (pb_credential_ref b)) \<and>
      (env_get h (pb_credential_ref b) = [] \<longrightarrow> pb_provider b = ''ollama'' \<and> is_local_endpoint h (pb_endpoint b) = Inr True)"
  using assms by (auto simp: resolve_credential_def Let_def rbind_Inr_iff terr_def split: if_split_asm)

definition sound_binding :: "router_host \<Rightarrow> provider_binding \<Rightarrow> bool" where
  "sound_binding h b \<longleftrightarrow> pb_provider b \<in> set PROVIDERS \<and> pb_auth_mode b \<in> set AUTH_MODES \<and> py_strip (pb_model b) \<noteq> [] \<and>
    (pb_auth_mode b = ''subscription'' \<longrightarrow> subscription_ack h \<and>
       (\<forall>k. k = pb_credential_ref b \<and> k \<noteq> [] \<or> dget PROVIDER_DEFAULT_KEY_ENV (pb_provider b) = Some k \<longrightarrow> env_get h k = []))"

lemma default_key_nonempty: "dget PROVIDER_DEFAULT_KEY_ENV p = Some k \<Longrightarrow> k \<noteq> []"
  by (auto simp: PROVIDER_DEFAULT_KEY_ENV_def split: if_split_asm)

lemma validate_binding_ok: "validate_binding h b = Inr u \<Longrightarrow> sound_binding h b"
proof -
  assume v: "validate_binding h b = Inr u"
  then have "pb_provider b \<in> set PROVIDERS" "pb_auth_mode b \<in> set AUTH_MODES" "py_strip (pb_model b) \<noteq> []"
    by (auto simp: validate_binding_def cerr_def split: if_split_asm)
  moreover have "subscription_ack h \<and> env_get h k = []" if s: "pb_auth_mode b = ''subscription''"
    and k: "k = pb_credential_ref b \<and> k \<noteq> [] \<or> dget PROVIDER_DEFAULT_KEY_ENV (pb_provider b) = Some k" for k
  proof -
    have "subscription_ack h" "conflicting_keys h b = []"
      using v s by (auto simp: validate_binding_def cerr_def split: if_split_asm)
    then have "k \<notin> set (conflicting_keys h b)" by simp
    then show ?thesis using \<open>subscription_ack h\<close> k default_key_nonempty by (auto simp: conflicting_keys_def split: if_split_asm)
  qed
  moreover have "subscription_ack h" if "pb_auth_mode b = ''subscription''"
    using v that by (auto simp: validate_binding_def cerr_def split: if_split_asm)
  ultimately show ?thesis by (auto simp: sound_binding_def)
qed

lemma mk_router_ok:
  assumes "mk_router h tiers whose = Inr m"
  shows "m = \<lparr>mr_tiers = tiers, mr_role = whose\<rparr> \<and> whose \<in> set ROLES \<and> tiers \<noteq> [] \<and> (\<forall>t \<in> set tiers. rt_name t \<in> set TIER_NAMES) \<and>
    (\<forall>b \<in> set (all_bindings tiers). sound_binding h b)"
proof -
  have r: "whose \<in> set ROLES" "m = \<lparr>mr_tiers = tiers, mr_role = whose\<rparr>" and v: "is_ok (validate_router h m)"
    using assms by (auto simp: mk_router_def cerr_def rbind_Inr_iff is_ok_def split: if_split_asm)
  obtain us vs where t: "tiers \<noteq> []"
    "map_res (\<lambda>t. if rt_name t \<in> set TIER_NAMES then Inr () else cerr (''invalid tier name: '' @ repr_str (rt_name t))) tiers = Inr us"
    "map_res (validate_binding h) (all_bindings tiers) = Inr vs"
    using v r(2) by (auto simp: validate_router_def cerr_def is_ok_def rbind_def split: if_split_asm sum.split_asm)
  have "rt_name x \<in> set TIER_NAMES" if "x \<in> set tiers" for x
    using map_res_member [OF t(2) that] by (auto simp: cerr_def split: if_split_asm)
  moreover have "sound_binding h b" if "b \<in> set (all_bindings tiers)" for b
    using map_res_member [OF t(3) that] validate_binding_ok by blast
  ultimately show ?thesis using r t(1) by blast
qed

lemma from_governance_ok:
  assumes "from_governance h g whose = Inr m"
  shows "mr_role m = whose \<and> whose \<in> set ROLES \<and> mr_tiers m \<noteq> [] \<and> (\<forall>t \<in> set (mr_tiers m). rt_name t \<in> set TIER_NAMES) \<and>
    (\<exists>v. dget (model_router g) whose = Some v \<and> parse_tiers whose v = Inr (mr_tiers m)) \<and>
    (\<forall>b \<in> set (all_bindings (mr_tiers m)). sound_binding h b)"
proof -
  obtain v tiers where v: "dget (model_router g) whose = Some v" "parse_tiers whose v = Inr tiers" "mk_router h tiers whose = Inr m"
    using assms by (auto simp: from_governance_def cerr_def Let_def rbind_Inr_iff split: option.split_asm if_split_asm)
  with mk_router_ok [OF v(3)] show ?thesis by auto
qed

lemma walk_cong:
  assumes "walk h transport system user bs errors = (r, calls)"
    and "\<forall>(b, c) \<in> set calls. transport' b c system user = transport b c system user"
  shows "walk h transport' system user bs errors = (r, calls)"
  using assms
proof (induction bs arbitrary: errors r calls)
  case (Cons b bs)
  show ?case
  proof (cases "resolve_credential h b")
    case (Inl e)
    then show ?thesis using Cons.prems Cons.IH by simp
  next
    case (Inr c)
    then have same: "transport' b c system user = transport b c system user"
      using Cons.prems by (auto split: sum.split_asm prod.split_asm if_split_asm)
    show ?thesis
    proof (cases "answered_by h transport system user b")
      case True
      then show ?thesis using Cons.prems(1) Inr same by (auto simp: answered_by_def attempt_def split: sum.split_asm)
    next
      case False
      then have no: "\<not> answered_by h transport' system user b" and rep: "report_of h transport' system user b = report_of h transport system user b"
        using same Inr by (simp_all add: answered_by_def attempt_def report_of_def)
      obtain calls' where w: "walk h transport system user bs (errors @ [report_of h transport system user b]) = (r, calls')"
          "calls = called_with h [b] @ calls'"
        using Cons.prems(1) walk_unanswered [OF False, of bs errors]
        by (cases "walk h transport system user bs (errors @ [report_of h transport system user b])") auto
      have "walk h transport' system user bs (errors @ [report_of h transport system user b]) = (r, calls')"
        using Cons.IH [OF w(1)] Cons.prems(2) w(2) by simp
      then show ?thesis using walk_unanswered [OF no, of bs errors] rep w(2) by simp
    qed
  qed
qed simp


text \<open>
  A subscription is used only on purpose.  A router that is built from the configuration has the tiers the
  configuration lists for its role, each with a known name, each binding with a known provider and way to authenticate and
  a model; and a binding by subscription only when the owner acknowledged the terms in the environment and
  neither the provider's usual key nor the binding's own is set, which would silently be used instead.
\<close>

theorem router_checked:
  assumes "from_governance h g whose = Inr m"
  shows "mr_role m = whose \<and> mr_tiers m \<noteq> [] \<and> (\<exists>v. dget (model_router g) whose = Some v \<and> parse_tiers whose v = Inr (mr_tiers m)) \<and>
    (\<forall>t \<in> set (mr_tiers m). rt_name t \<in> set TIER_NAMES) \<and>
    (\<forall>b \<in> set (all_bindings (mr_tiers m)). pb_provider b \<in> set PROVIDERS \<and> pb_auth_mode b \<in> set AUTH_MODES \<and>
       py_strip (pb_model b) \<noteq> [] \<and>
       (pb_auth_mode b = ''subscription'' \<longrightarrow> dget (rh_env h) SUBSCRIPTION_ACK_ENV = Some ''1'' \<and>
          (pb_credential_ref b \<noteq> [] \<longrightarrow> env_get h (pb_credential_ref b) = []) \<and>
          (\<forall>k. dget PROVIDER_DEFAULT_KEY_ENV (pb_provider b) = Some k \<longrightarrow> env_get h k = [])))"
  using from_governance_ok [OF assms] by (auto simp: sound_binding_def subscription_ack_def)

subsection \<open>A router with a fallback\<close>

definition sample_surroundings :: router_host where
  "sample_surroundings = \<lparr>rh_env = [(''OPENAI_API_KEY'', ''sk-first-key''), (''ANTHROPIC_API_KEY'', ''sk-second-key'')],
     rh_hostname = Inr, rh_loopback = (\<lambda>_. False), rh_describe = (\<lambda>_. []), rh_listed = id\<rparr>"

definition sample_binding :: "string \<Rightarrow> string \<Rightarrow> json" where
  "sample_binding p k = JObj [(''provider'', JStr p), (''model'', JStr ''m''), (''credential_ref'', JStr k)]"

definition sample_routes :: governance where
  "sample_routes = \<lparr>schema_version = 1, raw = [(''model_router'', JObj [(''extract'', JList [JObj [(''name'', JStr ''T0''),
     (''primary'', sample_binding ''openai'' ''OPENAI_API_KEY''),
     (''fallbacks'', JList [sample_binding ''anthropic'' ''ANTHROPIC_API_KEY''])]])])]\<rparr>"

definition sample_post :: poster where
  "sample_post url headers body =
     (if startswith ''https://api.openai.com'' url then Inr (500, [])
      else Inr (200, dumps (JObj [(''content'', JList [JObj [(''text'', JStr ''[]'')]])])))"

definition routed :: "memory_model_router" where
  "routed = (case from_governance sample_surroundings sample_routes ''extract'' of Inr m \<Rightarrow> m | Inl _ \<Rightarrow> \<lparr>mr_tiers = [], mr_role = []\<rparr>)"

lemma sample_routed: "from_governance sample_surroundings sample_routes ''extract'' = Inr routed"
proof -
  have "is_ok (from_governance sample_surroundings sample_routes ''extract'')" by code_simp
  then show ?thesis by (auto simp: routed_def is_ok_def split: sum.split)
qed

lemma sample_answer:
  "fst (invoke sample_surroundings (default_transport sample_post) routed ''s'' ''u'') = Inr ''[]'' \<and>
   map (\<lambda>(b, c). (pb_provider b, c)) (snd (invoke sample_surroundings (default_transport sample_post) routed ''s'' ''u'')) =
     [(''openai'', Some ''sk-first-key''), (''anthropic'', Some ''sk-second-key'')]"
  by code_simp

theorem router_walks_witness:
  "\<exists>before b after. all_bindings (mr_tiers routed) = before @ b # after \<and>
     attempt sample_surroundings (default_transport sample_post) ''s'' ''u'' b = Inr ''[]''"
proof -
  obtain calls where i: "invoke sample_surroundings (default_transport sample_post) routed ''s'' ''u'' = (Inr ''[]'', calls)"
    using sample_answer by (metis prod.collapse)
  have "lists_sets sample_surroundings" by (simp add: lists_sets_def sample_surroundings_def)
  from router_walks [OF i this] show ?thesis by auto
qed


theorem router_checked_witness: "mr_role routed = ''extract'' \<and> mr_tiers routed \<noteq> []"
  using router_checked [OF sample_routed] by blast

end
