(* ===== verification/Resolver_Normalize.thy ===== *)
theory Resolver_Normalize
  imports Json
begin

text \<open>
  \<open>panella/resolver/normalize.py\<close> and \<open>blocking_constants.py\<close>: how a domain name, an alias or a text is folded
  to the tokens the resolver compares.
\<close>

subsection \<open>Syntax\<close>

definition alnum :: "char \<Rightarrow> bool" where
  "alnum c \<longleftrightarrow> (let n = of_char c :: nat in (48 \<le> n \<and> n \<le> 57) \<or> (97 \<le> n \<and> n \<le> 122))"

text \<open>\<open>re.sub("P+", "_", s)\<close>: every maximal run of characters with \<open>P\<close> becomes one underscore.\<close>

fun sub_runs :: "(char \<Rightarrow> bool) \<Rightarrow> string \<Rightarrow> string" where
  "sub_runs P [] = []"
| "sub_runs P (c # s) = (if P c then CHR ''_'' # sub_runs P (dropWhile P s) else c # sub_runs P s)"

abbreviation underscore :: "char \<Rightarrow> bool" where
  "underscore c \<equiv> c = CHR ''_''"

definition extractor_normalize_domain :: "string \<Rightarrow> string" where
  "extractor_normalize_domain value =
     strip_chars underscore (sub_runs underscore (sub_runs (\<lambda>c. \<not> alnum c) (py_lower value)))"

subsection \<open>Folding tokens\<close>

definition STOPWORDS :: "string list" where
  "STOPWORDS = [''the'', ''a'', ''an'', ''my'', ''of'', ''in'', ''for'', ''current'', ''currently'', ''primary'', ''main'', ''new'',
     ''favorite'', ''favourite'', ''preferred'', ''usual'', ''regular'', ''personal'']"

definition PLURAL_KEEP :: "string list" where
  "PLURAL_KEEP = [''status'', ''address'', ''gps'', ''analysis'', ''glasses'', ''fitness'', ''wellness'', ''business'']"

definition PLURAL_Y_SUFFIX :: string where "PLURAL_Y_SUFFIX = ''ies''"

definition endswith :: "string \<Rightarrow> string \<Rightarrow> bool" where
  "endswith e s \<longleftrightarrow> startswith (rev e) (rev s)"

definition fold_token :: "string \<Rightarrow> string" where
  "fold_token t =
     (if length t > 3 \<and> endswith ''s'' t \<and> \<not> endswith ''ss'' t \<and> t \<notin> set PLURAL_KEEP
      then (if endswith PLURAL_Y_SUFFIX t then take (length t - 3) t @ ''y'' else butlast t)
      else t)"

definition fold_tokens :: "string \<Rightarrow> string list" where
  "fold_tokens value = map fold_token
     (filter (\<lambda>t. t \<noteq> [] \<and> t \<notin> set STOPWORDS) (split_at (CHR ''_'') (extractor_normalize_domain value)))"

definition resolver_normalize :: "string \<Rightarrow> string" where
  "resolver_normalize value = join ''_'' (fold_tokens value)"

definition tokens_of :: "string \<Rightarrow> string list" where
  "tokens_of value = filter (\<lambda>t. t \<noteq> []) (split_at (CHR ''_'') (resolver_normalize value))"

definition NORMALIZER_VERSION :: string where "NORMALIZER_VERSION = ''1.0.0''"

text \<open>The repr of the rules, and their hash.\<close>

definition tuple_repr :: "string list \<Rightarrow> string" where
  "tuple_repr parts = ''('' @ join '', '' parts @ '')''"

definition canonical_rules_repr :: string where
  "canonical_rules_repr = tuple_repr
     [tuple_repr (map repr_str (sort STOPWORDS)), tuple_repr (map repr_str (sort PLURAL_KEEP)), repr_str PLURAL_Y_SUFFIX]"

definition normalizer_rules_hash :: "(string \<Rightarrow> string) \<Rightarrow> string" where
  "normalizer_rules_hash H = H canonical_rules_repr"

subsection \<open>The blocking vocabulary\<close>

definition BLOCKING_STOPWORDS :: "string list" where
  "BLOCKING_STOPWORDS = [
     ''i'', ''me'', ''we'', ''us'', ''you'', ''they'', ''he'', ''she'', ''it'', ''is'', ''am'', ''are'', ''was'', ''were'',
     ''be'', ''been'', ''being'', ''have'', ''has'', ''had'', ''do'', ''does'', ''did'', ''will'', ''would'', ''shall'',
     ''should'', ''can'', ''could'', ''may'', ''might'', ''must'', ''to'', ''from'', ''with'', ''without'', ''at'', ''on'',
     ''off'', ''by'', ''as'', ''and'', ''or'', ''but'', ''nor'', ''not'', ''no'', ''yes'', ''this'', ''that'', ''these'',
     ''those'', ''there'', ''here'', ''so'', ''such'', ''very'', ''really'', ''just'', ''also'', ''about'', ''into'', ''onto'',
     ''over'', ''under'', ''after'', ''before'', ''when'', ''while'', ''since'', ''because'', ''though'', ''although'', ''if'',
     ''then'', ''than'', ''too'', ''again'', ''still'', ''only'', ''even'', ''much'', ''many'', ''more'', ''most'', ''some'',
     ''any'', ''all'', ''both'', ''each'', ''every'', ''other'', ''another'', ''same'', ''via'', ''per'', ''use'', ''uses'',
     ''used'', ''using'', ''like'', ''likes'', ''liked'', ''want'', ''wants'', ''wanted'', ''get'', ''gets'', ''got'', ''gotten'',
     ''make'', ''makes'', ''made'', ''take'', ''takes'', ''took'', ''go'', ''goes'', ''went'', ''going'', ''say'', ''says'',
     ''said'', ''tell'', ''tells'', ''told'', ''know'', ''knows'', ''knew'', ''think'', ''thinks'', ''thought'']"

definition BLOCKING_STOPWORDS_NORMALIZED :: "string list" where
  "BLOCKING_STOPWORDS_NORMALIZED = filter (\<lambda>w. w \<noteq> []) (map resolver_normalize BLOCKING_STOPWORDS)"

definition SCORING_DROP :: "string list" where
  "SCORING_DROP = STOPWORDS @ BLOCKING_STOPWORDS_NORMALIZED"

subsection \<open>Canonical names\<close>

text \<open>What the extractor's step yields: alphanumeric words with single underscores between them.\<close>

definition word :: "string \<Rightarrow> bool" where
  "word w \<longleftrightarrow> w \<noteq> [] \<and> list_all alnum w"

lemma underscore_not_alnum [simp]: "\<not> alnum (CHR ''_'')"
  by (simp add: alnum_def)

lemma sub_runs_chars: "c \<in> set (sub_runs (\<lambda>c. \<not> alnum c) s) \<Longrightarrow> alnum c \<or> underscore c"
  by (induction "\<lambda>c. \<not> alnum c" s rule: sub_runs.induct) (auto split: if_split_asm)

lemma split_join_words:
  "ws \<noteq> [] \<Longrightarrow> list_all word ws \<Longrightarrow> split_at (CHR ''_'') (join ''_'' ws) = ws"
proof (induction ws)
  case (Cons w ws)
  have w: "CHR ''_'' \<notin> set w" using Cons.prems by (auto simp: word_def list_all_iff)
  show ?case
  proof (cases ws)
    case Nil
    then show ?thesis using split_at_plain [OF w] by simp
  next
    case (Cons x xs)
    then show ?thesis using Cons.IH Cons.prems split_at_append [OF w] by simp
  qed
qed simp

lemma strip_chars_subset: "set (strip_chars P s) \<subseteq> set s"
  unfolding strip_chars_def by (auto dest!: set_dropWhileD)

lemma sub_runs_subset: "c \<in> set (sub_runs P s) \<Longrightarrow> underscore c \<or> c \<in> set s"
  by (induction P s rule: sub_runs.induct) (auto split: if_split_asm dest: set_dropWhileD)

lemma domain_chars: "c \<in> set (extractor_normalize_domain s) \<Longrightarrow> alnum c \<or> underscore c"
  unfolding extractor_normalize_domain_def using strip_chars_subset sub_runs_subset sub_runs_chars by fast

lemma fold_token_word: "word t \<Longrightarrow> word (fold_token t)"
proof -
  assume t: "word t"
  have "butlast t \<noteq> []" if "length t > 3" using that by (cases t rule: rev_cases) auto
  moreover have "alnum (CHR ''y'')" by code_simp
  ultimately show ?thesis using t by (auto simp: word_def fold_token_def list_all_iff dest: in_set_takeD in_set_butlastD)
qed

lemma fold_tokens_words: "list_all word (fold_tokens s)"
proof -
  have "word t" if "t \<in> set (split_at (CHR ''_'') (extractor_normalize_domain s))" "t \<noteq> []" for t
    using split_at_clean [OF that(1)] that(2) domain_chars by (force simp: word_def list_all_iff)
  then show ?thesis by (auto simp: fold_tokens_def list_all_iff intro: fold_token_word)
qed

lemma tokens_of_fold: "tokens_of s = fold_tokens s"
proof (cases "fold_tokens s")
  case Nil
  then show ?thesis by (simp add: tokens_of_def resolver_normalize_def)
next
  case (Cons t ts)
  then have "split_at (CHR ''_'') (resolver_normalize s) = fold_tokens s"
    using fold_tokens_words [of s] by (simp add: resolver_normalize_def split_join_words)
  moreover have "filter (\<lambda>t. t \<noteq> []) (fold_tokens s) = fold_tokens s"
    using fold_tokens_words [of s] by (simp add: filter_id_conv list_all_iff word_def)
  ultimately show ?thesis by (simp add: tokens_of_def)
qed

text \<open>Joined words are a fixed point of the extractor's step.\<close>

lemma lower_alnum: "alnum c \<Longrightarrow> py_lower_char c = c"
  by (auto simp: alnum_def py_lower_char_def Let_def)

lemma lower_underscore: "py_lower_char (CHR ''_'') = CHR ''_''"
  by code_simp

lemma sub_runs_word: "list_all alnum w \<Longrightarrow> sub_runs P (w @ s) = w @ sub_runs P s" if "\<And>c. alnum c \<Longrightarrow> \<not> P c"
  using that by (induction w) auto

lemma sub_runs_joined:
  assumes "P (CHR ''_'')" and "\<And>c. alnum c \<Longrightarrow> \<not> P c" and "list_all word ws"
  shows "sub_runs P (join ''_'' ws) = join ''_'' ws"
  using assms(3)
proof (induction ws)
  case (Cons x ws)
  note w = sub_runs_word [OF assms(2), where w = x]
  show ?case
  proof (cases ws)
    case Nil
    then show ?thesis using w [where s = "[]"] Cons.prems by (simp add: word_def)
  next
    case (Cons y ys)
    obtain a y' where y: "y = a # y'" "alnum a" using Cons.prems Cons by (cases y) (auto simp: word_def)
    then have "dropWhile P (join ''_'' ws) = join ''_'' ws" using Cons assms(2) by (cases ys) auto
    then show ?thesis using Cons.IH Cons.prems Cons w assms(1) by (auto simp: word_def)
  qed
qed simp

lemma join_chars: "c \<in> set (join ''_'' ws) \<Longrightarrow> underscore c \<or> (\<exists>w \<in> set ws. c \<in> set w)"
  by (induction "''_''" ws rule: join.induct) auto

lemma join_ends:
  assumes "list_all word ws" and "ws \<noteq> []"
  shows "join ''_'' ws \<noteq> [] \<and> alnum (hd (join ''_'' ws)) \<and> alnum (last (join ''_'' ws))"
  using assms
proof (induction ws)
  case (Cons x ws)
  then show ?case by (cases ws; cases x) (auto simp: word_def list_all_iff)
qed simp

lemma strip_chars_id: "s \<noteq> [] \<Longrightarrow> \<not> P (hd s) \<Longrightarrow> \<not> P (last s) \<Longrightarrow> strip_chars P s = s"
proof -
  assume s: "s \<noteq> []" "\<not> P (hd s)" "\<not> P (last s)"
  then have "dropWhile P s = s" by (cases s) auto
  moreover have "dropWhile P (rev s) = rev s" using s(1,3) by (cases s rule: rev_cases) auto
  ultimately show ?thesis by (simp add: strip_chars_def)
qed

lemma extractor_joined:
  assumes "list_all word ws"
  shows "extractor_normalize_domain (join ''_'' ws) = join ''_'' ws"
proof (cases "ws = []")
  case True
  then show ?thesis by (simp add: extractor_normalize_domain_def strip_chars_def py_lower_def)
next
  case False
  have "py_lower_char c = c" if "c \<in> set (join ''_'' ws)" for c
    using join_chars [OF that] assms lower_alnum lower_underscore by (auto simp: word_def list_all_iff)
  then have "py_lower (join ''_'' ws) = join ''_'' ws" by (simp add: py_lower_def map_idI)
  moreover have "sub_runs (\<lambda>c. \<not> alnum c) (join ''_'' ws) = join ''_'' ws" by (rule sub_runs_joined) (use assms in auto)
  moreover have "sub_runs underscore (join ''_'' ws) = join ''_'' ws" by (rule sub_runs_joined) (use assms in auto)
  moreover have "\<not> underscore c" if "alnum c" for c using that by auto
  ultimately show ?thesis
    using join_ends [OF assms False] strip_chars_id [of "join ''_'' ws" underscore] by (simp add: extractor_normalize_domain_def)
qed

lemma normalize_canonical: "extractor_normalize_domain (resolver_normalize s) = resolver_normalize s"
  unfolding resolver_normalize_def by (rule extractor_joined [OF fold_tokens_words])

lemma fold_token_twice: "fold_token (fold_token t) = fold_token t"
proof (cases "length t > 3 \<and> endswith ''s'' t \<and> \<not> endswith ''ss'' t \<and> t \<notin> set PLURAL_KEEP")
  case True
  then obtain u where u: "t = u @ ''s''" by (cases t rule: rev_cases) (auto simp: endswith_def)
  have "\<not> endswith ''s'' u" using True u by (cases u rule: rev_cases) (auto simp: endswith_def)
  then have "\<not> endswith ''s'' (fold_token t)" using True u by (simp add: fold_token_def endswith_def)
  then show ?thesis by (simp add: fold_token_def [of "fold_token t"])
next
  case False
  then have "fold_token t = t" by (auto simp: fold_token_def)
  then show ?thesis by simp
qed

text \<open>
  Folding is done once: \<open>news\<close> folds to the stop word \<open>new\<close>, which folds to nothing.  Where no folded token is a stop
  word, normalizing again changes nothing.
\<close>

lemma normalize_stable:
  assumes "list_all (\<lambda>t. t \<notin> set STOPWORDS) (fold_tokens s)"
  shows "resolver_normalize (resolver_normalize s) = resolver_normalize s"
proof (cases "fold_tokens s = []")
  case True
  have "resolver_normalize [] = []" by code_simp
  with True show ?thesis by (simp add: resolver_normalize_def)
next
  case False
  have "fold_tokens (resolver_normalize s) = map fold_token (filter (\<lambda>t. t \<noteq> [] \<and> t \<notin> set STOPWORDS) (fold_tokens s))"
    using split_join_words [OF False fold_tokens_words] by (simp add: fold_tokens_def [of "resolver_normalize s"] normalize_canonical)
      (simp add: resolver_normalize_def)
  also have "filter (\<lambda>t. t \<noteq> [] \<and> t \<notin> set STOPWORDS) (fold_tokens s) = fold_tokens s"
    using assms fold_tokens_words [of s] by (simp add: filter_id_conv list_all_iff word_def)
  also have "map fold_token (fold_tokens s) = fold_tokens s" by (simp add: fold_tokens_def fold_token_twice)
  finally show ?thesis by (simp add: resolver_normalize_def)
qed

lemma normalize_news: "resolver_normalize ''news'' = ''new''" "resolver_normalize ''new'' = []"
  by code_simp+

text \<open>The normalized vocabulary, worked out once.\<close>

lemma stop_normalized [code]: "BLOCKING_STOPWORDS_NORMALIZED = [
     ''i'', ''me'', ''we'', ''us'', ''you'', ''they'', ''he'', ''she'', ''it'', ''is'', ''am'', ''are'', ''was'', ''were'',
     ''be'', ''been'', ''being'', ''have'', ''has'', ''had'', ''do'', ''doe'', ''did'', ''will'', ''would'', ''shall'', ''should'', ''can'',
     ''could'', ''may'', ''might'', ''must'', ''to'', ''from'', ''with'', ''without'', ''at'', ''on'', ''off'', ''by'', ''as'', ''and'',
     ''or'', ''but'', ''nor'', ''not'', ''no'', ''yes'', ''thi'', ''that'', ''these'', ''those'', ''there'', ''here'', ''so'', ''such'',
     ''very'', ''really'', ''just'', ''also'', ''about'', ''into'', ''onto'', ''over'', ''under'', ''after'', ''before'', ''when'', ''while'', ''since'',
     ''because'', ''though'', ''although'', ''if'', ''then'', ''than'', ''too'', ''again'', ''still'', ''only'', ''even'', ''much'', ''many'', ''more'',
     ''most'', ''some'', ''any'', ''all'', ''both'', ''each'', ''every'', ''other'', ''another'', ''same'', ''via'', ''per'', ''use'', ''use'',
     ''used'', ''using'', ''like'', ''like'', ''liked'', ''want'', ''want'', ''wanted'', ''get'', ''get'', ''got'', ''gotten'', ''make'', ''make'',
     ''made'', ''take'', ''take'', ''took'', ''go'', ''goe'', ''went'', ''going'', ''say'', ''say'', ''said'', ''tell'', ''tell'', ''told'',
     ''know'', ''know'', ''knew'', ''think'', ''think'', ''thought'']"
  by code_simp

end
