(* ===== verification/Resolver_Types.thy ===== *)
theory Resolver_Types
  imports Py_Float
begin

text \<open>
  \<open>panella/resolver/types.py\<close>: the contracts of the resolver.  A dataclass is a record, its checks are a constructor
  that may raise; checks of Python types are the types of the model.  What a provider returns is not trusted by the
  engine, so its fields are JSON values (\<open>JNull\<close> for \<open>None\<close>).
\<close>

subsection \<open>Requests and slots\<close>

definition KINDS :: "string list" where
  "KINDS = [''preference'', ''fact'', ''constraint'']"

definition lower_digit :: "char \<Rightarrow> bool" where
  "lower_digit c \<longleftrightarrow> (let n = of_char c :: nat in (48 \<le> n \<and> n \<le> 57) \<or> (97 \<le> n \<and> n \<le> 122))"

definition uid_ok :: "string \<Rightarrow> bool" where
  "uid_ok s = (case s of [] \<Rightarrow> False
     | c # r \<Rightarrow> lower_digit c \<and> length r \<le> 127 \<and> list_all (\<lambda>x. lower_digit x \<or> x \<in> set [CHR ''/'', CHR ''_'', CHR ''-'', CHR ''.'']) r)"

record resolve_request =
  rq_uid :: string
  rq_kind :: string
  rq_raw_domain :: string
  rq_value :: string
  rq_evidence :: string
  rq_effective_at :: "string option"

definition mk_request :: "resolve_request \<Rightarrow> resolve_request res" where
  "mk_request r =
     (if \<not> uid_ok (rq_uid r) then Inl (ValueError ''request_uid must match the resolver UID grammar'')
      else if rq_kind r \<notin> set KINDS then Inl (ValueError ''kind must be preference, fact, or constraint'')
      else Inr r)"

definition RESERVED_DOMAIN :: string where "RESERVED_DOMAIN = ''xunres_''"

definition split_slot_id :: "string \<Rightarrow> (string \<times> string) res" where
  "split_slot_id s =
     (case split_at (CHR '':'') s of
        [kind, domain] \<Rightarrow>
          if kind \<notin> set KINDS \<or> domain = [] \<or> startswith RESERVED_DOMAIN domain
          then Inl (ValueError ''slot_id has an invalid kind or reserved domain'') else Inr (kind, domain)
      | _ \<Rightarrow> Inl (ValueError ''slot_id must have exactly one kind separator''))"

record existing_slot =
  ex_slot_id :: string
  ex_last_seen :: "string option"

definition mk_existing_slot :: "existing_slot \<Rightarrow> existing_slot res" where
  "mk_existing_slot e = rbind (split_slot_id (ex_slot_id e)) (\<lambda>_. Inr e)"

record slot_view =
  vw_slot_id :: string
  vw_description :: string
  vw_high_risk :: bool
  vw_note :: "string option"

subsection \<open>Text cut to a number of bytes\<close>

text \<open>\<open>s.encode()[:n].decode(errors="ignore")\<close>: a character cut in the middle is left out whole.\<close>

definition continuation :: "char \<Rightarrow> bool" where
  "continuation c \<longleftrightarrow> (let n = of_char c :: nat in 128 \<le> n \<and> n < 192)"

definition utf8_cut :: "nat \<Rightarrow> string \<Rightarrow> string" where
  "utf8_cut n s =
     (if length s \<le> n then s
      else if continuation (s ! n) then rev (tl (dropWhile continuation (rev (take n s)))) else take n s)"

lemma utf8_cut_prefix: "\<exists>k \<le> n. utf8_cut n s = take k s"
proof -
  define m where "m = length (takeWhile continuation (rev (take n s)))"
  have "rev (tl (dropWhile continuation (rev (take n s)))) = rev (drop (Suc m) (rev (take n s)))"
    by (simp add: m_def dropWhile_eq_drop tl_drop drop_Suc)
  also have "\<dots> = take (length (take n s) - Suc m) s" by (auto simp: rev_drop min_def)
  finally show ?thesis
    by (cases "length s \<le> n") (auto simp: utf8_cut_def intro: exI [of _ "length s"] exI [of _ "length (take n s) - Suc m"])
qed

lemma utf8_cut_length: "length (utf8_cut n s) \<le> n"
  using utf8_cut_prefix [of n s] by auto

subsection \<open>Calibration\<close>

record calibration_slice =
  cs_n_samples :: int
  cs_per_bin :: "int list"
  cs_mapping :: "(rat \<times> rat \<times> rat) list"
  cs_tau :: rat

definition require_quantized_float :: "pyfloat \<Rightarrow> string \<Rightarrow> rat res" where
  "require_quantized_float f field =
     (case f of Finite r \<Rightarrow> if quantized f then Inr r else Inl (ValueError field) | _ \<Rightarrow> Inl (ValueError field))"

definition mk_calibration_slice ::
  "int \<Rightarrow> int list \<Rightarrow> (pyfloat \<times> pyfloat \<times> pyfloat) list \<Rightarrow> pyfloat \<Rightarrow> calibration_slice res" where
  "mk_calibration_slice n bins rows tau =
     rbind (map_res (\<lambda>(l, h, c). rbind (require_quantized_float l ''low'') (\<lambda>low.
         rbind (require_quantized_float h ''high'') (\<lambda>high.
         rbind (require_quantized_float c ''calibrated'') (\<lambda>cal. Inr (low, high, cal))))) rows) (\<lambda>mapping.
     rbind (require_quantized_float tau ''tau'') (\<lambda>t.
       Inr \<lparr>cs_n_samples = n, cs_per_bin = bins, cs_mapping = mapping, cs_tau = t\<rparr>))"

record calibration_manifest =
  cm_version :: string
  cm_model_id :: string
  cm_prompt_hash :: string
  cm_registry_hash :: string
  cm_normalizer_hash :: string
  cm_blocking_hash :: string
  cm_code_version :: string
  cm_goldset_hashes :: "string list"
  cm_evidence_hash :: string
  cm_git_commit :: string
  cm_slices :: "(string \<times> calibration_slice) list"

definition mk_manifest :: "calibration_manifest \<Rightarrow> calibration_manifest res" where
  "mk_manifest m = (if cm_blocking_hash m = [] then Inl (ValueError ''blocking_rules_hash must be a non-empty string'') else Inr m)"

text \<open>The canonical text hashed for a manifest; \<open>float_text\<close> is the shortest text of a float.\<close>

definition slice_json :: "(rat \<Rightarrow> string) \<Rightarrow> calibration_slice \<Rightarrow> json" where
  "slice_json float_text s = JObj
     [(''n_samples'', JInt (cs_n_samples s)), (''per_bin'', JList (map JInt (cs_per_bin s))),
      (''mapping'', JList (map (\<lambda>(l, h, c). JList [JFloat (float_text l), JFloat (float_text h), JFloat (float_text c)]) (cs_mapping s))),
      (''tau'', JFloat (float_text (cs_tau s)))]"

definition manifest_json :: "(rat \<Rightarrow> string) \<Rightarrow> calibration_manifest \<Rightarrow> json" where
  "manifest_json float_text m = JObj
     [(''calibration_version'', JStr (cm_version m)), (''model_id'', JStr (cm_model_id m)),
      (''prompt_template_hash'', JStr (cm_prompt_hash m)), (''registry_hash'', JStr (cm_registry_hash m)),
      (''normalizer_rules_hash'', JStr (cm_normalizer_hash m)), (''blocking_rules_hash'', JStr (cm_blocking_hash m)),
      (''resolver_code_version'', JStr (cm_code_version m)),
      (''fitted_on_goldset_hashes'', JList (map JStr (cm_goldset_hashes m))),
      (''fitted_on_evidence_hash'', JStr (cm_evidence_hash m)), (''fitted_on_git_commit'', JStr (cm_git_commit m)),
      (''slices'', JObj (map (\<lambda>(k, s). (k, slice_json float_text s)) (cm_slices m)))]"

definition canonical_manifest_hash :: "(string \<Rightarrow> string) \<Rightarrow> (rat \<Rightarrow> string) \<Rightarrow> calibration_manifest \<Rightarrow> string" where
  "canonical_manifest_hash H float_text m = H (dumps_compact (manifest_json float_text m))"

record resolver_config =
  cf_llm_enabled :: bool
  cf_timeout_ms :: int
  cf_manifest :: "calibration_manifest option"
  cf_manifest_hash :: "string option"
  cf_evidence_hash :: "string option"

definition mk_config :: "resolver_config \<Rightarrow> resolver_config res" where
  "mk_config c =
     (if cf_timeout_ms c \<le> 0 then Inl (ValueError ''llm_enabled must be bool and timeout_ms must be positive'')
      else if cf_llm_enabled c \<and> cf_manifest c = None then Inl (ValueError ''llm_enabled requires a calibration manifest'')
      else if cf_manifest c = None \<and> cf_manifest_hash c \<noteq> None then Inl (ValueError ''manifest_hash requires a calibration manifest'')
      else Inr c)"

subsection \<open>The budget of a run\<close>

definition LLM_LEGS_RESERVED :: int where "LLM_LEGS_RESERVED = 2"

record run_budget =
  rb_max_calls :: int
  rb_calls_made :: int
  rb_seen_uids :: "string list"
  rb_seen_unresolved :: "(string \<times> string) list"

definition mk_budget :: "run_budget \<Rightarrow> run_budget res" where
  "mk_budget b =
     (if rb_max_calls b < 0 \<or> rb_calls_made b < 0 \<or> rb_calls_made b > rb_max_calls b
      then Inl (ValueError ''invalid run budget state'') else Inr b)"

subsection \<open>Receipts and decisions\<close>

record risk_evidence =
  re_matched :: "string list"
  re_domain_hit :: bool
  re_lexicon_hit :: bool

definition any_risk :: "risk_evidence \<Rightarrow> bool" where
  "any_risk e \<longleftrightarrow> re_matched e \<noteq> []"

record transport_attempt =
  ta_outcome :: string
  ta_latency :: int
  ta_excerpt :: json

record data_truncation =
  dt_value_orig :: nat
  dt_value_used :: nat
  dt_evidence_orig :: nat
  dt_evidence_used :: nat
  dt_truncated :: bool

record blocking_receipt =
  br_choice_set :: "string list"
  br_choice_hash :: string
  br_slice :: string
  br_forced :: "string list"

datatype raw_confidence = NoConf | FloatConf pyfloat | IntConf int | OtherConf

record suggestion =
  sg_choice :: json
  sg_confidence :: raw_confidence
  sg_attempts :: "transport_attempt list"

record llm_receipt =
  lr_model_id :: string
  lr_prompt_hash :: string
  lr_blocking :: blocking_receipt
  lr_attempts :: "transport_attempt list"
  lr_truncation :: data_truncation
  lr_raw_choice :: json
  lr_raw_confidence :: raw_confidence
  lr_calibrated :: "rat option"
  lr_violation :: "string option"

record version_stamp =
  vs_code :: string
  vs_registry_hash :: string
  vs_normalizer_hash :: string
  vs_blocking_hash :: string
  vs_normalizer :: string
  vs_calibration_hash :: "string option"

record resolve_decision =
  rd_action :: string
  rd_slot_id :: "string option"
  rd_unresolved_domain :: "string option"
  rd_unresolved :: bool
  rd_high_risk :: bool
  rd_risk_evidence :: risk_evidence
  rd_method :: string
  rd_confidence :: rat
  rd_outcome :: string
  rd_disabled_reason :: "string option"
  rd_blocking :: "blocking_receipt option"
  rd_llm :: "llm_receipt option"
  rd_guard_fired :: bool
  rd_versions :: version_stamp

definition mk_decision :: "resolve_decision \<Rightarrow> resolve_decision res" where
  "mk_decision d =
     (if rd_unresolved d \<noteq> (rd_action d = ''ABSTAIN_ADD'') then Inl (ValueError ''unresolved must exactly match ABSTAIN_ADD'')
      else if rd_action d = ''ABSTAIN_ADD'' \<and> (rd_slot_id d \<noteq> None \<or> rd_unresolved_domain d = None)
        then Inl (ValueError ''abstentions require only unresolved_domain'')
      else if rd_action d \<noteq> ''ABSTAIN_ADD'' \<and> (rd_slot_id d = None \<or> rd_unresolved_domain d \<noteq> None)
        then Inl (ValueError ''resolved decisions require only slot_id'')
      else if (rd_disabled_reason d \<noteq> None) \<noteq> (rd_outcome d = ''not_attempted_disabled'')
        then Inl (ValueError ''disabled_reason is only present for disabled fallback outcomes'')
      else Inr d)"

lemma mk_decision_eq: "mk_decision d = Inr d' \<Longrightarrow> d' = d"
  by (simp add: mk_decision_def split: if_split_asm)

end
