(* ===== verification/Resolver_Registry.thy ===== *)
theory Resolver_Registry
  imports Resolver_Normalize Resolver_Types
begin

text \<open>
  \<open>panella/resolver/registry.py\<close>: loading the slot registry, its taxonomy and its governance log.  A YAML file is
  the value its parser returns, or nothing when it cannot be read or parsed; SHA-256 is the parameter \<open>H\<close>.
\<close>

subsection \<open>The registry\<close>

definition MIN_REGISTRY_SLOTS :: nat where "MIN_REGISTRY_SLOTS = 90"

definition REQUIRED_SLOT_FIELDS :: "string list" where
  "REQUIRED_SLOT_FIELDS = [''id'', ''kind'', ''domain'', ''description'', ''high_risk'', ''aliases'', ''taxonomy_domain'', ''blocking_terms'']"

definition ALLOWED_SLOT_FIELDS :: "string list" where
  "ALLOWED_SLOT_FIELDS = REQUIRED_SLOT_FIELDS @ [''deny_neighbors'', ''hr_lexicon'']"

record registry_slot =
  sl_id :: string
  sl_kind :: string
  sl_domain :: string
  sl_description :: string
  sl_high_risk :: bool
  sl_aliases :: "string list"
  sl_deny :: "string list"
  sl_lexicon :: "string list"
  sl_note :: "string option"
  sl_taxonomy :: string
  sl_terms :: "string list"

record slot_registry =
  sr_version :: string
  sr_slots :: "registry_slot list"
  sr_content_hash :: string
  sr_slot_hash :: string
  sr_taxonomy_hash :: string
  sr_by_id :: "(string \<times> registry_slot) list"
  sr_alias_raw :: "(string \<times> registry_slot) list"
  sr_alias_folded :: "(string \<times> registry_slot) list"

subsection \<open>Hashes and documents\<close>

definition canonical_hash :: "(string \<Rightarrow> string) \<Rightarrow> dict \<Rightarrow> string" where
  "canonical_hash H d = H (dumps_compact (JObj d))"

definition composite_registry_hash :: "(string \<Rightarrow> string) \<Rightarrow> string \<Rightarrow> string \<Rightarrow> string res" where
  "composite_registry_hash H a b =
     (if length a \<noteq> 64 \<or> length b \<noteq> 64 then Inl (ValueError ''registry component hashes must be 64-character strings'')
      else Inr (H (a @ '':'' @ b)))"

definition slot_fail :: "string \<Rightarrow> 'a res" where
  "slot_fail m = Inl (ValueError (''invalid slot registry: '' @ m))"

definition load_document :: "string \<Rightarrow> json option \<Rightarrow> dict res" where
  "load_document label parsed =
     (case parsed of Some (JObj d) \<Rightarrow> Inr d
      | Some _ \<Rightarrow> Inl (ValueError (''invalid '' @ label @ '': root must be a mapping''))
      | None \<Rightarrow> Inl (ValueError (''invalid '' @ label @ '': cannot load'')))"

definition same_keys :: "dict \<Rightarrow> string list \<Rightarrow> bool" where
  "same_keys d ks \<longleftrightarrow> list_all (\<lambda>k. k \<in> set ks) (map fst d) \<and> list_all (\<lambda>k. k \<in> set (map fst d)) ks"

text \<open>The text of a value that must be a non-empty string.\<close>

definition filled :: "json option \<Rightarrow> string option" where
  "filled v = (case v of Some (JStr s) \<Rightarrow> if s = [] then None else Some s | _ \<Rightarrow> None)"

fun filled_all :: "json list \<Rightarrow> string list option" where
  "filled_all [] = Some []"
| "filled_all (v # vs) = (case (filled (Some v), filled_all vs) of (Some s, Some ss) \<Rightarrow> Some (s # ss) | _ \<Rightarrow> None)"

definition str_list :: "json \<Rightarrow> string \<Rightarrow> string \<Rightarrow> string list res" where
  "str_list v field i =
     (case (case v of JList vs \<Rightarrow> filled_all vs | _ \<Rightarrow> None) of
        None \<Rightarrow> slot_fail (i @ ''.'' @ field @ '' must be a list of non-empty strings'')
      | Some ss \<Rightarrow> if \<not> distinct ss then slot_fail (i @ ''.'' @ field @ '' contains duplicates'') else Inr ss)"

subsection \<open>The taxonomy\<close>

definition taxonomy_fail :: "string \<Rightarrow> 'a res" where
  "taxonomy_fail m = Inl (ValueError (''invalid taxonomy: '' @ m))"

definition taxonomy_domain :: "string \<times> json \<Rightarrow> (string \<times> int) res" where
  "taxonomy_domain item =
     (case item of (name, v) \<Rightarrow>
        (case object_items v of None \<Rightarrow> taxonomy_fail ''malformed domain descriptor''
         | Some d \<Rightarrow>
             if name = [] \<or> \<not> same_keys d [''min_slots'', ''provenance''] then taxonomy_fail ''malformed domain descriptor''
             else
               (case dget d ''min_slots'' of
                  Some (JInt n) \<Rightarrow>
                    if n < 1 then taxonomy_fail (name @ ''.min_slots must be a positive int'')
                    else
                      (case filled (dget d ''provenance'') of
                         Some p \<Rightarrow> if startswith ''generic:'' p \<or> startswith ''findings:'' p then Inr (name, n)
                                   else taxonomy_fail (name @ ''.provenance is invalid'')
                       | None \<Rightarrow> taxonomy_fail (name @ ''.provenance is invalid''))
                | _ \<Rightarrow> taxonomy_fail (name @ ''.min_slots must be a positive int''))))"

definition validate_taxonomy :: "dict \<Rightarrow> (string \<times> int) list res" where
  "validate_taxonomy d =
     (if \<not> same_keys d [''version'', ''domains''] \<or> filled (dget d ''version'') = None
      then taxonomy_fail ''root must contain exactly non-empty version and domains''
      else
        (case dget d ''domains'' of
           Some (JObj items) \<Rightarrow>
             if items = [] then taxonomy_fail ''domains must be a non-empty mapping''
             else rbind (map_res taxonomy_domain items) (\<lambda>ds.
               if sum_list (map snd ds) < int MIN_REGISTRY_SLOTS then taxonomy_fail ''minima must sum to at least 90''
               else Inr ds)
         | _ \<Rightarrow> taxonomy_fail ''domains must be a non-empty mapping''))"

subsection \<open>One slot\<close>

definition stop_hit :: "string \<Rightarrow> bool" where
  "stop_hit s \<longleftrightarrow> list_ex (\<lambda>t. t \<in> set BLOCKING_STOPWORDS) (tokens_of s)"

definition plain_name :: "string \<Rightarrow> bool" where
  "plain_name s \<longleftrightarrow> \<not> startswith RESERVED_DOMAIN s \<and> extractor_normalize_domain s = s"

definition content_words :: "string \<Rightarrow> string \<Rightarrow> string list" where
  "content_words description domain =
     remdups (filter (\<lambda>t. t \<notin> set SCORING_DROP \<and> t \<notin> set (tokens_of domain)) (tokens_of description))"

definition bad_term :: "string list \<Rightarrow> string \<Rightarrow> bool" where
  "bad_term surfaces t \<longleftrightarrow> t \<noteq> resolver_normalize t \<or> CHR ''_'' \<in> set t \<or> t \<in> set BLOCKING_STOPWORDS \<or> t \<in> set surfaces"

definition slot_names :: "dict \<Rightarrow> (string \<times> string \<times> string \<times> string) option" where
  "slot_names d =
     (case (filled (dget d ''id''), filled (dget d ''kind''), filled (dget d ''domain''), filled (dget d ''description'')) of
        (Some i, Some k, Some dm, Some desc) \<Rightarrow> Some (i, k, dm, desc) | _ \<Rightarrow> None)"

definition given :: "dict \<Rightarrow> string \<Rightarrow> json" where
  "given d k = (case dget d k of None \<Rightarrow> JList [] | Some v \<Rightarrow> v)"

text \<open>The checks of the lists of a slot, and the slot built from them.\<close>

definition slot_lists ::
  "dict \<Rightarrow> string \<Rightarrow> string \<Rightarrow> string \<Rightarrow> string \<Rightarrow> bool \<Rightarrow> string \<Rightarrow> string set \<Rightarrow> registry_slot res" where
  "slot_lists d i kind domain description hr tax known =
     rbind (str_list (given d ''aliases'') ''aliases'' i) (\<lambda>aliases.
     if list_ex (\<lambda>a. \<not> plain_name a) aliases then slot_fail (i @ '' has a non-canonical or reserved alias'')
     else if list_ex stop_hit aliases then slot_fail (i @ '' alias contains a blocking stopword'')
     else rbind (str_list (given d ''blocking_terms'') ''blocking_terms'' i) (\<lambda>terms.
       if length terms > 24 \<or> sort terms \<noteq> terms then slot_fail (i @ ''.blocking_terms must be sorted and capped'')
       else if list_ex (bad_term (tokens_of domain @ concat (map tokens_of aliases))) terms
         then slot_fail (i @ '' has an invalid blocking term'')
       else rbind (str_list (given d ''deny_neighbors'') ''deny_neighbors'' i) (\<lambda>deny.
            rbind (str_list (given d ''hr_lexicon'') ''hr_lexicon'' i) (\<lambda>lexicon.
         if length deny > 4 \<or> length lexicon > 8 then slot_fail (i @ '' exceeds a registry list limit'')
         else if hr \<and> lexicon = [] then slot_fail (i @ '' high-risk slots require hr_lexicon'')
         else if \<not> hr \<and> lexicon \<noteq> [] then slot_fail (i @ '' non-high-risk slot cannot define hr_lexicon'')
         else if i \<in> known then slot_fail (''duplicate id '' @ i)
         else Inr \<lparr>sl_id = i, sl_kind = kind, sl_domain = domain, sl_description = description, sl_high_risk = hr,
                sl_aliases = aliases, sl_deny = deny, sl_lexicon = lexicon,
                sl_note = (if deny = [] then None else Some (''Do not confuse with: '' @ join '', '' deny @ ''.'')),
                sl_taxonomy = tax, sl_terms = terms\<rparr>))))"

definition slot_of :: "(string \<times> int) list \<Rightarrow> string set \<Rightarrow> nat \<Rightarrow> json \<Rightarrow> registry_slot res" where
  "slot_of domains known index raw =
     (case object_items raw of None \<Rightarrow> slot_fail (''slot '' @ nat_str index @ '' must be a mapping'')
      | Some d \<Rightarrow>
          if \<not> list_all (\<lambda>k. k \<in> set (map fst d)) REQUIRED_SLOT_FIELDS \<or> \<not> list_all (\<lambda>k. k \<in> set ALLOWED_SLOT_FIELDS) (map fst d)
          then slot_fail (''slot '' @ nat_str index @ '' has missing or unsupported fields'')
          else
            (case slot_names d of None \<Rightarrow> slot_fail (''slot '' @ nat_str index @ '' has invalid string fields'')
             | Some (i, kind, domain, description) \<Rightarrow>
                 if length (content_words description domain) < 4 then slot_fail (i @ '' description has fewer than four content tokens'')
                 else if kind \<notin> set KINDS \<or> i \<noteq> kind @ '':'' @ domain then slot_fail (i @ '' must equal kind:domain'')
                 else
                   (case dget d ''taxonomy_domain'' of
                      Some (JStr tax) \<Rightarrow>
                        if tax \<notin> fst ` set domains then slot_fail (i @ ''.taxonomy_domain is unknown'')
                        else if \<not> plain_name domain \<or> resolver_normalize domain \<noteq> domain
                          then slot_fail (i @ '' has a non-canonical or reserved domain'')
                        else if stop_hit domain then slot_fail (i @ '' domain contains a blocking stopword'')
                        else (case dget d ''high_risk'' of
                                Some (JBool hr) \<Rightarrow> slot_lists d i kind domain description hr tax known
                              | _ \<Rightarrow> slot_fail (i @ ''.high_risk must be bool''))
                    | _ \<Rightarrow> slot_fail (i @ ''.taxonomy_domain is unknown''))))"

subsection \<open>All slots\<close>

definition surfaces :: "registry_slot \<Rightarrow> string list" where
  "surfaces s = sl_domain s # sl_aliases s"

definition setdefault :: "'k \<Rightarrow> 'v \<Rightarrow> ('k \<times> 'v) list \<Rightarrow> ('k \<times> 'v) list" where
  "setdefault k v d = (case dget d k of None \<Rightarrow> d @ [(k, v)] | Some _ \<Rightarrow> d)"

record registry_build =
  bd_slots :: "registry_slot list"
  bd_raw :: "(string \<times> string) list"
  bd_folded :: "(string \<times> string) list"

text \<open>Every surface of a slot, as written and folded, must not belong to another slot.\<close>

fun claim_surfaces :: "string \<Rightarrow> string list \<Rightarrow> registry_build \<Rightarrow> registry_build res" where
  "claim_surfaces i [] b = Inr b"
| "claim_surfaces i (s # ss) b =
     (let raw = setdefault s i (bd_raw b); folded = setdefault (resolver_normalize s) i (bd_folded b) in
      if dget raw s \<noteq> Some i \<or> dget folded (resolver_normalize s) \<noteq> Some i then slot_fail (''alias two-form collision for '' @ s)
      else claim_surfaces i ss (b\<lparr>bd_raw := raw, bd_folded := folded\<rparr>))"

definition add_slot :: "(string \<times> int) list \<Rightarrow> nat \<Rightarrow> json \<Rightarrow> registry_build \<Rightarrow> registry_build res" where
  "add_slot domains index raw b =
     rbind (slot_of domains (sl_id ` set (bd_slots b)) index raw) (\<lambda>s.
       claim_surfaces (sl_id s) (surfaces s) (b\<lparr>bd_slots := bd_slots b @ [s]\<rparr>))"

fun build_slots :: "(string \<times> int) list \<Rightarrow> nat \<Rightarrow> json list \<Rightarrow> registry_build \<Rightarrow> registry_build res" where
  "build_slots domains index [] b = Inr b"
| "build_slots domains index (raw # rest) b =
     rbind (add_slot domains index raw b) (\<lambda>b'. build_slots domains (Suc index) rest b')"

definition quota_missing :: "registry_slot list \<Rightarrow> string \<times> int \<Rightarrow> bool" where
  "quota_missing slots q \<longleftrightarrow> int (length (filter (\<lambda>s. sl_taxonomy s = fst q) slots)) < snd q"

definition dangling :: "registry_slot list \<Rightarrow> string \<Rightarrow> bool" where
  "dangling slots neighbor =
     (case dget (dict_update [] (map (\<lambda>s. (sl_domain s, s)) slots)) neighbor of None \<Rightarrow> True | Some t \<Rightarrow> sl_high_risk t)"

definition alias_pairs :: "(string \<Rightarrow> string) \<Rightarrow> registry_slot list \<Rightarrow> (string \<times> registry_slot) list" where
  "alias_pairs f slots = concat (map (\<lambda>s. map (\<lambda>a. (f a, s)) (sl_aliases s)) slots)"

definition registry_slots_of :: "(string \<times> int) list \<Rightarrow> json list \<Rightarrow> registry_slot list res" where
  "registry_slots_of domains raws =
     rbind (build_slots domains 0 raws \<lparr>bd_slots = [], bd_raw = [], bd_folded = []\<rparr>) (\<lambda>b.
     if list_ex (quota_missing (bd_slots b)) domains then slot_fail ''taxonomy domain has too few slots''
     else if list_ex (\<lambda>s. list_ex (dangling (bd_slots b)) (sl_deny s)) (bd_slots b)
       then slot_fail ''dangling or high-risk deny_neighbor''
     else Inr (bd_slots b))"

definition mk_registry :: "string \<Rightarrow> registry_slot list \<Rightarrow> string \<Rightarrow> string \<Rightarrow> string \<Rightarrow> slot_registry" where
  "mk_registry version slots content slot_hash taxonomy_hash =
     \<lparr>sr_version = version, sr_slots = slots, sr_content_hash = content, sr_slot_hash = slot_hash, sr_taxonomy_hash = taxonomy_hash,
      sr_by_id = map (\<lambda>s. (sl_id s, s)) slots, sr_alias_raw = dict_update [] (alias_pairs id slots),
      sr_alias_folded = dict_update [] (alias_pairs resolver_normalize slots)\<rparr>"

subsection \<open>The governance log\<close>

definition GOVERNANCE_OPS :: "string list" where
  "GOVERNANCE_OPS = [''add_alias'', ''remove_alias'', ''add_domain'', ''remove_domain'']"

definition GOVERNANCE_REASONS :: "string list" where
  "GOVERNANCE_REASONS = [''ambiguity'', ''retirement'', ''superseded_by_pair'']"

definition gov_fail :: "string \<Rightarrow> 'a res" where
  "gov_fail m = Inl (ValueError (''invalid alias governance: '' @ m))"

record governance_op =
  go_op :: string
  go_surface :: string
  go_slot :: string
  go_pair :: "string option"

definition is_add :: "string \<Rightarrow> bool" where
  "is_add op = startswith ''add_'' op"

definition op_fields :: "string \<Rightarrow> string list" where
  "op_fields op = (if is_add op then [''op'', ''surface'', ''to_slot'', ''rationale'']
     else [''op'', ''surface'', ''from_slot'', ''rationale'', ''reason''])"

definition op_allowed :: "string \<Rightarrow> string list" where
  "op_allowed op = op_fields op @ [''pair_id''] @ (if is_add op then [] else [''fixture_id''])"

text \<open>The reason of a removal, with its fixture and its pair.\<close>

definition removal_reason :: "(string \<Rightarrow> bool) \<Rightarrow> dict \<Rightarrow> string option \<Rightarrow> unit res" where
  "removal_reason is_file d pair =
     (case dget d ''reason'' of
        Some (JStr reason) \<Rightarrow>
          if reason \<notin> set GOVERNANCE_REASONS then gov_fail ''reason''
          else if reason = ''ambiguity'' \<and> (case filled (dget d ''fixture_id'') of None \<Rightarrow> True | Some f \<Rightarrow> \<not> is_file f)
            then gov_fail ''ambiguity requires an existing fixture_id''
          else if reason \<noteq> ''ambiguity'' \<and> (case dget d ''fixture_id'' of None \<Rightarrow> False | Some v \<Rightarrow> v \<noteq> JNull)
            then gov_fail ''fixture_id is limited to ambiguity''
          else if (pair \<noteq> None) \<noteq> (reason = ''superseded_by_pair'') then gov_fail ''paired removes require superseded_by_pair''
          else Inr ()
      | _ \<Rightarrow> gov_fail ''reason'')"

definition governance_entry :: "(string \<Rightarrow> bool) \<Rightarrow> governance_op list \<Rightarrow> json \<Rightarrow> governance_op res" where
  "governance_entry is_file seen entry =
     (case object_items entry of None \<Rightarrow> gov_fail ''op must be a mapping''
      | Some d \<Rightarrow>
          (case (filled (dget d ''op''), filled (dget d ''surface'')) of
             (Some op, Some surface) \<Rightarrow>
               if op \<notin> set GOVERNANCE_OPS then gov_fail ''op or surface''
               else if \<not> list_all (\<lambda>k. k \<in> set (op_allowed op)) (map fst d) \<or> \<not> list_all (\<lambda>k. k \<in> set (map fst d)) (op_fields op)
                 then gov_fail ''fields for op''
               else if filled (dget d ''rationale'') = None then gov_fail ''slot direction or rationale''
               else
                 (case filled (dget d (if is_add op then ''to_slot'' else ''from_slot'')) of
                    None \<Rightarrow> gov_fail ''slot id''
                  | Some slot \<Rightarrow>
                      if list_ex (\<lambda>g. go_op g = op \<and> go_surface g = surface \<and> go_slot g = slot) seen then gov_fail ''duplicate delta key''
                      else
                        (let pair = dget d ''pair_id'' in
                         if pair \<noteq> None \<and> pair \<noteq> Some JNull \<and> filled pair = None then gov_fail ''pair_id''
                         else rbind (if is_add op then Inr () else removal_reason is_file d (filled pair)) (\<lambda>_.
                           Inr \<lparr>go_op = op, go_surface = surface, go_slot = slot, go_pair = filled pair\<rparr>)))
           | _ \<Rightarrow> gov_fail ''op or surface''))"

fun governance_entries :: "(string \<Rightarrow> bool) \<Rightarrow> governance_op list \<Rightarrow> json list \<Rightarrow> governance_op list res" where
  "governance_entries is_file seen [] = Inr seen"
| "governance_entries is_file seen (e # es) =
     rbind (governance_entry is_file seen e) (\<lambda>g. governance_entries is_file (seen @ [g]) es)"

definition family :: "governance_op \<Rightarrow> string" where
  "family g = (case after_first (CHR ''_'') (go_op g) of None \<Rightarrow> [] | Some f \<Rightarrow> f)"

definition pair_broken :: "governance_op list \<Rightarrow> string \<Rightarrow> bool" where
  "pair_broken ops p =
     (case filter (\<lambda>g. go_pair g = Some p) ops of
        [g, h] \<Rightarrow> is_add (go_op g) = is_add (go_op h) \<or> family g \<noteq> family h \<or> (go_surface g \<noteq> go_surface h \<and> go_slot g \<noteq> go_slot h)
      | _ \<Rightarrow> True)"

text \<open>What a registry document binds: its domains and aliases with their slots.\<close>

definition slot_projection :: "json \<Rightarrow> (string \<times> string \<times> string) list res" where
  "slot_projection v =
     (case object_items v of None \<Rightarrow> gov_fail ''diff document slot''
      | Some d \<Rightarrow>
          (case (dget d ''id'', dget d ''domain'', dget d ''aliases'') of
             (Some (JStr i), Some (JStr domain), Some (JList aliases)) \<Rightarrow>
               Inr ((''domain'', domain, i) # concat (map (\<lambda>a. case a of JStr s \<Rightarrow> [(''alias'', s, i)] | _ \<Rightarrow> []) aliases))
           | _ \<Rightarrow> gov_fail ''diff document slot''))"

definition projection :: "dict \<Rightarrow> (string \<times> string \<times> string) list res" where
  "projection d =
     (case dget d ''slots'' of Some (JList slots) \<Rightarrow> rbind (map_res slot_projection slots) (\<lambda>ps. Inr (concat ps))
      | _ \<Rightarrow> gov_fail ''diff document slots'')"

definition expected_ops :: "(string \<times> string \<times> string) list \<Rightarrow> (string \<times> string \<times> string) list \<Rightarrow> (string \<times> string \<times> string) set" where
  "expected_ops base cur = (\<lambda>(f, s, i). (''remove_'' @ f, s, i)) ` (set base - set cur) \<union> (\<lambda>(f, s, i). (''add_'' @ f, s, i)) ` (set cur - set base)"

definition op_key :: "governance_op \<Rightarrow> string \<times> string \<times> string" where
  "op_key g = (go_op g, go_surface g, go_slot g)"

definition reconcile_diff :: "dict option \<Rightarrow> dict option \<Rightarrow> governance_op list \<Rightarrow> unit res" where
  "reconcile_diff baseline current ops =
     (case (baseline, current) of
        (None, None) \<Rightarrow> Inr ()
      | (Some b, Some c) \<Rightarrow>
          rbind (projection b) (\<lambda>base. rbind (projection c) (\<lambda>cur.
            if op_key ` set ops \<noteq> expected_ops base cur then gov_fail ''operations are not a bijection to alias/domain diff'' else Inr ()))
      | _ \<Rightarrow> gov_fail ''baseline and current documents are required together'')"

definition hex_text :: "string \<Rightarrow> bool" where
  "hex_text s \<longleftrightarrow> length s = 64 \<and> list_all (\<lambda>c. c \<in> set ''0123456789abcdef'') s"

definition validate_alias_governance ::
  "(string \<Rightarrow> bool) \<Rightarrow> dict option \<Rightarrow> dict option \<Rightarrow> dict \<Rightarrow> governance_op list res" where
  "validate_alias_governance is_file baseline current d =
     (if \<not> same_keys d [''baseline_registry_hash'', ''ops''] then gov_fail ''root fields''
      else if (case dget d ''baseline_registry_hash'' of Some (JStr h) \<Rightarrow> \<not> hex_text h | _ \<Rightarrow> True) then gov_fail ''baseline_registry_hash''
      else
        (case dget d ''ops'' of
           Some (JList entries) \<Rightarrow>
             rbind (governance_entries is_file [] entries) (\<lambda>ops.
             if list_ex (pair_broken ops) (concat (map (\<lambda>g. case go_pair g of None \<Rightarrow> [] | Some p \<Rightarrow> [p]) ops))
             then gov_fail ''pair must have one add and one remove of one family with a shared surface or slot''
             else rbind (reconcile_diff baseline current ops) (\<lambda>_. Inr ops))
         | _ \<Rightarrow> gov_fail ''ops''))"

subsection \<open>Loading\<close>

definition load_governance_log :: "(string \<Rightarrow> bool) \<Rightarrow> json option option \<Rightarrow> governance_op list res" where
  "load_governance_log is_file file =
     (case file of None \<Rightarrow> Inr []
      | Some f \<Rightarrow> rbind (load_document ''alias governance'' f) (validate_alias_governance is_file None None))"

definition load_slots ::
  "(string \<Rightarrow> string) \<Rightarrow> (string \<Rightarrow> bool) \<Rightarrow> string option \<Rightarrow> dict \<Rightarrow> dict \<Rightarrow> json option option \<Rightarrow> string \<Rightarrow> json list \<Rightarrow>
   slot_registry res" where
  "load_slots H is_file expected_hash d t governance_file version raws =
     rbind (validate_taxonomy t) (\<lambda>domains.
     rbind (composite_registry_hash H (canonical_hash H d) (canonical_hash H t)) (\<lambda>content.
     if expected_hash \<noteq> None \<and> expected_hash \<noteq> Some content then slot_fail ''content hash does not match the pin''
     else if length raws < MIN_REGISTRY_SLOTS then slot_fail ''registry must contain at least 90 slots''
     else rbind (registry_slots_of domains raws) (\<lambda>sls.
          rbind (load_governance_log is_file governance_file) (\<lambda>_.
            Inr (mk_registry version sls content (canonical_hash H d) (canonical_hash H t))))))"

definition load_registry ::
  "(string \<Rightarrow> string) \<Rightarrow> (string \<Rightarrow> bool) \<Rightarrow> string option \<Rightarrow> json option \<Rightarrow> json option \<Rightarrow> json option option \<Rightarrow> slot_registry res" where
  "load_registry H is_file expected_hash registry_file taxonomy_file governance_file =
     rbind (load_document ''slot registry'' registry_file) (\<lambda>d.
     rbind (load_document ''taxonomy'' taxonomy_file) (\<lambda>t.
     case filled (dget d ''version'') of
       None \<Rightarrow> slot_fail ''root must contain exactly non-empty version and slots''
     | Some version \<Rightarrow>
         if \<not> same_keys d [''version'', ''slots''] then slot_fail ''root must contain exactly non-empty version and slots''
         else (case dget d ''slots'' of
                 Some (JList raws) \<Rightarrow> load_slots H is_file expected_hash d t governance_file version raws
               | _ \<Rightarrow> slot_fail ''slots must be a list'')))"

subsection \<open>What a loaded registry satisfies\<close>

definition slot_ok :: "registry_slot \<Rightarrow> bool" where
  "slot_ok s \<longleftrightarrow> sl_kind s \<in> set KINDS \<and> sl_id s = sl_kind s @ '':'' @ sl_domain s \<and> resolver_normalize (sl_domain s) = sl_domain s \<and>
     \<not> startswith RESERVED_DOMAIN (sl_domain s) \<and> (sl_high_risk s \<longleftrightarrow> sl_lexicon s \<noteq> []) \<and>
     length (sl_lexicon s) \<le> 8 \<and> length (sl_deny s) \<le> 4 \<and> length (sl_terms s) \<le> 24 \<and> sorted (sl_terms s)"

lemma slot_lists_ok:
  assumes "slot_lists d i kind domain description hr tax known = Inr s"
  shows "sl_id s = i \<and> sl_kind s = kind \<and> sl_domain s = domain \<and> sl_high_risk s = hr \<and> sl_taxonomy s = tax \<and> i \<notin> known \<and>
    (hr \<longleftrightarrow> sl_lexicon s \<noteq> []) \<and> length (sl_lexicon s) \<le> 8 \<and> length (sl_deny s) \<le> 4 \<and> length (sl_terms s) \<le> 24 \<and>
    sort (sl_terms s) = sl_terms s"
  using assms by (auto simp: slot_lists_def slot_fail_def rbind_Inr_iff split: if_split_asm)

lemma slot_of_ok:
  assumes "slot_of domains known index raw = Inr s"
  shows "slot_ok s \<and> sl_id s \<notin> known \<and> sl_taxonomy s \<in> fst ` set domains"
proof -
  obtain d i kind domain description tax hr where
      names: "kind \<in> set KINDS" "i = kind @ '':'' @ domain" "tax \<in> fst ` set domains" "plain_name domain" "resolver_normalize domain = domain"
    and l: "slot_lists d i kind domain description hr tax known = Inr s"
    using assms by (auto simp: slot_of_def slot_fail_def split: option.split_asm if_split_asm prod.split_asm json.split_asm)
  from slot_lists_ok [OF l] names sorted_sort [of "sl_terms s"] show ?thesis
    by (auto simp: slot_ok_def plain_name_def)
qed

lemma dget_setdefault: "dget (setdefault k v d) k' = (if k' = k \<and> dget d k = None then Some v else dget d k')"
  by (auto simp: setdefault_def map_add_def split: option.split)

text \<open>A claimed surface stays with its slot.\<close>

definition extends :: "registry_build \<Rightarrow> registry_build \<Rightarrow> bool" where
  "extends b b' \<longleftrightarrow> (\<forall>k i. dget (bd_raw b) k = Some i \<longrightarrow> dget (bd_raw b') k = Some i) \<and>
     (\<forall>k i. dget (bd_folded b) k = Some i \<longrightarrow> dget (bd_folded b') k = Some i)"

lemma extends_refl: "extends b b"
  by (simp add: extends_def)

lemma extends_trans: "extends a b \<Longrightarrow> extends b c \<Longrightarrow> extends a c"
  by (simp add: extends_def)

lemma claim_surfaces_ok:
  assumes "claim_surfaces i ss b = Inr b'"
  shows "bd_slots b' = bd_slots b \<and> extends b b' \<and>
    (\<forall>s \<in> set ss. dget (bd_raw b') s = Some i \<and> dget (bd_folded b') (resolver_normalize s) = Some i)"
  using assms
proof (induction ss arbitrary: b)
  case (Cons s ss)
  define b1 where "b1 = b\<lparr>bd_raw := setdefault s i (bd_raw b), bd_folded := setdefault (resolver_normalize s) i (bd_folded b)\<rparr>"
  have got: "dget (bd_raw b1) s = Some i" "dget (bd_folded b1) (resolver_normalize s) = Some i"
    and r: "claim_surfaces i ss b1 = Inr b'"
    using Cons.prems by (auto simp: Let_def b1_def slot_fail_def split: if_split_asm)
  have e: "extends b b1" by (auto simp: extends_def b1_def dget_setdefault)
  have "bd_slots b1 = bd_slots b" by (simp add: b1_def)
  moreover note ih = Cons.IH [OF r]
  moreover have "extends b b'" using extends_trans [OF e] ih by blast
  moreover have "dget (bd_raw b') s = Some i \<and> dget (bd_folded b') (resolver_normalize s) = Some i"
    using ih got unfolding extends_def by blast
  ultimately show ?case by simp
qed (simp add: extends_refl)

definition build_ok :: "(string \<times> int) list \<Rightarrow> registry_build \<Rightarrow> bool" where
  "build_ok domains b \<longleftrightarrow> distinct (map sl_id (bd_slots b)) \<and>
     (\<forall>s \<in> set (bd_slots b). slot_ok s \<and> sl_taxonomy s \<in> fst ` set domains \<and>
        (\<forall>a \<in> set (surfaces s). dget (bd_raw b) a = Some (sl_id s) \<and> dget (bd_folded b) (resolver_normalize a) = Some (sl_id s)))"

lemma add_slot_ok:
  assumes "add_slot domains index raw b = Inr b'" and "build_ok domains b"
  shows "build_ok domains b'"
proof -
  obtain s where s: "slot_of domains (sl_id ` set (bd_slots b)) index raw = Inr s"
    and c: "claim_surfaces (sl_id s) (surfaces s) (b\<lparr>bd_slots := bd_slots b @ [s]\<rparr>) = Inr b'"
    using assms(1) by (auto simp: add_slot_def rbind_Inr_iff)
  note so = slot_of_ok [OF s] and co = claim_surfaces_ok [OF c]
  have "bd_slots b' = bd_slots b @ [s]" using co by simp
  moreover have "extends b b'" using co by (simp add: extends_def)
  ultimately show ?thesis using assms(2) so co unfolding build_ok_def extends_def by auto
qed

lemma build_slots_ok: "build_slots domains index raws b = Inr b' \<Longrightarrow> build_ok domains b \<Longrightarrow> build_ok domains b'"
proof (induction raws arbitrary: index b)
  case (Cons raw raws)
  then show ?case using add_slot_ok by (auto simp: rbind_Inr_iff)
qed simp

definition registry_ok :: "slot_registry \<Rightarrow> bool" where
  "registry_ok r \<longleftrightarrow> distinct (map sl_id (sr_slots r)) \<and> (\<forall>s \<in> set (sr_slots r). slot_ok s) \<and>
     (\<forall>s \<in> set (sr_slots r). \<forall>t \<in> set (sr_slots r). \<forall>a \<in> set (surfaces s). \<forall>b \<in> set (surfaces t).
        resolver_normalize a = resolver_normalize b \<longrightarrow> s = t) \<and>
     (\<forall>i s. dget (sr_by_id r) i = Some s \<longleftrightarrow> s \<in> set (sr_slots r) \<and> sl_id s = i) \<and>
     (\<forall>a s. dget (sr_alias_raw r) a = Some s \<longleftrightarrow> s \<in> set (sr_slots r) \<and> a \<in> set (sl_aliases s)) \<and>
     (\<forall>f s. dget (sr_alias_folded r) f = Some s \<longleftrightarrow> s \<in> set (sr_slots r) \<and> f \<in> resolver_normalize ` set (sl_aliases s))"

lemma dget_by_id: "distinct (map sl_id slots) \<Longrightarrow> dget (map (\<lambda>s. (sl_id s, s)) slots) i = Some s \<longleftrightarrow> s \<in> set slots \<and> sl_id s = i"
  by (induction slots) (auto simp: image_iff)

lemma dict_update_last: "dget (dict_update d ps) k = (case dget (rev ps) k of None \<Rightarrow> dget d k | Some v \<Rightarrow> Some v)"
  by (induction ps arbitrary: d) (auto simp: dict_simps map_add_def split: option.split)

lemma dget_single_valued:
  assumes "\<And>v w. (k, v) \<in> set ps \<Longrightarrow> (k, w) \<in> set ps \<Longrightarrow> v = w"
  shows "dget (dict_update [] ps) k = Some v \<longleftrightarrow> (k, v) \<in> set ps"
proof
  show "dget (dict_update [] ps) k = Some v \<Longrightarrow> (k, v) \<in> set ps"
    by (auto simp: dict_update_last split: option.split_asm dest: map_of_SomeD)
  assume v: "(k, v) \<in> set ps"
  then have "dget (rev ps) k \<noteq> None" by (metis map_of_eq_None_iff set_rev image_eqI fst_conv)
  then obtain w where w: "dget (rev ps) k = Some w" by blast
  then have "(k, w) \<in> set ps" by (auto dest: map_of_SomeD)
  with assms v w show "dget (dict_update [] ps) k = Some v" by (simp add: dict_update_last)
qed

lemma alias_pairs_set: "(k, s) \<in> set (alias_pairs f slots) \<longleftrightarrow> s \<in> set slots \<and> k \<in> f ` set (sl_aliases s)"
  by (auto simp: alias_pairs_def)

lemma build_registry_ok:
  assumes "build_ok domains b"
  shows "registry_ok (mk_registry version (bd_slots b) content h1 h2)"
proof -
  have d: "distinct (map sl_id (bd_slots b))" using assms by (simp add: build_ok_def)
  have folded: "dget (bd_folded b) (resolver_normalize a) = Some (sl_id s)" if "s \<in> set (bd_slots b)" "a \<in> set (surfaces s)" for a s
    using assms that by (auto simp: build_ok_def)
  have one: "s = t" if "s \<in> set (bd_slots b)" "t \<in> set (bd_slots b)" "a \<in> set (surfaces s)" "c \<in> set (surfaces t)"
      "resolver_normalize a = resolver_normalize c" for s t a c
  proof -
    have "sl_id s = sl_id t" using folded [OF that(1,3)] folded [OF that(2,4)] that(5) by simp
    then show ?thesis using d that(1,2) by (metis distinct_map inj_onD)
  qed
  have raw: "dget (dict_update [] (alias_pairs id (bd_slots b))) a = Some s \<longleftrightarrow> s \<in> set (bd_slots b) \<and> a \<in> set (sl_aliases s)" for a s
    by (subst dget_single_valued) (auto simp: alias_pairs_set surfaces_def intro: one)
  have fol: "dget (dict_update [] (alias_pairs resolver_normalize (bd_slots b))) f = Some s \<longleftrightarrow>
      s \<in> set (bd_slots b) \<and> f \<in> resolver_normalize ` set (sl_aliases s)" for f s
    by (subst dget_single_valued) (auto simp: alias_pairs_set surfaces_def intro: one)
  show ?thesis
    unfolding registry_ok_def mk_registry_def
    using d assms dget_by_id [OF d] raw fol one by (auto simp: build_ok_def)
qed

lemma build_slots_length: "build_slots domains index raws b = Inr b' \<Longrightarrow> length (bd_slots b') = length (bd_slots b) + length raws"
proof (induction raws arbitrary: index b)
  case (Cons raw raws)
  obtain b1 where a: "add_slot domains index raw b = Inr b1" and r: "build_slots domains (Suc index) raws b1 = Inr b'"
    using Cons.prems by (auto simp: rbind_Inr_iff)
  from a obtain s where "claim_surfaces (sl_id s) (surfaces s) (b\<lparr>bd_slots := bd_slots b @ [s]\<rparr>) = Inr b1"
    by (auto simp: add_slot_def rbind_Inr_iff)
  from claim_surfaces_ok [OF this] Cons.IH [OF r] show ?case by simp
qed simp

lemma registry_slots_ok:
  assumes "registry_slots_of domains raws = Inr slots"
  shows "\<exists>b. slots = bd_slots b \<and> build_ok domains b \<and> length slots = length raws"
proof -
  obtain b where b: "build_slots domains 0 raws \<lparr>bd_slots = [], bd_raw = [], bd_folded = []\<rparr> = Inr b" "slots = bd_slots b"
    using assms by (auto simp: registry_slots_of_def slot_fail_def rbind_Inr_iff split: if_split_asm)
  have "build_ok domains b" by (rule build_slots_ok [OF b(1)]) (simp add: build_ok_def)
  with b(2) build_slots_length [OF b(1)] show ?thesis by auto
qed

lemma not_dangling:
  assumes "\<not> dangling slots n"
  shows "\<exists>t \<in> set slots. sl_domain t = n \<and> \<not> sl_high_risk t"
  using assms by (auto simp: dangling_def dict_update_last split: option.split_asm dest!: map_of_SomeD)

text \<open>
  C37: a registry that loads is unambiguous.  Ids are distinct and are kind and domain; the domain is its own normal
  form; a surface, as written or folded, belongs to one slot, and the three tables find exactly that slot.  A slot is
  of high risk exactly when it has words that betray it; every neighbour it warns of is a slot of low risk; every
  taxonomy domain has its minimum.
\<close>

theorem registry_unambiguous:
  assumes "registry_slots_of domains raws = Inr slots"
  shows "registry_ok (mk_registry version slots content h1 h2) \<and> length slots = length raws \<and>
    (\<forall>s \<in> set slots. sl_taxonomy s \<in> fst ` set domains \<and>
       (\<forall>n \<in> set (sl_deny s). \<exists>t \<in> set slots. sl_domain t = n \<and> \<not> sl_high_risk t)) \<and>
    (\<forall>q \<in> set domains. snd q \<le> int (length (filter (\<lambda>s. sl_taxonomy s = fst q) slots)))"
proof -
  obtain b where b: "slots = bd_slots b" and ok: "build_ok domains b" and len: "length slots = length raws"
    using registry_slots_ok [OF assms] by blast
  have q: "\<not> list_ex (quota_missing slots) domains" and n: "\<not> list_ex (\<lambda>s. list_ex (dangling slots) (sl_deny s)) slots"
    using assms by (auto simp: registry_slots_of_def slot_fail_def rbind_Inr_iff split: if_split_asm)
  have "\<forall>q \<in> set domains. snd q \<le> int (length (filter (\<lambda>s. sl_taxonomy s = fst q) slots))"
    using q by (auto simp: list_ex_iff quota_missing_def not_less)
  moreover have "\<exists>t \<in> set slots. sl_domain t = m \<and> \<not> sl_high_risk t" if "s \<in> set slots" "m \<in> set (sl_deny s)" for s m
    using n that by (intro not_dangling) (auto simp: list_ex_iff)
  moreover have "sl_taxonomy s \<in> fst ` set domains" if "s \<in> set slots" for s
    using ok that b by (auto simp: build_ok_def)
  ultimately show ?thesis using build_registry_ok [OF ok] b len by blast
qed

lemma load_registry_parts:
  assumes "load_registry H is_file expected rf tf gf = Inr r"
  shows "\<exists>domains raws. registry_slots_of domains raws = Inr (sr_slots r) \<and> MIN_REGISTRY_SLOTS \<le> length raws \<and>
    r = mk_registry (sr_version r) (sr_slots r) (sr_content_hash r) (sr_slot_hash r) (sr_taxonomy_hash r) \<and>
    (expected = None \<or> expected = Some (sr_content_hash r))"
proof -
  obtain d t where "(case filled (dget d ''version'') of
       None \<Rightarrow> slot_fail ''root must contain exactly non-empty version and slots''
     | Some version \<Rightarrow>
         if \<not> same_keys d [''version'', ''slots''] then slot_fail ''root must contain exactly non-empty version and slots''
         else (case dget d ''slots'' of
                 Some (JList raws) \<Rightarrow> load_slots H is_file expected d t gf version raws
               | _ \<Rightarrow> slot_fail ''slots must be a list'')) = Inr r"
    using assms unfolding load_registry_def rbind_Inr_iff by blast
  then obtain version raws where "load_slots H is_file expected d t gf version raws = Inr r"
    by (auto simp: slot_fail_def split: option.split_asm if_split_asm json.split_asm)
  then show ?thesis
    unfolding load_slots_def rbind_Inr_iff by (fastforce simp: slot_fail_def rbind_Inr_iff mk_registry_def not_less split: if_split_asm)
qed

text \<open>The changes a governance log states.\<close>

definition changes :: "bool \<Rightarrow> governance_op list \<Rightarrow> (string \<times> string \<times> string) set" where
  "changes adding ops = (\<lambda>g. (family g, go_surface g, go_slot g)) ` {g \<in> set ops. is_add (go_op g) = adding}"

lemma family_prefixes:
  "go_op g = ''remove_'' @ f \<Longrightarrow> family g = f \<and> \<not> is_add (go_op g)"
  "go_op g = ''add_'' @ f \<Longrightarrow> family g = f \<and> is_add (go_op g)"
  by (simp_all add: family_def after_first_def is_add_def)

lemma changes_expected:
  assumes "op_key ` set ops = expected_ops base cur"
  shows "changes False ops = set base - set cur \<and> changes True ops = set cur - set base"
proof -
  have g: "op_key g = (''remove_'' @ f, s, i) \<Longrightarrow> (family g, go_surface g, go_slot g) = (f, s, i) \<and> \<not> is_add (go_op g)"
      "op_key g = (''add_'' @ f, s, i) \<Longrightarrow> (family g, go_surface g, go_slot g) = (f, s, i) \<and> is_add (go_op g)" for g f s i
    using family_prefixes by (auto simp: op_key_def)
  have one: "(\<exists>x \<in> set base - set cur. x = (family g, go_surface g, go_slot g) \<and> \<not> is_add (go_op g)) \<or>
      (\<exists>x \<in> set cur - set base. x = (family g, go_surface g, go_slot g) \<and> is_add (go_op g))" if "g \<in> set ops" for g
  proof -
    have "op_key g \<in> expected_ops base cur" using assms that by blast
    then consider f s i where "(f, s, i) \<in> set base - set cur" "op_key g = (''remove_'' @ f, s, i)"
      | f s i where "(f, s, i) \<in> set cur - set base" "op_key g = (''add_'' @ f, s, i)"
      by (auto simp: expected_ops_def)
    then show ?thesis by cases (use g in metis)+
  qed
  have r1: "(f, s, i) \<in> changes False ops" if "(f, s, i) \<in> set base - set cur" for f s i
  proof -
    have "(''remove_'' @ f, s, i) \<in> expected_ops base cur"
      unfolding expected_ops_def by (rule UnI1, rule image_eqI [of _ _ "(f, s, i)"]) (use that in simp_all)
    then obtain h where h: "h \<in> set ops" "op_key h = (''remove_'' @ f, s, i)"
      unfolding assms [symmetric] by (elim imageE) (rule that, assumption, erule sym)
    note gh = g(1) [OF h(2)]
    show ?thesis unfolding changes_def by (rule image_eqI [of _ _ h], rule gh [THEN conjunct1, symmetric]) (simp add: h(1) gh)
  qed
  have a1: "(f, s, i) \<in> changes True ops" if "(f, s, i) \<in> set cur - set base" for f s i
  proof -
    have "(''add_'' @ f, s, i) \<in> expected_ops base cur"
      unfolding expected_ops_def by (rule UnI2, rule image_eqI [of _ _ "(f, s, i)"]) (use that in simp_all)
    then obtain h where h: "h \<in> set ops" "op_key h = (''add_'' @ f, s, i)"
      unfolding assms [symmetric] by (elim imageE) (rule that, assumption, erule sym)
    note gh = g(2) [OF h(2)]
    show ?thesis unfolding changes_def by (rule image_eqI [of _ _ h], rule gh [THEN conjunct1, symmetric]) (simp add: h(1) gh)
  qed
  have r2: "x \<in> set base - set cur" if "x \<in> changes False ops" for x
    using that one unfolding changes_def by blast
  have a2: "x \<in> set cur - set base" if "x \<in> changes True ops" for x
    using that one unfolding changes_def by blast
  have "changes False ops = set base - set cur"
    by (intro equalityI subsetI, erule r2) (metis prod_cases3 r1)
  moreover have "changes True ops = set cur - set base"
    by (intro equalityI subsetI, erule a2) (metis prod_cases3 a1)
  ultimately show ?thesis ..
qed

text \<open>
  A governance log that validates against two registry documents is exactly the difference between them: taking
  its removals from the bindings of the older one and adding its additions gives those of the newer one, it removes
  only what was there and adds only what was not, and no change appears twice.
\<close>

theorem governance_is_the_diff:
  assumes "validate_alias_governance is_file (Some b) (Some c) d = Inr ops"
  shows "\<exists>base cur. projection b = Inr base \<and> projection c = Inr cur \<and>
    set cur = (set base - changes False ops) \<union> changes True ops \<and>
    changes False ops \<subseteq> set base \<and> changes True ops \<inter> set base = {} \<and> distinct (map op_key ops)"
proof -
  obtain entries base cur where e: "governance_entries is_file [] entries = Inr ops"
      and p: "projection b = Inr base" "projection c = Inr cur" and k: "op_key ` set ops = expected_ops base cur"
    using assms
    by (auto simp: validate_alias_governance_def gov_fail_def reconcile_diff_def rbind_Inr_iff
        split: if_split_asm option.split_asm json.split_asm)
  have new: "go_op g = fst (op_key g)" "governance_entry is_file seen x = Inr g \<Longrightarrow> op_key g \<notin> op_key ` set seen" for g seen x
    by (auto simp: op_key_def governance_entry_def gov_fail_def rbind_Inr_iff list_ex_iff Let_def
        split: option.split_asm if_split_asm)
  have "governance_entries is_file seen es = Inr os \<Longrightarrow> distinct (map op_key seen) \<Longrightarrow> distinct (map op_key os)" for seen es os
  proof (induction es arbitrary: seen)
    case (Cons x es)
    then show ?case using new(2) by (fastforce simp: rbind_Inr_iff)
  qed simp
  then have "distinct (map op_key ops)" using e by force
  then show ?thesis using p changes_expected [OF k] by auto
qed

subsection \<open>A registry of two slots\<close>

definition sample_raw :: "string \<Rightarrow> string \<Rightarrow> bool \<Rightarrow> string list \<Rightarrow> string list \<Rightarrow> json" where
  "sample_raw kind domain hr aliases lexicon = JObj
     [(''id'', JStr (kind @ '':'' @ domain)), (''kind'', JStr kind), (''domain'', JStr domain),
      (''description'', JStr ''stone river cloud forest''), (''high_risk'', JBool hr), (''aliases'', JList (map JStr aliases)),
      (''taxonomy_domain'', JStr ''health''), (''blocking_terms'', JList []), (''hr_lexicon'', JList (map JStr lexicon))]"

definition sample_raws :: "json list" where
  "sample_raws = [sample_raw ''preference'' ''diet'' False [''food''] [], sample_raw ''fact'' ''allergy'' True [''allergen''] [''allerg'']]"

definition slot_diet :: registry_slot where
  "slot_diet = \<lparr>sl_id = ''preference:diet'', sl_kind = ''preference'', sl_domain = ''diet'', sl_description = ''stone river cloud forest'',
     sl_high_risk = False, sl_aliases = [''food''], sl_deny = [], sl_lexicon = [], sl_note = None, sl_taxonomy = ''health'', sl_terms = []\<rparr>"

definition slot_allergy :: registry_slot where
  "slot_allergy = \<lparr>sl_id = ''fact:allergy'', sl_kind = ''fact'', sl_domain = ''allergy'', sl_description = ''stone river cloud forest'',
     sl_high_risk = True, sl_aliases = [''allergen''], sl_deny = [], sl_lexicon = [''allerg''], sl_note = None, sl_taxonomy = ''health'',
     sl_terms = []\<rparr>"

lemma sample_slots: "registry_slots_of [(''health'', 2)] sample_raws = Inr [slot_diet, slot_allergy]"
  by code_simp

definition sample_registry :: slot_registry where
  "sample_registry = mk_registry ''2'' [slot_diet, slot_allergy] ''c'' ''a'' ''b''"

lemma sample_registry_ok: "registry_ok sample_registry"
  using registry_slots_ok [OF sample_slots] build_registry_ok by (auto simp: sample_registry_def)

theorem registry_unambiguous_witness:
  "registry_ok (mk_registry ''2'' [slot_diet, slot_allergy] ''c'' ''a'' ''b'')"
  using registry_unambiguous [OF sample_slots] by blast

definition sample_governance :: dict where
  "sample_governance = [(''baseline_registry_hash'', JStr (replicate 64 (CHR ''0''))),
     (''ops'', JList [JObj [(''op'', JStr ''add_alias''), (''surface'', JStr ''food''), (''to_slot'', JStr ''preference:diet''),
        (''rationale'', JStr ''common word'')]])]"

definition sample_slots_doc :: "json list \<Rightarrow> dict" where
  "sample_slots_doc aliases = [(''slots'', JList [JObj [(''id'', JStr ''preference:diet''), (''domain'', JStr ''diet''), (''aliases'', JList aliases)]])]"

definition sample_op :: governance_op where
  "sample_op = \<lparr>go_op = ''add_alias'', go_surface = ''food'', go_slot = ''preference:diet'', go_pair = None\<rparr>"

lemma sample_log_valid:
  "validate_alias_governance (\<lambda>_. False) (Some (sample_slots_doc [])) (Some (sample_slots_doc [JStr ''food''])) sample_governance = Inr [sample_op]"
  by code_simp

theorem governance_is_the_diff_witness:
  "\<exists>base cur. projection (sample_slots_doc []) = Inr base \<and> projection (sample_slots_doc [JStr ''food'']) = Inr cur \<and>
     set cur = (set base - changes False [sample_op]) \<union> changes True [sample_op] \<and> changes True [sample_op] \<inter> set base = {}"
  using governance_is_the_diff [OF sample_log_valid] by blast

end
