(* ===== verification/Resolver_Blocking.thy ===== *)
theory Resolver_Blocking
  imports Resolver_Registry "HOL-Library.Product_Lexorder"
begin

text \<open>
  \<open>panella/resolver/risk.py\<close>, \<open>escalation.py\<close> and \<open>blocking.py\<close>: what in a request is evidence of a high-risk slot,
  and the bounded set of slots a model may choose from.  Sets of tokens are lists without repetition.
\<close>

subsection \<open>Evidence of high risk\<close>

definition regex_word :: "char \<Rightarrow> bool" where
  "regex_word c \<longleftrightarrow> (let n = of_char c :: nat in (48 \<le> n \<and> n \<le> 57) \<or> (65 \<le> n \<and> n \<le> 90) \<or> (97 \<le> n \<and> n \<le> 122) \<or> n = 95)"

text \<open>\<open>re.search(r"\b" + stem, text)\<close>: the stem occurs where a word starts or ends.\<close>

definition boundary :: "bool \<Rightarrow> string \<Rightarrow> bool" where
  "boundary before text \<longleftrightarrow> before \<noteq> (case text of [] \<Rightarrow> False | c # _ \<Rightarrow> regex_word c)"

fun stem_found :: "bool \<Rightarrow> string \<Rightarrow> string \<Rightarrow> bool" where
  "stem_found before stem [] = (boundary before [] \<and> stem = [])"
| "stem_found before stem (c # text) =
     (boundary before (c # text) \<and> startswith stem (c # text) \<or> stem_found (regex_word c) stem text)"

definition lexical_text :: "resolve_request \<Rightarrow> string" where
  "lexical_text r = py_lower (rq_value r @ '' '' @ rq_evidence r)"

definition domain_match :: "resolve_request \<Rightarrow> registry_slot \<Rightarrow> bool" where
  "domain_match r s \<longleftrightarrow> rq_raw_domain r \<in> set (surfaces s) \<or>
     resolver_normalize (rq_raw_domain r) \<in> set (map resolver_normalize (surfaces s))"

definition lexicon_match :: "resolve_request \<Rightarrow> registry_slot \<Rightarrow> bool" where
  "lexicon_match r s \<longleftrightarrow> list_ex (\<lambda>stem. stem_found False (py_lower stem) (lexical_text r)) (sl_lexicon s)"

definition compute_risk_evidence :: "resolve_request \<Rightarrow> registry_slot list \<Rightarrow> risk_evidence" where
  "compute_risk_evidence r slots =
     (let risky = filter sl_high_risk slots; ds = filter (domain_match r) risky; ls = filter (lexicon_match r) risky
      in \<lparr>re_matched = sort (remdups (map sl_id (ds @ ls))), re_domain_hit = ds \<noteq> [], re_lexicon_hit = ls \<noteq> []\<rparr>)"

definition requires_hr_escalation :: "registry_slot option \<Rightarrow> risk_evidence \<Rightarrow> bool" where
  "requires_hr_escalation target e \<longleftrightarrow>
     (case target of None \<Rightarrow> False | Some s \<Rightarrow> any_risk e \<and> re_matched e \<noteq> [sl_id s])"

subsection \<open>Scores\<close>

definition V1_CHOICE_SET_K :: nat where "V1_CHOICE_SET_K = 8"
definition MAX_FORCED :: nat where "MAX_FORCED = 8"

text \<open>The description of the rules that a calibration is bound to.\<close>

definition str_json_list :: "string list \<Rightarrow> json" where
  "str_json_list xs = JList (map JStr xs)"

definition blocking_v1_rules :: "(string \<Rightarrow> string) \<Rightarrow> json" where
  "blocking_v1_rules H = JObj
     [(''choice_set'', JObj
        [(''limit'', JObj [(''base'', JInt (int V1_CHOICE_SET_K)), (''subtract'', JStr ''forced_count'')]),
         (''ranked'', JObj [(''eligible'', JStr ''score_gt_zero''), (''order'', str_json_list [''score_desc'', ''slot_id_asc''])])]),
      (''forced'', JObj
        [(''deduplicate'', JBool True), (''order'', JStr ''slot_id_asc''), (''prefix'', JBool True),
         (''sources'', str_json_list [''risk_matched_hr_slot_ids'', ''guarded_target_id''])]),
      (''overflow'', JObj
        [(''if_forced_count_gt'', JInt (int MAX_FORCED)),
         (''result'', JObj [(''choices'', JStr ''empty''), (''forced_overflow'', JBool True),
           (''receipt_choice_set'', JStr ''forced_tuple''), (''receipt_forced_ids'', JStr ''forced_tuple'')])]),
      (''scoring'', JObj
        [(''candidate_surfaces'', str_json_list [''raw_domain'', ''value'', ''evidence_text'']),
         (''eligibility'', JStr ''score_gt_zero''), (''weights'', JList [JInt 3, JInt 2, JInt 1])]),
      (''slice'', JObj [(''hr_if_any'', str_json_list [''risk_evidence_any'', ''choice_set_has_high_risk''])]),
      (''tokens'', JObj
        [(''blocking_terms'', JBool False), (''normalizer'', JStr ''resolver_normalize''),
         (''normalizer_rules_hash'', JStr (normalizer_rules_hash H)), (''split'', JStr ''underscore''),
         (''stopwords'', JBool False), (''trigram'', JBool False)])]"

definition BLOCKING_RULES_HASH :: "(string \<Rightarrow> string) \<Rightarrow> string" where
  "BLOCKING_RULES_HASH H = H (dumps_compact (blocking_v1_rules H))"

text \<open>The size of the intersection of two sets of tokens.\<close>

definition overlap :: "string list \<Rightarrow> string list \<Rightarrow> nat" where
  "overlap xs ys = length (filter (\<lambda>x. x \<in> set ys) (remdups xs))"

definition alias_tokens :: "registry_slot \<Rightarrow> string list" where
  "alias_tokens s = concat (map tokens_of (sl_aliases s))"

definition slot_score :: "registry_slot \<Rightarrow> string list \<Rightarrow> nat" where
  "slot_score s cand =
     3 * overlap cand (tokens_of (sl_domain s)) + 2 * overlap cand (alias_tokens s) + overlap cand (tokens_of (sl_description s))"

definition all_tokens :: "resolve_request \<Rightarrow> string list" where
  "all_tokens r = tokens_of (rq_raw_domain r) @ tokens_of (rq_value r) @ tokens_of (rq_evidence r)"

definition request_candidate_tokens :: "resolve_request \<Rightarrow> string list" where
  "request_candidate_tokens r = filter (\<lambda>t. t \<notin> set BLOCKING_STOPWORDS_NORMALIZED) (all_tokens r)"

fun trigrams :: "string \<Rightarrow> string list" where
  "trigrams (a # b # c # s) = [a, b, c] # trigrams (b # c # s)"
| "trigrams _ = []"

definition grams :: "string list \<Rightarrow> string list" where
  "grams ts = concat (map (\<lambda>t. trigrams (CHR ''^'' # t @ ''$'')) ts)"

definition scored_tokens :: "string list \<Rightarrow> string list" where
  "scored_tokens ts = filter (\<lambda>t. t \<notin> set SCORING_DROP) ts"

definition score_components :: "registry_slot \<Rightarrow> string list \<Rightarrow> nat \<times> nat \<times> nat" where
  "score_components s cand =
     (let l1 = scored_tokens (tokens_of (sl_domain s)); l2 = scored_tokens (alias_tokens s);
          l3 = scored_tokens (tokens_of (sl_description s)) @ sl_terms s;
          a = 3 * overlap cand l1 + 2 * overlap cand l2 + overlap cand l3;
          cg = remdups (grams cand); sg = remdups (grams (l1 @ l2 @ l3)); den = length cg + length sg
      in if den = 0 then (a, 0, 0) else (a, 2 * overlap cg sg, den))"

subsection \<open>The choice set\<close>

datatype scoring_mode = V1 | V2Instrument int "nat \<times> nat"

record blocking_result =
  bl_receipt :: blocking_receipt
  bl_choices :: "slot_view list"
  bl_overflow :: bool

definition choice_hash :: "(string \<Rightarrow> string) \<Rightarrow> string list \<Rightarrow> string" where
  "choice_hash H ids = H (join [CHR 0x0A] ids)"

definition forced_ids :: "risk_evidence \<Rightarrow> string option \<Rightarrow> string list" where
  "forced_ids e guarded = sort (remdups (re_matched e @ (case guarded of None \<Rightarrow> [] | Some g \<Rightarrow> if g = [] then [] else [g])))"

definition ranked_v1 :: "resolve_request \<Rightarrow> registry_slot list \<Rightarrow> string list \<Rightarrow> string list" where
  "ranked_v1 r slots forced =
     (let cand = all_tokens r in
      map snd (sort_key (\<lambda>(n, i). (- int n, i))
        (filter (\<lambda>(n, i). n > 0 \<and> i \<notin> set forced) (map (\<lambda>s. (slot_score s cand, sl_id s)) slots))))"

text \<open>The second score is a fraction; with the denominator 0 it counts as the numerator, which is then 0.\<close>

definition ranked_v2 :: "resolve_request \<Rightarrow> registry_slot list \<Rightarrow> nat \<times> nat \<Rightarrow> string list \<Rightarrow> string list" where
  "ranked_v2 r slots theta forced =
     (let cand = request_candidate_tokens r in
      map (\<lambda>(a, b, d, i). i) (sort_key (\<lambda>(a, b, d, i). (- int a, - (of_nat b / of_nat (if d = 0 then 1 else d) :: rat), i))
        (filter (\<lambda>(a, b, d, i). i \<notin> set forced \<and> (a > 0 \<or> b * snd theta \<ge> d * fst theta))
          (map (\<lambda>s. case score_components s cand of (a, b, d) \<Rightarrow> (a, b, d, sl_id s)) slots))))"

definition slot_lookup :: "slot_registry \<Rightarrow> string \<Rightarrow> registry_slot res" where
  "slot_lookup reg i = (case dget (sr_by_id reg) i of None \<Rightarrow> Inl (KeyError i) | Some s \<Rightarrow> Inr s)"

definition view_of :: "registry_slot \<Rightarrow> slot_view" where
  "view_of s = \<lparr>vw_slot_id = sl_id s, vw_description = sl_description s, vw_high_risk = sl_high_risk s, vw_note = sl_note s\<rparr>"

definition choice_ids :: "scoring_mode \<Rightarrow> resolve_request \<Rightarrow> registry_slot list \<Rightarrow> string list \<Rightarrow> string list" where
  "choice_ids mode r slots forced =
     (case mode of
        V1 \<Rightarrow> forced @ take (V1_CHOICE_SET_K - length forced) (ranked_v1 r slots forced)
      | V2Instrument k theta \<Rightarrow> forced @ py_take (k - int (length forced)) (ranked_v2 r slots theta forced))"

definition assemble_blocking ::
  "(string \<Rightarrow> string) \<Rightarrow> scoring_mode \<Rightarrow> resolve_request \<Rightarrow> slot_registry \<Rightarrow> risk_evidence \<Rightarrow> string option \<Rightarrow> blocking_result res" where
  "assemble_blocking H mode r reg e guarded =
     (let forced = forced_ids e guarded in
      if length forced > MAX_FORCED then
        Inr \<lparr>bl_receipt = \<lparr>br_choice_set = forced, br_choice_hash = choice_hash H forced, br_slice = ''hr'', br_forced = forced\<rparr>,
             bl_choices = [], bl_overflow = True\<rparr>
      else
        (let ids = choice_ids mode r (sr_slots reg) forced in
         rbind (map_res (slot_lookup reg) ids) (\<lambda>slots.
           Inr \<lparr>bl_receipt = \<lparr>br_choice_set = ids, br_choice_hash = choice_hash H ids,
                    br_slice = (if any_risk e \<or> list_ex sl_high_risk slots then ''hr'' else ''benign''), br_forced = forced\<rparr>,
                bl_choices = map view_of slots, bl_overflow = False\<rparr>)))"

subsection \<open>The choice set is closed and bounded\<close>

lemma registry_tables:
  assumes "registry_ok reg"
  shows "dget (sr_by_id reg) i = Some s \<longleftrightarrow> s \<in> set (sr_slots reg) \<and> sl_id s = i"
    and "dget (sr_alias_raw reg) a = Some s \<longleftrightarrow> s \<in> set (sr_slots reg) \<and> a \<in> set (sl_aliases s)"
    and "dget (sr_alias_folded reg) f = Some s \<longleftrightarrow> s \<in> set (sr_slots reg) \<and> f \<in> resolver_normalize ` set (sl_aliases s)"
    and "distinct (map sl_id (sr_slots reg))"
  using assms by (simp_all only: registry_ok_def)

lemma slot_lookup_ok:
  assumes "registry_ok reg"
  shows "slot_lookup reg i = Inr s \<longleftrightarrow> s \<in> set (sr_slots reg) \<and> sl_id s = i"
  unfolding registry_tables(1) [OF assms, symmetric] by (simp add: slot_lookup_def split: option.split)

lemma lookup_all:
  assumes "registry_ok reg" and "set ids \<subseteq> sl_id ` set (sr_slots reg)"
  shows "\<exists>slots. map_res (slot_lookup reg) ids = Inr slots \<and> map sl_id slots = ids \<and> set slots \<subseteq> set (sr_slots reg)"
  using assms(2)
proof (induction ids)
  case (Cons i ids)
  then obtain slots where "map_res (slot_lookup reg) ids = Inr slots" "map sl_id slots = ids" "set slots \<subseteq> set (sr_slots reg)" by auto
  moreover obtain s where "s \<in> set (sr_slots reg)" "sl_id s = i" using Cons.prems by auto
  moreover from this have "slot_lookup reg i = Inr s" using slot_lookup_ok [OF assms(1)] by blast
  ultimately show ?case by (intro exI [of _ "s # slots"]) simp
qed simp

lemma matched_known: "set (re_matched (compute_risk_evidence r slots)) \<subseteq> sl_id ` set slots"
  by (auto simp: compute_risk_evidence_def Let_def)

lemma matched_risky:
  "i \<in> set (re_matched (compute_risk_evidence r slots)) \<longleftrightarrow>
     (\<exists>s \<in> set slots. sl_id s = i \<and> sl_high_risk s \<and> (domain_match r s \<or> lexicon_match r s))"
  by (auto simp: compute_risk_evidence_def Let_def)

lemma ranked_v1_ids: "i \<in> set (ranked_v1 r slots forced) \<Longrightarrow> i \<in> sl_id ` set slots \<and> i \<notin> set forced"
  by (auto simp: ranked_v1_def Let_def)

lemma ranked_v1_distinct: "distinct (map sl_id slots) \<Longrightarrow> distinct (ranked_v1 r slots forced)"
proof -
  assume d: "distinct (map sl_id slots)"
  define ps where "ps = filter (\<lambda>(n, i). n > 0 \<and> i \<notin> set forced) (map (\<lambda>s. (slot_score s (all_tokens r), sl_id s)) slots)"
  have "distinct (map snd (map (\<lambda>s. (slot_score s (all_tokens r), sl_id s)) slots))" using d by (simp add: o_def)
  then have "distinct (map snd ps)" unfolding ps_def by (rule distinct_map_filter)
  then have "distinct ps \<and> inj_on snd (set ps)" by (simp add: distinct_map)
  then have "distinct (map snd (sort_key (\<lambda>(n, i). (- int n, i)) ps))" unfolding distinct_map by simp
  then show ?thesis by (simp add: ranked_v1_def ps_def)
qed

lemma forced_ids_set: "set (forced_ids e guarded) = set (re_matched e) \<union> (case guarded of None \<Rightarrow> {} | Some g \<Rightarrow> if g = [] then {} else {g})"
  by (auto simp: forced_ids_def split: option.split)

lemma choice_ids_v1:
  assumes "distinct (map sl_id slots)" and "length (forced_ids e g) \<le> MAX_FORCED"
  shows "length (choice_ids V1 r slots (forced_ids e g)) \<le> V1_CHOICE_SET_K \<and> distinct (choice_ids V1 r slots (forced_ids e g))"
proof -
  let ?f = "forced_ids e g" and ?r = "ranked_v1 r slots (forced_ids e g)"
  have "distinct ?f" by (simp add: forced_ids_def)
  moreover have "distinct (take n ?r)" for n by (rule distinct_take [OF ranked_v1_distinct [OF assms(1)]])
  moreover have "set ?f \<inter> set (take n ?r) = {}" for n using ranked_v1_ids by (blast dest: in_set_takeD)
  ultimately have "distinct (choice_ids V1 r slots ?f)" by (simp add: choice_ids_def)
  then show ?thesis using assms(2) by (simp add: choice_ids_def V1_CHOICE_SET_K_def MAX_FORCED_def)
qed

text \<open>Within the limit of forced slots the choice set is found, in the registry and without repetition.\<close>

lemma assemble_shape:
  assumes "registry_ok reg" and "e = compute_risk_evidence r (sr_slots reg)"
    and "case guarded of None \<Rightarrow> True | Some g \<Rightarrow> g \<in> sl_id ` set (sr_slots reg)"
    and "length (forced_ids e guarded) \<le> MAX_FORCED" and "ids = choice_ids V1 r (sr_slots reg) (forced_ids e guarded)"
  shows "length ids \<le> 8 \<and> distinct ids \<and> set ids \<subseteq> sl_id ` set (sr_slots reg) \<and> set (forced_ids e guarded) \<subseteq> set ids \<and>
    (\<exists>slots. map sl_id slots = ids \<and> set slots \<subseteq> set (sr_slots reg) \<and> assemble_blocking H V1 r reg e guarded = Inr
      \<lparr>bl_receipt = \<lparr>br_choice_set = ids, br_choice_hash = choice_hash H ids,
          br_slice = (if any_risk e \<or> list_ex sl_high_risk slots then ''hr'' else ''benign''), br_forced = forced_ids e guarded\<rparr>,
       bl_choices = map view_of slots, bl_overflow = False\<rparr>)"
proof -
  note d = registry_tables(4) [OF assms(1)]
  have len: "length ids \<le> 8" "distinct ids"
    using choice_ids_v1 [OF d, of e guarded r] assms(4,5) by (auto simp: V1_CHOICE_SET_K_def)
  have forced: "set (forced_ids e guarded) \<subseteq> set ids" by (auto simp: assms(5) choice_ids_def)
  have known: "set ids \<subseteq> sl_id ` set (sr_slots reg)"
    using assms(2,3) matched_known [of r "sr_slots reg"] ranked_v1_ids
    by (auto simp: assms(5) choice_ids_def forced_ids_set split: option.splits if_split_asm dest!: in_set_takeD)
  obtain slots where s: "map_res (slot_lookup reg) ids = Inr slots" "map sl_id slots = ids" "set slots \<subseteq> set (sr_slots reg)"
    using lookup_all [OF assms(1) known] by blast
  have "assemble_blocking H V1 r reg e guarded = Inr
      \<lparr>bl_receipt = \<lparr>br_choice_set = ids, br_choice_hash = choice_hash H ids,
          br_slice = (if any_risk e \<or> list_ex sl_high_risk slots then ''hr'' else ''benign''), br_forced = forced_ids e guarded\<rparr>,
       bl_choices = map view_of slots, bl_overflow = False\<rparr>"
    using assms(4) s(1) by (simp add: assemble_blocking_def Let_def assms(5))
  then show ?thesis using len forced known s(2,3) by blast
qed

lemma assemble_overflow:
  assumes "length (forced_ids e guarded) > MAX_FORCED"
  shows "\<exists>br. assemble_blocking H V1 r reg e guarded = Inr \<lparr>bl_receipt = br, bl_choices = [], bl_overflow = True\<rparr>"
  using assms by (simp add: assemble_blocking_def Let_def)

text \<open>
  The model's choice is closed.  Over an unambiguous registry the choice set is assembled without error.  Unless
  the forced slots overflow, in which case nothing may be chosen, it has at most eight slots of the registry, none
  twice, among them every slot the request gave high-risk evidence for and the guarded target; and the request is
  judged as benign only when there is no such evidence and no slot of high risk to choose.
\<close>

theorem choice_set_closed:
  assumes "registry_ok reg" and "e = compute_risk_evidence r (sr_slots reg)"
    and "case guarded of None \<Rightarrow> True | Some g \<Rightarrow> g \<in> sl_id ` set (sr_slots reg)"
  shows "\<exists>b. assemble_blocking H V1 r reg e guarded = Inr b \<and>
    (if bl_overflow b then bl_choices b = []
     else map vw_slot_id (bl_choices b) = br_choice_set (bl_receipt b) \<and>
       length (br_choice_set (bl_receipt b)) \<le> 8 \<and> distinct (br_choice_set (bl_receipt b)) \<and>
       set (br_choice_set (bl_receipt b)) \<subseteq> sl_id ` set (sr_slots reg) \<and>
       set (re_matched e) \<subseteq> set (br_choice_set (bl_receipt b)) \<and>
       (\<forall>g. guarded = Some g \<and> g \<noteq> [] \<longrightarrow> g \<in> set (br_choice_set (bl_receipt b))) \<and>
       (br_slice (bl_receipt b) = ''benign'' \<longleftrightarrow> \<not> any_risk e \<and> (\<forall>v \<in> set (bl_choices b). \<not> vw_high_risk v)))"
proof (cases "length (forced_ids e guarded) > MAX_FORCED")
  case True
  then show ?thesis using assemble_overflow [OF True, of H r reg] by auto
next
  case False
  then have le: "length (forced_ids e guarded) \<le> MAX_FORCED" by simp
  note shape = assemble_shape [OF assms le refl, of H]
  then obtain slots where slots: "map sl_id slots = choice_ids V1 r (sr_slots reg) (forced_ids e guarded)"
    and a: "assemble_blocking H V1 r reg e guarded = Inr
      \<lparr>bl_receipt = \<lparr>br_choice_set = map sl_id slots, br_choice_hash = choice_hash H (map sl_id slots),
          br_slice = (if any_risk e \<or> list_ex sl_high_risk slots then ''hr'' else ''benign''), br_forced = forced_ids e guarded\<rparr>,
       bl_choices = map view_of slots, bl_overflow = False\<rparr>" by auto
  have "map vw_slot_id (map view_of slots) = map sl_id slots" by (simp add: view_of_def o_def)
  moreover have "list_ex sl_high_risk slots \<longleftrightarrow> (\<exists>v \<in> set (map view_of slots). vw_high_risk v)" by (auto simp: list_ex_iff view_of_def)
  moreover have "set (re_matched e) \<subseteq> set (map sl_id slots)" "\<forall>g. guarded = Some g \<and> g \<noteq> [] \<longrightarrow> g \<in> set (map sl_id slots)"
    using shape forced_ids_set [of e guarded] unfolding slots by (auto split: option.splits if_split_asm)
  ultimately show ?thesis using shape unfolding slots [symmetric] a by simp
qed

definition sample_request :: resolve_request where
  "sample_request = \<lparr>rq_uid = ''r1'', rq_kind = ''preference'', rq_raw_domain = ''diet'', rq_value = ''vegan'',
     rq_evidence = ''Allergic to nuts'', rq_effective_at = None\<rparr>"

lemma sample_evidence: "re_matched (compute_risk_evidence sample_request (sr_slots sample_registry)) = [''fact:allergy'']"
  by code_simp

theorem choice_set_closed_witness:
  "\<exists>b. assemble_blocking id V1 sample_request sample_registry (compute_risk_evidence sample_request (sr_slots sample_registry))
       (Some ''preference:diet'') = Inr b \<and>
     (bl_overflow b \<or> ''preference:diet'' \<in> set (br_choice_set (bl_receipt b)) \<and> ''fact:allergy'' \<in> set (br_choice_set (bl_receipt b)) \<and>
        br_slice (bl_receipt b) \<noteq> ''benign'')"
proof -
  have k: "case Some ''preference:diet'' of None \<Rightarrow> True | Some g \<Rightarrow> g \<in> sl_id ` set (sr_slots sample_registry)" by code_simp
  show ?thesis
    using choice_set_closed [OF sample_registry_ok refl k, where H = id and r = sample_request]
    by (elim exE conjE) (auto simp: sample_evidence any_risk_def split: if_split_asm)
qed

end
