(* ===== verification/Resolver_Engine.thy ===== *)
theory Resolver_Engine
  imports Resolver_Blocking Resolver_Fallback
begin

text \<open>
  \<open>panella/resolver/engine.py\<close>: resolving one request to a slot.  A deterministic hit is used unless the request
  holds evidence of another high-risk slot; otherwise a model may choose from the closed set, and its answer counts
  only when the calibration of the manifest lifts it over the threshold.  The budget of a run is the state.
\<close>

subsection \<open>Configuration\<close>

definition RESOLVER_CODE_VERSION :: string where "RESOLVER_CODE_VERSION = ''1.1.0''"

definition PINNED_REGISTRY_HASH :: string where
  "PINNED_REGISTRY_HASH = ''60d7470da7162c9708c6fabac9aa6d3bc543a45620fa114e45fd58d939064179''"

definition min_cal_samples :: "string \<Rightarrow> int" where
  "min_cal_samples slice = (if slice = ''benign'' then 50 else 30)"

record engine =
  en_config :: resolver_config
  en_registry :: slot_registry
  en_hash :: "string \<Rightarrow> string"
  en_float_text :: "rat \<Rightarrow> string"
  en_model_id :: string
  en_prompt_hash :: string
  en_disabled :: "string option"

definition default_config :: resolver_config where
  "default_config = \<lparr>cf_llm_enabled = False, cf_timeout_ms = 1000, cf_manifest = None, cf_manifest_hash = None, cf_evidence_hash = None\<rparr>"

definition bindings :: "engine \<Rightarrow> calibration_manifest \<Rightarrow> (string \<times> bool) list" where
  "bindings en m =
     [(''manifest_hash'', cf_manifest_hash (en_config en) = Some (canonical_manifest_hash (en_hash en) (en_float_text en) m)),
      (''evidence_hash'', cf_evidence_hash (en_config en) = Some (cm_evidence_hash m)),
      (''registry_hash'', cm_registry_hash m = sr_content_hash (en_registry en)),
      (''normalizer_rules_hash'', cm_normalizer_hash m = normalizer_rules_hash (en_hash en)),
      (''blocking_rules_hash'', cm_blocking_hash m = BLOCKING_RULES_HASH (en_hash en)),
      (''resolver_code_version'', cm_code_version m = RESOLVER_CODE_VERSION),
      (''model_id'', cm_model_id m = en_model_id en),
      (''prompt_template_hash'', cm_prompt_hash m = en_prompt_hash en)]"

definition manifest_binding_disabled_reason :: "engine \<Rightarrow> string option" where
  "manifest_binding_disabled_reason en =
     (case cf_manifest (en_config en) of
        None \<Rightarrow> Some ''manifest_component_mismatch:manifest''
      | Some m \<Rightarrow> map_option (\<lambda>(field, x). ''manifest_component_mismatch:'' @ field) (find (\<lambda>(field, ok). \<not> ok) (bindings en m)))"

definition mk_engine :: "engine \<Rightarrow> engine res" where
  "mk_engine en =
     (if length (sr_slots (en_registry en)) < MIN_REGISTRY_SLOTS then Inl (ValueError ''registry must contain at least 90 slots'')
      else if sr_content_hash (en_registry en) \<noteq> PINNED_REGISTRY_HASH then Inl (ValueError ''registry content hash does not match the pin'')
      else Inr (en\<lparr>en_disabled :=
        (if cf_llm_enabled (en_config en) then manifest_binding_disabled_reason en else None)\<rparr>))"

definition versions :: "engine \<Rightarrow> version_stamp" where
  "versions en = \<lparr>vs_code = RESOLVER_CODE_VERSION, vs_registry_hash = sr_content_hash (en_registry en),
     vs_normalizer_hash = normalizer_rules_hash (en_hash en), vs_blocking_hash = BLOCKING_RULES_HASH (en_hash en),
     vs_normalizer = NORMALIZER_VERSION, vs_calibration_hash = cf_manifest_hash (en_config en)\<rparr>"

subsection \<open>The deterministic lookup\<close>

record guard_preparation =
  gp_target :: "registry_slot option"
  gp_method :: string
  gp_fired :: bool

definition folded_alias :: "slot_registry \<Rightarrow> string \<Rightarrow> registry_slot option" where
  "folded_alias reg f = (case dget (sr_alias_folded reg) f of None \<Rightarrow> None | Some s \<Rightarrow> if sl_high_risk s then None else Some s)"

definition lookup_target :: "resolve_request \<Rightarrow> slot_registry \<Rightarrow> registry_slot option \<times> string" where
  "lookup_target r reg =
     (let f = resolver_normalize (rq_raw_domain r) in
      case dget (sr_by_id reg) (rq_kind r @ '':'' @ f) of
        Some s \<Rightarrow> (Some s, ''exact'')
      | None \<Rightarrow> (case dget (sr_alias_raw reg) (rq_raw_domain r) of Some s \<Rightarrow> Some s | None \<Rightarrow> folded_alias reg f, ''alias''))"

definition prepare_guard :: "resolve_request \<Rightarrow> slot_registry \<Rightarrow> risk_evidence \<Rightarrow> guard_preparation" where
  "prepare_guard r reg e =
     (case lookup_target r reg of (t, m) \<Rightarrow> \<lparr>gp_target = t, gp_method = m, gp_fired = requires_hr_escalation t e\<rparr>)"

subsection \<open>Decisions\<close>

definition unresolved_domain :: "(string \<Rightarrow> string) \<Rightarrow> string \<Rightarrow> run_budget \<Rightarrow> string res \<times> run_budget" where
  "unresolved_domain H uid b =
     (let encoded = RESERVED_DOMAIN @ take 32 (H uid) in
      case dget (rb_seen_unresolved b) encoded of
        Some known \<Rightarrow> if known \<noteq> uid then (Inl (RuntimeError ''unresolved-domain encoding collision''), b)
                      else (Inr encoded, b\<lparr>rb_seen_unresolved := dset encoded uid (rb_seen_unresolved b)\<rparr>)
      | None \<Rightarrow> (Inr encoded, b\<lparr>rb_seen_unresolved := dset encoded uid (rb_seen_unresolved b)\<rparr>))"

definition truncation :: "resolve_request \<Rightarrow> string \<times> string \<times> data_truncation" where
  "truncation r =
     (let value = utf8_cut 2048 (rq_value r); evidence = utf8_cut 4096 (rq_evidence r) in
      (value, evidence, \<lparr>dt_value_orig = length (rq_value r), dt_value_used = length value,
         dt_evidence_orig = length (rq_evidence r), dt_evidence_used = length evidence,
         dt_truncated = (value \<noteq> rq_value r \<or> evidence \<noteq> rq_evidence r)\<rparr>))"

definition hr_receipt :: "blocking_receipt option \<Rightarrow> bool" where
  "hr_receipt br = (case br of None \<Rightarrow> False | Some x \<Rightarrow> br_slice x = ''hr'')"

definition abstain ::
  "engine \<Rightarrow> resolve_request \<Rightarrow> risk_evidence \<Rightarrow> string \<Rightarrow> bool \<Rightarrow> blocking_receipt option \<Rightarrow> llm_receipt option \<Rightarrow> string option \<Rightarrow>
   run_budget \<Rightarrow> resolve_decision res \<times> run_budget" where
  "abstain en r e outcome fired br lr why b =
     (case unresolved_domain (en_hash en) (rq_uid r) b of
        (Inl x, b1) \<Rightarrow> (Inl x, b1)
      | (Inr dm, b1) \<Rightarrow>
          (mk_decision \<lparr>rd_action = ''ABSTAIN_ADD'', rd_slot_id = None, rd_unresolved_domain = Some dm, rd_unresolved = True,
             rd_high_risk = (any_risk e \<or> fired \<or> hr_receipt br), rd_risk_evidence = e, rd_method = ''none'', rd_confidence = 0,
             rd_outcome = outcome, rd_disabled_reason = why, rd_blocking = br, rd_llm = lr, rd_guard_fired = fired,
             rd_versions = versions en\<rparr>, b1))"

definition resolved ::
  "engine \<Rightarrow> string \<Rightarrow> existing_slot list \<Rightarrow> risk_evidence \<Rightarrow> string \<Rightarrow> rat \<Rightarrow> string \<Rightarrow> bool \<Rightarrow> blocking_receipt option \<Rightarrow>
   llm_receipt option \<Rightarrow> resolve_decision res" where
  "resolved en i ctx e method confidence outcome fired br lr =
     rbind (slot_lookup (en_registry en) i) (\<lambda>s.
       mk_decision \<lparr>rd_action = (if list_ex (\<lambda>x. ex_slot_id x = i) ctx then ''BIND'' else ''ADD''), rd_slot_id = Some i,
         rd_unresolved_domain = None, rd_unresolved = False,
         rd_high_risk = (any_risk e \<or> fired \<or> sl_high_risk s \<or> hr_receipt br), rd_risk_evidence = e, rd_method = method,
         rd_confidence = confidence, rd_outcome = outcome, rd_disabled_reason = None, rd_blocking = br, rd_llm = lr,
         rd_guard_fired = fired, rd_versions = versions en\<rparr>)"

subsection \<open>Calibration\<close>

definition slice_of :: "engine \<Rightarrow> string \<Rightarrow> calibration_slice option" where
  "slice_of en name = (case cf_manifest (en_config en) of None \<Rightarrow> None | Some m \<Rightarrow> dget (cm_slices m) name)"

definition slice_is_valid :: "engine \<Rightarrow> string \<Rightarrow> bool" where
  "slice_is_valid en name =
     (case slice_of en name of None \<Rightarrow> False
      | Some c \<Rightarrow> cs_n_samples c \<ge> min_cal_samples name \<and> cs_mapping c \<noteq> [] \<and>
          cs_tau c \<in> set (map (\<lambda>(l, h, v). v) (cs_mapping c)))"

definition calibrate :: "rat \<Rightarrow> calibration_slice \<Rightarrow> rat option" where
  "calibrate x c = map_option (\<lambda>(l, h, v). v)
     (find (\<lambda>(l, h, v). l \<le> x \<and> x < h \<or> x = 1 \<and> h = 1) (cs_mapping c))"

subsection \<open>Judging what the provider returned\<close>

definition excerpt_misused :: "transport_attempt \<Rightarrow> bool" where
  "excerpt_misused a \<longleftrightarrow> ta_excerpt a \<noteq> JNull \<and>
     (ta_outcome a \<noteq> ''invalid_output'' \<or> (case ta_excerpt a of JStr s \<Rightarrow> length s > 200 | _ \<Rightarrow> True))"

definition provider_outcome :: "suggestion \<Rightarrow> int \<Rightarrow> string \<times> string option" where
  "provider_outcome s timeout =
     (let attempts = sg_attempts s in
      if attempts = [] then (''invalid_output'', Some ''empty_attempts'')
      else if list_ex (\<lambda>a. ta_outcome a \<notin> set [''ok'', ''transport_error'', ''timeout'', ''invalid_output'']) attempts
        then (''invalid_output'', Some ''unknown_outcome'')
      else if list_ex excerpt_misused attempts then (''invalid_output'', Some ''excerpt_misuse'')
      else if length attempts > 2 \<or> length attempts = 2 \<and> ta_outcome (hd attempts) \<notin> set [''transport_error'', ''timeout'']
        then (''transport_failed'', Some ''attempt_sequence'')
      else if list_ex (\<lambda>a. ta_outcome a = ''ok'' \<and> ta_latency a > timeout) attempts then (''timeout'', Some ''timeout_exceeded_ok'')
      else if ta_outcome (last attempts) \<noteq> ''ok'' \<and> (sg_choice s \<noteq> JNull \<or> sg_confidence s \<noteq> NoConf)
        then (''invalid_output'', Some ''payload_without_ok'')
      else if ta_outcome (last attempts) = ''transport_error'' then (''transport_failed'', None)
      else if ta_outcome (last attempts) = ''timeout'' then (''timeout'', None)
      else if ta_outcome (last attempts) = ''invalid_output'' then (''invalid_output'', None)
      else (''ok'', None))"

text \<open>A confidence that is a float or an int in the unit interval.\<close>

definition usable_confidence :: "raw_confidence \<Rightarrow> rat option res" where
  "usable_confidence c =
     (case c of
        FloatConf (Finite x) \<Rightarrow> Inr (if 0 \<le> x \<and> x \<le> 1 then Some x else None)
      | IntConf n \<Rightarrow> if int_overflows n then Inl OverflowError else Inr (if 0 \<le> n \<and> n \<le> 1 then Some (of_int n) else None)
      | _ \<Rightarrow> Inr None)"

definition chosen :: "suggestion \<Rightarrow> blocking_receipt \<Rightarrow> string option" where
  "chosen s br = (case sg_choice s of JStr c \<Rightarrow> if c = ''ABSTAIN'' \<or> c \<in> set (br_choice_set br) then Some c else None | _ \<Rightarrow> None)"

text \<open>The outcome with the calibrated confidence, when the reply was in order.\<close>

definition judge_suggestion ::
  "suggestion \<Rightarrow> blocking_receipt \<Rightarrow> calibration_slice \<Rightarrow> int \<Rightarrow> (string \<times> rat option) res" where
  "judge_suggestion s br cal timeout =
     (if fst (provider_outcome s timeout) \<noteq> ''ok'' then Inr (fst (provider_outcome s timeout), None)
      else
        (case sg_choice s of
           JStr _ \<Rightarrow>
             rbind (usable_confidence (sg_confidence s)) (\<lambda>x.
               case (chosen s br, x) of
                 (Some c, Some y) \<Rightarrow>
                   if c = ''ABSTAIN'' then Inr (''ok'', None)
                   else (case calibrate y cal of None \<Rightarrow> Inr (''invalid_output'', None) | Some v \<Rightarrow> Inr (''ok'', Some v))
               | _ \<Rightarrow> Inr (''invalid_output'', None))
         | _ \<Rightarrow> Inr (''invalid_output'', None)))"

subsection \<open>Resolving\<close>

definition tau_for :: "engine \<Rightarrow> bool \<Rightarrow> calibration_slice \<Rightarrow> rat" where
  "tau_for en top_up cal =
     (if top_up then max (case slice_of en ''benign'' of None \<Rightarrow> 0 | Some c \<Rightarrow> cs_tau c)
                         (case slice_of en ''hr'' of None \<Rightarrow> 0 | Some c \<Rightarrow> cs_tau c)
      else cs_tau cal)"

definition receipt_of ::
  "engine \<Rightarrow> resolve_request \<Rightarrow> blocking_receipt \<Rightarrow> suggestion \<Rightarrow> rat option \<Rightarrow> llm_receipt" where
  "receipt_of en r br s calibrated =
     \<lparr>lr_model_id = en_model_id en, lr_prompt_hash = en_prompt_hash en, lr_blocking = br, lr_attempts = sg_attempts s,
      lr_truncation = snd (snd (truncation r)), lr_raw_choice = sg_choice s, lr_raw_confidence = sg_confidence s,
      lr_calibrated = calibrated, lr_violation = snd (provider_outcome s (cf_timeout_ms (en_config en)))\<rparr>"

text \<open>The model has been asked: its answer is judged, and the decision made.\<close>

definition conclude ::
  "engine \<Rightarrow> resolve_request \<Rightarrow> existing_slot list \<Rightarrow> risk_evidence \<Rightarrow> bool \<Rightarrow> bool \<Rightarrow> blocking_receipt \<Rightarrow> calibration_slice \<Rightarrow>
   suggestion \<Rightarrow> run_budget \<Rightarrow> resolve_decision res \<times> run_budget" where
  "conclude en r ctx e fired top_up br cal s b =
     (case judge_suggestion s br cal (cf_timeout_ms (en_config en)) of
        Inl x \<Rightarrow> (Inl x, b)
      | Inr (outcome, calibrated) \<Rightarrow>
          (let receipt = receipt_of en r br s calibrated in
           if outcome \<noteq> ''ok'' then abstain en r e outcome fired (Some br) (Some receipt) None b
           else
             (case sg_choice s of
                JStr c \<Rightarrow>
                  if c = ''ABSTAIN'' then abstain en r e ''abstained'' fired (Some br) (Some receipt) None b
                  else
                    (case calibrated of
                       None \<Rightarrow> (Inl (RuntimeError ''successful provider output must have calibrated confidence''), b)
                     | Some x \<Rightarrow>
                         if x < tau_for en top_up cal then abstain en r e ''low_confidence'' fired (Some br) (Some receipt) None b
                         else (resolved en c ctx e ''llm_choice'' x ''selected'' fired (Some br) (Some receipt), b))
              | _ \<Rightarrow> (Inl (TypeError ''raw_choice''), b))))"

definition ask_model ::
  "engine \<Rightarrow> provider \<Rightarrow> resolve_request \<Rightarrow> existing_slot list \<Rightarrow> risk_evidence \<Rightarrow> bool \<Rightarrow> bool \<Rightarrow> blocking_result \<Rightarrow> run_budget \<Rightarrow>
   resolve_decision res \<times> run_budget" where
  "ask_model en ask r ctx e fired top_up bl b =
     (let b1 = b\<lparr>rb_calls_made := rb_calls_made b + 1\<rparr>; br = bl_receipt bl; (value, evidence, x) = truncation r in
      case slice_of en (br_slice br) of None \<Rightarrow> (Inl (KeyError (br_slice br)), b1)
      | Some cal \<Rightarrow>
          (case ask r (bl_choices bl) (br_slice br) value evidence (cf_timeout_ms (en_config en)) of
             Inl x \<Rightarrow> (Inl x, b1)
           | Inr s \<Rightarrow> conclude en r ctx e fired top_up br cal s b1))"

definition consider_choices ::
  "engine \<Rightarrow> provider \<Rightarrow> resolve_request \<Rightarrow> existing_slot list \<Rightarrow> risk_evidence \<Rightarrow> bool \<Rightarrow> blocking_result \<Rightarrow> run_budget \<Rightarrow>
   resolve_decision res \<times> run_budget" where
  "consider_choices en ask r ctx e fired bl b =
     (let br = bl_receipt bl; top_up = (br_slice br = ''hr'' \<and> \<not> any_risk e) in
      if bl_overflow bl then abstain en r e ''forced_set_overflow'' fired (Some br) None None b
      else if br_choice_set br = [] then abstain en r e ''not_attempted_empty_choice_set'' fired (Some br) None None b
      else if top_up \<and> (\<not> slice_is_valid en ''benign'' \<or> \<not> slice_is_valid en ''hr'')
        then abstain en r e ''not_attempted_disabled'' fired (Some br) None (Some ''tau_applied_component_unavailable'') b
      else if \<not> slice_is_valid en (br_slice br)
        then abstain en r e ''not_attempted_disabled'' fired (Some br) None
          (Some (if br_slice br = ''hr'' \<and> any_risk e then ''hr_slice_required_but_disabled'' else ''slice_disabled'')) b
      else ask_model en ask r ctx e fired top_up bl b)"

definition resolve ::
  "engine \<Rightarrow> provider \<Rightarrow> resolve_request \<Rightarrow> existing_slot list \<Rightarrow> run_budget \<Rightarrow> resolve_decision res \<times> run_budget" where
  "resolve en ask r ctx b0 =
     (if rq_uid r \<in> set (rb_seen_uids b0) then (Inl (ValueError ''duplicate request_uid in run budget''), b0)
      else
        (let b = b0\<lparr>rb_seen_uids := rb_seen_uids b0 @ [rq_uid r]\<rparr>; reg = en_registry en;
             e = compute_risk_evidence r (sr_slots reg); g = prepare_guard r reg e in
         case (gp_target g, gp_fired g) of
           (Some t, False) \<Rightarrow> (resolved en (sl_id t) ctx e (gp_method g) 1 ''not_attempted_deterministic_hit'' False None None, b)
         | _ \<Rightarrow>
             if en_disabled en \<noteq> None then abstain en r e ''not_attempted_disabled'' (gp_fired g) None None (en_disabled en) b
             else if \<not> cf_llm_enabled (en_config en)
               then abstain en r e ''not_attempted_disabled'' (gp_fired g) None None (Some ''global_disabled'') b
             else if rb_max_calls b - rb_calls_made b < LLM_LEGS_RESERVED
               then abstain en r e ''not_attempted_budget_exhausted'' (gp_fired g) None None None b
             else
               (case assemble_blocking (en_hash en) V1 r reg e
                    (if gp_fired g then map_option sl_id (gp_target g) else None) of
                  Inl x \<Rightarrow> (Inl x, b)
                | Inr bl \<Rightarrow> consider_choices en ask r ctx e (gp_fired g) bl b)))"


subsection \<open>How a request can end\<close>

definition evidence_of :: "engine \<Rightarrow> resolve_request \<Rightarrow> risk_evidence" where
  "evidence_of en r = compute_risk_evidence r (sr_slots (en_registry en))"

definition seen :: "resolve_request \<Rightarrow> run_budget \<Rightarrow> run_budget" where
  "seen r b = b\<lparr>rb_seen_uids := rb_seen_uids b @ [rq_uid r]\<rparr>"

definition collides :: "engine \<Rightarrow> resolve_request \<Rightarrow> run_budget \<Rightarrow> bool" where
  "collides en r b \<longleftrightarrow> (\<exists>uid. dget (rb_seen_unresolved b) (RESERVED_DOMAIN @ take 32 (en_hash en (rq_uid r))) = Some uid \<and> uid \<noteq> rq_uid r)"

lemma seen_fields [simp]:
  "rb_max_calls (seen r b) = rb_max_calls b" "rb_calls_made (seen r b) = rb_calls_made b"
  "rb_seen_uids (seen r b) = rb_seen_uids b @ [rq_uid r]" "rb_seen_unresolved (seen r b) = rb_seen_unresolved b"
  by (simp_all add: seen_def)

lemma budget_self: "\<exists>u. b = b\<lparr>rb_seen_unresolved := u\<rparr>"
  by (intro exI [of _ "rb_seen_unresolved b"]) simp

lemma abstain_budget: "abstain en r e oc fired br lr why b = (x, b') \<Longrightarrow> \<exists>u. b' = b\<lparr>rb_seen_unresolved := u\<rparr>"
  by (auto simp: abstain_def unresolved_domain_def Let_def budget_self split: prod.split_asm sum.split_asm option.split_asm if_split_asm)

text \<open>The reason for not asking is given just when the outcome says so.\<close>

abbreviation reason_fits :: "string option \<Rightarrow> string \<Rightarrow> bool" where
  "reason_fits why outcome \<equiv> (why \<noteq> None) = (outcome = ''not_attempted_disabled'')"

lemma abstain_raises:
  assumes "abstain en r e oc fired br lr why b = (Inl x, b')" and "reason_fits why oc"
  shows "x = RuntimeError ''unresolved-domain encoding collision'' \<and> collides en r b"
  using assms
  by (auto simp: abstain_def mk_decision_def unresolved_domain_def collides_def Let_def
      split: prod.split_asm sum.split_asm option.split_asm if_split_asm)

lemma abstain_decides:
  assumes "abstain en r e oc fired br lr why b = (Inr d, b')"
  shows "rd_slot_id d = None \<and> rd_action d = ''ABSTAIN_ADD'' \<and> rd_high_risk d = (any_risk e \<or> fired \<or> hr_receipt br) \<and>
    rd_risk_evidence d = e \<and> rd_outcome d = oc \<and> rd_llm d = lr \<and> rd_method d = ''none'' \<and> rd_confidence d = 0 \<and>
    rd_unresolved_domain d = Some (RESERVED_DOMAIN @ take 32 (en_hash en (rq_uid r)))"
  using assms
  by (auto simp: abstain_def unresolved_domain_def Let_def split: prod.split_asm sum.split_asm option.split_asm if_split_asm
      dest!: mk_decision_eq)

lemma resolved_decides:
  assumes "resolved en i ctx e m c oc fired br lr = Inr d"
  shows "(\<exists>s. slot_lookup (en_registry en) i = Inr s \<and> rd_high_risk d = (any_risk e \<or> fired \<or> sl_high_risk s \<or> hr_receipt br)) \<and>
    rd_slot_id d = Some i \<and> rd_action d = (if i \<in> ex_slot_id ` set ctx then ''BIND'' else ''ADD'') \<and> rd_risk_evidence d = e \<and>
    rd_method d = m \<and> rd_confidence d = c \<and> rd_outcome d = oc \<and> rd_llm d = lr"
  using assms by (auto simp: resolved_def rbind_Inr_iff list_ex_iff dest!: mk_decision_eq)

lemma resolved_total:
  assumes "registry_ok (en_registry en)" and "i \<in> sl_id ` set (sr_slots (en_registry en))" and "oc \<noteq> ''not_attempted_disabled''"
  shows "\<exists>d. resolved en i ctx e m c oc fired br lr = Inr d"
proof -
  obtain s where "slot_lookup (en_registry en) i = Inr s" using assms(2) slot_lookup_ok [OF assms(1)] by blast
  then show ?thesis using assms(3) by (auto simp: resolved_def mk_decision_def)
qed

lemma outcome_hit: "''not_attempted_deterministic_hit'' \<noteq> ''not_attempted_disabled''" and outcome_selected: "''selected'' \<noteq> ''not_attempted_disabled''"
  by simp_all

lemma lookup_target_known:
  assumes "registry_ok reg" and "lookup_target r reg = (Some t, m)"
  shows "t \<in> set (sr_slots reg)"
  using assms(2) registry_tables(1-3) [OF assms(1)]
  by (auto simp: lookup_target_def folded_alias_def Let_def split: option.split_asm if_split_asm)

lemma guard_known:
  assumes "registry_ok reg" and "gp_target (prepare_guard r reg e) = Some t"
  shows "t \<in> set (sr_slots reg)"
  using assms(2) lookup_target_known [OF assms(1)] by (auto simp: prepare_guard_def split: prod.split_asm)

lemma guard_fired: "gp_fired (prepare_guard r reg e) \<longleftrightarrow> requires_hr_escalation (gp_target (prepare_guard r reg e)) e"
  by (simp add: prepare_guard_def split: prod.split)

lemma guard_quiet:
  assumes "gp_target (prepare_guard r reg e) = Some t" and "\<not> gp_fired (prepare_guard r reg e)"
  shows "set (re_matched e) \<subseteq> {sl_id t}"
  using assms by (auto simp: guard_fired requires_hr_escalation_def any_risk_def)

subsection \<open>What a consulted model can bring about\<close>

definition answered :: "engine \<Rightarrow> provider \<Rightarrow> resolve_request \<Rightarrow> blocking_result \<Rightarrow> suggestion res" where
  "answered en ask r bl =
     ask r (bl_choices bl) (br_slice (bl_receipt bl)) (utf8_cut 2048 (rq_value r)) (utf8_cut 4096 (rq_evidence r)) (cf_timeout_ms (en_config en))"

definition assembled :: "engine \<Rightarrow> resolve_request \<Rightarrow> blocking_result res" where
  "assembled en r =
     (let e = evidence_of en r; g = prepare_guard r (en_registry en) e in
      assemble_blocking (en_hash en) V1 r (en_registry en) e (if gp_fired g then map_option sl_id (gp_target g) else None))"

lemma assembled_closed:
  assumes "registry_ok (en_registry en)"
  shows "\<exists>bl. assembled en r = Inr bl \<and> (bl_overflow bl \<or>
    set (br_choice_set (bl_receipt bl)) \<subseteq> sl_id ` set (sr_slots (en_registry en)) \<and> length (br_choice_set (bl_receipt bl)) \<le> 8 \<and>
    set (re_matched (evidence_of en r)) \<subseteq> set (br_choice_set (bl_receipt bl)) \<and>
    map vw_slot_id (bl_choices bl) = br_choice_set (bl_receipt bl) \<and>
    br_slice (bl_receipt bl) = (if any_risk (evidence_of en r) \<or> list_ex vw_high_risk (bl_choices bl) then ''hr'' else ''benign''))"
proof -
  let ?reg = "en_registry en" and ?e = "evidence_of en r"
  define guarded where "guarded = (let g = prepare_guard r ?reg ?e in if gp_fired g then map_option sl_id (gp_target g) else None)"
  have a: "assembled en r = assemble_blocking (en_hash en) V1 r ?reg ?e guarded" by (simp add: assembled_def guarded_def Let_def)
  have k: "case guarded of None \<Rightarrow> True | Some g \<Rightarrow> g \<in> sl_id ` set (sr_slots ?reg)"
    using guard_known [OF assms, of r ?e] by (auto simp: guarded_def Let_def split: option.split)
  show ?thesis
  proof (cases "length (forced_ids ?e guarded) > MAX_FORCED")
    case True
    then show ?thesis using assemble_overflow [OF True, of "en_hash en" r ?reg] a by auto
  next
    case False
    then have le: "length (forced_ids ?e guarded) \<le> MAX_FORCED" by simp
    note shape = assemble_shape [OF assms evidence_of_def k le refl, of "en_hash en"]
    then obtain slots where slots: "map sl_id slots = choice_ids V1 r (sr_slots ?reg) (forced_ids ?e guarded)"
      and s: "assembled en r = Inr
        \<lparr>bl_receipt = \<lparr>br_choice_set = map sl_id slots, br_choice_hash = choice_hash (en_hash en) (map sl_id slots),
            br_slice = (if any_risk ?e \<or> list_ex sl_high_risk slots then ''hr'' else ''benign''), br_forced = forced_ids ?e guarded\<rparr>,
         bl_choices = map view_of slots, bl_overflow = False\<rparr>" using a by auto
    have "map vw_slot_id (map view_of slots) = map sl_id slots" by (simp add: view_of_def o_def)
    moreover have "list_ex sl_high_risk slots = list_ex vw_high_risk (map view_of slots)" by (simp add: list_ex_iff view_of_def)
    moreover have "set (re_matched ?e) \<subseteq> set (map sl_id slots)"
      using shape forced_ids_set [of ?e guarded] unfolding slots by auto
    ultimately show ?thesis using shape unfolding slots [symmetric] s by simp
  qed
qed

text \<open>A usable answer abstains, or names a slot of the choice set with a confidence the calibration knows.\<close>

lemma judged_ok:
  assumes "judge_suggestion s br cal timeout = Inr (''ok'', v)"
  obtains c y where "sg_choice s = JStr c" "chosen s br = Some c" "usable_confidence (sg_confidence s) = Inr (Some y)"
    and "fst (provider_outcome s timeout) = ''ok''"
    and "c = ''ABSTAIN'' \<and> v = None \<or> c \<noteq> ''ABSTAIN'' \<and> v \<noteq> None \<and> calibrate y cal = v"
proof -
  have ok: "fst (provider_outcome s timeout) = ''ok''"
    using assms by (cases "fst (provider_outcome s timeout) = ''ok''") (simp_all add: judge_suggestion_def)
  obtain c where c: "sg_choice s = JStr c"
    using assms ok by (cases "sg_choice s") (simp_all add: judge_suggestion_def)
  obtain x where x: "usable_confidence (sg_confidence s) = Inr x"
    using assms ok c by (cases "usable_confidence (sg_confidence s)") (simp_all add: judge_suggestion_def)
  obtain y where y: "x = Some y"
    using assms ok c x by (cases x; cases "chosen s br") (simp_all add: judge_suggestion_def)
  obtain c' where c': "chosen s br = Some c'"
    using assms ok c x y by (cases "chosen s br") (simp_all add: judge_suggestion_def)
  then have "c' = c" using c by (simp add: chosen_def split: if_split_asm)
  then have "c = ''ABSTAIN'' \<and> v = None \<or> c \<noteq> ''ABSTAIN'' \<and> v \<noteq> None \<and> calibrate y cal = v"
    using assms ok c x y c' by (cases "c = ''ABSTAIN''"; cases "calibrate y cal") (auto simp: judge_suggestion_def)
  then show ?thesis using that c x y c' ok \<open>c' = c\<close> by blast
qed

lemma chosen_closed: "chosen s br = Some c \<Longrightarrow> c = ''ABSTAIN'' \<or> c \<in> set (br_choice_set br)"
  by (cases "sg_choice s") (simp_all add: chosen_def split: if_split_asm)

lemma usable_unit: "usable_confidence c = Inr (Some y) \<Longrightarrow> 0 \<le> y \<and> y \<le> 1"
  by (auto simp: usable_confidence_def split: raw_confidence.split_asm pyfloat.split_asm if_split_asm)

definition REPLY_OUTCOMES :: "string list" where
  "REPLY_OUTCOMES = [''ok'', ''invalid_output'', ''transport_failed'', ''timeout'']"

lemma provider_outcomes: "fst (provider_outcome s timeout) \<in> set REPLY_OUTCOMES"
  by (simp add: provider_outcome_def Let_def REPLY_OUTCOMES_def)

lemma judged_outcome:
  assumes "judge_suggestion s br cal timeout = Inr (oc, v)"
  shows "oc \<in> set REPLY_OUTCOMES"
proof (cases "fst (provider_outcome s timeout) = ''ok''")
  case False
  then show ?thesis using assms provider_outcomes [of s timeout] by (simp add: judge_suggestion_def)
next
  case True
  have known: "''ok'' \<in> set REPLY_OUTCOMES" "''invalid_output'' \<in> set REPLY_OUTCOMES" by (simp_all add: REPLY_OUTCOMES_def)
  show ?thesis
  proof (cases "sg_choice s")
    case (JStr t)
    then obtain x where x: "usable_confidence (sg_confidence s) = Inr x"
      using assms True by (cases "usable_confidence (sg_confidence s)") (simp_all add: judge_suggestion_def)
    show ?thesis
      using assms True JStr x known
      by (cases "chosen s br"; cases x) (auto simp: judge_suggestion_def split: if_split_asm option.split_asm)
  qed (use assms True known in \<open>simp_all add: judge_suggestion_def\<close>)
qed

lemma judged_raises:
  assumes "judge_suggestion s br cal timeout = Inl x"
  shows "x = OverflowError \<and> (\<exists>n. sg_confidence s = IntConf n \<and> int_overflows n)"
proof -
  have ok: "fst (provider_outcome s timeout) = ''ok''"
    using assms by (cases "fst (provider_outcome s timeout) = ''ok''") (simp_all add: judge_suggestion_def)
  obtain c where c: "sg_choice s = JStr c"
    using assms ok by (cases "sg_choice s") (simp_all add: judge_suggestion_def)
  have "usable_confidence (sg_confidence s) = Inl x"
  proof (cases "usable_confidence (sg_confidence s)")
    case (Inl z)
    then show ?thesis using assms ok c by (simp add: judge_suggestion_def)
  next
    case (Inr z)
    then show ?thesis using assms ok c by (cases z; cases "chosen s br") (auto simp: judge_suggestion_def split: if_split_asm option.split_asm)
  qed
  then show ?thesis by (auto simp: usable_confidence_def split: raw_confidence.split_asm pyfloat.split_asm if_split_asm)
qed

lemma conclude_cases:
  assumes "conclude en r ctx e fired top_up br cal s b = (x, b')"
  obtains (raised) n where "x = Inl OverflowError" "sg_confidence s = IntConf n" "int_overflows n" "b' = b"
  | (abstained) oc v where "abstain en r e oc fired (Some br) (Some (receipt_of en r br s v)) None b = (x, b')"
      "oc \<noteq> ''not_attempted_disabled''"
  | (selected) c y v where "sg_choice s = JStr c" "c \<in> set (br_choice_set br)" "c \<noteq> ''ABSTAIN''"
      "usable_confidence (sg_confidence s) = Inr (Some y)" "calibrate y cal = Some v" "tau_for en top_up cal \<le> v"
      "fst (provider_outcome s (cf_timeout_ms (en_config en))) = ''ok''"
      "x = resolved en c ctx e ''llm_choice'' v ''selected'' fired (Some br) (Some (receipt_of en r br s (Some v)))" "b' = b"
proof (cases "judge_suggestion s br cal (cf_timeout_ms (en_config en))")
  case (Inl z)
  then have "z = OverflowError \<and> (\<exists>n. sg_confidence s = IntConf n \<and> int_overflows n)" by (rule judged_raises)
  then show ?thesis using raised assms Inl by (auto simp: conclude_def)
next
  case (Inr ov)
  obtain oc v where ov: "ov = (oc, v)" by (cases ov)
  note j = Inr [unfolded ov]
  show ?thesis
  proof (cases "oc = ''ok''")
    case False
    then have "abstain en r e oc fired (Some br) (Some (receipt_of en r br s v)) None b = (x, b')"
      using assms j by (simp add: conclude_def Let_def)
    moreover have "oc \<noteq> ''not_attempted_disabled''" using judged_outcome [OF j] by (auto simp: REPLY_OUTCOMES_def)
    ultimately show ?thesis by (rule abstained)
  next
    case True
    obtain c y where c: "sg_choice s = JStr c" "chosen s br = Some c" "usable_confidence (sg_confidence s) = Inr (Some y)"
        "fst (provider_outcome s (cf_timeout_ms (en_config en))) = ''ok''"
      and v: "c = ''ABSTAIN'' \<and> v = None \<or> c \<noteq> ''ABSTAIN'' \<and> v \<noteq> None \<and> calibrate y cal = v"
      using judged_ok [OF j [unfolded True]] by blast
    show ?thesis
    proof (cases "c = ''ABSTAIN''")
      case abst: True
      show ?thesis by (rule abstained [of "''abstained''" v]) (use assms j True c abst in \<open>simp_all add: conclude_def Let_def\<close>)
    next
      case False
      then obtain w where w: "v = Some w" "calibrate y cal = Some w" using v by auto
      show ?thesis
      proof (cases "w < tau_for en top_up cal")
        case low: True
        show ?thesis by (rule abstained [of "''low_confidence''" v])
            (use assms j True c False w low in \<open>simp_all add: conclude_def Let_def\<close>)
      next
        case high: False
        show ?thesis
          by (rule selected [OF c(1) _ False c(3) w(2) _ c(4)])
            (use assms j True c False w high chosen_closed [OF c(2)] in \<open>simp_all add: conclude_def Let_def\<close>)
      qed
    qed
  qed
qed

definition called :: "resolve_request \<Rightarrow> run_budget \<Rightarrow> run_budget" where
  "called r b = (seen r b)\<lparr>rb_calls_made := rb_calls_made b + 1\<rparr>"

text \<open>The engine settles a request without the provider, or charges the budget and asks it.\<close>

lemma consider_cases:
  assumes "assembled en r = Inr bl" and "consider_choices en ask r ctx e fired bl b = (x, b')"
  obtains (kept) oc why where "abstain en r e oc fired (Some (bl_receipt bl)) None why b = (x, b')" "reason_fits why oc"
      "\<And>ask'. consider_choices en ask' r ctx e fired bl b = (x, b')"
  | (asked) "\<not> bl_overflow bl" "slice_is_valid en (br_slice (bl_receipt bl))"
      "\<not> any_risk e \<Longrightarrow> br_slice (bl_receipt bl) = ''hr'' \<Longrightarrow> slice_is_valid en ''benign''"
      "ask_model en ask r ctx e fired (br_slice (bl_receipt bl) = ''hr'' \<and> \<not> any_risk e) bl b = (x, b')"
proof -
  let ?br = "bl_receipt bl"
  let ?top = "br_slice ?br = ''hr'' \<and> \<not> any_risk e"
  consider "bl_overflow bl" | "\<not> bl_overflow bl" "br_choice_set ?br = []"
    | "\<not> bl_overflow bl" "br_choice_set ?br \<noteq> []" "?top \<and> (\<not> slice_is_valid en ''benign'' \<or> \<not> slice_is_valid en ''hr'')"
    | "\<not> bl_overflow bl" "br_choice_set ?br \<noteq> []" "\<not> (?top \<and> (\<not> slice_is_valid en ''benign'' \<or> \<not> slice_is_valid en ''hr''))"
      "\<not> slice_is_valid en (br_slice ?br)"
    | "\<not> bl_overflow bl" "br_choice_set ?br \<noteq> []" "\<not> (?top \<and> (\<not> slice_is_valid en ''benign'' \<or> \<not> slice_is_valid en ''hr''))"
      "slice_is_valid en (br_slice ?br)" by blast
  then show ?thesis
  proof cases
    case 1
    then show ?thesis using assms(2) by (intro kept [of "''forced_set_overflow''" None]) (simp_all add: consider_choices_def Let_def)
  next
    case 2
    then show ?thesis using assms(2) by (intro kept [of "''not_attempted_empty_choice_set''" None]) (simp_all add: consider_choices_def Let_def)
  next
    case 3
    then show ?thesis using assms(2)
      by (intro kept [of "''not_attempted_disabled''" "Some ''tau_applied_component_unavailable''"])
        (simp_all only: consider_choices_def Let_def if_True if_False, simp_all)
  next
    case 4
    then show ?thesis using assms(2)
      by (intro kept [of "''not_attempted_disabled''"
            "Some (if br_slice ?br = ''hr'' \<and> any_risk e then ''hr_slice_required_but_disabled'' else ''slice_disabled'')"])
        (simp_all only: consider_choices_def Let_def if_True if_False, simp_all)
  next
    case 5
    then show ?thesis using assms(2) by (intro asked) (auto simp: consider_choices_def Let_def)
  qed
qed

lemma ask_model_answer:
  assumes "slice_is_valid en (br_slice (bl_receipt bl))"
  obtains cal where "slice_of en (br_slice (bl_receipt bl)) = Some cal"
    and "ask_model en ask r ctx e fired top_up bl (seen r b) =
      (case answered en ask r bl of Inl x \<Rightarrow> (Inl x, called r b)
       | Inr s \<Rightarrow> conclude en r ctx e fired top_up (bl_receipt bl) cal s (called r b))"
proof -
  obtain cal where "slice_of en (br_slice (bl_receipt bl)) = Some cal"
    using assms by (auto simp: slice_is_valid_def split: option.split_asm)
  note c = this
  show ?thesis by (rule that [OF c]) (simp add: c ask_model_def answered_def truncation_def called_def Let_def split: sum.split)
qed

lemma resolve_cases:
  assumes "registry_ok (en_registry en)" and "resolve en ask r ctx b = (x, b')"
  obtains (again) "rq_uid r \<in> set (rb_seen_uids b)" "x = Inl (ValueError ''duplicate request_uid in run budget'')" "b' = b"
      "\<And>ask'. resolve en ask' r ctx b = (x, b')"
  | (hit) t m where "rq_uid r \<notin> set (rb_seen_uids b)" "t \<in> set (sr_slots (en_registry en))" "set (re_matched (evidence_of en r)) \<subseteq> {sl_id t}"
      "lookup_target r (en_registry en) = (Some t, m)"
      "x = resolved en (sl_id t) ctx (evidence_of en r) m 1 ''not_attempted_deterministic_hit'' False None None" "b' = seen r b"
      "\<And>ask'. resolve en ask' r ctx b = (x, b')"
  | (kept) oc fired br why where "rq_uid r \<notin> set (rb_seen_uids b)" "abstain en r (evidence_of en r) oc fired br None why (seen r b) = (x, b')"
      "reason_fits why oc" "\<And>ask'. resolve en ask' r ctx b = (x, b')"
  | (asked) bl fired where "rq_uid r \<notin> set (rb_seen_uids b)" "en_disabled en = None" "cf_llm_enabled (en_config en)"
      "rb_max_calls b - rb_calls_made b \<ge> LLM_LEGS_RESERVED" "assembled en r = Inr bl" "\<not> bl_overflow bl"
      "slice_is_valid en (br_slice (bl_receipt bl))"
      "ask_model en ask r ctx (evidence_of en r) fired (br_slice (bl_receipt bl) = ''hr'' \<and> \<not> any_risk (evidence_of en r)) bl (seen r b) = (x, b')"
proof (cases "rq_uid r \<in> set (rb_seen_uids b)")
  case True
  then show ?thesis using assms(2) by (intro again) (simp_all add: resolve_def)
next
  case new: False
  let ?e = "evidence_of en r" and ?reg = "en_registry en"
  define g where "g = prepare_guard r ?reg ?e"
  have eq: "resolve en ask' r ctx b = (case (gp_target g, gp_fired g) of
      (Some t, False) \<Rightarrow> (resolved en (sl_id t) ctx ?e (gp_method g) 1 ''not_attempted_deterministic_hit'' False None None, seen r b)
    | _ \<Rightarrow>
        if en_disabled en \<noteq> None then abstain en r ?e ''not_attempted_disabled'' (gp_fired g) None None (en_disabled en) (seen r b)
        else if \<not> cf_llm_enabled (en_config en)
          then abstain en r ?e ''not_attempted_disabled'' (gp_fired g) None None (Some ''global_disabled'') (seen r b)
        else if rb_max_calls (seen r b) - rb_calls_made (seen r b) < LLM_LEGS_RESERVED
          then abstain en r ?e ''not_attempted_budget_exhausted'' (gp_fired g) None None None (seen r b)
        else (case assembled en r of Inl x \<Rightarrow> (Inl x, seen r b) | Inr bl \<Rightarrow> consider_choices en ask' r ctx ?e (gp_fired g) bl (seen r b)))" for ask'
    unfolding resolve_def Let_def seen_def evidence_of_def assembled_def g_def by (simp only: new if_False)
  show ?thesis
  proof (cases "gp_target g \<noteq> None \<and> \<not> gp_fired g")
    case True
    then obtain t where t: "gp_target g = Some t" by auto
    have q: "t \<in> set (sr_slots ?reg)" "set (re_matched ?e) \<subseteq> {sl_id t}"
      using t True guard_known [OF assms(1)] guard_quiet unfolding g_def by blast+
    have m: "lookup_target r ?reg = (Some t, gp_method g)"
      using t by (simp add: g_def prepare_guard_def split: prod.split_asm)
    show ?thesis by (rule hit [OF new q m]) (use True t eq assms(2) in auto)
  next
    case miss: False
    have eq: "resolve en ask' r ctx b =
       (if en_disabled en \<noteq> None then abstain en r ?e ''not_attempted_disabled'' (gp_fired g) None None (en_disabled en) (seen r b)
        else if \<not> cf_llm_enabled (en_config en)
          then abstain en r ?e ''not_attempted_disabled'' (gp_fired g) None None (Some ''global_disabled'') (seen r b)
        else if rb_max_calls b - rb_calls_made b < LLM_LEGS_RESERVED
          then abstain en r ?e ''not_attempted_budget_exhausted'' (gp_fired g) None None None (seen r b)
        else (case assembled en r of Inl x \<Rightarrow> (Inl x, seen r b) | Inr bl \<Rightarrow> consider_choices en ask' r ctx ?e (gp_fired g) bl (seen r b)))" for ask'
      unfolding eq using miss by (cases "gp_target g"; cases "gp_fired g") auto
    obtain bl where bl: "assembled en r = Inr bl" using assembled_closed [OF assms(1)] by blast
    show ?thesis
    proof (cases "en_disabled en \<noteq> None \<or> \<not> cf_llm_enabled (en_config en) \<or> rb_max_calls b - rb_calls_made b < LLM_LEGS_RESERVED")
      case True
      then consider "en_disabled en \<noteq> None" | "en_disabled en = None" "\<not> cf_llm_enabled (en_config en)"
        | "en_disabled en = None" "cf_llm_enabled (en_config en)" "rb_max_calls b - rb_calls_made b < LLM_LEGS_RESERVED" by blast
      then show ?thesis
      proof cases
        case 1
        then show ?thesis using assms(2) by (intro kept [of "''not_attempted_disabled''" "gp_fired g" None "en_disabled en"]) (simp_all add: new eq)
      next
        case 2
        then show ?thesis using assms(2) by (intro kept [of "''not_attempted_disabled''" "gp_fired g" None "Some ''global_disabled''"]) (simp_all add: new eq)
      next
        case 3
        then show ?thesis using assms(2) by (intro kept [of "''not_attempted_budget_exhausted''" "gp_fired g" None None]) (simp_all add: new eq)
      qed
    next
      case False
      then have c: "resolve en ask' r ctx b = consider_choices en ask' r ctx ?e (gp_fired g) bl (seen r b)" for ask' unfolding eq by (simp add: bl)
      from assms(2) [unfolded c] show ?thesis
      proof (cases rule: consider_cases [OF bl, consumes 1, case_names settled posed])
        case (settled oc why)
        show ?thesis by (rule kept [OF new settled(1,2)]) (simp add: c settled(3))
      next
        case posed
        show ?thesis by (rule asked [OF new _ _ _ bl posed(1,2) posed(4)]) (use False in auto)
      qed
    qed
  qed
qed

subsection \<open>A model cannot steer past the evidence\<close>

text \<open>A resolution the model was asked for: its answer, calibrated, passed every check.\<close>

definition chosen_by_model :: "engine \<Rightarrow> provider \<Rightarrow> resolve_request \<Rightarrow> run_budget \<Rightarrow> string \<Rightarrow> rat \<Rightarrow> bool" where
  "chosen_by_model en ask r b i v \<longleftrightarrow>
     cf_llm_enabled (en_config en) \<and> en_disabled en = None \<and> rb_max_calls b - rb_calls_made b \<ge> LLM_LEGS_RESERVED \<and>
     (\<exists>bl cal s y. assembled en r = Inr bl \<and> slice_is_valid en (br_slice (bl_receipt bl)) \<and>
        slice_of en (br_slice (bl_receipt bl)) = Some cal \<and> answered en ask r bl = Inr s \<and>
        fst (provider_outcome s (cf_timeout_ms (en_config en))) = ''ok'' \<and>
        sg_choice s = JStr i \<and> i \<in> set (map vw_slot_id (bl_choices bl)) \<and> usable_confidence (sg_confidence s) = Inr (Some y) \<and>
        calibrate y cal = Some v \<and> tau_for en (br_slice (bl_receipt bl) = ''hr'' \<and> \<not> any_risk (evidence_of en r)) cal \<le> v)"

text \<open>All ways to end, with the answer of the provider where it was asked.\<close>

lemma resolve_outcomes:
  assumes reg: "registry_ok (en_registry en)" and res: "resolve en ask r ctx b = (x, b')"
  obtains (again) "rq_uid r \<in> set (rb_seen_uids b)" "x = Inl (ValueError ''duplicate request_uid in run budget'')" "b' = b"
      "\<And>ask'. resolve en ask' r ctx b = (x, b')"
  | (hit) t m where "rq_uid r \<notin> set (rb_seen_uids b)" "t \<in> set (sr_slots (en_registry en))" "set (re_matched (evidence_of en r)) \<subseteq> {sl_id t}"
      "lookup_target r (en_registry en) = (Some t, m)" "m \<noteq> ''llm_choice''"
      "x = resolved en (sl_id t) ctx (evidence_of en r) m 1 ''not_attempted_deterministic_hit'' False None None" "b' = seen r b"
      "\<And>ask'. resolve en ask' r ctx b = (x, b')"
  | (kept) oc fired br why where "rq_uid r \<notin> set (rb_seen_uids b)" "abstain en r (evidence_of en r) oc fired br None why (seen r b) = (x, b')"
      "reason_fits why oc" "\<And>ask'. resolve en ask' r ctx b = (x, b')"
  | (refused) bl z where "rq_uid r \<notin> set (rb_seen_uids b)" "rb_max_calls b - rb_calls_made b \<ge> LLM_LEGS_RESERVED"
      "assembled en r = Inr bl" "answered en ask r bl = Inl z" "x = Inl z" "b' = called r b"
  | (overflowed) bl s n where "rq_uid r \<notin> set (rb_seen_uids b)" "rb_max_calls b - rb_calls_made b \<ge> LLM_LEGS_RESERVED"
      "assembled en r = Inr bl" "answered en ask r bl = Inr s" "x = Inl OverflowError" "sg_confidence s = IntConf n" "int_overflows n" "b' = called r b"
  | (declined) bl s oc fired v where "rq_uid r \<notin> set (rb_seen_uids b)" "rb_max_calls b - rb_calls_made b \<ge> LLM_LEGS_RESERVED"
      "assembled en r = Inr bl" "answered en ask r bl = Inr s" "oc \<noteq> ''not_attempted_disabled''"
      "abstain en r (evidence_of en r) oc fired (Some (bl_receipt bl)) (Some (receipt_of en r (bl_receipt bl) s v)) None (called r b) = (x, b')"
  | (selected) bl s c v fired where "rq_uid r \<notin> set (rb_seen_uids b)" "rb_max_calls b - rb_calls_made b \<ge> LLM_LEGS_RESERVED"
      "assembled en r = Inr bl" "\<not> bl_overflow bl" "answered en ask r bl = Inr s" "sg_choice s = JStr c" "c \<in> set (br_choice_set (bl_receipt bl))"
      "chosen_by_model en ask r b c v" "b' = called r b"
      "x = resolved en c ctx (evidence_of en r) ''llm_choice'' v ''selected'' fired (Some (bl_receipt bl))
        (Some (receipt_of en r (bl_receipt bl) s (Some v)))"
  using reg res
proof (cases rule: resolve_cases)
  case again': again
  show ?thesis by (rule again [OF again'])
next
  case hit': (hit t m)
  then have "m \<noteq> ''llm_choice''" by (auto simp: lookup_target_def Let_def split: option.split_asm)
  then show ?thesis by (rule hit [OF hit'(1-4) _ hit'(5-7)])
next
  case kept': (kept oc fired br why)
  show ?thesis by (rule kept [OF kept'])
next
  case (asked bl fired)
  let ?br = "bl_receipt bl" and ?e = "evidence_of en r"
  let ?top = "br_slice ?br = ''hr'' \<and> \<not> any_risk ?e"
  obtain cal where cal: "slice_of en (br_slice ?br) = Some cal"
    and a: "ask_model en ask r ctx ?e fired ?top bl (seen r b) =
      (case answered en ask r bl of Inl z \<Rightarrow> (Inl z, called r b) | Inr s \<Rightarrow> conclude en r ctx ?e fired ?top ?br cal s (called r b))"
    by (rule ask_model_answer [OF asked(7)])
  show ?thesis
  proof (cases "answered en ask r bl")
    case (Inl z)
    then show ?thesis using asked(8) a by (intro refused [OF asked(1,4,5)]) auto
  next
    case (Inr s)
    then have "conclude en r ctx ?e fired ?top ?br cal s (called r b) = (x, b')" using asked(8) a by simp
    then show ?thesis
    proof (cases rule: conclude_cases)
      case (raised n)
      then show ?thesis by (intro overflowed [OF asked(1,4,5) Inr])
    next
      case (abstained oc v)
      then show ?thesis by (intro declined [OF asked(1,4,5) Inr])
    next
      case sel: (selected c y v)
      have "map vw_slot_id (bl_choices bl) = br_choice_set ?br" using assembled_closed [OF reg, of r] asked(5,6) by auto
      then have "chosen_by_model en ask r b c v"
        unfolding chosen_by_model_def using asked(2-7) cal Inr sel(1,2,4-7) by (intro conjI exI) auto
      then show ?thesis using sel by (intro selected [OF asked(1,4,5,6) Inr])
    qed
  qed
qed

text \<open>
  C38: evidence of risk is not bypassed.  A request that resolves to a slot resolves to one of the registry.  Either a
  lookup of the name found the slot, the provider played no part, and no other slot of high risk was in evidence; or the
  model chose it, from a set that holds every slot of high risk in evidence.  The decision carries the evidence and is
  marked as high risk when there is any or the slot itself is.
\<close>

theorem risk_not_bypassed:
  assumes "registry_ok (en_registry en)" and "resolve en ask r ctx b = (Inr d, b')" and "rd_slot_id d = Some i"
  shows "\<exists>s \<in> set (sr_slots (en_registry en)). sl_id s = i \<and>
    rd_risk_evidence d = compute_risk_evidence r (sr_slots (en_registry en)) \<and>
    (re_matched (rd_risk_evidence d) \<noteq> [] \<or> sl_high_risk s \<longrightarrow> rd_high_risk d) \<and>
    (rd_method d \<noteq> ''llm_choice'' \<and> lookup_target r (en_registry en) = (Some s, rd_method d) \<and> set (re_matched (rd_risk_evidence d)) \<subseteq> {i} \<and> (\<forall>ask'. resolve en ask' r ctx b = (Inr d, b')) \<or>
     rd_method d = ''llm_choice'' \<and> chosen_by_model en ask r b i (rd_confidence d) \<and>
       (\<exists>bl. assembled en r = Inr bl \<and> i \<in> vw_slot_id ` set (bl_choices bl) \<and> length (bl_choices bl) \<le> 8 \<and>
          set (re_matched (rd_risk_evidence d)) \<subseteq> vw_slot_id ` set (bl_choices bl)))"
  using assms(1,2)
proof (cases rule: resolve_outcomes)
  case (hit t m)
  note d = resolved_decides [OF hit(6) [symmetric]]
  have "sl_id t = i" using d assms(3) by simp
  moreover from this have "slot_lookup (en_registry en) i = Inr t" using slot_lookup_ok [OF assms(1)] hit(2) by blast
  ultimately show ?thesis using d hit(2-5,8) by (intro bexI [of _ t]) (auto simp: evidence_of_def any_risk_def)
next
  case (selected bl s c v fired)
  note d = resolved_decides [OF selected(10) [symmetric]]
  have i: "c = i" using d assms(3) by simp
  obtain sl where sl: "slot_lookup (en_registry en) i = Inr sl" "any_risk (evidence_of en r) \<or> sl_high_risk sl \<longrightarrow> rd_high_risk d"
    using d i by auto
  have m: "map vw_slot_id (bl_choices bl) = br_choice_set (bl_receipt bl)" "length (br_choice_set (bl_receipt bl)) \<le> 8"
      "set (re_matched (evidence_of en r)) \<subseteq> set (br_choice_set (bl_receipt bl))"
    using assembled_closed [OF assms(1), of r] selected(3,4) by auto
  have c: "length (bl_choices bl) \<le> 8 \<and> set (re_matched (evidence_of en r)) \<subseteq> vw_slot_id ` set (bl_choices bl) \<and>
      i \<in> vw_slot_id ` set (bl_choices bl)"
    using m(2,3) selected(7) unfolding m(1) [symmetric] i by simp
  have "sl \<in> set (sr_slots (en_registry en)) \<and> sl_id sl = i" using sl(1) slot_lookup_ok [OF assms(1)] by blast
  then show ?thesis using d sl(2) c selected(3,8) i by (intro bexI [of _ sl]) (auto simp: evidence_of_def any_risk_def)
next
  case (kept oc fired br why)
  then show ?thesis using abstain_decides [OF kept(2)] assms(3) by simp
next
  case (declined bl s oc fired v)
  then show ?thesis using abstain_decides [OF declined(6)] assms(3) by simp
qed simp_all

text \<open>
  The engine is total.  Over a registry that loaded, a call raises only because the request was resolved before in the
  run (and then nothing changes), because the encoding of an unresolved domain collides with that of another request,
  because the provider raised, or because it answered with an integer confidence too large for a float.
\<close>

lemma resolve_errors:
  assumes "registry_ok (en_registry en)" and "resolve en ask r ctx b = (Inl x, b')"
  shows "(rq_uid r \<in> set (rb_seen_uids b) \<and> x = ValueError ''duplicate request_uid in run budget'' \<and> b' = b) \<or>
    (collides en r b \<and> x = RuntimeError ''unresolved-domain encoding collision'') \<or>
    (\<exists>bl. assembled en r = Inr bl \<and>
       (answered en ask r bl = Inl x \<or>
        x = OverflowError \<and> (\<exists>s n. answered en ask r bl = Inr s \<and> sg_confidence s = IntConf n \<and> int_overflows n)))"
  using assms
proof (cases rule: resolve_outcomes)
  case (hit t m)
  then show ?thesis using resolved_total [OF assms(1), of "sl_id t"] by (metis Inl_Inr_False imageI outcome_hit)
next
  case (kept oc fired br why)
  then show ?thesis using abstain_raises [OF kept(2,3)] by (simp add: collides_def)
next
  case (declined bl s oc fired v)
  then show ?thesis using abstain_raises [OF declined(6)] by (simp add: collides_def called_def)
next
  case (selected bl s c v fired)
  have "c \<in> sl_id ` set (sr_slots (en_registry en))" using assembled_closed [OF assms(1), of r] selected(3,4,7) by auto
  then show ?thesis using selected(10) resolved_total [OF assms(1), of c] by (metis Inl_Inr_False outcome_selected)
qed auto

subsection \<open>A provider that keeps its contract\<close>

context fallback_provider
begin

lemma violation:
  assumes "answered en ask r bl = Inr s"
  shows "snd (provider_outcome s timeout) \<in> {None, Some ''timeout_exceeded_ok''}"
proof -
  have "reply_ok (map vw_slot_id (bl_choices bl)) s" using answers assms unfolding answered_def by blast
  then obtain before a where s: "sg_attempts s = before @ [a]" "length before \<le> 1" "list_all failed_attempt before"
    and a: "last_attempt_ok (map vw_slot_id (bl_choices bl)) s a" by (auto simp: reply_ok_def)
  have known: "ta_outcome x \<in> set [''ok'', ''transport_error'', ''timeout'', ''invalid_output''] \<and> \<not> excerpt_misused x"
    if "x \<in> set (sg_attempts s)" for x
  proof (cases "x = a")
    case True
    then show ?thesis using a by (auto simp: last_attempt_ok_def failed_attempt_def excerpt_misused_def split: if_split_asm)
  next
    case False
    then show ?thesis using that s by (auto simp: failed_attempt_def excerpt_misused_def list_all_iff)
  qed
  have first: "\<not> (length (sg_attempts s) > 2 \<or>
      length (sg_attempts s) = 2 \<and> ta_outcome (hd (sg_attempts s)) \<notin> set [''transport_error'', ''timeout''])"
    using s by (cases before) (auto simp: failed_attempt_def)
  have pay: "\<not> (ta_outcome (last (sg_attempts s)) \<noteq> ''ok'' \<and> (sg_choice s \<noteq> JNull \<or> sg_confidence s \<noteq> NoConf))"
    using a s by (auto simp: last_attempt_ok_def)
  have "\<not> list_ex (\<lambda>a. ta_outcome a \<notin> set [''ok'', ''transport_error'', ''timeout'', ''invalid_output'']) (sg_attempts s)"
    "\<not> list_ex excerpt_misused (sg_attempts s)" "sg_attempts s \<noteq> []" using known s(1) by (auto simp: list_ex_iff)
  then show ?thesis unfolding provider_outcome_def Let_def using first pay by (simp only: if_False not_True_eq_False) simp
qed

lemma no_int_confidence:
  assumes "answered en ask r bl = Inr s"
  shows "sg_confidence s \<noteq> IntConf n"
  using answers [OF assms [unfolded answered_def]] by (auto simp: reply_ok_def last_attempt_ok_def split: if_split_asm)

lemma resolve_raises:
  assumes "registry_ok (en_registry en)" and "cf_timeout_ms (en_config en) > 0" and "resolve en ask r ctx b = (Inl x, b')"
  shows "(rq_uid r \<in> set (rb_seen_uids b) \<and> x = ValueError ''duplicate request_uid in run budget'' \<and> b' = b) \<or>
    (collides en r b \<and> x = RuntimeError ''unresolved-domain encoding collision'') \<or> x = OverflowError"
  using resolve_errors [OF assms(1,3)] raises assms(2) unfolding answered_def by (metis not_le)

lemma receipt_fields:
  assumes "answered en ask r bl = Inr s"
  shows "lr_violation (receipt_of en r br s v) \<in> {None, Some ''timeout_exceeded_ok''} \<and> length (lr_attempts (receipt_of en r br s v)) \<le> 2"
proof -
  have "length (sg_attempts s) \<le> 2" using answers assms unfolding answered_def reply_ok_def by fastforce
  then show ?thesis using violation [OF assms, of "cf_timeout_ms (en_config en)"] by (simp add: receipt_of_def)
qed

lemma receipt_clean:
  assumes "registry_ok (en_registry en)" and "resolve en ask r ctx b = (Inr d, b')" and "rd_llm d = Some l"
  shows "lr_violation l \<in> {None, Some ''timeout_exceeded_ok''} \<and> length (lr_attempts l) \<le> 2"
  using assms(1,2)
proof (cases rule: resolve_outcomes)
  case (hit t m)
  then show ?thesis using resolved_decides [OF hit(6) [symmetric]] assms(3) by simp
next
  case (kept oc fired br why)
  then show ?thesis using abstain_decides [OF kept(2)] assms(3) by simp
next
  case (declined bl s oc fired v)
  then show ?thesis using abstain_decides [OF declined(6)] assms(3) receipt_fields [OF declined(4)] by auto
next
  case (selected bl s c v fired)
  then show ?thesis using resolved_decides [OF selected(10) [symmetric]] assms(3) receipt_fields [OF selected(5)] by auto
qed simp_all

end

lemma llm_choice_answered:
  assumes "registry_ok (en_registry en)" and "resolve en ask r ctx b = (Inr d, b')" and "rd_method d = ''llm_choice''"
  shows "rd_llm d \<noteq> None \<and> (\<exists>bl s i. assembled en r = Inr bl \<and> answered en ask r bl = Inr s \<and> sg_choice s = JStr i \<and> rd_slot_id d = Some i)"
  using assms(1,2)
proof (cases rule: resolve_outcomes)
  case (hit t m)
  then show ?thesis using resolved_decides [OF hit(6) [symmetric]] assms(3) by simp
next
  case (kept oc fired br why)
  then show ?thesis using abstain_decides [OF kept(2)] assms(3) by simp
next
  case (declined bl s oc fired v)
  then show ?thesis using abstain_decides [OF declined(6)] assms(3) by simp
next
  case (selected bl s c v fired)
  then show ?thesis using resolved_decides [OF selected(10) [symmetric]] by auto
qed simp_all

text \<open>
  What a model can do.  Whatever the model answers, fails to answer or takes too long for, over a registry that loaded
  and with a positive time limit, a request is decided unless it is repeated, its unresolved domain collides, or an
  integer confidence overflows.  A decision that asked it lists at most two attempts, with no breach of the contract but
  a late answer; and a slot the model chose was named by a reply whose text is an object with the keys choice and
  confidence and nothing else.
\<close>

theorem model_reply_contained:
  assumes "registry_ok (en_registry en)" and "cf_timeout_ms (en_config en) > 0"
    and "resolve en (suggest lit_float chat) r ctx b = (x, b')"
  shows "case x of
      Inl z \<Rightarrow> rq_uid r \<in> set (rb_seen_uids b) \<and> z = ValueError ''duplicate request_uid in run budget'' \<and> b' = b \<or>
        collides en r b \<and> z = RuntimeError ''unresolved-domain encoding collision'' \<or> z = OverflowError
    | Inr d \<Rightarrow>
        (case rd_llm d of None \<Rightarrow> rd_method d \<noteq> ''llm_choice''
         | Some l \<Rightarrow> lr_violation l \<in> {None, Some ''timeout_exceeded_ok''} \<and> length (lr_attempts l) \<le> 2) \<and>
        (rd_method d = ''llm_choice'' \<longrightarrow>
           (\<exists>bl n system user raw ms. assembled en r = Inr bl \<and> render_prompt r (bl_choices bl) (br_slice (bl_receipt bl))
                (utf8_cut 2048 (rq_value r)) (utf8_cut 4096 (rq_evidence r)) = (system, user) \<and>
              n \<le> 1 \<and> chat n system user = Answered raw ms \<and> names_choice raw (the (rd_slot_id d))))"
proof (cases x)
  case (Inl z)
  then show ?thesis using asked_model.resolve_raises [OF assms(1,2), of lit_float chat r ctx b z b'] assms(3) by simp
next
  case (Inr d)
  note res = assms(3) [unfolded Inr]
  have "\<exists>bl n system user raw ms. assembled en r = Inr bl \<and> render_prompt r (bl_choices bl) (br_slice (bl_receipt bl))
        (utf8_cut 2048 (rq_value r)) (utf8_cut 4096 (rq_evidence r)) = (system, user) \<and>
      n \<le> 1 \<and> chat n system user = Answered raw ms \<and> names_choice raw (the (rd_slot_id d))"
    if m: "rd_method d = ''llm_choice''"
  proof -
    obtain bl s i where a: "assembled en r = Inr bl" "answered en (suggest lit_float chat) r bl = Inr s" "sg_choice s = JStr i" "rd_slot_id d = Some i"
      using llm_choice_answered [OF assms(1) res m] by blast
    from suggest_choice [OF a(2) [unfolded answered_def] a(3)] a(1,4) show ?thesis by auto
  qed
  moreover have "rd_llm d = None \<Longrightarrow> rd_method d \<noteq> ''llm_choice''" using llm_choice_answered [OF assms(1) res] by blast
  moreover have "rd_llm d = Some l \<Longrightarrow> lr_violation l \<in> {None, Some ''timeout_exceeded_ok''} \<and> length (lr_attempts l) \<le> 2" for l
    by (rule asked_model.receipt_clean [OF assms(1) res])
  ultimately show ?thesis unfolding Inr sum.case by (cases "rd_llm d") auto
qed

subsection \<open>The budget of a run\<close>

text \<open>The requests of a run, one after the other on one budget.\<close>

fun resolve_run ::
  "engine \<Rightarrow> provider \<Rightarrow> (resolve_request \<times> existing_slot list) list \<Rightarrow> run_budget \<Rightarrow> resolve_decision res list \<times> run_budget" where
  "resolve_run en ask [] b = ([], b)"
| "resolve_run en ask ((r, ctx) # rs) b =
     (case resolve en ask r ctx b of (x, b1) \<Rightarrow> (case resolve_run en ask rs b1 of (xs, b2) \<Rightarrow> (x # xs, b2)))"

text \<open>One request keeps the limit, charges for the provider before it may matter, and is remembered.\<close>

definition charged :: "engine \<Rightarrow> provider \<Rightarrow> resolve_request \<Rightarrow> existing_slot list \<Rightarrow> run_budget \<Rightarrow> run_budget \<Rightarrow> bool" where
  "charged en ask r ctx b b' \<longleftrightarrow> rb_max_calls b' = rb_max_calls b \<and>
     (rb_seen_uids b' = rb_seen_uids b \<and> rq_uid r \<in> set (rb_seen_uids b) \<or>
      rb_seen_uids b' = rb_seen_uids b @ [rq_uid r] \<and> rq_uid r \<notin> set (rb_seen_uids b)) \<and>
     (rb_calls_made b' = rb_calls_made b \<and> (\<forall>ask'. resolve en ask' r ctx b = resolve en ask r ctx b) \<or>
      rb_calls_made b' = rb_calls_made b + 1 \<and> rb_calls_made b + 2 \<le> rb_max_calls b)"

lemma resolve_charged:
  assumes "registry_ok (en_registry en)" and "resolve en ask r ctx b = (x, b')"
  shows "charged en ask r ctx b b'"
  using assms
proof (cases rule: resolve_outcomes)
  case (kept oc fired br why)
  obtain u where "b' = (seen r b)\<lparr>rb_seen_unresolved := u\<rparr>" using abstain_budget [OF kept(2)] by blast
  then show ?thesis using kept(1,4) assms(2) by (simp add: charged_def)
next
  case (declined bl s oc fired v)
  obtain u where "b' = (called r b)\<lparr>rb_seen_unresolved := u\<rparr>" using abstain_budget [OF declined(6)] by blast
  then show ?thesis using declined(1,2) by (simp add: charged_def called_def LLM_LEGS_RESERVED_def)
qed (use assms(2) in \<open>simp_all add: charged_def called_def LLM_LEGS_RESERVED_def\<close>)

lemma run_bounds:
  assumes "registry_ok (en_registry en)" and "resolve_run en ask rs b = (xs, b')"
    and "distinct (rb_seen_uids b)" and "rb_calls_made b \<le> rb_max_calls b"
  shows "length xs = length rs \<and> rb_max_calls b' = rb_max_calls b \<and> distinct (rb_seen_uids b') \<and>
    rb_calls_made b \<le> rb_calls_made b' \<and> rb_calls_made b' \<le> max (rb_calls_made b) (rb_max_calls b - 1) \<and>
    rb_calls_made b' \<le> rb_calls_made b + int (length rs) \<and>
    set (rb_seen_uids b') = set (rb_seen_uids b) \<union> (rq_uid \<circ> fst) ` set rs"
  using assms(2-4)
proof (induction rs arbitrary: b xs)
  case (Cons q rs)
  obtain r ctx where q: "q = (r, ctx)" by (cases q)
  obtain x b1 where r: "resolve en ask r ctx b = (x, b1)" by (cases "resolve en ask r ctx b")
  obtain ys where ys: "resolve_run en ask rs b1 = (ys, b')" "xs = x # ys" using Cons.prems(1) q r by (auto split: prod.split_asm)
  note c = resolve_charged [OF assms(1) r, unfolded charged_def]
  have "distinct (rb_seen_uids b1)" "rb_calls_made b1 \<le> rb_max_calls b1" using c Cons.prems(2,3) by auto
  note ih = Cons.IH [OF ys(1) this]
  have "set (rb_seen_uids b1) = insert (rq_uid r) (set (rb_seen_uids b))" using c by auto
  then show ?case using ih c ys(2) q by auto
qed auto

lemma run_unasked:
  assumes "registry_ok (en_registry en)" and "resolve_run en ask rs b = (xs, b')" and "rb_calls_made b' = rb_calls_made b"
    and "distinct (rb_seen_uids b)" and "rb_calls_made b \<le> rb_max_calls b"
  shows "resolve_run en ask' rs b = (xs, b')"
  using assms(2-5)
proof (induction rs arbitrary: b xs)
  case (Cons q rs)
  obtain r ctx where q: "q = (r, ctx)" by (cases q)
  obtain x b1 where r: "resolve en ask r ctx b = (x, b1)" by (cases "resolve en ask r ctx b")
  obtain ys where ys: "resolve_run en ask rs b1 = (ys, b')" "xs = x # ys" using Cons.prems(1) q r by (auto split: prod.split_asm)
  note c = resolve_charged [OF assms(1) r, unfolded charged_def]
  have w: "distinct (rb_seen_uids b1)" "rb_calls_made b1 \<le> rb_max_calls b1" using c Cons.prems(3,4) by auto
  have e: "rb_calls_made b1 = rb_calls_made b" using run_bounds [OF assms(1) ys(1) w] c Cons.prems(2) by auto
  then have "resolve_run en ask' rs b1 = (ys, b')" using Cons.IH [OF ys(1) _ w] Cons.prems(2) by simp
  moreover have "rb_calls_made b1 \<noteq> rb_calls_made b + 1" using e by simp
  then have "\<forall>ask'. resolve en ask' r ctx b = resolve en ask r ctx b" using c by blast
  then have "resolve en ask' r ctx b = (x, b1)" using r by metis
  ultimately show ?case using ys(2) q by simp
qed simp


subsection \<open>A request with competing evidence, decided by a model\<close>

definition sample_engine :: engine where
  "sample_engine = \<lparr>en_config = \<lparr>cf_llm_enabled = True, cf_timeout_ms = 1000,
       cf_manifest = Some \<lparr>cm_version = ''1'', cm_model_id = ''m'', cm_prompt_hash = ''p'', cm_registry_hash = ''r'', cm_normalizer_hash = ''n'',
         cm_blocking_hash = ''b'', cm_code_version = RESOLVER_CODE_VERSION, cm_goldset_hashes = [], cm_evidence_hash = ''e'', cm_git_commit = ''g'',
         cm_slices = [(''hr'', \<lparr>cs_n_samples = 40, cs_per_bin = [40], cs_mapping = [(0, 1, 3/4)], cs_tau = 3/4\<rparr>)]\<rparr>,
       cf_manifest_hash = None, cf_evidence_hash = None\<rparr>,
     en_registry = sample_registry, en_hash = (\<lambda>_. ''0''), en_float_text = (\<lambda>_. []), en_model_id = ''m'', en_prompt_hash = ''p'', en_disabled = None\<rparr>"

definition sample_budget :: run_budget where
  "sample_budget = \<lparr>rb_max_calls = 3, rb_calls_made = 0, rb_seen_uids = [], rb_seen_unresolved = []\<rparr>"

definition sample_answer :: string where
  "sample_answer = ''{'' @ quoted ''choice'' @ '':'' @ quoted ''fact:allergy'' @ '','' @ quoted ''confidence'' @ '':1}''"

definition sample_chat :: "nat \<Rightarrow> string \<Rightarrow> string \<Rightarrow> call_outcome" where
  "sample_chat n system user = (if n = 0 then TimedOut 1000 else Answered (JStr sample_answer) 20)"

definition sample_outcome :: "resolve_decision res \<times> run_budget" where
  "sample_outcome = resolve sample_engine (suggest (\<lambda>_. NaN) sample_chat) sample_request [] sample_budget"

lemma sample_decided:
  "(case fst sample_outcome of Inl x \<Rightarrow> None | Inr d \<Rightarrow> Some (rd_slot_id d, rd_method d, rd_confidence d, rd_high_risk d)) =
     Some (Some ''fact:allergy'', ''llm_choice'', 3/4, True)"
  by code_simp

lemma sample_registered: "registry_ok (en_registry sample_engine)"
  by (simp add: sample_engine_def sample_registry_ok)

lemma sample_cases:
  obtains d b' where "sample_outcome = (Inr d, b')" "rd_slot_id d = Some ''fact:allergy''" "rd_method d = ''llm_choice''"
proof -
  obtain x b' where x: "sample_outcome = (x, b')" by (cases sample_outcome)
  from sample_decided obtain d where "x = Inr d" "rd_slot_id d = Some ''fact:allergy''" "rd_method d = ''llm_choice''"
    unfolding x fst_conv by (cases x) simp_all
  then show ?thesis using that x by blast
qed

theorem risk_not_bypassed_witness:
  "\<exists>d b'. sample_outcome = (Inr d, b') \<and>
     chosen_by_model sample_engine (suggest (\<lambda>_. NaN) sample_chat) sample_request sample_budget ''fact:allergy'' (rd_confidence d)"
proof -
  obtain d b' where d: "sample_outcome = (Inr d, b')" "rd_slot_id d = Some ''fact:allergy''" "rd_method d = ''llm_choice''"
    by (rule sample_cases)
  from risk_not_bypassed [OF sample_registered d(1) [unfolded sample_outcome_def] d(2)] d show ?thesis by blast
qed

theorem model_reply_contained_witness: "\<exists>raw. names_choice raw ''fact:allergy''"
proof -
  obtain d b' where d: "sample_outcome = (Inr d, b')" "rd_slot_id d = Some ''fact:allergy''" "rd_method d = ''llm_choice''"
    by (rule sample_cases)
  have "cf_timeout_ms (en_config sample_engine) > 0" by (simp add: sample_engine_def)
  from model_reply_contained [OF sample_registered this d(1) [unfolded sample_outcome_def]] d(2,3) show ?thesis by auto
qed


end
