(* ===== verification/Resolver_Calibrate.thy ===== *)
theory Resolver_Calibrate
  imports Resolver_Engine
begin

text \<open>
  \<open>panella/resolver/calibrate.py\<close>: fitting the confidence mapping of a slice from observed answers, and the checks of
  a loaded manifest.  A decimal of six places is a rational; \<open>scaled\<close>, a parameter, is the product of a float with 10,
  which may round.
\<close>

subsection \<open>Rounding\<close>

text \<open>Half to even, at a whole number and at six decimal places.\<close>

definition half_even :: "rat \<Rightarrow> int" where
  "half_even x = (let n = \<lfloor>x\<rfloor>; d = x - of_int n in if d < 1/2 then n else if d > 1/2 then n + 1 else if even n then n else n + 1)"

definition six :: "rat \<Rightarrow> rat" where
  "six x = of_int (half_even (x * 1000000)) / 1000000"

subsection \<open>Observations\<close>

record observation =
  ob_uid :: string
  ob_conf :: raw_confidence
  ob_correct :: "bool option"

record fit_row =
  fr_uid :: string
  fr_conf :: rat
  fr_correct :: bool

definition finite_conf :: "raw_confidence \<Rightarrow> rat res" where
  "finite_conf c =
     (case c of FloatConf (Finite x) \<Rightarrow> Inr x
      | IntConf n \<Rightarrow> if int_overflows n then Inl OverflowError else Inr (of_int n)
      | _ \<Rightarrow> Inl (ValueError ''raw_confidence must be finite''))"

definition check_observation :: "observation \<Rightarrow> fit_row res" where
  "check_observation ob =
     rbind (finite_conf (ob_conf ob)) (\<lambda>x.
       case ob_correct ob of
         Some c \<Rightarrow> if 0 \<le> x \<and> x \<le> 1 then Inr \<lparr>fr_uid = ob_uid ob, fr_conf = x, fr_correct = c\<rparr>
                   else Inl (ValueError ''invalid calibration observation'')
       | None \<Rightarrow> Inl (ValueError ''invalid calibration observation''))"

subsection \<open>Bins\<close>

definition bin_index :: "(rat \<Rightarrow> rat) \<Rightarrow> rat \<Rightarrow> nat" where
  "bin_index scaled x = min 9 (nat \<lfloor>scaled x\<rfloor>)"

type_synonym group = "nat \<times> nat \<times> fit_row list"

definition bins :: "(rat \<Rightarrow> rat) \<Rightarrow> fit_row list \<Rightarrow> group list" where
  "bins scaled rows = map (\<lambda>i. (i, Suc i, filter (\<lambda>r. bin_index scaled (fr_conf r) = i) rows)) [0..<10]"

definition small :: "group \<Rightarrow> bool" where
  "small g \<longleftrightarrow> length (snd (snd g)) < 5"

fun joined :: "group \<Rightarrow> group \<Rightarrow> group" where
  "joined (a, b, xs) (c, d, ys) = (a, d, xs @ ys)"

text \<open>The first group with fewer than five rows is merged with the next, the last one with the one before.\<close>

fun merge_first :: "group list \<Rightarrow> group list option" where
  "merge_first (g # h # gs) =
     (if small g then Some (joined g h # gs)
      else if gs = [] then (if small h then Some [joined g h] else None)
      else map_option (Cons g) (merge_first (h # gs)))"
| "merge_first _ = None"

lemma merge_first_length: "merge_first gs = Some gs' \<Longrightarrow> Suc (length gs') = length gs"
  by (induction gs arbitrary: gs' rule: merge_first.induct) (auto split: if_split_asm)

function merge_groups :: "group list \<Rightarrow> group list" where
  "merge_groups gs = (case merge_first gs of None \<Rightarrow> gs | Some gs' \<Rightarrow> merge_groups gs')"
  by pat_completeness auto
termination by (relation "measure length") (auto dest: merge_first_length)

declare merge_groups.simps [simp del]

subsection \<open>The mapping and the threshold\<close>

definition ratio_of :: "fit_row list \<Rightarrow> rat res" where
  "ratio_of rows = (if rows = [] then Inl InvalidOperation
     else Inr (of_nat (length (filter fr_correct rows)) / of_nat (length rows)))"

fun fit_mapping :: "rat \<Rightarrow> group list \<Rightarrow> ((rat \<times> rat \<times> rat) list \<times> (string \<times> rat) list) res" where
  "fit_mapping running [] = Inr ([], [])"
| "fit_mapping running ((a, b, rows) # gs) =
     rbind (ratio_of rows) (\<lambda>q.
       let c = six (max running q) in
       rbind (fit_mapping c gs) (\<lambda>(mapping, calibrated).
         Inr ((six (of_nat a / 10), six (of_nat b / 10), c) # mapping, map (\<lambda>r. (fr_uid r, c)) rows @ calibrated)))"

definition wrong_values :: "fit_row list \<Rightarrow> (string \<times> rat) list \<Rightarrow> rat list" where
  "wrong_values rows calibrated =
     map (\<lambda>r. the (dget (dict_update [] calibrated) (fr_uid r))) (filter (\<lambda>r. \<not> fr_correct r) rows)"

definition pick_tau :: "rat list \<Rightarrow> rat list \<Rightarrow> rat option" where
  "pick_tau rungs wrong = (if wrong = [] then Some (hd rungs) else find (\<lambda>v. Max (set wrong) < v) rungs)"

definition fit_rows :: "(rat \<Rightarrow> rat) \<Rightarrow> fit_row list \<Rightarrow> calibration_slice option res" where
  "fit_rows scaled rows =
     rbind (fit_mapping 0 (merge_groups (bins scaled rows))) (\<lambda>(mapping, calibrated).
       case pick_tau (sort (remdups (map (\<lambda>(l, h, c). c) mapping))) (wrong_values rows calibrated) of
         None \<Rightarrow> Inr None
       | Some tau \<Rightarrow>
           rbind (mk_calibration_slice (int (length (remdups (map fr_uid rows))))
               (map (\<lambda>(a, b, xs). int (length xs)) (bins scaled rows))
               (map (\<lambda>(l, h, c). (Finite l, Finite h, Finite c)) mapping) (Finite (six tau))) (\<lambda>s. Inr (Some s)))"

definition fit_slice :: "(rat \<Rightarrow> rat) \<Rightarrow> observation list \<Rightarrow> calibration_slice option res" where
  "fit_slice scaled obs =
     (if obs = [] then Inr None
      else rbind (map_res check_observation (sort_key ob_uid obs)) (fit_rows scaled))"

definition fit ::
  "(rat \<Rightarrow> rat) \<Rightarrow> (string \<times> observation) list \<Rightarrow> (string \<times> calibration_slice option) list res" where
  "fit scaled obs =
     (if list_ex (\<lambda>(s, ob). s \<notin> set [''benign'', ''hr'']) obs then Inl (ValueError ''unknown calibration slice'')
      else map_res (\<lambda>name. rbind (fit_slice scaled (map snd (filter (\<lambda>(s, ob). s = name) obs))) (\<lambda>c. Inr (name, c))) [''benign'', ''hr''])"

subsection \<open>Checking a slice\<close>

fun check_mapping :: "rat \<Rightarrow> rat \<Rightarrow> (rat \<times> rat \<times> rat) list \<Rightarrow> rat option" where
  "check_mapping high calibrated [] = Some high"
| "check_mapping high calibrated ((l, h, c) # m) =
     (if 0 \<le> l \<and> l < h \<and> h \<le> 1 \<and> l = high \<and> calibrated \<le> c then check_mapping h c m else None)"

definition validate_slice :: "string \<Rightarrow> calibration_slice \<Rightarrow> unit res" where
  "validate_slice name s =
     (if cs_n_samples s < 0 \<or> length (cs_per_bin s) \<notin> {0, 10} then Inl (ValueError (name @ '': invalid per_bin''))
      else if cs_n_samples s = 0 then
        (if cs_per_bin s \<noteq> [] \<or> cs_mapping s \<noteq> [] \<or> cs_tau s \<noteq> 0 then Inl (ValueError (name @ '': invalid shutdown slice'')) else Inr ())
      else if sum_list (cs_per_bin s) \<noteq> cs_n_samples s \<or> cs_mapping s = []
        then Inl (ValueError (name @ '': counts do not match mapping''))
      else
        (case check_mapping 0 (- 1) (cs_mapping s) of
           None \<Rightarrow> Inl (ValueError (name @ '': non-monotone mapping''))
         | Some high \<Rightarrow>
             if high \<noteq> 1 \<or> cs_tau s \<notin> set (map (\<lambda>(l, h, c). c) (cs_mapping s)) then Inl (ValueError (name @ '': invalid tau''))
             else Inr ()))"

subsection \<open>The grid of six places\<close>

definition grid :: "rat \<Rightarrow> bool" where
  "grid x \<longleftrightarrow> (\<exists>k::int. x = of_int k / 1000000)"

lemma half_even_int [simp]: "half_even (of_int k) = k"
  by (simp add: half_even_def)

lemma half_even_ge: "of_int k \<le> x \<Longrightarrow> k \<le> half_even x"
proof -
  assume "of_int k \<le> x"
  then have "k \<le> \<lfloor>x\<rfloor>" by (simp add: le_floor_iff)
  then show ?thesis by (auto simp: half_even_def Let_def)
qed

lemma half_even_le: "x \<le> of_int k \<Longrightarrow> half_even x \<le> k"
proof -
  assume x: "x \<le> of_int k"
  show ?thesis
  proof (cases "\<lfloor>x\<rfloor> = k")
    case True
    then have "x = of_int k" using x of_int_floor_le [of x] by simp
    then show ?thesis by simp
  next
    case False
    then have "\<lfloor>x\<rfloor> + 1 \<le> k" using x floor_mono [OF x] by simp
    then show ?thesis by (auto simp: half_even_def Let_def)
  qed
qed

lemma six_grid: "grid (six x)"
  by (auto simp: grid_def six_def)

lemma grid_six: "grid x \<Longrightarrow> six x = x"
  by (auto simp: grid_def six_def)

lemma six_ge: "grid a \<Longrightarrow> a \<le> x \<Longrightarrow> a \<le> six x"
proof -
  assume "grid a" and x: "a \<le> x"
  then obtain k where k: "a = of_int k / 1000000" by (auto simp: grid_def)
  then have "of_int k \<le> x * 1000000" using x by (simp add: field_simps)
  from half_even_ge [OF this] show ?thesis by (simp add: k six_def field_simps)
qed

lemma six_le: "grid a \<Longrightarrow> x \<le> a \<Longrightarrow> six x \<le> a"
proof -
  assume "grid a" and x: "x \<le> a"
  then obtain k where k: "a = of_int k / 1000000" by (auto simp: grid_def)
  then have "x * 1000000 \<le> of_int k" using x by (simp add: field_simps)
  from half_even_le [OF this] show ?thesis by (simp add: k six_def field_simps)
qed

lemma grid_nat: "grid (of_nat n / 10)"
proof -
  have "of_nat n / 10 = (of_int (int n * 100000) / 1000000 :: rat)" by simp
  then show ?thesis unfolding grid_def by blast
qed

lemma grid_0: "grid 0" and grid_1: "grid 1"
  using grid_nat [of 0] grid_nat [of 10] by simp_all

lemma grid_quantized: "grid x \<Longrightarrow> quantized (Finite x)"
  by (auto simp: grid_def quantized_def)

subsection \<open>Merging\<close>

definition rows_of :: "group list \<Rightarrow> fit_row list" where
  "rows_of gs = concat (map (\<lambda>(a, b, xs). xs) gs)"

text \<open>The groups cover the bins from one to another, and hold the rows of their bins.\<close>

fun linked :: "(rat \<Rightarrow> rat) \<Rightarrow> nat \<Rightarrow> group list \<Rightarrow> nat \<Rightarrow> bool" where
  "linked scaled a [] e \<longleftrightarrow> a = e"
| "linked scaled a ((s, t, xs) # gs) e \<longleftrightarrow> s = a \<and> s < t \<and> (\<forall>r \<in> set xs. s \<le> bin_index scaled (fr_conf r) \<and> bin_index scaled (fr_conf r) < t) \<and>
     linked scaled t gs e"

lemma linked_member:
  "linked scaled a gs e \<Longrightarrow> (s, t, xs) \<in> set gs \<Longrightarrow> r \<in> set xs \<Longrightarrow>
     s \<le> bin_index scaled (fr_conf r) \<and> bin_index scaled (fr_conf r) < t"
  by (induction gs arbitrary: a) auto

lemma linked_bins: "linked scaled 0 (bins scaled rows) 10"
  by (simp add: bins_def upt_conv_Cons)

lemma rows_bins: "set (rows_of (bins scaled rows)) = set rows"
proof -
  have "bin_index scaled (fr_conf r) < 10" for r by (simp add: bin_index_def)
  then show ?thesis by (auto simp: rows_of_def bins_def)
qed

lemma linked_joined: "linked scaled a (g # h # gs) e \<Longrightarrow> linked scaled a (joined g h # gs) e"
  by (cases g; cases h) force

lemma merge_first_linked: "merge_first gs = Some gs' \<Longrightarrow> linked scaled a gs e \<Longrightarrow> linked scaled a gs' e"
proof (induction gs arbitrary: gs' a rule: merge_first.induct)
  case (1 g h gs)
  consider "gs' = joined g h # gs" | k where "merge_first (h # gs) = Some k" "gs' = g # k" "\<not> small g" "gs \<noteq> []"
    using "1.prems"(1) by (auto split: if_split_asm)
  then show ?case
  proof cases
    case 1
    then show ?thesis using linked_joined "1.prems"(2) by blast
  next
    case 2
    then show ?thesis using "1.IH" "1.prems"(2) by (cases g) auto
  qed
qed simp_all

lemma merge_first_rows: "merge_first gs = Some gs' \<Longrightarrow> rows_of gs' = rows_of gs"
  by (induction gs arbitrary: gs' rule: merge_first.induct) (auto simp: rows_of_def split: if_split_asm)

lemma merge_first_none: "merge_first gs = None \<Longrightarrow> length gs \<le> 1 \<or> list_all (\<lambda>g. \<not> small g) gs"
  by (induction gs rule: merge_first.induct) (auto split: if_split_asm)

lemma merged:
  assumes "linked scaled a gs e"
  shows "linked scaled a (merge_groups gs) e \<and> rows_of (merge_groups gs) = rows_of gs \<and>
    (length (merge_groups gs) \<le> 1 \<or> list_all (\<lambda>g. \<not> small g) (merge_groups gs))"
  using assms
proof (induction gs rule: merge_groups.induct)
  case (1 gs)
  show ?case
  proof (cases "merge_first gs")
    case None
    then show ?thesis using "1.prems" merge_first_none by (simp add: merge_groups.simps [of gs])
  next
    case (Some gs')
    then show ?thesis
      using "1.IH" [OF Some merge_first_linked [OF Some "1.prems"]] merge_first_rows [OF Some] by (simp add: merge_groups.simps [of gs])
  qed
qed

lemma merged_filled:
  assumes "rows \<noteq> []"
  shows "list_all (\<lambda>(a, b, xs). xs \<noteq> []) (merge_groups (bins scaled rows))"
proof -
  let ?gs = "merge_groups (bins scaled rows)"
  note m = merged [OF linked_bins [of scaled rows]]
  then have ne: "rows_of ?gs \<noteq> []" using rows_bins [of scaled rows] assms by auto
  from m consider "length ?gs \<le> 1" | "list_all (\<lambda>g. \<not> small g) ?gs" by blast
  then show ?thesis
  proof cases
    case 1
    then show ?thesis using ne by (cases ?gs) (auto simp: rows_of_def)
  next
    case 2
    then show ?thesis by (auto simp: list_all_iff small_def)
  qed
qed

subsection \<open>The fitted mapping\<close>

text \<open>Intervals one after the other, with values that never fall.\<close>

fun rising :: "rat \<Rightarrow> rat \<Rightarrow> (rat \<times> rat \<times> rat) list \<Rightarrow> rat \<Rightarrow> bool" where
  "rising low prev [] high \<longleftrightarrow> low = high"
| "rising low prev ((l, h, c) # m) high \<longleftrightarrow> l = low \<and> l < h \<and> prev \<le> c \<and> rising h c m high"

lemma rising_bounds: "rising low prev m high \<Longrightarrow> (l, h, c) \<in> set m \<Longrightarrow> low \<le> l \<and> l < h \<and> h \<le> high \<and> prev \<le> c"
proof (induction m arbitrary: low prev)
  case (Cons x m)
  obtain l0 h0 c0 where x: "x = (l0, h0, c0)" by (cases x)
  have r: "rising h0 c0 m high" "l0 = low" "l0 < h0" "prev \<le> c0" using Cons.prems(1) x by auto
  have "h0 \<le> high" using r(1)
  proof (induction m arbitrary: h0 c0)
    case (Cons y m)
    then show ?case by (cases y) fastforce
  qed simp
  then show ?case using Cons.IH [OF r(1)] Cons.prems(2) r x by force
qed simp

lemma rising_order:
  assumes "rising low prev m high" and "(l, h, v) \<in> set m" and "(l', h', c) \<in> set m" and "l < h'"
  shows "v \<le> c"
  using assms
proof (induction m arbitrary: low prev)
  case (Cons x m)
  obtain l0 h0 c0 where x: "x = (l0, h0, c0)" by (cases x)
  have r: "rising h0 c0 m high" using Cons.prems(1) x by simp
  consider "(l, h, v) = x" | "(l, h, v) \<in> set m" "(l', h', c) = x" | "(l, h, v) \<in> set m" "(l', h', c) \<in> set m"
    using Cons.prems(2,3) by auto
  then show ?case
  proof cases
    case 1
    then show ?thesis using Cons.prems(3) rising_bounds [OF r] x by fastforce
  next
    case 2
    then show ?thesis using rising_bounds [OF r 2(1)] Cons.prems(4) x by simp
  next
    case 3
    then show ?thesis using Cons.IH [OF r] Cons.prems(4) by blast
  qed
qed simp

lemma rising_checked: "rising low prev m high \<Longrightarrow> 0 \<le> low \<Longrightarrow> high \<le> 1 \<Longrightarrow> check_mapping low prev m = Some high"
proof (induction m arbitrary: low prev)
  case (Cons x m)
  obtain l h c where x: "x = (l, h, c)" by (cases x)
  then have "h \<le> high" using rising_bounds [OF Cons.prems(1), of l h c] by simp
  then show ?case using Cons x by auto
qed simp

lemma ratio_unit: "ratio_of rows = Inr q \<Longrightarrow> 0 \<le> q \<and> q \<le> 1"
proof -
  assume r: "ratio_of rows = Inr q"
  then have "0 < length rows" by (auto simp: ratio_of_def split: if_split_asm)
  moreover have "length (filter fr_correct rows) \<le> length rows" by simp
  moreover have "q = of_nat (length (filter fr_correct rows)) / of_nat (length rows)" using r by (auto simp: ratio_of_def split: if_split_asm)
  ultimately show ?thesis by (simp add: divide_le_eq)
qed

definition fits :: "group list \<Rightarrow> (rat \<times> rat \<times> rat) list \<Rightarrow> (string \<times> rat) list \<Rightarrow> bool" where
  "fits gs m calibrated \<longleftrightarrow> map fst calibrated = map fr_uid (rows_of gs) \<and> (gs \<noteq> [] \<longrightarrow> m \<noteq> []) \<and>
     list_all (\<lambda>(l, h, c). grid l \<and> grid h \<and> grid c \<and> c \<le> 1) m \<and>
     (\<forall>(a, b, xs) \<in> set gs. \<exists>c. (of_nat a / 10, of_nat b / 10, c) \<in> set m \<and> (\<forall>r \<in> set xs. (fr_uid r, c) \<in> set calibrated)) \<and>
     (\<forall>(l, h, c) \<in> set m. \<exists>a < 10. l = of_nat a / 10)"

lemma fit_mapping_ok:
  assumes "linked scaled a gs e" and "list_all (\<lambda>(a, b, xs). xs \<noteq> []) gs" and "e \<le> 10" and "grid running" and "0 \<le> running" and "running \<le> 1"
  shows "\<exists>m calibrated. fit_mapping running gs = Inr (m, calibrated) \<and> rising (of_nat a / 10) running m (of_nat e / 10) \<and> fits gs m calibrated"
  using assms
proof (induction gs arbitrary: a running)
  case (Cons g gs)
  obtain b xs where g: "g = (a, b, xs)" and lt: "a < b" and l: "linked scaled b gs e" using Cons.prems(1) by (cases g) auto
  have be: "b \<le> e" using l
  proof (induction gs arbitrary: b)
    case (Cons y gs)
    then show ?case by (cases y) fastforce
  qed simp
  have "xs \<noteq> []" using Cons.prems(2) g by simp
  then obtain q where q: "ratio_of xs = Inr q" by (simp add: ratio_of_def)
  define c where "c = six (max running q)"
  have "max running q \<le> 1" "running \<le> max running q" using ratio_unit [OF q] Cons.prems(6) by auto
  then have c: "grid c" "running \<le> c" "c \<le> 1" using six_grid six_ge [OF Cons.prems(4)] six_le [OF grid_1] by (simp_all add: c_def)
  have "0 \<le> c" using c(2) Cons.prems(5) by simp
  then obtain m cal where m: "fit_mapping c gs = Inr (m, cal)" "rising (of_nat b / 10) c m (of_nat e / 10)" "fits gs m cal"
    using Cons.IH [OF l _ Cons.prems(3) c(1) _ c(3)] Cons.prems(2) by auto
  have "fit_mapping running (g # gs) = Inr ((of_nat a / 10, of_nat b / 10, c) # m, map (\<lambda>r. (fr_uid r, c)) xs @ cal)"
    using m(1) q by (simp add: g c_def [symmetric] Let_def grid_six grid_nat)
  moreover have "rising (of_nat a / 10) running ((of_nat a / 10, of_nat b / 10, c) # m) (of_nat e / 10)"
    using m(2) lt c(2) by simp
  moreover have "a < 10" using lt be Cons.prems(3) by simp
  then have "fits (g # gs) ((of_nat a / 10, of_nat b / 10, c) # m) (map (\<lambda>r. (fr_uid r, c)) xs @ cal)"
    using m(3) c(1,3) grid_nat by (fastforce simp: fits_def g rows_of_def o_def)
  ultimately show ?case by blast
qed (auto simp: fits_def rows_of_def)

subsection \<open>The fitted slice\<close>

lemma map_res_mapped: "(\<And>x. x \<in> set xs \<Longrightarrow> f (g x) = Inr (h x)) \<Longrightarrow> map_res f (map g xs) = Inr (map h xs)"
  by (induction xs) auto

lemma mk_slice_total:
  assumes "list_all (\<lambda>(l, h, c). quantized (Finite l) \<and> quantized (Finite h) \<and> quantized (Finite c)) m" and "quantized (Finite t)"
  shows "mk_calibration_slice n bs (map (\<lambda>(l, h, c). (Finite l, Finite h, Finite c)) m) (Finite t)
    = Inr \<lparr>cs_n_samples = n, cs_per_bin = bs, cs_mapping = m, cs_tau = t\<rparr>"
proof -
  have "map_res (\<lambda>(l, h, c). rbind (require_quantized_float l ''low'') (\<lambda>low.
         rbind (require_quantized_float h ''high'') (\<lambda>high.
         rbind (require_quantized_float c ''calibrated'') (\<lambda>cal. Inr (low, high, cal)))))
       (map (\<lambda>(l, h, c). (Finite l, Finite h, Finite c)) m) = Inr (map (\<lambda>x. x) m)"
    by (rule map_res_mapped) (use assms(1) in \<open>auto simp: require_quantized_float_def list_all_iff\<close>)
  then show ?thesis using assms(2) by (simp add: mk_calibration_slice_def require_quantized_float_def)
qed

lemma distinct_bins:
  assumes "distinct (map fr_uid rows)"
  shows "distinct (map fr_uid (rows_of (bins scaled rows)))"
proof -
  have "distinct rows" and inj: "inj_on fr_uid (set rows)" using assms by (simp_all add: distinct_map)
  then have "distinct (rows_of (bins scaled rows))" by (auto simp: rows_of_def bins_def upt_conv_Cons)
  then show ?thesis using inj by (simp add: distinct_map rows_bins)
qed

lemma bins_total:
  assumes "distinct (map fr_uid rows)"
  shows "sum_list (map (\<lambda>(a, b, xs). int (length xs)) (bins scaled rows)) = int (length rows)"
proof -
  have "length (rows_of (bins scaled rows)) = card (set rows)"
    using distinct_bins [OF assms, of scaled] rows_bins [of scaled rows] by (metis distinct_card distinct_map)
  then have "length (rows_of (bins scaled rows)) = length rows" using assms by (metis distinct_card distinct_map)
  moreover have "sum_list (map (\<lambda>(a, b, xs). int (length xs)) gs) = int (length (rows_of gs))" for gs
    by (induction gs) (auto simp: rows_of_def)
  ultimately show ?thesis by simp
qed

text \<open>The threshold is a value of the mapping, above the value of every wrong row.\<close>

lemma pick_tau_above:
  assumes "rungs \<noteq> []" and "pick_tau rungs wrong = Some t"
  shows "t \<in> set rungs \<and> (\<forall>w \<in> set wrong. w < t)"
proof (cases "wrong = []")
  case True
  then show ?thesis using assms by (auto simp: pick_tau_def)
next
  case False
  then have "t \<in> set rungs \<and> Max (set wrong) < t" using assms(2) by (auto simp: pick_tau_def find_Some_iff)
  then show ?thesis using False by (auto simp: Max_less_iff)
qed

lemma fit_rows_ok:
  assumes "rows \<noteq> []" and "distinct (map fr_uid rows)"
  shows "fit_rows scaled rows = Inr None \<or> (\<exists>s. fit_rows scaled rows = Inr (Some s) \<and>
    cs_n_samples s = int (length rows) \<and> sum_list (cs_per_bin s) = int (length rows) \<and> length (cs_per_bin s) = 10 \<and>
    cs_mapping s \<noteq> [] \<and> rising 0 0 (cs_mapping s) 1 \<and> cs_tau s \<in> set (map (\<lambda>(l, h, c). c) (cs_mapping s)) \<and>
    (\<forall>(l, h, c) \<in> set (cs_mapping s). (\<exists>a < 10. l = of_nat a / 10) \<and> c \<le> 1) \<and>
    (\<forall>r \<in> set rows. \<not> fr_correct r \<longrightarrow> (\<exists>a b c. a \<le> bin_index scaled (fr_conf r) \<and> bin_index scaled (fr_conf r) < b \<and>
       (of_nat a / 10, of_nat b / 10, c) \<in> set (cs_mapping s) \<and> c < cs_tau s)))"
proof -
  let ?gs = "merge_groups (bins scaled rows)"
  note m = merged [OF linked_bins [of scaled rows]]
  obtain mp cal where f: "fit_mapping 0 ?gs = Inr (mp, cal)" "rising 0 0 mp 1" "fits ?gs mp cal"
    using fit_mapping_ok [OF conjunct1 [OF m] merged_filled [OF assms(1)] _ grid_0] by auto
  define rungs where "rungs = sort (remdups (map (\<lambda>(l, h, c). c) mp))"
  have ne: "?gs \<noteq> []" using conjunct1 [OF m] by auto
  then have mp: "mp \<noteq> []" "list_all (\<lambda>(l, h, c). grid l \<and> grid h \<and> grid c) mp" using f(3) by (auto simp: fits_def list_all_iff)
  have set_rungs: "set rungs = set (map (\<lambda>(l, h, c). c) mp)" by (simp add: rungs_def)
  then have "rungs \<noteq> []" using mp(1) by (cases mp) auto
  note rungs = this set_rungs
  have u: "distinct (map fst cal)" using f(3) m distinct_bins [OF assms(2), of scaled] by (simp add: fits_def)
  show ?thesis
  proof (cases "pick_tau rungs (wrong_values rows cal)")
    case None
    then show ?thesis using f(1) by (simp add: fit_rows_def rungs_def)
  next
    case (Some t)
    note t = pick_tau_above [OF rungs(1) Some]
    have "grid t" using t rungs(2) mp(2) by (auto simp: list_all_iff)
    have q: "list_all (\<lambda>(l, h, c). quantized (Finite l) \<and> quantized (Finite h) \<and> quantized (Finite c)) mp"
      using mp(2) by (auto simp: list_all_iff intro: grid_quantized)
    define s where "s = \<lparr>cs_n_samples = int (length rows), cs_per_bin = map (\<lambda>(a, b, xs). int (length xs)) (bins scaled rows),
      cs_mapping = mp, cs_tau = t\<rparr>"
    have "length (remdups (map fr_uid rows)) = length rows" using assms(2) by (simp add: distinct_remdups_id)
    then have "fit_rows scaled rows = Inr (Some s)"
      using f(1) Some mk_slice_total [OF q grid_quantized [OF \<open>grid t\<close>]] by (simp add: fit_rows_def rungs_def grid_six [OF \<open>grid t\<close>] s_def)
    moreover have "\<exists>a b c. a \<le> bin_index scaled (fr_conf r) \<and> bin_index scaled (fr_conf r) < b \<and>
        (of_nat a / 10, of_nat b / 10, c) \<in> set mp \<and> c < t" if r: "r \<in> set rows" "\<not> fr_correct r" for r
    proof -
      have "r \<in> set (rows_of ?gs)" using r(1) m rows_bins [of scaled rows] by simp
      then obtain a b xs where g: "(a, b, xs) \<in> set ?gs" "r \<in> set xs" by (auto simp: rows_of_def)
      then have "a \<le> bin_index scaled (fr_conf r) \<and> bin_index scaled (fr_conf r) < b" using linked_member [OF conjunct1 [OF m]] by blast
      moreover obtain c where c: "(of_nat a / 10, of_nat b / 10, c) \<in> set mp" "(fr_uid r, c) \<in> set cal"
        using f(3) g by (fastforce simp: fits_def)
      moreover have "dget (dict_update [] cal) (fr_uid r) = Some c" using c(2) u by (simp add: dget_dict_update)
      then have "c \<in> set (wrong_values rows cal)" using r by (force simp: wrong_values_def)
      ultimately show ?thesis using t by blast
    qed
    moreover have "cs_mapping s = mp" "cs_tau s = t" "cs_n_samples s = int (length rows)" "length (cs_per_bin s) = 10"
        "sum_list (cs_per_bin s) = int (length rows)"
      using bins_total [OF assms(2), of scaled] by (simp_all add: s_def bins_def)
    moreover have "t \<in> set (map (\<lambda>(l, h, c). c) mp)" using t rungs(2) by simp
    moreover have "\<forall>(l, h, c) \<in> set mp. (\<exists>a < 10. l = of_nat a / 10) \<and> c \<le> 1"
      using f(3) unfolding fits_def list_all_iff by blast
    ultimately show ?thesis using mp(1) f(2) by (intro disjI2 exI [of _ s]) simp
  qed
qed

lemma checked_uid: "check_observation ob = Inr r \<Longrightarrow> fr_uid r = ob_uid ob"
  by (cases "finite_conf (ob_conf ob)"; cases "ob_correct ob") (auto simp: check_observation_def split: if_split_asm)

lemma checked_rows:
  assumes "map_res check_observation obs = Inr rows"
  shows "map fr_uid rows = map ob_uid obs \<and> (\<forall>ob \<in> set obs. \<exists>r \<in> set rows. check_observation ob = Inr r)"
  using assms
proof (induction obs arbitrary: rows)
  case (Cons ob obs)
  then obtain r where r: "check_observation ob = Inr r" by (cases "check_observation ob") auto
  then obtain rs where rs: "map_res check_observation obs = Inr rs" using Cons.prems by (cases "map_res check_observation obs") auto
  have "rows = r # rs" using Cons.prems r rs by simp
  then show ?case using Cons.IH [OF rs] r checked_uid [OF r] by simp
qed simp

lemma sorted_uids: "distinct (map ob_uid obs) \<Longrightarrow> distinct (map ob_uid (sort_key ob_uid obs))"
  by (simp add: distinct_map)

lemma fit_slice_rows:
  assumes "fit_slice scaled obs = Inr (Some s)" and "distinct (map ob_uid obs)"
  obtains rows where "rows \<noteq> []" "distinct (map fr_uid rows)" "fit_rows scaled rows = Inr (Some s)"
    and "\<And>ob. ob \<in> set obs \<Longrightarrow> \<exists>r \<in> set rows. check_observation ob = Inr r"
proof -
  have ne: "obs \<noteq> []" using assms(1) by (auto simp: fit_slice_def)
  obtain rows where r: "map_res check_observation (sort_key ob_uid obs) = Inr rows" "fit_rows scaled rows = Inr (Some s)"
    using assms(1) ne by (auto simp: fit_slice_def rbind_Inr_iff)
  note c = checked_rows [OF r(1)]
  have "length rows = length obs" using c by (metis length_map length_sort)
  then have "rows \<noteq> []" using ne by auto
  moreover have "distinct (map fr_uid rows)" using c sorted_uids [OF assms(2)] by simp
  ultimately show ?thesis using that r(2) c by simp
qed

lemma find_member: "find P xs = Some x \<Longrightarrow> x \<in> set xs \<and> P x"
  by (induction xs) (auto split: if_split_asm)

lemma calibrated_row:
  assumes "calibrate x s = Some v"
  shows "\<exists>l h. (l, h, v) \<in> set (cs_mapping s) \<and> (l \<le> x \<and> x < h \<or> x = 1 \<and> h = 1)"
proof -
  obtain row where "find (\<lambda>(l, h, v). l \<le> x \<and> x < h \<or> x = 1 \<and> h = 1) (cs_mapping s) = Some row" "v = snd (snd row)"
    using assms by (auto simp: calibrate_def)
  moreover obtain l h c where row: "row = (l, h, c)" by (cases row)
  ultimately have "(l, h, v) \<in> set (cs_mapping s)" "l \<le> x \<and> x < h \<or> x = 1 \<and> h = 1" using find_member by fastforce+
  then show ?thesis by blast
qed

lemma calibrate_covers:
  assumes "rising low prev m 1" and "m \<noteq> []" and "low \<le> x" and "x \<le> 1"
  shows "\<exists>(l, h, v) \<in> set m. l \<le> x \<and> x < h \<or> x = 1 \<and> h = 1"
  using assms
proof (induction m arbitrary: low prev)
  case (Cons row m)
  obtain l h c where row: "row = (l, h, c)" by (cases row)
  then have r: "l = low" "rising h c m 1" using Cons.prems(1) by auto
  show ?case
  proof (cases "x < h \<or> m = []")
    case True
    then show ?thesis using Cons.prems(3,4) r row by force
  next
    case False
    then show ?thesis using Cons.IH [OF r(2)] Cons.prems(4) by auto
  qed
qed simp

lemma calibrate_some:
  assumes "rising 0 prev (cs_mapping s) 1" and "cs_mapping s \<noteq> []" and "0 \<le> x" and "x \<le> 1"
  obtains v where "calibrate x s = Some v"
proof -
  have "\<exists>row \<in> set (cs_mapping s). (\<lambda>(l, h, v). l \<le> x \<and> x < h \<or> x = 1 \<and> h = 1) row"
    using calibrate_covers [OF assms] by auto
  then have "find (\<lambda>(l, h, v). l \<le> x \<and> x < h \<or> x = 1 \<and> h = 1) (cs_mapping s) \<noteq> None" unfolding find_None_iff by blast
  then show ?thesis using that by (auto simp: calibrate_def)
qed

lemma calibrate_mono:
  assumes "rising 0 prev (cs_mapping s) 1" and "calibrate x s = Some v" and "calibrate y s = Some w" and "x \<le> y"
  shows "v \<le> w"
proof -
  obtain l h where l: "(l, h, v) \<in> set (cs_mapping s)" "l \<le> x \<and> x < h \<or> x = 1 \<and> h = 1" using calibrated_row [OF assms(2)] by blast
  obtain l' h' where r: "(l', h', w) \<in> set (cs_mapping s)" "l' \<le> y \<and> y < h' \<or> y = 1 \<and> h' = 1" using calibrated_row [OF assms(3)] by blast
  have "l < 1" "l < h" using rising_bounds [OF assms(1) l(1)] by auto
  then have "l < h'" using l(2) r(2) assms(4) rising_bounds [OF assms(1) r(1)] by auto
  then show ?thesis by (rule rising_order [OF assms(1) l(1) r(1)])
qed

lemma fit_rows_excludes:
  assumes "rows \<noteq> []" and "distinct (map fr_uid rows)" and "fit_rows scaled rows = Inr (Some s)"
    and scaled_up: "\<forall>n x. n \<le> 10 \<and> of_nat n \<le> 10 * x \<longrightarrow> of_nat n \<le> scaled x"
    and r: "r \<in> set rows" "\<not> fr_correct r" and "calibrate y s = Some v" and "y \<le> fr_conf r"
  shows "v < cs_tau s"
proof -
  note ok = fit_rows_ok [OF assms(1,2), of scaled, unfolded assms(3)]
  then have rising: "rising 0 0 (cs_mapping s) 1" and low: "\<forall>(l, h, c) \<in> set (cs_mapping s). \<exists>a < 10. l = of_nat a / 10"
    by auto
  from ok r obtain a b c where row: "bin_index scaled (fr_conf r) < b" "(of_nat a / 10, of_nat b / 10, c) \<in> set (cs_mapping s)" "c < cs_tau s"
    by fastforce
  from calibrated_row [OF assms(7)] obtain l h where lh: "(l, h, v) \<in> set (cs_mapping s)" "l \<le> y \<and> y < h \<or> y = 1 \<and> h = 1" by blast
  then have "l \<le> y" using rising_bounds [OF rising lh(1)] by auto
  from low lh(1) have "\<exists>i < 10. l = of_nat i / 10" by blast
  then obtain i where i: "i < 10" "l = of_nat i / 10" by blast
  have "of_nat i \<le> 10 * fr_conf r" using i(2) \<open>l \<le> y\<close> assms(8) by simp
  then have "of_nat i \<le> scaled (fr_conf r)" using scaled_up i(1) by (metis less_imp_le)
  then have "i \<le> bin_index scaled (fr_conf r)" using i(1) by (simp add: bin_index_def le_nat_iff le_floor_iff)
  then have "l < of_nat b / 10" using row(1) i(2) by simp
  then show ?thesis using rising_order [OF rising lh(1) row(2)] row(3) by simp
qed

lemma fit_slice_excludes:
  assumes "fit_slice scaled obs = Inr (Some s)" and "distinct (map ob_uid obs)"
    and scaled_up: "\<forall>n x. n \<le> 10 \<and> of_nat n \<le> 10 * x \<longrightarrow> of_nat n \<le> scaled x"
    and "ob \<in> set obs" and "ob_correct ob = Some False" and "finite_conf (ob_conf ob) = Inr x"
    and "calibrate y s = Some v" and "y \<le> x"
  shows "v < cs_tau s"
proof -
  obtain rows where rows: "rows \<noteq> []" "distinct (map fr_uid rows)" "fit_rows scaled rows = Inr (Some s)"
    and ob: "\<And>ob. ob \<in> set obs \<Longrightarrow> \<exists>r \<in> set rows. check_observation ob = Inr r"
    by (rule fit_slice_rows [OF assms(1,2)]) blast
  obtain r where r: "r \<in> set rows" "check_observation ob = Inr r" using ob assms(4) by blast
  have "fr_conf r = x" "\<not> fr_correct r"
    using r(2) assms(5,6) by (auto simp: check_observation_def split: if_split_asm)
  then show ?thesis using fit_rows_excludes [OF rows scaled_up r(1) _ assms(7)] assms(8) by simp
qed

text \<open>
  C40: a fitted threshold excludes every error it was fitted on.  Take a slice fitted from observations of different
  probes, and a wrong answer among them.  An engine that applies this slice never resolves a request by an answer as
  confident as the wrong one, or less confident, also when it has to exceed the higher threshold of both slices.
  Of the product of a float with 10 it is used that rounding does not pass below an integer up to 10; the observation
  may fall in a higher bin than its interval.
\<close>

theorem fit_excludes_errors:
  assumes "fit_slice scaled obs = Inr (Some s)" and "distinct (map ob_uid obs)"
    and scaled_up: "\<forall>n x. n \<le> 10 \<and> of_nat n \<le> 10 * x \<longrightarrow> of_nat n \<le> scaled x"
    and "ob \<in> set obs" and "ob_correct ob = Some False" and "finite_conf (ob_conf ob) = Inr x"
    and "usable_confidence (sg_confidence sug) = Inr (Some y)" and "y \<le> x"
    and "top_up \<longrightarrow> slice_of en ''hr'' = Some s"
    and "conclude en r ctx e fired top_up br s sug b = (Inr d, b')"
  shows "rd_slot_id d = None"
  using assms(10)
proof (cases rule: conclude_cases)
  case (abstained oc v)
  then show ?thesis using abstain_decides [OF abstained(1)] by simp
next
  case (selected c z v)
  have "v < cs_tau s" by (rule fit_slice_excludes [OF assms(1-6) selected(5)]) (use selected(4) assms(7,8) in simp)
  then show ?thesis using selected(6) assms(9) by (cases top_up) (auto simp: tau_for_def max_def split: if_split_asm)
qed simp

lemma check_rows_total:
  assumes "\<forall>ob \<in> set obs. \<exists>r. check_observation ob = Inr r"
  shows "\<exists>rows. map_res check_observation obs = Inr rows"
  using assms by (induction obs) auto

lemma rising_tail_low: "rising low prev m high \<Longrightarrow> m \<noteq> [] \<Longrightarrow> prev' \<le> prev \<Longrightarrow> rising low prev' m high"
  by (cases m) auto

lemma fitted_valid:
  assumes "rows \<noteq> []" and "distinct (map fr_uid rows)" and "fit_rows scaled rows = Inr (Some s)"
  shows "validate_slice name s = Inr () \<and> rising 0 0 (cs_mapping s) 1 \<and> cs_mapping s \<noteq> [] \<and>
    (\<forall>(l, h, c) \<in> set (cs_mapping s). 0 \<le> c \<and> c \<le> 1)"
proof -
  note ok = fit_rows_ok [OF assms(1,2), of scaled, unfolded assms(3)]
  then have r: "rising 0 0 (cs_mapping s) 1" and ne: "cs_mapping s \<noteq> []" and t: "cs_tau s \<in> set (map (\<lambda>(l, h, c). c) (cs_mapping s))"
    and n: "cs_n_samples s = int (length rows)" "sum_list (cs_per_bin s) = int (length rows)" "length (cs_per_bin s) = 10"
    and c: "\<forall>(l, h, c) \<in> set (cs_mapping s). c \<le> 1" by auto
  have "check_mapping 0 (- 1) (cs_mapping s) = Some 1" by (rule rising_checked [OF rising_tail_low [OF r ne]]) simp_all
  then have "validate_slice name s = Inr ()" using ne t n assms(1) by (simp add: validate_slice_def)
  moreover have "\<forall>(l, h, c) \<in> set (cs_mapping s). 0 \<le> c" using rising_bounds [OF r] by auto
  ultimately show ?thesis using r ne c by auto
qed

text \<open>
  Fitting is total, and its result usable.  Observations of different probes that pass the checks are fitted without
  error, in particular no bin is divided by while empty.  A slice that comes out passes the validation of the loader, and
  the engine's calibration with it is defined on the whole unit interval, stays in it and never falls.
\<close>

theorem fit_total:
  assumes "distinct (map ob_uid obs)" and "\<forall>ob \<in> set obs. \<exists>r. check_observation ob = Inr r"
  shows "\<exists>c. fit_slice scaled obs = Inr c \<and>
    (\<forall>s. c = Some s \<longrightarrow> validate_slice name s = Inr () \<and>
       (\<forall>x. 0 \<le> x \<and> x \<le> 1 \<longrightarrow> (\<exists>v. calibrate x s = Some v \<and> 0 \<le> v \<and> v \<le> 1)) \<and>
       (\<forall>x y. 0 \<le> x \<and> x \<le> y \<and> y \<le> 1 \<longrightarrow> the (calibrate x s) \<le> the (calibrate y s)))"
proof (cases "obs = []")
  case False
  obtain rows where rows: "map_res check_observation (sort_key ob_uid obs) = Inr rows" using check_rows_total [of "sort_key ob_uid obs"] assms(2) by auto
  note c = checked_rows [OF rows]
  have "length rows = length obs" using c by (metis length_map length_sort)
  then have ne: "rows \<noteq> []" using False by auto
  have d: "distinct (map fr_uid rows)" using c sorted_uids [OF assms(1)] by simp
  obtain r where r: "fit_rows scaled rows = Inr r" using fit_rows_ok [OF ne d, of scaled] by auto
  have "fit_slice scaled obs = Inr r" using False rows r by (simp add: fit_slice_def)
  moreover have "validate_slice name s = Inr () \<and>
       (\<forall>x. 0 \<le> x \<and> x \<le> 1 \<longrightarrow> (\<exists>v. calibrate x s = Some v \<and> 0 \<le> v \<and> v \<le> 1)) \<and>
       (\<forall>x y. 0 \<le> x \<and> x \<le> y \<and> y \<le> 1 \<longrightarrow> the (calibrate x s) \<le> the (calibrate y s))" if s: "r = Some s" for s
  proof (intro conjI allI impI)
    note v = fitted_valid [OF ne d r [unfolded s]]
    then show "validate_slice name s = Inr ()" by blast
    fix x :: rat assume x: "0 \<le> x \<and> x \<le> 1"
    then obtain w where w: "calibrate x s = Some w" using calibrate_some v by blast
    have unit: "0 \<le> c \<and> c \<le> 1" if "(l, h, c) \<in> set (cs_mapping s)" for l h c using v that by blast
    from calibrated_row [OF w] obtain l h where "(l, h, w) \<in> set (cs_mapping s)" by blast
    from unit [OF this] w show "\<exists>w. calibrate x s = Some w \<and> 0 \<le> w \<and> w \<le> 1" by blast
  next
    note v = fitted_valid [OF ne d r [unfolded s]]
    fix x y :: rat assume xy: "0 \<le> x \<and> x \<le> y \<and> y \<le> 1"
    then obtain a b where ab: "calibrate x s = Some a" "calibrate y s = Some b" using calibrate_some v by (meson order_trans)
    have "rising 0 0 (cs_mapping s) 1" using v by blast
    from calibrate_mono [OF this ab] xy ab show "the (calibrate x s) \<le> the (calibrate y s)" by simp
  qed
  ultimately show ?thesis by blast
qed (simp add: fit_slice_def)

subsection \<open>Manifests\<close>

definition shutdown_slice :: calibration_slice where
  "shutdown_slice = \<lparr>cs_n_samples = 0, cs_per_bin = [], cs_mapping = [], cs_tau = 0\<rparr>"

definition slice_or_shutdown :: "(string \<times> calibration_slice option) list \<Rightarrow> string \<Rightarrow> calibration_slice" where
  "slice_or_shutdown slices name = (case dget slices name of Some (Some s) \<Rightarrow> s | _ \<Rightarrow> shutdown_slice)"

text \<open>The manifest of a fit on the live components, without the overrides of the tests.\<close>

definition build_manifest ::
  "(string \<Rightarrow> string) \<Rightarrow> (rat \<Rightarrow> string) \<Rightarrow> slot_registry \<Rightarrow> string \<Rightarrow> string \<Rightarrow> string \<Rightarrow> string \<Rightarrow> string list \<Rightarrow>
   (string \<times> calibration_slice option) list \<Rightarrow> (calibration_manifest \<times> string) res" where
  "build_manifest H float_text reg model prompt evidence commit goldsets slices =
     rbind (mk_manifest \<lparr>cm_version = ''k1-calibration-v1'', cm_model_id = model, cm_prompt_hash = prompt,
         cm_registry_hash = sr_content_hash reg, cm_normalizer_hash = normalizer_rules_hash H, cm_blocking_hash = BLOCKING_RULES_HASH H,
         cm_code_version = RESOLVER_CODE_VERSION, cm_goldset_hashes = goldsets, cm_evidence_hash = evidence, cm_git_commit = commit,
         cm_slices = map (\<lambda>name. (name, slice_or_shutdown slices name)) [''benign'', ''hr'']\<rparr>)
       (\<lambda>m. Inr (m, canonical_manifest_hash H float_text m))"

definition manifest_fields :: "(rat \<Rightarrow> string) \<Rightarrow> calibration_manifest \<Rightarrow> dict" where
  "manifest_fields float_text m = (case manifest_json float_text m of JObj d \<Rightarrow> d | _ \<Rightarrow> [])"

definition dump_manifest :: "(string \<Rightarrow> string) \<Rightarrow> (rat \<Rightarrow> string) \<Rightarrow> calibration_manifest \<Rightarrow> string" where
  "dump_manifest H float_text m =
     dumps_compact (JObj (manifest_fields float_text m @ [(''manifest_hash'', JStr (canonical_manifest_hash H float_text m))])) @ [CHR 0x0A]"

subsection \<open>Loading a manifest\<close>

text \<open>\<open>tuple(x)\<close>, where only whether a text or an object is empty matters to what follows.\<close>

definition seq_items :: "json \<Rightarrow> json list option" where
  "seq_items v = (case v of JList xs \<Rightarrow> Some xs | JStr s \<Rightarrow> Some (map (\<lambda>c. JStr [c]) s) | JObj d \<Rightarrow> Some (map (JStr \<circ> fst) d) | _ \<Rightarrow> None)"

definition bad_fields :: "'a res" where
  "bad_fields = Inl (ValueError ''manifest has invalid fields'')"

definition int_item :: "json \<Rightarrow> int res" where
  "int_item v = (case v of JInt n \<Rightarrow> Inr n | _ \<Rightarrow> bad_fields)"

definition float_item :: "(string \<Rightarrow> pyfloat) \<Rightarrow> json \<Rightarrow> pyfloat res" where
  "float_item lit_float v = (case v of JFloat s \<Rightarrow> Inr (lit_float s) | _ \<Rightarrow> bad_fields)"

definition text_item :: "dict \<Rightarrow> string \<Rightarrow> string res" where
  "text_item d k = (case dget d k of Some (JStr s) \<Rightarrow> Inr s | _ \<Rightarrow> bad_fields)"

definition row_item :: "(string \<Rightarrow> pyfloat) \<Rightarrow> json \<Rightarrow> (pyfloat \<times> pyfloat \<times> pyfloat) res" where
  "row_item lit_float v =
     (case seq_items v of
        Some [l, h, c] \<Rightarrow> rbind (float_item lit_float l) (\<lambda>l. rbind (float_item lit_float h) (\<lambda>h. rbind (float_item lit_float c) (\<lambda>c. Inr (l, h, c))))
      | _ \<Rightarrow> bad_fields)"

definition slice_item :: "(string \<Rightarrow> pyfloat) \<Rightarrow> json \<Rightarrow> calibration_slice res" where
  "slice_item lit_float v =
     (case v of
        JObj d \<Rightarrow>
          if \<not> same_keys d [''n_samples'', ''per_bin'', ''mapping'', ''tau''] then bad_fields
          else
            (case (dget d ''n_samples'', map_option seq_items (dget d ''per_bin''), map_option seq_items (dget d ''mapping''), dget d ''tau'') of
               (Some n, Some (Some bs), Some (Some rows), Some t) \<Rightarrow>
                 rbind (int_item n) (\<lambda>n. rbind (map_res int_item bs) (\<lambda>bs. rbind (map_res (row_item lit_float) rows) (\<lambda>rows.
                 rbind (float_item lit_float t) (\<lambda>t.
                   case mk_calibration_slice n bs rows t of Inl _ \<Rightarrow> bad_fields | Inr s \<Rightarrow> Inr s))))
             | _ \<Rightarrow> bad_fields)
      | _ \<Rightarrow> bad_fields)"

definition MANIFEST_FIELDS :: "string list" where
  "MANIFEST_FIELDS = [''calibration_version'', ''model_id'', ''prompt_template_hash'', ''registry_hash'', ''normalizer_rules_hash'',
     ''blocking_rules_hash'', ''resolver_code_version'', ''fitted_on_goldset_hashes'', ''fitted_on_evidence_hash'', ''fitted_on_git_commit'',
     ''slices'', ''manifest_hash'']"

text \<open>
  The fields of a manifest.  The record holds texts where the code, apart from the blocking hash, does not look at the
  type of a field: a document with another value there, whose hash would still bind it, is refused here.
\<close>

definition manifest_of :: "(string \<Rightarrow> pyfloat) \<Rightarrow> dict \<Rightarrow> calibration_manifest res" where
  "manifest_of lit_float d =
     (case (dget d ''slices'', dget d ''fitted_on_goldset_hashes'') of
        (Some (JObj sl), Some (JList gs)) \<Rightarrow>
          if \<not> same_keys sl [''benign'', ''hr''] then bad_fields
          else
            rbind (map_res (\<lambda>(k, v). rbind (slice_item lit_float v) (\<lambda>s. Inr (k, s))) sl) (\<lambda>slices.
            rbind (map_res (\<lambda>v. text_item [([], v)] []) gs) (\<lambda>goldsets.
            rbind (map_res (text_item d) [''calibration_version'', ''model_id'', ''prompt_template_hash'', ''registry_hash'',
                ''normalizer_rules_hash'', ''blocking_rules_hash'', ''resolver_code_version'', ''fitted_on_evidence_hash'', ''fitted_on_git_commit'']) (\<lambda>ts.
            case ts of
              [version, model, prompt, registry, normalizer, blocking, code, evidence, commit] \<Rightarrow>
                (case mk_manifest \<lparr>cm_version = version, cm_model_id = model, cm_prompt_hash = prompt, cm_registry_hash = registry,
                    cm_normalizer_hash = normalizer, cm_blocking_hash = blocking, cm_code_version = code, cm_goldset_hashes = goldsets,
                    cm_evidence_hash = evidence, cm_git_commit = commit, cm_slices = slices\<rparr> of
                   Inl _ \<Rightarrow> bad_fields | Inr m \<Rightarrow> Inr m)
            | _ \<Rightarrow> bad_fields)))
      | _ \<Rightarrow> bad_fields)"

text \<open>\<open>file\<close> is the text of the file, or nothing when it cannot be read.\<close>

definition load_manifest ::
  "(string \<Rightarrow> string) \<Rightarrow> (rat \<Rightarrow> string) \<Rightarrow> (string \<Rightarrow> pyfloat) \<Rightarrow> string option \<Rightarrow> (calibration_manifest \<times> string) res" where
  "load_manifest H float_text lit_float file =
     (case Option.bind file loads of
        None \<Rightarrow> Inl (ValueError ''cannot parse calibration manifest'')
      | Some v \<Rightarrow>
          (case v of
             JObj d \<Rightarrow>
               if \<not> same_keys d MANIFEST_FIELDS then Inl (ValueError ''manifest has an invalid schema'')
               else rbind (manifest_of lit_float d) (\<lambda>m.
                    rbind (map_res (\<lambda>(k, s). validate_slice k s) (cm_slices m)) (\<lambda>_.
                      if dget d ''manifest_hash'' \<noteq> Some (JStr (canonical_manifest_hash H float_text m))
                      then Inl (ValueError ''manifest canonical hash mismatch'')
                      else Inr (m, canonical_manifest_hash H float_text m)))
           | _ \<Rightarrow> Inl (ValueError ''manifest has an invalid schema: document must be an object'')))"

subsection \<open>A manifest read back\<close>

lemma loads_line:
  assumes "jwf v"
  shows "loads (dumps_compact v @ [CHR 0x0A]) = Some (canon v)"
proof -
  let ?t = "dumps_compact v"
  have w: "jwf (canon v)" by (rule jwf_canon [OF assms])
  have "reads_back '','' '':'' (canon v)" by (rule jprint_reads_back [OF seps_compact w])
  then have "read_value (2 * length (?t @ [CHR 0x0A]) + 2) (?t @ [CHR 0x0A]) = Some (canon v, [CHR 0x0A])"
    unfolding dumps_compact_def by (rule reads_backD) (auto simp: number_stop_def is_digit_def)
  moreover have "skip_ws (?t @ [CHR 0x0A]) = ?t @ [CHR 0x0A]" unfolding dumps_compact_def by (rule skip_ws_jprint [OF w])
  moreover have "skip_ws [CHR 0x0A] = []" by (simp add: skip_ws_def json_ws_def)
  ultimately show ?thesis by (simp add: loads_def)
qed

lemma dget_sorted: "distinct (map fst d) \<Longrightarrow> dget (sort_key fst d) k = dget d k"
  by (rule map_of_inject_set [THEN iffD2, THEN fun_cong]) (simp_all add: distinct_map inj_on_def)

lemma dget_canonical: "distinct (map fst d) \<Longrightarrow> dget (sort_key fst (map (\<lambda>(k, v). (k, canon v)) d)) k = map_option canon (dget d k)"
  by (subst dget_sorted) (simp_all add: o_def case_prod_beta map_of_map)

lemma same_keys_canon: "same_keys (sort_key fst (map (\<lambda>(k, v). (k, canon v)) d)) ks = same_keys d ks"
  by (auto simp: same_keys_def list_all_iff image_iff case_prod_beta)

definition slice_values :: "calibration_slice \<Rightarrow> rat list" where
  "slice_values s = cs_tau s # concat (map (\<lambda>(l, h, c). [l, h, c]) (cs_mapping s))"

text \<open>The texts of the floats of a slice are literals that read back as the floats.\<close>

definition texts_ok :: "(rat \<Rightarrow> string) \<Rightarrow> (string \<Rightarrow> pyfloat) \<Rightarrow> calibration_slice \<Rightarrow> bool" where
  "texts_ok float_text lit_float s \<longleftrightarrow>
     (\<forall>x \<in> set (slice_values s). quantized (Finite x) \<and> float_lit (float_text x) \<and> lit_float (float_text x) = Finite x)"

lemma slice_item_back:
  assumes "texts_ok float_text lit_float s"
  shows "slice_item lit_float (canon (slice_json float_text s)) = Inr s"
proof -
  define d where "d = [(''n_samples'', JInt (cs_n_samples s)), (''per_bin'', JList (map JInt (cs_per_bin s))),
      (''mapping'', JList (map (\<lambda>(l, h, c). JList [JFloat (float_text l), JFloat (float_text h), JFloat (float_text c)]) (cs_mapping s))),
      (''tau'', JFloat (float_text (cs_tau s)))]"
  define d' where "d' = sort_key fst (map (\<lambda>(k, v). (k, canon v)) d)"
  have d: "distinct (map fst d)" by (simp add: d_def)
  have c: "canon (slice_json float_text s) = JObj d'" by (simp add: slice_json_def d_def d'_def)
  have g: "dget d' k = map_option canon (dget d k)" for k unfolding d'_def by (rule dget_canonical [OF d])
  have "same_keys d' [''n_samples'', ''per_bin'', ''mapping'', ''tau'']"
    unfolding d'_def same_keys_canon by (simp add: d_def same_keys_def)
  moreover have "map_res int_item (map canon (map JInt (cs_per_bin s))) = Inr (map (\<lambda>x. x) (cs_per_bin s))"
    unfolding map_map by (rule map_res_mapped) (simp add: int_item_def)
  moreover have row: "quantized (Finite x) \<and> lit_float (float_text x) = Finite x"
    if "(l, h, c) \<in> set (cs_mapping s)" "x \<in> {l, h, c}" for l h c x
    using assms that by (force simp: texts_ok_def slice_values_def)
  have "map_res (row_item lit_float)
       (map canon (map (\<lambda>(l, h, c). JList [JFloat (float_text l), JFloat (float_text h), JFloat (float_text c)]) (cs_mapping s)))
      = Inr (map (\<lambda>(l, h, c). (Finite l, Finite h, Finite c)) (cs_mapping s))"
    unfolding map_map by (rule map_res_mapped) (use row in \<open>auto simp: row_item_def seq_items_def float_item_def\<close>)
  moreover have "mk_calibration_slice (cs_n_samples s) (cs_per_bin s) (map (\<lambda>(l, h, c). (Finite l, Finite h, Finite c)) (cs_mapping s)) (Finite (cs_tau s)) = Inr s"
    by (subst mk_slice_total) (use row assms in \<open>auto simp: list_all_iff texts_ok_def slice_values_def\<close>)
  moreover have "lit_float (float_text (cs_tau s)) = Finite (cs_tau s)" using assms by (simp add: texts_ok_def slice_values_def)
  ultimately show ?thesis unfolding c by (simp add: slice_item_def g d_def seq_items_def int_item_def float_item_def)
qed

lemma jwf_slice:
  assumes "texts_ok float_text lit_float s"
  shows "jwf (slice_json float_text s)"
  using assms by (force simp: slice_json_def texts_ok_def slice_values_def list_all_iff)

definition manifest_good :: "(rat \<Rightarrow> string) \<Rightarrow> (string \<Rightarrow> pyfloat) \<Rightarrow> calibration_manifest \<Rightarrow> bool" where
  "manifest_good float_text lit_float m \<longleftrightarrow> map fst (cm_slices m) = [''benign'', ''hr''] \<and> cm_blocking_hash m \<noteq> [] \<and>
     (\<forall>(k, s) \<in> set (cm_slices m). texts_ok float_text lit_float s)"

lemma jwf_manifest:
  assumes "manifest_good float_text lit_float m"
  shows "jwf (JObj (manifest_fields float_text m @ [(''manifest_hash'', JStr h)]))" and "jwf (manifest_json float_text m)"
proof -
  have "map fst (map (\<lambda>(k, s). (k, slice_json float_text s)) (cm_slices m)) = [''benign'', ''hr'']"
    using assms by (simp add: manifest_good_def o_def case_prod_beta)
  then have "jwf (JObj (map (\<lambda>(k, s). (k, slice_json float_text s)) (cm_slices m)))"
    using assms jwf_slice by (auto simp: manifest_good_def list_all_iff)
  then show "jwf (JObj (manifest_fields float_text m @ [(''manifest_hash'', JStr h)]))" and "jwf (manifest_json float_text m)"
    by (simp_all add: manifest_fields_def manifest_json_def list_all_iff)
qed

lemma slices_back:
  assumes "manifest_good float_text lit_float m"
  shows "\<exists>sl. canon (JObj (map (\<lambda>(k, s). (k, slice_json float_text s)) (cm_slices m))) = JObj sl \<and> same_keys sl [''benign'', ''hr''] \<and>
    map_res (\<lambda>(k, v). rbind (slice_item lit_float v) (\<lambda>s. Inr (k, s))) sl = Inr (cm_slices m)"
proof -
  obtain b h where s: "cm_slices m = [(''benign'', b), (''hr'', h)]"
    using assms by (auto simp: manifest_good_def map_eq_Cons_conv)
  have sorted: "sort_key fst [(''benign'', x), (''hr'', y)] = [(''benign'', x), (''hr'', y)]" for x y :: json by simp
  have "canon (JObj (map (\<lambda>(k, s). (k, slice_json float_text s)) (cm_slices m))) =
      JObj [(''benign'', canon (slice_json float_text b)), (''hr'', canon (slice_json float_text h))]"
    unfolding s by (simp only: canon.simps list.map prod.case sorted)
  moreover have "texts_ok float_text lit_float b" "texts_ok float_text lit_float h" using assms s by (auto simp: manifest_good_def)
  ultimately show ?thesis using slice_item_back s by (simp add: same_keys_def)
qed

text \<open>What is read depends on the fields, not on their order.\<close>

lemma manifest_of_back:
  assumes "manifest_good float_text lit_float m" and "\<And>k. k \<noteq> ''manifest_hash'' \<Longrightarrow> dget d k = map_option canon (dget (manifest_fields float_text m) k)"
  shows "manifest_of lit_float d = Inr m"
proof -
  obtain sl where sl: "canon (JObj (map (\<lambda>(k, s). (k, slice_json float_text s)) (cm_slices m))) = JObj sl" "same_keys sl [''benign'', ''hr'']"
    "map_res (\<lambda>(k, v). rbind (slice_item lit_float v) (\<lambda>s. Inr (k, s))) sl = Inr (cm_slices m)"
    using slices_back [OF assms(1)] by blast
  have gs: "map_res (\<lambda>v. text_item [([], v)] []) (map canon (map JStr gs)) = Inr (map (\<lambda>x. x) gs)" for gs
    unfolding map_map by (rule map_res_mapped) (simp add: text_item_def)
  have f: "dget d ''slices'' = Some (JObj sl)" "dget d ''fitted_on_goldset_hashes'' = Some (JList (map canon (map JStr (cm_goldset_hashes m))))"
    "dget d ''calibration_version'' = Some (JStr (cm_version m))" "dget d ''model_id'' = Some (JStr (cm_model_id m))"
    "dget d ''prompt_template_hash'' = Some (JStr (cm_prompt_hash m))" "dget d ''registry_hash'' = Some (JStr (cm_registry_hash m))"
    "dget d ''normalizer_rules_hash'' = Some (JStr (cm_normalizer_hash m))" "dget d ''blocking_rules_hash'' = Some (JStr (cm_blocking_hash m))"
    "dget d ''resolver_code_version'' = Some (JStr (cm_code_version m))" "dget d ''fitted_on_evidence_hash'' = Some (JStr (cm_evidence_hash m))"
    "dget d ''fitted_on_git_commit'' = Some (JStr (cm_git_commit m))"
    using assms(2) sl(1) by (simp_all add: manifest_fields_def manifest_json_def del: canon.simps(2))
  have "mk_manifest \<lparr>cm_version = cm_version m, cm_model_id = cm_model_id m, cm_prompt_hash = cm_prompt_hash m,
      cm_registry_hash = cm_registry_hash m, cm_normalizer_hash = cm_normalizer_hash m, cm_blocking_hash = cm_blocking_hash m,
      cm_code_version = cm_code_version m, cm_goldset_hashes = cm_goldset_hashes m, cm_evidence_hash = cm_evidence_hash m,
      cm_git_commit = cm_git_commit m, cm_slices = cm_slices m\<rparr> = Inr m"
    using assms(1) by (cases m) (simp add: mk_manifest_def manifest_good_def)
  then show ?thesis
    unfolding manifest_of_def f prod.case option.case json.case using sl(2,3) gs by (simp add: text_item_def f)
qed

text \<open>
  A manifest reads back, and its hash binds it.  A manifest of two valid slices, whose floats are written as texts
  that read back, is loaded from the text it is dumped to; and a loadable manifest with the hash of another one is the
  other one, unless the hash collides.
\<close>

theorem manifest_reads_back:
  assumes "manifest_good float_text lit_float m" and "list_all (\<lambda>(k, s). validate_slice k s = Inr ()) (cm_slices m)"
  shows "load_manifest H float_text lit_float (Some (dump_manifest H float_text m)) = Inr (m, canonical_manifest_hash H float_text m) \<and>
    (\<forall>m'. manifest_good float_text lit_float m' \<and> canonical_manifest_hash H float_text m' = canonical_manifest_hash H float_text m \<longrightarrow>
       m' = m \<or> (\<exists>x y. x \<noteq> y \<and> H x = H y))"
proof (intro conjI allI impI)
  let ?h = "canonical_manifest_hash H float_text m"
  define D where "D = manifest_fields float_text m @ [(''manifest_hash'', JStr ?h)]"
  define D' where "D' = sort_key fst (map (\<lambda>(k, v). (k, canon v)) D)"
  have w: "jwf (JObj D)" unfolding D_def by (rule jwf_manifest [OF assms(1)])
  then have dist: "distinct (map fst D)" by simp
  have g: "dget D' k = map_option canon (dget D k)" for k unfolding D'_def by (rule dget_canonical [OF dist])
  have l: "loads (dump_manifest H float_text m) = Some (JObj D')"
    using loads_line [OF w] by (simp add: dump_manifest_def D_def [symmetric] D'_def)
  have keys: "same_keys D' MANIFEST_FIELDS"
    unfolding D'_def same_keys_canon by (simp add: same_keys_def D_def manifest_fields_def manifest_json_def MANIFEST_FIELDS_def)
  have mo: "manifest_of lit_float D' = Inr m"
    by (rule manifest_of_back [OF assms(1)]) (simp add: g D_def map_add_def split: option.split)
  have v: "map_res (\<lambda>(k, s). validate_slice k s) sl = Inr (map (\<lambda>_. ()) sl)"
    if "list_all (\<lambda>(k, s). validate_slice k s = Inr ()) sl" for sl
    using that by (induction sl) auto
  have "dget D ''manifest_hash'' = Some (JStr ?h)" by (simp add: D_def manifest_fields_def manifest_json_def)
  then show "load_manifest H float_text lit_float (Some (dump_manifest H float_text m)) = Inr (m, ?h)"
    using keys mo v [OF assms(2)] by (simp add: load_manifest_def l g)
next
  fix m' assume m': "manifest_good float_text lit_float m' \<and> canonical_manifest_hash H float_text m' = canonical_manifest_hash H float_text m"
  show "m' = m \<or> (\<exists>x y. x \<noteq> y \<and> H x = H y)"
  proof (cases "dumps_compact (manifest_json float_text m') = dumps_compact (manifest_json float_text m)")
    case True
    have c: "canon (manifest_json float_text m') = canon (manifest_json float_text m)"
      by (rule dumps_compact_inj [OF jwf_manifest(2) jwf_manifest(2) True]) (use m' assms(1) in auto)
    have js: "manifest_json float_text n = JObj (manifest_fields float_text n)" for n by (simp add: manifest_fields_def manifest_json_def)
    define norm :: "dict \<Rightarrow> dict" where "norm = (\<lambda>d. sort_key fst (map (\<lambda>(k, v). (k, canon v)) d))"
    have e: "norm (manifest_fields float_text m') = norm (manifest_fields float_text m)"
      using c unfolding js canon.simps json.inject norm_def .
    have dist: "distinct (map fst (manifest_fields float_text n))" for n by (simp add: manifest_fields_def manifest_json_def)
    have again: "manifest_of lit_float (norm (manifest_fields float_text n)) = Inr n" if "manifest_good float_text lit_float n" for n
      by (rule manifest_of_back [OF that]) (simp only: norm_def dget_canonical [OF dist])
    have "manifest_of lit_float (norm (manifest_fields float_text m)) = Inr m" by (rule again [OF assms(1)])
    moreover have "manifest_of lit_float (norm (manifest_fields float_text m)) = Inr m'"
      unfolding e [symmetric] by (rule again) (use m' in blast)
    ultimately show ?thesis by simp
  next
    case False
    then show ?thesis using m' unfolding canonical_manifest_hash_def by blast
  qed
qed

subsection \<open>The independent verifier\<close>

definition EVIDENCE_FIELDS :: "string list" where
  "EVIDENCE_FIELDS = [''probe_uid'', ''slice'', ''choice_set'', ''choice_set_hash'', ''raw_choice'', ''raw_confidence'', ''model_id'',
     ''prompt_template_hash'']"

definition write_evidence :: "(string \<Rightarrow> string) \<Rightarrow> dict list \<Rightarrow> (string \<times> string) res" where
  "write_evidence H rows =
     (if list_ex (\<lambda>d. \<not> same_keys d EVIDENCE_FIELDS) rows
      then Inl (ValueError ''evidence rows must have exactly the public evidence schema and no correct field'')
      else (let text = concat (map (\<lambda>d. dumps_compact (JObj d) @ [CHR 0x0A]) rows) in Inr (text, H text)))"

text \<open>Line ends of ASCII; empty lines are skipped.\<close>

definition line_end :: "char \<Rightarrow> bool" where
  "line_end c \<longleftrightarrow> (let n = of_char c :: nat in (10 \<le> n \<and> n \<le> 13) \<or> (28 \<le> n \<and> n \<le> 30))"

definition lines_of :: "string \<Rightarrow> string list" where
  "lines_of s = filter (\<lambda>l. l \<noteq> []) (split_at (CHR 0x0A) (map (\<lambda>c. if line_end c then CHR 0x0A else c) s))"

fun load_lines :: "string list \<Rightarrow> json list res" where
  "load_lines [] = Inr []"
| "load_lines (l # ls) =
     (case loads l of None \<Rightarrow> Inl (ValueError ''invalid evidence JSONL'') | Some v \<Rightarrow> rbind (load_lines ls) (\<lambda>vs. Inr (v # vs)))"

definition as_dict :: "json \<Rightarrow> dict res" where
  "as_dict v = (case v of JObj d \<Rightarrow> Inr d | _ \<Rightarrow> Inl AttributeError)"

definition load_probes :: "string \<Rightarrow> json list res" where
  "load_probes text =
     (case loads text of None \<Rightarrow> Inl JSONDecodeError
      | Some v \<Rightarrow>
          (case (case v of JObj d \<Rightarrow> dget d ''probes'' | _ \<Rightarrow> Some v) of
             None \<Rightarrow> Inl (KeyError ''probes'')
           | Some (JList ps) \<Rightarrow> Inr ps
           | Some _ \<Rightarrow> Inl (ValueError ''probe universe must be a list or contain probes'')))"

definition field :: "dict \<Rightarrow> string \<Rightarrow> json res" where
  "field d k = (case dget d k of None \<Rightarrow> Inl (KeyError k) | Some v \<Rightarrow> Inr v)"

definition probe_request :: "string \<Rightarrow> dict \<Rightarrow> resolve_request res" where
  "probe_request uid p =
     rbind (map_res (field p) [''kind'', ''raw_domain'', ''value'', ''evidence_text'']) (\<lambda>vs.
       case vs of
         [JStr kind, JStr dm, JStr v, JStr ev] \<Rightarrow>
           mk_request \<lparr>rq_uid = uid, rq_kind = kind, rq_raw_domain = dm, rq_value = v, rq_evidence = ev, rq_effective_at = None\<rparr>
       | _ \<Rightarrow> Inl (ValueError ''raw_domain, value, and evidence_text must be strings''))"

definition evidence_confidence :: "(string \<Rightarrow> pyfloat) \<Rightarrow> json \<Rightarrow> raw_confidence res" where
  "evidence_confidence lit_float v =
     (let bad = Inl (ValueError ''invalid raw confidence'') in
      case v of
        JInt n \<Rightarrow> if int_overflows n then Inl OverflowError else if 0 \<le> n \<and> n \<le> 1 then Inr (IntConf n) else bad
      | JFloat s \<Rightarrow> (case lit_float s of Finite x \<Rightarrow> if 0 \<le> x \<and> x \<le> 1 then Inr (FloatConf (Finite x)) else bad | _ \<Rightarrow> bad)
      | _ \<Rightarrow> bad)"

text \<open>What the engine would have been asked is worked out again, and the answer compared with the slot expected.\<close>

definition replayed :: "(string \<Rightarrow> string) \<Rightarrow> slot_registry \<Rightarrow> dict \<Rightarrow> dict \<Rightarrow> resolve_request \<Rightarrow> blocking_receipt res" where
  "replayed H reg row probe r =
     rbind (assemble_blocking H V1 r reg (compute_risk_evidence r (sr_slots reg)) None) (\<lambda>bl.
       let br = bl_receipt bl in
       if bl_overflow bl \<or> dget row ''slice'' \<noteq> Some (JStr (br_slice br)) \<or> dget row ''slice'' \<noteq> dget probe ''slice'' \<or>
          Option.bind (dget row ''choice_set'') seq_items \<noteq> Some (map JStr (br_choice_set br)) \<or>
          dget row ''choice_set_hash'' \<noteq> Some (JStr (br_choice_hash br))
       then Inl (ValueError ''choice-set replay mismatch'')
       else Inr br)"

definition replay_row ::
  "(string \<Rightarrow> string) \<Rightarrow> (string \<Rightarrow> pyfloat) \<Rightarrow> slot_registry \<Rightarrow> calibration_manifest \<Rightarrow> (string \<times> dict) list \<Rightarrow> string \<times> dict \<Rightarrow>
   (string \<times> observation) res" where
  "replay_row H lit_float reg m probes = (\<lambda>(uid, row).
     if \<not> same_keys row EVIDENCE_FIELDS then Inl (ValueError ''evidence row schema mismatch'')
     else
       (case dget probes uid of None \<Rightarrow> Inl (KeyError uid)
        | Some probe \<Rightarrow>
            rbind (probe_request uid probe) (\<lambda>r.
            rbind (replayed H reg row probe r) (\<lambda>br.
            rbind (field row ''raw_choice'') (\<lambda>choice.
              if (case choice of JList _ \<Rightarrow> True | JObj _ \<Rightarrow> True | _ \<Rightarrow> False) then Inl (TypeError ''unhashable type'')
              else if choice \<notin> set (map JStr (br_choice_set br @ [''ABSTAIN'']))
                then Inl (ValueError ''raw choice outside closed choice set'')
              else
                rbind (field row ''raw_confidence'') (\<lambda>c. rbind (evidence_confidence lit_float c) (\<lambda>conf.
                if dget row ''model_id'' \<noteq> Some (JStr (cm_model_id m)) \<or> dget row ''prompt_template_hash'' \<noteq> Some (JStr (cm_prompt_hash m))
                then Inl (ValueError ''provider identity mismatch'')
                else
                  rbind (field probe ''expected_slot_id'') (\<lambda>expected.
                    Inr (br_slice br, \<lparr>ob_uid = uid, ob_conf = conf, ob_correct = Some (choice = expected)\<rparr>)))))))))"

text \<open>Rows and probes by uid; a uid that is no text fails here, where the code fails when it makes the request.\<close>

definition with_uid :: "json \<Rightarrow> (string \<times> dict) res" where
  "with_uid v = rbind (as_dict v) (\<lambda>d. case dget d ''probe_uid'' of Some (JStr u) \<Rightarrow> Inr (u, d)
     | _ \<Rightarrow> Inl (ValueError ''evidence and probe universe are not a bijection''))"

definition verify_evidence ::
  "(string \<Rightarrow> string) \<Rightarrow> (string \<Rightarrow> pyfloat) \<Rightarrow> (rat \<Rightarrow> rat) \<Rightarrow> slot_registry res \<Rightarrow> calibration_manifest \<Rightarrow>
   (string \<times> dict) list \<Rightarrow> (string \<times> dict) list \<Rightarrow> unit res" where
  "verify_evidence H lit_float scaled registry m rows probes =
     (if \<not> distinct (map fst probes) \<or> set (map fst rows) \<noteq> set (map fst probes) \<or> length rows \<noteq> length probes
      then Inl (ValueError ''evidence and probe universe are not a bijection'')
      else
        rbind registry (\<lambda>reg.
        rbind (map_res (replay_row H lit_float reg m probes) rows) (\<lambda>obs.
        rbind (fit scaled obs) (\<lambda>fitted.
          if list_ex (\<lambda>name. dget (cm_slices m) name \<noteq> Some (slice_or_shutdown fitted name)) [''benign'', ''hr'']
          then Inl (ValueError ''refit mismatch'')
          else if cm_registry_hash m \<noteq> sr_content_hash reg \<or> cm_normalizer_hash m \<noteq> normalizer_rules_hash H \<or>
            cm_blocking_hash m \<noteq> BLOCKING_RULES_HASH H \<or> cm_code_version m \<noteq> RESOLVER_CODE_VERSION
          then Inl (ValueError ''live component binding mismatch'')
          else Inr ()))))"

definition verify ::
  "(string \<Rightarrow> string) \<Rightarrow> (rat \<Rightarrow> string) \<Rightarrow> (string \<Rightarrow> pyfloat) \<Rightarrow> (rat \<Rightarrow> rat) \<Rightarrow> slot_registry res \<Rightarrow>
   string option \<Rightarrow> string \<Rightarrow> string \<Rightarrow> (calibration_manifest \<times> string) res" where
  "verify H float_text lit_float scaled registry manifest_file evidence probes =
     rbind (load_manifest H float_text lit_float manifest_file) (\<lambda>(m, digest).
     if H evidence \<noteq> cm_evidence_hash m then Inl (ValueError ''evidence hash mismatch'')
     else if H probes \<notin> set (cm_goldset_hashes m) then Inl (ValueError ''probe universe hash is not bound by manifest'')
     else
       rbind (load_lines (lines_of evidence)) (\<lambda>rs. rbind (load_probes probes) (\<lambda>ps.
       rbind (map_res with_uid ps) (\<lambda>ps. rbind (map_res with_uid rs) (\<lambda>rs.
       rbind (verify_evidence H lit_float scaled registry m rs ps) (\<lambda>_. Inr (m, digest)))))))"

subsection \<open>What a verified manifest excludes\<close>

lemma map_res_keys: "map_res f xs = Inr ys \<Longrightarrow> (\<And>x y. f x = Inr y \<Longrightarrow> g y = h x) \<Longrightarrow> map g ys = map h xs"
  by (induction xs arbitrary: ys) (auto simp: rbind_Inr_iff)

lemma replayed_slice: "replayed H reg row probe r = Inr br \<Longrightarrow> dget row ''slice'' = Some (JStr (br_slice br))"
  by (cases "assemble_blocking H V1 r reg (compute_risk_evidence r (sr_slots reg)) None")
    (simp_all add: replayed_def Let_def split: if_split_asm)

lemma replay_row_cases:
  assumes "replay_row H lit_float reg m probes (uid, row) = Inr (name, ob)"
  obtains probe choice c expected where "dget probes uid = Some probe" "ob_uid ob = uid" "dget row ''slice'' = Some (JStr name)"
    and "dget row ''raw_choice'' = Some choice" "dget probe ''expected_slot_id'' = Some expected" "ob_correct ob = Some (choice = expected)"
    and "dget row ''raw_confidence'' = Some c" "evidence_confidence lit_float c = Inr (ob_conf ob)"
proof -
  have k: "same_keys row EVIDENCE_FIELDS" using assms by (cases "same_keys row EVIDENCE_FIELDS") (simp_all add: replay_row_def)
  obtain probe where p: "dget probes uid = Some probe" using assms k by (cases "dget probes uid") (simp_all add: replay_row_def)
  obtain r where r: "probe_request uid probe = Inr r" using assms k p by (cases "probe_request uid probe") (simp_all add: replay_row_def)
  obtain br where br: "replayed H reg row probe r = Inr br" using assms k p r by (cases "replayed H reg row probe r") (simp_all add: replay_row_def)
  obtain choice where ch: "dget row ''raw_choice'' = Some choice" using assms k p r br
    by (cases "dget row ''raw_choice''") (simp_all add: replay_row_def field_def)
  obtain c where c: "dget row ''raw_confidence'' = Some c" using assms k p r br ch
    by (cases "dget row ''raw_confidence''") (simp_all add: replay_row_def field_def split: if_split_asm)
  obtain conf where conf: "evidence_confidence lit_float c = Inr conf" using assms k p r br ch c
    by (cases "evidence_confidence lit_float c") (simp_all add: replay_row_def field_def split: if_split_asm)
  obtain ex where ex: "dget probe ''expected_slot_id'' = Some ex" using assms k p r br ch c conf
    by (cases "dget probe ''expected_slot_id''") (simp_all add: replay_row_def field_def split: if_split_asm)
  have "name = br_slice br \<and> ob = \<lparr>ob_uid = uid, ob_conf = conf, ob_correct = Some (choice = ex)\<rparr>"
    using assms k p r br ch c conf ex by (simp add: replay_row_def field_def split: if_split_asm)
  then show ?thesis using that [OF p _ _ ch ex _ c] conf replayed_slice [OF br] by simp
qed

lemma fit_results:
  assumes "fit scaled obs = Inr fitted" and "name \<in> {''benign'', ''hr''}"
  shows "\<exists>c. dget fitted name = Some c \<and> fit_slice scaled (map snd (filter (\<lambda>(s, ob). s = name) obs)) = Inr c"
proof -
  let ?f = "\<lambda>name. fit_slice scaled (map snd (filter (\<lambda>(s, ob). s = name) obs))"
  have f: "map_res (\<lambda>name. rbind (?f name) (\<lambda>c. Inr (name, c))) [''benign'', ''hr''] = Inr fitted"
    using assms(1) by (simp only: fit_def sum.distinct split: if_split_asm)
  obtain b where b: "?f ''benign'' = Inr b" using f by (cases "?f ''benign''") simp_all
  obtain h where h: "?f ''hr'' = Inr h" using f b by (cases "?f ''hr''") simp_all
  have "fitted = [(''benign'', b), (''hr'', h)]" using f b h by simp
  then show ?thesis using assms(2) b h by auto
qed

lemma verified_excludes:
  assumes v: "verify_evidence H lit_float scaled registry m rows probes = Inr ()"
    and scaled_up: "\<forall>n x. n \<le> 10 \<and> of_nat n \<le> 10 * x \<longrightarrow> of_nat n \<le> scaled x"
    and row: "(uid, row) \<in> set rows" "dget probes uid = Some probe" "dget row ''raw_choice'' \<noteq> dget probe ''expected_slot_id''"
    and conf: "dget row ''raw_confidence'' = Some c" "evidence_confidence lit_float c = Inr conf" "finite_conf conf = Inr x"
    and s: "dget row ''slice'' = Some (JStr name)" "dget (cm_slices m) name = Some s" "name \<in> {''benign'', ''hr''}"
    and y: "calibrate y s = Some w" "y \<le> x"
  shows "w < cs_tau s"
proof -
  have bij: "distinct (map fst probes)" "set (map fst rows) = set (map fst probes)" "length rows = length probes"
    using v by (auto simp: verify_evidence_def split: if_split_asm)
  obtain reg where reg: "registry = Inr reg" using v bij by (cases registry) (simp_all add: verify_evidence_def)
  obtain obs where obs: "map_res (replay_row H lit_float reg m probes) rows = Inr obs"
    using v bij reg by (cases "map_res (replay_row H lit_float reg m probes) rows") (simp_all add: verify_evidence_def)
  obtain fitted where f: "fit scaled obs = Inr fitted"
    using v bij reg obs by (cases "fit scaled obs") (simp_all add: verify_evidence_def)
  have sl: "dget (cm_slices m) n = Some (slice_or_shutdown fitted n)" if "n \<in> {''benign'', ''hr''}" for n
    using v bij reg obs f that by (auto simp: verify_evidence_def split: if_split_asm)
  obtain z where z: "dget fitted name = Some z" "fit_slice scaled (map snd (filter (\<lambda>(t, ob). t = name) obs)) = Inr z"
    using fit_results [OF f s(3)] by blast
  have "s = slice_or_shutdown fitted name" using sl [OF s(3)] s(2) by simp
  then have "z = Some s"
    using y(1) z(1) by (cases z) (simp_all add: slice_or_shutdown_def shutdown_slice_def calibrate_def)
  have u: "map (ob_uid \<circ> snd) obs = map fst rows"
    by (rule map_res_keys [OF obs]) (auto elim!: replay_row_cases)
  have "card (set (map fst rows)) = length (map fst rows)" using bij distinct_card [OF bij(1)] by simp
  then have "distinct (map (ob_uid \<circ> snd) obs)" unfolding u by (rule card_distinct)
  then have d: "distinct (map ob_uid (map snd (filter (\<lambda>(t, ob). t = name) obs)))"
    unfolding map_map by (rule distinct_map_filter)
  obtain t ob where ob: "(t, ob) \<in> set obs" "replay_row H lit_float reg m probes (uid, row) = Inr (t, ob)"
    using map_res_member [OF obs row(1)] by auto
  from ob(2) show ?thesis
  proof (cases rule: replay_row_cases)
    case (1 p choice c' ex)
    have "ob \<in> set (map snd (filter (\<lambda>(t, ob). t = name) obs))" using ob(1) 1(3) s(1) by force
    moreover have "ob_correct ob = Some False" using 1 row(2,3) by auto
    moreover have "finite_conf (ob_conf ob) = Inr x" using 1 conf by simp
    ultimately show ?thesis using fit_slice_excludes [OF z(2) [unfolded \<open>z = Some s\<close>] d scaled_up _ _ _ y(1,2)] by blast
  qed
qed

subsection \<open>A fit of ten answers\<close>

definition sample_answers :: "observation list" where
  "sample_answers =
     map (\<lambda>i. \<lparr>ob_uid = ''w'' @ nat_str i, ob_conf = FloatConf (Finite (1/5)), ob_correct = Some False\<rparr>) [0..<5] @
     map (\<lambda>i. \<lparr>ob_uid = ''r'' @ nat_str i, ob_conf = FloatConf (Finite (9/10)), ob_correct = Some True\<rparr>) [0..<5]"

definition sample_slice :: calibration_slice where
  "sample_slice = \<lparr>cs_n_samples = 10, cs_per_bin = [0, 0, 5, 0, 0, 0, 0, 0, 0, 5], cs_mapping = [(0, 3/10, 0), (3/10, 1, 1)], cs_tau = 1\<rparr>"

definition sample_receipt :: blocking_receipt where
  "sample_receipt = \<lparr>br_choice_set = [''preference:diet''], br_choice_hash = [], br_slice = ''benign'', br_forced = []\<rparr>"

definition sample_reply :: suggestion where
  "sample_reply = \<lparr>sg_choice = JStr ''preference:diet'', sg_confidence = FloatConf (Finite (1/10)),
     sg_attempts = [\<lparr>ta_outcome = ''ok'', ta_latency = 5, ta_excerpt = JNull\<rparr>]\<rparr>"

definition sample_no_risk :: risk_evidence where
  "sample_no_risk = \<lparr>re_matched = [], re_domain_hit = False, re_lexicon_hit = False\<rparr>"

lemma sample_fit: "fit_slice (\<lambda>x. 10 * x) sample_answers = Inr (Some sample_slice)"
  by code_simp

lemma sample_distinct: "distinct (map ob_uid sample_answers)"
  by code_simp

lemma sample_concluded:
  "is_ok (fst (conclude sample_engine sample_request [] sample_no_risk False False sample_receipt sample_slice sample_reply sample_budget))"
  by code_simp

theorem fit_excludes_errors_witness:
  "\<exists>d b'. conclude sample_engine sample_request [] sample_no_risk False False sample_receipt sample_slice sample_reply sample_budget = (Inr d, b') \<and>
     rd_slot_id d = None"
proof -
  obtain d b' where c: "conclude sample_engine sample_request [] sample_no_risk False False sample_receipt sample_slice sample_reply sample_budget
      = (Inr d, b')"
    using sample_concluded by (cases "conclude sample_engine sample_request [] sample_no_risk False False sample_receipt sample_slice
      sample_reply sample_budget"; cases "fst (conclude sample_engine sample_request [] sample_no_risk False False sample_receipt sample_slice
      sample_reply sample_budget)") auto
  have "\<lparr>ob_uid = ''w'' @ nat_str 0, ob_conf = FloatConf (Finite (1/5)), ob_correct = Some False\<rparr> \<in> set sample_answers"
    by (simp add: sample_answers_def)
  then show ?thesis
    using fit_excludes_errors [OF sample_fit sample_distinct, where y = "1/10" and x = "1/5" and sug = sample_reply, OF _ _ _ _ _ _ _ c] c
    by (auto simp: finite_conf_def sample_reply_def usable_confidence_def)
qed

theorem fit_total_witness: "\<exists>c. fit_slice (\<lambda>x. 10 * x) sample_answers = Inr c \<and> validate_slice ''hr'' (the c) = Inr ()"
proof -
  have "\<forall>ob \<in> set sample_answers. \<exists>r. check_observation ob = Inr r"
    by (auto simp: sample_answers_def check_observation_def finite_conf_def)
  from fit_total [OF sample_distinct this, of "\<lambda>x. 10 * x" "''hr''"] sample_fit show ?thesis by auto
qed

definition sample_text :: "rat \<Rightarrow> string" where
  "sample_text x = (if x = 0 then ''0.0'' else if x = 1 then ''1.0'' else ''0.3'')"

definition sample_float :: "string \<Rightarrow> pyfloat" where
  "sample_float t = (if t = ''0.0'' then Finite 0 else if t = ''1.0'' then Finite 1 else Finite (3/10))"

definition sample_manifest :: calibration_manifest where
  "sample_manifest = \<lparr>cm_version = ''1'', cm_model_id = ''m'', cm_prompt_hash = ''p'', cm_registry_hash = ''r'', cm_normalizer_hash = ''n'',
     cm_blocking_hash = ''b'', cm_code_version = ''1.1.0'', cm_goldset_hashes = [''g''], cm_evidence_hash = ''e'', cm_git_commit = ''c'',
     cm_slices = [(''benign'', sample_slice), (''hr'', shutdown_slice)]\<rparr>"

theorem manifest_reads_back_witness:
  "load_manifest id sample_text sample_float (Some (dump_manifest id sample_text sample_manifest)) =
     Inr (sample_manifest, canonical_manifest_hash id sample_text sample_manifest)"
proof -
  have v: "validate_slice ''benign'' sample_slice = Inr ()" "validate_slice ''hr'' shutdown_slice = Inr ()" by code_simp+
  have lits: "float_lit ''0.0''" "float_lit ''1.0''" "float_lit ''0.3''" by code_simp+
  have q: "quantized (Finite 0)" "quantized (Finite 1)" "quantized (Finite (3/10))" by code_simp+
  have t: "texts_ok sample_text sample_float sample_slice" "texts_ok sample_text sample_float shutdown_slice"
    using lits q by (auto simp: texts_ok_def slice_values_def sample_slice_def shutdown_slice_def sample_text_def sample_float_def)
  then have "manifest_good sample_text sample_float sample_manifest" by (simp add: manifest_good_def sample_manifest_def)
  moreover have "list_all (\<lambda>(k, s). validate_slice k s = Inr ()) (cm_slices sample_manifest)" using v by (simp add: sample_manifest_def)
  ultimately show ?thesis using manifest_reads_back by blast
qed

end
