(* ===== verification/Bridge_Health.thy ===== *)
theory Bridge_Health
  imports Json
begin

text \<open>
  \<open>panella/bridge_health.py\<close>: how long a bridge has been failing and how old its corpus is, and which alerts a run
  raises.  A watermark says what was alerted already; it moves only when the alert was delivered.  Times are
  microseconds, not floats; the age of a corpus as text and one HTTP POST are arguments.
\<close>

subsection \<open>The tables\<close>

definition STREAK_ALERT_THRESHOLD :: int where "STREAK_ALERT_THRESHOLD = 3"
definition STALENESS_ALERT_THRESHOLD_DAYS :: int where "STALENESS_ALERT_THRESHOLD_DAYS = 7"
definition ENV_DISABLE :: string where "ENV_DISABLE = ''PANELLA_MEMORY_DISABLE_FRESHNESS_ALERTS''"

record health_state =
  hs_streak :: int
  hs_last_alerted :: int
  hs_last_run :: time

record wing_state =
  ws_written :: time
  ws_alerted :: time

text \<open>Each table by its primary key.\<close>

record health_db =
  hd_bridges :: "(string \<times> health_state) list"
  hd_wings :: "((string \<times> string) \<times> wing_state) list"

definition empty_health :: health_db where
  "empty_health = \<lparr>hd_bridges = [], hd_wings = []\<rparr>"

record alert_event =
  al_bridge :: string
  al_severity :: string
  al_kind :: string
  al_message :: string
  al_payload :: dict

record run_summary =
  rn_bridge :: string
  rn_source_errors :: int
  rn_new_sessions :: int
  rn_wings_written_at :: "(string \<times> time) list"
  rn_now :: "time option"

definition load_state :: "health_db \<Rightarrow> string \<Rightarrow> health_state" where
  "load_state db b =
     (case dget (hd_bridges db) b of None \<Rightarrow> \<lparr>hs_streak = 0, hs_last_alerted = 0, hs_last_run = 0\<rparr> | Some s \<Rightarrow> s)"

definition persist_state :: "string \<Rightarrow> health_state \<Rightarrow> health_db \<Rightarrow> health_db" where
  "persist_state b s db = db\<lparr>hd_bridges := dset b s (hd_bridges db)\<rparr>"

definition upsert_wing :: "time \<Rightarrow> wing_state option \<Rightarrow> wing_state" where
  "upsert_wing ts old =
     (case old of None \<Rightarrow> \<lparr>ws_written = ts, ws_alerted = 0\<rparr>
      | Some w \<Rightarrow> \<lparr>ws_written = max (ws_written w) ts, ws_alerted = (if ts > ws_written w then 0 else ws_alerted w)\<rparr>)"

fun persist_wing_freshness :: "string \<Rightarrow> (string \<times> time) list \<Rightarrow> health_db \<Rightarrow> health_db" where
  "persist_wing_freshness b [] db = db"
| "persist_wing_freshness b ((w, ts) # ws) db =
     persist_wing_freshness b ws (db\<lparr>hd_wings := dset (b, w) (upsert_wing ts (dget (hd_wings db) (b, w))) (hd_wings db)\<rparr>)"

definition query_stale_wings :: "health_db \<Rightarrow> string \<Rightarrow> time \<Rightarrow> time \<Rightarrow> (string \<times> time) list" where
  "query_stale_wings db b now threshold =
     map (\<lambda>((_, w), s). (w, ws_written s))
       (filter (\<lambda>((b', _), s). b' = b \<and> \<not> now - ws_written s < threshold \<and> \<not> ws_alerted s \<ge> ws_written s) (hd_wings db))"

definition mark_wings_alerted :: "string \<Rightarrow> string list \<Rightarrow> time \<Rightarrow> health_db \<Rightarrow> health_db" where
  "mark_wings_alerted b ws now db =
     db\<lparr>hd_wings := map (\<lambda>((b', w), s). ((b', w), if b' = b \<and> w \<in> set ws then s\<lparr>ws_alerted := now\<rparr> else s)) (hd_wings db)\<rparr>"

subsection \<open>One run\<close>

definition days :: "int \<Rightarrow> time" where
  "days n = n * 86400 * 1000000"

definition clean_run :: "run_summary \<Rightarrow> bool" where
  "clean_run s \<longleftrightarrow> rn_source_errors s = 0 \<and> rn_new_sessions s > 0"

definition next_streak :: "run_summary \<Rightarrow> health_state \<Rightarrow> int \<times> int" where
  "next_streak s st =
     (if clean_run s then (0, 0)
      else if rn_source_errors s > 0 then (hs_streak st + 1, hs_last_alerted st)
      else (hs_streak st, hs_last_alerted st))"

definition streak_alert :: "string \<Rightarrow> int \<Rightarrow> int \<Rightarrow> alert_event" where
  "streak_alert b n threshold =
     \<lparr>al_bridge = b, al_severity = ''P1'', al_kind = ''source_outage_streak'',
      al_message = b @ '' source-outage streak='' @ int_str n @ '' (threshold='' @ int_str threshold @ ''); ~'' @ int_str (n * 24) @
        ''h since last successful read'',
      al_payload = [(''bridge_name'', JStr b), (''streak'', JInt n), (''threshold'', JInt threshold)]\<rparr>"

text \<open>\<open>age\<close> gives a span of time in days, as a float prints itself and with one decimal.\<close>

definition wing_alert :: "(time \<Rightarrow> string \<times> string) \<Rightarrow> string \<Rightarrow> string \<Rightarrow> time \<Rightarrow> int \<Rightarrow> alert_event" where
  "wing_alert age b w span threshold =
     \<lparr>al_bridge = b, al_severity = ''P2'', al_kind = ''corpus_stale_wing'',
      al_message = b @ '' wing='' @ w @ '' stale; '' @ snd (age span) @ ''d since last write (threshold='' @ int_str threshold @ ''d)'',
      al_payload = [(''bridge_name'', JStr b), (''wing'', JStr w), (''age_days'', JFloat (fst (age span))),
        (''threshold_days'', JInt threshold)]\<rparr>"

text \<open>What the caller fixes: the thresholds, the texts of ages, and whether alerts are disabled.\<close>

record health_config =
  hc_streak_threshold :: int
  hc_staleness_days :: int
  hc_age :: "time \<Rightarrow> string \<times> string"

text \<open>
  A run is recorded in one transaction with the alerts it asks for: the streak alert, if any, and the stale wings with
  their alerts.
\<close>

definition streak_alerts :: "health_config \<Rightarrow> bool \<Rightarrow> run_summary \<Rightarrow> health_state \<Rightarrow> alert_event list" where
  "streak_alerts cfg disabled s st =
     (let n = fst (next_streak s st) in
      if \<not> disabled \<and> n \<ge> hc_streak_threshold cfg \<and> n > hs_last_alerted st then [streak_alert (rn_bridge s) n (hc_streak_threshold cfg)]
      else [])"

definition recorded_run :: "run_summary \<Rightarrow> time \<Rightarrow> health_db \<Rightarrow> health_db" where
  "recorded_run s now db =
     (let (n, floor') = next_streak s (load_state db (rn_bridge s)) in
      persist_wing_freshness (rn_bridge s) (rn_wings_written_at s)
        (persist_state (rn_bridge s) \<lparr>hs_streak = n, hs_last_alerted = floor', hs_last_run = now\<rparr> db))"

definition wing_alerts :: "health_config \<Rightarrow> bool \<Rightarrow> run_summary \<Rightarrow> time \<Rightarrow> health_db \<Rightarrow> (string \<times> alert_event) list" where
  "wing_alerts cfg disabled s now db =
     (if disabled then []
      else map (\<lambda>(w, written). (w, wing_alert (hc_age cfg) (rn_bridge s) w (now - written) (hc_staleness_days cfg)))
        (query_stale_wings db (rn_bridge s) now (days (hc_staleness_days cfg))))"

text \<open>Delivering: \<open>deliver\<close> says for which alerts the hook returns; without a hook the caller has them all.\<close>

definition was_delivered :: "(alert_event \<Rightarrow> bool) option \<Rightarrow> alert_event \<Rightarrow> bool" where
  "was_delivered deliver a = (case deliver of None \<Rightarrow> True | Some f \<Rightarrow> f a)"

definition mark_streak :: "string \<Rightarrow> int \<Rightarrow> health_db \<Rightarrow> health_db" where
  "mark_streak b n db =
     db\<lparr>hd_bridges := map (\<lambda>(b', st). (b', if b' = b then st\<lparr>hs_last_alerted := n\<rparr> else st)) (hd_bridges db)\<rparr>"

text \<open>
  \<open>fault i\<close>: the database fails when it is opened for the \<open>i\<close>-th time, for the schema, for recording the run or for
  moving the watermarks.
\<close>

definition record_run ::
  "health_config \<Rightarrow> bool \<Rightarrow> (nat \<Rightarrow> bool) \<Rightarrow> time \<Rightarrow> (alert_event \<Rightarrow> bool) option \<Rightarrow> run_summary \<Rightarrow> health_db \<Rightarrow>
   alert_event list res \<times> health_db" where
  "record_run cfg disabled fault clk deliver s db =
     (let now = (case rn_now s of None \<Rightarrow> clk | Some t \<Rightarrow> t); failed = Inl (OperationalError ''bridge_health'') in
      if fault 0 \<or> fault 1 then (failed, db)
      else
        (let st = load_state db (rn_bridge s); streaks = streak_alerts cfg disabled s st; db1 = recorded_run s now db;
             wings = wing_alerts cfg disabled s now db1; alerts = streaks @ map snd wings in
         if disabled then (Inr [], db1)
         else
           (let streak_out = list_ex (was_delivered deliver) streaks;
                wings_out = map fst (filter (\<lambda>(_, a). was_delivered deliver a) wings) in
            if \<not> streak_out \<and> wings_out = [] then (Inr alerts, db1)
            else if fault 2 then (failed, db1)
            else
              (let db2 = (if streak_out then mark_streak (rn_bridge s) (fst (next_streak s st)) db1 else db1) in
               (Inr alerts, if wings_out = [] then db2 else mark_wings_alerted (rn_bridge s) wings_out now db2)))))"

definition truthy_flag :: "string \<Rightarrow> bool" where
  "truthy_flag v \<longleftrightarrow> py_lower (py_strip v) \<in> set [''1'', ''true'', ''yes'', ''on'']"

definition env_text :: "(string \<times> string) list \<Rightarrow> string \<Rightarrow> string" where
  "env_text env k = (case dget env k of None \<Rightarrow> [] | Some v \<Rightarrow> v)"

definition env_disabled :: "(string \<times> string) list \<Rightarrow> bool" where
  "env_disabled env = truthy_flag (env_text env ENV_DISABLE)"

text \<open>The wrapper of the synchronization scripts never raises; it stamps every wing that was written with one time.\<close>

definition record_bridge_run ::
  "health_config \<Rightarrow> (string \<times> string) list \<Rightarrow> (nat \<Rightarrow> bool) \<Rightarrow> time \<Rightarrow> (alert_event \<Rightarrow> bool) option \<Rightarrow>
   string \<Rightarrow> int \<Rightarrow> int \<Rightarrow> string list \<Rightarrow> time option \<Rightarrow> health_db \<Rightarrow> alert_event list \<times> health_db" where
  "record_bridge_run cfg env fault clk deliver b source_errors new_sessions written now db =
     (let t = (case now of None \<Rightarrow> clk | Some t \<Rightarrow> t);
          ws = (if new_sessions > 0 then map (\<lambda>w. (w, t)) (rev (remdups (rev (filter (\<lambda>w. w \<noteq> []) written)))) else []) in
      case record_run cfg (env_disabled env) fault clk deliver
          \<lparr>rn_bridge = b, rn_source_errors = source_errors, rn_new_sessions = new_sessions, rn_wings_written_at = ws, rn_now = Some t\<rparr> db of
        (Inl _, db') \<Rightarrow> ([], db')
      | (Inr alerts, db') \<Rightarrow> (alerts, db'))"

subsection \<open>Delivery\<close>

definition ENV_WEBHOOK_URL :: string where "ENV_WEBHOOK_URL = ''PANELLA_MEMORY_BRIDGE_HEALTH_WEBHOOK_URL''"
definition ENV_DISCORD_URL :: string where "ENV_DISCORD_URL = ''PANELLA_MEMORY_BRIDGE_HEALTH_DISCORD_WEBHOOK''"
definition ENV_TELEGRAM_ENABLE :: string where "ENV_TELEGRAM_ENABLE = ''PANELLA_MEMORY_BRIDGE_HEALTH_TELEGRAM''"
definition ENV_TELEGRAM_BOT_TOKEN :: string where "ENV_TELEGRAM_BOT_TOKEN = ''TELEGRAM_BOT_TOKEN''"
definition ENV_TELEGRAM_CHAT_ID :: string where "ENV_TELEGRAM_CHAT_ID = ''TELEGRAM_CHAT_ID''"

text \<open>One POST: nothing, or the class of what it raised with the status of its response.\<close>

type_synonym webhook = "string \<Rightarrow> dict \<Rightarrow> (string \<times> int option) option"

definition sanitize_exception :: "string \<times> int option \<Rightarrow> string" where
  "sanitize_exception x =
     (case x of (cls, None) \<Rightarrow> cls | (cls, Some code) \<Rightarrow> cls @ ''(status='' @ int_str code @ '')'')"

text \<open>A hook raises a \<open>WebhookDeliveryError\<close> with this message, or returns; the HTTP library is taken to be installed.\<close>

definition send_alert :: "webhook \<Rightarrow> string \<Rightarrow> string \<Rightarrow> dict \<Rightarrow> string option" where
  "send_alert post what url body =
     (case post url body of None \<Rightarrow> None | Some x \<Rightarrow> Some (what @ '' delivery failed: '' @ sanitize_exception x))"

definition default_deliver :: "webhook \<Rightarrow> (string \<times> string) list \<Rightarrow> alert_event \<Rightarrow> string option" where
  "default_deliver post env a =
     (let url = py_strip (env_text env ENV_WEBHOOK_URL) in
      if url = [] then None
      else send_alert post ''webhook'' url [(''bridge_name'', JStr (al_bridge a)), (''severity'', JStr (al_severity a)),
        (''kind'', JStr (al_kind a)), (''message'', JStr (al_message a)), (''details'', JObj (al_payload a))])"

definition severity_mark :: "string \<Rightarrow> string" where
  "severity_mark s =
     (if s = ''P1'' then [CHR 0xF0, CHR 0x9F, CHR 0x94, CHR 0xB4]
      else if s = ''P2'' then [CHR 0xF0, CHR 0x9F, CHR 0x9F, CHR 0xA1] else [CHR 0xE2, CHR 0x9A, CHR 0xAA])"

definition detail_line :: "string \<times> json \<Rightarrow> string" where
  "detail_line kv = (let t = py_str (snd kv) in fst kv @ ''='' @ (if length t > 120 then take 117 t @ ''...'' else t))"

definition format_alert_markdown :: "alert_event \<Rightarrow> string" where
  "format_alert_markdown a = join [CHR 0x0A]
     ([severity_mark (al_severity a) @ '' **bridge_health '' @ al_severity a @ ''** '' @ [CHR 0xE2, CHR 0x80, CHR 0x94] @ '' '' @
         [CHR 0x60] @ al_bridge a @ [CHR 0x60],
       ''_'' @ al_kind a @ ''_: '' @ al_message a] @
      (if al_payload a = [] then []
       else [''```'' @ [CHR 0x0A] @ join [CHR 0x0A] (map detail_line (al_payload a)) @ [CHR 0x0A] @ ''```'']))"

definition discord_deliver :: "webhook \<Rightarrow> (string \<times> string) list \<Rightarrow> alert_event \<Rightarrow> string option" where
  "discord_deliver post env a =
     (let url = py_strip (env_text env ENV_DISCORD_URL) in
      if url = [] then None else send_alert post ''discord'' url [(''content'', JStr (format_alert_markdown a))])"

definition telegram_deliver :: "webhook \<Rightarrow> (string \<times> string) list \<Rightarrow> alert_event \<Rightarrow> string option" where
  "telegram_deliver post env a =
     (let token = py_strip (env_text env ENV_TELEGRAM_BOT_TOKEN); chat = py_strip (env_text env ENV_TELEGRAM_CHAT_ID) in
      if \<not> truthy_flag (env_text env ENV_TELEGRAM_ENABLE) \<or> token = [] \<or> chat = [] then None
      else send_alert post ''telegram'' (''https://api.telegram.org/bot'' @ token @ ''/sendMessage'')
        [(''chat_id'', JStr chat), (''text'', JStr (format_alert_markdown a)), (''parse_mode'', JStr ''Markdown''),
         (''disable_web_page_preview'', JBool True)])"

definition make_deliver :: "webhook \<Rightarrow> (string \<times> string) list \<Rightarrow> alert_event \<Rightarrow> string option" where
  "make_deliver post env =
     (if py_strip (env_text env ENV_WEBHOOK_URL) \<noteq> [] then default_deliver post env
      else if py_strip (env_text env ENV_DISCORD_URL) \<noteq> [] then discord_deliver post env
      else if truthy_flag (env_text env ENV_TELEGRAM_ENABLE) then telegram_deliver post env
      else (\<lambda>_. None))"

subsection \<open>What a run leaves behind\<close>

lemma load_state_simps [simp]:
  "load_state (persist_state b s db) b' = (if b' = b then s else load_state db b')"
  "load_state (persist_wing_freshness b ws db) b' = load_state db b'"
  "load_state (mark_wings_alerted b vs now db) b' = load_state db b'"
  "load_state empty_health b' = \<lparr>hs_streak = 0, hs_last_alerted = 0, hs_last_run = 0\<rparr>"
proof -
  have "hd_bridges (persist_wing_freshness b ws db) = hd_bridges db" by (induction b ws db rule: persist_wing_freshness.induct) simp_all
  then show "load_state (persist_wing_freshness b ws db) b' = load_state db b'" by (simp add: load_state_def)
qed (simp_all add: load_state_def persist_state_def mark_wings_alerted_def empty_health_def dget_dset)

lemma load_recorded [simp]:
  "load_state (recorded_run s now db) b =
     (if b = rn_bridge s then \<lparr>hs_streak = fst (next_streak s (load_state db b)), hs_last_alerted = snd (next_streak s (load_state db b)),
        hs_last_run = now\<rparr> else load_state db b)"
  by (simp add: recorded_run_def split: prod.split)

lemma dget_map_values: "dget (map (\<lambda>(k, v). (k, f k v)) t) k = map_option (f k) (dget t k)"
  by (induction t) auto

lemma recorded_known: "dget (hd_bridges (recorded_run s now db)) (rn_bridge s) \<noteq> None"
proof -
  have p: "hd_bridges (persist_wing_freshness b ws db) = hd_bridges db" for b ws db
    by (induction b ws db rule: persist_wing_freshness.induct) simp_all
  show ?thesis by (simp add: recorded_run_def p persist_state_def dget_dset split: prod.split)
qed

lemma load_mark_streak:
  "load_state (mark_streak b n db) b' =
     (if b' = b \<and> dget (hd_bridges db) b \<noteq> None then (load_state db b)\<lparr>hs_last_alerted := n\<rparr> else load_state db b')"
  unfolding mark_streak_def load_state_def
  by (auto simp: dget_map_values [of "\<lambda>b' st. if b' = b then st\<lparr>hs_last_alerted := n\<rparr> else st"] split: option.split)

text \<open>The alert for the streak of this run was asked for, and the run ended with the alert delivered.\<close>

definition streak_told :: "health_config \<Rightarrow> (alert_event \<Rightarrow> bool) option \<Rightarrow> string \<Rightarrow> int \<Rightarrow> alert_event list res \<Rightarrow> bool" where
  "streak_told cfg deliver b n r \<longleftrightarrow>
     (\<exists>alerts. r = Inr alerts \<and> streak_alert b n (hc_streak_threshold cfg) \<in> set alerts \<and>
        was_delivered deliver (streak_alert b n (hc_streak_threshold cfg)))"

lemma streak_alert_inj: "streak_alert b n t = streak_alert b' n' t \<Longrightarrow> n = n'"
  by (auto simp: streak_alert_def)

lemma wing_alerts_kind: "p \<in> set (wing_alerts cfg disabled s now db) \<Longrightarrow> al_kind (snd p) = ''corpus_stale_wing''"
  by (auto simp: wing_alerts_def wing_alert_def split: if_split_asm)

lemma streak_alert_kind [simp]: "al_kind (streak_alert b n t) = ''source_outage_streak''"
  by (simp add: streak_alert_def)

lemma streak_alerts_asked:
  "a \<in> set (streak_alerts cfg disabled s st) \<longleftrightarrow> \<not> disabled \<and> fst (next_streak s st) \<ge> hc_streak_threshold cfg \<and>
     fst (next_streak s st) > hs_last_alerted st \<and> a = streak_alert (rn_bridge s) (fst (next_streak s st)) (hc_streak_threshold cfg)"
  by (auto simp: streak_alerts_def Let_def)

text \<open>How a run ends: it failed before or after recording, or it gives its alerts.\<close>

lemma record_run_cases:
  assumes "record_run cfg disabled fault clk deliver s db = (r, db')"
  obtains (lost) e where "fault 0 \<or> fault 1" "r = Inl e" "db' = db"
  | (unmarked) e now where "\<not> (fault 0 \<or> fault 1)" "r = Inl e" "db' = recorded_run s now db"
      "now = (case rn_now s of None \<Rightarrow> clk | Some t \<Rightarrow> t)"
  | (finished) now db1 wings wings_out where "\<not> (fault 0 \<or> fault 1)"
      "now = (case rn_now s of None \<Rightarrow> clk | Some t \<Rightarrow> t)" "db1 = recorded_run s now db" "wings = wing_alerts cfg disabled s now db1"
      "wings_out = map fst (filter (\<lambda>(_, a). was_delivered deliver a) wings)"
      "r = Inr (streak_alerts cfg disabled s (load_state db (rn_bridge s)) @ map snd wings)"
      "db' = mark_wings_alerted (rn_bridge s) wings_out now
         (if list_ex (was_delivered deliver) (streak_alerts cfg disabled s (load_state db (rn_bridge s)))
          then mark_streak (rn_bridge s) (fst (next_streak s (load_state db (rn_bridge s)))) db1 else db1)"
proof -
  have none: "mark_wings_alerted b [] now db = db" for b now and db :: health_db
    by (cases db) (simp add: mark_wings_alerted_def case_prod_unfold)
  have off: "disabled \<Longrightarrow> streak_alerts cfg disabled s st = []" "disabled \<Longrightarrow> wing_alerts cfg disabled s now d = []" for st now d
    by (simp_all add: streak_alerts_def wing_alerts_def)
  show ?thesis
  proof (cases "fault 0 \<or> fault 1")
    case True
    then show ?thesis using assms by (intro lost) (auto simp: record_run_def Let_def)
  next
    case False
    define now where "now = (case rn_now s of None \<Rightarrow> clk | Some t \<Rightarrow> t)"
    define db1 where "db1 = recorded_run s now db"
    define wings where "wings = wing_alerts cfg disabled s now db1"
    define wings_out where "wings_out = map fst (filter (\<lambda>(_, a). was_delivered deliver a) wings)"
    let ?st = "load_state db (rn_bridge s)"
    let ?out = "list_ex (was_delivered deliver) (streak_alerts cfg disabled s ?st)"
    have e: "record_run cfg disabled fault clk deliver s db =
      (if disabled then (Inr [], db1)
       else if \<not> ?out \<and> wings_out = [] then (Inr (streak_alerts cfg disabled s ?st @ map snd wings), db1)
       else if fault 2 then (Inl (OperationalError ''bridge_health''), db1)
       else (Inr (streak_alerts cfg disabled s ?st @ map snd wings),
         if wings_out = [] then (if ?out then mark_streak (rn_bridge s) (fst (next_streak s ?st)) db1 else db1)
         else mark_wings_alerted (rn_bridge s) wings_out now (if ?out then mark_streak (rn_bridge s) (fst (next_streak s ?st)) db1 else db1)))"
      using False unfolding record_run_def now_def db1_def wings_def wings_out_def by (simp add: Let_def)
    show ?thesis
    proof (cases "\<not> disabled \<and> (?out \<or> wings_out \<noteq> []) \<and> fault 2")
      case True
      then show ?thesis using assms e False now_def db1_def by (intro unmarked) auto
    next
      case c: False
      have "r = Inr (streak_alerts cfg disabled s ?st @ map snd wings) \<and> db' = mark_wings_alerted (rn_bridge s) wings_out now
         (if ?out then mark_streak (rn_bridge s) (fst (next_streak s ?st)) db1 else db1)"
      proof (cases disabled)
        case True
        then show ?thesis using assms e none off(1) [OF True] off(2) [OF True] by (simp add: wings_def wings_out_def)
      next
        case False
        then show ?thesis using assms e c none by (auto split: if_split_asm)
      qed
      then show ?thesis using False now_def db1_def wings_def wings_out_def by (intro finished) auto
    qed
  qed
qed

lemma record_run_state:
  assumes "record_run cfg disabled fault clk deliver s db = (r, db')" and "\<not> (fault 0 \<or> fault 1)"
  shows "hs_streak (load_state db' b) = (if b = rn_bridge s then fst (next_streak s (load_state db b)) else hs_streak (load_state db b))"
    and "hs_last_alerted (load_state db' b) =
      (if b = rn_bridge s then
         (if streak_told cfg deliver b (fst (next_streak s (load_state db b))) r then fst (next_streak s (load_state db b))
          else snd (next_streak s (load_state db b)))
       else hs_last_alerted (load_state db b))"
proof -
  have "hs_streak (load_state db' b) = (if b = rn_bridge s then fst (next_streak s (load_state db b)) else hs_streak (load_state db b)) \<and>
    hs_last_alerted (load_state db' b) =
      (if b = rn_bridge s then
         (if streak_told cfg deliver b (fst (next_streak s (load_state db b))) r then fst (next_streak s (load_state db b))
          else snd (next_streak s (load_state db b)))
       else hs_last_alerted (load_state db b))"
    using assms(1)
  proof (cases rule: record_run_cases)
    case (lost e)
    with assms(2) show ?thesis by blast
  next
    case (unmarked e now)
    then show ?thesis by (simp add: streak_told_def)
  next
    case (finished now db1 wings wings_out)
    let ?n = "fst (next_streak s (load_state db (rn_bridge s)))"
    have "streak_alert (rn_bridge s) ?n (hc_streak_threshold cfg) \<notin> set (map snd wings)"
      using wing_alerts_kind [of _ cfg disabled s now db1] finished(4) by fastforce
    then have "streak_told cfg deliver (rn_bridge s) ?n r \<longleftrightarrow>
        list_ex (was_delivered deliver) (streak_alerts cfg disabled s (load_state db (rn_bridge s)))"
      unfolding finished(6) streak_told_def list_ex_iff using streak_alerts_asked by auto
    then show ?thesis using recorded_known [of s now db] finished(3,7) by (simp add: load_mark_streak)
  qed
  then show "hs_streak (load_state db' b) = (if b = rn_bridge s then fst (next_streak s (load_state db b)) else hs_streak (load_state db b))"
    and "hs_last_alerted (load_state db' b) =
      (if b = rn_bridge s then
         (if streak_told cfg deliver b (fst (next_streak s (load_state db b))) r then fst (next_streak s (load_state db b))
          else snd (next_streak s (load_state db b)))
       else hs_last_alerted (load_state db b))" by blast+
qed

subsection \<open>A history of runs\<close>

record health_event =
  he_summary :: run_summary
  he_disabled :: bool
  he_fault :: "nat \<Rightarrow> bool"
  he_clock :: time
  he_deliver :: "(alert_event \<Rightarrow> bool) option"

type_synonym health_log = "(health_event \<times> alert_event list res) list"

fun bridge_runs :: "health_config \<Rightarrow> health_event list \<Rightarrow> health_db \<Rightarrow> health_log \<times> health_db" where
  "bridge_runs cfg [] db = ([], db)"
| "bridge_runs cfg (e # es) db =
     (case record_run cfg (he_disabled e) (he_fault e) (he_clock e) (he_deliver e) (he_summary e) db of
        (r, db1) \<Rightarrow> (case bridge_runs cfg es db1 of (log, db2) \<Rightarrow> ((e, r) # log, db2)))"

lemma bridge_runs_append:
  "bridge_runs cfg (xs @ ys) db =
     (case bridge_runs cfg xs db of (log, db1) \<Rightarrow> (case bridge_runs cfg ys db1 of (log', db2) \<Rightarrow> (log @ log', db2)))"
  by (induction xs arbitrary: db) (simp_all split: prod.split)

definition run_bridge :: "health_event \<Rightarrow> string" where
  "run_bridge e = rn_bridge (he_summary e)"

definition was_recorded :: "health_event \<Rightarrow> bool" where
  "was_recorded e \<longleftrightarrow> \<not> (he_fault e 0 \<or> he_fault e 1)"

text \<open>The recorded runs of a bridge since its last clean one, the newest first, and how many of them failed to read.\<close>

definition since_clean :: "string \<Rightarrow> health_log \<Rightarrow> health_log" where
  "since_clean b log = takeWhile (\<lambda>(e, _). \<not> clean_run (he_summary e)) (rev (filter (\<lambda>(e, _). run_bridge e = b \<and> was_recorded e) log))"

definition outage :: "string \<Rightarrow> health_log \<Rightarrow> int" where
  "outage b log = int (length (filter (\<lambda>(e, _). rn_source_errors (he_summary e) > 0) (since_clean b log)))"

definition level_told :: "health_config \<Rightarrow> string \<Rightarrow> int \<Rightarrow> health_log \<Rightarrow> bool" where
  "level_told cfg b n log \<longleftrightarrow> (\<exists>(e, r) \<in> set (since_clean b log). streak_told cfg (he_deliver e) b n r)"

lemma since_clean_append:
  "since_clean b (log @ [(e, r)]) =
     (if run_bridge e = b \<and> was_recorded e then if clean_run (he_summary e) then [] else (e, r) # since_clean b log
      else since_clean b log)"
  by (simp add: since_clean_def)

lemma outage_append:
  "outage b (log @ [(e, r)]) =
     (if run_bridge e = b \<and> was_recorded e then
        if clean_run (he_summary e) then 0 else outage b log + (if rn_source_errors (he_summary e) > 0 then 1 else 0)
      else outage b log)"
  by (simp add: outage_def since_clean_append)

lemma level_told_append:
  "level_told cfg b n (log @ [(e, r)]) \<longleftrightarrow>
     (if run_bridge e = b \<and> was_recorded e then
        if clean_run (he_summary e) then False else streak_told cfg (he_deliver e) b n r \<or> level_told cfg b n log
      else level_told cfg b n log)"
  by (simp add: level_told_def since_clean_append)

lemma bridge_runs_snoc:
  assumes "bridge_runs cfg (es @ [e]) db = (log', db')"
  obtains log db1 r where "bridge_runs cfg es db = (log, db1)" "log' = log @ [(e, r)]"
    "record_run cfg (he_disabled e) (he_fault e) (he_clock e) (he_deliver e) (he_summary e) db1 = (r, db')"
  using assms by (auto simp: bridge_runs_append split: prod.split_asm)

text \<open>What is stored of a bridge is what its history says.\<close>

definition tracks_history :: "health_config \<Rightarrow> health_log \<Rightarrow> health_db \<Rightarrow> string \<Rightarrow> bool" where
  "tracks_history cfg log db b \<longleftrightarrow> hs_streak (load_state db b) = outage b log \<and> 0 \<le> hs_last_alerted (load_state db b) \<and>
     hs_last_alerted (load_state db b) \<le> outage b log \<and>
     (\<forall>n. level_told cfg b n log \<longrightarrow> n \<le> hs_last_alerted (load_state db b)) \<and>
     (hs_last_alerted (load_state db b) \<noteq> 0 \<longrightarrow> level_told cfg b (hs_last_alerted (load_state db b)) log)"

lemma streak_told_level:
  assumes "record_run cfg disabled fault clk deliver s db = (r, db')" and "streak_told cfg deliver (rn_bridge s) n r"
  shows "n = fst (next_streak s (load_state db (rn_bridge s))) \<and> n > hs_last_alerted (load_state db (rn_bridge s)) \<and>
    n \<ge> hc_streak_threshold cfg \<and> \<not> disabled"
  using assms(1)
proof (cases rule: record_run_cases)
  case (finished now db1 wings wings_out)
  obtain alerts where a: "r = Inr alerts" "streak_alert (rn_bridge s) n (hc_streak_threshold cfg) \<in> set alerts"
    using assms(2) by (auto simp: streak_told_def)
  have "streak_alert (rn_bridge s) n (hc_streak_threshold cfg) \<notin> set (map snd wings)"
    using wing_alerts_kind [of _ cfg disabled s now db1] finished(4) by fastforce
  then have "streak_alert (rn_bridge s) n (hc_streak_threshold cfg) \<in> set (streak_alerts cfg disabled s (load_state db (rn_bridge s)))"
    using a finished(6) by auto
  then show ?thesis unfolding streak_alerts_asked using streak_alert_inj by blast
qed (use assms(2) in \<open>auto simp: streak_told_def\<close>)

lemma lost_run:
  assumes "record_run cfg disabled fault clk deliver s db = (r, db')" and "fault 0 \<or> fault 1"
  shows "db' = db"
  using assms(1) by (cases rule: record_run_cases) (use assms(2) in auto)

lemma tracks_history_step:
  assumes "tracks_history cfg log db b"
    and "record_run cfg (he_disabled e) (he_fault e) (he_clock e) (he_deliver e) (he_summary e) db = (r, db')"
  shows "tracks_history cfg (log @ [(e, r)]) db' b"
proof (cases "was_recorded e \<and> run_bridge e = b")
  case False
  have "load_state db' b = load_state db b \<or> was_recorded e" using lost_run [OF assms(2)] by (auto simp: was_recorded_def)
  moreover have "hs_streak (load_state db' b) = hs_streak (load_state db b) \<and> hs_last_alerted (load_state db' b) = hs_last_alerted (load_state db b)"
    if "was_recorded e"
    using record_run_state [OF assms(2), of b] that False by (auto simp: was_recorded_def run_bridge_def)
  ultimately have "hs_streak (load_state db' b) = hs_streak (load_state db b)"
    "hs_last_alerted (load_state db' b) = hs_last_alerted (load_state db b)" by auto
  then show ?thesis using assms(1) False by (auto simp: tracks_history_def outage_append level_told_append)
next
  case True
  let ?s = "he_summary e" and ?st = "load_state db b"
  have b: "b = rn_bridge ?s" using True by (simp add: run_bridge_def)
  have rec: "\<not> (he_fault e 0 \<or> he_fault e 1)" using True by (simp add: was_recorded_def)
  note s = record_run_state [OF assms(2) rec, of b, unfolded b, simplified, folded b]
  have t: "n = fst (next_streak ?s ?st) \<and> n > hs_last_alerted ?st" if "streak_told cfg (he_deliver e) b n r" for n
    using streak_told_level [OF assms(2), folded b, OF that] by blast
  have h: "hs_streak ?st = outage b log" "0 \<le> hs_last_alerted ?st" "hs_last_alerted ?st \<le> outage b log"
    "\<And>n. level_told cfg b n log \<Longrightarrow> n \<le> hs_last_alerted ?st"
    "hs_last_alerted ?st \<noteq> 0 \<Longrightarrow> level_told cfg b (hs_last_alerted ?st) log"
    using assms(1) by (auto simp: tracks_history_def)
  show ?thesis
  proof (cases "clean_run ?s")
    case c: True
    have "\<not> streak_told cfg (he_deliver e) b 0 r" using t [of 0] h(2) by auto
    then show ?thesis using s c True by (simp add: tracks_history_def outage_append level_told_append next_streak_def)
  next
    case c: False
    have n: "fst (next_streak ?s ?st) = outage b (log @ [(e, r)])" "snd (next_streak ?s ?st) = hs_last_alerted ?st"
      using c True h(1) by (simp_all add: next_streak_def outage_append)
    have le: "outage b log \<le> outage b (log @ [(e, r)])" using c True by (simp add: outage_append)
    show ?thesis
    proof (cases "streak_told cfg (he_deliver e) b (fst (next_streak ?s ?st)) r")
      case told: True
      have l: "hs_last_alerted (load_state db' b) = outage b (log @ [(e, r)])" using s(2) told n(1) by simp
      have "n \<le> outage b (log @ [(e, r)])" if "level_told cfg b n (log @ [(e, r)])" for n
        using that c True t [of n] n(1) h(4) [of n] h(3) le by (auto simp: level_told_append)
      moreover have "level_told cfg b (outage b (log @ [(e, r)])) (log @ [(e, r)])" using told c True n(1) by (simp add: level_told_append)
      ultimately show ?thesis using s(1) n(1) l h(2,3) le by (simp add: tracks_history_def)
    next
      case untold: False
      have no: "\<not> streak_told cfg (he_deliver e) b n r" for n using t [of n] untold by blast
      have "hs_last_alerted (load_state db' b) = hs_last_alerted ?st" using s(2) untold n(2) by simp
      moreover have "level_told cfg b n (log @ [(e, r)]) = level_told cfg b n log" for n using c True no by (simp add: level_told_append)
      ultimately show ?thesis using s(1) n(1) h le by (auto simp: tracks_history_def)
    qed
  qed
qed

lemma runs_track_history:
  "bridge_runs cfg es empty_health = (log, db) \<Longrightarrow> tracks_history cfg log db b"
proof (induction es arbitrary: log db rule: rev_induct)
  case Nil
  then show ?case by (simp add: tracks_history_def outage_def level_told_def since_clean_def)
next
  case (snoc e es)
  from snoc.prems obtain l d r where l: "bridge_runs cfg es empty_health = (l, d)" "log = l @ [(e, r)]"
    "record_run cfg (he_disabled e) (he_fault e) (he_clock e) (he_deliver e) (he_summary e) d = (r, db)"
    by (rule bridge_runs_snoc)
  from tracks_history_step [OF snoc.IH [OF l(1)] l(3)] l(2) show ?case by simp
qed

lemma streak_alert_exact:
  assumes "bridge_runs cfg (es @ [e]) empty_health = (log @ [(e, Inr alerts)], db')" and "\<not> he_disabled e"
    and b: "b = run_bridge e" and n: "n = outage b (log @ [(e, Inr alerts)])"
  shows "{a \<in> set alerts. al_kind a = ''source_outage_streak''} =
    (if hc_streak_threshold cfg \<le> n \<and> 0 < n \<and> \<not> level_told cfg b n log then {streak_alert b n (hc_streak_threshold cfg)} else {})"
proof -
  obtain l db r where l: "bridge_runs cfg es empty_health = (l, db)" "log @ [(e, Inr alerts)] = l @ [(e, r)]"
    "record_run cfg (he_disabled e) (he_fault e) (he_clock e) (he_deliver e) (he_summary e) db = (r, db')"
    using assms(1) by (rule bridge_runs_snoc)
  then have r: "r = Inr alerts" "l = log" by auto
  have h: "tracks_history cfg log db b" using runs_track_history [OF l(1)] r(2) by simp
  let ?s = "he_summary e" and ?st = "load_state db b"
  have b': "b = rn_bridge ?s" using b by (simp add: run_bridge_def)
  from l(3) show ?thesis
  proof (cases rule: record_run_cases)
    case (finished now db1 wings wings_out)
    have rec: "was_recorded e" using finished(1) by (simp add: was_recorded_def)
    have k: "al_kind a \<noteq> ''source_outage_streak''" if "a \<in> set (map snd wings)" for a
      using wing_alerts_kind [of _ cfg "he_disabled e" ?s now db1] finished(4) that by auto
    have kinds: "{a \<in> set alerts. al_kind a = ''source_outage_streak''} = set (streak_alerts cfg (he_disabled e) ?s ?st)"
      using k finished(6) r(1) b' streak_alerts_asked [of _ cfg "he_disabled e" ?s ?st] by auto
    have m: "fst (next_streak ?s ?st) = n"
      using h n b rec by (auto simp: tracks_history_def outage_append next_streak_def)
    have "n > hs_last_alerted ?st \<longleftrightarrow> 0 < n \<and> \<not> level_told cfg b n log"
    proof (cases "clean_run ?s")
      case True
      then have "n = 0" using n b rec by (simp add: outage_append)
      then show ?thesis using h by (simp add: tracks_history_def)
    next
      case False
      then have "outage b log \<le> n" using n b rec by (simp add: outage_append)
      then show ?thesis using h unfolding tracks_history_def by (metis linorder_not_less order_antisym_conv order_trans)
    qed
    then show ?thesis unfolding kinds streak_alerts_def Let_def m using assms(2) b' by simp
  qed (use r in auto)
qed

subsection \<open>What the history says of a wing\<close>

definition wing_writes :: "string \<Rightarrow> string \<Rightarrow> health_log \<Rightarrow> time list" where
  "wing_writes b w log =
     concat (map (\<lambda>(e, _). if run_bridge e = b \<and> was_recorded e then map snd (filter (\<lambda>(w', _). w' = w) (rn_wings_written_at (he_summary e))) else []) log)"

text \<open>An alert of this kind for the wing was asked for in a run and delivered.\<close>

definition names_wing :: "string \<Rightarrow> string \<Rightarrow> alert_event \<Rightarrow> bool" where
  "names_wing b w a \<longleftrightarrow> al_kind a = ''corpus_stale_wing'' \<and> al_bridge a = b \<and> dget (al_payload a) ''wing'' = Some (JStr w)"

definition wing_told :: "string \<Rightarrow> string \<Rightarrow> health_event \<times> alert_event list res \<Rightarrow> bool" where
  "wing_told b w x \<longleftrightarrow> (\<exists>alerts. snd x = Inr alerts \<and> (\<exists>a \<in> set alerts. names_wing b w a \<and> was_delivered (he_deliver (fst x)) a))"

text \<open>It was delivered when \<open>ts\<close> had been written already.\<close>

definition write_told :: "string \<Rightarrow> string \<Rightarrow> time \<Rightarrow> health_log \<Rightarrow> bool" where
  "write_told b w ts log \<longleftrightarrow> (\<exists>l1 x l2. log = l1 @ x # l2 \<and> wing_told b w x \<and> ts \<in> set (wing_writes b w (l1 @ [x])))"

lemma wing_writes_append: "wing_writes b w (xs @ ys) = wing_writes b w xs @ wing_writes b w ys"
  by (simp add: wing_writes_def)

lemma write_told_snoc: "write_told b w ts (log @ [x]) \<longleftrightarrow> write_told b w ts log \<or> wing_told b w x \<and> ts \<in> set (wing_writes b w (log @ [x]))"
proof
  assume "write_told b w ts (log @ [x])"
  then obtain l1 y l2 where y: "log @ [x] = l1 @ y # l2" "wing_told b w y" "ts \<in> set (wing_writes b w (l1 @ [y]))"
    by (auto simp: write_told_def)
  show "write_told b w ts log \<or> wing_told b w x \<and> ts \<in> set (wing_writes b w (log @ [x]))"
  proof (cases l2 rule: rev_cases)
    case Nil
    then show ?thesis using y by simp
  next
    case (snoc ys z)
    then have "log = l1 @ y # ys" using y(1) by simp
    then show ?thesis using y(2,3) unfolding write_told_def by blast
  qed
next
  assume "write_told b w ts log \<or> wing_told b w x \<and> ts \<in> set (wing_writes b w (log @ [x]))"
  then show "write_told b w ts (log @ [x])"
  proof
    assume "write_told b w ts log"
    then show ?thesis unfolding write_told_def by (metis append_Cons append_assoc)
  next
    assume "wing_told b w x \<and> ts \<in> set (wing_writes b w (log @ [x]))"
    then show ?thesis unfolding write_told_def by blast
  qed
qed

lemma write_told_written: "write_told b w ts log \<Longrightarrow> ts \<in> set (wing_writes b w log)"
  by (auto simp: write_told_def wing_writes_append) (metis append_Cons append_Nil wing_writes_append set_append Un_iff)

text \<open>The writes of one run, in turn.\<close>

fun upsert_all :: "time list \<Rightarrow> wing_state option \<Rightarrow> wing_state option" where
  "upsert_all [] o' = o'"
| "upsert_all (ts # tss) o' = upsert_all tss (Some (upsert_wing ts o'))"

lemma persist_wings_at:
  "dget (hd_wings (persist_wing_freshness b ws db)) (b', w) =
     (if b' = b then upsert_all (map snd (filter (\<lambda>(w', _). w' = w) ws)) (dget (hd_wings db) (b, w)) else dget (hd_wings db) (b', w))"
  by (induction b ws db rule: persist_wing_freshness.induct) (auto simp: dget_dset)

lemma upsert_all_some:
  "upsert_all tss (Some s) = Some \<lparr>ws_written = Max (set (ws_written s # tss)),
     ws_alerted = (if \<exists>ts \<in> set tss. ts > ws_written s then 0 else ws_alerted s)\<rparr>"
proof (induction tss arbitrary: s)
  case Nil
  then show ?case by (cases s) simp
next
  case (Cons ts tss)
  have "Max (set (ws_written (upsert_wing ts (Some s)) # tss)) = Max (set (ws_written s # ts # tss))"
  proof (cases "tss = []")
    case False
    then show ?thesis by (simp add: upsert_wing_def max.assoc)
  qed (simp add: upsert_wing_def)
  moreover have "(if \<exists>t \<in> set tss. t > ws_written (upsert_wing ts (Some s)) then 0 else ws_alerted (upsert_wing ts (Some s))) =
      (if \<exists>t \<in> set (ts # tss). t > ws_written s then 0 else ws_alerted s)"
    by (auto simp: upsert_wing_def max_def)
  ultimately show ?case using Cons.IH by simp
qed

text \<open>What is stored of a wing is what its history says.\<close>

definition tracks_wing :: "health_log \<Rightarrow> health_db \<Rightarrow> string \<Rightarrow> string \<Rightarrow> bool" where
  "tracks_wing log db b w \<longleftrightarrow>
     (case dget (hd_wings db) (b, w) of None \<Rightarrow> wing_writes b w log = []
      | Some s \<Rightarrow> wing_writes b w log \<noteq> [] \<and> ws_written s = Max (set (wing_writes b w log)) \<and>
          (ws_alerted s \<ge> ws_written s \<longleftrightarrow> write_told b w (ws_written s) log))"

lemma upsert_tracks:
  assumes "tracks_wing log db b w" and pos: "\<forall>ts \<in> set tss. 0 < ts"
  shows "case upsert_all tss (dget (hd_wings db) (b, w)) of None \<Rightarrow> wing_writes b w log @ tss = []
      | Some s \<Rightarrow> wing_writes b w log @ tss \<noteq> [] \<and> ws_written s = Max (set (wing_writes b w log @ tss)) \<and>
          (ws_alerted s \<ge> ws_written s \<longleftrightarrow> write_told b w (ws_written s) log)"
proof (cases "dget (hd_wings db) (b, w)")
  case None
  then have w0: "wing_writes b w log = []" using assms(1) by (simp add: tracks_wing_def)
  have no: "\<not> write_told b w ts log" for ts using write_told_written [of b w ts log] w0 by auto
  show ?thesis
  proof (cases tss)
    case (Cons t ts)
    have u: "upsert_all tss None = Some \<lparr>ws_written = Max (set tss), ws_alerted = 0\<rparr>"
      using Cons by (simp add: upsert_wing_def upsert_all_some)
    have "\<not> Max (set tss) \<le> 0" using pos Cons by (simp add: not_le Max_gr_iff)
    then show ?thesis using u None w0 no Cons by (simp del: Max_insert upsert_all.simps)
  qed (use None w0 in simp)
next
  case (Some s)
  have "wing_writes b w log \<noteq> [] \<and> ws_written s = Max (set (wing_writes b w log)) \<and>
      (ws_alerted s \<ge> ws_written s \<longleftrightarrow> write_told b w (ws_written s) log)"
    using assms(1) unfolding tracks_wing_def Some option.case .
  then have h: "wing_writes b w log \<noteq> []" "ws_written s = Max (set (wing_writes b w log))"
    "ws_alerted s \<ge> ws_written s \<longleftrightarrow> write_told b w (ws_written s) log" by blast+
  let ?m = "Max (set (ws_written s # tss))"
  have m: "?m = Max (set (wing_writes b w log @ tss))"
  proof (cases "tss = []")
    case False
    then show ?thesis using h(1,2) by (simp add: Max_Un)
  qed (use h(2) in simp)
  show ?thesis
  proof (cases "\<exists>ts \<in> set tss. ts > ws_written s")
    case True
    then obtain t where t: "t \<in> set tss" "t > ws_written s" by blast
    have "t \<le> ?m" using t(1) by (intro Max_ge) simp_all
    with t(2) have gt: "?m > ws_written s" by simp
    have "?m \<in> set (ws_written s # tss)" by (rule Max_in) simp_all
    then have "?m = ws_written s \<or> ?m \<in> set tss" by (simp only: list.set insert_iff)
    then have "?m \<in> set tss" using gt by (metis less_irrefl)
    then have "0 < ?m" using pos by blast
    moreover have "\<not> write_told b w ?m log"
    proof
      assume "write_told b w ?m log"
      then have "?m \<le> ws_written s" unfolding h(2) by (intro Max_ge) (auto dest: write_told_written)
      with gt show False by linarith
    qed
    ultimately show ?thesis using Some True h(1) m by (simp add: upsert_all_some del: Max_insert Max_le_iff)
  next
    case False
    then have e: "?m = ws_written s" by (intro Max_eqI) auto
    have u: "upsert_all tss (Some s) = Some \<lparr>ws_written = ws_written s, ws_alerted = ws_alerted s\<rparr>"
      by (simp only: upsert_all_some e False if_False)
    have "wing_writes b w log @ tss \<noteq> []" using h(1) by simp
    then show ?thesis unfolding Some u option.case wing_state.simps using h(3) m [unfolded e] by blast
  qed
qed

lemma keys_persist: "distinct (map fst (hd_wings db)) \<Longrightarrow> distinct (map fst (hd_wings (persist_wing_freshness b ws db)))"
  by (induction b ws db rule: persist_wing_freshness.induct) (simp_all add: distinct_keys_dset)

lemma persist_wings_only:
  "hd_wings db = hd_wings db' \<Longrightarrow> hd_wings (persist_wing_freshness b ws db) = hd_wings (persist_wing_freshness b ws db')"
  by (induction ws arbitrary: db db') auto

lemma hd_wings_recorded: "hd_wings (recorded_run s now db) = hd_wings (persist_wing_freshness (rn_bridge s) (rn_wings_written_at s) db)"
  by (simp add: recorded_run_def split: prod.split) (intro allI impI persist_wings_only, simp add: persist_state_def)

lemma keys_marked: "map fst (hd_wings (mark_wings_alerted b ws now db)) = map fst (hd_wings db)"
  by (simp add: mark_wings_alerted_def case_prod_unfold)

lemma hd_wings_mark_streak [simp]: "hd_wings (mark_streak b n db) = hd_wings db"
  by (simp add: mark_streak_def)

lemma marked_at:
  "dget (hd_wings (mark_wings_alerted b ws now db)) (b', w) =
     map_option (\<lambda>s. if b' = b \<and> w \<in> set ws then s\<lparr>ws_alerted := now\<rparr> else s) (dget (hd_wings db) (b', w))"
proof -
  have e: "map (\<lambda>((b', w), s). ((b', w), if b' = b \<and> w \<in> set ws then s\<lparr>ws_alerted := now\<rparr> else s)) (hd_wings db) =
    map (\<lambda>(k, s). (k, (\<lambda>k s. if fst k = b \<and> snd k \<in> set ws then s\<lparr>ws_alerted := now\<rparr> else s) k s)) (hd_wings db)"
    by (simp add: case_prod_unfold)
  show ?thesis unfolding mark_wings_alerted_def
    by (simp add: e dget_map_values [of "\<lambda>k s. if fst k = b \<and> snd k \<in> set ws then s\<lparr>ws_alerted := now\<rparr> else s"])
qed

lemma wing_alert_names [simp]: "names_wing b w (wing_alert age b' w' span thr) \<longleftrightarrow> b = b' \<and> w = w'"
  by (auto simp: names_wing_def wing_alert_def)

lemma streak_names [simp]: "\<not> names_wing b w (streak_alert b' n thr)"
  by (simp add: names_wing_def)

text \<open>A wing is asked about when it is stale and no alert was given since it was written.\<close>

lemma wing_alerts_asked:
  assumes "distinct (map fst (hd_wings db))"
  shows "(w, a) \<in> set (wing_alerts cfg disabled s now db) \<longleftrightarrow> \<not> disabled \<and>
    (\<exists>st. dget (hd_wings db) (rn_bridge s, w) = Some st \<and> days (hc_staleness_days cfg) \<le> now - ws_written st \<and>
       ws_alerted st < ws_written st \<and> a = wing_alert (hc_age cfg) (rn_bridge s) w (now - ws_written st) (hc_staleness_days cfg))"
proof -
  have "((rn_bridge s, w), st) \<in> set (hd_wings db) \<longleftrightarrow> dget (hd_wings db) (rn_bridge s, w) = Some st" for st
    using assms by (auto intro: map_of_is_SomeI map_of_SomeD)
  then show ?thesis
    by (auto simp: wing_alerts_def query_stale_wings_def image_iff not_less not_le)
qed

lemma wing_told_names:
  assumes "r = Inr (streaks @ map snd wings)" and "\<forall>a \<in> set streaks. \<not> names_wing b w a"
    and "\<forall>(w', a) \<in> set wings. names_wing b w a \<longleftrightarrow> w' = w"
  shows "wing_told b w (e, r) \<longleftrightarrow> w \<in> set (map fst (filter (\<lambda>(_, a). was_delivered (he_deliver e) a) wings))"
  using assms by (force simp: wing_told_def)

lemma writes_snoc:
  "wing_writes b w (log @ [(e, r)]) = wing_writes b w log @
     (if run_bridge e = b \<and> was_recorded e then map snd (filter (\<lambda>(w', _). w' = w) (rn_wings_written_at (he_summary e))) else [])"
  by (simp add: wing_writes_def)

definition positive_writes :: "health_event list \<Rightarrow> bool" where
  "positive_writes es \<longleftrightarrow> (\<forall>e \<in> set es. \<forall>(w, ts) \<in> set (rn_wings_written_at (he_summary e)). 0 < ts)"

text \<open>After recording, and before the watermarks move.\<close>

lemma recorded_tracks:
  assumes "tracks_wing log db b w" and "positive_writes [e]" and "was_recorded e"
    and "db1 = recorded_run (he_summary e) now db"
  shows "case dget (hd_wings db1) (b, w) of None \<Rightarrow> wing_writes b w (log @ [(e, r)]) = []
      | Some s \<Rightarrow> wing_writes b w (log @ [(e, r)]) \<noteq> [] \<and> ws_written s = Max (set (wing_writes b w (log @ [(e, r)]))) \<and>
          (ws_alerted s \<ge> ws_written s \<longleftrightarrow> write_told b w (ws_written s) log)"
proof -
  let ?tss = "if run_bridge e = b then map snd (filter (\<lambda>(w', _). w' = w) (rn_wings_written_at (he_summary e))) else []"
  have d: "dget (hd_wings db1) (b, w) = upsert_all ?tss (dget (hd_wings db) (b, w))"
    by (simp add: assms(4) hd_wings_recorded persist_wings_at run_bridge_def)
  have "\<forall>ts \<in> set ?tss. 0 < ts" using assms(2) by (auto simp: positive_writes_def)
  from upsert_tracks [OF assms(1) this] show ?thesis using assms(3) by (simp only: d writes_snoc if_cancel simp_thms)
qed

lemma tracks_wing_step:
  assumes "tracks_wing log db b w" and keys: "distinct (map fst (hd_wings db))" and pos: "positive_writes [e]" "0 \<le> hc_staleness_days cfg"
    and run: "record_run cfg (he_disabled e) (he_fault e) (he_clock e) (he_deliver e) (he_summary e) db = (r, db')"
  shows "tracks_wing (log @ [(e, r)]) db' b w \<and> distinct (map fst (hd_wings db'))"
  using run
proof (cases rule: record_run_cases)
  case (lost x)
  then have "\<not> was_recorded e" "\<not> wing_told b w (e, r)" by (simp_all add: was_recorded_def wing_told_def)
  then have "wing_writes b w (log @ [(e, r)]) = wing_writes b w log" "write_told b w ts (log @ [(e, r)]) = write_told b w ts log" for ts
    by (simp_all add: writes_snoc write_told_snoc)
  then show ?thesis using assms(1) keys lost(3) by (simp only: tracks_wing_def)
next
  case (unmarked x now)
  then have rec: "was_recorded e" and no: "\<not> wing_told b w (e, r)" by (simp_all add: was_recorded_def wing_told_def)
  have "write_told b w ts (log @ [(e, r)]) = write_told b w ts log" for ts using no by (simp add: write_told_snoc)
  then have "tracks_wing (log @ [(e, r)]) db' b w"
    using recorded_tracks [OF assms(1) pos(1) rec unmarked(3), of r] by (simp only: tracks_wing_def)
  then show ?thesis using keys_persist [OF keys] unmarked(3) by (simp add: hd_wings_recorded)
next
  case (finished now db1 wings wings_out)
  let ?s = "he_summary e" and ?log = "log @ [(e, r)]"
  have rec: "was_recorded e" using finished(1) by (simp add: was_recorded_def)
  have k1: "distinct (map fst (hd_wings db1))" using keys_persist [OF keys] finished(3) by (simp add: hd_wings_recorded)
  have kinds: "\<forall>(w', a) \<in> set wings. names_wing b w a \<longleftrightarrow> b = rn_bridge ?s \<and> w' = w"
    unfolding finished(4) using wing_alerts_asked [OF k1] by auto
  have told: "wing_told b w (e, r) \<longleftrightarrow> b = rn_bridge ?s \<and> w \<in> set wings_out"
  proof (cases "b = rn_bridge ?s")
    case True
    then have "\<forall>(w', a) \<in> set wings. names_wing b w a \<longleftrightarrow> w' = w" using kinds by auto
    from wing_told_names [OF finished(6) _ this, of e] show ?thesis
      using True finished(5) streak_alerts_asked [of _ cfg "he_disabled e" ?s] by auto
  next
    case False
    then show ?thesis using kinds finished(6) streak_alerts_asked [of _ cfg "he_disabled e" ?s] by (force simp: wing_told_def)
  qed
  let ?mid = "if list_ex (was_delivered (he_deliver e)) (streak_alerts cfg (he_disabled e) ?s (load_state db (rn_bridge ?s)))
      then mark_streak (rn_bridge ?s) (fst (next_streak ?s (load_state db (rn_bridge ?s)))) db1 else db1"
  have m: "hd_wings ?mid = hd_wings db1" by simp
  have at: "dget (hd_wings db') (b, w) =
      map_option (\<lambda>s. if wing_told b w (e, r) then s\<lparr>ws_alerted := now\<rparr> else s) (dget (hd_wings db1) (b, w))"
    unfolding finished(7) marked_at m told by simp
  have "distinct (map fst (hd_wings db'))" unfolding finished(7) keys_marked m using k1 by simp
  moreover have "tracks_wing ?log db' b w"
  proof (cases "dget (hd_wings db1) (b, w)")
    case None
    then show ?thesis using recorded_tracks [OF assms(1) pos(1) rec finished(3), of r] at by (simp add: tracks_wing_def)
  next
    case (Some st)
    note h3 = recorded_tracks [OF assms(1) pos(1) rec finished(3), of r, unfolded Some option.case]
    note h = h3 [THEN conjunct1] h3 [THEN conjunct2, THEN conjunct1] h3 [THEN conjunct2, THEN conjunct2]
    have mem: "ws_written st \<in> set (wing_writes b w ?log)" unfolding h(2) using h(1) by (intro Max_in) simp_all
    show ?thesis
    proof (cases "wing_told b w (e, r)")
      case True
      then obtain a where "(w, a) \<in> set wings" "b = rn_bridge ?s" using told finished(5) by auto
      then have "days (hc_staleness_days cfg) \<le> now - ws_written st"
        unfolding finished(4) wing_alerts_asked [OF k1] using Some by auto
      moreover have "0 \<le> days (hc_staleness_days cfg)" using pos(2) by (simp add: days_def)
      ultimately have "ws_written st \<le> now" by simp
      moreover have "write_told b w (ws_written st) ?log" using True mem by (simp add: write_told_snoc)
      ultimately show ?thesis using at Some True h(1,2) by (simp add: tracks_wing_def)
    next
      case False
      then have "write_told b w (ws_written st) ?log = write_told b w (ws_written st) log" by (simp add: write_told_snoc)
      then show ?thesis using at Some False h by (simp add: tracks_wing_def)
    qed
  qed
  ultimately show ?thesis by blast
qed

lemma runs_track_wing:
  assumes "bridge_runs cfg es empty_health = (log, db)" and "positive_writes es" and "0 \<le> hc_staleness_days cfg"
  shows "tracks_wing log db b w \<and> distinct (map fst (hd_wings db))"
  using assms(1,2)
proof (induction es arbitrary: log db rule: rev_induct)
  case Nil
  then have "log = []" "db = empty_health" by simp_all
  then show ?case by (simp add: tracks_wing_def empty_health_def wing_writes_def)
next
  case (snoc e es)
  from snoc.prems(1) obtain l d r where l: "bridge_runs cfg es empty_health = (l, d)" "log = l @ [(e, r)]"
    "record_run cfg (he_disabled e) (he_fault e) (he_clock e) (he_deliver e) (he_summary e) d = (r, db)"
    by (rule bridge_runs_snoc)
  have p: "positive_writes es" "positive_writes [e]" using snoc.prems(2) by (auto simp: positive_writes_def)
  have i: "tracks_wing l d b w" "distinct (map fst (hd_wings d))" using snoc.IH [OF l(1) p(1)] by blast+
  from tracks_wing_step [OF i p(2) assms(3) l(3)] l(2) show ?case by simp
qed

definition run_time :: "health_event \<Rightarrow> time" where
  "run_time e = (case rn_now (he_summary e) of None \<Rightarrow> he_clock e | Some t \<Rightarrow> t)"

lemma wing_alert_exact:
  assumes "bridge_runs cfg (es @ [e]) empty_health = (log @ [(e, Inr alerts)], db')" and "\<not> he_disabled e"
    and "positive_writes (es @ [e])" and "0 \<le> hc_staleness_days cfg"
    and b: "b = run_bridge e" and ws: "ws = wing_writes b w (log @ [(e, Inr alerts)])"
  shows "{a \<in> set alerts. names_wing b w a} =
    (if ws \<noteq> [] \<and> days (hc_staleness_days cfg) \<le> run_time e - Max (set ws) \<and> \<not> write_told b w (Max (set ws)) log
     then {wing_alert (hc_age cfg) b w (run_time e - Max (set ws)) (hc_staleness_days cfg)} else {})"
proof -
  obtain l db r where l: "bridge_runs cfg es empty_health = (l, db)" "log @ [(e, Inr alerts)] = l @ [(e, r)]"
    "record_run cfg (he_disabled e) (he_fault e) (he_clock e) (he_deliver e) (he_summary e) db = (r, db')"
    using assms(1) by (rule bridge_runs_snoc)
  then have r: "r = Inr alerts" "l = log" by auto
  have p: "positive_writes es" "positive_writes [e]" using assms(3) by (auto simp: positive_writes_def)
  have h: "tracks_wing log db b w" "distinct (map fst (hd_wings db))" using runs_track_wing [OF l(1) p(1) assms(4)] r(2) by blast+
  let ?s = "he_summary e"
  have b': "b = rn_bridge ?s" using b by (simp add: run_bridge_def)
  from l(3) show ?thesis
  proof (cases rule: record_run_cases)
    case (finished now db1 wings wings_out)
    have rec: "was_recorded e" using finished(1) by (simp add: was_recorded_def)
    have now: "now = run_time e" using finished(2) by (simp add: run_time_def)
    have k1: "distinct (map fst (hd_wings db1))" using keys_persist [OF h(2)] finished(3) by (simp add: hd_wings_recorded)
    have streaks: "\<not> names_wing b w a" if "a \<in> set (streak_alerts cfg (he_disabled e) ?s (load_state db (rn_bridge ?s)))" for a
      using that streak_alerts_asked [of _ cfg "he_disabled e" ?s] by auto
    have wing: "names_wing b w a \<longleftrightarrow> w' = w" if "(w', a) \<in> set wings" for w' a
      using that b' unfolding finished(4) wing_alerts_asked [OF k1] by auto
    have all: "set alerts = set (streak_alerts cfg (he_disabled e) ?s (load_state db (rn_bridge ?s))) \<union> snd ` set wings"
      using finished(6) r(1) by simp
    have "a \<in> set alerts \<and> names_wing b w a \<longleftrightarrow> (w, a) \<in> set wings" for a
    proof
      assume a: "a \<in> set alerts \<and> names_wing b w a"
      then obtain w' where "(w', a) \<in> set wings" using all streaks by auto
      then show "(w, a) \<in> set wings" using wing a by blast
    next
      assume a: "(w, a) \<in> set wings"
      then have "a \<in> snd ` set wings" by force
      then show "a \<in> set alerts \<and> names_wing b w a" using all wing [OF a] by simp
    qed
    then have "{a \<in> set alerts. names_wing b w a} = {a. (w, a) \<in> set wings}" by blast
    also have "\<dots> = {a. \<exists>st. dget (hd_wings db1) (b, w) = Some st \<and> days (hc_staleness_days cfg) \<le> now - ws_written st \<and>
        ws_alerted st < ws_written st \<and> a = wing_alert (hc_age cfg) b w (now - ws_written st) (hc_staleness_days cfg)}"
      unfolding finished(4) wing_alerts_asked [OF k1] using assms(2) b' by blast
    finally have alerts: "{a \<in> set alerts. names_wing b w a} = \<dots>" .
    show ?thesis
    proof (cases "dget (hd_wings db1) (b, w)")
      case None
      then have "ws = []" using recorded_tracks [OF h(1) p(2) rec finished(3), of "Inr alerts"] ws by simp
      then show ?thesis unfolding alerts using None by simp
    next
      case (Some st)
      note h3 = recorded_tracks [OF h(1) p(2) rec finished(3), of "Inr alerts", unfolded Some option.case, folded ws]
      have "ws_alerted st < ws_written st \<longleftrightarrow> \<not> write_told b w (Max (set ws)) log" using h3 by (metis linorder_not_less)
      then show ?thesis unfolding alerts now using Some h3 [THEN conjunct1] h3 [THEN conjunct2, THEN conjunct1] by auto
    qed
  qed (use r in auto)
qed

text \<open>
  C36: alerts are neither lost nor repeated.  In any history of runs from an empty database, whatever hooks and
  databases failed: a run that is recorded with alerts enabled asks for the streak alert of its bridge exactly when the runs since
  the last clean one in which reading failed are as many as the threshold and no alert for that number was delivered
  since; and for a wing of the bridge exactly when its newest write is as old as the threshold and no alert was delivered
  after that write.  So a failed delivery is tried again in the next run.  With alerts disabled it asks for none.
\<close>

theorem alerts_exact:
  assumes "bridge_runs cfg (es @ [e]) empty_health = (log @ [(e, Inr alerts)], db')"
    and "positive_writes (es @ [e])" and "0 \<le> hc_staleness_days cfg"
  shows "if he_disabled e then alerts = []
    else let b = run_bridge e; n = outage b (log @ [(e, Inr alerts)]) in
      {a \<in> set alerts. al_kind a = ''source_outage_streak''} =
        (if hc_streak_threshold cfg \<le> n \<and> 0 < n \<and> \<not> level_told cfg b n log then {streak_alert b n (hc_streak_threshold cfg)} else {}) \<and>
      (\<forall>w. let ws = wing_writes b w (log @ [(e, Inr alerts)]) in
        {a \<in> set alerts. names_wing b w a} =
          (if ws \<noteq> [] \<and> days (hc_staleness_days cfg) \<le> run_time e - Max (set ws) \<and> \<not> write_told b w (Max (set ws)) log
           then {wing_alert (hc_age cfg) b w (run_time e - Max (set ws)) (hc_staleness_days cfg)} else {})) \<and>
      (\<forall>a \<in> set alerts. al_kind a = ''source_outage_streak'' \<or> (\<exists>w. names_wing b w a))"
proof (cases "he_disabled e")
  case True
  obtain l db r where l: "log @ [(e, Inr alerts)] = l @ [(e, r)]"
    "record_run cfg (he_disabled e) (he_fault e) (he_clock e) (he_deliver e) (he_summary e) db = (r, db')"
    using assms(1) by (rule bridge_runs_snoc)
  from l(2) have "r = Inr alerts \<longrightarrow> alerts = []"
    by (cases rule: record_run_cases) (auto simp: True streak_alerts_def wing_alerts_def Let_def)
  with l(1) True show ?thesis by simp
next
  case False
  obtain l db r where l: "log @ [(e, Inr alerts)] = l @ [(e, r)]"
    "record_run cfg (he_disabled e) (he_fault e) (he_clock e) (he_deliver e) (he_summary e) db = (r, db')"
    using assms(1) by (rule bridge_runs_snoc)
  have "al_kind a = ''source_outage_streak'' \<or> (\<exists>w. names_wing (run_bridge e) w a)" if "a \<in> set alerts" for a
    using l(2)
  proof (cases rule: record_run_cases)
    case (finished now db1 wings wings_out)
    then show ?thesis using that l(1)
      by (auto simp: run_bridge_def wing_alerts_def streak_alerts_asked split: if_split_asm)
  qed (use l(1) in auto)
  moreover note streak_alert_exact [OF assms(1) False refl refl] wing_alert_exact [OF assms(1) False assms(2,3) refl refl]
  ultimately show ?thesis using False by (simp add: Let_def)
qed

subsection \<open>Three runs that cannot read\<close>

definition sample_run :: "bool \<Rightarrow> health_event" where
  "sample_run reached = \<lparr>he_summary = \<lparr>rn_bridge = ''codex'', rn_source_errors = 1, rn_new_sessions = 0, rn_wings_written_at = [],
     rn_now = Some 1\<rparr>, he_disabled = False, he_fault = (\<lambda>_. False), he_clock = 0, he_deliver = Some (\<lambda>_. reached)\<rparr>"

definition sample_thresholds :: health_config where
  "sample_thresholds = \<lparr>hc_streak_threshold = 2, hc_staleness_days = 7, hc_age = (\<lambda>_. ([], []))\<rparr>"

lemma sample_streak:
  "map snd (fst (bridge_runs sample_thresholds ([sample_run True, sample_run False] @ [sample_run True]) empty_health)) =
     [Inr [], Inr [streak_alert ''codex'' 2 2], Inr [streak_alert ''codex'' 3 2]]"
  by code_simp

theorem alerts_exact_witness:
  "\<exists>log. outage ''codex'' log = 3 \<and> \<not> level_told sample_thresholds ''codex'' 3 (butlast log) \<and>
     log = fst (bridge_runs sample_thresholds ([sample_run True, sample_run False] @ [sample_run True]) empty_health)"
proof -
  let ?es = "[sample_run True, sample_run False]"
  obtain log' db' where w: "bridge_runs sample_thresholds (?es @ [sample_run True]) empty_health = (log', db')"
    by (cases "bridge_runs sample_thresholds (?es @ [sample_run True]) empty_health")
  then obtain log r where l: "log' = log @ [(sample_run True, r)]" by (rule bridge_runs_snoc)
  have s: "map snd log' = [Inr [], Inr [streak_alert ''codex'' 2 2], Inr [streak_alert ''codex'' 3 2]]" using sample_streak w by simp
  then have r: "r = Inr [streak_alert ''codex'' 3 2]" using l by (cases log rule: rev_cases) auto
  have p: "positive_writes (?es @ [sample_run True])" "0 \<le> hc_staleness_days sample_thresholds"
    by (simp_all add: positive_writes_def sample_run_def sample_thresholds_def)
  have e: "\<not> he_disabled (sample_run True)" "run_bridge (sample_run True) = ''codex''" by (simp_all add: sample_run_def run_bridge_def)
  let ?log = "log @ [(sample_run True, Inr [streak_alert ''codex'' 3 2])]"
  let ?n = "outage ''codex'' ?log"
  note a = alerts_exact [OF w [unfolded l r] p, unfolded Let_def e(2) if_not_P [OF e(1)], THEN conjunct1]
  have "{a \<in> set [streak_alert ''codex'' 3 2]. al_kind a = ''source_outage_streak''} = {streak_alert ''codex'' 3 2}" by auto
  with a have "(if hc_streak_threshold sample_thresholds \<le> ?n \<and> 0 < ?n \<and> \<not> level_told sample_thresholds ''codex'' ?n log
      then {streak_alert ''codex'' ?n (hc_streak_threshold sample_thresholds)} else {}) = {streak_alert ''codex'' 3 2}" by (simp only:)
  then have "?n = 3 \<and> \<not> level_told sample_thresholds ''codex'' ?n log"
    by (auto simp: sample_thresholds_def dest: streak_alert_inj split: if_split_asm)
  then show ?thesis using l w r by (intro exI [of _ log']) auto
qed

end
