(* ===== verification/Config_Render.thy ===== *)
theory Config_Render
  imports Mcp_Tools
begin

text \<open>
  \<open>panella/config_render.py\<close>: the profiles and the wings file that a distribution is shipped with, rendered from the
  identity in the governance configuration.  The files are the YAML texts of the values here; what is read back from a
  text is the value it was rendered from.
\<close>

definition FINALIZER_PROFILE_NAME :: string where "FINALIZER_PROFILE_NAME = ''panella-finalizer''"
definition SERVING_PROFILE_NAME :: string where "SERVING_PROFILE_NAME = ''serving''"
definition MCP_READ_PROFILE_NAME :: string where "MCP_READ_PROFILE_NAME = ''mcp-read''"
definition MCP_WRITE_PROFILE_NAME :: string where "MCP_WRITE_PROFILE_NAME = ''mcp-write''"
definition STDIO_DEFAULT_PROFILE_NAME :: string where "STDIO_DEFAULT_PROFILE_NAME = ''panella-mcp''"

definition yaml_list :: "string list \<Rightarrow> json" where
  "yaml_list xs = JList (map JStr xs)"

definition quota_entry :: "int \<Rightarrow> int \<Rightarrow> json" where
  "quota_entry daily burst = JObj [(''daily_max_drawers'', JInt daily), (''burst_max_per_minute'', JInt burst)]"

text \<open>The entries that the four profiles have alike, before and after the ones in which they differ.\<close>

definition profile_head :: "identity_config \<Rightarrow> string \<Rightarrow> string \<Rightarrow> dict" where
  "profile_head i name description =
     [(''name'', JStr name), (''description'', JStr description), (''tenant_scope'', yaml_list [default_tenant_id i]),
      (''write_default'', JObj [(''wing'', JStr (owner_wing i)), (''room'', JStr ''preferences'')])]"

definition profile_limits :: "int \<Rightarrow> dict" where
  "profile_limits k =
     [(''deny'', JList []), (''max_query_k'', JInt k), (''retrieval_mode'', JStr ''hybrid''),
      (''wing_boost'', JObj [(''default'', JFloat ''1.0'')]), (''observability_level'', JStr ''standard''),
      (''cost_budget'', JObj [(''daily_embed_calls_max'', JInt 1000)])]"

definition retention_entry :: "string \<times> json" where
  "retention_entry = (''retention_policy'', JObj [(''default_ttl_days'', JNull), (''ephemeral_rooms'', JList [])])"

definition owner_types :: "identity_config \<Rightarrow> json" where
  "owner_types i = yaml_list [owner_slug i @ ''_preference'', owner_slug i @ ''_feedback'']"

definition owner_rooms :: "identity_config \<Rightarrow> json" where
  "owner_rooms i = yaml_list [owner_wing i @ ''/preferences'', owner_wing i @ ''/feedback'']"

definition write_entries :: "identity_config \<Rightarrow> bool \<Rightarrow> dict" where
  "write_entries i finalizer =
     [(''enforce_write_allowlist'', JBool True), (''finalizer_only'', JBool finalizer),
      (''write_wing_allowlist'', yaml_list [owner_wing i]), (''write_room_allowlist'', owner_rooms i)]"

definition render_serving_profile :: "identity_config \<Rightarrow> dict" where
  "render_serving_profile i =
     profile_head i SERVING_PROFILE_NAME
       (''Generic HTTP serving profile (package-rendered). Routine reads over the owner wing; '' @
        ''all writes route to the approval queue (candidates-only).'') @
     [(''write_quota'', quota_entry 200 60), (''memory_type_allowlist'', owner_types i), retention_entry,
      (''approval_required_for'', yaml_list [''*'']), (''read_allowlist'', yaml_list [owner_wing i @ ''/*''])] @
     profile_limits 20 @ write_entries i False"

definition render_mcp_read_profile :: "identity_config \<Rightarrow> string \<Rightarrow> dict" where
  "render_mcp_read_profile i name =
     profile_head i name ''Generic MCP read profile (package-rendered): read-only retrieval over the owner wing.'' @
     [(''write_quota'', quota_entry 1 1), (''memory_type_allowlist'', JList []), retention_entry,
      (''approval_required_for'', JList []), (''read_allowlist'', yaml_list [owner_wing i @ ''/*''])] @
     profile_limits 20 @
     [(''enforce_write_allowlist'', JBool False), (''finalizer_only'', JBool False), (''write_wing_allowlist'', JList []),
      (''write_room_allowlist'', JList [])]"

definition render_mcp_write_profile :: "identity_config \<Rightarrow> dict" where
  "render_mcp_write_profile i =
     profile_head i MCP_WRITE_PROFILE_NAME
       (''Generic MCP write profile (package-rendered): submits durable-write CANDIDATES to the '' @
        ''approval queue over the owner wing. Reads the owner wing.'') @
     [(''write_quota'', quota_entry 100 20), (''memory_type_allowlist'', owner_types i), retention_entry,
      (''approval_required_for'', yaml_list [''*'']), (''read_allowlist'', yaml_list [owner_wing i @ ''/*''])] @
     profile_limits 20 @ write_entries i False"

definition render_finalizer_profile :: "identity_config \<Rightarrow> dict" where
  "render_finalizer_profile i =
     profile_head i FINALIZER_PROFILE_NAME
       (''Post-approval durable writer (package-rendered). finalizer_only: usable ONLY by the '' @
        ''approval finalizer after the provenance gate '' @ [CHR 0xE2, CHR 0x80, CHR 0x94] @ '' never a direct write profile.'') @
     [(''write_quota'', quota_entry 200 60), (''memory_type_allowlist'', owner_types i), retention_entry,
      (''approval_required_for'', JList []), (''read_allowlist'', owner_rooms i)] @
     profile_limits 5 @ write_entries i True"

definition render_wings :: "identity_config \<Rightarrow> dict" where
  "render_wings i =
     [(''wings'', JObj [(owner_wing i, JObj [(''description'', JStr ''The box owner's personal wing (package-rendered).''),
        (''rooms'', yaml_list [''preferences'', ''feedback''])])])]"

text \<open>The files of a distribution, each under its logical name with its path.\<close>

definition profile_file :: "string \<Rightarrow> string" where
  "profile_file name = ''agents/'' @ name @ ''.yaml''"

definition distribution_profiles :: "identity_config \<Rightarrow> (string \<times> string \<times> dict) list" where
  "distribution_profiles i =
     [(''finalizer_profile'', profile_file FINALIZER_PROFILE_NAME, render_finalizer_profile i),
      (''serving_profile'', profile_file SERVING_PROFILE_NAME, render_serving_profile i),
      (''mcp_read_profile'', profile_file MCP_READ_PROFILE_NAME, render_mcp_read_profile i MCP_READ_PROFILE_NAME),
      (''mcp_write_profile'', profile_file MCP_WRITE_PROFILE_NAME, render_mcp_write_profile i),
      (''stdio_default_profile'', profile_file STDIO_DEFAULT_PROFILE_NAME, render_mcp_read_profile i STDIO_DEFAULT_PROFILE_NAME)]"

definition render_distribution_config :: "identity_config \<Rightarrow> (string \<times> string \<times> dict) list" where
  "render_distribution_config i = distribution_profiles i @ [(''wings'', ''wings.yaml'', render_wings i)]"

subsection \<open>What the profiles load as\<close>

text \<open>A wing whose name has no slash and no character that a pattern treats specially.\<close>

definition ordinary_wing :: "string \<Rightarrow> bool" where
  "ordinary_wing w \<longleftrightarrow> w \<noteq> [] \<and> CHR ''/'' \<notin> set w \<and> plain w"

definition owner_wing_rooms :: "identity_config \<Rightarrow> wing_rooms" where
  "owner_wing_rooms i = [(owner_wing i, [''preferences'', ''feedback''])]"

lemma wings_load: "load_known_wing_rooms (render_wings i) = Inr (owner_wing_rooms i)"
  by (simp add: load_known_wing_rooms_def render_wings_def owner_wing_rooms_def yaml_list_def py_str_def)

definition loaded_profile :: "identity_config \<Rightarrow> string \<Rightarrow> int \<Rightarrow> int \<Rightarrow> string list \<Rightarrow> string list \<Rightarrow> string list \<Rightarrow> int \<Rightarrow> bool \<Rightarrow> bool \<Rightarrow> agent_profile" where
  "loaded_profile i name daily burst types needs reads k writes finalizer =
     \<lparr>prof_name = name, default_wing = owner_wing i, default_room = ''preferences'', daily_max_drawers = daily, burst_max_per_minute = burst,
      memory_type_allowlist = types, default_ttl_days = None, ephemeral_rooms = [], approval_required_for = needs, read_allowlist = reads,
      deny = [], max_query_k = k, retrieval_mode = ''hybrid'', wing_boost = [(''default'', JFloat ''1.0'')], observability_level = ''standard'',
      daily_embed_calls_max = 1000, tenant_scope = [default_tenant_id i],
      write_wing_allowlist = (if writes then [owner_wing i] else []),
      write_room_allowlist = (if writes then [owner_wing i @ ''/preferences'', owner_wing i @ ''/feedback''] else []),
      enforce_write_allowlist = writes, quota_counts_dedup = True, finalizer_only = finalizer\<rparr>"

lemma hybrid_lower: "py_lower (py_strip ''hybrid'') = ''hybrid''" and standard_lower: "py_lower (py_strip ''standard'') = ''standard''"
  by code_simp+

lemma one_float: "floatable (JFloat ''1.0'')"
  by (simp add: floatable_def)

lemma profile_reads:
  "profile_from_dict i (render_serving_profile i) = Inr (loaded_profile i SERVING_PROFILE_NAME 200 60
     [owner_slug i @ ''_preference'', owner_slug i @ ''_feedback''] [''*''] [owner_wing i @ ''/*''] 20 True False)"
  "profile_from_dict i (render_mcp_read_profile i name) = Inr (loaded_profile i name 1 1 [] [] [owner_wing i @ ''/*''] 20 False False)"
  "profile_from_dict i (render_mcp_write_profile i) = Inr (loaded_profile i MCP_WRITE_PROFILE_NAME 100 20
     [owner_slug i @ ''_preference'', owner_slug i @ ''_feedback''] [''*''] [owner_wing i @ ''/*''] 20 True False)"
  "profile_from_dict i (render_finalizer_profile i) = Inr (loaded_profile i FINALIZER_PROFILE_NAME 200 60
     [owner_slug i @ ''_preference'', owner_slug i @ ''_feedback''] [] [owner_wing i @ ''/preferences'', owner_wing i @ ''/feedback''] 5 True True)"
  by (simp_all add: profile_from_dict_def loaded_profile_def render_serving_profile_def render_mcp_read_profile_def
      render_mcp_write_profile_def render_finalizer_profile_def profile_head_def profile_limits_def retention_entry_def quota_entry_def
      write_entries_def owner_types_def owner_rooms_def yaml_list_def required_def prof_mapping_def kwargs_ok_def int_field_def
      text_items_def py_items_def get_bool_def get_or_null_def py_str_def one_float hybrid_lower standard_lower)

lemma room_entry_known:
  assumes "ordinary_wing (owner_wing i)" and "r \<in> {''preferences'', ''feedback''}"
  shows "check_room_entry (owner_wing_rooms i) (owner_wing i @ ''/'' @ r) = Inr ()"
proof -
  let ?w = "owner_wing i"
  have w: "CHR ''/'' \<notin> set ?w" "?w \<noteq> []" using assms(1) by (simp_all add: ordinary_wing_def)
  have t: "takeWhile (\<lambda>x. x \<noteq> CHR ''/'') (?w @ ''/'' @ r) = ?w" using w(1) by (simp add: takeWhile_append)
  have d: "dropWhile (\<lambda>x. x \<noteq> CHR ''/'') (?w @ ''/'' @ r) = ''/'' @ r" using w(1) by (simp add: dropWhile_append)
  have f: "filter (\<lambda>c. c = CHR ''/'') ?w = []" using w(1) by (auto simp: filter_empty_conv)
  show ?thesis using assms(2) w(2)
    by (auto simp: check_room_entry_def before_first_def after_first_def t [simplified] d [simplified] f owner_wing_rooms_def Let_def check_def)
qed

lemma loaded_valid:
  assumes "ordinary_wing (owner_wing i)" and "0 < daily" and "0 < burst" and "0 < k"
  shows "profile_validate i (owner_wing_rooms i) (loaded_profile i name daily burst types needs reads k writes finalizer) = Inr ()"
  using room_entry_known [OF assms(1), of "''preferences''"] room_entry_known [OF assms(1), of "''feedback''"] assms(2-4)
  by (simp add: profile_validate_def loaded_profile_def owner_wing_rooms_def check_def)

lemma loads_as:
  assumes "ordinary_wing (owner_wing i)" and "profile_from_dict i d = Inr (loaded_profile i name daily burst types needs reads k writes finalizer)"
    and "0 < daily" "0 < burst" "0 < k" "d \<noteq> []"
  shows "load_profile i (load_known_wing_rooms (render_wings i)) (JObj d) =
    Inr (loaded_profile i name daily burst types needs reads k writes finalizer)"
  using loaded_valid [OF assms(1,3-5), of name types needs reads writes finalizer] assms(2,6)
  by (simp add: load_profile_def wings_load)

lemma rendered_loads:
  assumes "ordinary_wing (owner_wing i)" and "(logical, file, d) \<in> set (distribution_profiles i)"
  shows "\<exists>name daily burst types needs reads k writes finalizer.
    load_profile i (load_known_wing_rooms (render_wings i)) (JObj d) =
      Inr (loaded_profile i name daily burst types needs reads k writes finalizer) \<and>
    file = profile_file name \<and> (finalizer \<longleftrightarrow> logical = ''finalizer_profile'') \<and>
    set reads \<subseteq> {owner_wing i @ ''/*'', owner_wing i @ ''/preferences'', owner_wing i @ ''/feedback''} \<and>
    (finalizer \<and> writes \<and> types \<noteq> [] \<and> needs = [] \<or>
     \<not> finalizer \<and> writes \<and> types \<noteq> [] \<and> needs = [''*''] \<and> logical \<in> {''serving_profile'', ''mcp_write_profile''} \<or>
     \<not> finalizer \<and> \<not> writes \<and> types = [] \<and> needs = [] \<and> logical \<in> {''mcp_read_profile'', ''stdio_default_profile''})"
proof -
  have ne: "render_finalizer_profile i \<noteq> []" "render_serving_profile i \<noteq> []" "render_mcp_read_profile i nm \<noteq> []"
    "render_mcp_write_profile i \<noteq> []" for nm
    by (simp_all add: render_finalizer_profile_def render_serving_profile_def render_mcp_read_profile_def render_mcp_write_profile_def
        profile_head_def)
  note l = loads_as [OF assms(1) profile_reads(1) _ _ _ ne(2)] loads_as [OF assms(1) profile_reads(2) _ _ _ ne(3)]
    loads_as [OF assms(1) profile_reads(3) _ _ _ ne(4)] loads_as [OF assms(1) profile_reads(4) _ _ _ ne(1)]
  from assms(2) have "(logical = ''finalizer_profile'' \<and> file = profile_file FINALIZER_PROFILE_NAME \<and> d = render_finalizer_profile i) \<or>
      (logical = ''serving_profile'' \<and> file = profile_file SERVING_PROFILE_NAME \<and> d = render_serving_profile i) \<or>
      (logical = ''mcp_read_profile'' \<and> file = profile_file MCP_READ_PROFILE_NAME \<and> d = render_mcp_read_profile i MCP_READ_PROFILE_NAME) \<or>
      (logical = ''mcp_write_profile'' \<and> file = profile_file MCP_WRITE_PROFILE_NAME \<and> d = render_mcp_write_profile i) \<or>
      (logical = ''stdio_default_profile'' \<and> file = profile_file STDIO_DEFAULT_PROFILE_NAME \<and> d = render_mcp_read_profile i STDIO_DEFAULT_PROFILE_NAME)"
    by (simp only: distribution_profiles_def list.set insert_iff empty_iff prod.inject simp_thms)
  then show ?thesis
  proof (elim disjE conjE, goal_cases)
    case 1
    have "load_profile i (load_known_wing_rooms (render_wings i)) (JObj d) = Inr (loaded_profile i FINALIZER_PROFILE_NAME 200 60
       [owner_slug i @ ''_preference'', owner_slug i @ ''_feedback''] [] [owner_wing i @ ''/preferences'', owner_wing i @ ''/feedback''] 5 True True)"
      using l(4) 1(3) by simp
    then show ?thesis using 1(1,2) by (intro exI conjI) (assumption, auto)
  next
    case 2
    have "load_profile i (load_known_wing_rooms (render_wings i)) (JObj d) = Inr (loaded_profile i SERVING_PROFILE_NAME 200 60
       [owner_slug i @ ''_preference'', owner_slug i @ ''_feedback''] [''*''] [owner_wing i @ ''/*''] 20 True False)"
      using l(1) 2(3) by simp
    then show ?thesis using 2(1,2) by (intro exI conjI) (assumption, auto)
  next
    case 3
    have "load_profile i (load_known_wing_rooms (render_wings i)) (JObj d) =
        Inr (loaded_profile i MCP_READ_PROFILE_NAME 1 1 [] [] [owner_wing i @ ''/*''] 20 False False)"
      using l(2) 3(3) by simp
    then show ?thesis using 3(1,2) by (intro exI conjI) (assumption, auto)
  next
    case 4
    have "load_profile i (load_known_wing_rooms (render_wings i)) (JObj d) = Inr (loaded_profile i MCP_WRITE_PROFILE_NAME 100 20
       [owner_slug i @ ''_preference'', owner_slug i @ ''_feedback''] [''*''] [owner_wing i @ ''/*''] 20 True False)"
      using l(3) 4(3) by simp
    then show ?thesis using 4(1,2) by (intro exI conjI) (assumption, auto)
  next
    case 5
    have "load_profile i (load_known_wing_rooms (render_wings i)) (JObj d) =
        Inr (loaded_profile i STDIO_DEFAULT_PROFILE_NAME 1 1 [] [] [owner_wing i @ ''/*''] 20 False False)"
      using l(2) 5(3) by simp
    then show ?thesis using 5(1,2) by (intro exI conjI) (assumption, auto)
  qed
qed

lemma owner_reads:
  assumes "ordinary_wing w" and "set reads \<subseteq> {w @ ''/*'', w @ ''/preferences'', w @ ''/feedback''}" and "matches_any path reads"
  shows "startswith (w @ ''/'') path"
proof -
  have p: "plain (w @ ''/'')" "plain (w @ ''/preferences'')" "plain (w @ ''/feedback'')"
    using assms(1) by (simp_all add: ordinary_wing_def plain_def)
  obtain g where "g \<in> {w @ ''/*'', w @ ''/preferences'', w @ ''/feedback''}" "glob g path"
    using assms(2,3) by (auto simp: matches_any_def list_ex_iff)
  then consider "glob ((w @ ''/'') @ ''*'') path" | "path = w @ ''/preferences''" | "path = w @ ''/feedback''"
    using glob_plain [OF p(2)] glob_plain [OF p(3)] by auto
  then show ?thesis
  proof cases
    case 1
    then obtain t where "path = (w @ ''/'') @ t" using glob_plain_append [OF p(1)] by blast
    then show ?thesis using startswith_append [of "w @ ''/''" t] by simp
  next
    case 2
    then show ?thesis using startswith_append [of "w @ ''/''" "''preferences''"] by simp
  next
    case 3
    then show ?thesis using startswith_append [of "w @ ''/''" "''feedback''"] by simp
  qed
qed

lemma loaded_never_writes:
  assumes "finalizer \<or> types = [] \<or> needs = [''*'']"
  shows "client_store (snd (client_write v (loaded_profile i name daily burst types needs reads k writes finalizer) ops body room mtype conv md clk c)) =
    client_store c"
proof (rule ccontr)
  let ?p = "loaded_profile i name daily burst types needs reads k writes finalizer"
  obtain res c' where w: "client_write v ?p ops body room mtype conv md clk c = (res, c')"
    by (cases "client_write v ?p ops body room mtype conv md clk c")
  assume "client_store (snd (client_write v ?p ops body room mtype conv md clk c)) \<noteq> client_store c"
  with w have "client_store c' \<noteq> client_store c" by simp
  from store_write_needs [OF w this] assms show False
    using star_required [of ?p] by (auto simp add: loaded_profile_def)
qed

text \<open>
  C26: the shipped configuration works and only proposes.  Whatever the owner's identity, as long as the wing is an
  ordinary name, every rendered profile loads against the rendered wings under the name of its file, and is scoped to
  the one tenant of the box.  It reads the owner's wing only.  No write of a client with any of them changes the
  durable store: a candidate can be submitted with the serving and the MCP write profile and goes to the queue, and the
  finalizer's profile is the one that only the finalizer may use.
\<close>

theorem shipped_config_proposes:
  assumes "ordinary_wing (owner_wing i)" and "(logical, file, d) \<in> set (distribution_profiles i)"
  shows "\<exists>p. load_profile i (load_known_wing_rooms (render_wings i)) (JObj d) = Inr p \<and> file = profile_file (prof_name p) \<and>
    tenant_scope p = [default_tenant_id i] \<and> (finalizer_only p \<longleftrightarrow> logical = ''finalizer_profile'') \<and>
    (write_capable p \<longleftrightarrow> logical \<in> {''serving_profile'', ''mcp_write_profile''}) \<and>
    (\<forall>path. path_readable p path \<longrightarrow> startswith (owner_wing i @ ''/'') path) \<and>
    (\<forall>v ops body room mtype conv md clk (c :: 's client). client_store (snd (client_write v p ops body room mtype conv md clk c)) = client_store c)"
proof -
  obtain name daily burst types needs reads k writes finalizer where
    l: "load_profile i (load_known_wing_rooms (render_wings i)) (JObj d) =
      Inr (loaded_profile i name daily burst types needs reads k writes finalizer)" and
    f: "file = profile_file name" "finalizer \<longleftrightarrow> logical = ''finalizer_profile''"
      "set reads \<subseteq> {owner_wing i @ ''/*'', owner_wing i @ ''/preferences'', owner_wing i @ ''/feedback''}" and
    c: "finalizer \<and> writes \<and> types \<noteq> [] \<and> needs = [] \<or>
     \<not> finalizer \<and> writes \<and> types \<noteq> [] \<and> needs = [''*''] \<and> logical \<in> {''serving_profile'', ''mcp_write_profile''} \<or>
     \<not> finalizer \<and> \<not> writes \<and> types = [] \<and> needs = [] \<and> logical \<in> {''mcp_read_profile'', ''stdio_default_profile''}"
    using rendered_loads [OF assms] by (elim exE conjE)
  let ?p = "loaded_profile i name daily burst types needs reads k writes finalizer"
  have w: "write_capable ?p \<longleftrightarrow> logical \<in> {''serving_profile'', ''mcp_write_profile''}"
    using c f(2) by (elim disjE conjE insertE emptyE) (simp_all add: write_capable_def loaded_profile_def)
  have r: "startswith (owner_wing i @ ''/'') path" if "path_readable ?p path" for path
    using owner_reads [OF assms(1) f(3)] that by (simp add: path_readable_def loaded_profile_def)
  have "finalizer \<or> types = [] \<or> needs = [''*'']" using c by blast
  note n = loaded_never_writes [OF this]
  have s: "prof_name ?p = name" "tenant_scope ?p = [default_tenant_id i]" "finalizer_only ?p = finalizer"
    by (simp_all add: loaded_profile_def)
  show ?thesis
    by (intro exI [of _ ?p] conjI allI impI, rule l, unfold s, rule f(1), rule refl, rule f(2), rule w, erule r, rule n)
qed

subsection \<open>The generic identity\<close>

theorem shipped_config_proposes_witness:
  "\<exists>p. load_profile sample_identity (load_known_wing_rooms (render_wings sample_identity)) (JObj (render_serving_profile sample_identity)) = Inr p \<and>
     prof_name p = ''serving'' \<and> write_capable p"
proof -
  have "ordinary_wing (owner_wing sample_identity)" by code_simp
  moreover have "(''serving_profile'', profile_file SERVING_PROFILE_NAME, render_serving_profile sample_identity) \<in>
      set (distribution_profiles sample_identity)"
    unfolding distribution_profiles_def by (intro list.set_intros)
  ultimately obtain p where p: "load_profile sample_identity (load_known_wing_rooms (render_wings sample_identity))
        (JObj (render_serving_profile sample_identity)) = Inr p"
      "profile_file SERVING_PROFILE_NAME = profile_file (prof_name p)" "write_capable p"
    using shipped_config_proposes [of sample_identity "''serving_profile''"] by (blast intro: insertI1)
  then show ?thesis by (intro exI [of _ p]) (simp add: profile_file_def SERVING_PROFILE_NAME_def)
qed

end
