(* ===== verification/Spec2Isabelle.thy ===== *)
theory Spec2Isabelle
  imports Http_Routes Source_Replace Tag_Lock Store_Probe Model_Router Resolver_Calibrate
    Bridge_Health Config_Render
begin

text \<open>
  A verification development for Panella, a memory service for agents in which nothing an agent proposes
  becomes durable before a human approves it.

  \<^bold>\<open>The program.\<close>  Agents propose memories; a proposal that needs approval becomes a row of the
  approval queue (\<open>client.py\<close>, \<open>client_raw.py\<close>).  An approver presents a credential through the configured
  transport (\<open>approval_transport.py\<close>, \<open>governance.py\<close>); the approval service (\<open>approval_service.py\<close>) first
  writes the decision to a hash-chained log (\<open>audit.py\<close>), then stamps the row with the receipt of that
  record, then runs the finalizer (\<open>approval_finalizer.py\<close>), which verifies the receipt against the log
  before it claims the row, rebuilds a controlled payload, writes it to the memory store and records the
  durable id.  Root elevation (\<open>break_glass.py\<close>) and the identity rules (\<open>principal.py\<close>, \<open>profile.py\<close>)
  surround this.

  \<^bold>\<open>The theories.\<close>
  \<^item> \<open>Prelude\<close>: exceptions as values, Python's string functions and dictionaries, tables of rows.
  \<^item> \<open>Json\<close>: JSON values, \<open>json.dumps\<close> with sorted keys and \<open>json.loads\<close>; reading back what was
    written, and injectivity of the canonical text.
  \<^item> \<open>Governance\<close>, \<open>Transport\<close>, \<open>Principals\<close>, \<open>Profiles\<close>: \<open>governance.py\<close>, \<open>approval_transport.py\<close>,
    \<open>principal.py\<close>, \<open>profile.py\<close>.
  \<^item> \<open>Audit_Log\<close>: \<open>audit.py\<close>; a receipt is good for ever and determines its prefix.
  \<^item> \<open>Break_Glass\<close>: \<open>break_glass.py\<close>.
  \<^item> \<open>Approval_Queue\<close>: the transactions of \<open>client_raw.py\<close> on the outbox, the receipt migration, the
    enqueueing INSERT of \<open>client.py\<close> and \<open>memory_history.py\<close>.
  \<^item> \<open>Finalizer\<close>: \<open>approval_finalizer.py\<close>.
  \<^item> \<open>Approval_Service\<close>: \<open>approval_service.py\<close> and \<open>approval_audit.py\<close>.
  \<^item> \<open>Wing_Boost\<close>, \<open>Store_Adapter\<close>: \<open>wing_boost.py\<close> and \<open>panella_adapter.py\<close>; what is posted reads back,
    tag transitions are verified, lookups are complete, searches show only what may be recalled.
  \<^item> \<open>Counters\<close>: \<open>counters.py\<close>.
  \<^item> \<open>Memory_Client\<close>: \<open>client.py\<close>: writes with their checks, quotas and approval routing, reads through the
    filter of tenant, status and room, tombstone and supersede, elevation.
  \<^item> \<open>Forget\<close>: the hard delete of \<open>client.py\<close>, which claims, deletes and purges.
  \<^item> \<open>Source_Replace\<close>: the source-version replacement of \<open>client.py\<close>.
  \<^item> \<open>Reader\<close>, \<open>Client_Search\<close>: \<open>reader.py\<close>, whose clusters are shown to be connected components and whose
    order to keep live rows before stale ones, and the hybrid search of \<open>client.py\<close> over it.
  \<^item> \<open>Mcp_Tools\<close>: \<open>mcp_tools.py\<close> and \<open>write_hygiene.py\<close>: which tools a context registers, their dispatch and
    handlers; only a verified approval reaches the store, and a submission only queues.
  \<^item> \<open>Http_Tokens\<close>, \<open>Http_Auth\<close>, \<open>Http_Routes\<close>: \<open>http/tokens.py\<close>, \<open>http/auth.py\<close> with the gates of
    \<open>http/app.py\<close>, and \<open>http/routes/\<close>: the token table, bearer authentication, the rate limiter, and the routes
    over a \<open>server\<close> (the world, the tokens, elevations, the statistics cache); a new client per request.
  \<^item> \<open>Tag_Lock\<close>: \<open>tag_lock.py\<close>, and the locked GET-merge-PUT of \<open>panella_adapter.py\<close> run by any number of
    processes, as a step relation that refines atomic updates.
  \<^item> \<open>Reconcile\<close>: \<open>reconcile.py\<close>: forgotten rows are reported once.
  \<^item> \<open>Store_Probe\<close>: \<open>store_probe.py\<close>: the self-check serves a store exactly when it holds the owner's rows.
  \<^item> \<open>Py_Float\<close>, \<open>Preference_Decide\<close>: floats that are only compared, and \<open>preference_decide.py\<close>: a model only
    proposes which stored preference a new one is about; a wrong reply never merges two.
  \<^item> \<open>Preference_Extract\<close>, \<open>Model_Router\<close>: \<open>preference_extraction.py\<close>, whose batches account for every entry
    of a reply, and \<open>model_router.py\<close>: checked routes, the bindings that serve a tier in order, and where a
    credential may go.  The one POST of a binding is a parameter.
  \<^item> \<open>Bridge_Health\<close>: \<open>bridge_health.py\<close>: streaks of failed runs and stale wings, and exactly when they alert.
  \<^item> \<open>Config_Render\<close>: \<open>config_render.py\<close>: the profiles a distribution is shipped with load and only propose.
  \<^item> \<open>Resolver_Types\<close>, \<open>Resolver_Normalize\<close>, \<open>Resolver_Registry\<close>, \<open>Resolver_Blocking\<close>,
    \<open>Resolver_Fallback\<close>, \<open>Resolver_Engine\<close>, \<open>Resolver_Calibrate\<close>: \<open>resolver/\<close>: the contracts, the folding of
    names, the registry and its governance log, risk evidence and the closed choice set, the provider that
    asks a model, the engine that resolves one request to a slot within the budget of a run, and the fitting
    and verification of the threshold a model's confidence has to reach.

  \<^bold>\<open>State and effects.\<close>  A database is a record of tables, a table a list of rows, and a transaction a
  function to a result and the next database; an exception rolls it back.  A \<open>world\<close> is the outbox, the
  log and the store, which commit separately.  Functions of the service act on a world and leave what
  they had committed when they raise.  SHA-256, the sanitizer and the parsed configuration are a record
  \<open>env\<close> of parameters, the memory store is a record \<open>store_ops\<close> of the calls the code makes of its
  adapter over an arbitrary store state, and every reading of the clock is an argument.

  \<^bold>\<open>Interfaces.\<close>  \<open>approval_transport\<close> (a verifier and a stamp), \<open>receipt_log\<close> (append and bounded
  verification), \<open>row_update\<close> (an UPDATE that keeps the row invariant), \<open>candidate_client\<close> (a client whose
  searches and gated writes leave the store alone) and \<open>fallback_provider\<close> (a well-formed answer) are locales, each interpreted on
  the model's own definitions; the properties rest on these interpretations.

  \<^bold>\<open>Bounds.\<close>  No definition needs fuel: the recursions are on lists, values, texts or remaining attempts and
  terminate, but for the page loop of the corpus aggregate, a partial function that ends when the store does,
  and the polling of the tag lock, a partial function shown to return when every attempt takes time.
  Strings are sequences of bytes (the UTF-8 text); white space and letter case are those of ASCII.

  \<^bold>\<open>Not modelled.\<close>  The sanitizer's regular expressions, the opening of store and log files, the command
  line and the self-host installer, the start of the HTTP application and its static console, and the evaluation scripts: process and file-system glue around
  the code above, or code that only measures it.
\<close>

end
